(* ===== verification/Vitex_Prelude.thy ===== *)
theory Vitex_Prelude
  imports Main "HOL-Library.Word"
begin

text \<open>
  The prelude of the development: the machine types of the C++ sources, the rewrite
  collections the component theories share, and the generic facts about a machine word
  that is stored as two halves.  The 128-bit and the 256-bit integers of
  \<^verbatim>\<open>compute.cpp\<close> are both such pairs, so every carry, borrow, comparison and shift
  argument is made once here, for halves of any length.
\<close>

unbundle bit_operations_syntax

type_synonym u8 = "8 word"
type_synonym u16 = "16 word"
type_synonym u32 = "32 word"
type_synonym u64 = "64 word"

named_theorems refine_simps \<open>equations that push an abstraction function through an operation\<close>
named_theorems branch_simps \<open>what an operation does on each of its branches\<close>

section \<open>A word stored as two halves\<close>

definition word_join :: "'h::len word \<Rightarrow> 'h word \<Rightarrow> 'd::len word" where
  "word_join hi lo = push_bit LENGTH('h) (ucast hi) OR ucast lo"

lemma bit_word_join:
  "LENGTH('d) = 2 * LENGTH('h) \<Longrightarrow>
   bit (word_join (hi::'h::len word) lo :: 'd::len word) n \<longleftrightarrow>
     (if n < LENGTH('h) then bit lo n else bit hi (n - LENGTH('h)))"
  by (auto simp: word_join_def bit_simps dest: bit_imp_le_length)

lemma uint_word_join:
  assumes "LENGTH('d) = 2 * LENGTH('h)"
  shows "uint (word_join (hi::'h::len word) lo :: 'd::len word) = uint hi * 2 ^ LENGTH('h) + uint lo"
proof -
  have disj: "push_bit LENGTH('h) (uint hi) AND uint lo = 0"
    by (rule bit_eqI) (auto simp: bit_simps dest: bit_imp_le_length)
  have "uint (word_join hi lo :: 'd word) = (push_bit LENGTH('h) (uint hi) OR uint lo)"
    using assms by (intro bit_eqI) (auto simp: word_join_def bit_simps dest: bit_imp_le_length)
  also have "\<dots> = push_bit LENGTH('h) (uint hi) + uint lo"
    using disj by (simp add: disjunctive_add_eq_or)
  finally show ?thesis by (simp add: push_bit_eq_mult)
qed

lemma unat_word_join:
  assumes "LENGTH('d) = 2 * LENGTH('h)"
  shows "unat (word_join (a::'h::len word) b :: 'd::len word) = unat a * 2 ^ LENGTH('h) + unat b"
proof -
  have "int (unat (word_join a b :: 'd word)) = int (unat a * 2 ^ LENGTH('h) + unat b)"
    using uint_word_join [OF assms, of a b] by simp
  then show ?thesis by (simp only: of_nat_eq_iff)
qed

lemma word_join_inject:
  assumes "LENGTH('d) = 2 * LENGTH('h)"
  shows "(word_join (a::'h::len word) b :: 'd::len word) = word_join c d \<longleftrightarrow> a = c \<and> b = d"
proof
  assume eq: "(word_join a b :: 'd word) = word_join c d"
  have "bit b n = bit d n" if "n < LENGTH('h)" for n
    using arg_cong [OF eq, of "\<lambda>w. bit w n"] that assms by (simp add: bit_word_join)
  moreover have "bit a n = bit c n" for n
    using arg_cong [OF eq, of "\<lambda>w. bit w (n + LENGTH('h))"] assms by (simp add: bit_word_join)
  ultimately show "a = c \<and> b = d" by (simp add: bit_eq_iff)
qed simp

lemma lex_less_int:
  fixes a b c d B :: int
  assumes "0 \<le> b" "b < B" "0 \<le> d" "d < B"
  shows "a * B + b < c * B + d \<longleftrightarrow> (if a = c then b < d else a < c)"
proof -
  have *: "x * B + y < z * B + w" if "x < z" "0 \<le> w" "y < B" "0 \<le> B" for x y z w
  proof -
    have "(x + 1) * B \<le> z * B" using that by (intro mult_right_mono) auto
    then have "x * B + B \<le> z * B" by (simp add: distrib_right)
    with that show ?thesis by linarith
  qed
  show ?thesis using *[of a c d b] *[of c a b d] assms by (cases a c rule: linorder_cases) auto
qed

lemma word_join_less:
  assumes len: "LENGTH('d) = 2 * LENGTH('h)"
  shows "(word_join (a::'h::len word) b :: 'd::len word) < word_join c d \<longleftrightarrow>
    (if a = c then b < d else a < c)"
  unfolding word_less_def uint_word_join [OF len]
  by (subst lex_less_int) (auto simp: uint_lt2p word_uint_eq_iff)

lemma word_join_eq_of_int:
  assumes "LENGTH('d) = 2 * LENGTH('h)"
  shows "(word_join (a::'h::len word) b :: 'd::len word) = word_of_int (uint a * 2 ^ LENGTH('h) + uint b)"
  by (metis assms uint_word_join word_of_int_uint)

lemma word_join_eqI:
  assumes len: "LENGTH('d) = 2 * LENGTH('h)"
    and "(uint (a::'h::len word) * 2 ^ LENGTH('h) + uint b) mod 2 ^ LENGTH('d) = x mod 2 ^ LENGTH('d)"
  shows "(word_join a b :: 'd::len word) = word_of_int x"
  unfolding word_join_eq_of_int [OF len] using assms(2)
  by (simp add: word_of_int_eq_iff take_bit_eq_mod del: of_int_add of_int_mult)

lemma uint_add_carry:
  "uint (x + y) = uint x + uint (y::'h::len word) - of_bool (x + y < x) * 2 ^ LENGTH('h)"
proof -
  have "x + y < x \<longleftrightarrow> 2 ^ LENGTH('h) \<le> uint x + uint y"
    using uint_lt2p [of y] by (simp add: word_less_def uint_word_ariths mod_add_if_z)
  then show ?thesis by (simp add: uint_word_ariths mod_add_if_z)
qed

lemma uint_sub_borrow:
  "uint (x - y) = uint x - uint (y::'h::len word) + of_bool (x < x - y) * 2 ^ LENGTH('h)"
proof -
  have "x < x - y \<longleftrightarrow> uint x < uint y"
    using uint_lt2p [of y] by (simp add: word_less_def uint_word_ariths mod_sub_if_z)
  then show ?thesis by (simp add: uint_word_ariths mod_sub_if_z)
qed

lemma mod_shifted_half:
  "LENGTH('d) = 2 * LENGTH('h) \<Longrightarrow> B = 2 ^ LENGTH('h) \<Longrightarrow>
   (a + b * B) mod 2 ^ LENGTH('d::len) = (a + c * B) mod 2 ^ LENGTH('d) \<longleftrightarrow>
   (b::int) mod 2 ^ LENGTH('h::len) = c mod 2 ^ LENGTH('h)"
proof -
  assume len: "LENGTH('d) = 2 * LENGTH('h)" and B: "B = 2 ^ LENGTH('h)"
  have "(2::int) ^ LENGTH('d) = B * B" using len B by (simp add: mult_2 power_add)
  moreover have "B * B dvd (b - c) * B \<longleftrightarrow> B dvd (b - c)" using B by (simp add: mult.commute)
  moreover have "(a + b * B) - (a + c * B) = (b - c) * B" by (simp add: left_diff_distrib)
  ultimately show ?thesis using B by (simp only: mod_eq_dvd_iff)
qed

lemma word_join_add:
  assumes len: "LENGTH('d) = 2 * LENGTH('h)"
  shows "(word_join (a + c + of_bool (b + d < b)) (b + (d::'h::len word)) :: 'd::len word)
    = word_join a b + word_join c d"
proof -
  let ?B = "2 ^ LENGTH('h) :: int"
  let ?k = "of_bool (b + d < b) :: int"
  have "uint (a + c + of_bool (b + d < b)) mod ?B = (uint a + uint c + ?k) mod ?B"
    by (simp add: uint_word_ariths mod_simps)
  then have "(uint (b + d) + uint (a + c + of_bool (b + d < b)) * ?B) mod 2 ^ LENGTH('d)
     = (uint (b + d) + (uint a + uint c + ?k) * ?B) mod 2 ^ LENGTH('d)"
    by (simp only: mod_shifted_half [OF len refl])
  also have "uint (b + d) + (uint a + uint c + ?k) * ?B = (uint a * ?B + uint b) + (uint c * ?B + uint d)"
    by (simp only: uint_add_carry [of b d]) (simp add: algebra_simps)
  finally have "(word_join (a + c + of_bool (b + d < b)) (b + d) :: 'd word)
    = word_of_int ((uint a * ?B + uint b) + (uint c * ?B + uint d))"
    by (intro word_join_eqI [OF len]) (simp only: add.commute)
  then show ?thesis by (simp only: word_join_eq_of_int [OF len] wi_hom_add)
qed

lemma word_join_sub:
  assumes len: "LENGTH('d) = 2 * LENGTH('h)"
  shows "(word_join (a - c - of_bool (b < b - d)) (b - (d::'h::len word)) :: 'd::len word)
    = word_join a b - word_join c d"
proof -
  let ?B = "2 ^ LENGTH('h) :: int"
  let ?k = "of_bool (b < b - d) :: int"
  have "uint (a - c - of_bool (b < b - d)) mod ?B = (uint a - uint c - ?k) mod ?B"
    by (simp add: uint_word_ariths mod_simps)
  then have "(uint (b - d) + uint (a - c - of_bool (b < b - d)) * ?B) mod 2 ^ LENGTH('d)
     = (uint (b - d) + (uint a - uint c - ?k) * ?B) mod 2 ^ LENGTH('d)"
    by (simp only: mod_shifted_half [OF len refl])
  also have "uint (b - d) + (uint a - uint c - ?k) * ?B = (uint a * ?B + uint b) - (uint c * ?B + uint d)"
    by (simp only: uint_sub_borrow [of b d]) (simp add: algebra_simps)
  finally have "(word_join (a - c - of_bool (b < b - d)) (b - d) :: 'd word)
    = word_of_int ((uint a * ?B + uint b) - (uint c * ?B + uint d))"
    by (intro word_join_eqI [OF len]) (simp only: add.commute)
  then show ?thesis by (simp only: word_join_eq_of_int [OF len] wi_hom_sub)
qed

lemma word_join_bitwise:
  assumes "LENGTH('d) = 2 * LENGTH('h)"
  shows word_join_and: "(word_join (a AND c) (b AND d) :: 'd::len word) = word_join (a::'h::len word) b AND word_join c d"
    and word_join_or: "(word_join (a OR c) (b OR d) :: 'd word) = word_join a b OR word_join c d"
    and word_join_xor: "(word_join (a XOR c) (b XOR d) :: 'd word) = word_join a b XOR word_join c d"
    and word_join_not: "(word_join (NOT a) (NOT b) :: 'd word) = NOT (word_join a b)"
  using assms by (auto intro!: bit_eqI simp: bit_word_join bit_simps)

lemma word_join_zero [simp]: "word_join 0 0 = 0"
  by (simp add: word_join_def)

lemma word_join_lo: "word_join 0 b = ucast b"
  by (simp add: word_join_def)

lemma word_join_eq_0: 
  "LENGTH('d) = 2 * LENGTH('h) \<Longrightarrow> (word_join (a::'h::len word) b :: 'd::len word) = 0 \<longleftrightarrow> a = 0 \<and> b = 0"
  using word_join_inject [where 'h = 'h and 'd = 'd, of a b 0 0] by simp

subsection \<open>Shifts across the two halves\<close>

text \<open>
  The sources join the two shifted parts of a half with \<open>+\<close>; the parts have no bit in
  common, so that is the bitwise or.
\<close>

lemma add_disjoint_shifts:
  fixes a b :: "'h::len word"
  assumes "n + m = LENGTH('h)"
  shows "push_bit n a + drop_bit m b = (push_bit n a OR drop_bit m b)"
    and "drop_bit n a + push_bit m b = (drop_bit n a OR push_bit m b)"
  using assms
  by (intro disjunctive_add bit_eqI; auto simp: bit_simps dest: bit_imp_le_length)+

lemma bit_beyond: "LENGTH('h) \<le> i \<Longrightarrow> \<not> bit (w::'h::len word) i"
  by (auto dest: bit_imp_le_length)

lemma word_join_push_bit:
  assumes len: "LENGTH('d) = 2 * LENGTH('h)" and n: "0 < n" "n < LENGTH('h)"
  shows "(word_join (push_bit n (a::'h::len word) + drop_bit (LENGTH('h) - n) b) (push_bit n b) :: 'd::len word)
    = push_bit n (word_join a b)"
proof -
  have "n + (LENGTH('h) - n) = LENGTH('h)" using n by simp
  note or = add_disjoint_shifts(1) [OF this]
  show ?thesis unfolding or
  proof (rule bit_eqI)
    fix k assume "possible_bit TYPE('d word) k"
    then have k: "k < LENGTH('d)" by simp
    have i: "LENGTH('h) - n + (k - LENGTH('h)) = k - n" "k - LENGTH('h) - n = k - n - LENGTH('h)"
      if "LENGTH('h) \<le> k" using n that by auto
    show "bit (word_join (push_bit n a OR drop_bit (LENGTH('h) - n) b) (push_bit n b) :: 'd word) k
      = bit (push_bit n (word_join a b :: 'd word)) k"
      using len n k i
      by (cases "k < LENGTH('h)"; cases "k - n < LENGTH('h)")
         (auto simp: bit_word_join bit_simps bit_beyond)
  qed
qed

lemma word_join_push_bit_half:
  assumes len: "LENGTH('d) = 2 * LENGTH('h)" and n: "LENGTH('h) \<le> n"
  shows "(word_join (push_bit (n - LENGTH('h)) (b::'h::len word)) 0 :: 'd::len word) = push_bit n (word_join a b)"
proof (rule bit_eqI)
  fix k assume "possible_bit TYPE('d word) k"
  then have k: "k < LENGTH('d)" by simp
  have i: "k - LENGTH('h) - (n - LENGTH('h)) = k - n" using n by auto
  show "bit (word_join (push_bit (n - LENGTH('h)) b) 0 :: 'd word) k = bit (push_bit n (word_join a b :: 'd word)) k"
    using len n k by (cases "k < LENGTH('h)") (auto simp: bit_word_join bit_simps i)
qed

lemma word_join_drop_bit:
  assumes len: "LENGTH('d) = 2 * LENGTH('h)" and n: "0 < n" "n < LENGTH('h)"
  shows "(word_join (drop_bit n (a::'h::len word)) (push_bit (LENGTH('h) - n) a + drop_bit n b) :: 'd::len word)
    = drop_bit n (word_join a b)"
proof -
  have "(LENGTH('h) - n) + n = LENGTH('h)" using n by simp
  note or = add_disjoint_shifts(1) [OF this]
  show ?thesis unfolding or
  proof (rule bit_eqI)
    fix k assume "possible_bit TYPE('d word) k"
    then have k: "k < LENGTH('d)" by simp
    have i: "k - (LENGTH('h) - n) = n + k - LENGTH('h)" "n + (k - LENGTH('h)) = n + k - LENGTH('h)"
      if "LENGTH('h) \<le> k" using n that by auto
    have j: "k - (LENGTH('h) - n) = n + k - LENGTH('h)" using n by auto
    show "bit (word_join (drop_bit n a) (push_bit (LENGTH('h) - n) a OR drop_bit n b) :: 'd word) k
      = bit (drop_bit n (word_join a b :: 'd word)) k"
      using len n k i j
      by (cases "k < LENGTH('h)"; cases "n + k < LENGTH('h)")
         (auto simp: bit_word_join bit_simps bit_beyond)
  qed
qed

lemma word_join_drop_bit_half:
  assumes len: "LENGTH('d) = 2 * LENGTH('h)" and n: "LENGTH('h) \<le> n"
  shows "(word_join 0 (drop_bit (n - LENGTH('h)) (a::'h::len word)) :: 'd::len word) = drop_bit n (word_join a b)"
proof (rule bit_eqI)
  fix k assume "possible_bit TYPE('d word) k"
  then have k: "k < LENGTH('d)" by simp
  have i: "n - LENGTH('h) + k = n + k - LENGTH('h)" using n by auto
  show "bit (word_join 0 (drop_bit (n - LENGTH('h)) a) :: 'd word) k = bit (drop_bit n (word_join a b :: 'd word)) k"
    using len n k by (cases "k < LENGTH('h)") (auto simp: bit_word_join bit_simps i bit_beyond)
qed

section \<open>Words and natural numbers\<close>

lemma unat_bound: "unat (w::'a::len word) < 2 ^ LENGTH('a)"
  by (rule unsigned_less)

lemma word_eq_of_nat: "unat (w::'a::len word) = n \<Longrightarrow> w = word_of_nat n"
  by (metis of_nat_unat ucast_id)

lemma unat_drop_bit_1_less: "w \<noteq> 0 \<Longrightarrow> unat (drop_bit 1 w) < unat (w::'a::len word)"
  by (simp only: unat_drop_bit_eq) (simp add: drop_bit_Suc unat_gt_0)

lemma unat_drop_bit_div: "unat (drop_bit n (w::'a::len word)) = unat w div 2 ^ n"
  by (simp only: unat_drop_bit_eq) (simp add: drop_bit_eq_div)

lemma unat_push_bit:
  "unat w * 2 ^ n < 2 ^ LENGTH('a) \<Longrightarrow> unat (push_bit n (w::'a::len word)) = unat w * 2 ^ n"
  by (simp only: unsigned_push_bit_eq) (simp add: push_bit_eq_mult take_bit_eq_mod)

lemma unat_double: "2 * unat w < 2 ^ LENGTH('a) \<Longrightarrow> unat (w * 2 :: 'a::len word) = 2 * unat w"
  by (cases "LENGTH('a) = 1") (auto simp: unat_word_ariths unat_eq_0 mult.commute)

lemma unat_inc: "unat w + 1 < 2 ^ LENGTH('a) \<Longrightarrow> unat (w + 1 :: 'a::len word) = unat w + 1"
  by (simp add: unat_word_ariths)

lemma odd_unat: "odd (unat w) \<longleftrightarrow> odd (w::'a::len word)"
  unfolding bit_0 [symmetric] by (simp add: bit_unsigned_iff)

lemma unat_or_pow2:
  fixes q a :: "'a::len word"
  assumes a: "unat a = 2 ^ k" and q: "2 ^ Suc k dvd unat q"
  shows "unat (q OR a) = unat q + 2 ^ k"
proof -
  have "\<not> bit (unat q) k" using q by (auto simp: bit_iff_odd elim!: dvdE)
  moreover have "bit (unat a) n \<longleftrightarrow> n = k" for n by (simp add: a bit_exp_iff)
  ultimately have "unat q AND unat a = 0" by (intro bit_eqI) (auto simp: bit_simps)
  then have "unat q OR unat a = unat q + unat a" by (simp add: disjunctive_add_eq_or)
  then show ?thesis by (simp add: unsigned_or_eq a)
qed

lemma div_pow_step: "n div 2 ^ x = 2 * (n div 2 ^ Suc x) + n div 2 ^ x mod (2::nat)"
proof -
  have "n div 2 ^ Suc x = n div 2 ^ x div 2" unfolding power_Suc2 by (rule div_mult2_eq)
  then show ?thesis by simp
qed

lemma push_bit_word_beyond: "LENGTH('a) \<le> n \<Longrightarrow> push_bit n (w::'a::len word) = 0"
  by (rule bit_eqI) (simp add: bit_simps)

lemma drop_bit_word_beyond: "LENGTH('a) \<le> n \<Longrightarrow> drop_bit n (w::'a::len word) = 0"
  by (rule bit_eqI) (auto simp: bit_simps bit_beyond)

section \<open>Schoolbook multiplication\<close>

text \<open>
  Both wide integers multiply four limbs by four limbs, split each partial product at the
  limb size \<open>W\<close> and add the columns.  The columns add up to the product modulo \<open>W ^ 4\<close>;
  \<open>carry_chain\<close> is the carry propagation that the 128-bit product does by hand.
\<close>

lemma schoolbook_product:
  fixes a0 a1 a2 a3 b0 b1 b2 b3 W :: nat
  defines "hi \<equiv> \<lambda>p. p div W" and "lo \<equiv> \<lambda>p. p mod W"
  assumes W: "0 < W"
  shows "(lo (a3 * b3)
      + W * (lo (a3 * b2) + hi (a3 * b3) + lo (a2 * b3))
      + W ^ 2 * (lo (a3 * b1) + hi (a3 * b2) + lo (a2 * b2) + hi (a2 * b3) + lo (a1 * b3))
      + W ^ 3 * (lo (a3 * b0) + hi (a3 * b1) + lo (a2 * b1) + hi (a2 * b2) + lo (a1 * b2) + hi (a1 * b3) + lo (a0 * b3)))
      mod W ^ 4
    = ((a0 * W ^ 3 + a1 * W ^ 2 + a2 * W + a3) * (b0 * W ^ 3 + b1 * W ^ 2 + b2 * W + b3)) mod W ^ 4"
    (is "?s mod _ = ?p mod _")
proof -
  have split: "x = W * hi x + lo x" for x by (simp add: hi_def lo_def)
  let ?r = "a0 * b0 * W ^ 2 + (a0 * b1 + a1 * b0) * W + (a0 * b2 + a1 * b1 + a2 * b0)"
  let ?c = "hi (a3 * b0) + hi (a2 * b1) + hi (a1 * b2) + hi (a0 * b3)"
  have "?p = a3 * b3 + W * (a3 * b2 + a2 * b3) + W ^ 2 * (a3 * b1 + a2 * b2 + a1 * b3)
      + W ^ 3 * (a3 * b0 + a2 * b1 + a1 * b2 + a0 * b3) + W ^ 4 * ?r"
    by (simp add: algebra_simps power2_eq_square power3_eq_cube power4_eq_xxxx)
  also have "\<dots> = ?s + W ^ 4 * (?c + ?r)"
    by (subst split [of "a3 * b3"], subst split [of "a3 * b2"], subst split [of "a2 * b3"],
        subst split [of "a3 * b1"], subst split [of "a2 * b2"], subst split [of "a1 * b3"],
        subst split [of "a3 * b0"], subst split [of "a2 * b1"], subst split [of "a1 * b2"], subst split [of "a0 * b3"])
       (simp add: algebra_simps power2_eq_square power3_eq_cube power4_eq_xxxx)
  finally show ?thesis by simp
qed

lemma limb_bound: "x < A \<Longrightarrow> y < B \<Longrightarrow> x * B + y < A * (B::nat)"
proof -
  assume "x < A" "y < B"
  then have "x * B + y < (x + 1) * B" by simp
  also have "\<dots> \<le> A * B" using \<open>x < A\<close> by (intro mult_right_mono) auto
  finally show ?thesis .
qed

lemma limb_product_bound:
  assumes "a < W" "b < (W::nat)"
  shows "a * b < W * W" "a * b div W < W" "a * b mod W < W"
  using mult_strict_mono [of a W b W] assms by (auto simp: less_mult_imp_div_less)

lemma limb_columns_bound:
  assumes a: "a0 < W" "a1 < W" "a2 < W" "a3 < (W::nat)" and b: "b0 < W" "b1 < W" "b2 < W" "b3 < W"
  shows "a3 * b2 mod W + a3 * b3 div W + a2 * b3 mod W < 3 * W"
    and "a3 * b1 mod W + a3 * b2 div W + a2 * b2 mod W + a2 * b3 div W + a1 * b3 mod W < 5 * W"
    and "a3 * b0 mod W + a3 * b1 div W + a2 * b1 mod W + a2 * b2 div W + a1 * b2 mod W
      + a1 * b3 div W + a0 * b3 mod W < 7 * W"
  using limb_product_bound(2) [OF a(4) b(2)] limb_product_bound(2) [OF a(4) b(3)] limb_product_bound(2) [OF a(4) b(4)]
    limb_product_bound(2) [OF a(3) b(3)] limb_product_bound(2) [OF a(3) b(4)] limb_product_bound(2) [OF a(2) b(4)]
    limb_product_bound(3) [OF a(4) b(1)] limb_product_bound(3) [OF a(4) b(2)] limb_product_bound(3) [OF a(4) b(3)]
    limb_product_bound(3) [OF a(3) b(2)] limb_product_bound(3) [OF a(3) b(3)] limb_product_bound(3) [OF a(3) b(4)]
    limb_product_bound(3) [OF a(2) b(3)] limb_product_bound(3) [OF a(2) b(4)] limb_product_bound(3) [OF a(1) b(4)]
  by linarith+

lemma carry_chain:
  fixes f4 t3 s2 f1 W :: nat
  assumes W: "0 < W" "f4 < W"
  defines "s2' \<equiv> s2 + t3 div W"
  defines "f1' \<equiv> f1 + s2' div W"
  shows "((f1' mod W) * W + s2' mod W) * W ^ 2 + ((t3 mod W) * W + f4)
    = (f4 + W * t3 + W ^ 2 * s2 + W ^ 3 * f1) mod W ^ 4" (is "?v = _")
proof -
  have A: "f4 + W * (W * q + r) + W ^ 2 * s2 + W ^ 3 * f1 = f4 + W * r + W ^ 2 * (s2 + q) + W ^ 3 * f1" for q r
    by (simp add: algebra_simps power2_eq_square)
  have B: "f4 + W * r + W ^ 2 * (W * q + t) + W ^ 3 * f1 = f4 + W * r + W ^ 2 * t + W ^ 3 * (f1 + q)" for q r t
    by (simp add: algebra_simps power2_eq_square power3_eq_cube)
  have C: "f4 + W * r + W ^ 2 * t + W ^ 3 * (W * q + u) = (u * W + t) * W ^ 2 + (r * W + f4) + W ^ 4 * q" for q r t u
    by (simp add: algebra_simps power2_eq_square power3_eq_cube power4_eq_xxxx)
  have "f4 + W * t3 + W ^ 2 * s2 + W ^ 3 * f1 = f4 + W * (t3 mod W) + W ^ 2 * s2' + W ^ 3 * f1"
    using A [of "t3 div W" "t3 mod W"] by (simp add: s2'_def)
  also have "\<dots> = f4 + W * (t3 mod W) + W ^ 2 * (s2' mod W) + W ^ 3 * f1'"
    using B [of "t3 mod W" "s2' div W" "s2' mod W"] by (simp add: f1'_def)
  also have "\<dots> = ?v + W ^ 4 * (f1' div W)"
    using C [of "t3 mod W" "s2' mod W" "f1' div W" "f1' mod W"] by simp
  finally have "(f4 + W * t3 + W ^ 2 * s2 + W ^ 3 * f1) mod W ^ 4 = ?v mod W ^ 4" by (simp only: mod_mult_self2)
  moreover have "(f1' mod W) * W + s2' mod W < W ^ 2" "(t3 mod W) * W + f4 < W ^ 2"
    unfolding power2_eq_square using W by (auto intro: limb_bound)
  from limb_bound [OF this] have "?v < W ^ 4" by (simp flip: power_add)
  ultimately show ?thesis by simp
qed

section \<open>The length of a number in bits\<close>

fun bit_length :: "nat \<Rightarrow> nat" where
  "bit_length n = (if n = 0 then 0 else Suc (bit_length (n div 2)))"

declare bit_length.simps [simp del]

lemma bit_length_0 [simp]: "bit_length 0 = 0"
  by (simp add: bit_length.simps)

lemma bit_length_double: "0 < n div 2 \<or> 0 < n \<Longrightarrow> bit_length n = Suc (bit_length (n div 2))"
  by (subst bit_length.simps) auto

lemma bit_length_le_iff: "bit_length n \<le> k \<longleftrightarrow> n < 2 ^ k"
proof (induction n arbitrary: k rule: bit_length.induct)
  case (1 n)
  show ?case
  proof (cases "n = 0")
    case False
    then have "bit_length n \<le> k \<longleftrightarrow> (\<exists>j. k = Suc j \<and> bit_length (n div 2) \<le> j)"
      by (subst bit_length.simps) (cases k, auto)
    also have "\<dots> \<longleftrightarrow> (\<exists>j. k = Suc j \<and> n div 2 < 2 ^ j)" using 1 False by simp
    also have "\<dots> \<longleftrightarrow> n < 2 ^ k" using False by (cases k) auto
    finally show ?thesis .
  qed simp
qed

lemma bit_length_bound: "n < 2 ^ bit_length n"
  using bit_length_le_iff [of n "bit_length n"] by simp

lemma bit_length_shift: "0 < a \<Longrightarrow> b < 2 ^ k \<Longrightarrow> bit_length (a * 2 ^ k + b) = bit_length a + k"
proof (induction k arbitrary: b)
  case (Suc k)
  have "(a * 2 ^ Suc k + b) div 2 = a * 2 ^ k + b div 2" by simp
  moreover have "b div 2 < 2 ^ k" using Suc.prems by simp
  ultimately show ?case using Suc.IH [of "b div 2"] Suc.prems(1) by (subst bit_length_double) auto
qed simp

end
