(* ===== verification/Endian.thy ===== *)
theory Endian
  imports Vitex_Prelude
begin

text \<open>
  Byte order (\<^verbatim>\<open>os::hw\<close> of \<^verbatim>\<open>core.h\<close> and \<^verbatim>\<open>core.cpp\<close>).  The model fixes a
  little-endian host: \<open>mem_bytes\<close> is what \<^verbatim>\<open>memcpy\<close> reads from an integer in memory
  and \<open>mem_word\<close> is what it stores, lowest byte first.  \<open>swap_endianness\<close> and
  \<open>to_endianness\<close> are the two conversions of the sources over that memory.
\<close>

section \<open>Host memory\<close>

definition mem_bytes :: "'a::len word \<Rightarrow> u8 list" where
  "mem_bytes w = map (\<lambda>i. ucast (drop_bit (8 * i) w)) [0..<LENGTH('a) div 8]"

fun mem_word :: "u8 list \<Rightarrow> 'a::len word" where
  "mem_word [] = 0"
| "mem_word (b # bs) = push_bit 8 (mem_word bs) OR ucast b"

section \<open>The conversions of \<^verbatim>\<open>os::hw\<close>\<close>

datatype endian = little | big

definition get_endianness :: endian where
  "get_endianness = (let value = 0xFF00 :: u16; result = mem_bytes value ! 0
     in if result = 0xFF then big else little)"

definition swap_endianness :: "'a::len word \<Rightarrow> 'a word" where
  "swap_endianness value = mem_word (rev (mem_bytes value))"

definition to_endianness :: "endian \<Rightarrow> 'a::len word \<Rightarrow> 'a word" where
  "to_endianness type value = (if get_endianness = type then value else swap_endianness value)"

section \<open>Laws\<close>

lemma length_mem_bytes [simp]: "length (mem_bytes (w::'a::len word)) = LENGTH('a) div 8"
  by (simp add: mem_bytes_def)

lemma bit_mem_word:
  "bit (mem_word bs :: 'a::len word) n \<longleftrightarrow>
     n < LENGTH('a) \<and> n div 8 < length bs \<and> bit (bs ! (n div 8)) (n mod 8)"
proof (induction bs arbitrary: n)
  case (Cons b bs)
  show ?case
  proof (cases "n < 8")
    case True
    then show ?thesis by (auto simp: bit_simps)
  next
    case False
    then have "n div 8 = Suc ((n - 8) div 8)" "(n - 8) mod 8 = n mod 8" by (auto simp: div_if mod_if)
    with False show ?thesis by (auto simp: bit_simps Cons.IH bit_beyond)
  qed
qed simp

lemma nth_mem_bytes: "i < LENGTH('a) div 8 \<Longrightarrow> mem_bytes (w::'a::len word) ! i = ucast (drop_bit (8 * i) w)"
  by (simp add: mem_bytes_def)

lemma mem_word_bytes:
  assumes "8 dvd LENGTH('a)"
  shows "mem_word (mem_bytes (w::'a::len word)) = w"
proof (rule bit_eqI)
  fix n assume "possible_bit TYPE('a word) n"
  then have n: "n < LENGTH('a)" by simp
  with assms have "n div 8 < LENGTH('a) div 8" by (auto elim!: dvdE)
  with n show "bit (mem_word (mem_bytes w) :: 'a word) n = bit w n"
    by (simp add: bit_mem_word nth_mem_bytes bit_simps)
qed

lemma mem_bytes_word:
  assumes "length bs = LENGTH('a) div 8"
  shows "mem_bytes (mem_word bs :: 'a::len word) = bs"
proof (rule nth_equalityI)
  fix i assume "i < length (mem_bytes (mem_word bs :: 'a word))"
  then have i: "i < LENGTH('a) div 8" by simp
  show "mem_bytes (mem_word bs :: 'a word) ! i = bs ! i"
  proof (rule bit_eqI)
    fix n assume "possible_bit TYPE(8 word) n"
    then have n: "n < 8" by simp
    have "8 * i + n < LENGTH('a)" using i n by linarith
    moreover have "(8 * i + n) div 8 = i" "(8 * i + n) mod 8 = n" using n by simp_all
    ultimately show "bit (mem_bytes (mem_word bs :: 'a word) ! i) n = bit (bs ! i) n"
      using i n assms by (simp add: nth_mem_bytes bit_simps bit_mem_word)
  qed
qed (simp add: assms)

lemma get_endianness_little [simp]: "get_endianness = little"
  by (simp add: get_endianness_def mem_bytes_def)

lemma mem_bytes_to_big: "mem_bytes (to_endianness big (w::'a::len word)) = rev (mem_bytes w)"
  by (simp add: to_endianness_def swap_endianness_def mem_bytes_word)

lemma swap_endianness_involution:
  "8 dvd LENGTH('a) \<Longrightarrow> swap_endianness (swap_endianness w) = (w::'a::len word)"
  by (simp add: swap_endianness_def mem_bytes_word mem_word_bytes)

lemma to_endianness_involution:
  "8 dvd LENGTH('a) \<Longrightarrow> to_endianness e (to_endianness e w) = (w::'a::len word)"
  by (cases e) (simp_all add: to_endianness_def swap_endianness_involution)

section \<open>Bytes of joined, small and shifted words\<close>

lemma mem_bytes_join:
  fixes hi lo :: "'h::len word"
  assumes len: "LENGTH('d) = 2 * LENGTH('h)" and dvd: "8 dvd LENGTH('h)"
  shows "mem_bytes (word_join hi lo :: 'd::len word) = mem_bytes lo @ mem_bytes hi"
proof -
  obtain m where m: "LENGTH('h) = 8 * m" using dvd by (auto elim: dvdE)
  have L: "LENGTH('d) div 8 = m + m" "LENGTH('h) div 8 = m" using len m by simp_all
  show ?thesis
  proof (rule nth_equalityI)
    fix i assume "i < length (mem_bytes (word_join hi lo :: 'd word))"
    then have i: "i < m + m" by (simp add: L)
    show "mem_bytes (word_join hi lo :: 'd word) ! i = (mem_bytes lo @ mem_bytes hi) ! i"
    proof (rule bit_eqI)
      fix n assume "possible_bit TYPE(8 word) n"
      then have n: "n < 8" by simp
      have "8 * i + n < 8 * m \<longleftrightarrow> i < m" using n by auto
      moreover have "8 * i + n - 8 * m = 8 * (i - m) + n" if "\<not> i < m" using that by simp
      ultimately show "bit (mem_bytes (word_join hi lo :: 'd word) ! i) n = bit ((mem_bytes lo @ mem_bytes hi) ! i) n"
        using i n by (cases "i < m") (simp_all add: nth_append nth_mem_bytes L bit_simps bit_word_join len m)
    qed
  qed (simp add: L)
qed

lemma mem_bytes_small:
  fixes w :: "'a::len word"
  assumes "unat w < 2 ^ (8 * k)" "k \<le> LENGTH('a) div 8"
  shows "mem_bytes w = take k (mem_bytes w) @ replicate (LENGTH('a) div 8 - k) 0"
proof -
  have "drop_bit (8 * i) w = 0" if "k \<le> i" for i
  proof -
    have "(2::nat) ^ (8 * k) \<le> 2 ^ (8 * i)" using that by (intro power_increasing) auto
    with assms(1) have "unat w < 2 ^ (8 * i)" by (rule less_le_trans)
    then have "unat w div 2 ^ (8 * i) = 0" by (rule div_less)
    then show ?thesis by (simp add: unat_drop_bit_div flip: unat_eq_0)
  qed
  then have "drop k (mem_bytes w) = replicate (LENGTH('a) div 8 - k) 0"
    using assms(2) by (intro nth_equalityI) (simp_all add: nth_mem_bytes del: distrib_left_numeral)
  then show ?thesis by (metis append_take_drop_id)
qed

lemma mem_bytes_push_bit:
  fixes w :: "'a::len word"
  shows "mem_bytes (push_bit (8 * m) w) = take (LENGTH('a) div 8) (replicate m 0 @ mem_bytes w)"
proof (rule nth_equalityI)
  fix i assume "i < length (mem_bytes (push_bit (8 * m) w))"
  then have i: "i < LENGTH('a) div 8" by simp
  show "mem_bytes (push_bit (8 * m) w) ! i = take (LENGTH('a) div 8) (replicate m 0 @ mem_bytes w) ! i"
  proof (rule bit_eqI)
    fix n assume "possible_bit TYPE(8 word) n"
    then have n: "n < 8" by simp
    have "8 * m \<le> 8 * i + n \<longleftrightarrow> m \<le> i" using n by auto
    moreover have "8 * i + n - 8 * m = 8 * (i - m) + n" if "m \<le> i" using that by simp
    moreover have "8 * i + n < LENGTH('a)" using i n by linarith
    ultimately show "bit (mem_bytes (push_bit (8 * m) w) ! i) n
      = bit (take (LENGTH('a) div 8) (replicate m 0 @ mem_bytes w) ! i) n"
      using i n by (cases "m \<le> i") (auto simp: nth_append nth_mem_bytes bit_simps)
  qed
qed simp

end
