(* ===== verification/Wide_Word.thy ===== *)
theory Wide_Word
  imports Vitex_Prelude
begin

text \<open>
  The contract of a wide unsigned integer: a representation type \<open>'a\<close> with an
  abstraction onto one machine word of the full length, and the operators a client calls.
  The laws are the refinement equations a provider has to discharge; everything a client
  needs of the arithmetic (ring laws, division with remainder, a linear order, shifts as
  multiplication) follows from them once, here.  \<^verbatim>\<open>uint128\<close> and \<^verbatim>\<open>uint256\<close> both
  interpret it.
\<close>

locale wide_word =
  fixes abs :: "'a \<Rightarrow> 'w::len word"
    and of_int :: "int \<Rightarrow> 'a"
    and add sub mul quot rem band bor bxor :: "'a \<Rightarrow> 'a \<Rightarrow> 'a"
    and bnot neg :: "'a \<Rightarrow> 'a"
    and shl :: "'a \<Rightarrow> 'a \<Rightarrow> 'a"
    and eq lt :: "'a \<Rightarrow> 'a \<Rightarrow> bool"
  assumes abs_inject: "abs x = abs y \<longleftrightarrow> x = y"
    and abs_of_int: "0 \<le> k \<Longrightarrow> k < 2 ^ 64 \<Longrightarrow> abs (of_int k) = word_of_int k"
    and abs_add: "abs (add x y) = abs x + abs y"
    and abs_sub: "abs (sub x y) = abs x - abs y"
    and abs_mul: "abs (mul x y) = abs x * abs y"
    and abs_quot: "abs y \<noteq> 0 \<Longrightarrow> abs (quot x y) = abs x div abs y"
    and abs_rem: "abs y \<noteq> 0 \<Longrightarrow> abs (rem x y) = abs x mod abs y"
    and abs_band: "abs (band x y) = abs x AND abs y"
    and abs_bor: "abs (bor x y) = abs x OR abs y"
    and abs_bxor: "abs (bxor x y) = abs x XOR abs y"
    and abs_bnot: "abs (bnot x) = NOT (abs x)"
    and abs_neg: "abs (neg x) = - abs x"
    and abs_shl: "abs (shl x n) = push_bit (unat (abs n)) (abs x)"
    and abs_eq: "eq x y \<longleftrightarrow> abs x = abs y"
    and abs_lt: "lt x y \<longleftrightarrow> abs x < abs y"
begin

lemmas abs_ring = abs_add abs_sub abs_mul abs_neg
lemmas abs_bits = abs_band abs_bor abs_bxor abs_bnot

lemma abs_zero: "abs (of_int 0) = 0" and abs_one: "abs (of_int 1) = 1"
  by (simp_all add: abs_of_int)

lemma add_commute: "add x y = add y x"
  by (simp add: abs_inject [symmetric] abs_ring)

lemma add_assoc: "add (add x y) z = add x (add y z)"
  by (simp add: abs_inject [symmetric] abs_ring)

lemma add_zero: "add x (of_int 0) = x"
  by (simp add: abs_inject [symmetric] abs_ring abs_zero)

lemma add_sub_cancel: "sub (add x y) y = x"
  by (simp add: abs_inject [symmetric] abs_ring)

lemma sub_eq_add_neg: "sub x y = add x (neg y)"
  by (simp add: abs_inject [symmetric] abs_ring)

lemma mul_commute: "mul x y = mul y x"
  by (simp add: abs_inject [symmetric] abs_ring)

lemma mul_assoc: "mul (mul x y) z = mul x (mul y z)"
  by (simp add: abs_inject [symmetric] abs_ring)

lemma mul_one: "mul x (of_int 1) = x"
  by (simp add: abs_inject [symmetric] abs_ring abs_one)

lemma mul_add_distrib: "mul x (add y z) = add (mul x y) (mul x z)"
  by (simp add: abs_inject [symmetric] abs_ring distrib_left)

text \<open>Division with remainder, and that it is the only one that does not wrap around.\<close>

lemma quot_rem:
  assumes "\<not> eq d (of_int 0)"
  shows "add (mul (quot n d) d) (rem n d) = n" and "lt (rem n d) d"
proof -
  have d: "abs d \<noteq> 0" using assms by (simp add: abs_eq abs_zero)
  then show "add (mul (quot n d) d) (rem n d) = n"
    by (simp add: abs_inject [symmetric] abs_ring abs_quot abs_rem word_mod_div_equality)
  show "lt (rem n d) d" using d
    by (simp add: abs_lt abs_rem word_less_nat_alt unat_mod unat_gt_0)
qed

lemma quot_rem_unique:
  assumes "unat (abs q) * unat (abs d) + unat (abs r) = unat (abs n)" and "lt r d"
  shows "q = quot n d" and "r = rem n d"
proof -
  have r: "unat (abs r) < unat (abs d)" using assms(2) by (simp add: abs_lt word_less_nat_alt)
  then have d: "abs d \<noteq> 0" by auto
  have "unat (abs q) = unat (abs n) div unat (abs d)" "unat (abs r) = unat (abs n) mod unat (abs d)"
    using r by (auto simp flip: assms(1))
  then show "q = quot n d" "r = rem n d"
    using d by (simp_all add: abs_inject [symmetric] abs_quot abs_rem word_unat_eq_iff unat_div unat_mod)
qed

lemma lt_irrefl: "\<not> lt x x" and lt_trans: "lt x y \<Longrightarrow> lt y z \<Longrightarrow> lt x z"
  and lt_linear: "lt x y \<or> x = y \<or> lt y x"
  by (auto simp: abs_lt simp flip: abs_inject)

lemma shl_eq_mul: "shl x (of_int n) = mul x (shl (of_int 1) (of_int n))"
  by (simp add: abs_inject [symmetric] abs_ring abs_shl abs_one push_bit_eq_mult)

lemma shl_one: "shl x (of_int 1) = add x x"
  by (simp add: abs_inject [symmetric] abs_ring abs_shl abs_one push_bit_eq_mult)

lemma bxor_self: "bxor x x = of_int 0" and bor_idem: "bor x x = x" and band_idem: "band x x = x"
  by (simp_all add: abs_inject [symmetric] abs_bits abs_zero)

lemma bnot_involution: "bnot (bnot x) = x"
  by (simp add: abs_inject [symmetric] abs_bits)

lemma de_morgan: "bnot (band x y) = bor (bnot x) (bnot y)"
  by (simp add: abs_inject [symmetric] abs_bits)

end

text \<open>A wide word whose right shift is the logical one for every shift amount.\<close>

locale wide_word_shr = wide_word +
  fixes shr :: "'a \<Rightarrow> 'a \<Rightarrow> 'a"
  assumes abs_shr: "abs (shr x n) = drop_bit (unat (abs n)) (abs x)"
begin

lemma shr_shl: 
  assumes "unat (abs x) * 2 ^ unat (abs n) < 2 ^ LENGTH('b)"
  shows "shr (shl x n) n = x"
proof -
  have "unat (abs (shr (shl x n) n)) = unat (abs x)"
    by (simp only: abs_shr abs_shl unat_drop_bit_div unat_push_bit [OF assms]) simp
  then show ?thesis by (simp add: abs_inject word_unat_eq_iff [symmetric])
qed

lemma shr_shr_add:
  "unat (abs m) + unat (abs n) < 2 ^ LENGTH('b) \<Longrightarrow> shr (shr x m) n = shr x (add m n)"
  by (simp add: abs_inject [symmetric] abs_shr abs_add unat_word_ariths drop_bit_drop_bit add.commute)

end

end
