(* ===== verification/UInt128.thy ===== *)
theory UInt128
  imports Endian Wide_Word
begin

text \<open>
  The unsigned 128-bit integer (\<^verbatim>\<open>struct uint128\<close> of \<^verbatim>\<open>compute.h\<close> and
  \<^verbatim>\<open>compute.cpp\<close>): two 64-bit halves, one definition per operator.  An operator of the
  sources that updates \<^verbatim>\<open>*this\<close> returns the updated value here.  An argument of any
  integral type \<^verbatim>\<open>t\<close> of a template is its mathematical value, an \<^typ>\<open>int\<close>; the cast
  \<^verbatim>\<open>(uint64_t)right\<close> is \<^term>\<open>word_of_int right\<close>.
\<close>

section \<open>Data and constructors\<close>

record uint128 =
  lower :: u64
  upper :: u64

definition u128 :: "u64 \<Rightarrow> u64 \<Rightarrow> uint128" where
  "u128 upper_right lower_right = \<lparr>lower = lower_right, upper = upper_right\<rparr>"

definition u128_of_int :: "int \<Rightarrow> uint128" where
  "u128_of_int right =
     (let x = \<lparr>lower = word_of_int right, upper = 0\<rparr>
      in if right < 0 then x\<lparr>upper := -1\<rparr> else x)"

definition u128_of_int2 :: "int \<Rightarrow> int \<Rightarrow> uint128" where
  "u128_of_int2 upper_right lower_right =
     \<lparr>lower = word_of_int lower_right, upper = word_of_int upper_right\<rparr>"

definition u128_assign_int :: "uint128 \<Rightarrow> int \<Rightarrow> uint128" where
  "u128_assign_int x right =
     (let x = x\<lparr>upper := 0\<rparr>;
          x = (if right < 0 then x\<lparr>upper := -1\<rparr> else x)
      in x\<lparr>lower := word_of_int right\<rparr>)"

definition u128_min :: uint128 where "u128_min = u128_of_int 0"

definition u128_max :: uint128 where "u128_max = u128_of_int2 (-1) (-1)"

definition u128_high :: "uint128 \<Rightarrow> u64" where "u128_high x = upper x"

definition u128_low :: "uint128 \<Rightarrow> u64" where "u128_low x = lower x"

definition u128_bool :: "uint128 \<Rightarrow> bool" where
  "u128_bool x \<longleftrightarrow> upper x \<noteq> 0 \<or> lower x \<noteq> 0"

definition u128_to_u8 :: "uint128 \<Rightarrow> u8" where "u128_to_u8 x = ucast (lower x)"

definition u128_to_u16 :: "uint128 \<Rightarrow> u16" where "u128_to_u16 x = ucast (lower x)"

definition u128_to_u32 :: "uint128 \<Rightarrow> u32" where "u128_to_u32 x = ucast (lower x)"

definition u128_to_u64 :: "uint128 \<Rightarrow> u64" where "u128_to_u64 x = lower x"

section \<open>Bitwise operators and shifts\<close>

definition u128_and :: "uint128 \<Rightarrow> uint128 \<Rightarrow> uint128" where
  "u128_and x right = u128 (upper x AND upper right) (lower x AND lower right)"

definition u128_and_assign :: "uint128 \<Rightarrow> uint128 \<Rightarrow> uint128" where
  "u128_and_assign x right = x\<lparr>upper := upper x AND upper right, lower := lower x AND lower right\<rparr>"

definition u128_or :: "uint128 \<Rightarrow> uint128 \<Rightarrow> uint128" where
  "u128_or x right = u128 (upper x OR upper right) (lower x OR lower right)"

definition u128_or_assign :: "uint128 \<Rightarrow> uint128 \<Rightarrow> uint128" where
  "u128_or_assign x right = x\<lparr>upper := upper x OR upper right, lower := lower x OR lower right\<rparr>"

definition u128_xor :: "uint128 \<Rightarrow> uint128 \<Rightarrow> uint128" where
  "u128_xor x right = u128 (upper x XOR upper right) (lower x XOR lower right)"

definition u128_xor_assign :: "uint128 \<Rightarrow> uint128 \<Rightarrow> uint128" where
  "u128_xor_assign x right = x\<lparr>upper := upper x XOR upper right, lower := lower x XOR lower right\<rparr>"

definition u128_not :: "uint128 \<Rightarrow> uint128" where
  "u128_not x = u128 (NOT (upper x)) (NOT (lower x))"

definition u128_shl :: "uint128 \<Rightarrow> uint128 \<Rightarrow> uint128" where
  "u128_shl x right =
     (let shift = lower right in
      if upper right \<noteq> 0 \<or> shift \<ge> 128 then u128_of_int 0
      else if shift = 64 then u128 (lower x) 0
      else if shift = 0 then x
      else if shift < 64 then
        u128 (push_bit (unat shift) (upper x) + drop_bit (unat (64 - shift)) (lower x))
             (push_bit (unat shift) (lower x))
      else if 128 > shift \<and> shift > 64 then u128 (push_bit (unat (shift - 64)) (lower x)) 0
      else u128_of_int 0)"

definition u128_shl_assign :: "uint128 \<Rightarrow> uint128 \<Rightarrow> uint128" where
  "u128_shl_assign x right = u128_shl x right"

definition u128_shr :: "uint128 \<Rightarrow> uint128 \<Rightarrow> uint128" where
  "u128_shr x right =
     (let shift = lower right in
      if upper right \<noteq> 0 \<or> shift \<ge> 128 then u128_of_int 0
      else if shift = 64 then u128 0 (upper x)
      else if shift = 0 then x
      else if shift < 64 then
        u128 (drop_bit (unat shift) (upper x))
             (push_bit (unat (64 - shift)) (upper x) + drop_bit (unat shift) (lower x))
      else if 128 > shift \<and> shift > 64 then u128 0 (drop_bit (unat (shift - 64)) (upper x))
      else u128_of_int 0)"

definition u128_shr_assign :: "uint128 \<Rightarrow> uint128 \<Rightarrow> uint128" where
  "u128_shr_assign x right = u128_shr x right"

section \<open>Logical operators and comparisons\<close>

definition u128_lnot :: "uint128 \<Rightarrow> bool" where
  "u128_lnot x \<longleftrightarrow> \<not> (upper x \<noteq> 0 \<or> lower x \<noteq> 0)"

definition u128_land :: "uint128 \<Rightarrow> uint128 \<Rightarrow> bool" where
  "u128_land x right \<longleftrightarrow> u128_bool x \<and> u128_bool right"

definition u128_lor :: "uint128 \<Rightarrow> uint128 \<Rightarrow> bool" where
  "u128_lor x right \<longleftrightarrow> u128_bool x \<or> u128_bool right"

definition u128_eq :: "uint128 \<Rightarrow> uint128 \<Rightarrow> bool" where
  "u128_eq x right \<longleftrightarrow> upper x = upper right \<and> lower x = lower right"

definition u128_ne :: "uint128 \<Rightarrow> uint128 \<Rightarrow> bool" where
  "u128_ne x right \<longleftrightarrow> upper x \<noteq> upper right \<or> lower x \<noteq> lower right"

definition u128_gt :: "uint128 \<Rightarrow> uint128 \<Rightarrow> bool" where
  "u128_gt x right \<longleftrightarrow>
     (if upper x = upper right then lower x > lower right else upper x > upper right)"

definition u128_lt :: "uint128 \<Rightarrow> uint128 \<Rightarrow> bool" where
  "u128_lt x right \<longleftrightarrow>
     (if upper x = upper right then lower x < lower right else upper x < upper right)"

definition u128_ge :: "uint128 \<Rightarrow> uint128 \<Rightarrow> bool" where
  "u128_ge x right \<longleftrightarrow> u128_gt x right \<or> u128_eq x right"

definition u128_le :: "uint128 \<Rightarrow> uint128 \<Rightarrow> bool" where
  "u128_le x right \<longleftrightarrow> u128_lt x right \<or> u128_eq x right"

section \<open>Arithmetic\<close>

definition u128_add :: "uint128 \<Rightarrow> uint128 \<Rightarrow> uint128" where
  "u128_add x right =
     u128 (upper x + upper right + of_bool (lower x + lower right < lower x)) (lower x + lower right)"

definition u128_add_assign :: "uint128 \<Rightarrow> uint128 \<Rightarrow> uint128" where
  "u128_add_assign x right =
     (let x = x\<lparr>upper := upper x + (upper right + of_bool (lower x + lower right < lower x))\<rparr>
      in x\<lparr>lower := lower x + lower right\<rparr>)"

definition u128_sub :: "uint128 \<Rightarrow> uint128 \<Rightarrow> uint128" where
  "u128_sub x right =
     u128 (upper x - upper right - of_bool (lower x - lower right > lower x)) (lower x - lower right)"

definition u128_sub_assign :: "uint128 \<Rightarrow> uint128 \<Rightarrow> uint128" where
  "u128_sub_assign x right = u128_sub x right"

text \<open>
  The product: \<^verbatim>\<open>products[3 - x][y] = top[x] * bottom[y]\<close>, so \<open>p i j\<close> below is
  \<^verbatim>\<open>products[i][j]\<close>, the product of 32-bit limb \<open>3 - i\<close> of the left and limb \<open>j\<close> of
  the right operand, limb 0 being the most significant.
\<close>

definition u128_mul :: "uint128 \<Rightarrow> uint128 \<Rightarrow> uint128" where
  "u128_mul x right =
     (let top = [drop_bit 32 (upper x), upper x AND 0xffffffff, drop_bit 32 (lower x), lower x AND 0xffffffff];
          bottom = [drop_bit 32 (upper right), upper right AND 0xffffffff,
                    drop_bit 32 (lower right), lower right AND 0xffffffff];
          p = (\<lambda>i j. top ! (3 - i) * bottom ! j);
          fourth32 = p 0 3 AND 0xffffffff;
          third32 = (p 0 2 AND 0xffffffff) + drop_bit 32 (p 0 3);
          second32 = (p 0 1 AND 0xffffffff) + drop_bit 32 (p 0 2);
          first32 = (p 0 0 AND 0xffffffff) + drop_bit 32 (p 0 1);
          third32 = third32 + (p 1 3 AND 0xffffffff);
          second32 = second32 + ((p 1 2 AND 0xffffffff) + drop_bit 32 (p 1 3));
          first32 = first32 + ((p 1 1 AND 0xffffffff) + drop_bit 32 (p 1 2));
          second32 = second32 + (p 2 3 AND 0xffffffff);
          first32 = first32 + ((p 2 2 AND 0xffffffff) + drop_bit 32 (p 2 3));
          first32 = first32 + (p 3 3 AND 0xffffffff);
          third32 = third32 + drop_bit 32 fourth32;
          second32 = second32 + drop_bit 32 third32;
          first32 = first32 + drop_bit 32 second32;
          fourth32 = fourth32 AND 0xffffffff;
          third32 = third32 AND 0xffffffff;
          second32 = second32 AND 0xffffffff;
          first32 = first32 AND 0xffffffff
      in u128 (push_bit 32 first32 OR second32) (push_bit 32 third32 OR fourth32))"

definition u128_mul_assign :: "uint128 \<Rightarrow> uint128 \<Rightarrow> uint128" where
  "u128_mul_assign x right = u128_mul x right"

definition u128_pre_inc :: "uint128 \<Rightarrow> uint128" where
  "u128_pre_inc x = u128_add_assign x (u128_of_int 1)"

definition u128_post_inc :: "uint128 \<Rightarrow> uint128 \<times> uint128" where
  "u128_post_inc x = (let temp = x; x = u128_pre_inc x in (temp, x))"

definition u128_pre_dec :: "uint128 \<Rightarrow> uint128" where
  "u128_pre_dec x = u128_sub_assign x (u128_of_int 1)"

definition u128_post_dec :: "uint128 \<Rightarrow> uint128 \<times> uint128" where
  "u128_post_dec x = (let temp = x; x = u128_pre_dec x in (temp, x))"

definition u128_plus :: "uint128 \<Rightarrow> uint128" where "u128_plus x = x"

definition u128_neg :: "uint128 \<Rightarrow> uint128" where
  "u128_neg x = u128_add (u128_not x) (u128_of_int 1)"

section \<open>Operators on an integral right operand\<close>

definition u128_and_int :: "uint128 \<Rightarrow> int \<Rightarrow> uint128" where
  "u128_and_int x right = u128 0 (lower x AND word_of_int right)"

definition u128_and_assign_int :: "uint128 \<Rightarrow> int \<Rightarrow> uint128" where
  "u128_and_assign_int x right = x\<lparr>upper := 0, lower := lower x AND word_of_int right\<rparr>"

definition u128_or_int :: "uint128 \<Rightarrow> int \<Rightarrow> uint128" where
  "u128_or_int x right = u128 (upper x) (lower x OR word_of_int right)"

definition u128_or_assign_int :: "uint128 \<Rightarrow> int \<Rightarrow> uint128" where
  "u128_or_assign_int x right = x\<lparr>lower := lower x OR word_of_int right\<rparr>"

definition u128_xor_int :: "uint128 \<Rightarrow> int \<Rightarrow> uint128" where
  "u128_xor_int x right = u128 (upper x) (lower x XOR word_of_int right)"

definition u128_xor_assign_int :: "uint128 \<Rightarrow> int \<Rightarrow> uint128" where
  "u128_xor_assign_int x right = x\<lparr>lower := lower x XOR word_of_int right\<rparr>"

definition u128_shl_int :: "uint128 \<Rightarrow> int \<Rightarrow> uint128" where
  "u128_shl_int x right = u128_shl x (u128_of_int right)"

definition u128_shr_int :: "uint128 \<Rightarrow> int \<Rightarrow> uint128" where
  "u128_shr_int x right = u128_shr x (u128_of_int right)"

definition u128_eq_int :: "uint128 \<Rightarrow> int \<Rightarrow> bool" where
  "u128_eq_int x right \<longleftrightarrow> \<not> upper x \<noteq> 0 \<and> lower x = word_of_int right"

definition u128_ne_int :: "uint128 \<Rightarrow> int \<Rightarrow> bool" where
  "u128_ne_int x right \<longleftrightarrow> upper x \<noteq> 0 \<or> lower x \<noteq> word_of_int right"

definition u128_gt_int :: "uint128 \<Rightarrow> int \<Rightarrow> bool" where
  "u128_gt_int x right \<longleftrightarrow> upper x \<noteq> 0 \<or> lower x > word_of_int right"

definition u128_lt_int :: "uint128 \<Rightarrow> int \<Rightarrow> bool" where
  "u128_lt_int x right \<longleftrightarrow> (if \<not> upper x \<noteq> 0 then lower x < word_of_int right else False)"

definition u128_ge_int :: "uint128 \<Rightarrow> int \<Rightarrow> bool" where
  "u128_ge_int x right \<longleftrightarrow> u128_gt_int x right \<or> u128_eq_int x right"

definition u128_le_int :: "uint128 \<Rightarrow> int \<Rightarrow> bool" where
  "u128_le_int x right \<longleftrightarrow> u128_lt_int x right \<or> u128_eq_int x right"

definition u128_add_int :: "uint128 \<Rightarrow> int \<Rightarrow> uint128" where
  "u128_add_int x right =
     u128 (upper x + of_bool (lower x + word_of_int right < lower x)) (lower x + word_of_int right)"

definition u128_add_assign_int :: "uint128 \<Rightarrow> int \<Rightarrow> uint128" where
  "u128_add_assign_int x right = u128_add_assign x (u128_of_int right)"

definition u128_sub_int :: "uint128 \<Rightarrow> int \<Rightarrow> uint128" where
  "u128_sub_int x right =
     u128 (upper x - of_bool (lower x - word_of_int right > lower x)) (lower x - word_of_int right)"

definition u128_sub_assign_int :: "uint128 \<Rightarrow> int \<Rightarrow> uint128" where
  "u128_sub_assign_int x right = u128_sub x (u128_of_int right)"

definition u128_mul_int :: "uint128 \<Rightarrow> int \<Rightarrow> uint128" where
  "u128_mul_int x right = u128_mul x (u128_of_int right)"

definition u128_shl_assign_int :: "uint128 \<Rightarrow> int \<Rightarrow> uint128" where
  "u128_shl_assign_int x right = u128_shl x (u128_of_int right)"

definition u128_shr_assign_int :: "uint128 \<Rightarrow> int \<Rightarrow> uint128" where
  "u128_shr_assign_int x right = u128_shr x (u128_of_int right)"

definition u128_mul_assign_int :: "uint128 \<Rightarrow> int \<Rightarrow> uint128" where
  "u128_mul_assign_int x right = u128_mul x (u128_of_int right)"

section \<open>Bits, bytes and division\<close>

function u128_count_bits :: "u64 \<Rightarrow> u8 \<Rightarrow> u8" where
  "u128_count_bits w out = (if w \<noteq> 0 then u128_count_bits (drop_bit 1 w) (out + 1) else out)"
  by pat_completeness auto
termination
  by (relation "measure (\<lambda>(w, out). unat w)") (simp, simp only: in_measure case_prod_conv, rule unat_drop_bit_1_less)

declare u128_count_bits.simps [simp del]

definition u128_bits :: "uint128 \<Rightarrow> u8" where
  "u128_bits x =
     (if upper x \<noteq> 0 then u128_count_bits (upper x) 64 else u128_count_bits (lower x) 0)"

definition u128_bytes :: "uint128 \<Rightarrow> u8" where
  "u128_bytes x =
     (if u128_lnot x then 0
      else let len = unat (u128_bits x)
           in max 1 (word_of_nat (min 16 ((len - len mod 8 + 8) div 8))))"

fun u128_divide_loop :: "nat \<Rightarrow> uint128 \<Rightarrow> uint128 \<Rightarrow> uint128 \<times> uint128 \<Rightarrow> uint128 \<times> uint128" where
  "u128_divide_loop 0 left right qr = qr"
| "u128_divide_loop (Suc x) left right (q, r) =
     (let one = u128_of_int 1;
          q = u128_shl_assign q one;
          r = u128_shl_assign r one;
          r = (if u128_bool (u128_and_int (u128_shr_int left (int x)) 1) then u128_pre_inc r else r);
          (q, r) = (if u128_ge r right then (u128_pre_inc q, u128_sub_assign r right) else (q, r))
      in u128_divide_loop x left right (q, r))"

definition u128_divide :: "uint128 \<Rightarrow> uint128 \<Rightarrow> uint128 \<times> uint128" where
  "u128_divide left right =
     (let zero = u128_of_int 0; one = u128_of_int 1 in
      if u128_eq right zero then (zero, zero)
      else if u128_eq right one then (left, zero)
      else if u128_eq left right then (one, zero)
      else if u128_eq left zero \<or> u128_lt left right then (zero, left)
      else u128_divide_loop (unat (u128_bits left)) left right (zero, zero))"

definition u128_div :: "uint128 \<Rightarrow> uint128 \<Rightarrow> uint128" where
  "u128_div x right = fst (u128_divide x right)"

definition u128_div_assign :: "uint128 \<Rightarrow> uint128 \<Rightarrow> uint128" where
  "u128_div_assign x right = u128_div x right"

definition u128_mod :: "uint128 \<Rightarrow> uint128 \<Rightarrow> uint128" where
  "u128_mod x right = snd (u128_divide x right)"

definition u128_mod_assign :: "uint128 \<Rightarrow> uint128 \<Rightarrow> uint128" where
  "u128_mod_assign x right = u128_mod x right"

definition u128_div_int :: "uint128 \<Rightarrow> int \<Rightarrow> uint128" where
  "u128_div_int x right = u128_div x (u128_of_int right)"

definition u128_mod_int :: "uint128 \<Rightarrow> int \<Rightarrow> uint128" where
  "u128_mod_int x right = u128_mod x (u128_of_int right)"

definition u128_div_assign_int :: "uint128 \<Rightarrow> int \<Rightarrow> uint128" where
  "u128_div_assign_int x right = u128_div x (u128_of_int right)"

definition u128_mod_assign_int :: "uint128 \<Rightarrow> int \<Rightarrow> uint128" where
  "u128_mod_assign_int x right = u128_mod x (u128_of_int right)"

section \<open>Operators on an integral left operand\<close>

text \<open>
  The friend templates \<^verbatim>\<open>t op uint128\<close>.  In \<^verbatim>\<open>t& op= uint128\<close> the result is cast to
  \<^verbatim>\<open>t\<close>, which the conversion operators allow for the unsigned types only: the operand is a
  word of any width.
\<close>

definition int_shl_u128 :: "int \<Rightarrow> uint128 \<Rightarrow> uint128" where
  "int_shl_u128 left right = u128_shl (u128_of_int left) right"

definition int_shr_u128 :: "int \<Rightarrow> uint128 \<Rightarrow> uint128" where
  "int_shr_u128 left right = u128_shr (u128_of_int left) right"

definition int_and_u128 :: "int \<Rightarrow> uint128 \<Rightarrow> uint128" where
  "int_and_u128 left right = u128_and_int right left"

definition word_and_assign_u128 :: "'a::len word \<Rightarrow> uint128 \<Rightarrow> 'a word" where
  "word_and_assign_u128 left right = ucast (lower (u128_and_int right (uint left)))"

definition int_or_u128 :: "int \<Rightarrow> uint128 \<Rightarrow> uint128" where
  "int_or_u128 left right = u128_or_int right left"

definition word_or_assign_u128 :: "'a::len word \<Rightarrow> uint128 \<Rightarrow> 'a word" where
  "word_or_assign_u128 left right = ucast (lower (u128_or_int right (uint left)))"

definition int_xor_u128 :: "int \<Rightarrow> uint128 \<Rightarrow> uint128" where
  "int_xor_u128 left right = u128_xor_int right left"

definition word_xor_assign_u128 :: "'a::len word \<Rightarrow> uint128 \<Rightarrow> 'a word" where
  "word_xor_assign_u128 left right = ucast (lower (u128_xor_int right (uint left)))"

definition word_shl_assign_u128 :: "'a::len word \<Rightarrow> uint128 \<Rightarrow> 'a word" where
  "word_shl_assign_u128 left right = ucast (lower (u128_shl (u128_of_int (uint left)) right))"

definition word_shr_assign_u128 :: "'a::len word \<Rightarrow> uint128 \<Rightarrow> 'a word" where
  "word_shr_assign_u128 left right = ucast (lower (u128_shr (u128_of_int (uint left)) right))"

definition int_eq_u128 :: "int \<Rightarrow> uint128 \<Rightarrow> bool" where
  "int_eq_u128 left right \<longleftrightarrow> \<not> u128_high right \<noteq> 0 \<and> word_of_int left = u128_low right"

definition int_ne_u128 :: "int \<Rightarrow> uint128 \<Rightarrow> bool" where
  "int_ne_u128 left right \<longleftrightarrow> u128_high right \<noteq> 0 \<or> word_of_int left \<noteq> u128_low right"

definition int_gt_u128 :: "int \<Rightarrow> uint128 \<Rightarrow> bool" where
  "int_gt_u128 left right \<longleftrightarrow> \<not> u128_high right \<noteq> 0 \<and> word_of_int left > u128_low right"

definition int_lt_u128 :: "int \<Rightarrow> uint128 \<Rightarrow> bool" where
  "int_lt_u128 left right \<longleftrightarrow> (if u128_high right \<noteq> 0 then True else word_of_int left < u128_low right)"

definition int_ge_u128 :: "int \<Rightarrow> uint128 \<Rightarrow> bool" where
  "int_ge_u128 left right \<longleftrightarrow> (if u128_high right \<noteq> 0 then False else word_of_int left \<ge> u128_low right)"

definition int_le_u128 :: "int \<Rightarrow> uint128 \<Rightarrow> bool" where
  "int_le_u128 left right \<longleftrightarrow> (if u128_high right \<noteq> 0 then True else word_of_int left \<le> u128_low right)"

definition int_add_u128 :: "int \<Rightarrow> uint128 \<Rightarrow> uint128" where
  "int_add_u128 left right = u128_add_int right left"

definition word_add_assign_u128 :: "'a::len word \<Rightarrow> uint128 \<Rightarrow> 'a word" where
  "word_add_assign_u128 left right = ucast (lower (u128_add_int right (uint left)))"

definition int_sub_u128 :: "int \<Rightarrow> uint128 \<Rightarrow> uint128" where
  "int_sub_u128 left right = u128_neg (u128_sub_int right left)"

definition word_sub_assign_u128 :: "'a::len word \<Rightarrow> uint128 \<Rightarrow> 'a word" where
  "word_sub_assign_u128 left right = ucast (lower (u128_neg (u128_sub_int right (uint left))))"

definition int_mul_u128 :: "int \<Rightarrow> uint128 \<Rightarrow> uint128" where
  "int_mul_u128 left right = u128_mul_int right left"

definition word_mul_assign_u128 :: "'a::len word \<Rightarrow> uint128 \<Rightarrow> 'a word" where
  "word_mul_assign_u128 left right = ucast (lower (u128_mul_int right (uint left)))"

definition int_div_u128 :: "int \<Rightarrow> uint128 \<Rightarrow> uint128" where
  "int_div_u128 left right = u128_div (u128_of_int left) right"

definition word_div_assign_u128 :: "'a::len word \<Rightarrow> uint128 \<Rightarrow> 'a word" where
  "word_div_assign_u128 left right = ucast (lower (u128_div (u128_of_int (uint left)) right))"

definition int_mod_u128 :: "int \<Rightarrow> uint128 \<Rightarrow> uint128" where
  "int_mod_u128 left right = u128_mod (u128_of_int left) right"

definition word_mod_assign_u128 :: "'a::len word \<Rightarrow> uint128 \<Rightarrow> 'a word" where
  "word_mod_assign_u128 left right = ucast (lower (u128_mod (u128_of_int (uint left)) right))"

text \<open>
  The integral overloads of \<^verbatim>\<open>operator&&\<close> and \<^verbatim>\<open>operator||\<close> evaluate \<^verbatim>\<open>*this && right\<close> on
  the same operand types, so overload resolution picks the same template again: the call
  does not return.
\<close>

partial_function (option) u128_land_int :: "uint128 \<Rightarrow> int \<Rightarrow> bool option" where
  "u128_land_int x right = u128_land_int x right"

partial_function (option) u128_lor_int :: "uint128 \<Rightarrow> int \<Rightarrow> bool option" where
  "u128_lor_int x right = u128_lor_int x right"

section \<open>Byte encodings\<close>

definition u128_encode :: "uint128 \<Rightarrow> u8 list" where
  "u128_encode x = mem_bytes (to_endianness big (upper x)) @ mem_bytes (to_endianness big (lower x))"

definition u128_encode_compact :: "uint128 \<Rightarrow> u8 list" where
  "u128_encode_compact x =
     (let intermediate = u128_encode x; size = unat (u128_bytes x)
      in take size (drop (16 - size) intermediate))"

definition u128_decode :: "u8 list \<Rightarrow> uint128" where
  "u128_decode data =
     (let array0 = mem_word (take 8 data); array1 = mem_word (take 8 (drop 8 data));
          array0 = to_endianness big array0; array1 = to_endianness big array1
      in u128 array0 array1)"

definition u128_decode_compact :: "u8 list \<Rightarrow> uint128" where
  "u128_decode_compact data =
     (let n = min (length data) 16; intermediate = take n data @ replicate (16 - n) 0
      in u128_decode intermediate)"

section \<open>Refinement: the two halves are one 128-bit word\<close>

definition u128_abs :: "uint128 \<Rightarrow> 128 word" where
  "u128_abs x = word_join (upper x) (lower x)"

lemma u128_sel [simp]: "upper (u128 a b) = a" "lower (u128 a b) = b"
  by (simp_all add: u128_def)

lemma u128_abs_make: "u128_abs (u128 a b) = word_join a b"
  by (simp add: u128_abs_def)

lemma u128_eqI: "upper x = upper y \<Longrightarrow> lower x = lower y \<Longrightarrow> x = (y::uint128)"
  by simp

lemma u128_abs_inject: "u128_abs x = u128_abs y \<longleftrightarrow> x = y"
  by (auto simp: u128_abs_def word_join_inject intro: u128_eqI)

lemma uint_u128_abs: "uint (u128_abs x) = uint (upper x) * 2 ^ 64 + uint (lower x)"
  by (simp add: u128_abs_def uint_word_join)

lemma u128_abs_of_int:
  assumes "- (2 ^ 64) \<le> n" "n < 2 ^ 64"
  shows "u128_abs (u128_of_int n) = word_of_int n"
proof (cases "n < 0")
  case False
  with assms have "uint (word_of_int n :: u64) = n" by (simp add: uint_word_of_int)
  with False show ?thesis
    by (simp add: u128_abs_def u128_of_int_def word_join_eq_of_int)
next
  case True
  have "uint (word_of_int n :: u64) = n + 2 ^ 64"
  proof -
    have "n mod 2 ^ 64 = (n + 2 ^ 64) mod 2 ^ 64" by simp
    also have "\<dots> = n + 2 ^ 64" using assms True by (intro mod_pos_pos_trivial) auto
    finally show ?thesis by (simp add: uint_word_of_int)
  qed
  with True have "u128_abs (u128_of_int n) = word_of_int ((2 ^ 64 - 1) * 2 ^ 64 + (n + 2 ^ 64))"
    by (simp add: u128_abs_def u128_of_int_def word_join_eq_of_int uint_word_ariths del: of_int_add)
  also have "\<dots> = (word_of_int n :: 128 word)"
    by (simp add: word_of_int_eq_iff take_bit_eq_mod algebra_simps del: of_int_add of_int_mult of_int_diff)
  finally show ?thesis .
qed

lemma u128_abs_bitwise [refine_simps]:
  "u128_abs (u128_and x y) = u128_abs x AND u128_abs y"
  "u128_abs (u128_or x y) = u128_abs x OR u128_abs y"
  "u128_abs (u128_xor x y) = u128_abs x XOR u128_abs y"
  "u128_abs (u128_not x) = NOT (u128_abs x)"
  by (simp_all add: u128_abs_def u128_and_def u128_or_def u128_xor_def u128_not_def
      word_join_and word_join_or word_join_xor word_join_not)

lemma u128_abs_add [refine_simps]: "u128_abs (u128_add x y) = u128_abs x + u128_abs y"
  by (simp add: u128_abs_def u128_add_def word_join_add [symmetric])

lemma u128_abs_sub [refine_simps]: "u128_abs (u128_sub x y) = u128_abs x - u128_abs y"
  by (simp add: u128_abs_def u128_sub_def word_join_sub [symmetric])

lemma u128_eq_iff [refine_simps]: "u128_eq x y \<longleftrightarrow> u128_abs x = u128_abs y"
  by (simp add: u128_abs_def u128_eq_def word_join_inject)

lemma u128_order [refine_simps]:
  "u128_lt x y \<longleftrightarrow> u128_abs x < u128_abs y"
  "u128_gt x y \<longleftrightarrow> u128_abs y < u128_abs x"
  by (auto simp: u128_abs_def u128_lt_def u128_gt_def word_join_less)

lemma u128_order_eq [refine_simps]:
  "u128_le x y \<longleftrightarrow> u128_abs x \<le> u128_abs y"
  "u128_ge x y \<longleftrightarrow> u128_abs y \<le> u128_abs x"
  "u128_ne x y \<longleftrightarrow> u128_abs x \<noteq> u128_abs y"
  by (auto simp: u128_le_def u128_ge_def u128_order u128_eq_iff u128_ne_def u128_abs_def word_join_inject)

lemma u128_bool_iff [refine_simps]: "u128_bool x \<longleftrightarrow> u128_abs x \<noteq> 0" "u128_lnot x \<longleftrightarrow> u128_abs x = 0"
  by (auto simp: u128_bool_def u128_lnot_def u128_abs_def word_join_eq_0)

lemma u128_abs_0 [simp]: "u128_abs (u128_of_int 0) = 0" 
  and u128_abs_1 [simp]: "u128_abs (u128_of_int 1) = 1"
  by (simp_all add: u128_abs_of_int)

lemma u128_assign_eq [refine_simps]:
  "u128_and_assign x y = u128_and x y" "u128_or_assign x y = u128_or x y" "u128_xor_assign x y = u128_xor x y"
  "u128_add_assign x y = u128_add x y" "u128_sub_assign x y = u128_sub x y"
  "u128_mul_assign x y = u128_mul x y" "u128_shl_assign x y = u128_shl x y" "u128_shr_assign x y = u128_shr x y"
  by (simp_all add: u128_and_assign_def u128_or_assign_def u128_xor_assign_def u128_add_assign_def
      u128_sub_assign_def u128_mul_assign_def u128_shl_assign_def u128_shr_assign_def
      u128_and_def u128_or_def u128_xor_def u128_add_def u128_def Let_def ac_simps)

lemma u128_abs_neg [refine_simps]: "u128_abs (u128_neg x) = - u128_abs x"
  by (simp add: u128_neg_def refine_simps minus_eq_not_plus_1)

lemma u128_abs_step [refine_simps]:
  "u128_abs (u128_pre_inc x) = u128_abs x + 1" "u128_abs (u128_pre_dec x) = u128_abs x - 1"
  by (simp_all add: u128_pre_inc_def u128_pre_dec_def refine_simps)

lemma unat_u128_abs: "unat (u128_abs x) = unat (upper x) * 2 ^ 64 + unat (lower x)"
proof -
  have "int (unat (u128_abs x)) = int (unat (upper x) * 2 ^ 64 + unat (lower x))"
    by (simp add: uint_u128_abs)
  then show ?thesis by (simp only: of_nat_eq_iff)
qed

lemma u128_shift_amount:
  "(upper r \<noteq> 0 \<or> lower r \<ge> 128) \<longleftrightarrow> 128 \<le> unat (u128_abs r)"
  "upper r = 0 \<Longrightarrow> unat (u128_abs r) = unat (lower r)"
proof -
  have "unat (upper r) \<noteq> 0 \<longleftrightarrow> upper r \<noteq> 0" by (simp add: unat_eq_0)
  moreover have "lower r \<ge> 128 \<longleftrightarrow> 128 \<le> unat (lower r)" by (simp add: word_le_nat_alt)
  ultimately show "(upper r \<noteq> 0 \<or> lower r \<ge> 128) \<longleftrightarrow> 128 \<le> unat (u128_abs r)"
    by (cases "unat (upper r)") (auto simp: unat_u128_abs)
qed (simp add: unat_u128_abs)

text \<open>The branches of the two shift operators, as facts about the shift amount.\<close>

lemma u128_shift_cases:
  obtains (out) "upper r \<noteq> 0 \<or> lower r \<ge> 128" "128 \<le> unat (u128_abs r)"
  | (zero) "upper r = 0" "lower r = 0" "unat (u128_abs r) = 0"
  | (small) "upper r = 0" "lower r \<noteq> 0" "lower r < 64" "lower r \<noteq> 64" "\<not> lower r \<ge> 128"
      "unat (u128_abs r) = unat (lower r)" "unat (64 - lower r) = 64 - unat (lower r)"
      "0 < unat (lower r)" "unat (lower r) < 64"
  | (half) "upper r = 0" "lower r = 64" "unat (u128_abs r) = 64"
  | (large) "upper r = 0" "lower r \<noteq> 0" "\<not> lower r < 64" "lower r \<noteq> 64" "\<not> lower r \<ge> 128" "lower r > 64" "128 > lower r"
      "unat (u128_abs r) = unat (lower r)" "unat (lower r - 64) = unat (lower r) - 64" "64 < unat (lower r)"
proof (cases "128 \<le> unat (u128_abs r)")
  case True
  then show ?thesis using out u128_shift_amount(1) [of r] by blast
next
  case False
  then have r: "upper r = 0" "\<not> lower r \<ge> 128" using u128_shift_amount(1) [of r] by auto
  then have abs: "unat (u128_abs r) = unat (lower r)" and n: "unat (lower r) < 128"
    by (auto simp: u128_shift_amount word_le_nat_alt)
  consider "unat (lower r) = 0" | "0 < unat (lower r)" "unat (lower r) < 64"
    | "unat (lower r) = 64" | "64 < unat (lower r)" by linarith
  then show ?thesis
  proof cases
    case 1
    then show ?thesis using zero r abs by (simp add: unat_eq_0)
  next
    case 2
    then have "lower r \<noteq> 0" "lower r < 64" "lower r \<noteq> 64"
      by (auto simp: word_less_nat_alt unat_eq_0)
    moreover from this have "unat (64 - lower r) = 64 - unat (lower r)"
      by (simp add: unat_sub word_le_nat_alt word_less_nat_alt)
    ultimately show ?thesis using small r abs 2 by blast
  next
    case 3
    then show ?thesis using half r abs by (simp add: word_unat_eq_iff)
  next
    case 4
    then have "lower r \<noteq> 0" "\<not> lower r < 64" "lower r \<noteq> 64" "lower r > 64" "128 > lower r"
      using n by (auto simp: word_less_nat_alt unat_eq_0)
    moreover from this have "unat (lower r - 64) = unat (lower r) - 64"
      by (simp add: unat_sub word_le_nat_alt word_less_nat_alt)
    ultimately show ?thesis using large r abs 4 by blast
  qed
qed

lemma u128_abs_shl [refine_simps]: "u128_abs (u128_shl x r) = push_bit (unat (u128_abs r)) (u128_abs x)"
proof (cases r rule: u128_shift_cases)
  case out
  then show ?thesis by (simp add: u128_shl_def Let_def push_bit_word_beyond)
next
  case zero
  then show ?thesis by (simp add: u128_shl_def)
next
  case small
  then show ?thesis
    using word_join_push_bit [where 'h = 64 and 'd = 128, of "unat (lower r)" "upper x" "lower x"]
    by (simp add: u128_shl_def Let_def u128_abs_make) (simp add: u128_abs_def)
next
  case half
  then show ?thesis
    using word_join_push_bit_half [where 'h = 64 and 'd = 128, of 64 "lower x" "upper x"]
    by (simp add: u128_shl_def u128_abs_make) (simp add: u128_abs_def)
next
  case large
  then show ?thesis
    using word_join_push_bit_half [where 'h = 64 and 'd = 128, of "unat (lower r)" "lower x" "upper x"]
    by (simp add: u128_shl_def Let_def u128_abs_make) (simp add: u128_abs_def)
qed

lemma u128_abs_shr [refine_simps]: "u128_abs (u128_shr x r) = drop_bit (unat (u128_abs r)) (u128_abs x)"
proof (cases r rule: u128_shift_cases)
  case out
  then show ?thesis by (simp add: u128_shr_def Let_def drop_bit_word_beyond)
next
  case zero
  then show ?thesis by (simp add: u128_shr_def)
next
  case small
  then show ?thesis
    using word_join_drop_bit [where 'h = 64 and 'd = 128, of "unat (lower r)" "upper x" "lower x"]
    by (simp add: u128_shr_def Let_def u128_abs_make) (simp add: u128_abs_def)
next
  case half
  then show ?thesis
    using word_join_drop_bit_half [where 'h = 64 and 'd = 128, of 64 "upper x" "lower x"]
    by (simp add: u128_shr_def u128_abs_make) (simp add: u128_abs_def)
next
  case large
  then show ?thesis
    using word_join_drop_bit_half [where 'h = 64 and 'd = 128, of "unat (lower r)" "upper x" "lower x"]
    by (simp add: u128_shr_def Let_def u128_abs_make) (simp add: u128_abs_def)
qed

section \<open>Multiplication\<close>

text \<open>Limbs of 32 bits in a 64-bit word: splitting and joining them on natural numbers.\<close>

abbreviation (input) W32 :: nat where "W32 \<equiv> 2 ^ 32"

lemma and_mask32_of_nat: "P < 2 ^ 64 \<Longrightarrow> (word_of_nat P AND 0xffffffff :: u64) = word_of_nat (P mod W32)"
proof -
  assume P: "P < 2 ^ 64"
  have "(0xffffffff :: u64) = mask 32" by (simp add: mask_eq_exp_minus_1)
  then have "(word_of_nat P AND 0xffffffff :: u64) = take_bit 32 (word_of_nat P)"
    by (simp only: take_bit_eq_mask)
  also have "\<dots> = word_of_nat (take_bit 32 P)"
    by (rule bit_eqI) (auto simp: bit_simps)
  finally show ?thesis by (simp add: take_bit_eq_mod)
qed

lemma shr32_of_nat: "P < 2 ^ 64 \<Longrightarrow> drop_bit 32 (word_of_nat P :: u64) = word_of_nat (P div W32)"
  by (rule word_eq_of_nat) (simp add: drop_bit_eq_div unat_div unat_of_nat)

lemma or_limbs32: "a < W32 \<Longrightarrow> b < W32 \<Longrightarrow>
   push_bit 32 (word_of_nat a :: u64) OR word_of_nat b = word_of_nat (a * W32 + b)"
proof -
  assume "a < W32" and b: "b < W32"
  have "take_bit 32 b = b" using b by (simp add: take_bit_eq_mod)
  then have "\<not> bit b n" if "32 \<le> n" for n using that by (metis bit_take_bit_iff not_less)
  then have "push_bit 32 (word_of_nat a :: u64) AND word_of_nat b = 0"
    by (intro bit_eqI) (auto simp: bit_simps)
  then have "push_bit 32 (word_of_nat a :: u64) OR word_of_nat b = push_bit 32 (word_of_nat a) + word_of_nat b"
    by (simp add: disjunctive_add_eq_or)
  then show ?thesis by (simp add: push_bit_eq_mult)
qed

lemma unat_limbs32: "a < W32 \<Longrightarrow> b < W32 \<Longrightarrow> unat (word_of_nat (a * W32 + b) :: u64) = a * W32 + b"
  using limb_bound [of a W32 b W32] by (simp only: unat_of_nat) simp

lemma limbs32_cases:
  obtains a b where "w = (word_of_nat (a * W32 + b) :: u64)" "a < W32" "b < W32"
proof -
  have "w = word_of_nat (unat w div W32 * W32 + unat w mod W32)" by simp
  moreover have "unat w div W32 < W32" using unat_bound [of w] by (simp add: less_mult_imp_div_less)
  ultimately show ?thesis using that by (meson mod_less_divisor zero_less_numeral zero_less_power)
qed

lemma split_limbs32:
  assumes "a < W32" "b < W32"
  shows "drop_bit 32 (word_of_nat (a * W32 + b) :: u64) = word_of_nat a"
    and "(word_of_nat (a * W32 + b) :: u64) AND 0xffffffff = word_of_nat b"
  using limb_bound [OF assms] shr32_of_nat [of "a * W32 + b"] and_mask32_of_nat [of "a * W32 + b"] assms
  by simp_all

lemma limb_product: "a < W32 \<Longrightarrow> b < W32 \<Longrightarrow> a * b < 2 ^ 64"
  using limb_product_bound(1) [of a W32 b] by simp

lemmas limb_product_words = limb_product [THEN and_mask32_of_nat] limb_product [THEN shr32_of_nat]

lemma u128_mul_limbs:
  assumes a: "a0 < W32" "a1 < W32" "a2 < W32" "a3 < W32" and b: "b0 < W32" "b1 < W32" "b2 < W32" "b3 < W32"
  defines "T \<equiv> a3 * b2 mod W32 + a3 * b3 div W32 + a2 * b3 mod W32"
    and "S \<equiv> a3 * b1 mod W32 + a3 * b2 div W32 + a2 * b2 mod W32 + a2 * b3 div W32 + a1 * b3 mod W32"
    and "F \<equiv> a3 * b0 mod W32 + a3 * b1 div W32 + a2 * b1 mod W32 + a2 * b2 div W32 + a1 * b2 mod W32
      + a1 * b3 div W32 + a0 * b3 mod W32"
  shows "u128_mul (u128 (word_of_nat (a0 * W32 + a1)) (word_of_nat (a2 * W32 + a3)))
      (u128 (word_of_nat (b0 * W32 + b1)) (word_of_nat (b2 * W32 + b3)))
    = u128 (word_of_nat ((F + (S + T div W32) div W32) mod W32 * W32 + (S + T div W32) mod W32))
        (word_of_nat (T mod W32 * W32 + a3 * b3 mod W32))"
proof -
  have l: "p mod W32 < W32" for p by simp
  have "T < 3 * W32" "S < 5 * W32" "F < 7 * W32"
    unfolding T_def S_def F_def by (rule limb_columns_bound [OF a b])+
  then have sm: "T < 2 ^ 64" "S + T div W32 < 2 ^ 64" "F + (S + T div W32) div W32 < 2 ^ 64"
    "a3 * b3 mod W32 < 2 ^ 64" by simp_all
  have n4: "[q, r, s, t] ! 0 = q" "[q, r, s, t] ! 1 = r" "[q, r, s, t] ! 2 = s" "[q, r, s, t] ! 3 = t" for q r s t :: u64
    by simp_all
  have d3: "3 - 0 = (3::nat)" "3 - 1 = (2::nat)" "3 - 2 = (1::nat)" "3 - 3 = (0::nat)" by simp_all
  have sums: "a3 * b2 mod W32 + a3 * b3 div W32 + a2 * b3 mod W32 + 0 = T"
    "a3 * b1 mod W32 + a3 * b2 div W32 + (a2 * b2 mod W32 + a2 * b3 div W32) + a1 * b3 mod W32 = S"
    "a3 * b0 mod W32 + a3 * b1 div W32 + (a2 * b1 mod W32 + a2 * b2 div W32)
      + (a1 * b2 mod W32 + a1 * b3 div W32) + a0 * b3 mod W32 = F"
    "a3 * b3 mod W32 div W32 = 0" "a3 * b3 mod W32 mod W32 = a3 * b3 mod W32"
    by (simp_all add: T_def S_def F_def)
  show ?thesis
    unfolding u128_mul_def Let_def u128_sel
    by (simp only: split_limbs32 a b n4 d3 of_nat_mult [symmetric] of_nat_add [symmetric] limb_product_words
        sm [THEN and_mask32_of_nat] sm [THEN shr32_of_nat] sums or_limbs32 l)
qed

lemma unat_u128_limbs:
  assumes "a0 < W32" "a1 < W32" "a2 < W32" "a3 < W32"
  shows "unat (u128_abs (u128 (word_of_nat (a0 * W32 + a1)) (word_of_nat (a2 * W32 + a3))))
    = (a0 * W32 + a1) * W32 ^ 2 + (a2 * W32 + a3)"
  unfolding unat_u128_abs u128_sel unat_limbs32 [OF assms(1,2)] unat_limbs32 [OF assms(3,4)] by simp

lemma u128_limbs_cases:
  obtains a0 a1 a2 a3 where "x = u128 (word_of_nat (a0 * W32 + a1)) (word_of_nat (a2 * W32 + a3))"
    "a0 < W32" "a1 < W32" "a2 < W32" "a3 < W32"
proof -
  have "x = u128 (upper x) (lower x)" by (simp add: u128_def)
  then show ?thesis using that by (metis limbs32_cases)
qed

lemma unat_u128_abs_mul:
  "unat (u128_abs (u128_mul x y)) = (unat (u128_abs x) * unat (u128_abs y)) mod 2 ^ 128"
proof -
  obtain a0 a1 a2 a3 where x: "x = u128 (word_of_nat (a0 * W32 + a1)) (word_of_nat (a2 * W32 + a3))"
    and a: "a0 < W32" "a1 < W32" "a2 < W32" "a3 < W32" by (rule u128_limbs_cases)
  obtain b0 b1 b2 b3 where y: "y = u128 (word_of_nat (b0 * W32 + b1)) (word_of_nat (b2 * W32 + b3))"
    and b: "b0 < W32" "b1 < W32" "b2 < W32" "b3 < W32" by (rule u128_limbs_cases)
  have m: "p mod W32 < W32" for p by simp
  have sum: "(p * W + q) * W ^ 2 + (r * W + s) = p * W ^ 3 + q * W ^ 2 + r * W + s" for p q r s W :: nat
    by (simp add: algebra_simps power2_eq_square power3_eq_cube)
  have "unat (u128_abs (u128_mul x y)) = (unat (u128_abs x) * unat (u128_abs y)) mod W32 ^ 4"
    unfolding x y u128_mul_limbs [OF a b] unat_u128_limbs [OF a] unat_u128_limbs [OF b] unat_u128_limbs [OF m m m m]
      sum schoolbook_product [symmetric, OF zero_less_power, OF zero_less_numeral]
    by (rule carry_chain [unfolded sum]) simp_all
  then show ?thesis by simp
qed

lemma u128_abs_mul [refine_simps]: "u128_abs (u128_mul x y) = u128_abs x * u128_abs y"
  using unat_u128_abs_mul [of x y] by (simp add: word_unat_eq_iff unat_word_ariths)

section \<open>Bit length and division\<close>

lemma u128_count_bits_eq: "u128_count_bits w out = out + word_of_nat (bit_length (unat w))"
proof (induction w out rule: u128_count_bits.induct)
  case (1 w out)
  show ?case
  proof (cases "w = 0")
    case False
    then have "bit_length (unat w) = Suc (bit_length (unat (drop_bit 1 w)))"
      by (subst bit_length_double) (simp_all add: unat_gt_0 drop_bit_eq_div unat_div)
    with False 1 show ?thesis by (subst u128_count_bits.simps) (simp add: add.assoc)
  qed (simp add: u128_count_bits.simps)
qed

lemma unat_u128_bits [refine_simps]: "unat (u128_bits x) = bit_length (unat (u128_abs x))"
proof -
  have b: "bit_length (unat w) \<le> 64" for w :: u64 using unat_bound [of w] by (simp add: bit_length_le_iff)
  show ?thesis
  proof (cases "upper x = 0")
    case True
    then show ?thesis using b [of "lower x"]
      by (simp add: u128_bits_def u128_count_bits_eq unat_u128_abs unat_of_nat)
  next
    case False
    then have "0 < unat (upper x)" by (simp add: unat_gt_0)
    then have "bit_length (unat (u128_abs x)) = bit_length (unat (upper x)) + 64"
      unfolding unat_u128_abs using unat_bound [of "lower x"] by (intro bit_length_shift) auto
    then show ?thesis using False b [of "upper x"]
      by (simp add: u128_bits_def u128_count_bits_eq unat_word_ariths unat_of_nat)
  qed
qed

lemma u128_bit_test:
  assumes "x < 2 ^ 64"
  shows "u128_bool (u128_and_int (u128_shr_int n (int x)) 1) \<longleftrightarrow> unat (u128_abs n) div 2 ^ x mod 2 = 1"
proof -
  have n1: "unat (u128_abs (u128_of_int (int x))) = x"
    using assms u128_abs_of_int [of "int x"] by (simp add: unat_of_nat)
  have "u128_bool (u128_and_int y 1) \<longleftrightarrow> unat (u128_abs y) mod 2 = 1" for y
  proof -
    have "u128_bool (u128_and_int y 1) \<longleftrightarrow> odd (lower y)" by (simp add: u128_bool_def u128_and_int_def odd_iff_mod_2_eq_one and_one_eq)
    also have "\<dots> \<longleftrightarrow> odd (unat (u128_abs y))" by (simp add: unat_u128_abs odd_unat)
    finally show ?thesis by (simp add: odd_iff_mod_2_eq_one)
  qed
  then show ?thesis by (simp add: u128_shr_int_def u128_abs_shr n1 unat_drop_bit_div)
qed

text \<open>
  One turn of the division loop on natural numbers.  The remainder cannot overflow when it
  is doubled: with the quotient so far it is a prefix of the dividend.
\<close>

lemma u128_divide_step:
  assumes inv: "unat (u128_abs q) * unat (u128_abs d) + unat (u128_abs m) = unat (u128_abs l) div 2 ^ Suc x"
    and m: "unat (u128_abs m) < unat (u128_abs d)" and x: "x < 2 ^ 64"
  defines "q1 \<equiv> u128_shl_assign q (u128_of_int 1)"
    and "m1 \<equiv> (let r = u128_shl_assign m (u128_of_int 1)
      in if u128_bool (u128_and_int (u128_shr_int l (int x)) 1) then u128_pre_inc r else r)"
  shows "unat (u128_abs q1) = 2 * unat (u128_abs q)"
    and "unat (u128_abs q1) * unat (u128_abs d) + unat (u128_abs m1) = unat (u128_abs l) div 2 ^ x"
    and "unat (u128_abs m1) < 2 * unat (u128_abs d)"
proof -
  let ?L = "unat (u128_abs l)" and ?D = "unat (u128_abs d)" and ?Q = "unat (u128_abs q)" and ?M = "unat (u128_abs m)"
  define b where "b = ?L div 2 ^ x mod 2"
  have step: "?L div 2 ^ x = 2 * ?Q * ?D + (2 * ?M + b)"
    using div_pow_step [of ?L x] inv by (simp add: b_def algebra_simps)
  have lt: "?L div 2 ^ x < 2 ^ 128" using unat_bound [of "u128_abs l"] by (simp add: div_le_dividend [THEN le_less_trans])
  have "2 * ?Q * 1 \<le> 2 * ?Q * ?D" using m by (intro mult_left_mono) auto
  with step lt have Q: "2 * ?Q < 2 ^ 128" and M: "2 * ?M + b < 2 ^ 128" by linarith+
  show q1: "unat (u128_abs q1) = 2 * ?Q" using Q by (simp add: q1_def refine_simps unat_double)
  have m1: "m1 = (if b = 1 then u128_pre_inc (u128_shl m (u128_of_int 1)) else u128_shl m (u128_of_int 1))"
    unfolding m1_def Let_def u128_assign_eq by (simp only: u128_bit_test [OF x] b_def)
  have dbl: "unat (u128_abs (u128_shl m (u128_of_int 1))) = 2 * ?M"
    using M by (simp add: refine_simps unat_double)
  have "b = 0 \<or> b = 1" by (auto simp: b_def)
  then have "unat (u128_abs m1) = 2 * ?M + b"
  proof
    assume "b = 1"
    then show ?thesis using M dbl unat_inc [of "u128_abs (u128_shl m (u128_of_int 1))"]
      by (simp add: m1 u128_abs_step)
  qed (simp add: m1 dbl)
  then show "unat (u128_abs q1) * ?D + unat (u128_abs m1) = ?L div 2 ^ x" "unat (u128_abs m1) < 2 * ?D"
    using q1 step m \<open>b = 0 \<or> b = 1\<close> by auto
qed

lemma u128_divide_loop_correct:
  assumes "x \<le> 128"
    and "unat (u128_abs q) * unat (u128_abs d) + unat (u128_abs m) = unat (u128_abs l) div 2 ^ x"
    and "unat (u128_abs m) < unat (u128_abs d)"
    and "u128_divide_loop x l d (q, m) = (q', m')"
  shows "unat (u128_abs q') * unat (u128_abs d) + unat (u128_abs m') = unat (u128_abs l) \<and>
    unat (u128_abs m') < unat (u128_abs d)"
  using assms
proof (induction x arbitrary: q m)
  case 0
  then show ?case by simp
next
  case (Suc x)
  let ?D = "unat (u128_abs d)"
  define q1 m1 where "q1 = u128_shl_assign q (u128_of_int 1)"
    and "m1 = (let r = u128_shl_assign m (u128_of_int 1)
      in if u128_bool (u128_and_int (u128_shr_int l (int x)) 1) then u128_pre_inc r else r)"
  have x: "x < 2 ^ 64" "x \<le> 128" using Suc.prems(1) by simp_all
  note step = u128_divide_step [OF Suc.prems(2,3) x(1), folded q1_def m1_def]
  have loop: "u128_divide_loop (Suc x) l d (q, m) =
      u128_divide_loop x l d (if u128_ge m1 d then (u128_pre_inc q1, u128_sub_assign m1 d) else (q1, m1))"
    by (simp add: q1_def m1_def Let_def)
  show ?case
  proof (cases "u128_ge m1 d")
    case True
    then have ge: "?D \<le> unat (u128_abs m1)" by (simp add: refine_simps word_le_nat_alt)
    then have m2: "unat (u128_abs (u128_sub_assign m1 d)) = unat (u128_abs m1) - ?D"
      by (simp add: refine_simps unat_sub word_le_nat_alt)
    have "(unat (u128_abs q1) + 1) * 1 \<le> (unat (u128_abs q1) + 1) * ?D"
      using Suc.prems(3) by (intro mult_left_mono) auto
    also have "\<dots> \<le> unat (u128_abs l) div 2 ^ x" using step ge by (simp add: algebra_simps)
    also have "\<dots> < 2 ^ 128" using unat_bound [of "u128_abs l"] by (simp add: div_le_dividend [THEN le_less_trans])
    finally have q2: "unat (u128_abs (u128_pre_inc q1)) = unat (u128_abs q1) + 1" by (simp add: refine_simps unat_inc)
    show ?thesis
      using Suc.IH [OF x(2), of "u128_pre_inc q1" "u128_sub_assign m1 d"] Suc.prems(4) loop step ge True
      by (simp add: m2 q2 algebra_simps)
  next
    case False
    then have "unat (u128_abs m1) < ?D" by (simp add: refine_simps word_le_nat_alt)
    then show ?thesis using Suc.IH [OF x(2), of q1 m1] Suc.prems(4) loop step False by simp
  qed
qed

lemma nat_divmod_unique:
  "q * d + m = (l::nat) \<Longrightarrow> m < d \<Longrightarrow> q = l div d \<and> m = l mod d"
  by auto

lemma u128_divide_correct:
  assumes d: "u128_abs d \<noteq> 0"
  shows "u128_abs (fst (u128_divide l d)) = u128_abs l div u128_abs d"
    and "u128_abs (snd (u128_divide l d)) = u128_abs l mod u128_abs d"
proof -
  let ?L = "unat (u128_abs l)" and ?D = "unat (u128_abs d)"
  obtain q m where qm: "u128_divide l d = (q, m)" by force
  have D: "0 < ?D" using d by (simp add: unat_gt_0)
  have "unat (u128_abs q) * ?D + unat (u128_abs m) = ?L \<and> unat (u128_abs m) < ?D"
  proof (cases "u128_eq d (u128_of_int 1) \<or> u128_eq l d \<or> u128_eq l (u128_of_int 0) \<or> u128_lt l d")
    case True
    then show ?thesis using qm d D
      by (auto simp: u128_divide_def Let_def refine_simps word_less_nat_alt split: if_splits)
  next
    case False
    then have loop: "u128_divide_loop (unat (u128_bits l)) l d (u128_of_int 0, u128_of_int 0) = (q, m)"
      using qm d by (auto simp: u128_divide_def Let_def refine_simps)
    have "unat (u128_bits l) \<le> 128" "?L div 2 ^ unat (u128_bits l) = 0"
      using unat_bound [of "u128_abs l"] bit_length_bound [of ?L]
      by (simp_all add: unat_u128_bits bit_length_le_iff)
    from this(1) show ?thesis
      by (rule u128_divide_loop_correct [OF _ _ _ loop]) (use D \<open>?L div _ = 0\<close> in simp_all)
  qed
  then have "unat (u128_abs q) = ?L div ?D" "unat (u128_abs m) = ?L mod ?D"
    using nat_divmod_unique by blast+
  then show "u128_abs (fst (u128_divide l d)) = u128_abs l div u128_abs d"
    "u128_abs (snd (u128_divide l d)) = u128_abs l mod u128_abs d"
    by (simp_all add: qm word_unat_eq_iff unat_div unat_mod)
qed

lemma u128_divide_zero: "u128_abs d = 0 \<Longrightarrow> u128_divide l d = (u128_of_int 0, u128_of_int 0)"
  by (simp add: u128_divide_def Let_def refine_simps)

lemma u128_abs_div [refine_simps]: "u128_abs (u128_div l d) = u128_abs l div u128_abs d"
  by (cases "u128_abs d = 0") (simp_all add: u128_div_def u128_divide_zero u128_divide_correct)

lemma u128_abs_mod [refine_simps]:
  "u128_abs (u128_mod l d) = (if u128_abs d = 0 then 0 else u128_abs l mod u128_abs d)"
  by (simp add: u128_mod_def u128_divide_zero u128_divide_correct)

section \<open>Encodings\<close>

lemma u128_encode_eq: "u128_encode x = rev (mem_bytes (upper x)) @ rev (mem_bytes (lower x))"
  by (simp add: u128_encode_def mem_bytes_to_big)

lemma u128_decode_encode: "u128_decode (u128_encode x) = x"
  by (rule u128_eqI)
     (simp_all add: u128_decode_def u128_encode_def mem_word_bytes to_endianness_involution)

lemma length_u128_encode [simp]: "length (u128_encode x) = 16"
  by (simp add: u128_encode_eq)

lemma u128_encode_decode:
  assumes "length data = 16"
  shows "u128_encode (u128_decode data) = data"
proof -
  have "mem_bytes (mem_word (take 8 data) :: u64) = take 8 data"
    "mem_bytes (mem_word (take 8 (drop 8 data)) :: u64) = take 8 (drop 8 data)"
    using assms by (simp_all add: mem_bytes_word)
  moreover have "take 8 (drop 8 data) = drop 8 data" using assms by simp
  ultimately show ?thesis
    by (simp add: u128_encode_def u128_decode_def to_endianness_involution)
qed

lemma u128_bytes_bound: "unat (u128_bytes x) \<le> 16"
proof -
  have "min 16 k < 256" for k :: nat by simp
  then show ?thesis
    by (auto simp: u128_bytes_def Let_def max_def unat_of_nat min_def not_le le_div_geq word_le_nat_alt)
qed

lemma u128_encode_bytes: "u128_encode x = rev (mem_bytes (u128_abs x))"
  by (simp add: u128_encode_eq u128_abs_def mem_bytes_join)

lemma u128_abs_surj: "\<exists>x. u128_abs x = w"
proof
  show "u128_abs (u128 (ucast (drop_bit 64 w)) (ucast w)) = w"
    by (rule bit_eqI) (auto simp: u128_abs_def bit_word_join bit_simps)
qed

lemma u128_abs_decode: "u128_abs (u128_decode (rev (mem_bytes w))) = w"
  by (metis u128_abs_surj u128_decode_encode u128_encode_bytes)

lemma unat_u128_bytes:
  "unat (u128_bytes x) = (if u128_abs x = 0 then 0 else min 16 (bit_length (unat (u128_abs x)) div 8 + 1))"
proof -
  define m where "m = min 16 (bit_length (unat (u128_abs x)) div 8 + 1)"
  have m: "unat (word_of_nat m :: u8) = m" "1 \<le> (word_of_nat m :: u8)"
    by (simp_all add: m_def unat_of_nat word_le_nat_alt del: of_nat_Suc)
  have "(n - n mod 8 + 8) div 8 = n div 8 + 1" for n :: nat by (simp add: minus_mod_eq_mult_div)
  then have "u128_bytes x = (if u128_abs x = 0 then 0 else max 1 (word_of_nat m))"
    by (simp only: u128_bytes_def Let_def refine_simps m_def)
  with m show ?thesis unfolding m_def [symmetric] by (simp add: max_def)
qed

lemma u128_bytes_enough: "unat (u128_abs x) < 2 ^ (8 * unat (u128_bytes x))"
proof (cases "u128_abs x = 0")
  case False
  let ?n = "unat (u128_abs x)"
  have "bit_length ?n \<le> 128" using unat_bound [of "u128_abs x"] by (simp add: bit_length_le_iff)
  then have "bit_length ?n \<le> 8 * unat (u128_bytes x)" using False by (simp add: unat_u128_bytes)
  then show ?thesis by (simp add: bit_length_le_iff)
qed simp

text \<open>The compact form drops leading zero bytes only.\<close>

lemma u128_encode_compact_suffix:
  "u128_encode x = replicate (16 - unat (u128_bytes x)) 0 @ u128_encode_compact x"
proof -
  let ?k = "unat (u128_bytes x)"
  have k: "?k \<le> 16" by (rule u128_bytes_bound)
  have "mem_bytes (u128_abs x) = take ?k (mem_bytes (u128_abs x)) @ replicate (16 - ?k) 0"
    using mem_bytes_small [OF u128_bytes_enough, of x] k by simp
  then have "u128_encode x = replicate (16 - ?k) 0 @ rev (take ?k (mem_bytes (u128_abs x)))"
    by (metis rev_append rev_replicate u128_encode_bytes)
  then show ?thesis using k by (simp add: u128_encode_compact_def Let_def)
qed

text \<open>
  Reading the compact form back puts its bytes at the front of the buffer, where the most
  significant bytes are: the value comes back shifted left by the bytes that were dropped.
\<close>

lemma u128_decode_compact_encode_compact:
  "u128_abs (u128_decode_compact (u128_encode_compact x)) = push_bit (8 * (16 - unat (u128_bytes x))) (u128_abs x)"
proof -
  let ?k = "unat (u128_bytes x)" and ?b = "mem_bytes (u128_abs x)"
  have k: "?k \<le> 16" by (rule u128_bytes_bound)
  have len: "length (u128_encode_compact x) = ?k" using k by (simp add: u128_encode_compact_def Let_def)
  have "u128_encode_compact x = rev (take ?k ?b)"
    using k by (simp add: u128_encode_compact_def Let_def u128_encode_bytes rev_take [symmetric] drop_rev)
  then have "u128_encode_compact x @ replicate (16 - ?k) 0 = rev (mem_bytes (push_bit (8 * (16 - ?k)) (u128_abs x)))"
    using k by (simp add: mem_bytes_push_bit)
  then show ?thesis using k len by (simp add: u128_decode_compact_def Let_def u128_abs_decode)
qed

section \<open>Integral operands\<close>

text \<open>
  With a non-negative integral operand every template agrees with the operator on the
  converted operand.
\<close>

lemma u128_of_nonneg:
  assumes "0 \<le> n" "n < 2 ^ 64"
  shows "upper (u128_of_int n) = 0" "lower (u128_of_int n) = word_of_int n"
  using assms by (simp_all add: u128_of_int_def)

lemma u128_int_operands:
  assumes n: "0 \<le> n" "n < 2 ^ 64"
  shows "u128_and_int x n = u128_and x (u128_of_int n)"
    and "u128_or_int x n = u128_or x (u128_of_int n)"
    and "u128_xor_int x n = u128_xor x (u128_of_int n)"
    and "u128_add_int x n = u128_add x (u128_of_int n)"
    and "u128_sub_int x n = u128_sub x (u128_of_int n)"
    and "u128_eq_int x n = u128_eq x (u128_of_int n)"
    and "u128_ne_int x n = u128_ne x (u128_of_int n)"
    and "u128_lt_int x n = u128_lt x (u128_of_int n)"
    and "u128_gt_int x n = u128_gt x (u128_of_int n)"
  using u128_of_nonneg [OF n]
  by (auto simp: u128_and_int_def u128_and_def u128_or_int_def u128_or_def u128_xor_int_def u128_xor_def
      u128_add_int_def u128_add_def u128_sub_int_def u128_sub_def u128_eq_int_def u128_eq_def
      u128_ne_int_def u128_ne_def u128_lt_int_def u128_lt_def u128_gt_int_def u128_gt_def
      word_gt_0 simp flip: word_neq_0_conv)

lemma u128_negative_operands:
  assumes n: "n < 0" "-(2 ^ 63) \<le> n"
  shows "u128_abs (u128_add_int x n) = u128_abs x + word_of_int n + 2 ^ 64"
    and "u128_abs (u128_sub_int x n) = u128_abs x - word_of_int n - 2 ^ 64"
    and "u128_abs (u128_add x (u128_of_int n)) = u128_abs x + word_of_int n"
    and "\<not> u128_eq_int (u128_of_int n) n"
proof -
  have r: "0 \<le> n + 2 ^ 64" "n + 2 ^ 64 < 2 ^ 64" using n by simp_all
  have w: "(word_of_int n :: u64) = word_of_int (n + 2 ^ 64)" by (simp add: word_of_int_eq_iff take_bit_int_def)
  then have "u128_add_int x n = u128_add_int x (n + 2 ^ 64)" "u128_sub_int x n = u128_sub_int x (n + 2 ^ 64)"
    by (simp_all only: u128_add_int_def u128_sub_int_def)
  then show "u128_abs (u128_add_int x n) = u128_abs x + word_of_int n + 2 ^ 64"
    "u128_abs (u128_sub_int x n) = u128_abs x - word_of_int n - 2 ^ 64"
    using r by (simp_all add: u128_int_operands u128_abs_add u128_abs_sub u128_abs_of_int)
  show "u128_abs (u128_add x (u128_of_int n)) = u128_abs x + word_of_int n"
    using n by (simp add: u128_abs_add u128_abs_of_int)
  show "\<not> u128_eq_int (u128_of_int n) n"
    using n by (simp add: u128_eq_int_def u128_of_int_def)
qed

lemma u128_land_int_diverges: "u128_land_int x n = None"
proof (cases "u128_land_int x n")
  case (Some b)
  have False
    by (rule u128_land_int.raw_induct [where P = "\<lambda>_ _ _. False" and xa = "(x, n)" and y = b, simplified])
       (use Some in auto)
  then show ?thesis ..
qed

lemma u128_lor_int_diverges: "u128_lor_int x n = None"
proof (cases "u128_lor_int x n")
  case (Some b)
  have False
    by (rule u128_lor_int.raw_induct [where P = "\<lambda>_ _ _. False" and xa = "(x, n)" and y = b, simplified])
       (use Some in auto)
  then show ?thesis ..
qed

section \<open>The contract of a wide word\<close>

interpretation u128: wide_word_shr u128_abs u128_of_int u128_add u128_sub u128_mul u128_div u128_mod
  u128_and u128_or u128_xor u128_not u128_neg u128_shl u128_eq u128_lt u128_shr
  by unfold_locales (simp_all add: refine_simps u128_abs_inject u128_abs_of_int)

section \<open>Properties\<close>

text \<open>
  C16: the operators \<^verbatim>\<open>+\<close>, \<^verbatim>\<open>-\<close>, \<^verbatim>\<open>*\<close>, unary \<^verbatim>\<open>-\<close>, \<^verbatim>\<open>++\<close> and \<^verbatim>\<open>--\<close> of \<^verbatim>\<open>uint128\<close>,
  and their assignment forms, compute modulo \<open>2 ^ 128\<close>: the carry between the halves and the
  sixteen 32-bit partial products of the multiplication add up to the arithmetic of one
  128-bit word.
\<close>

theorem u128_arithmetic:
  "u128_abs (u128_add x y) = u128_abs x + u128_abs y
   \<and> u128_abs (u128_sub x y) = u128_abs x - u128_abs y
   \<and> u128_abs (u128_mul x y) = u128_abs x * u128_abs y
   \<and> u128_abs (u128_neg x) = - u128_abs x
   \<and> u128_add_assign x y = u128_add x y \<and> u128_sub_assign x y = u128_sub x y
   \<and> u128_mul_assign x y = u128_mul x y
   \<and> u128_abs (u128_pre_inc x) = u128_abs x + 1 \<and> u128_abs (u128_pre_dec x) = u128_abs x - 1
   \<and> u128_post_inc x = (x, u128_pre_inc x) \<and> u128_post_dec x = (x, u128_pre_dec x)"
  by (simp add: refine_simps u128_post_inc_def u128_post_dec_def)

text \<open>
  Shifting a \<^verbatim>\<open>uint128\<close> by any other \<^verbatim>\<open>uint128\<close> is the logical shift of the 128-bit
  word, for every shift amount: zero, inside a half, exactly 64, across the halves, and 128 or
  more, which gives 0; a shift left that loses no bit is undone by the shift right.
\<close>

theorem u128_shifts:
  "u128_abs (u128_shl x r) = push_bit (unat (u128_abs r)) (u128_abs x)
   \<and> u128_abs (u128_shr x r) = drop_bit (unat (u128_abs r)) (u128_abs x)
   \<and> (unat (u128_abs x) * 2 ^ unat (u128_abs r) < 2 ^ 128 \<longrightarrow> u128_shr (u128_shl x r) r = x)"
  using u128.shr_shl [of x r] by (auto simp: u128_abs_shl u128_abs_shr)

theorem u128_shifts_witness:
  "unat (u128_abs (u128_of_int 5)) * 2 ^ unat (u128_abs (u128_of_int 70)) < 2 ^ 128
   \<and> u128_shr (u128_shl (u128_of_int 5) (u128_of_int 70)) (u128_of_int 70) = u128_of_int 5"
  using u128_shifts [of "u128_of_int 5" "u128_of_int 70"] by (simp add: u128_abs_of_int)

text \<open>
  C18: \<^verbatim>\<open>uint128::operator/\<close> and \<^verbatim>\<open>operator%\<close> with a non-zero divisor are the division with
  remainder: quotient times divisor plus remainder gives the dividend with no wrap-around, the
  remainder is below the divisor, and no other pair has these two properties.
\<close>

theorem u128_division:
  assumes "\<not> u128_eq d (u128_of_int 0)"
  shows "unat (u128_abs (u128_div n d)) * unat (u128_abs d) + unat (u128_abs (u128_mod n d)) = unat (u128_abs n)
    \<and> u128_lt (u128_mod n d) d
    \<and> (\<forall>q r. unat (u128_abs q) * unat (u128_abs d) + unat (u128_abs r) = unat (u128_abs n) \<and> u128_lt r d
             \<longrightarrow> q = u128_div n d \<and> r = u128_mod n d)"
proof -
  have "u128_abs d \<noteq> 0" using assms by (simp add: refine_simps)
  then show ?thesis
    using u128.quot_rem(2) [OF assms, of n] u128.quot_rem_unique [of _ d _ n]
    by (auto simp: u128_abs_div u128_abs_mod unat_div unat_mod)
qed

theorem u128_division_witness:
  "\<not> u128_eq (u128_of_int 7) (u128_of_int 0) \<and>
   u128_lt (u128_mod (u128 3 9) (u128_of_int 7)) (u128_of_int 7)"
  using u128_division [of "u128_of_int 7" "u128 3 9"] by (simp add: refine_simps u128_abs_of_int)

text \<open>
  Dividing a \<^verbatim>\<open>uint128\<close> by zero raises nothing: \<^verbatim>\<open>divide\<close> returns the pair \<open>(0, 0)\<close>, so
  the quotient and the remainder are both 0 and the division identity fails for every
  non-zero dividend.
\<close>

theorem u128_division_by_zero:
  "u128_div n (u128_of_int 0) = u128_of_int 0 \<and> u128_mod n (u128_of_int 0) = u128_of_int 0
   \<and> u128_div_assign n (u128_of_int 0) = u128_of_int 0 \<and> u128_mod_assign n (u128_of_int 0) = u128_of_int 0"
  by (simp add: u128_div_assign_def u128_mod_assign_def u128_div_def u128_mod_def u128_divide_zero)

text \<open>
  The six comparison operators of \<^verbatim>\<open>uint128\<close> compare the 128-bit values, so exactly one
  of \<^verbatim>\<open><\<close>, \<^verbatim>\<open>==\<close>, \<^verbatim>\<open>>\<close> holds and \<^verbatim>\<open><=\<close>, \<^verbatim>\<open>>=\<close>, \<^verbatim>\<open>!=\<close> are their negations; the truth
  operators test against zero.
\<close>

theorem u128_comparisons:
  "(u128_lt x y \<longleftrightarrow> unat (u128_abs x) < unat (u128_abs y)) \<and> (u128_gt x y \<longleftrightarrow> u128_lt y x)
   \<and> (u128_eq x y \<longleftrightarrow> x = y) \<and> (u128_ne x y \<longleftrightarrow> \<not> u128_eq x y)
   \<and> (u128_ge x y \<longleftrightarrow> \<not> u128_lt x y) \<and> (u128_le x y \<longleftrightarrow> \<not> u128_gt x y)
   \<and> (u128_bool x \<longleftrightarrow> x \<noteq> u128_min) \<and> (u128_lnot x \<longleftrightarrow> \<not> u128_bool x)
   \<and> (u128_land x y \<longleftrightarrow> u128_bool x \<and> u128_bool y) \<and> (u128_lor x y \<longleftrightarrow> u128_bool x \<or> u128_bool y)
   \<and> u128_le x u128_max \<and> u128_ge x u128_min"
proof -
  have max: "u128_abs u128_max = -1"
    by (intro bit_eqI) (auto simp: u128_max_def u128_of_int2_def u128_abs_def bit_word_join bit_simps)
  have min: "u128_abs u128_min = 0" by (simp add: u128_min_def)
  have "u128_bool x \<longleftrightarrow> x \<noteq> u128_min"
    using u128_abs_inject [of x u128_min] by (simp add: refine_simps min)
  moreover have "u128_le x u128_max" "u128_ge x u128_min" by (simp_all add: refine_simps max min)
  ultimately show ?thesis
    by (simp add: refine_simps u128_abs_inject word_less_nat_alt word_le_nat_alt not_less u128_land_def u128_lor_def)
qed

text \<open>
  \<^verbatim>\<open>uint128::encode\<close> writes the 16 bytes of the value, most significant first;
  \<^verbatim>\<open>decode\<close> inverts it on every value, and \<^verbatim>\<open>encode\<close> inverts \<^verbatim>\<open>decode\<close> on every buffer of 16
  bytes.
\<close>

theorem u128_encoding:
  "length (u128_encode x) = 16 \<and> u128_encode x = rev (mem_bytes (u128_abs x)) \<and> u128_decode (u128_encode x) = x
   \<and> (length data = 16 \<longrightarrow> u128_encode (u128_decode data) = data)"
  using u128_encode_bytes [of x] u128_encode_decode [of data] u128_decode_encode [of x] length_u128_encode [of x]
  by blast

theorem u128_encoding_witness:
  "length (map word_of_nat [1..<17] :: u8 list) = 16
   \<and> u128_encode (u128_decode (map word_of_nat [1..<17])) = map word_of_nat [1..<17]"
  using u128_encoding [of "u128_of_int 0" "map word_of_nat [1..<17]"] by simp

text \<open>
  \<^verbatim>\<open>encode_compact\<close> keeps the last \<^verbatim>\<open>bytes()\<close> bytes of the full encoding and drops zero
  bytes only, but \<^verbatim>\<open>decode_compact\<close> is not its inverse: it copies the kept bytes to the
  front of the buffer, so the value comes back shifted left by the dropped bytes.
\<close>

theorem u128_compact_encoding:
  "u128_encode x = replicate (16 - unat (u128_bytes x)) 0 @ u128_encode_compact x
   \<and> length (u128_encode_compact x) = unat (u128_bytes x)
   \<and> u128_abs (u128_decode_compact (u128_encode_compact x))
       = push_bit (8 * (16 - unat (u128_bytes x))) (u128_abs x)"
  using u128_bytes_bound [of x]
  by (simp add: u128_encode_compact_suffix u128_decode_compact_encode_compact)
     (simp add: u128_encode_compact_def Let_def)

text \<open>
  An operator of \<^verbatim>\<open>uint128\<close> with an integral right operand agrees with the operator on
  the converted operand when that operand is not negative; with a negative one, \<^verbatim>\<open>+\<close> and
  \<^verbatim>\<open>-\<close> use its residue modulo \<open>2 ^ 64\<close> where the converting constructor sign-extends, and a
  \<^verbatim>\<open>uint128\<close> constructed from a negative integer does not compare equal to it.
\<close>

theorem u128_integral_operands:
  assumes "-(2 ^ 63) \<le> n" "n < 2 ^ 64"
  shows "if 0 \<le> n then
      u128_and_int x n = u128_and x (u128_of_int n) \<and> u128_or_int x n = u128_or x (u128_of_int n)
      \<and> u128_xor_int x n = u128_xor x (u128_of_int n) \<and> u128_add_int x n = u128_add x (u128_of_int n)
      \<and> u128_sub_int x n = u128_sub x (u128_of_int n) \<and> u128_eq_int x n = u128_eq x (u128_of_int n)
      \<and> u128_ne_int x n = u128_ne x (u128_of_int n) \<and> u128_lt_int x n = u128_lt x (u128_of_int n)
      \<and> u128_gt_int x n = u128_gt x (u128_of_int n)
    else u128_abs (u128_add_int x n) = u128_abs x + word_of_int n + 2 ^ 64
      \<and> u128_abs (u128_sub_int x n) = u128_abs x - word_of_int n - 2 ^ 64
      \<and> u128_abs (u128_add x (u128_of_int n)) = u128_abs x + word_of_int n
      \<and> \<not> u128_eq_int (u128_of_int n) n"
proof (cases "0 \<le> n")
  case True
  with assms show ?thesis by (simp add: u128_int_operands)
next
  case False
  then have "n < 0" by simp
  from u128_negative_operands [OF this assms(1)] False show ?thesis by simp
qed

theorem u128_integral_operands_witness:
  "(-(2 ^ 63) \<le> (-1::int) \<and> (-1::int) < 2 ^ 64) \<and> \<not> u128_eq_int (u128_of_int (-1)) (-1)"
  using u128_integral_operands [of "-1" "u128_of_int 0"] by simp

text \<open>
  The integral overloads of \<^verbatim>\<open>uint128::operator&&\<close> and \<^verbatim>\<open>operator||\<close> never return, on
  any operands: each calls itself.
\<close>

theorem u128_integral_logic_diverges: "u128_land_int x n = None \<and> u128_lor_int x n = None"
  by (simp add: u128_land_int_diverges u128_lor_int_diverges)

end
