(* ===== verification/UInt256.thy ===== *)
theory UInt256
  imports UInt128
begin

text \<open>
  The unsigned 256-bit integer (\<^verbatim>\<open>struct uint256\<close> of \<^verbatim>\<open>compute.h\<close> and
  \<^verbatim>\<open>compute.cpp\<close>): two \<^verbatim>\<open>uint128\<close> halves, one definition per operator, calling the
  \<^verbatim>\<open>uint128\<close> operators the sources call.  The abstraction onto one 256-bit word, the
  refinement lemma of each operator and the interpretation of the wide word contract follow
  the definitions.
\<close>

section \<open>Data and constructors\<close>

record uint256 =
  lower256 :: uint128
  upper256 :: uint128

definition u256 :: "uint128 \<Rightarrow> uint128 \<Rightarrow> uint256" where
  "u256 upper_right lower_right = \<lparr>lower256 = lower_right, upper256 = upper_right\<rparr>"

definition u256_of_u128 :: "uint128 \<Rightarrow> uint256" where
  "u256_of_u128 lower_right = \<lparr>lower256 = lower_right, upper256 = u128_min\<rparr>"

definition u256_of_int :: "int \<Rightarrow> uint256" where
  "u256_of_int right =
     (let x = \<lparr>lower256 = u128_of_int right, upper256 = u128_min\<rparr>
      in if right < 0 then x\<lparr>upper256 := u128_of_int2 (-1) (-1)\<rparr> else x)"

definition u256_of_int2 :: "int \<Rightarrow> int \<Rightarrow> uint256" where
  "u256_of_int2 upper_right lower_right =
     \<lparr>lower256 = u128_of_int lower_right, upper256 = u128_of_int upper_right\<rparr>"

definition u256_of_int4 :: "int \<Rightarrow> int \<Rightarrow> int \<Rightarrow> int \<Rightarrow> uint256" where
  "u256_of_int4 upper_lhs lower_lhs upper_right lower_right =
     \<lparr>lower256 = u128_of_int2 upper_right lower_right, upper256 = u128_of_int2 upper_lhs lower_lhs\<rparr>"

definition u256_assign_int :: "uint256 \<Rightarrow> int \<Rightarrow> uint256" where
  "u256_assign_int x right =
     (let x = x\<lparr>upper256 := u128_min\<rparr>;
          x = (if right < 0 then x\<lparr>upper256 := u128_of_int2 (-1) (-1)\<rparr> else x)
      in x\<lparr>lower256 := u128_assign_int (lower256 x) right\<rparr>)"

definition u256_min :: "uint256" where
  "u256_min = u256_of_int 0"

definition u256_max :: "uint256" where
  "u256_max = u256 (u128 (-1) (-1)) (u128 (-1) (-1))"

definition u256_high :: "uint256 \<Rightarrow> uint128" where
  "u256_high x = upper256 x"

definition u256_low :: "uint256 \<Rightarrow> uint128" where
  "u256_low x = lower256 x"

definition u256_bool :: "uint256 \<Rightarrow> bool" where
  "u256_bool x \<longleftrightarrow> u128_lor (upper256 x) (lower256 x)"

definition u256_to_u8 :: "uint256 \<Rightarrow> u8" where
  "u256_to_u8 x = u128_to_u8 (lower256 x)"

definition u256_to_u16 :: "uint256 \<Rightarrow> u16" where
  "u256_to_u16 x = u128_to_u16 (lower256 x)"

definition u256_to_u32 :: "uint256 \<Rightarrow> u32" where
  "u256_to_u32 x = u128_to_u32 (lower256 x)"

definition u256_to_u64 :: "uint256 \<Rightarrow> u64" where
  "u256_to_u64 x = u128_to_u64 (lower256 x)"

definition u256_to_u128 :: "uint256 \<Rightarrow> uint128" where
  "u256_to_u128 x = lower256 x"

section \<open>Bitwise operators and shifts\<close>

definition u256_and_u128 :: "uint256 \<Rightarrow> uint128 \<Rightarrow> uint256" where
  "u256_and_u128 x right = u256 u128_min (u128_and (lower256 x) right)"

definition u256_and :: "uint256 \<Rightarrow> uint256 \<Rightarrow> uint256" where
  "u256_and x right =
     u256 (u128_and (upper256 x) (upper256 right)) (u128_and (lower256 x) (lower256 right))"

definition u256_and_assign_u128 :: "uint256 \<Rightarrow> uint128 \<Rightarrow> uint256" where
  "u256_and_assign_u128 x right =
     x\<lparr>upper256 := u128_min, lower256 := u128_and_assign (lower256 x) right\<rparr>"

definition u256_and_assign :: "uint256 \<Rightarrow> uint256 \<Rightarrow> uint256" where
  "u256_and_assign x right =
     x\<lparr>upper256 := u128_and_assign (upper256 x) (upper256 right),
       lower256 := u128_and_assign (lower256 x) (lower256 right)\<rparr>"

definition u256_or_u128 :: "uint256 \<Rightarrow> uint128 \<Rightarrow> uint256" where
  "u256_or_u128 x right = u256 (upper256 x) (u128_or (lower256 x) right)"

definition u256_or :: "uint256 \<Rightarrow> uint256 \<Rightarrow> uint256" where
  "u256_or x right =
     u256 (u128_or (upper256 x) (upper256 right)) (u128_or (lower256 x) (lower256 right))"

definition u256_or_assign_u128 :: "uint256 \<Rightarrow> uint128 \<Rightarrow> uint256" where
  "u256_or_assign_u128 x right = x\<lparr>lower256 := u128_or_assign (lower256 x) right\<rparr>"

definition u256_or_assign :: "uint256 \<Rightarrow> uint256 \<Rightarrow> uint256" where
  "u256_or_assign x right =
     x\<lparr>upper256 := u128_or_assign (upper256 x) (upper256 right),
       lower256 := u128_or_assign (lower256 x) (lower256 right)\<rparr>"

definition u256_xor_u128 :: "uint256 \<Rightarrow> uint128 \<Rightarrow> uint256" where
  "u256_xor_u128 x right = u256 (upper256 x) (u128_xor (lower256 x) right)"

definition u256_xor :: "uint256 \<Rightarrow> uint256 \<Rightarrow> uint256" where
  "u256_xor x right =
     u256 (u128_xor (upper256 x) (upper256 right)) (u128_xor (lower256 x) (lower256 right))"

definition u256_xor_assign_u128 :: "uint256 \<Rightarrow> uint128 \<Rightarrow> uint256" where
  "u256_xor_assign_u128 x right = x\<lparr>lower256 := u128_xor_assign (lower256 x) right\<rparr>"

definition u256_xor_assign :: "uint256 \<Rightarrow> uint256 \<Rightarrow> uint256" where
  "u256_xor_assign x right =
     x\<lparr>upper256 := u128_xor_assign (upper256 x) (upper256 right),
       lower256 := u128_xor_assign (lower256 x) (lower256 right)\<rparr>"

definition u256_not :: "uint256 \<Rightarrow> uint256" where
  "u256_not x = u256 (u128_not (upper256 x)) (u128_not (lower256 x))"

definition u256_shl :: "uint256 \<Rightarrow> uint256 \<Rightarrow> uint256" where
  "u256_shl x right =
     (let shift = lower256 right in
      if u128_bool (upper256 right) \<or> u128_ge shift (u128_of_int 256) then u256_min
      else if u128_eq shift (u128_of_int 128) then u256 (lower256 x) u128_min
      else if u128_eq shift u128_min then x
      else if u128_lt shift (u128_of_int 128) then
        u256 (u128_add (u128_shl (upper256 x) shift) (u128_shr (lower256 x) (u128_sub (u128_of_int 128) shift)))
             (u128_shl (lower256 x) shift)
      else if u128_gt (u128_of_int 256) shift \<and> u128_gt shift (u128_of_int 128) then
        u256 (u128_shl (lower256 x) (u128_sub shift (u128_of_int 128))) u128_min
      else u256_min)"

definition u256_shl_u128 :: "uint256 \<Rightarrow> uint128 \<Rightarrow> uint256" where
  "u256_shl_u128 x right = u256_shl x (u256_of_u128 right)"

definition u256_shl_assign :: "uint256 \<Rightarrow> uint256 \<Rightarrow> uint256" where
  "u256_shl_assign x shift = u256_shl x shift"

definition u256_shl_assign_u128 :: "uint256 \<Rightarrow> uint128 \<Rightarrow> uint256" where
  "u256_shl_assign_u128 x shift = u256_shl_assign x (u256_of_u128 shift)"

definition u256_shr :: "uint256 \<Rightarrow> uint256 \<Rightarrow> uint256" where
  "u256_shr x right =
     (let shift = lower256 right in
      if u128_bool (upper256 right) \<or> u128_ge shift (u128_of_int 128) then u256_min
      else if u128_eq shift (u128_of_int 128) then u256_of_u128 (upper256 x)
      else if u128_eq shift u128_min then x
      else if u128_lt shift (u128_of_int 128) then
        u256 (u128_shr (upper256 x) shift)
             (u128_add (u128_shl (upper256 x) (u128_sub (u128_of_int 128) shift)) (u128_shr (lower256 x) shift))
      else if u128_gt (u128_of_int 256) shift \<and> u128_gt shift (u128_of_int 128) then
        u256_of_u128 (u128_shr (upper256 x) (u128_sub shift (u128_of_int 128)))
      else u256_min)"

definition u256_shr_u128 :: "uint256 \<Rightarrow> uint128 \<Rightarrow> uint256" where
  "u256_shr_u128 x right = u256_shr x (u256_of_u128 right)"

definition u256_shr_assign :: "uint256 \<Rightarrow> uint256 \<Rightarrow> uint256" where
  "u256_shr_assign x shift = u256_shr x shift"

definition u256_shr_assign_u128 :: "uint256 \<Rightarrow> uint128 \<Rightarrow> uint256" where
  "u256_shr_assign_u128 x shift = u256_shr_assign x (u256_of_u128 shift)"

section \<open>Logical operators and comparisons\<close>

definition u256_lnot :: "uint256 \<Rightarrow> bool" where
  "u256_lnot x \<longleftrightarrow> \<not> u256_bool x"

definition u256_land :: "uint256 \<Rightarrow> uint256 \<Rightarrow> bool" where
  "u256_land x right \<longleftrightarrow> u256_bool x \<and> u256_bool right"

definition u256_land_u128 :: "uint256 \<Rightarrow> uint128 \<Rightarrow> bool" where
  "u256_land_u128 x right \<longleftrightarrow> u256_land x (u256_of_u128 right)"

definition u256_lor :: "uint256 \<Rightarrow> uint256 \<Rightarrow> bool" where
  "u256_lor x right \<longleftrightarrow> u256_bool x \<or> u256_bool right"

definition u256_lor_u128 :: "uint256 \<Rightarrow> uint128 \<Rightarrow> bool" where
  "u256_lor_u128 x right \<longleftrightarrow> u256_lor x (u256_of_u128 right)"

definition u256_eq :: "uint256 \<Rightarrow> uint256 \<Rightarrow> bool" where
  "u256_eq x right \<longleftrightarrow>
     u128_eq (upper256 x) (upper256 right) \<and> u128_eq (lower256 x) (lower256 right)"

definition u256_ne :: "uint256 \<Rightarrow> uint256 \<Rightarrow> bool" where
  "u256_ne x right \<longleftrightarrow>
     u128_ne (upper256 x) (upper256 right) \<or> u128_ne (lower256 x) (lower256 right)"

definition u256_gt :: "uint256 \<Rightarrow> uint256 \<Rightarrow> bool" where
  "u256_gt x right \<longleftrightarrow>
     (if u128_eq (upper256 x) (upper256 right) then u128_gt (lower256 x) (lower256 right)
      else if u128_gt (upper256 x) (upper256 right) then True else False)"

definition u256_lt :: "uint256 \<Rightarrow> uint256 \<Rightarrow> bool" where
  "u256_lt x right \<longleftrightarrow>
     (if u128_eq (upper256 x) (upper256 right) then u128_lt (lower256 x) (lower256 right)
      else if u128_lt (upper256 x) (upper256 right) then True else False)"

definition u256_ge :: "uint256 \<Rightarrow> uint256 \<Rightarrow> bool" where
  "u256_ge x right \<longleftrightarrow> u256_gt x right \<or> u256_eq x right"

definition u256_le :: "uint256 \<Rightarrow> uint256 \<Rightarrow> bool" where
  "u256_le x right \<longleftrightarrow> u256_lt x right \<or> u256_eq x right"

definition u256_eq_u128 :: "uint256 \<Rightarrow> uint128 \<Rightarrow> bool" where
  "u256_eq_u128 x right \<longleftrightarrow> u256_eq x (u256_of_u128 right)"

definition u256_ne_u128 :: "uint256 \<Rightarrow> uint128 \<Rightarrow> bool" where
  "u256_ne_u128 x right \<longleftrightarrow> u256_ne x (u256_of_u128 right)"

definition u256_gt_u128 :: "uint256 \<Rightarrow> uint128 \<Rightarrow> bool" where
  "u256_gt_u128 x right \<longleftrightarrow> u256_gt x (u256_of_u128 right)"

definition u256_lt_u128 :: "uint256 \<Rightarrow> uint128 \<Rightarrow> bool" where
  "u256_lt_u128 x right \<longleftrightarrow> u256_lt x (u256_of_u128 right)"

definition u256_ge_u128 :: "uint256 \<Rightarrow> uint128 \<Rightarrow> bool" where
  "u256_ge_u128 x right \<longleftrightarrow> u256_ge x (u256_of_u128 right)"

definition u256_le_u128 :: "uint256 \<Rightarrow> uint128 \<Rightarrow> bool" where
  "u256_le_u128 x right \<longleftrightarrow> u256_le x (u256_of_u128 right)"

section \<open>Arithmetic\<close>

definition u256_add :: "uint256 \<Rightarrow> uint256 \<Rightarrow> uint256" where
  "u256_add x right =
     u256 (u128_add (u128_add (upper256 x) (upper256 right))
            (if u128_lt (u128_add (lower256 x) (lower256 right)) (lower256 x) then u128_of_int 1 else u128_min))
          (u128_add (lower256 x) (lower256 right))"

definition u256_add_u128 :: "uint256 \<Rightarrow> uint128 \<Rightarrow> uint256" where
  "u256_add_u128 x right = u256_add x (u256_of_u128 right)"

definition u256_add_assign :: "uint256 \<Rightarrow> uint256 \<Rightarrow> uint256" where
  "u256_add_assign x right =
     (let x = x\<lparr>upper256 := u128_add_int (u128_add (upper256 right) (upper256 x))
                (of_bool (u128_lt (u128_add (lower256 x) (lower256 right)) (lower256 x)))\<rparr>
      in x\<lparr>lower256 := u128_add (lower256 x) (lower256 right)\<rparr>)"

definition u256_add_assign_u128 :: "uint256 \<Rightarrow> uint128 \<Rightarrow> uint256" where
  "u256_add_assign_u128 x right = u256_add_assign x (u256_of_u128 right)"

definition u256_sub :: "uint256 \<Rightarrow> uint256 \<Rightarrow> uint256" where
  "u256_sub x right =
     u256 (u128_sub_int (u128_sub (upper256 x) (upper256 right))
            (of_bool (u128_gt (u128_sub (lower256 x) (lower256 right)) (lower256 x))))
          (u128_sub (lower256 x) (lower256 right))"

definition u256_sub_u128 :: "uint256 \<Rightarrow> uint128 \<Rightarrow> uint256" where
  "u256_sub_u128 x right = u256_sub x (u256_of_u128 right)"

definition u256_sub_assign :: "uint256 \<Rightarrow> uint256 \<Rightarrow> uint256" where
  "u256_sub_assign x right = u256_sub x right"

definition u256_sub_assign_u128 :: "uint256 \<Rightarrow> uint128 \<Rightarrow> uint256" where
  "u256_sub_assign_u128 x right = u256_sub_assign x (u256_of_u128 right)"

text \<open>
  \<^verbatim>\<open>products[3 - y][x] = top[x] * bottom[y]\<close>, so \<open>p i j\<close> is \<^verbatim>\<open>products[i][j]\<close>, the product of
  64-bit limb \<open>j\<close> of the left and limb \<open>3 - i\<close> of the right operand; \<open>w\<close> is the conversion of
  a 64-bit half to \<^verbatim>\<open>uint128\<close>.
\<close>

definition u256_mul :: "uint256 \<Rightarrow> uint256 \<Rightarrow> uint256" where
  "u256_mul x right =
     (let w = (\<lambda>v :: u64. u128_of_int (uint v));
          top = [w (u128_high (upper256 x)), w (u128_low (upper256 x)),
                 w (u128_high (lower256 x)), w (u128_low (lower256 x))];
          bottom = [w (u128_high (u256_high right)), w (u128_low (u256_high right)),
                    w (u128_high (u256_low right)), w (u128_low (u256_low right))];
          p = (\<lambda>i j. u128_mul (top ! j) (bottom ! (3 - i)));
          fourth64 = w (u128_low (p 0 3));
          third64 = u128_add (w (u128_low (p 0 2))) (w (u128_high (p 0 3)));
          second64 = u128_add (w (u128_low (p 0 1))) (w (u128_high (p 0 2)));
          first64 = u128_add (w (u128_low (p 0 0))) (w (u128_high (p 0 1)));
          third64 = u128_add_assign third64 (w (u128_low (p 1 3)));
          second64 = u128_add_assign second64 (u128_add (w (u128_low (p 1 2))) (w (u128_high (p 1 3))));
          first64 = u128_add_assign first64 (u128_add (w (u128_low (p 1 1))) (w (u128_high (p 1 2))));
          second64 = u128_add_assign second64 (w (u128_low (p 2 3)));
          first64 = u128_add_assign first64 (u128_add (w (u128_low (p 2 2))) (w (u128_high (p 2 3))));
          first64 = u128_add_assign first64 (w (u128_low (p 3 3)))
      in u256_add (u256_add (u256_add
           (u256 (u128_shl first64 (u128_of_int 64)) u128_min)
           (u256 (w (u128_high third64)) (u128_shl third64 (u128_of_int 64))))
           (u256 second64 u128_min))
           (u256_of_u128 fourth64))"

definition u256_mul_u128 :: "uint256 \<Rightarrow> uint128 \<Rightarrow> uint256" where
  "u256_mul_u128 x right = u256_mul x (u256_of_u128 right)"

definition u256_mul_assign :: "uint256 \<Rightarrow> uint256 \<Rightarrow> uint256" where
  "u256_mul_assign x right = u256_mul x right"

definition u256_mul_assign_u128 :: "uint256 \<Rightarrow> uint128 \<Rightarrow> uint256" where
  "u256_mul_assign_u128 x right = u256_mul_assign x (u256_of_u128 right)"

definition u256_pre_inc :: "uint256 \<Rightarrow> uint256" where
  "u256_pre_inc x = u256_add_assign x (u256_of_int 1)"

definition u256_post_inc :: "uint256 \<Rightarrow> uint256 \<times> uint256" where
  "u256_post_inc x = (let temp = x; x = u256_pre_inc x in (temp, x))"

definition u256_pre_dec :: "uint256 \<Rightarrow> uint256" where
  "u256_pre_dec x = u256_sub_assign x (u256_of_int 1)"

definition u256_post_dec :: "uint256 \<Rightarrow> uint256 \<times> uint256" where
  "u256_post_dec x = (let temp = x; x = u256_pre_dec x in (temp, x))"

definition u256_plus :: "uint256 \<Rightarrow> uint256" where
  "u256_plus x = x"

definition u256_neg :: "uint256 \<Rightarrow> uint256" where
  "u256_neg x = u256_add (u256_not x) (u256_of_int 1)"

section \<open>Operators on an integral right operand\<close>

definition u256_and_int :: "uint256 \<Rightarrow> int \<Rightarrow> uint256" where
  "u256_and_int x right = u256 u128_min (u128_and (lower256 x) (u128_of_int right))"

definition u256_and_assign_int :: "uint256 \<Rightarrow> int \<Rightarrow> uint256" where
  "u256_and_assign_int x right =
     x\<lparr>upper256 := u128_min, lower256 := u128_and_assign_int (lower256 x) right\<rparr>"

definition u256_or_int :: "uint256 \<Rightarrow> int \<Rightarrow> uint256" where
  "u256_or_int x right = u256 (upper256 x) (u128_or (lower256 x) (u128_of_int right))"

definition u256_or_assign_int :: "uint256 \<Rightarrow> int \<Rightarrow> uint256" where
  "u256_or_assign_int x right =
     x\<lparr>lower256 := u128_or_assign (lower256 x) (u128_of_int right)\<rparr>"

definition u256_xor_int :: "uint256 \<Rightarrow> int \<Rightarrow> uint256" where
  "u256_xor_int x right = u256 (upper256 x) (u128_xor (lower256 x) (u128_of_int right))"

definition u256_xor_assign_int :: "uint256 \<Rightarrow> int \<Rightarrow> uint256" where
  "u256_xor_assign_int x right =
     x\<lparr>lower256 := u128_xor_assign (lower256 x) (u128_of_int right)\<rparr>"

definition u256_shl_int :: "uint256 \<Rightarrow> int \<Rightarrow> uint256" where
  "u256_shl_int x right = u256_shl x (u256_of_int right)"

definition u256_shr_int :: "uint256 \<Rightarrow> int \<Rightarrow> uint256" where
  "u256_shr_int x right = u256_shr x (u256_of_int right)"

definition u256_land_int :: "uint256 \<Rightarrow> int \<Rightarrow> bool" where
  "u256_land_int x right \<longleftrightarrow> u256_bool x \<and> right \<noteq> 0"

definition u256_lor_int :: "uint256 \<Rightarrow> int \<Rightarrow> bool" where
  "u256_lor_int x right \<longleftrightarrow> u256_bool x \<or> right \<noteq> 0"

definition u256_eq_int :: "uint256 \<Rightarrow> int \<Rightarrow> bool" where
  "u256_eq_int x right \<longleftrightarrow> u128_lnot (upper256 x) \<and> u128_eq (lower256 x) (u128_of_int right)"

definition u256_ne_int :: "uint256 \<Rightarrow> int \<Rightarrow> bool" where
  "u256_ne_int x right \<longleftrightarrow> u128_bool (upper256 x) \<or> u128_ne (lower256 x) (u128_of_int right)"

definition u256_gt_int :: "uint256 \<Rightarrow> int \<Rightarrow> bool" where
  "u256_gt_int x right \<longleftrightarrow> u128_bool (upper256 x) \<or> u128_gt (lower256 x) (u128_of_int right)"

definition u256_lt_int :: "uint256 \<Rightarrow> int \<Rightarrow> bool" where
  "u256_lt_int x right \<longleftrightarrow>
     (if u128_lnot (upper256 x) then u128_lt (lower256 x) (u128_of_int right) else False)"

definition u256_ge_int :: "uint256 \<Rightarrow> int \<Rightarrow> bool" where
  "u256_ge_int x right \<longleftrightarrow> u256_gt_int x right \<or> u256_eq_int x right"

definition u256_le_int :: "uint256 \<Rightarrow> int \<Rightarrow> bool" where
  "u256_le_int x right \<longleftrightarrow> u256_lt_int x right \<or> u256_eq_int x right"

definition u256_add_int :: "uint256 \<Rightarrow> int \<Rightarrow> uint256" where
  "u256_add_int x right =
     u256 (u128_add_int (upper256 x) (of_bool (u128_lt (u128_add (lower256 x) (u128_of_int right)) (lower256 x))))
          (u128_add (lower256 x) (u128_of_int right))"

definition u256_add_assign_int :: "uint256 \<Rightarrow> int \<Rightarrow> uint256" where
  "u256_add_assign_int x right = u256_add_assign x (u256_of_int right)"

definition u256_sub_int :: "uint256 \<Rightarrow> int \<Rightarrow> uint256" where
  "u256_sub_int x right =
     u256 (u128_sub_int (upper256 x) (of_bool (u128_gt (u128_sub_int (lower256 x) right) (lower256 x))))
          (u128_sub_int (lower256 x) right)"

definition u256_sub_assign_int :: "uint256 \<Rightarrow> int \<Rightarrow> uint256" where
  "u256_sub_assign_int x right = u256_sub x (u256_of_int right)"

definition u256_mul_int :: "uint256 \<Rightarrow> int \<Rightarrow> uint256" where
  "u256_mul_int x right = u256_mul x (u256_of_int right)"

definition u256_shl_assign_int :: "uint256 \<Rightarrow> int \<Rightarrow> uint256" where
  "u256_shl_assign_int x right = u256_shl x (u256_of_int right)"

definition u256_shr_assign_int :: "uint256 \<Rightarrow> int \<Rightarrow> uint256" where
  "u256_shr_assign_int x right = u256_shr x (u256_of_int right)"

definition u256_mul_assign_int :: "uint256 \<Rightarrow> int \<Rightarrow> uint256" where
  "u256_mul_assign_int x right = u256_mul x (u256_of_int right)"

section \<open>Operators on a \<^verbatim>\<open>uint128\<close> left operand\<close>

definition u128_and_u256 :: "uint128 \<Rightarrow> uint256 \<Rightarrow> uint256" where
  "u128_and_u256 left right = u256_and_u128 right left"

definition u128_and_assign_u256 :: "uint128 \<Rightarrow> uint256 \<Rightarrow> uint128" where
  "u128_and_assign_u256 left right = u256_low (u256_and_u128 right left)"

definition u128_or_u256 :: "uint128 \<Rightarrow> uint256 \<Rightarrow> uint256" where
  "u128_or_u256 left right = u256_or_u128 right left"

definition u128_or_assign_u256 :: "uint128 \<Rightarrow> uint256 \<Rightarrow> uint128" where
  "u128_or_assign_u256 left right = u256_low (u256_or_u128 right left)"

definition u128_xor_u256 :: "uint128 \<Rightarrow> uint256 \<Rightarrow> uint256" where
  "u128_xor_u256 left right = u256_xor_u128 right left"

definition u128_xor_assign_u256 :: "uint128 \<Rightarrow> uint256 \<Rightarrow> uint128" where
  "u128_xor_assign_u256 left right = u256_low (u256_xor_u128 right left)"

definition u128_shl_u256 :: "uint128 \<Rightarrow> uint256 \<Rightarrow> uint256" where
  "u128_shl_u256 left right = u256_shl (u256_of_u128 left) right"

definition u128_shl_assign_u256 :: "uint128 \<Rightarrow> uint256 \<Rightarrow> uint128" where
  "u128_shl_assign_u256 left right = u256_low (u256_shl (u256_of_u128 left) right)"

definition u128_shr_u256 :: "uint128 \<Rightarrow> uint256 \<Rightarrow> uint256" where
  "u128_shr_u256 left right = u256_shr (u256_of_u128 left) right"

definition u128_shr_assign_u256 :: "uint128 \<Rightarrow> uint256 \<Rightarrow> uint128" where
  "u128_shr_assign_u256 left right = u256_low (u256_shr (u256_of_u128 left) right)"

definition u128_eq_u256 :: "uint128 \<Rightarrow> uint256 \<Rightarrow> bool" where
  "u128_eq_u256 left right \<longleftrightarrow> u256_eq_u128 right left"

definition u128_ne_u256 :: "uint128 \<Rightarrow> uint256 \<Rightarrow> bool" where
  "u128_ne_u256 left right \<longleftrightarrow> u256_ne_u128 right left"

definition u128_gt_u256 :: "uint128 \<Rightarrow> uint256 \<Rightarrow> bool" where
  "u128_gt_u256 left right \<longleftrightarrow> u256_lt_u128 right left"

definition u128_lt_u256 :: "uint128 \<Rightarrow> uint256 \<Rightarrow> bool" where
  "u128_lt_u256 left right \<longleftrightarrow> u256_gt_u128 right left"

definition u128_ge_u256 :: "uint128 \<Rightarrow> uint256 \<Rightarrow> bool" where
  "u128_ge_u256 left right \<longleftrightarrow> u256_le_u128 right left"

definition u128_le_u256 :: "uint128 \<Rightarrow> uint256 \<Rightarrow> bool" where
  "u128_le_u256 left right \<longleftrightarrow> u256_ge_u128 right left"

definition u128_add_u256 :: "uint128 \<Rightarrow> uint256 \<Rightarrow> uint256" where
  "u128_add_u256 left right = u256_add_u128 right left"

definition u128_add_assign_u256 :: "uint128 \<Rightarrow> uint256 \<Rightarrow> uint128" where
  "u128_add_assign_u256 left right = u256_low (u256_add_u128 right left)"

definition u128_sub_u256 :: "uint128 \<Rightarrow> uint256 \<Rightarrow> uint256" where
  "u128_sub_u256 left right = u256_neg (u256_sub_u128 right left)"

definition u128_sub_assign_u256 :: "uint128 \<Rightarrow> uint256 \<Rightarrow> uint128" where
  "u128_sub_assign_u256 left right = u256_low (u256_neg (u256_sub_u128 right left))"

definition u128_mul_u256 :: "uint128 \<Rightarrow> uint256 \<Rightarrow> uint256" where
  "u128_mul_u256 left right = u256_mul_u128 right left"

definition u128_mul_assign_u256 :: "uint128 \<Rightarrow> uint256 \<Rightarrow> uint128" where
  "u128_mul_assign_u256 left right = u256_low (u256_mul_u128 right left)"

section \<open>Operators on an integral left operand\<close>

definition int_shl_u256 :: "int \<Rightarrow> uint256 \<Rightarrow> uint256" where
  "int_shl_u256 left right = u256_shl (u256_of_int left) right"

definition word_shl_assign_u256 :: "'a::len word \<Rightarrow> uint256 \<Rightarrow> 'a word" where
  "word_shl_assign_u256 left right = ucast (u256_to_u64 (u256_shl (u256_of_int (uint left)) right))"

definition int_shr_u256 :: "int \<Rightarrow> uint256 \<Rightarrow> uint256" where
  "int_shr_u256 left right = u256_shr (u256_of_int left) right"

definition word_shr_assign_u256 :: "'a::len word \<Rightarrow> uint256 \<Rightarrow> 'a word" where
  "word_shr_assign_u256 left right = ucast (u256_to_u64 (u256_shr (u256_of_int (uint left)) right))"

definition int_and_u256 :: "int \<Rightarrow> uint256 \<Rightarrow> uint256" where
  "int_and_u256 left right = u256_and_int right left"

definition word_and_assign_u256 :: "'a::len word \<Rightarrow> uint256 \<Rightarrow> 'a word" where
  "word_and_assign_u256 left right = ucast (u256_to_u64 (u256_and_int right (uint left)))"

definition int_or_u256 :: "int \<Rightarrow> uint256 \<Rightarrow> uint256" where
  "int_or_u256 left right = u256_or_int right left"

definition word_or_assign_u256 :: "'a::len word \<Rightarrow> uint256 \<Rightarrow> 'a word" where
  "word_or_assign_u256 left right = ucast (u256_to_u64 (u256_or_int right (uint left)))"

definition int_xor_u256 :: "int \<Rightarrow> uint256 \<Rightarrow> uint256" where
  "int_xor_u256 left right = u256_xor_int right left"

definition word_xor_assign_u256 :: "'a::len word \<Rightarrow> uint256 \<Rightarrow> 'a word" where
  "word_xor_assign_u256 left right = ucast (u256_to_u64 (u256_xor_int right (uint left)))"

definition int_add_u256 :: "int \<Rightarrow> uint256 \<Rightarrow> uint256" where
  "int_add_u256 left right = u256_add_int right left"

definition word_add_assign_u256 :: "'a::len word \<Rightarrow> uint256 \<Rightarrow> 'a word" where
  "word_add_assign_u256 left right = ucast (u256_to_u64 (u256_add_int right (uint left)))"

definition int_mul_u256 :: "int \<Rightarrow> uint256 \<Rightarrow> uint256" where
  "int_mul_u256 left right = u256_mul_int right left"

definition word_mul_assign_u256 :: "'a::len word \<Rightarrow> uint256 \<Rightarrow> 'a word" where
  "word_mul_assign_u256 left right = ucast (u256_to_u64 (u256_mul_int right (uint left)))"

definition int_sub_u256 :: "int \<Rightarrow> uint256 \<Rightarrow> uint256" where
  "int_sub_u256 left right = u256_neg (u256_sub_int right left)"

definition word_sub_assign_u256 :: "'a::len word \<Rightarrow> uint256 \<Rightarrow> 'a word" where
  "word_sub_assign_u256 left right = ucast (u256_to_u64 (u256_neg (u256_sub_int right (uint left))))"

definition int_eq_u256 :: "int \<Rightarrow> uint256 \<Rightarrow> bool" where
  "int_eq_u256 left right \<longleftrightarrow>
     u128_lnot (u256_high right) \<and> int_eq_u128 (uint (word_of_int left :: u64)) (u256_low right)"

text \<open>
  Here \<^verbatim>\<open>right.high()\<close> is a \<^verbatim>\<open>uint128\<close>, so the disjunction is its operator on an integral operand.
\<close>

definition int_ne_u256 :: "int \<Rightarrow> uint256 \<Rightarrow> bool option" where
  "int_ne_u256 left right =
     u128_lor_int (u256_high right) (of_bool (int_ne_u128 (uint (word_of_int left :: u64)) (u256_low right)))"

definition int_gt_u256 :: "int \<Rightarrow> uint256 \<Rightarrow> bool" where
  "int_gt_u256 left right \<longleftrightarrow>
     (if u128_bool (u256_high right) then False else u128_gt (u128_of_int left) (u256_low right))"

definition int_lt_u256 :: "int \<Rightarrow> uint256 \<Rightarrow> bool" where
  "int_lt_u256 left right \<longleftrightarrow>
     (if u128_bool (u256_high right) then True else u128_lt (u128_of_int left) (u256_low right))"

definition int_ge_u256 :: "int \<Rightarrow> uint256 \<Rightarrow> bool" where
  "int_ge_u256 left right \<longleftrightarrow>
     (if u128_bool (u256_high right) then False else u128_ge (u128_of_int left) (u256_low right))"

definition int_le_u256 :: "int \<Rightarrow> uint256 \<Rightarrow> bool" where
  "int_le_u256 left right \<longleftrightarrow>
     (if u128_bool (u256_high right) then True else u128_le (u128_of_int left) (u256_low right))"

section \<open>Bits, bytes and division\<close>

lemma u128_shr_one_less:
  "u128_bool x \<Longrightarrow> unat (u128_abs (u128_shr_assign x (u128_of_int 1))) < unat (u128_abs x)"
  using unat_drop_bit_1_less [of "u128_abs x"] by (simp add: refine_simps)

function u256_count_bits :: "uint128 \<Rightarrow> u16 \<Rightarrow> u16" where
  "u256_count_bits w out =
     (if u128_bool w then u256_count_bits (u128_shr_assign w (u128_of_int 1)) (out + 1) else out)"
  by pat_completeness auto
termination
  by (relation "measure (\<lambda>(w, out). unat (u128_abs w))") (simp_all add: u128_shr_one_less)

declare u256_count_bits.simps [simp del]

definition u256_bits :: "uint256 \<Rightarrow> u16" where
  "u256_bits x =
     (if u128_bool (upper256 x) then u256_count_bits (upper256 x) 128
      else u256_count_bits (lower256 x) 0)"

definition u256_bytes :: "uint256 \<Rightarrow> u16" where
  "u256_bytes x =
     (if u256_lnot x then 0
      else let len = u256_bits x
           in if len = 0 then 0
              else let n = unat (len - 1)
                   in max 1 (word_of_nat (min 32 ((n - n mod 8 + 8) div 8))))"

text \<open>
  The division loop runs while the remainder is at least the divisor; nothing in its guard
  bounds it, so it is a partial function, and that it returns is proved.
\<close>

partial_function (option) u256_divide_loop ::
  "uint256 \<Rightarrow> uint256 \<times> uint256 \<Rightarrow> uint256 \<Rightarrow> uint256 \<Rightarrow> (uint256 \<times> uint256) option" where
  "u256_divide_loop right qr copyd adder =
     (if u256_ge (snd qr) right then
        u256_divide_loop right
          (if u256_ge (snd qr) copyd
           then (u256_or_assign (fst qr) adder, u256_sub_assign (snd qr) copyd) else qr)
          (u256_shr_assign copyd (u256_of_int 1)) (u256_shr_assign adder (u256_of_int 1))
      else Some qr)"

declare u256_divide_loop.simps [code]

text \<open>
  A divisor of zero is an assertion failure in a debug build; the branch is that of a release build, where the
  assertion is compiled out.
\<close>

definition u256_divide :: "uint256 \<Rightarrow> uint256 \<Rightarrow> (uint256 \<times> uint256) option" where
  "u256_divide left right =
     (if u256_eq right u256_min then Some (u256_min, u256_min)
      else if u256_eq right (u256_of_int 1) then Some (left, u256_min)
      else if u256_eq left right then Some (u256_of_int 1, u256_min)
      else if u256_eq left u256_min \<or> u256_lt left right then Some (u256_min, left)
      else
        let shift = int (unat (u256_bits left)) - int (unat (u256_bits right));
            copyd = u256_shl_int right shift;
            adder = u256_shl_int (u256_of_int 1) shift;
            (copyd, adder) =
              (if u256_gt copyd left
               then (u256_shr_assign copyd (u256_of_int 1), u256_shr_assign adder (u256_of_int 1))
               else (copyd, adder))
        in u256_divide_loop right (u256_min, left) copyd adder)"

definition u256_div :: "uint256 \<Rightarrow> uint256 \<Rightarrow> uint256 option" where
  "u256_div x right = map_option fst (u256_divide x right)"

definition u256_mod :: "uint256 \<Rightarrow> uint256 \<Rightarrow> uint256 option" where
  "u256_mod x right = map_option (\<lambda>q. u256_sub x (u256_mul right q)) (u256_div x right)"

definition u256_div_u128 :: "uint256 \<Rightarrow> uint128 \<Rightarrow> uint256 option" where
  "u256_div_u128 x right = u256_div x (u256_of_u128 right)"

definition u256_mod_u128 :: "uint256 \<Rightarrow> uint128 \<Rightarrow> uint256 option" where
  "u256_mod_u128 x right = u256_mod x (u256_of_u128 right)"

definition u256_div_int :: "uint256 \<Rightarrow> int \<Rightarrow> uint256 option" where
  "u256_div_int x right = u256_div x (u256_of_int right)"

definition u256_mod_int :: "uint256 \<Rightarrow> int \<Rightarrow> uint256 option" where
  "u256_mod_int x right = u256_mod x (u256_of_int right)"

definition u128_div_u256 :: "uint128 \<Rightarrow> uint256 \<Rightarrow> uint256 option" where
  "u128_div_u256 left right = u256_div (u256_of_u128 left) right"

definition u128_mod_u256 :: "uint128 \<Rightarrow> uint256 \<Rightarrow> uint256 option" where
  "u128_mod_u256 left right = u256_mod (u256_of_u128 left) right"

definition u256_div_assign :: "uint256 \<Rightarrow> uint256 \<Rightarrow> uint256 option" where
  "u256_div_assign x right = u256_div x right"

definition u256_div_assign_u128 :: "uint256 \<Rightarrow> uint128 \<Rightarrow> uint256 option" where
  "u256_div_assign_u128 x right = u256_div_assign x (u256_of_u128 right)"

definition u256_div_assign_int :: "uint256 \<Rightarrow> int \<Rightarrow> uint256 option" where
  "u256_div_assign_int x right = u256_div x (u256_of_int right)"

definition u128_div_assign_u256 :: "uint128 \<Rightarrow> uint256 \<Rightarrow> uint128 option" where
  "u128_div_assign_u256 left right = map_option u256_low (u256_div (u256_of_u128 left) right)"

definition int_div_u256 :: "int \<Rightarrow> uint256 \<Rightarrow> uint256 option" where
  "int_div_u256 left right = u256_div (u256_of_int left) right"

definition word_div_assign_u256 :: "'a::len word \<Rightarrow> uint256 \<Rightarrow> 'a word option" where
  "word_div_assign_u256 left right = map_option (\<lambda>q. ucast (u256_to_u64 q)) (u256_div (u256_of_int (uint left)) right)"

definition u256_mod_assign :: "uint256 \<Rightarrow> uint256 \<Rightarrow> uint256 option" where
  "u256_mod_assign x right = u256_mod x right"

definition u256_mod_assign_u128 :: "uint256 \<Rightarrow> uint128 \<Rightarrow> uint256 option" where
  "u256_mod_assign_u128 x right = u256_mod_assign x (u256_of_u128 right)"

definition u256_mod_assign_int :: "uint256 \<Rightarrow> int \<Rightarrow> uint256 option" where
  "u256_mod_assign_int x right = u256_mod x (u256_of_int right)"

definition u128_mod_assign_u256 :: "uint128 \<Rightarrow> uint256 \<Rightarrow> uint128 option" where
  "u128_mod_assign_u256 left right = map_option u256_low (u256_mod (u256_of_u128 left) right)"

definition int_mod_u256 :: "int \<Rightarrow> uint256 \<Rightarrow> uint256 option" where
  "int_mod_u256 left right = u256_mod (u256_of_int left) right"

definition word_mod_assign_u256 :: "'a::len word \<Rightarrow> uint256 \<Rightarrow> 'a word option" where
  "word_mod_assign_u256 left right = map_option (\<lambda>q. ucast (u256_to_u64 q)) (u256_mod (u256_of_int (uint left)) right)"

section \<open>Byte encodings\<close>

definition u256_encode :: "uint256 \<Rightarrow> u8 list" where
  "u256_encode x =
     mem_bytes (to_endianness big (upper (upper256 x))) @ mem_bytes (to_endianness big (lower (upper256 x))) @
     mem_bytes (to_endianness big (upper (lower256 x))) @ mem_bytes (to_endianness big (lower (lower256 x)))"

definition u256_encode_compact :: "uint256 \<Rightarrow> u8 list" where
  "u256_encode_compact x =
     (let intermediate = u256_encode x; size = unat (u256_bytes x)
      in take size (drop (32 - size) intermediate))"

definition u256_decode :: "u8 list \<Rightarrow> uint256" where
  "u256_decode data =
     (let array = map (\<lambda>i. to_endianness big (mem_word (take 8 (drop (8 * i) data)))) [0..<4]
      in u256 (u128 (array ! 0) (array ! 1)) (u128 (array ! 2) (array ! 3)))"

definition u256_decode_compact :: "u8 list \<Rightarrow> uint256" where
  "u256_decode_compact data =
     (let n = min (length data) 32; intermediate = take n data @ replicate (32 - n) 0
      in u256_decode intermediate)"

section \<open>Refinement: the two halves are one 256-bit word\<close>

definition u256_abs :: "uint256 \<Rightarrow> 256 word" where
  "u256_abs x = word_join (u128_abs (upper256 x)) (u128_abs (lower256 x))"

lemma u256_sel [simp]: "upper256 (u256 a b) = a" "lower256 (u256 a b) = b"
  by (simp_all add: u256_def)

lemma u256_of_u128_sel [simp]: "upper256 (u256_of_u128 a) = u128_min" "lower256 (u256_of_u128 a) = a"
  by (simp_all add: u256_of_u128_def)

lemma u128_abs_min [simp]: "u128_abs u128_min = 0"
  by (simp add: u128_min_def)

lemma u256_eqI: "upper256 x = upper256 y \<Longrightarrow> lower256 x = lower256 y \<Longrightarrow> x = (y::uint256)"
  by simp

lemma u256_abs_inject: "u256_abs x = u256_abs y \<longleftrightarrow> x = y"
  by (auto simp: u256_abs_def word_join_inject u128_abs_inject intro: u256_eqI)

lemma unat_u256_abs: "unat (u256_abs x) = unat (u128_abs (upper256 x)) * 2 ^ 128 + unat (u128_abs (lower256 x))"
  by (simp add: u256_abs_def unat_word_join)

lemma u256_abs_of_u128 [refine_simps]: "u256_abs (u256_of_u128 x) = ucast (u128_abs x)"
  by (simp add: u256_abs_def word_join_lo)

lemma u256_abs_of_int:
  assumes "0 \<le> n" "n < 2 ^ 64"
  shows "u256_abs (u256_of_int n) = word_of_int n"
  using assms by (simp add: u256_of_int_def u256_abs_def u128_abs_of_int word_join_lo unsigned_of_int take_bit_int_eq_self)

lemma u256_abs_0 [simp]: "u256_abs u256_min = 0" "u256_abs (u256_of_int 0) = 0"
  and u256_abs_1 [simp]: "u256_abs (u256_of_int 1) = 1"
  by (simp_all add: u256_abs_of_int u256_min_def)

lemma u256_abs_bitwise [refine_simps]:
  "u256_abs (u256_and x y) = u256_abs x AND u256_abs y"
  "u256_abs (u256_or x y) = u256_abs x OR u256_abs y"
  "u256_abs (u256_xor x y) = u256_abs x XOR u256_abs y"
  "u256_abs (u256_not x) = NOT (u256_abs x)"
  by (simp_all add: u256_abs_def u256_and_def u256_or_def u256_xor_def u256_not_def refine_simps
      word_join_and word_join_or word_join_xor word_join_not)

lemma u256_eq_iff [refine_simps]: "u256_eq x y \<longleftrightarrow> u256_abs x = u256_abs y"
  by (simp add: u256_abs_def u256_eq_def refine_simps word_join_inject)

lemma u256_order [refine_simps]:
  "u256_lt x y \<longleftrightarrow> u256_abs x < u256_abs y"
  "u256_gt x y \<longleftrightarrow> u256_abs y < u256_abs x"
  by (auto simp: u256_abs_def u256_lt_def u256_gt_def refine_simps word_join_less)

lemma u256_order_eq [refine_simps]:
  "u256_le x y \<longleftrightarrow> u256_abs x \<le> u256_abs y"
  "u256_ge x y \<longleftrightarrow> u256_abs y \<le> u256_abs x"
  "u256_ne x y \<longleftrightarrow> u256_abs x \<noteq> u256_abs y"
  by (auto simp: u256_le_def u256_ge_def u256_ne_def u256_order u256_eq_iff u256_abs_def word_join_inject refine_simps)

lemma u256_bool_iff [refine_simps]: "u256_bool x \<longleftrightarrow> u256_abs x \<noteq> 0" "u256_lnot x \<longleftrightarrow> u256_abs x = 0"
  by (auto simp: u256_bool_def u256_lnot_def u128_lor_def u256_abs_def word_join_eq_0 refine_simps)

lemma u128_bool_operand:
  "u128_add_int x (of_bool b) = u128_add x (u128_of_int (of_bool b))"
  "u128_sub_int x (of_bool b) = u128_sub x (u128_of_int (of_bool b))"
  by (cases b; simp add: u128_int_operands)+

lemma u128_abs_of_bool: "u128_abs (u128_of_int (of_bool b)) = of_bool b"
  by (cases b) simp_all

lemma u256_abs_add [refine_simps]: "u256_abs (u256_add x y) = u256_abs x + u256_abs y"
proof -
  have c: "u128_abs (if b then u128_of_int 1 else u128_min) = of_bool b" for b by simp
  show ?thesis
    by (simp add: u256_abs_def u256_add_def refine_simps c word_join_add [symmetric] del: if_split)
qed

lemma u256_abs_sub [refine_simps]: "u256_abs (u256_sub x y) = u256_abs x - u256_abs y"
  by (simp add: u256_abs_def u256_sub_def u128_bool_operand refine_simps u128_abs_of_bool word_join_sub [symmetric])

lemma u256_add_assign_eq: "u256_add_assign x y = u256_add x y"
proof (rule u256_eqI)
  show "upper256 (u256_add_assign x y) = upper256 (u256_add x y)"
    by (simp add: u256_add_assign_def u256_add_def u128_bool_operand)
       (simp add: u128_abs_inject [symmetric] refine_simps u128_abs_of_bool)
qed (simp add: u256_add_assign_def u256_add_def)

lemma u256_assign_eq [refine_simps]:
  "u256_and_assign x y = u256_and x y" "u256_or_assign x y = u256_or x y" "u256_xor_assign x y = u256_xor x y"
  "u256_add_assign x y = u256_add x y" "u256_sub_assign x y = u256_sub x y" "u256_mul_assign x y = u256_mul x y"
  "u256_shl_assign x y = u256_shl x y" "u256_shr_assign x y = u256_shr x y"
  by (simp_all add: u256_add_assign_eq u256_and_assign_def u256_or_assign_def u256_xor_assign_def
      u256_sub_assign_def u256_mul_assign_def u256_shl_assign_def u256_shr_assign_def
      u256_and_def u256_or_def u256_xor_def u256_def u128_assign_eq)

lemma u256_abs_neg [refine_simps]: "u256_abs (u256_neg x) = - u256_abs x"
  by (simp add: u256_neg_def refine_simps minus_eq_not_plus_1)

lemma u256_abs_step [refine_simps]:
  "u256_abs (u256_pre_inc x) = u256_abs x + 1" "u256_abs (u256_pre_dec x) = u256_abs x - 1"
  by (simp_all add: u256_pre_inc_def u256_pre_dec_def refine_simps)

section \<open>Shifts\<close>

lemma u128_abs_of_nat: "n < 2 ^ 64 \<Longrightarrow> u128_abs (u128_of_int (int n)) = word_of_nat n"
  by (simp add: u128_abs_of_int)

lemma u128_abs_256 [simp]: "u128_abs (u128_of_int 128) = 128" "u128_abs (u128_of_int 256) = 256" "u128_abs (u128_of_int 64) = 64"
  by (simp_all add: u128_abs_of_int)

lemma u256_shift_amount:
  "u128_abs (upper256 r) = 0 \<Longrightarrow> unat (u256_abs r) = unat (u128_abs (lower256 r))"
  "u128_abs (upper256 r) \<noteq> 0 \<Longrightarrow> 2 ^ 128 \<le> unat (u256_abs r)"
proof -
  assume "u128_abs (upper256 r) \<noteq> 0"
  then have "0 < unat (u128_abs (upper256 r))" by (simp add: unat_gt_0)
  then have "1 * 2 ^ 128 \<le> unat (u128_abs (upper256 r)) * 2 ^ 128" by (intro mult_right_mono) auto
  then show "2 ^ 128 \<le> unat (u256_abs r)" unfolding unat_u256_abs by linarith
qed (simp add: unat_u256_abs)

lemma u256_shift_cases:
  fixes r :: uint256
  defines "s \<equiv> u128_abs (lower256 r)"
  obtains (out) "u128_abs (upper256 r) \<noteq> 0 \<or> 256 \<le> s" "256 \<le> unat (u256_abs r)"
  | (zero) "u128_abs (upper256 r) = 0" "s = 0" "unat (u256_abs r) = 0"
  | (small) "u128_abs (upper256 r) = 0" "s \<noteq> 0" "s < 128" "s \<noteq> 128" "\<not> 256 \<le> s" "\<not> 128 \<le> s"
      "unat (u256_abs r) = unat s" "unat (128 - s) = 128 - unat s" "0 < unat s" "unat s < 128"
  | (half) "u128_abs (upper256 r) = 0" "s = 128" "unat (u256_abs r) = 128"
  | (large) "u128_abs (upper256 r) = 0" "s \<noteq> 0" "\<not> s < 128" "s \<noteq> 128" "\<not> 256 \<le> s" "128 < s" "s < 256"
      "unat (u256_abs r) = unat s" "unat (s - 128) = unat s - 128" "128 < unat s"
proof (cases "u128_abs (upper256 r) = 0 \<and> s < 256")
  case False
  then have "u128_abs (upper256 r) \<noteq> 0 \<or> 256 \<le> s" by auto
  moreover from this have "256 \<le> unat (u256_abs r)"
    using u256_shift_amount [of r] by (cases "u128_abs (upper256 r) = 0") (auto simp: s_def word_le_nat_alt)
  ultimately show ?thesis by (rule out)
next
  case True
  then have up: "u128_abs (upper256 r) = 0" and n: "unat s < 256" by (auto simp: word_less_nat_alt)
  have r: "\<not> 256 \<le> s" and abs: "unat (u256_abs r) = unat s"
    using True u256_shift_amount(1) [of r] by (auto simp: s_def)
  consider "unat s = 0" | "0 < unat s" "unat s < 128" | "unat s = 128" | "128 < unat s" by linarith
  then show ?thesis
  proof cases
    case 1
    then show ?thesis using zero up abs by (simp add: unat_eq_0)
  next
    case 2
    then have "s \<noteq> 0" "s < 128" "s \<noteq> 128" "\<not> 128 \<le> s" by (auto simp: word_less_nat_alt word_le_nat_alt unat_eq_0)
    moreover from this have "unat (128 - s) = 128 - unat s"
      by (simp add: unat_sub word_le_nat_alt word_less_nat_alt)
    ultimately show ?thesis using small up r abs 2 by blast
  next
    case 3
    then show ?thesis using half up abs by (simp add: word_unat_eq_iff)
  next
    case 4
    then have "s \<noteq> 0" "\<not> s < 128" "s \<noteq> 128" "128 < s" "s < 256"
      using n by (auto simp: word_less_nat_alt unat_eq_0)
    moreover from this have "unat (s - 128) = unat s - 128"
      by (simp add: unat_sub word_le_nat_alt word_less_nat_alt)
    ultimately show ?thesis using large up r abs 4 by blast
  qed
qed

lemma u256_abs_shl [refine_simps]: "u256_abs (u256_shl x r) = push_bit (unat (u256_abs r)) (u256_abs x)"
proof -
  let ?s = "u128_abs (lower256 r)" and ?u = "u128_abs (upper256 x)" and ?l = "u128_abs (lower256 x)"
  have halves: "(word_join (push_bit (n - 128) ?l) 0 :: 256 word) = push_bit n (word_join ?u ?l)" if "128 \<le> n" for n
    using word_join_push_bit_half [where 'h = 128 and 'd = 256, of n ?l ?u] that by simp
  show ?thesis
  proof (cases r rule: u256_shift_cases)
    case out
    then show ?thesis by (auto simp: u256_shl_def Let_def refine_simps push_bit_word_beyond)
  next
    case zero
    then show ?thesis by (simp add: u256_shl_def refine_simps)
  next
    case small
    then show ?thesis
      using word_join_push_bit [where 'h = 128 and 'd = 256, of "unat ?s" ?u ?l]
      by (simp add: u256_shl_def Let_def refine_simps u256_abs_def [of x] u256_abs_def [of "u256 _ _"])
  next
    case half
    then show ?thesis using halves [of 128]
      by (simp add: u256_shl_def Let_def refine_simps u256_abs_def [of x] u256_abs_def [of "u256 _ _"])
  next
    case large
    then show ?thesis using halves [of "unat ?s"]
      by (simp add: u256_shl_def Let_def refine_simps u256_abs_def [of x] u256_abs_def [of "u256 _ _"])
  qed
qed

text \<open>
  The right shift tests \<^verbatim>\<open>shift >= 128\<close> first, where the left shift tests 256: below 128
  it is the logical shift, from 128 on the result is zero whatever the operand.
\<close>

lemma u256_abs_shr:
  "u256_abs (u256_shr x r) = (if unat (u256_abs r) < 128 then drop_bit (unat (u256_abs r)) (u256_abs x) else 0)"
proof -
  let ?s = "u128_abs (lower256 r)" and ?u = "u128_abs (upper256 x)" and ?l = "u128_abs (lower256 x)"
  show ?thesis
  proof (cases r rule: u256_shift_cases)
    case out
    then have "u128_abs (upper256 r) \<noteq> 0 \<or> 128 \<le> ?s" by (auto intro: order_trans [rotated])
    with out show ?thesis by (auto simp: u256_shr_def Let_def refine_simps)
  next
    case zero
    then show ?thesis by (simp add: u256_shr_def refine_simps)
  next
    case small
    then show ?thesis
      using word_join_drop_bit [where 'h = 128 and 'd = 256, of "unat ?s" ?u ?l]
      by (simp add: u256_shr_def Let_def refine_simps u256_abs_def [of x] u256_abs_def [of "u256 _ _"])
  next
    case half
    then show ?thesis by (simp add: u256_shr_def Let_def refine_simps)
  next
    case large
    then have "128 \<le> ?s" by simp
    with large show ?thesis by (simp add: u256_shr_def Let_def refine_simps)
  qed
qed

lemma u256_abs_shr_one: "u256_abs (u256_shr x (u256_of_int 1)) = drop_bit 1 (u256_abs x)"
  by (simp add: u256_abs_shr)

section \<open>Multiplication\<close>

abbreviation (input) W64 :: nat where "W64 \<equiv> 2 ^ 64"

text \<open>A 64-bit half as a natural number, and sums of halves that stay below \<open>2 ^ 128\<close>.\<close>

lemma unat_of_half: "unat (u128_abs (u128_of_int (uint (v::u64)))) = unat v"
  by (simp add: unat_u128_abs u128_of_int_def)

lemma unat_halves: "unat (u128_high x) = unat (u128_abs x) div W64" "unat (u128_low x) = unat (u128_abs x) mod W64"
proof -
  have "unat (lower x) < W64" using unat_bound [of "lower x"] by simp
  then show "unat (u128_high x) = unat (u128_abs x) div W64" "unat (u128_low x) = unat (u128_abs x) mod W64"
    by (simp_all add: u128_high_def u128_low_def unat_u128_abs)
qed

lemma unat_u128_add:
  "unat (u128_abs x) + unat (u128_abs y) < 2 ^ 128 \<Longrightarrow>
   unat (u128_abs (u128_add x y)) = unat (u128_abs x) + unat (u128_abs y)"
  by (simp add: refine_simps unat_word_ariths)

lemma unat_u128_mul_halves:
  "unat (u128_abs (u128_mul (u128_of_int (uint (a::u64))) (u128_of_int (uint (b::u64))))) = unat a * unat b"
proof -
  have "unat a * unat b < W64 * W64" using unat_bound [of a] unat_bound [of b] by (intro mult_strict_mono) auto
  then show ?thesis by (simp only: unat_u128_abs_mul unat_of_half) simp
qed

text \<open>The four terms of the final sum, as multiples of powers of the limb size.\<close>

lemma u256_abs_terms:
  "u256_abs (u256 (u128_shl f (u128_of_int 64)) u128_min) = word_of_nat (unat (u128_abs f) * W64 ^ 3)"
  "u256_abs (u256 (u128_of_int (uint (u128_high t))) (u128_shl t (u128_of_int 64))) = word_of_nat (unat (u128_abs t) * W64)"
  "u256_abs (u256 s u128_min) = word_of_nat (unat (u128_abs s) * W64 ^ 2)"
  "u256_abs (u256_of_u128 q) = word_of_nat (unat (u128_abs q))"
proof -
  let ?f = "unat (u128_abs f)" and ?t = "unat (u128_abs t)"
  have shl: "unat (u128_abs (u128_shl y (u128_of_int 64))) = unat (u128_abs y) * W64 mod W64 ^ 2" for y
    unfolding u128_abs_shl by (simp only: unsigned_push_bit_eq) (simp add: push_bit_eq_mult take_bit_eq_mod)
  have eqI: "w = word_of_nat n" if "unat w mod 2 ^ 256 = n mod 2 ^ 256" for w :: "256 word" and n
    using that unat_bound [of w] by (simp add: word_unat_eq_iff unat_of_nat)
  have W4: "(2::nat) ^ 256 = W64 ^ 2 * W64 ^ 2" by simp
  show "u256_abs (u256 (u128_shl f (u128_of_int 64)) u128_min) = word_of_nat (?f * W64 ^ 3)"
  proof (rule eqI)
    have "?f * W64 mod W64 ^ 2 * W64 ^ 2 mod (W64 ^ 2 * W64 ^ 2) = (?f * W64 * W64 ^ 2) mod (W64 ^ 2 * W64 ^ 2)"
      by (simp only: mult_mod_left [symmetric] mod_mod_trivial)
    also have "?f * W64 * W64 ^ 2 = ?f * W64 ^ 3" by (simp add: power2_eq_square power3_eq_cube)
    finally show "unat (u256_abs (u256 (u128_shl f (u128_of_int 64)) u128_min)) mod 2 ^ 256 = ?f * W64 ^ 3 mod 2 ^ 256"
      by (simp add: unat_u256_abs shl W4 del: power_mult_numeral)
  qed
  show "u256_abs (u256 (u128_of_int (uint (u128_high t))) (u128_shl t (u128_of_int 64))) = word_of_nat (?t * W64)"
  proof (rule eqI)
    have "?t * W64 = (?t div W64 * W64 + ?t mod W64) * W64" by simp
    also have "\<dots> = ?t div W64 * W64 ^ 2 + ?t * W64 mod W64 ^ 2"
      by (simp only: power2_eq_square mult_mod_left [symmetric] distrib_right mult.assoc)
    finally have "?t * W64 = ?t div W64 * W64 ^ 2 + ?t * W64 mod W64 ^ 2" .
    then show "unat (u256_abs (u256 (u128_of_int (uint (u128_high t))) (u128_shl t (u128_of_int 64)))) mod 2 ^ 256
        = ?t * W64 mod 2 ^ 256"
      by (simp add: unat_u256_abs shl unat_of_half unat_halves)
  qed
qed (rule word_eq_of_nat, simp add: unat_u256_abs)+

lemma u128_abs_product_halves:
  fixes a b :: u64
  defines "p \<equiv> u128_mul (u128_of_int (uint a)) (u128_of_int (uint b))"
  shows "u128_abs (u128_of_int (uint (u128_low p))) = word_of_nat (unat b * unat a mod W64)"
    and "u128_abs (u128_of_int (uint (u128_high p))) = word_of_nat (unat b * unat a div W64)"
  unfolding p_def
  by (rule word_eq_of_nat; simp only: unat_of_half unat_halves unat_u128_mul_halves mult.commute)+

lemma unat_u256_abs_limbs:
  "unat (u256_abs x) = unat (u128_high (upper256 x)) * W64 ^ 3 + unat (u128_low (upper256 x)) * W64 ^ 2
     + unat (u128_high (lower256 x)) * W64 + unat (u128_low (lower256 x))"
  by (simp add: unat_u256_abs unat_u128_abs u128_high_def u128_low_def)

lemma u256_mul_columns:
  fixes x y :: uint256
  defines "a0 \<equiv> unat (u128_high (upper256 x))" and "a1 \<equiv> unat (u128_low (upper256 x))"
    and "a2 \<equiv> unat (u128_high (lower256 x))" and "a3 \<equiv> unat (u128_low (lower256 x))"
    and "b0 \<equiv> unat (u128_high (upper256 y))" and "b1 \<equiv> unat (u128_low (upper256 y))"
    and "b2 \<equiv> unat (u128_high (lower256 y))" and "b3 \<equiv> unat (u128_low (lower256 y))"
  defines "T \<equiv> b3 * a2 mod W64 + b3 * a3 div W64 + b2 * a3 mod W64"
    and "S \<equiv> b3 * a1 mod W64 + b3 * a2 div W64 + b2 * a2 mod W64 + b2 * a3 div W64 + b1 * a3 mod W64"
    and "F \<equiv> b3 * a0 mod W64 + b3 * a1 div W64 + b2 * a1 mod W64 + b2 * a2 div W64 + b1 * a2 mod W64
      + b1 * a3 div W64 + b0 * a3 mod W64"
  shows "u256_abs (u256_mul x y) = word_of_nat (b3 * a3 mod W64 + W64 * T + W64 ^ 2 * S + W64 ^ 3 * F)"
proof -
  have lim: "unat (v::u64) < W64" for v using unat_bound [of v] by simp
  have "T < 3 * W64" "S < 5 * W64" "F < 7 * W64"
    unfolding T_def S_def F_def a0_def a1_def a2_def a3_def b0_def b1_def b2_def b3_def
    by (rule limb_columns_bound; rule lim)+
  then have sm: "unat (word_of_nat T :: 128 word) = T" "unat (word_of_nat S :: 128 word) = S"
    "unat (word_of_nat F :: 128 word) = F" "unat (word_of_nat (b3 * a3 mod W64) :: 128 word) = b3 * a3 mod W64"
    by (simp_all add: unat_of_nat)
  have d3: "3 - 0 = (3::nat)" "3 - 1 = (2::nat)" "3 - 2 = (1::nat)" "3 - 3 = (0::nat)" by simp_all
  have n4: "[q, r, s, t] ! 0 = q" "[q, r, s, t] ! 1 = r" "[q, r, s, t] ! 2 = s" "[q, r, s, t] ! 3 = t" for q r s t :: uint128
    by simp_all
  have cols: "word_of_nat (b3 * a2 mod W64) + word_of_nat (b3 * a3 div W64) + word_of_nat (b2 * a3 mod W64) = (word_of_nat T :: 128 word)"
    "word_of_nat (b3 * a1 mod W64) + word_of_nat (b3 * a2 div W64) + (word_of_nat (b2 * a2 mod W64) + word_of_nat (b2 * a3 div W64))
       + word_of_nat (b1 * a3 mod W64) = (word_of_nat S :: 128 word)"
    "word_of_nat (b3 * a0 mod W64) + word_of_nat (b3 * a1 div W64) + (word_of_nat (b2 * a1 mod W64) + word_of_nat (b2 * a2 div W64))
       + (word_of_nat (b1 * a2 mod W64) + word_of_nat (b1 * a3 div W64)) + word_of_nat (b0 * a3 mod W64) = (word_of_nat F :: 128 word)"
    by (simp_all add: T_def S_def F_def)
  have "u256_abs (u256_mul x y) = word_of_nat (F * W64 ^ 3) + word_of_nat (T * W64) + word_of_nat (S * W64 ^ 2) + word_of_nat (b3 * a3 mod W64)"
    unfolding u256_mul_def Let_def u256_abs_add u256_abs_terms(1,2) u256_high_def u256_low_def
    unfolding u256_abs_terms(3,4)
    by (simp only: n4 d3 u128_assign_eq u128_abs_add u128_abs_product_halves cols sm
        a0_def [symmetric] a1_def [symmetric] a2_def [symmetric] a3_def [symmetric]
        b0_def [symmetric] b1_def [symmetric] b2_def [symmetric] b3_def [symmetric])
  then show ?thesis by (simp only: of_nat_add [symmetric] ac_simps)
qed

lemma u256_abs_mul [refine_simps]: "u256_abs (u256_mul x y) = u256_abs x * u256_abs y"
proof -
  have W: "W64 ^ 4 = 2 ^ 256" "0 < W64" by simp_all
  have eq: "(word_of_nat m :: 256 word) = word_of_nat n" if "m mod 2 ^ 256 = n mod 2 ^ 256" for m n
    using that by (simp add: word_unat_eq_iff unat_of_nat)
  have "u256_abs (u256_mul x y) = word_of_nat (unat (u256_abs y) * unat (u256_abs x))"
    unfolding u256_mul_columns unat_u256_abs_limbs
    by (rule eq [OF schoolbook_product [OF W(2), unfolded W(1)]])
  then show ?thesis by (simp add: mult.commute)
qed

section \<open>Bit length and division\<close>

lemma u256_count_bits_eq: "u256_count_bits w out = out + word_of_nat (bit_length (unat (u128_abs w)))"
proof (induction w out rule: u256_count_bits.induct)
  case (1 w out)
  show ?case
  proof (cases "u128_bool w")
    case True
    then have "bit_length (unat (u128_abs w)) = Suc (bit_length (unat (u128_abs (u128_shr_assign w (u128_of_int 1)))))"
      by (subst bit_length_double) (simp_all add: refine_simps unat_gt_0 drop_bit_eq_div unat_div)
    with True 1 show ?thesis by (subst u256_count_bits.simps) (simp add: add.assoc)
  qed (subst u256_count_bits.simps, simp add: refine_simps)
qed

lemma unat_u256_bits [refine_simps]: "unat (u256_bits x) = bit_length (unat (u256_abs x))"
proof -
  have b: "bit_length (unat w) \<le> 128" for w :: "128 word" using unat_bound [of w] by (simp add: bit_length_le_iff)
  show ?thesis
  proof (cases "u128_bool (upper256 x)")
    case False
    then show ?thesis using b [of "u128_abs (lower256 x)"]
      by (simp add: u256_bits_def u256_count_bits_eq unat_u256_abs refine_simps unat_of_nat)
  next
    case True
    then have "0 < unat (u128_abs (upper256 x))" by (simp add: refine_simps unat_gt_0)
    then have "bit_length (unat (u256_abs x)) = bit_length (unat (u128_abs (upper256 x))) + 128"
      unfolding unat_u256_abs using unat_bound [of "u128_abs (lower256 x)"] by (intro bit_length_shift) auto
    then show ?thesis using True b [of "u128_abs (upper256 x)"]
      by (simp add: u256_bits_def u256_count_bits_eq unat_word_ariths unat_of_nat)
  qed
qed

lemma u256_divide_loop_exit:
  "unat (u256_abs m) < unat (u256_abs d) \<Longrightarrow> u256_divide_loop d (q, m) c a = Some (q, m)"
  by (subst u256_divide_loop.simps) (simp add: refine_simps word_le_nat_alt)

lemma u256_divide_loop_step:
  "u256_ge m d \<Longrightarrow>
   (if u256_ge m c then (u256_or_assign q a, u256_sub_assign m c) else (q, m)) = qm \<Longrightarrow>
   u256_divide_loop d (q, m) c a =
     u256_divide_loop d qm (u256_shr_assign c (u256_of_int 1)) (u256_shr_assign a (u256_of_int 1))"
  by (subst u256_divide_loop.simps) (auto split: if_splits)

lemma unat_u256_shr_one: "unat (u256_abs (u256_shr_assign x (u256_of_int 1))) = unat (u256_abs x) div 2"
  by (simp add: u256_assign_eq u256_abs_shr_one unat_drop_bit_div del: drop_bit_eq_div)

text \<open>
  The invariant of the loop: \<open>copyd\<close> is the divisor times \<open>2 ^ k\<close>, \<open>adder\<close> is \<open>2 ^ k\<close>,
  the quotient so far is a multiple of \<open>2 ^ (k + 1)\<close>, and the remainder is below twice
  \<open>copyd\<close>.
\<close>

lemma u256_divide_turn:
  assumes c: "unat (u256_abs c) = unat (u256_abs d) * 2 ^ k" and a: "unat (u256_abs a) = 2 ^ k"
    and q: "2 ^ Suc k dvd unat (u256_abs q)"
    and l: "unat (u256_abs q) * unat (u256_abs d) + unat (u256_abs m) = l"
    and m: "unat (u256_abs m) < 2 * unat (u256_abs c)"
  obtains q' m' where
    "(if u256_ge m c then (u256_or_assign q a, u256_sub_assign m c) else (q, m)) = (q', m')"
    "2 ^ k dvd unat (u256_abs q')" "unat (u256_abs m') < unat (u256_abs c)"
    "unat (u256_abs q') * unat (u256_abs d) + unat (u256_abs m') = l"
proof (cases "u256_ge m c")
  case True
  then have ge: "unat (u256_abs c) \<le> unat (u256_abs m)" by (simp add: refine_simps word_le_nat_alt)
  then have m': "unat (u256_abs (u256_sub_assign m c)) = unat (u256_abs m) - unat (u256_abs c)"
    by (simp add: refine_simps unat_sub word_le_nat_alt)
  have q': "unat (u256_abs (u256_or_assign q a)) = unat (u256_abs q) + 2 ^ k"
    using unat_or_pow2 [OF a q] by (simp add: refine_simps)
  have dvd: "2 ^ k dvd unat (u256_abs q) + 2 ^ k"
    using q by (intro dvd_add dvd_refl) (auto dest: power_le_dvd)
  have "(unat (u256_abs q) + 2 ^ k) * unat (u256_abs d) + (unat (u256_abs m) - unat (u256_abs c)) = l"
    using l ge c by (simp add: algebra_simps)
  then show ?thesis using that True m dvd by (simp add: m' q')
next
  case False
  then have "unat (u256_abs m) < unat (u256_abs c)" by (simp add: refine_simps word_le_nat_alt)
  moreover have "2 ^ k dvd unat (u256_abs q)" using q by (auto dest: power_le_dvd)
  ultimately show ?thesis using that False l by simp
qed

lemma u256_divide_loop_returns:
  assumes "0 < unat (u256_abs d)"
    and "unat (u256_abs c) = unat (u256_abs d) * 2 ^ k" "unat (u256_abs a) = 2 ^ k"
    and "2 ^ Suc k dvd unat (u256_abs q)"
    and "unat (u256_abs q) * unat (u256_abs d) + unat (u256_abs m) = l"
    and "unat (u256_abs m) < 2 * unat (u256_abs c)"
  shows "\<exists>q' m'. u256_divide_loop d (q, m) c a = Some (q', m') \<and>
    unat (u256_abs q') * unat (u256_abs d) + unat (u256_abs m') = l \<and> unat (u256_abs m') < unat (u256_abs d)"
  using assms
proof (induction k arbitrary: q m c a)
  case (0 q m c a)
  obtain q1 m1 where turn: "(if u256_ge m c then (u256_or_assign q a, u256_sub_assign m c) else (q, m)) = (q1, m1)"
    "unat (u256_abs m1) < unat (u256_abs c)" "unat (u256_abs q1) * unat (u256_abs d) + unat (u256_abs m1) = l"
    using u256_divide_turn [OF 0(2-6)] by metis
  then have exit: "unat (u256_abs m1) < unat (u256_abs d)" using 0(2) by simp
  show ?case
  proof (cases "u256_ge m d")
    case True
    from u256_divide_loop_step [OF this turn(1)] show ?thesis
      using turn(3) exit by (simp add: u256_divide_loop_exit [OF exit])
  next
    case False
    then have "unat (u256_abs m) < unat (u256_abs d)" by (simp add: refine_simps word_le_nat_alt)
    then show ?thesis using 0(5) by (simp add: u256_divide_loop_exit)
  qed
next
  case (Suc k)
  obtain q1 m1 where turn: "(if u256_ge m c then (u256_or_assign q a, u256_sub_assign m c) else (q, m)) = (q1, m1)"
    "2 ^ Suc k dvd unat (u256_abs q1)" "unat (u256_abs m1) < unat (u256_abs c)"
    "unat (u256_abs q1) * unat (u256_abs d) + unat (u256_abs m1) = l"
    using u256_divide_turn [OF Suc.prems(2-6)] by metis
  show ?case
  proof (cases "u256_ge m d")
    case True
    have c': "unat (u256_abs (u256_shr_assign c (u256_of_int 1))) = unat (u256_abs d) * 2 ^ k"
      "unat (u256_abs (u256_shr_assign a (u256_of_int 1))) = 2 ^ k"
      using Suc.prems by (simp_all add: unat_u256_shr_one)
    have "unat (u256_abs m1) < 2 * unat (u256_abs (u256_shr_assign c (u256_of_int 1)))"
      using turn(3) Suc.prems(2) by (simp add: c')
    from Suc.IH [OF Suc.prems(1) c' turn(2,4) this] show ?thesis
      by (simp only: u256_divide_loop_step [OF True turn(1)])
  next
    case False
    then have "unat (u256_abs m) < unat (u256_abs d)" by (simp add: refine_simps word_le_nat_alt)
    then show ?thesis using Suc.prems(5) by (simp add: u256_divide_loop_exit)
  qed
qed

lemma u256_abs_shl_int:
  "0 \<le> n \<Longrightarrow> n < 2 ^ 64 \<Longrightarrow> u256_abs (u256_shl_int x n) = push_bit (nat n) (u256_abs x)"
proof -
  assume n: "0 \<le> n" "n < 2 ^ 64"
  then have "unat (u256_abs (u256_of_int n)) = nat n"
    by (simp add: u256_abs_of_int unsigned_of_int take_bit_int_eq_self)
  then show ?thesis by (simp add: u256_shl_int_def u256_abs_shl)
qed

lemma bit_length_pos: "0 < n \<Longrightarrow> 0 < bit_length n"
  by (subst bit_length.simps) simp

lemma bit_length_lower: "0 < n \<Longrightarrow> 2 ^ (bit_length n - 1) \<le> n"
  using bit_length_le_iff [of n "bit_length n - 1"] bit_length_pos [of n] by (simp add: not_less [symmetric])

lemma bit_length_mono: "m \<le> n \<Longrightarrow> bit_length m \<le> bit_length n"
  using bit_length_bound [of n] by (simp add: bit_length_le_iff)

text \<open>Aligning the divisor with the dividend: the two bounds the loop starts from.\<close>

lemma align_divisor:
  assumes d: "0 < d" and le: "d \<le> l"
  defines "n \<equiv> bit_length l - bit_length d"
  shows "d * 2 ^ n < 2 ^ bit_length l" and "l < 2 * (d * 2 ^ n)"
proof -
  have len: "bit_length l = bit_length d + n" using bit_length_mono [OF le] by (simp add: n_def)
  have "d * 2 ^ n < 2 ^ bit_length d * 2 ^ n" using bit_length_bound [of d] by simp
  then show "d * 2 ^ n < 2 ^ bit_length l" by (simp add: len power_add)
  have "l < 2 ^ (bit_length d + n)" using bit_length_bound [of l] by (simp add: len)
  also have "\<dots> = 2 * (2 ^ (bit_length d - 1) * 2 ^ n)"
  proof -
    obtain b where "bit_length d = Suc b" using bit_length_pos [OF d] by (cases "bit_length d") auto
    then show ?thesis by (simp add: power_add)
  qed
  also have "\<dots> \<le> 2 * (d * 2 ^ n)" using bit_length_lower [OF d] by simp
  finally show "l < 2 * (d * 2 ^ n)" .
qed

lemma u256_divide_aligned:
  assumes d: "0 < unat (u256_abs d)" and le: "unat (u256_abs d) \<le> unat (u256_abs l)"
  defines "shift \<equiv> int (unat (u256_bits l)) - int (unat (u256_bits d))"
  defines "c \<equiv> u256_shl_int d shift" and "a \<equiv> u256_shl_int (u256_of_int 1) shift"
  obtains k where
    "unat (u256_abs (if u256_gt c l then u256_shr_assign c (u256_of_int 1) else c)) = unat (u256_abs d) * 2 ^ k"
    "unat (u256_abs (if u256_gt c l then u256_shr_assign a (u256_of_int 1) else a)) = 2 ^ k"
    "unat (u256_abs l) < 2 * (unat (u256_abs d) * 2 ^ k)"
proof -
  let ?D = "unat (u256_abs d)" and ?L = "unat (u256_abs l)"
  define n where "n = bit_length ?L - bit_length ?D"
  have len: "bit_length ?L \<le> 256" using unat_bound [of "u256_abs l"] by (simp add: bit_length_le_iff)
  have sh: "shift = int n" "n \<le> 256"
    using bit_length_mono [OF le] len by (simp_all add: shift_def n_def unat_u256_bits)
  note al = align_divisor [OF d le, folded n_def]
  have "?D * 2 ^ n < 2 ^ 256" using al(1) len by (meson less_le_trans one_le_numeral power_increasing)
  moreover have "1 * 2 ^ n \<le> ?D * 2 ^ n" using d by (intro mult_right_mono) auto
  ultimately have n: "?D * 2 ^ n < 2 ^ 256" "2 ^ n < (2::nat) ^ 256" by linarith+
  have c: "unat (u256_abs c) = ?D * 2 ^ n" and a: "unat (u256_abs a) = 2 ^ n"
    using sh n unat_push_bit [of "u256_abs d" n] unat_push_bit [of "1 :: 256 word" n]
    by (simp_all add: c_def a_def u256_abs_shl_int)
  show ?thesis
  proof (cases "u256_gt c l")
    case False
    then show ?thesis using that [of n] c a al(2) by simp
  next
    case True
    then have gt: "?L < ?D * 2 ^ n" using c by (simp add: refine_simps word_less_nat_alt)
    then obtain k where "n = Suc k" using le by (cases n) auto
    then show ?thesis using that [of k] True c a gt by (simp add: unat_u256_shr_one)
  qed
qed

lemma u256_divide_correct:
  assumes d: "u256_abs d \<noteq> 0"
  shows "\<exists>q m. u256_divide l d = Some (q, m) \<and>
    u256_abs q = u256_abs l div u256_abs d \<and> u256_abs m = u256_abs l mod u256_abs d"
proof -
  let ?L = "unat (u256_abs l)" and ?D = "unat (u256_abs d)"
  have D: "0 < ?D" using d by (simp add: unat_gt_0)
  have "\<exists>q m. u256_divide l d = Some (q, m) \<and> unat (u256_abs q) * ?D + unat (u256_abs m) = ?L \<and> unat (u256_abs m) < ?D"
  proof (cases "u256_eq d (u256_of_int 1) \<or> u256_eq l d \<or> u256_eq l u256_min \<or> u256_lt l d")
    case True
    then show ?thesis using d D
      by (auto simp: u256_divide_def refine_simps word_less_nat_alt)
  next
    case False
    then have le: "?D \<le> ?L" by (auto simp: refine_simps word_less_nat_alt)
    define s c a where "s = int (unat (u256_bits l)) - int (unat (u256_bits d))"
      and "c = u256_shl_int d s" and "a = u256_shl_int (u256_of_int 1) s"
    define c' a' where "c' = (if u256_gt c l then u256_shr_assign c (u256_of_int 1) else c)"
      and "a' = (if u256_gt c l then u256_shr_assign a (u256_of_int 1) else a)"
    obtain k where k: "unat (u256_abs c') = ?D * 2 ^ k" "unat (u256_abs a') = 2 ^ k" "?L < 2 * (?D * 2 ^ k)"
      using u256_divide_aligned [OF D le] unfolding c'_def a'_def c_def a_def s_def by metis
    have "u256_divide l d = u256_divide_loop d (u256_min, l) c' a'"
      using False d by (simp add: u256_divide_def Let_def c'_def a'_def c_def a_def s_def refine_simps)
    then show ?thesis using u256_divide_loop_returns [OF D k(1,2), of u256_min l ?L] k by simp
  qed
  then obtain q m where qm: "u256_divide l d = Some (q, m)"
    "unat (u256_abs q) * ?D + unat (u256_abs m) = ?L" "unat (u256_abs m) < ?D" by blast
  from nat_divmod_unique [OF qm(2,3)] show ?thesis
    using qm(1) by (simp add: word_unat_eq_iff unat_div unat_mod)
qed

lemma u256_divide_zero: "u256_abs d = 0 \<Longrightarrow> u256_divide l d = Some (u256_min, u256_min)"
  by (simp add: u256_divide_def refine_simps)

lemma u256_div_returns: "\<exists>q. u256_div l d = Some q \<and> u256_abs q = u256_abs l div u256_abs d"
  using u256_divide_correct [of d l] u256_divide_zero [of d l]
  by (cases "u256_abs d = 0") (auto simp: u256_div_def)

lemma u256_mod_returns: "\<exists>r. u256_mod l d = Some r \<and> u256_abs r = u256_abs l mod u256_abs d"
proof -
  obtain q where q: "u256_div l d = Some q" "u256_abs q = u256_abs l div u256_abs d"
    using u256_div_returns by blast
  have "u256_abs l - u256_abs d * (u256_abs l div u256_abs d) = u256_abs l mod u256_abs d"
    using word_mod_div_equality [of "u256_abs l" "u256_abs d"] by (simp add: algebra_simps)
  with q show ?thesis by (simp add: u256_mod_def refine_simps)
qed

lemma u256_abs_quot_rem:
  "u256_abs (the (u256_div l d)) = u256_abs l div u256_abs d"
  "u256_abs (the (u256_mod l d)) = u256_abs l mod u256_abs d"
  using u256_div_returns [of l d] u256_mod_returns [of l d] by auto

section \<open>Encodings\<close>

lemma u256_encode_eq: "u256_encode x = u128_encode (upper256 x) @ u128_encode (lower256 x)"
  by (simp add: u256_encode_def u128_encode_def)

lemma length_u256_encode [simp]: "length (u256_encode x) = 32"
  by (simp add: u256_encode_eq)

lemma u256_decode_eq: "u256_decode data = u256 (u128_decode (take 16 data)) (u128_decode (take 16 (drop 16 data)))"
  by (simp add: u256_decode_def u128_decode_def Let_def take_drop upt_conv_Cons min_def add.commute)

lemma u256_decode_encode: "u256_decode (u256_encode x) = x"
  by (rule u256_eqI) (simp_all add: u256_decode_eq u256_encode_eq u128_decode_encode)

lemma u256_encode_decode: "length data = 32 \<Longrightarrow> u256_encode (u256_decode data) = data"
  by (simp add: u256_decode_eq u256_encode_eq u128_encode_decode)

lemma u256_encode_bytes: "u256_encode x = rev (mem_bytes (u256_abs x))"
  by (simp add: u256_encode_eq u128_encode_bytes u256_abs_def mem_bytes_join)

lemma u256_abs_surj: "\<exists>x. u256_abs x = w"
proof -
  obtain h l where "u128_abs h = ucast (drop_bit 128 w)" "u128_abs l = ucast w" using u128_abs_surj by metis
  then have "u256_abs (u256 h l) = w"
    by (intro bit_eqI) (auto simp: u256_abs_def bit_word_join bit_simps)
  then show ?thesis ..
qed

lemma u256_abs_decode: "u256_abs (u256_decode (rev (mem_bytes w))) = w"
  by (metis u256_abs_surj u256_decode_encode u256_encode_bytes)

lemma unat_u256_bytes:
  "unat (u256_bytes x) = (if u256_abs x = 0 then 0 else (bit_length (unat (u256_abs x)) - 1) div 8 + 1)"
proof (cases "u256_abs x = 0")
  case False
  let ?n = "bit_length (unat (u256_abs x))"
  have n: "0 < ?n" "?n \<le> 256"
    using False unat_bound [of "u256_abs x"] bit_length_pos [of "unat (u256_abs x)"]
    by (simp_all add: bit_length_le_iff unat_gt_0)
  then have b: "u256_bits x \<noteq> 0" "unat (u256_bits x - 1) = ?n - 1"
    using unat_u256_bits [of x] by (auto simp: unat_sub word_le_nat_alt)
  define m where "m = (?n - 1) div 8 + 1"
  have "m \<le> 32" using n(2) by (simp add: m_def)
  then have m: "unat (word_of_nat m :: u16) = m" "1 \<le> (word_of_nat m :: u16)" "min 32 m = m"
    by (simp_all add: m_def unat_of_nat word_le_nat_alt del: of_nat_Suc)
  have "(k - k mod 8 + 8) div 8 = k div 8 + 1" for k :: nat by (simp add: minus_mod_eq_mult_div)
  then have "u256_bytes x = max 1 (word_of_nat (min 32 m))"
    using False b by (simp only: u256_bytes_def Let_def refine_simps m_def if_False)
  with m False show ?thesis unfolding m_def [symmetric] by (simp add: max_def)
qed (simp add: u256_bytes_def refine_simps)

lemma u256_bytes_bound: "unat (u256_bytes x) \<le> 32"
proof -
  have "bit_length (unat (u256_abs x)) \<le> 256" using unat_bound [of "u256_abs x"] by (simp add: bit_length_le_iff)
  then have "(bit_length (unat (u256_abs x)) - 1) div 8 \<le> 255 div 8" by (intro div_le_mono) simp
  then show ?thesis by (simp add: unat_u256_bytes)
qed

lemma u256_bytes_enough: "unat (u256_abs x) < 2 ^ (8 * unat (u256_bytes x))"
proof (cases "u256_abs x = 0")
  case False
  then have "bit_length (unat (u256_abs x)) \<le> 8 * unat (u256_bytes x)"
    by (simp add: unat_u256_bytes)
  then show ?thesis by (simp add: bit_length_le_iff)
qed simp

lemma u256_encode_compact_suffix:
  "u256_encode x = replicate (32 - unat (u256_bytes x)) 0 @ u256_encode_compact x"
proof -
  let ?k = "unat (u256_bytes x)"
  have k: "?k \<le> 32" by (rule u256_bytes_bound)
  have "mem_bytes (u256_abs x) = take ?k (mem_bytes (u256_abs x)) @ replicate (32 - ?k) 0"
    using mem_bytes_small [OF u256_bytes_enough, of x] k by simp
  then have "u256_encode x = replicate (32 - ?k) 0 @ rev (take ?k (mem_bytes (u256_abs x)))"
    by (metis rev_append rev_replicate u256_encode_bytes)
  then show ?thesis using k by (simp add: u256_encode_compact_def Let_def)
qed

lemma u256_decode_compact_encode_compact:
  "u256_abs (u256_decode_compact (u256_encode_compact x)) = push_bit (8 * (32 - unat (u256_bytes x))) (u256_abs x)"
proof -
  let ?k = "unat (u256_bytes x)" and ?b = "mem_bytes (u256_abs x)"
  have k: "?k \<le> 32" by (rule u256_bytes_bound)
  have len: "length (u256_encode_compact x) = ?k" using k by (simp add: u256_encode_compact_def Let_def)
  have "u256_encode_compact x = rev (take ?k ?b)"
    using k by (simp add: u256_encode_compact_def Let_def u256_encode_bytes rev_take [symmetric] drop_rev)
  then have "u256_encode_compact x @ replicate (32 - ?k) 0 = rev (mem_bytes (push_bit (8 * (32 - ?k)) (u256_abs x)))"
    using k by (simp add: mem_bytes_push_bit)
  then show ?thesis using k len by (simp add: u256_decode_compact_def Let_def u256_abs_decode)
qed

section \<open>The contract of a wide word\<close>

interpretation u256: wide_word u256_abs u256_of_int u256_add u256_sub u256_mul
  "\<lambda>x y. the (u256_div x y)" "\<lambda>x y. the (u256_mod x y)"
  u256_and u256_or u256_xor u256_not u256_neg u256_shl u256_eq u256_lt
  by unfold_locales (simp_all add: refine_simps u256_abs_quot_rem u256_abs_inject u256_abs_of_int)

section \<open>Operands of mixed width\<close>

lemma u256_mixed_bits:
  "u256_and_u128 x y = u256_and x (u256_of_u128 y)" "u256_or_u128 x y = u256_or x (u256_of_u128 y)"
  "u256_xor_u128 x y = u256_xor x (u256_of_u128 y)"
  by (simp_all add: u256_abs_inject [symmetric] u256_abs_def u256_of_u128_def u256_and_u128_def u256_and_def
      u256_or_u128_def u256_or_def u256_xor_u128_def u256_xor_def refine_simps)

lemma u128_left_operand:
  "u128_add_u256 y x = u256_add (u256_of_u128 y) x" "u128_sub_u256 y x = u256_sub (u256_of_u128 y) x"
  "u128_mul_u256 y x = u256_mul (u256_of_u128 y) x" "u128_and_u256 y x = u256_and (u256_of_u128 y) x"
  "u128_or_u256 y x = u256_or (u256_of_u128 y) x" "u128_xor_u256 y x = u256_xor (u256_of_u128 y) x"
  by (simp_all add: u256_abs_inject [symmetric] u128_add_u256_def u256_add_u128_def u128_sub_u256_def u256_sub_u128_def
      u128_mul_u256_def u256_mul_u128_def u128_and_u256_def u128_or_u256_def u128_xor_u256_def u256_mixed_bits
      refine_simps and.commute or.commute xor.commute)

section \<open>Properties\<close>

text \<open>
  C17: the operators \<^verbatim>\<open>+\<close>, \<^verbatim>\<open>-\<close>, \<^verbatim>\<open>*\<close>, unary \<^verbatim>\<open>-\<close>, \<^verbatim>\<open>++\<close> and \<^verbatim>\<open>--\<close> of \<^verbatim>\<open>uint256\<close>,
  and their assignment forms, compute modulo \<open>2 ^ 256\<close>, although they are built from the
  128-bit operators and a mixture of their integral overloads.
\<close>

theorem u256_arithmetic:
  "u256_abs (u256_add x y) = u256_abs x + u256_abs y
   \<and> u256_abs (u256_sub x y) = u256_abs x - u256_abs y
   \<and> u256_abs (u256_mul x y) = u256_abs x * u256_abs y
   \<and> u256_abs (u256_neg x) = - u256_abs x
   \<and> u256_add_assign x y = u256_add x y \<and> u256_sub_assign x y = u256_sub x y
   \<and> u256_mul_assign x y = u256_mul x y
   \<and> u256_abs (u256_pre_inc x) = u256_abs x + 1 \<and> u256_abs (u256_pre_dec x) = u256_abs x - 1
   \<and> u256_post_inc x = (x, u256_pre_inc x) \<and> u256_post_dec x = (x, u256_pre_dec x)"
  by (simp add: refine_simps u256_post_inc_def u256_post_dec_def)

text \<open>
  C19: with a non-zero divisor \<^verbatim>\<open>uint256::divide\<close> returns, its \<^verbatim>\<open>while\<close> loop included, and
  \<^verbatim>\<open>/\<close> and \<^verbatim>\<open>%\<close> are the division with remainder, with no wrap-around.  A zero divisor, which the
  sources assert against, is not covered.
\<close>

theorem u256_division:
  assumes "\<not> u256_eq d u256_min"
  shows "\<exists>q r. u256_div n d = Some q \<and> u256_mod n d = Some r
    \<and> u256_divide n d = Some (q, r)
    \<and> unat (u256_abs q) * unat (u256_abs d) + unat (u256_abs r) = unat (u256_abs n) \<and> u256_lt r d"
proof -
  have d: "u256_abs d \<noteq> 0" using assms by (simp add: refine_simps)
  obtain q m where div: "u256_divide n d = Some (q, m)" "u256_abs q = u256_abs n div u256_abs d"
    "u256_abs m = u256_abs n mod u256_abs d" using u256_divide_correct [OF d] by metis
  moreover obtain r where "u256_mod n d = Some r" "u256_abs r = u256_abs n mod u256_abs d"
    using u256_mod_returns by metis
  moreover from calculation have "r = m" by (simp flip: u256_abs_inject)
  moreover have "u256_div n d = Some q" using div by (simp add: u256_div_def)
  ultimately show ?thesis
    using d by (auto simp: unat_div unat_mod refine_simps word_less_nat_alt unat_gt_0)
qed

theorem u256_division_witness:
  "\<not> u256_eq (u256_of_int 10) u256_min \<and>
   (\<exists>q r. u256_divide u256_max (u256_of_int 10) = Some (q, r) \<and> u256_lt r (u256_of_int 10))"
proof -
  have nz: "\<not> u256_eq (u256_of_int 10) u256_min" by (simp add: refine_simps u256_abs_of_int)
  show ?thesis using u256_division [OF nz, of u256_max] nz by blast
qed

text \<open>
  The two shifts of \<^verbatim>\<open>uint256\<close> differ: \<^verbatim>\<open><<\<close> is the logical shift for every amount,
  while \<^verbatim>\<open>>>\<close> is the logical shift below 128 only and returns 0 from 128 on, whatever the
  upper half holds.
\<close>

theorem u256_shifts:
  "u256_abs (u256_shl x r) = push_bit (unat (u256_abs r)) (u256_abs x)
   \<and> u256_abs (u256_shr x r) = (if unat (u256_abs r) < 128 then drop_bit (unat (u256_abs r)) (u256_abs x) else 0)
   \<and> u256_shl_assign x r = u256_shl x r \<and> u256_shr_assign x r = u256_shr x r"
  by (simp add: u256_abs_shl u256_abs_shr u256_shl_assign_def u256_shr_assign_def)

text \<open>
  The comparison operators of \<^verbatim>\<open>uint256\<close> compare the 256-bit values, and the truth
  operators test against zero.
\<close>

theorem u256_comparisons:
  "(u256_lt x y \<longleftrightarrow> unat (u256_abs x) < unat (u256_abs y)) \<and> (u256_gt x y \<longleftrightarrow> u256_lt y x)
   \<and> (u256_eq x y \<longleftrightarrow> x = y) \<and> (u256_ne x y \<longleftrightarrow> \<not> u256_eq x y)
   \<and> (u256_ge x y \<longleftrightarrow> \<not> u256_lt x y) \<and> (u256_le x y \<longleftrightarrow> \<not> u256_gt x y)
   \<and> (u256_bool x \<longleftrightarrow> x \<noteq> u256_min) \<and> (u256_lnot x \<longleftrightarrow> \<not> u256_bool x)
   \<and> u256_le x u256_max \<and> u256_ge x u256_min"
proof -
  have "u256_abs u256_max = -1"
    by (intro bit_eqI) (auto simp: u256_max_def u128_abs_make u256_abs_def bit_word_join bit_simps)
  then have "u256_le x u256_max" "u256_ge x u256_min" by (simp_all add: refine_simps)
  moreover have "u256_bool x \<longleftrightarrow> x \<noteq> u256_min"
    using u256_abs_inject [of x u256_min] by (simp add: refine_simps)
  ultimately show ?thesis
    by (simp add: refine_simps u256_abs_inject word_less_nat_alt word_le_nat_alt not_less)
qed

text \<open>
  The \<^verbatim>\<open>uint256\<close> encoding is the big-endian one; \<^verbatim>\<open>decode\<close> and \<^verbatim>\<open>encode\<close> are inverse to
  each other; the compact form has exactly the bytes of the value's bit length, and
  \<^verbatim>\<open>decode_compact\<close> returns the value shifted left by the dropped bytes.
\<close>

theorem u256_encodings:
  "u256_encode x = rev (mem_bytes (u256_abs x)) \<and> u256_decode (u256_encode x) = x
   \<and> (length data = 32 \<longrightarrow> u256_encode (u256_decode data) = data)
   \<and> u256_encode x = replicate (32 - unat (u256_bytes x)) 0 @ u256_encode_compact x
   \<and> length (u256_encode_compact x) = (bit_length (unat (u256_abs x)) + 7) div 8
   \<and> u256_abs (u256_decode_compact (u256_encode_compact x))
       = push_bit (8 * (32 - unat (u256_bytes x))) (u256_abs x)"
proof -
  have "unat (u256_bytes x) = (bit_length (unat (u256_abs x)) + 7) div 8"
  proof (cases "bit_length (unat (u256_abs x))")
    case 0
    then show ?thesis using bit_length_pos [of "unat (u256_abs x)"] by (auto simp: unat_u256_bytes unat_gt_0)
  next
    case (Suc n)
    then have "u256_abs x \<noteq> 0" by (auto simp: bit_length.simps)
    with Suc show ?thesis by (simp add: unat_u256_bytes)
  qed
  moreover have "length (u256_encode_compact x) = unat (u256_bytes x)"
    using u256_bytes_bound [of x] by (simp add: u256_encode_compact_def Let_def)
  moreover note u256_encode_bytes [of x] u256_decode_encode [of x] u256_encode_decode [of data]
    u256_encode_compact_suffix [of x] u256_decode_compact_encode_compact [of x]
  ultimately show ?thesis by metis
qed

theorem u256_encodings_witness:
  "length (map word_of_nat [1..<33] :: u8 list) = 32
   \<and> u256_encode (u256_decode (map word_of_nat [1..<33])) = map word_of_nat [1..<33]"
  using u256_encodings [of u256_min "map word_of_nat [1..<33]"] by simp

text \<open>
  An operator of mixed width, \<^verbatim>\<open>uint256 op uint128\<close> or \<^verbatim>\<open>uint128 op uint256\<close>, gives what
  the operator gives on the operand widened to 256 bits; the shortcut forms that only touch the
  lower half, and the subtraction written as the negation of the swapped one, included.
\<close>

theorem u256_mixed_width:
  "u256_and_u128 x y = u256_and x (u256_of_u128 y) \<and> u256_or_u128 x y = u256_or x (u256_of_u128 y)
   \<and> u256_xor_u128 x y = u256_xor x (u256_of_u128 y)
   \<and> u256_add_u128 x y = u256_add x (u256_of_u128 y) \<and> u256_sub_u128 x y = u256_sub x (u256_of_u128 y)
   \<and> u128_add_u256 y x = u256_add (u256_of_u128 y) x \<and> u128_sub_u256 y x = u256_sub (u256_of_u128 y) x
   \<and> u128_mul_u256 y x = u256_mul (u256_of_u128 y) x \<and> u128_and_u256 y x = u256_and (u256_of_u128 y) x
   \<and> u128_or_u256 y x = u256_or (u256_of_u128 y) x \<and> u128_xor_u256 y x = u256_xor (u256_of_u128 y) x
   \<and> (u128_lt_u256 y x \<longleftrightarrow> u256_lt (u256_of_u128 y) x)"
  by (simp add: u256_mixed_bits u128_left_operand u256_add_u128_def u256_sub_u128_def u128_lt_u256_def
      u256_gt_u128_def u256_order)

end
