(* ===== verification/Chars.thy ===== *)
theory Chars
  imports Vitex_Prelude
begin

text \<open>
  Characters and strings as the sources use them.  A \<^verbatim>\<open>std::string\<close> is a list of \<^typ>\<open>char\<close>;
  \<^verbatim>\<open>char\<close> is signed, as on x86-64.  The pieces of the
  standard library that the components call (\<^verbatim>\<open>operator[]\<close>, \<^verbatim>\<open>find\<close>, \<^verbatim>\<open>isdigit\<close>,
  \<^verbatim>\<open>to_chars\<close>, \<^verbatim>\<open>strtoll\<close>) are defined here.
\<close>

section \<open>Characters\<close>

definition schar :: "char \<Rightarrow> int" where
  "schar c = (let v = int (of_char c) in if v < 128 then v else v - 256)"

definition char_of_int :: "int \<Rightarrow> char" where
  "char_of_int v = char_of (nat (v mod 256))"

definition isdigit :: "char \<Rightarrow> bool" where
  "isdigit c \<longleftrightarrow> 48 \<le> (of_char c :: nat) \<and> (of_char c :: nat) \<le> 57"

definition isspace :: "char \<Rightarrow> bool" where
  "isspace c \<longleftrightarrow> c = CHR '' '' \<or> (9 \<le> (of_char c :: nat) \<and> (of_char c :: nat) \<le> 13)"

section \<open>Strings\<close>

text \<open>
  \<^verbatim>\<open>s[i]\<close>: at the size of the string it is the terminating null character; beyond that the
  access has no defined value in the sources, and the null character stands for it.
\<close>

definition str_at :: "string \<Rightarrow> nat \<Rightarrow> char" where
  "str_at s i = (if i < length s then s ! i else CHR 0x00)"

fun find_char :: "char \<Rightarrow> string \<Rightarrow> nat option" where
  "find_char c [] = None"
| "find_char c (x # xs) = (if x = c then Some 0 else map_option Suc (find_char c xs))"

definition find_char_from :: "char \<Rightarrow> string \<Rightarrow> nat \<Rightarrow> nat option" where
  "find_char_from c s from = map_option (\<lambda>i. i + from) (find_char c (drop from s))"

section \<open>Numbers as text\<close>

fun nat_digits_rev :: "nat \<Rightarrow> string" where
  "nat_digits_rev n = char_of_int (48 + int (n mod 10)) # (if n < 10 then [] else nat_digits_rev (n div 10))"

declare nat_digits_rev.simps [simp del]

definition to_chars :: "int \<Rightarrow> string" where
  "to_chars n = (if n < 0 then CHR ''-'' # rev (nat_digits_rev (nat (- n))) else rev (nat_digits_rev (nat n)))"

definition digit_value :: "char \<Rightarrow> int" where
  "digit_value c = schar c - 48"

definition parse_digits :: "string \<Rightarrow> int" where
  "parse_digits s = foldl (\<lambda>v c. 10 * v + digit_value c) 0 s"

text \<open>
  \<^verbatim>\<open>strtoll\<close> and \<^verbatim>\<open>strtoull\<close> in base 10: leading white space, an optional sign, the longest run
  of digits; a value out of range saturates, and a minus sign negates an unsigned result
  modulo \<open>2 ^ 64\<close>.
\<close>

definition strto_parts :: "string \<Rightarrow> bool \<times> int" where
  "strto_parts s =
     (let t = dropWhile isspace s
      in case t of
           c # t' \<Rightarrow>
             if c = CHR ''-'' then (True, parse_digits (takeWhile isdigit t'))
             else if c = CHR ''+'' then (False, parse_digits (takeWhile isdigit t'))
             else (False, parse_digits (takeWhile isdigit t))
         | [] \<Rightarrow> (False, 0))"

definition strtoll :: "string \<Rightarrow> int" where
  "strtoll s = (let (neg, v) = strto_parts s; v = (if neg then - v else v)
                in max (- (2 ^ 63)) (min (2 ^ 63 - 1) v))"

definition strtoull :: "string \<Rightarrow> int" where
  "strtoull s = (let (neg, v) = strto_parts s
                 in if v > 2 ^ 64 - 1 then 2 ^ 64 - 1 else if neg then (- v) mod 2 ^ 64 else v)"

section \<open>Lemmas\<close>

lemma of_char_less: "(of_char c :: nat) < 256"
  using of_char_mod_256 [of c, where 'a = nat] by (metis mod_less_divisor zero_less_numeral)

lemma schar_range: "- 128 \<le> schar c" "schar c < 128"
proof -
  have "int (of_char c) < 256" using of_char_less [of c] by linarith
  then show "- 128 \<le> schar c" "schar c < 128"
    unfolding schar_def Let_def by (split if_split, linarith)+
qed

lemma schar_digit: "isdigit c \<Longrightarrow> schar c = int (of_char c)"
  by (simp add: schar_def isdigit_def Let_def)

lemma of_char_of_int: "0 \<le> v \<Longrightarrow> v < 256 \<Longrightarrow> (of_char (char_of_int v) :: nat) = nat v"
  by (simp add: char_of_int_def nat_mod_distrib)

lemma isdigit_char_of_int [simp]: "0 \<le> v \<Longrightarrow> v \<le> 9 \<Longrightarrow> isdigit (char_of_int (48 + v))"
  by (simp add: isdigit_def of_char_of_int) linarith

lemma schar_char_of_int [simp]: "0 \<le> v \<Longrightarrow> v \<le> 9 \<Longrightarrow> schar (char_of_int (48 + v)) = 48 + v"
  by (simp add: schar_digit of_char_of_int)

lemma isdigit_range: "isdigit c \<Longrightarrow> 48 \<le> schar c \<and> schar c \<le> 57"
  by (simp add: schar_digit) (simp add: isdigit_def)

lemma isdigit_inject: "isdigit c \<Longrightarrow> isdigit d \<Longrightarrow> schar c = schar d \<longleftrightarrow> c = d"
  by (auto simp: schar_digit)

lemma isdigit_zero [simp]: "isdigit (CHR ''0'')" and schar_zero [simp]: "schar (CHR ''0'') = 48"
  by (simp_all add: isdigit_def schar_def)

lemma not_isdigit [simp]: "\<not> isdigit (CHR ''+'')" "\<not> isdigit (CHR ''-'')" "\<not> isdigit (CHR ''.'')" "\<not> isdigit (CHR 0x00)"
  by (simp_all add: isdigit_def)

lemma str_at_less [simp]: "i < length s \<Longrightarrow> str_at s i = s ! i"
  by (simp add: str_at_def)

lemma str_at_beyond [simp]: "length s \<le> i \<Longrightarrow> str_at s i = CHR 0x00"
  by (simp add: str_at_def)

lemma find_char_None: "find_char c s = None \<longleftrightarrow> c \<notin> set s"
  by (induction s) auto

lemma find_char_Some:
  "find_char c s = Some i \<Longrightarrow> i < length s \<and> s ! i = c \<and> c \<notin> set (take i s)"
proof (induction s arbitrary: i)
  case (Cons x xs)
  then show ?case by (cases i) (auto split: if_splits)
qed simp

lemma find_char_append: "c \<notin> set xs \<Longrightarrow> find_char c (xs @ c # ys) = Some (length xs)"
  by (induction xs) auto

lemma isspace_not_digit: "isdigit c \<Longrightarrow> \<not> isspace c"
  by (auto simp: isdigit_def isspace_def)

end
