(* ===== verification/Decimal.thy ===== *)
theory Decimal
  imports Chars
begin

text \<open>
  Arbitrary-precision decimals (\<^verbatim>\<open>struct decimal\<close> of \<^verbatim>\<open>core.h\<close>, \<^verbatim>\<open>core.cpp\<close>): a sign character
  (null for NaN), the decimal digits as a string, least significant first, and how many of
  them stand behind the point.  The \<^verbatim>\<open>int32_t\<close> counters are integers, for strings of fewer than
  \<open>2 ^ 31\<close> characters; the unsigned difference of a size and a larger length wraps around.
\<close>

section \<open>Data and construction\<close>

record decimal =
  dec_source :: string
  dec_length :: int
  dec_sign :: char

definition dec_nan :: decimal where
  "dec_nan = \<lparr>dec_source = [], dec_length = 0, dec_sign = CHR 0x00\<rparr>"

definition is_nan :: "decimal \<Rightarrow> bool" where
  "is_nan d \<longleftrightarrow> dec_sign d = CHR 0x00"

definition char_to_int :: "char \<Rightarrow> int" where
  "char_to_int value = schar value - 48"

definition int_to_char :: "int \<Rightarrow> char" where
  "int_to_char value = char_of_int (48 + value)"

text \<open>The label \<^verbatim>\<open>invalid_number\<close>.\<close>

definition dec_invalid :: "decimal \<Rightarrow> decimal" where
  "dec_invalid d = d\<lparr>dec_source := [], dec_length := 0, dec_sign := CHR 0x00\<rparr>"

text \<open>Each of the two digit loops pushes a character first and then rejects it unless a digit.\<close>

fun push_digits :: "string \<Rightarrow> string \<Rightarrow> string option" where
  "push_digits src [] = Some src"
| "push_digits src (c # cs) = (let src = src @ [c] in if \<not> isdigit c then None else push_digits src cs)"

definition apply_base10 :: "decimal \<Rightarrow> string \<Rightarrow> decimal" where
  "apply_base10 d text =
     (if text = [] then dec_invalid d
      else if length text = 1 then
        (if \<not> isdigit (hd text) then dec_invalid d
         else d\<lparr>dec_source := dec_source d @ [hd text], dec_sign := CHR ''+''\<rparr>)
      else
        let sg = hd text in
        if sg \<noteq> CHR ''+'' \<and> sg \<noteq> CHR ''-'' \<and> \<not> isdigit sg then dec_invalid d
        else
          let (sg, index) = (if sg \<noteq> CHR ''+'' \<and> sg \<noteq> CHR ''-'' then (CHR ''+'', 0) else (sg, 1));
              position = find_char_from (CHR ''.'') text index;
              base = (case position of None \<Rightarrow> length text | Some p \<Rightarrow> min p (length text))
          in case push_digits (dec_source d) (take (base - index) (drop index text)) of
               None \<Rightarrow> dec_invalid d
             | Some src \<Rightarrow>
                 (case position of
                    None \<Rightarrow> d\<lparr>dec_source := rev src, dec_sign := sg\<rparr>
                  | Some p \<Rightarrow>
                      (let fraction = drop (base + 1) text
                       in case push_digits src fraction of
                            None \<Rightarrow> dec_invalid d
                          | Some src \<Rightarrow> d\<lparr>dec_source := rev src,
                                            dec_length := dec_length d + int (length fraction),
                                            dec_sign := sg\<rparr>)))"

definition apply_zero :: "decimal \<Rightarrow> decimal" where
  "apply_zero d = d\<lparr>dec_source := dec_source d @ ''0'', dec_sign := CHR ''+''\<rparr>"

definition dec_of_text :: "string \<Rightarrow> decimal" where
  "dec_of_text text = apply_base10 dec_nan text"

definition dec_of_int :: "int \<Rightarrow> decimal" where
  "dec_of_int right = (if right \<noteq> 0 then apply_base10 dec_nan (to_chars right) else apply_zero dec_nan)"

definition dec_zero :: decimal where
  "dec_zero = apply_zero dec_nan"

section \<open>Padding and trimming\<close>

text \<open>The loops \<^verbatim>\<open>while (length < n) \<dots>\<close> and \<^verbatim>\<open>while (length > n) \<dots>\<close>.\<close>

function dec_extend :: "int \<Rightarrow> decimal \<Rightarrow> decimal" where
  "dec_extend n d =
     (if dec_length d < n
      then dec_extend n (d\<lparr>dec_length := dec_length d + 1, dec_source := CHR ''0'' # dec_source d\<rparr>) else d)"
  by pat_completeness auto
termination
  by (relation "measure (\<lambda>(n, d). nat (n - dec_length d))") auto

function dec_shorten :: "int \<Rightarrow> char \<times> decimal \<Rightarrow> char \<times> decimal" where
  "dec_shorten n (lst, d) =
     (if dec_length d > n
      then dec_shorten n (str_at (dec_source d) 0,
             d\<lparr>dec_length := dec_length d - 1, dec_source := drop 1 (dec_source d)\<rparr>) else (lst, d))"
  by pat_completeness auto
termination
  by (relation "measure (\<lambda>(n, _, d). nat (dec_length d - n))") auto

declare dec_extend.simps [simp del] dec_shorten.simps [simp del]

definition dec_truncate :: "decimal \<Rightarrow> u32 \<Rightarrow> decimal" where
  "dec_truncate d precision =
     (if is_nan d then d
      else let new_precision = sint precision in
        if dec_length d < new_precision then dec_extend new_precision d
        else if dec_length d > new_precision then snd (dec_shorten new_precision (CHR 0x00, d))
        else d)"

function unlead_loop :: "int \<Rightarrow> decimal \<Rightarrow> decimal" where
  "unlead_loop i d =
     (if i > dec_length d then
        (if str_at (dec_source d) (nat i) \<noteq> CHR ''0'' then d
         else unlead_loop (i - 1) (d\<lparr>dec_source := butlast (dec_source d)\<rparr>))
      else d)"
  by pat_completeness auto
termination
  by (relation "measure (\<lambda>(i, d). nat (i - dec_length d))") auto

declare unlead_loop.simps [simp del]

definition dec_unlead :: "decimal \<Rightarrow> decimal" where
  "dec_unlead d = unlead_loop (int (length (dec_source d)) - 1) d"

fun untrail_loop :: "string \<Rightarrow> int \<Rightarrow> string \<times> int" where
  "untrail_loop [] len = ([], len)"
| "untrail_loop (c # cs) len = (if c = CHR ''0'' \<and> len > 0 then untrail_loop cs (len - 1) else (c # cs, len))"

definition dec_untrail :: "decimal \<Rightarrow> decimal" where
  "dec_untrail d =
     (if is_nan d \<or> dec_source d = [] then d
      else let (src, len) = untrail_loop (dec_source d) (dec_length d)
           in d\<lparr>dec_source := src, dec_length := len\<rparr>)"

definition dec_trim :: "decimal \<Rightarrow> decimal" where
  "dec_trim d = dec_untrail (dec_unlead d)"

section \<open>Comparison\<close>

text \<open>\<^verbatim>\<open>for (i = size - 1; i >= 0; i--)\<close> over both sources; the count is \<open>i + 1\<close>.\<close>

fun compare_loop :: "string \<Rightarrow> string \<Rightarrow> nat \<Rightarrow> int" where
  "compare_loop l r 0 = 0"
| "compare_loop l r (Suc i) =
     (if schar (str_at l i) > schar (str_at r i) then 1
      else if schar (str_at l i) < schar (str_at r i) then 2
      else compare_loop l r i)"

text \<open>\<^verbatim>\<open>source.size() - length\<close> in \<^verbatim>\<open>size_t\<close>.\<close>

definition size_diff :: "string \<Rightarrow> int \<Rightarrow> int" where
  "size_diff s len = (let n = int (length s) - len in if n < 0 then n + 2 ^ 64 else n)"

definition compare_num :: "decimal \<Rightarrow> decimal \<Rightarrow> int" where
  "compare_num left right =
     (let lsize = size_diff (dec_source left) (dec_length left);
          rsize = size_diff (dec_source right) (dec_length right) in
      if lsize > rsize then 1
      else if lsize < rsize then 2
      else if dec_length left > dec_length right then
        (let temp = dec_extend (dec_length left) right
         in compare_loop (dec_source left) (dec_source temp) (length (dec_source left)))
      else if dec_length left < dec_length right then
        (let temp = dec_extend (dec_length right) left
         in compare_loop (dec_source temp) (dec_source right) (length (dec_source temp)))
      else compare_loop (dec_source left) (dec_source right) (length (dec_source left)))"

definition dec_is_zero :: "decimal \<Rightarrow> bool" where
  "dec_is_zero d \<longleftrightarrow> list_all (\<lambda>c. c = CHR ''0'') (dec_source d)"

definition dec_is_zero_or_nan :: "decimal \<Rightarrow> bool" where
  "dec_is_zero_or_nan d \<longleftrightarrow> is_nan d \<or> dec_is_zero d"

definition dec_eq :: "decimal \<Rightarrow> decimal \<Rightarrow> bool" where
  "dec_eq d right \<longleftrightarrow>
     (if is_nan d \<or> is_nan right then False
      else compare_num d right = 0 \<and> dec_sign d = dec_sign right)"

definition dec_ne :: "decimal \<Rightarrow> decimal \<Rightarrow> bool" where
  "dec_ne d right \<longleftrightarrow> (if is_nan d \<or> is_nan right then False else \<not> dec_eq d right)"

definition dec_gt :: "decimal \<Rightarrow> decimal \<Rightarrow> bool" where
  "dec_gt d right \<longleftrightarrow>
     (if is_nan d \<or> is_nan right then False
      else if dec_sign d = CHR ''+'' \<and> dec_sign right = CHR ''+'' then compare_num d right = 1
      else if dec_sign d = CHR ''-'' \<and> dec_sign right = CHR ''-'' then compare_num d right = 2
      else if dec_is_zero d \<and> dec_is_zero right then False
      else if dec_sign d = CHR ''-'' \<and> dec_sign right = CHR ''+'' then False
      else if dec_sign d = CHR ''+'' \<and> dec_sign right = CHR ''-'' then True
      else False)"

definition dec_lt :: "decimal \<Rightarrow> decimal \<Rightarrow> bool" where
  "dec_lt d right \<longleftrightarrow>
     (if is_nan d \<or> is_nan right then False
      else if dec_sign d = CHR ''+'' \<and> dec_sign right = CHR ''+'' then compare_num d right = 2
      else if dec_sign d = CHR ''-'' \<and> dec_sign right = CHR ''-'' then compare_num d right = 1
      else if dec_is_zero d \<and> dec_is_zero right then False
      else if dec_sign d = CHR ''-'' \<and> dec_sign right = CHR ''+'' then True
      else if dec_sign d = CHR ''+'' \<and> dec_sign right = CHR ''-'' then False
      else False)"

definition dec_ge :: "decimal \<Rightarrow> decimal \<Rightarrow> bool" where
  "dec_ge d right \<longleftrightarrow> (if is_nan d \<or> is_nan right then False else \<not> dec_lt d right)"

definition dec_le :: "decimal \<Rightarrow> decimal \<Rightarrow> bool" where
  "dec_le d right \<longleftrightarrow> (if is_nan d \<or> is_nan right then False else \<not> dec_gt d right)"

definition dec_is_positive :: "decimal \<Rightarrow> bool" where
  "dec_is_positive d \<longleftrightarrow> \<not> is_nan d \<and> dec_gt d dec_zero"

definition dec_is_negative :: "decimal \<Rightarrow> bool" where
  "dec_is_negative d \<longleftrightarrow> \<not> is_nan d \<and> dec_lt d dec_zero"

definition dec_is_integer :: "decimal \<Rightarrow> bool" where
  "dec_is_integer d \<longleftrightarrow> dec_length d = 0"

definition dec_is_fractional :: "decimal \<Rightarrow> bool" where
  "dec_is_fractional d \<longleftrightarrow> dec_length d > 0"

definition dec_numeric :: "decimal \<Rightarrow> string" where
  "dec_numeric d = dec_source d"

definition dec_decimal_size :: "decimal \<Rightarrow> u32" where
  "dec_decimal_size d = word_of_int (dec_length d)"

definition dec_integer_size :: "decimal \<Rightarrow> u32" where
  "dec_integer_size d =
     (let total_length = (word_of_nat (length (dec_source d)) :: u32); decimal_length = word_of_int (dec_length d)
      in if total_length > decimal_length then max 1 (total_length - decimal_length) else 1)"

definition dec_position :: "decimal \<Rightarrow> int" where
  "dec_position d = (if dec_sign d = CHR ''+'' then 1 else if dec_sign d = CHR ''-'' then -1 else 0)"

section \<open>Digit arithmetic\<close>

text \<open>
  \<^verbatim>\<open>(i > source.size() - 1) ? 0 : char_to_int(source[i])\<close>: the difference wraps around on an
  empty source, where the test is false for every index.
\<close>

definition digit_at :: "string \<Rightarrow> nat \<Rightarrow> int" where
  "digit_at s i = (if s \<noteq> [] \<and> i > length s - 1 then 0 else char_to_int (str_at s i))"

fun sum_loop :: "string \<Rightarrow> string \<Rightarrow> nat \<Rightarrow> nat \<Rightarrow> int \<Rightarrow> string" where
  "sum_loop l r i 0 carry = (if carry \<noteq> 0 then [int_to_char carry] else [])"
| "sum_loop l r i (Suc n) carry =
     (let aus = digit_at l i + digit_at r i + carry;
          (aus, carry) = (if aus > 9 then (aus - 10, 1) else (aus, 0))
      in int_to_char aus # sum_loop l r (i + 1) n carry)"

definition dec_sum :: "decimal \<Rightarrow> decimal \<Rightarrow> decimal" where
  "dec_sum left right =
     dec_nan\<lparr>dec_source := sum_loop (dec_source left) (dec_source right) 0
               (max (length (dec_source left)) (length (dec_source right))) 0\<rparr>"

fun subtract_loop :: "string \<Rightarrow> string \<Rightarrow> nat \<Rightarrow> int \<Rightarrow> string" where
  "subtract_loop [] r i carry = []"
| "subtract_loop (c # l) r i carry =
     (let val2 = digit_at r i; val1 = char_to_int c - carry;
          (aus, carry) = (if val1 < val2 then (10 + val1 - val2, 1) else (val1 - val2, 0))
      in int_to_char aus # subtract_loop l r (i + 1) carry)"

definition dec_subtract :: "decimal \<Rightarrow> decimal \<Rightarrow> decimal" where
  "dec_subtract left right = dec_nan\<lparr>dec_source := subtract_loop (dec_source left) (dec_source right) 0 0\<rparr>"

function carry_loop :: "int \<Rightarrow> int \<Rightarrow> int \<times> int" where
  "carry_loop aus carry = (if aus > 9 then carry_loop (aus - 10) (carry + 1) else (aus, carry))"
  by pat_completeness auto
termination
  by (relation "measure (\<lambda>(aus, carry). nat aus)") auto

declare carry_loop.simps [simp del]

fun multiply_row :: "int \<Rightarrow> string \<Rightarrow> int \<Rightarrow> string" where
  "multiply_row digit [] carry = (if carry \<noteq> 0 then [int_to_char carry] else [])"
| "multiply_row digit (c # l) carry =
     (let (aus, carry) = carry_loop (digit * char_to_int c + carry) 0
      in int_to_char aus # multiply_row digit l carry)"

fun multiply_loop :: "decimal \<Rightarrow> string \<Rightarrow> nat \<Rightarrow> decimal \<Rightarrow> decimal" where
  "multiply_loop left [] i result = result"
| "multiply_loop left (c # r) i result =
     (let temp = dec_nan\<lparr>dec_source := replicate i (CHR ''0'') @ multiply_row (char_to_int c) (dec_source left) 0\<rparr>
      in multiply_loop left r (i + 1) (dec_sum result temp))"

definition dec_multiply :: "decimal \<Rightarrow> decimal \<Rightarrow> decimal" where
  "dec_multiply left right = multiply_loop left (dec_source right) 0 (dec_nan\<lparr>dec_source := ''0''\<rparr>)"

section \<open>Operators\<close>

definition dec_neg :: "decimal \<Rightarrow> decimal" where
  "dec_neg d =
     (if dec_sign d = CHR ''+'' then d\<lparr>dec_sign := CHR ''-''\<rparr>
      else if dec_sign d = CHR ''-'' then d\<lparr>dec_sign := CHR ''+''\<rparr> else d)"

text \<open>
  The three outcomes of a magnitude subtraction: \<open>sg\<close> is the sign when the left operand is the
  larger, \<open>opp\<close> the sign when the right one is.
\<close>

definition dec_difference :: "char \<Rightarrow> char \<Rightarrow> decimal \<Rightarrow> decimal \<Rightarrow> decimal" where
  "dec_difference sg opp left right =
     (let check = compare_num left right in
      if check = 0 then dec_of_int 0
      else if check = 1 then
        dec_unlead ((dec_subtract left right)\<lparr>dec_sign := sg, dec_length := dec_length left\<rparr>)
      else dec_unlead ((dec_subtract right left)\<lparr>dec_sign := opp, dec_length := dec_length left\<rparr>))"

definition dec_add :: "decimal \<Rightarrow> decimal \<Rightarrow> decimal" where
  "dec_add l r =
     (if is_nan l \<or> is_nan r then dec_nan
      else
        let right = (if dec_length l > dec_length r then dec_extend (dec_length l) r else r);
            left = (if dec_length l < dec_length r then dec_extend (dec_length r) l else l) in
        if dec_sign left = CHR ''+'' \<and> dec_sign right = CHR ''-'' then
          dec_difference (CHR ''+'') (CHR ''-'') left right
        else if dec_sign left = CHR ''-'' \<and> dec_sign right = CHR ''+'' then
          dec_difference (CHR ''-'') (CHR ''+'') left right
        else if dec_sign left = CHR ''+'' \<and> dec_sign right = CHR ''+'' then
          (dec_sum left right)\<lparr>dec_sign := CHR ''+'', dec_length := dec_length left\<rparr>
        else if dec_sign left = CHR ''-'' \<and> dec_sign right = CHR ''-'' then
          (dec_sum left right)\<lparr>dec_sign := CHR ''-'', dec_length := dec_length left\<rparr>
        else dec_nan)"

definition dec_sub :: "decimal \<Rightarrow> decimal \<Rightarrow> decimal" where
  "dec_sub l r =
     (if is_nan l \<or> is_nan r then dec_nan
      else
        let right = (if dec_length l > dec_length r then dec_extend (dec_length l) r else r);
            left = (if dec_length l < dec_length r then dec_extend (dec_length r) l else l) in
        if dec_sign left = CHR ''+'' \<and> dec_sign right = CHR ''-'' then
          (dec_sum left right)\<lparr>dec_sign := CHR ''+'', dec_length := dec_length left\<rparr>
        else if dec_sign left = CHR ''-'' \<and> dec_sign right = CHR ''+'' then
          (dec_sum left right)\<lparr>dec_sign := CHR ''-'', dec_length := dec_length left\<rparr>
        else if dec_sign left = CHR ''+'' \<and> dec_sign right = CHR ''+'' then
          dec_difference (CHR ''+'') (CHR ''-'') left right
        else if dec_sign left = CHR ''-'' \<and> dec_sign right = CHR ''-'' then
          dec_difference (CHR ''-'') (CHR ''+'') left right
        else dec_nan)"

definition dec_mul :: "decimal \<Rightarrow> decimal \<Rightarrow> decimal" where
  "dec_mul left right =
     (if is_nan left \<or> is_nan right then dec_nan
      else
        let temp = dec_multiply left right;
            temp = (if (dec_sign left = CHR ''-'' \<and> dec_sign right = CHR ''-'')
                       \<or> (dec_sign left = CHR ''+'' \<and> dec_sign right = CHR ''+'')
                    then temp\<lparr>dec_sign := CHR ''+''\<rparr> else temp\<lparr>dec_sign := CHR ''-''\<rparr>)
        in dec_unlead (temp\<lparr>dec_length := dec_length left + dec_length right\<rparr>))"

definition dec_add_int :: "decimal \<Rightarrow> int \<Rightarrow> decimal" where
  "dec_add_int left vright = dec_add left (dec_of_int vright)"

definition dec_sub_int :: "decimal \<Rightarrow> int \<Rightarrow> decimal" where
  "dec_sub_int left vright = dec_sub left (dec_of_int vright)"

definition dec_mul_int :: "decimal \<Rightarrow> int \<Rightarrow> decimal" where
  "dec_mul_int left vright = dec_mul left (dec_of_int vright)"

definition dec_inc :: "decimal \<Rightarrow> decimal" where
  "dec_inc d = dec_add_int d 1"

definition dec_dec :: "decimal \<Rightarrow> decimal" where
  "dec_dec d = dec_sub_int d 1"

definition dec_round :: "decimal \<Rightarrow> u32 \<Rightarrow> decimal" where
  "dec_round d precision =
     (if is_nan d then d
      else let new_precision = sint precision in
        if dec_length d < new_precision then dec_extend new_precision d
        else if dec_length d > new_precision then
          (let (lst, d) = dec_shorten new_precision (CHR 0x00, d) in
           if char_to_int lst \<ge> 5 then
             (if new_precision \<noteq> 0 then
                dec_add d (dec_of_text (''0.'' @ replicate (nat (new_precision - 1)) (CHR ''0'') @ ''1''))
              else dec_inc d)
           else d)
        else d)"

section \<open>Division\<close>

text \<open>
  The loops of \<^verbatim>\<open>operator/\<close> and \<^verbatim>\<open>operator%\<close>: none of them is bounded by its guard alone, so
  each may not return.  \<^verbatim>\<open>digit_search\<close> is the inner loop that finds one digit of the quotient.
\<close>

partial_function (option) scale_loop :: "decimal \<Rightarrow> decimal \<Rightarrow> (decimal \<times> decimal) option" where
  "scale_loop n d =
     (if dec_length n \<noteq> 0 \<or> dec_length d \<noteq> 0 then
        scale_loop
          (if dec_length n = 0 then n\<lparr>dec_source := CHR ''0'' # dec_source n\<rparr>
           else n\<lparr>dec_length := dec_length n - 1\<rparr>)
          (if dec_length d = 0 then d\<lparr>dec_source := CHR ''0'' # dec_source d\<rparr>
           else d\<lparr>dec_length := dec_length d - 1\<rparr>)
      else Some (n, d))"

definition half_up :: "int \<Rightarrow> int" where
  "half_up avg = (let mod_avg = avg div 2 in if avg - mod_avg * 2 \<noteq> 0 then mod_avg + 1 else mod_avg)"

partial_function (option) digit_search :: "decimal \<Rightarrow> decimal \<Rightarrow> int \<Rightarrow> int \<Rightarrow> (decimal \<times> int) option" where
  "digit_search d r qsub mx =
     (if dec_ge r d then
        let avg = half_up (mx - 0) in
        if compare_num r (dec_mul_int d avg) \<noteq> 2
        then digit_search d (dec_sub r (dec_mul_int d avg)) (qsub + avg) 9
        else digit_search d r qsub avg
      else Some (r, qsub))"

declare scale_loop.simps [code] digit_search.simps [code]

text \<open>One round of the outer loop on the digit taken from the dividend: the remainder, the
  digits of the quotient, and what \<^verbatim>\<open>operator%\<close> keeps in \<^verbatim>\<open>result\<close>.\<close>

definition divide_digit :: "decimal \<Rightarrow> char \<Rightarrow> decimal \<times> string \<Rightarrow> (decimal \<times> string \<times> decimal) option" where
  "divide_digit d c rq =
     (let (r, q) = rq; r = r\<lparr>dec_source := c # dec_source r\<rparr> in
      if dec_ge r d \<and> \<not> dec_is_zero r then
        (case digit_search d r 0 9 of
           None \<Rightarrow> None
         | Some (r, qsub) \<Rightarrow>
             Some (if dec_is_zero r then r\<lparr>dec_source := []\<rparr> else r, int_to_char qsub # q, r))
      else Some (r, CHR ''0'' # q, r))"

fun divide_loop :: "decimal \<Rightarrow> string \<Rightarrow> decimal \<times> string \<times> decimal \<Rightarrow> (decimal \<times> string \<times> decimal) option" where
  "divide_loop d [] (r, q, result) = Some (r, q, result)"
| "divide_loop d (c # n) (r, q, result) =
     (case divide_digit d c (r, q) of None \<Rightarrow> None | Some rqs \<Rightarrow> divide_loop d n rqs)"

definition dec_magnitude :: "decimal \<Rightarrow> decimal" where
  "dec_magnitude x = (if dec_gt x (dec_of_int 0) then x else dec_mul_int x (-1))"

definition sign_of_result :: "decimal \<Rightarrow> decimal \<Rightarrow> char" where
  "sign_of_result left right =
     (if (dec_sign left = CHR ''-'' \<and> dec_sign right = CHR ''-'')
         \<or> (dec_sign left = CHR ''+'' \<and> dec_sign right = CHR ''+'') then CHR ''+'' else CHR ''-'')"

definition dec_div :: "decimal \<Rightarrow> decimal \<Rightarrow> decimal option" where
  "dec_div left right =
     (if is_nan left \<or> is_nan right then Some dec_nan
      else if dec_eq right (dec_of_int 0) then Some dec_nan
      else
        (case scale_loop (dec_magnitude left) (dec_magnitude right) of
           None \<Rightarrow> None
         | Some (n, d) \<Rightarrow>
             (let n = dec_unlead n; d = dec_unlead d;
                  div_precision = (if dec_length left > dec_length right then dec_length left else dec_length right);
                  n = n\<lparr>dec_source := replicate (nat div_precision) (CHR ''0'') @ dec_source n\<rparr>;
                  r = dec_nan\<lparr>dec_sign := CHR ''+''\<rparr> in
              if compare_num n d = 2 then Some (dec_of_int 0)
              else map_option
                     (\<lambda>(r, q, _). dec_unlead (dec_nan\<lparr>dec_source := q, dec_sign := sign_of_result left right,
                                                    dec_length := div_precision\<rparr>))
                     (divide_loop d (rev (dec_source n)) (r, [], dec_nan)))))"

definition dec_mod :: "decimal \<Rightarrow> decimal \<Rightarrow> decimal option" where
  "dec_mod left right =
     (if is_nan left \<or> is_nan right then Some dec_nan
      else if dec_length left \<noteq> 0 \<or> dec_length right \<noteq> 0 then Some dec_nan
      else if dec_eq right (dec_of_int 0) then Some dec_nan
      else
        let n = dec_magnitude left; d = dec_magnitude right;
            r = dec_nan\<lparr>dec_sign := CHR ''+''\<rparr>; check = compare_num n d in
        if check = 0 then Some (dec_of_int 0)
        else if check = 2 then Some left
        else map_option
               (\<lambda>(r, q, result).
                  let temp = (dec_unlead result)\<lparr>dec_sign := sign_of_result left right\<rparr>
                  in if compare_num temp (dec_of_int 0) = 0 then temp\<lparr>dec_sign := CHR ''+''\<rparr> else temp)
               (divide_loop d (rev (dec_source n)) (r, [], dec_nan)))"

definition dec_div_int :: "decimal \<Rightarrow> int \<Rightarrow> decimal option" where
  "dec_div_int left vright = dec_div left (dec_of_int vright)"

definition dec_mod_int :: "decimal \<Rightarrow> int \<Rightarrow> decimal option" where
  "dec_mod_int left vright = dec_mod left (dec_of_int vright)"

end
