(* ===== verification/Decimal_Text.thy ===== *)
theory Decimal_Text
  imports Decimal
begin

text \<open>
  Conversions of \<^verbatim>\<open>decimal\<close> to text and to machine integers (\<^verbatim>\<open>to_string\<close>, \<^verbatim>\<open>to_exponent\<close>,
  \<^verbatim>\<open>to_int64\<close>, \<^verbatim>\<open>to_uint64\<close> and the narrowing casts), and the reading of a number in another base
  (\<^verbatim>\<open>decimal::from\<close>).
\<close>

section \<open>Definitions\<close>

text \<open>The trailing zeros of the fraction: \<^verbatim>\<open>while ((source[offset] == '0') && (size > 0))\<close>.\<close>

function skip_zeros :: "string \<Rightarrow> nat \<Rightarrow> int \<Rightarrow> nat" where
  "skip_zeros s offset sz =
     (if str_at s offset = CHR ''0'' \<and> sz > 0 then skip_zeros s (offset + 1) (sz - 1) else offset)"
  by pat_completeness auto
termination
  by (relation "measure (\<lambda>(s, offset, sz). nat sz)") auto

declare skip_zeros.simps [simp del]

text \<open>
  The loops \<^verbatim>\<open>for (i = size - 1; i >= offset; i--)\<close>, the count being \<open>i + 1\<close>: \<^verbatim>\<open>to_string\<close> writes a
  point behind the last digit before the fraction, the integer conversions stop there.
\<close>

fun print_loop :: "string \<Rightarrow> int \<Rightarrow> nat \<Rightarrow> nat \<Rightarrow> string" where
  "print_loop s len offset 0 = []"
| "print_loop s len offset (Suc i) =
     (if i \<ge> offset then
        (s ! i) # (if int i = len \<and> i \<noteq> 0 \<and> int offset \<noteq> len then ''.'' else []) @ print_loop s len offset i
      else [])"

fun integer_loop :: "string \<Rightarrow> int \<Rightarrow> nat \<Rightarrow> nat \<Rightarrow> string" where
  "integer_loop s len offset 0 = []"
| "integer_loop s len offset (Suc i) =
     (if i \<ge> offset then
        (s ! i) # (if int i = len \<and> i \<noteq> 0 \<and> int offset \<noteq> len then [] else integer_loop s len offset i)
      else [])"

definition dec_to_string :: "decimal \<Rightarrow> string" where
  "dec_to_string d =
     (if is_nan d \<or> dec_source d = [] then ''NaN''
      else let offset = skip_zeros (dec_source d) 0 (dec_length d)
           in (if dec_sign d = CHR ''-'' then [dec_sign d] else [])
              @ print_loop (dec_source d) (dec_length d) offset (length (dec_source d)))"

definition dec_to_int64 :: "decimal \<Rightarrow> 64 word" where
  "dec_to_int64 d =
     (if is_nan d \<or> dec_source d = [] then 0
      else let offset = skip_zeros (dec_source d) 0 (dec_length d)
           in word_of_int (strtoll ((if dec_sign d = CHR ''-'' then [dec_sign d] else [])
              @ integer_loop (dec_source d) (dec_length d) offset (length (dec_source d)))))"

definition dec_to_uint64 :: "decimal \<Rightarrow> 64 word" where
  "dec_to_uint64 d =
     (if is_nan d \<or> dec_source d = [] then 0
      else let offset = skip_zeros (dec_source d) 0 (dec_length d)
           in word_of_int (strtoull (integer_loop (dec_source d) (dec_length d) offset (length (dec_source d)))))"

definition dec_to_int32 :: "decimal \<Rightarrow> 32 word" where "dec_to_int32 d = ucast (dec_to_int64 d)"

definition dec_to_uint32 :: "decimal \<Rightarrow> 32 word" where "dec_to_uint32 d = ucast (dec_to_uint64 d)"

definition dec_to_int16 :: "decimal \<Rightarrow> 16 word" where "dec_to_int16 d = ucast (dec_to_int32 d)"

definition dec_to_uint16 :: "decimal \<Rightarrow> 16 word" where "dec_to_uint16 d = ucast (dec_to_uint32 d)"

definition dec_to_int8 :: "decimal \<Rightarrow> 8 word" where "dec_to_int8 d = ucast (dec_to_int16 d)"

definition dec_to_uint8 :: "decimal \<Rightarrow> 8 word" where "dec_to_uint8 d = ucast (dec_to_uint16 d)"

text \<open>\<^verbatim>\<open>to_exponent\<close>: the first loop skips the leading zeros of a value below one.\<close>

fun exponent_loop :: "string \<Rightarrow> nat \<Rightarrow> nat \<Rightarrow> nat \<times> nat" where
  "exponent_loop s 0 exp = (0, exp)"
| "exponent_loop s (Suc n) exp =
     (if str_at s (Suc n) = CHR ''0'' then exponent_loop s n (exp + 1) else (Suc n, exp))"

text \<open>\<^verbatim>\<open>for (; (i >= least) && (i >= 0); --i) result += source[i]\<close>.\<close>

function digits_down :: "string \<Rightarrow> int \<Rightarrow> int \<Rightarrow> string" where
  "digits_down s i least =
     (if i \<ge> least \<and> i \<ge> 0 then str_at s (nat i) # digits_down s (i - 1) least else [])"
  by pat_completeness auto
termination
  by (relation "measure (\<lambda>(s, i, least). nat (i + 1))") auto

declare digits_down.simps [simp del]

definition dec_to_exponent :: "decimal \<Rightarrow> string" where
  "dec_to_exponent d =
     (if is_nan d then ''NaN''
      else
        let compare = compare_num d (dec_of_int 1); s = dec_source d; sz = int (length s) in
        if compare = 0 then [dec_sign d] @ ''1e+0''
        else if compare = 1 then
          [dec_sign d] @ [str_at s (nat (sz - 1))]
          @ (if sz - 2 > 0 then ''.'' @ digits_down s (sz - 2) (sz - 6) else [])
          @ ''e+'' @ to_chars (uint (dec_integer_size d - 1))
        else
          let (count, exp) = exponent_loop s (length s - 1) 0 in
          if count = 0 then
            (if str_at s count \<noteq> CHR ''0'' then [dec_sign d] @ [str_at s count] @ ''e-'' @ to_chars (int exp)
             else ''+0'')
          else [dec_sign d] @ [str_at s count] @ ''.'' @ digits_down s (int count - 1) (int count - 5)
               @ ''e-'' @ to_chars (int exp))"

text \<open>The table of \<^verbatim>\<open>decimal::from\<close>: digits, then letters of either case, anything else 0.\<close>

definition base_mapping :: "char \<Rightarrow> int" where
  "base_mapping c =
     (let v = int (of_char c) in
      if 48 \<le> v \<and> v \<le> 57 then v - 48
      else if 65 \<le> v \<and> v \<le> 90 then v - 55
      else if 97 \<le> v \<and> v \<le> 122 then v - 87
      else 0)"

definition dec_from :: "string \<Rightarrow> u8 \<Rightarrow> decimal" where
  "dec_from data base =
     (let radix = dec_of_int (uint base)
      in foldl (\<lambda>value item. dec_add (dec_mul value radix) (dec_of_int (base_mapping item))) (dec_of_text ''0'') data)"

end
