(* ===== verification/Decimal_Value.thy ===== *)
theory Decimal_Value
  imports Complex_Main Decimal
begin

text \<open>
  What a \<^verbatim>\<open>decimal\<close> denotes: \<open>dval\<close> reads a digit string, least significant digit first,
  \<open>mag\<close> and \<open>dec_val\<close> read a decimal as a rational.  \<open>dec_wf\<close> is the invariant of a normalised
  decimal: a sign, digits only, at least one digit before the point, and no leading zero unless
  it is that one digit.
\<close>

section \<open>Digit strings\<close>

primrec dval :: "string \<Rightarrow> int" where
  "dval [] = 0"
| "dval (c # s) = char_to_int c + 10 * dval s"

abbreviation digits :: "string \<Rightarrow> bool" where
  "digits s \<equiv> list_all isdigit s"

lemma char_to_int_range: "isdigit c \<Longrightarrow> 0 \<le> char_to_int c \<and> char_to_int c \<le> 9"
  using isdigit_range [of c] by (simp add: char_to_int_def)

lemma char_to_int_zero [simp]: "char_to_int (CHR ''0'') = 0"
  by (simp add: char_to_int_def)

lemma char_to_int_eq_0: "isdigit c \<Longrightarrow> char_to_int c = 0 \<longleftrightarrow> c = CHR ''0''"
  using isdigit_inject [of c "CHR ''0''"] by (simp add: char_to_int_def)

lemma int_to_char_digit [simp]:
  "0 \<le> v \<Longrightarrow> v \<le> 9 \<Longrightarrow> isdigit (int_to_char v)" "0 \<le> v \<Longrightarrow> v \<le> 9 \<Longrightarrow> char_to_int (int_to_char v) = v"
  by (simp_all add: int_to_char_def char_to_int_def)

lemma dval_append: "dval (s @ t) = dval s + 10 ^ length s * dval t"
  by (induction s) (auto simp: algebra_simps)

lemma dval_zeros [simp]: "dval (replicate n (CHR ''0'')) = 0"
  by (induction n) auto

lemma digits_zeros [simp]: "digits (replicate n (CHR ''0''))"
  by (simp add: list_all_iff)

lemma dval_bounds: "digits s \<Longrightarrow> 0 \<le> dval s \<and> dval s < 10 ^ length s"
proof (induction s)
  case (Cons c s)
  then show ?case using char_to_int_range [of c] by simp
qed simp

lemma dval_nonneg: "digits s \<Longrightarrow> 0 \<le> dval s" and dval_less: "digits s \<Longrightarrow> dval s < 10 ^ length s"
  using dval_bounds by auto

lemma dval_eq_0: "digits s \<Longrightarrow> dval s = 0 \<longleftrightarrow> list_all (\<lambda>c. c = CHR ''0'') s"
proof (induction s)
  case (Cons c s)
  then have "0 \<le> dval s" "0 \<le> char_to_int c" using dval_nonneg char_to_int_range by auto
  then have "dval (c # s) = 0 \<longleftrightarrow> char_to_int c = 0 \<and> dval s = 0" by auto
  with Cons show ?case by (simp add: char_to_int_eq_0)
qed simp

lemma dval_last:
  assumes "digits s" "s \<noteq> []"
  shows "last s \<noteq> CHR ''0'' \<longleftrightarrow> 10 ^ (length s - 1) \<le> dval s"
proof -
  obtain t c where s: "s = t @ [c]" using assms(2) by (metis append_butlast_last_id)
  have t: "digits t" "isdigit c" using assms(1) s by auto
  show ?thesis
  proof (cases "c = CHR ''0''")
    case True
    then show ?thesis using dval_less [OF t(1)] s by (simp add: dval_append)
  next
    case False
    then have "1 \<le> char_to_int c" using char_to_int_range [OF t(2)] char_to_int_eq_0 [OF t(2)] by auto
    then have "10 ^ length t * 1 \<le> 10 ^ length t * char_to_int c" by (intro mult_left_mono) auto
    then have "10 ^ length t \<le> dval s" using dval_nonneg [OF t(1)] s by (simp only: dval_append dval.simps mult_1_right mult_zero_right add_0_right)
    then show ?thesis using False s by simp
  qed
qed

section \<open>The digit loops\<close>

lemma digit_at_eq: "s \<noteq> [] \<Longrightarrow> digit_at s i = (if i < length s then char_to_int (s ! i) else 0)"
  by (cases s) (auto simp: digit_at_def)

lemma dval_take_drop:
  "s \<noteq> [] \<Longrightarrow> dval (take (Suc n) (drop i s)) = digit_at s i + 10 * dval (take n (drop (Suc i) s))"
  by (cases "i < length s") (simp_all add: digit_at_eq Cons_nth_drop_Suc [symmetric])

lemma digit_at_range: "digits s \<Longrightarrow> s \<noteq> [] \<Longrightarrow> 0 \<le> digit_at s i \<and> digit_at s i \<le> 9"
  using char_to_int_range by (auto simp: digit_at_eq list_all_length)

lemma sum_loop_correct:
  assumes "digits l" "digits r" "l \<noteq> []" "r \<noteq> []" "carry = 0 \<or> carry = 1"
  shows "dval (sum_loop l r i n carry) = dval (take n (drop i l)) + dval (take n (drop i r)) + carry
    \<and> digits (sum_loop l r i n carry)
    \<and> (length (sum_loop l r i n carry) = n
       \<or> length (sum_loop l r i n carry) = Suc n \<and> 10 ^ n \<le> dval (sum_loop l r i n carry))"
  using assms(5)
proof (induction n arbitrary: i carry)
  case 0
  then show ?case by auto
next
  case (Suc n)
  let ?a = "digit_at l i + digit_at r i + carry"
  have a: "0 \<le> ?a" "?a \<le> 19"
    using digit_at_range [OF assms(1,3), of i] digit_at_range [OF assms(2,4), of i] Suc.prems by auto
  show ?case
  proof (cases "?a > 9")
    case True
    then show ?thesis using Suc.IH [of 1 "Suc i"] a
      by (auto simp: dval_take_drop assms)
  next
    case False
    then show ?thesis using Suc.IH [of 0 "Suc i"] a
      by (auto simp: dval_take_drop assms)
  qed
qed

lemma dec_sum_correct:
  assumes "digits (dec_source a)" "digits (dec_source b)" "dec_source a \<noteq> []" "dec_source b \<noteq> []"
  shows "dval (dec_source (dec_sum a b)) = dval (dec_source a) + dval (dec_source b)"
    and "digits (dec_source (dec_sum a b))"
    and "max (length (dec_source a)) (length (dec_source b)) \<le> length (dec_source (dec_sum a b))"
    and "length (dec_source (dec_sum a b)) \<noteq> max (length (dec_source a)) (length (dec_source b))
       \<Longrightarrow> 10 ^ (length (dec_source (dec_sum a b)) - 1) \<le> dval (dec_source (dec_sum a b))"
  using sum_loop_correct [OF assms, of 0 0 "max (length (dec_source a)) (length (dec_source b))"]
  by (auto simp: dec_sum_def)

lemma subtract_loop_correct:
  assumes "digits r" "r \<noteq> []"
  shows "\<lbrakk>digits l; length r - i \<le> length l; carry = 0 \<or> carry = 1; dval (drop i r) + carry \<le> dval l\<rbrakk>
    \<Longrightarrow> dval (subtract_loop l r i carry) = dval l - dval (drop i r) - carry
      \<and> digits (subtract_loop l r i carry) \<and> length (subtract_loop l r i carry) = length l"
proof (induction l arbitrary: i carry)
  case Nil
  then show ?case by auto
next
  case (Cons c l)
  have r: "dval (drop i r) = digit_at r i + 10 * dval (drop (Suc i) r)"
    by (cases "i < length r") (simp_all add: digit_at_eq assms Cons_nth_drop_Suc [symmetric])
  have range: "0 \<le> digit_at r i \<and> digit_at r i \<le> 9" "0 \<le> char_to_int c \<and> char_to_int c \<le> 9"
    using digit_at_range [OF assms] char_to_int_range Cons.prems(1) by auto
  show ?case
  proof (cases "char_to_int c - carry < digit_at r i")
    case True
    then have "dval (drop (Suc i) r) + 1 \<le> dval l" using Cons.prems(3,4) r range by auto
    then show ?thesis using True Cons.IH [of "Suc i" 1] Cons.prems r range by auto
  next
    case False
    then have "dval (drop (Suc i) r) + 0 \<le> dval l" using Cons.prems(3,4) r range by auto
    then show ?thesis using False Cons.IH [of "Suc i" 0] Cons.prems r range by auto
  qed
qed

lemma dec_subtract_correct:
  assumes "digits (dec_source a)" "digits (dec_source b)" "dec_source b \<noteq> []"
    and "length (dec_source b) \<le> length (dec_source a)" "dval (dec_source b) \<le> dval (dec_source a)"
  shows "dval (dec_source (dec_subtract a b)) = dval (dec_source a) - dval (dec_source b)"
    and "digits (dec_source (dec_subtract a b))"
    and "length (dec_source (dec_subtract a b)) = length (dec_source a)"
  using subtract_loop_correct [OF assms(2,3,1), of 0 0] assms by (simp_all add: dec_subtract_def)

lemma carry_loop_eq: "0 \<le> a \<Longrightarrow> carry_loop a k = (a mod 10, k + a div 10)"
proof (induction a k rule: carry_loop.induct)
  case (1 a k)
  show ?case
  proof (cases "a > 9")
    case True
    have "carry_loop a k = carry_loop (a - 10) (k + 1)" using True by (simp add: carry_loop.simps [of a k])
    also have "\<dots> = ((a - 10) mod 10, k + 1 + (a - 10) div 10)" using True by (intro 1) auto
    also have "\<dots> = (a mod 10, k + a div 10)"
      using div_add_self2 [of 10 "a - 10"] mod_add_self2 [of "a - 10" 10] by simp
    finally show ?thesis .
  next
    case False
    with 1(2) show ?thesis by (simp add: carry_loop.simps [of a k])
  qed
qed

lemma multiply_row_correct:
  assumes "digits l" "0 \<le> d" "d \<le> 9" "0 \<le> carry" "carry \<le> 8"
  shows "dval (multiply_row d l carry) = d * dval l + carry \<and> digits (multiply_row d l carry)
    \<and> length l \<le> length (multiply_row d l carry)"
  using assms
proof (induction l arbitrary: carry)
  case (Cons c l)
  let ?a = "d * char_to_int c + carry"
  have c: "0 \<le> char_to_int c" "char_to_int c \<le> 9" using char_to_int_range Cons.prems(1) by auto
  then have "0 \<le> d * char_to_int c" "d * char_to_int c \<le> 9 * 9" using Cons.prems mult_mono [of d 9 "char_to_int c" 9] by auto
  then have a: "0 \<le> ?a" "?a \<le> 89" using Cons.prems by linarith+
  then have "0 \<le> ?a div 10" "?a div 10 \<le> 8" by linarith+
  with Cons.IH [of "?a div 10"] Cons.prems a show ?case
    by (auto simp: carry_loop_eq algebra_simps)
qed auto

lemma multiply_loop_correct:
  assumes l: "digits (dec_source l)" "dec_source l \<noteq> []"
  shows "\<lbrakk>digits r; digits (dec_source res); dec_source res \<noteq> []\<rbrakk> \<Longrightarrow>
    dval (dec_source (multiply_loop l r i res)) = dval (dec_source res) + 10 ^ i * dval (dec_source l) * dval r
    \<and> digits (dec_source (multiply_loop l r i res)) \<and> length (dec_source res) \<le> length (dec_source (multiply_loop l r i res))
    \<and> (r \<noteq> [] \<longrightarrow> i + length r + length (dec_source l) \<le> length (dec_source (multiply_loop l r i res)) + 1)"
proof (induction r arbitrary: i res)
  case (Cons c r)
  define t where "t = dec_nan\<lparr>dec_source := replicate i (CHR ''0'') @ multiply_row (char_to_int c) (dec_source l) 0\<rparr>"
  have row: "dval (multiply_row (char_to_int c) (dec_source l) 0) = char_to_int c * dval (dec_source l)"
    "digits (multiply_row (char_to_int c) (dec_source l) 0)"
    "length (dec_source l) \<le> length (multiply_row (char_to_int c) (dec_source l) 0)"
    using multiply_row_correct [OF l(1), of "char_to_int c" 0] char_to_int_range Cons.prems(1) by auto
  then have t: "dval (dec_source t) = 10 ^ i * (char_to_int c * dval (dec_source l))"
    "digits (dec_source t)" "i + length (dec_source l) \<le> length (dec_source t)"
    by (simp_all add: t_def dval_append)
  from t(3) l(2) have tne: "dec_source t \<noteq> []" by auto
  note s = dec_sum_correct [OF Cons.prems(2) t(2) Cons.prems(3) tne]
  have len: "length (dec_source res) \<le> length (dec_source (dec_sum res t))"
    "i + length (dec_source l) \<le> length (dec_source (dec_sum res t))" using s(3) t(3) by linarith+
  have "dec_source (dec_sum res t) \<noteq> []" using len(1) Cons.prems(3) by auto
  with Cons.IH [of "dec_sum res t" "Suc i"] Cons.prems s(2) have IH:
    "dval (dec_source (multiply_loop l r (Suc i) (dec_sum res t)))
       = dval (dec_source (dec_sum res t)) + 10 ^ Suc i * dval (dec_source l) * dval r"
    "digits (dec_source (multiply_loop l r (Suc i) (dec_sum res t)))"
    "length (dec_source (dec_sum res t)) \<le> length (dec_source (multiply_loop l r (Suc i) (dec_sum res t)))"
    "r \<noteq> [] \<longrightarrow> Suc i + length r + length (dec_source l)
       \<le> length (dec_source (multiply_loop l r (Suc i) (dec_sum res t))) + 1" by simp_all
  have eq: "multiply_loop l (c # r) i res = multiply_loop l r (Suc i) (dec_sum res t)" by (simp add: t_def)
  show ?case unfolding eq using IH len s(1) t(1) by (cases r) (simp_all add: algebra_simps)
qed auto

lemma dec_multiply_correct:
  assumes "digits (dec_source a)" "digits (dec_source b)" "dec_source a \<noteq> []"
  shows "dval (dec_source (dec_multiply a b)) = dval (dec_source a) * dval (dec_source b)"
    and "digits (dec_source (dec_multiply a b))"
    and "dec_source b \<noteq> [] \<Longrightarrow>
      length (dec_source a) + length (dec_source b) \<le> length (dec_source (dec_multiply a b)) + 1"
  using multiply_loop_correct [OF assms(1,3,2), of "dec_nan\<lparr>dec_source := ''0''\<rparr>" 0]
  by (auto simp: dec_multiply_def)

section \<open>Padding and normalising\<close>

lemma dec_extend_eq:
  "dec_extend n d = (if dec_length d < n then
     d\<lparr>dec_length := n, dec_source := replicate (nat (n - dec_length d)) (CHR ''0'') @ dec_source d\<rparr> else d)"
proof (induction n d rule: dec_extend.induct)
  case (1 n d)
  show ?case
  proof (cases "dec_length d < n")
    case True
    then have "Suc (nat (n - (dec_length d + 1))) = nat (n - dec_length d)" by simp
    then have "replicate (nat (n - dec_length d)) (CHR ''0'')
        = replicate (nat (n - (dec_length d + 1))) (CHR ''0'') @ [CHR ''0'']"
      by (metis replicate_Suc replicate_append_same)
    with 1 [OF True] True show ?thesis
      by (subst dec_extend.simps) (auto simp: antisym_conv)
  qed (subst dec_extend.simps, simp)
qed

lemma unlead_loop_snoc:
  "unlead_loop (int (length s)) (d\<lparr>dec_source := s @ [c]\<rparr>) =
     (if int (length s) > dec_length d \<and> c = CHR ''0''
      then unlead_loop (int (length s) - 1) (d\<lparr>dec_source := s\<rparr>) else d\<lparr>dec_source := s @ [c]\<rparr>)"
  by (subst unlead_loop.simps) simp

lemma unlead_loop_eq:
  "\<exists>t n. s = t @ replicate n (CHR ''0'')
    \<and> unlead_loop (int (length s) - 1) (d\<lparr>dec_source := s\<rparr>) = d\<lparr>dec_source := t\<rparr>
    \<and> (0 \<le> dec_length d \<and> dec_length d < int (length s) \<longrightarrow>
       dec_length d < int (length t) \<and> (int (length t) = dec_length d + 1 \<or> last t \<noteq> CHR ''0''))"
proof (induction s rule: rev_induct)
  case Nil
  show ?case by (intro exI [of _ "[]"] exI [of _ 0]) (subst unlead_loop.simps, simp add: str_at_def)
next
  case (snoc c s)
  show ?case
  proof (cases "int (length s) > dec_length d \<and> c = CHR ''0''")
    case True
    obtain t n where t: "s = t @ replicate n (CHR ''0'')"
      "unlead_loop (int (length s) - 1) (d\<lparr>dec_source := s\<rparr>) = d\<lparr>dec_source := t\<rparr>"
      "0 \<le> dec_length d \<and> dec_length d < int (length s) \<longrightarrow>
       dec_length d < int (length t) \<and> (int (length t) = dec_length d + 1 \<or> last t \<noteq> CHR ''0'')"
      using snoc.IH by blast
    have "s @ [c] = t @ replicate (Suc n) (CHR ''0'')"
      using True t(1) by (simp add: replicate_append_same)
    moreover have "unlead_loop (int (length (s @ [c])) - 1) (d\<lparr>dec_source := s @ [c]\<rparr>) = d\<lparr>dec_source := t\<rparr>"
      using unlead_loop_snoc [of s c d] True t(2) by simp
    ultimately show ?thesis using True t(3) by blast
  next
    case False
    then have "unlead_loop (int (length (s @ [c])) - 1) (d\<lparr>dec_source := s @ [c]\<rparr>) = d\<lparr>dec_source := s @ [c]\<rparr>"
      using unlead_loop_snoc [of s c d] by auto
    then show ?thesis using False by (intro exI [of _ "s @ [c]"] exI [of _ 0]) auto
  qed
qed

lemma dec_unlead_cases:
  obtains t n where "dec_source d = t @ replicate n (CHR ''0'')" "dec_unlead d = d\<lparr>dec_source := t\<rparr>"
    "0 \<le> dec_length d \<Longrightarrow> dec_length d < int (length (dec_source d)) \<Longrightarrow>
       dec_length d < int (length t) \<and> (int (length t) = dec_length d + 1 \<or> last t \<noteq> CHR ''0'')"
proof -
  have "d\<lparr>dec_source := dec_source d\<rparr> = d" by simp
  with unlead_loop_eq [of "dec_source d" d] show ?thesis
    using that unfolding dec_unlead_def by metis
qed

section \<open>The value and the invariant\<close>

definition mag :: "decimal \<Rightarrow> rat" where
  "mag d = of_int (dval (dec_source d)) / 10 ^ nat (dec_length d)"

definition dec_val :: "decimal \<Rightarrow> rat" where
  "dec_val d = (if dec_sign d = CHR ''-'' then - mag d else mag d)"

text \<open>\<open>dec_ok\<close> leaves the leading digit free: it is what the operators need of their operands.\<close>

definition dec_ok :: "decimal \<Rightarrow> bool" where
  "dec_ok d \<longleftrightarrow> (dec_sign d = CHR ''+'' \<or> dec_sign d = CHR ''-'') \<and> digits (dec_source d)
     \<and> 0 \<le> dec_length d \<and> dec_length d < int (length (dec_source d))"

definition dec_wf :: "decimal \<Rightarrow> bool" where
  "dec_wf d \<longleftrightarrow> dec_ok d
     \<and> (int (length (dec_source d)) = dec_length d + 1 \<or> last (dec_source d) \<noteq> CHR ''0'')"

lemma dec_okD:
  assumes "dec_ok d"
  shows "\<not> is_nan d" "digits (dec_source d)" "dec_source d \<noteq> []" "0 \<le> dec_length d"
    "dec_length d < int (length (dec_source d))" "dec_sign d = CHR ''+'' \<or> dec_sign d = CHR ''-''"
  using assms by (auto simp: dec_ok_def is_nan_def)

lemma dec_wf_ok: "dec_wf d \<Longrightarrow> dec_ok d"
  by (simp add: dec_wf_def)

lemma mag_nonneg: "dec_ok d \<Longrightarrow> 0 \<le> mag d"
  using dval_nonneg [of "dec_source d"] dec_okD(2) [of d] by (simp add: mag_def)

lemma mag_eq_0: "dec_ok d \<Longrightarrow> mag d = 0 \<longleftrightarrow> dec_is_zero d"
  using dval_eq_0 [of "dec_source d"] dec_okD(2) [of d] by (simp add: mag_def dec_is_zero_def)

lemma dec_unlead_correct:
  assumes "dec_ok d"
  shows "dec_wf (dec_unlead d)" "mag (dec_unlead d) = mag d" "dec_sign (dec_unlead d) = dec_sign d"
    "dec_length (dec_unlead d) = dec_length d" "dval (dec_source (dec_unlead d)) = dval (dec_source d)"
proof -
  note ok = dec_okD [OF assms]
  obtain t n where t: "dec_source d = t @ replicate n (CHR ''0'')" "dec_unlead d = d\<lparr>dec_source := t\<rparr>"
    "dec_length d < int (length t)" "int (length t) = dec_length d + 1 \<or> last t \<noteq> CHR ''0''"
    using dec_unlead_cases [of d] ok(4,5) by metis
  then show "dec_wf (dec_unlead d)" "mag (dec_unlead d) = mag d" "dec_sign (dec_unlead d) = dec_sign d"
    "dec_length (dec_unlead d) = dec_length d" "dval (dec_source (dec_unlead d)) = dval (dec_source d)"
    using assms by (auto simp: dec_wf_def dec_ok_def mag_def dval_append)
qed

lemma dec_extend_correct:
  assumes "dec_ok d" "dec_length d \<le> n"
  shows "dec_ok (dec_extend n d)" "mag (dec_extend n d) = mag d" "dec_sign (dec_extend n d) = dec_sign d"
    "dec_length (dec_extend n d) = n" "dec_wf d \<Longrightarrow> dec_wf (dec_extend n d)"
proof -
  note ok = dec_okD [OF assms(1)]
  have "nat n = nat (n - dec_length d) + nat (dec_length d)" using assms(2) ok(4) by simp
  then have "(10::rat) ^ nat n = 10 ^ nat (n - dec_length d) * 10 ^ nat (dec_length d)" by (metis power_add)
  then show "mag (dec_extend n d) = mag d"
    using assms(2) by (cases "dec_length d < n") (simp_all add: mag_def dec_extend_eq dval_append)
  show "dec_ok (dec_extend n d)" "dec_sign (dec_extend n d) = dec_sign d" "dec_length (dec_extend n d) = n"
    "dec_wf d \<Longrightarrow> dec_wf (dec_extend n d)"
    using assms ok(3,4) by (auto simp: dec_ok_def dec_wf_def dec_extend_eq last_append)
qed

section \<open>Comparison\<close>

definition cmp :: "'a::linorder \<Rightarrow> 'a \<Rightarrow> int" where
  "cmp x y = (if x > y then 1 else if x < y then 2 else 0)"

lemma compare_loop_correct:
  "digits l \<Longrightarrow> digits r \<Longrightarrow> n \<le> length l \<Longrightarrow> n \<le> length r \<Longrightarrow>
   compare_loop l r n = cmp (dval (take n l)) (dval (take n r))"
proof (induction n)
  case (Suc n)
  have l: "dval (take (Suc n) l) = dval (take n l) + 10 ^ n * char_to_int (l ! n)"
    and r: "dval (take (Suc n) r) = dval (take n r) + 10 ^ n * char_to_int (r ! n)"
    using Suc.prems by (simp_all add: take_Suc_conv_app_nth dval_append)
  have "digits (take n l)" "digits (take n r)"
    using Suc.prems(1,2) append_take_drop_id [of n] by (metis list_all_append)+
  then have b: "0 \<le> dval (take n l)" "dval (take n l) < 10 ^ n" "0 \<le> dval (take n r)" "dval (take n r) < 10 ^ n"
    using dval_bounds [of "take n l"] dval_bounds [of "take n r"] Suc.prems by auto
  have step: "10 ^ n * x + 10 ^ n \<le> 10 ^ n * y" if "x < y" for x y :: int
    using mult_left_mono [of "x + 1" y "10 ^ n"] that by (simp add: algebra_simps)
  consider "schar (l ! n) = schar (r ! n)" | "schar (l ! n) < schar (r ! n)" | "schar (l ! n) > schar (r ! n)"
    by linarith
  then show ?case
  proof cases
    case 1
    then show ?thesis using Suc by (simp add: l r char_to_int_def cmp_def)
  next
    case 2
    then show ?thesis using step [of "char_to_int (l ! n)" "char_to_int (r ! n)"] Suc.prems b
      by (auto simp: l r char_to_int_def cmp_def)
  next
    case 3
    then show ?thesis using step [of "char_to_int (r ! n)" "char_to_int (l ! n)"] Suc.prems b
      by (auto simp: l r char_to_int_def cmp_def)
  qed
qed (simp add: cmp_def)

lemma compare_loop_all:
  "digits l \<Longrightarrow> digits r \<Longrightarrow> length l = length r \<Longrightarrow> compare_loop l r (length l) = cmp (dval l) (dval r)"
  using compare_loop_correct [of l r "length l"] by simp

lemma cmp_mag:
  assumes "dec_length a = dec_length b"
  shows "cmp (mag a) (mag b) = cmp (dval (dec_source a)) (dval (dec_source b))"
  by (simp add: mag_def cmp_def assms divide_less_cancel)

text \<open>Normalised decimals with more digits before the point are larger.\<close>

lemma mag_less_pow:
  assumes "dec_ok d" "int (length (dec_source d)) - dec_length d \<le> int k"
  shows "mag d < 10 ^ k"
proof -
  have "dval (dec_source d) < 10 ^ length (dec_source d)" using dec_okD(2) [OF assms(1)] by (rule dval_less)
  also have "\<dots> \<le> 10 ^ (k + nat (dec_length d))" using assms(2) by (intro power_increasing) auto
  finally have "(of_int (dval (dec_source d)) :: rat) < of_int (10 ^ (k + nat (dec_length d)))"
    by (simp only: of_int_less_iff)
  then show ?thesis by (simp add: mag_def divide_less_eq power_add)
qed

lemma mag_ge_pow:
  assumes "dec_wf d" "int (length (dec_source d)) - dec_length d > int k" "0 < k"
  shows "10 ^ k \<le> mag d"
proof -
  note ok = dec_okD [OF dec_wf_ok [OF assms(1)]]
  have "last (dec_source d) \<noteq> CHR ''0''" using assms by (auto simp: dec_wf_def)
  then have "10 ^ (length (dec_source d) - 1) \<le> dval (dec_source d)" using dval_last [OF ok(2,3)] by simp
  moreover have "(10::int) ^ (k + nat (dec_length d)) \<le> 10 ^ (length (dec_source d) - 1)"
    using assms(2) ok(4) by (intro power_increasing) auto
  ultimately have "(of_int (10 ^ (k + nat (dec_length d))) :: rat) \<le> of_int (dval (dec_source d))"
    by (simp only: of_int_le_iff)
  then show ?thesis by (simp add: mag_def le_divide_eq power_add)
qed

lemma mag_less_by_size:
  assumes "dec_ok a" "dec_wf b"
    and "int (length (dec_source a)) - dec_length a < int (length (dec_source b)) - dec_length b"
  shows "mag a < mag b"
proof -
  let ?k = "nat (int (length (dec_source a)) - dec_length a)"
  have "0 < ?k" using dec_okD(5) [OF assms(1)] by simp
  then have "mag a < 10 ^ ?k" "10 ^ ?k \<le> mag b"
    using assms by (auto intro!: mag_less_pow mag_ge_pow)
  then show ?thesis by simp
qed

lemma compare_num_aligned:
  assumes "dec_ok a" "dec_ok b" "dec_length a = dec_length b"
    and "n = length (dec_source a)" "n = length (dec_source b)"
  shows "compare_loop (dec_source a) (dec_source b) n = cmp (mag a) (mag b)"
  using compare_loop_all [OF dec_okD(2) dec_okD(2), OF assms(1,2)] assms cmp_mag [OF assms(3)] by simp

lemma compare_num_correct:
  assumes "dec_wf a" "dec_wf b"
  shows "compare_num a b = cmp (mag a) (mag b)"
proof -
  note a = dec_okD [OF dec_wf_ok [OF assms(1)]] and b = dec_okD [OF dec_wf_ok [OF assms(2)]]
  let ?k = "int (length (dec_source a)) - dec_length a" and ?m = "int (length (dec_source b)) - dec_length b"
  have sz: "size_diff (dec_source a) (dec_length a) = ?k" "size_diff (dec_source b) (dec_length b) = ?m"
    using a(5) b(5) by (simp_all add: size_diff_def)
  consider "?k > ?m" | "?k < ?m" | "?k = ?m" by linarith
  then show ?thesis
  proof cases
    case 1
    then show ?thesis using mag_less_by_size [OF dec_wf_ok [OF assms(2)] assms(1)]
      by (simp add: compare_num_def sz cmp_def)
  next
    case 2
    then show ?thesis using mag_less_by_size [OF dec_wf_ok [OF assms(1)] assms(2)]
      by (simp add: compare_num_def sz cmp_def)
  next
    case 3
    note ext = dec_extend_correct [OF dec_wf_ok [OF assms(1)]] dec_extend_correct [OF dec_wf_ok [OF assms(2)]]
    have "length (dec_source (dec_extend (dec_length a) b)) = length (dec_source a)" if "dec_length b < dec_length a"
      using that 3 by (simp add: dec_extend_eq)
    moreover have "length (dec_source (dec_extend (dec_length b) a)) = length (dec_source b)" if "dec_length a < dec_length b"
      using that 3 by (simp add: dec_extend_eq)
    ultimately show ?thesis
      using 3 assms [THEN dec_wf_ok] ext
      by (auto simp: compare_num_def sz Let_def compare_num_aligned)
  qed
qed

end
