(* ===== verification/Decimal_Arith.thy ===== *)
theory Decimal_Arith
  imports Decimal_Value
begin

text \<open>
  The operators of \<^verbatim>\<open>decimal\<close> on normalised operands: comparison, negation, addition,
  subtraction, multiplication and increments compute the operation on the rationals the
  operands denote, and keep the invariant.
\<close>

section \<open>Signs and order\<close>

definition signed :: "char \<Rightarrow> rat \<Rightarrow> rat" where
  "signed c m = (if c = CHR ''-'' then - m else m)"

lemma dec_val_signed: "dec_val d = signed (dec_sign d) (mag d)"
  by (simp add: dec_val_def signed_def)

lemma dec_zero_eq: "dec_of_int 0 = dec_zero" "dec_zero = \<lparr>dec_source = ''0'', dec_length = 0, dec_sign = CHR ''+''\<rparr>"
  by (simp_all add: dec_of_int_def dec_zero_def apply_zero_def dec_nan_def)

lemma dec_zero_wf [simp]: "dec_wf dec_zero" "mag dec_zero = 0" "dec_sign dec_zero = CHR ''+''" "dec_val dec_zero = 0"
  by (simp_all add: dec_zero_eq(2) dec_wf_def dec_ok_def mag_def dec_val_def)

lemma cmp_iff:
  "cmp x y = 0 \<longleftrightarrow> x = (y::'a::linorder)" "cmp x y = 1 \<longleftrightarrow> x > y" "cmp x y = 2 \<longleftrightarrow> x < y"
  by (auto simp: cmp_def)

lemmas dec_compare_defs = dec_eq_def dec_ne_def dec_gt_def dec_lt_def dec_ge_def dec_le_def

lemma dec_order_correct:
  assumes "dec_wf a" "dec_wf b"
  shows "dec_gt a b \<longleftrightarrow> dec_val a > dec_val b" "dec_lt a b \<longleftrightarrow> dec_val a < dec_val b"
    "dec_ge a b \<longleftrightarrow> dec_val a \<ge> dec_val b" "dec_le a b \<longleftrightarrow> dec_val a \<le> dec_val b"
    "dec_eq a b \<longleftrightarrow> dec_val a = dec_val b \<and> dec_sign a = dec_sign b"
    "dec_ne a b \<longleftrightarrow> \<not> dec_eq a b"
proof -
  note ok = assms [THEN dec_wf_ok] and c = compare_num_correct [OF assms]
  note s = dec_okD(6) [OF ok(1)] dec_okD(6) [OF ok(2)] and nan = dec_okD(1) [OF ok(1)] dec_okD(1) [OF ok(2)]
  note m = mag_nonneg [OF ok(1)] mag_nonneg [OF ok(2)] and z = mag_eq_0 [OF ok(1)] mag_eq_0 [OF ok(2)]
  show gt: "dec_gt a b \<longleftrightarrow> dec_val a > dec_val b"
    using s m by (auto simp: dec_gt_def nan c cmp_iff dec_val_def z [symmetric])
  show lt: "dec_lt a b \<longleftrightarrow> dec_val a < dec_val b"
    using s m by (auto simp: dec_lt_def nan c cmp_iff dec_val_def z [symmetric])
  show "dec_ge a b \<longleftrightarrow> dec_val a \<ge> dec_val b" "dec_le a b \<longleftrightarrow> dec_val a \<le> dec_val b"
    by (simp_all add: dec_ge_def dec_le_def nan gt lt not_less)
  show "dec_eq a b \<longleftrightarrow> dec_val a = dec_val b \<and> dec_sign a = dec_sign b"
    by (auto simp: dec_eq_def nan c cmp_iff dec_val_def)
  show "dec_ne a b \<longleftrightarrow> \<not> dec_eq a b" by (simp add: dec_ne_def nan)
qed

lemma dec_neg_correct:
  "dec_wf d \<Longrightarrow> dec_wf (dec_neg d) \<and> dec_val (dec_neg d) = - dec_val d"
  by (auto simp: dec_wf_def dec_ok_def dec_neg_def dec_val_def mag_def)

section \<open>Sums and differences of magnitudes\<close>

lemma sum_magnitudes:
  assumes "dec_wf a" "dec_wf b" "dec_length a = dec_length b" "c = CHR ''+'' \<or> c = CHR ''-''"
  defines "s \<equiv> (dec_sum a b)\<lparr>dec_sign := c, dec_length := dec_length a\<rparr>"
  shows "dec_wf s" "mag s = mag a + mag b" "dec_sign s = c"
proof -
  note ok = assms(1,2) [THEN dec_wf_ok]
  note a = dec_okD [OF ok(1)] and b = dec_okD [OF ok(2)]
  note sum = dec_sum_correct [OF a(2) b(2) a(3) b(3)]
  show "mag s = mag a + mag b" using assms(3) by (simp add: s_def mag_def sum(1) add_divide_distrib)
  show "dec_sign s = c" by (simp add: s_def)
  have okS: "dec_ok s" using assms(4) a(4,5) sum(2,3) by (auto simp: s_def dec_ok_def)
  have ne: "dec_source s \<noteq> []" using dec_okD(3) [OF okS] .
  have nn: "0 \<le> dval (dec_source a)" "0 \<le> dval (dec_source b)" using a(2) b(2) by (auto intro: dval_nonneg)
  have "int (length (dec_source s)) = dec_length s + 1 \<or> 10 ^ (length (dec_source s) - 1) \<le> dval (dec_source s)"
  proof (cases "length (dec_source s) = max (length (dec_source a)) (length (dec_source b))")
    case True
    then consider "length (dec_source s) = length (dec_source a)" | "length (dec_source s) = length (dec_source b)"
      by linarith
    then show ?thesis
    proof cases
      case 1
      with assms(1) dval_last [OF a(2,3)] show ?thesis using nn by (auto simp: dec_wf_def s_def sum(1))
    next
      case 2
      with assms(2,3) dval_last [OF b(2,3)] show ?thesis using nn by (auto simp: dec_wf_def s_def sum(1))
    qed
  next
    case False
    then show ?thesis using sum(4) by (simp add: s_def)
  qed
  then show "dec_wf s" using okS dval_last [OF dec_okD(2) [OF okS] ne] by (auto simp: dec_wf_def)
qed

lemma subtract_magnitudes:
  assumes "dec_wf a" "dec_wf b" "dec_length a = dec_length b" "mag b < mag a" "c = CHR ''+'' \<or> c = CHR ''-''"
    and "n = dec_length a"
  defines "s \<equiv> dec_unlead ((dec_subtract a b)\<lparr>dec_sign := c, dec_length := n\<rparr>)"
  shows "dec_wf s" "mag s = mag a - mag b" "dec_sign s = c"
proof -
  note ok = assms(1,2) [THEN dec_wf_ok]
  note a = dec_okD [OF ok(1)] and b = dec_okD [OF ok(2)]
  have "\<not> length (dec_source a) < length (dec_source b)"
    using mag_less_by_size [OF ok(1) assms(2)] assms(3,4) by auto
  moreover have le: "dval (dec_source b) \<le> dval (dec_source a)"
    using assms(3,4) by (simp add: mag_def divide_less_cancel)
  ultimately have sub: "dval (dec_source (dec_subtract a b)) = dval (dec_source a) - dval (dec_source b)"
    "digits (dec_source (dec_subtract a b))" "length (dec_source (dec_subtract a b)) = length (dec_source a)"
    using dec_subtract_correct [OF a(2) b(2,3)] by auto
  let ?t = "(dec_subtract a b)\<lparr>dec_sign := c, dec_length := n\<rparr>"
  have t: "dec_ok ?t" using assms(5,6) a(4,5) sub by (auto simp: dec_ok_def)
  have "mag ?t = mag a - mag b" using assms(3,6) by (simp add: mag_def sub(1) diff_divide_distrib)
  then show "dec_wf s" "mag s = mag a - mag b" "dec_sign s = c"
    using dec_unlead_correct [OF t] by (simp_all add: s_def)
qed

lemma dec_difference_correct:
  assumes "dec_wf a" "dec_wf b" "dec_length a = dec_length b"
    and "(sg = CHR ''+'' \<and> opp = CHR ''-'') \<or> (sg = CHR ''-'' \<and> opp = CHR ''+'')"
  shows "dec_wf (dec_difference sg opp a b)"
    and "dec_val (dec_difference sg opp a b) = signed sg (mag a - mag b)"
proof -
  have c: "compare_num a b = cmp (mag a) (mag b)" using compare_num_correct assms by blast
  consider "mag a = mag b" | "mag b < mag a" | "mag a < mag b" by linarith
  then have "dec_wf (dec_difference sg opp a b) \<and> dec_val (dec_difference sg opp a b) = signed sg (mag a - mag b)"
  proof cases
    case 1
    then show ?thesis by (simp add: dec_difference_def c cmp_def dec_zero_eq(1) signed_def)
  next
    case 2
    then show ?thesis
      using subtract_magnitudes [OF assms(1-3), of sg "dec_length a"] assms(4)
      by (auto simp: dec_difference_def c cmp_def dec_val_signed)
  next
    case 3
    then show ?thesis
      using subtract_magnitudes [OF assms(2,1) assms(3) [symmetric], of opp "dec_length a"] assms(3,4)
      by (auto simp: dec_difference_def c cmp_def dec_val_signed signed_def)
  qed
  then show "dec_wf (dec_difference sg opp a b)" "dec_val (dec_difference sg opp a b) = signed sg (mag a - mag b)"
    by auto
qed

section \<open>Addition, subtraction and multiplication\<close>

text \<open>Both operators pad the operand with the shorter fraction first.\<close>

lemma align_operands:
  assumes "dec_wf l" "dec_wf r"
  defines "left \<equiv> if dec_length l < dec_length r then dec_extend (dec_length r) l else l"
    and "right \<equiv> if dec_length l > dec_length r then dec_extend (dec_length l) r else r"
  shows "dec_wf left" "dec_wf right" "dec_length left = dec_length right"
    "mag left = mag l" "mag right = mag r" "dec_sign left = dec_sign l" "dec_sign right = dec_sign r"
  using assms(1,2) dec_extend_correct [OF dec_wf_ok [OF assms(1)], of "dec_length r"]
    dec_extend_correct [OF dec_wf_ok [OF assms(2)], of "dec_length l"]
  by (auto simp: left_def right_def)

lemma dec_add_correct:
  assumes "dec_wf a" "dec_wf b"
  shows "dec_wf (dec_add a b) \<and> dec_val (dec_add a b) = dec_val a + dec_val b"
proof -
  define l r where "l = (if dec_length a < dec_length b then dec_extend (dec_length b) a else a)"
    and "r = (if dec_length a > dec_length b then dec_extend (dec_length a) b else b)"
  note al = align_operands [OF assms, folded l_def r_def]
  note ok = assms [THEN dec_wf_ok] and s = assms [THEN dec_wf_ok, THEN dec_okD(6)]
  note diff = dec_difference_correct [OF al(1-3)] and sum = sum_magnitudes [OF al(1-3)]
  show ?thesis
    using s diff [of "CHR ''+''" "CHR ''-''"] diff [of "CHR ''-''" "CHR ''+''"] sum [of "CHR ''+''"] sum [of "CHR ''-''"]
      al(4-7) dec_okD(1) [OF ok(1)] dec_okD(1) [OF ok(2)]
    by (auto simp: dec_add_def Let_def l_def [symmetric] r_def [symmetric] dec_val_signed signed_def)
qed

lemma dec_sub_correct:
  assumes "dec_wf a" "dec_wf b"
  shows "dec_wf (dec_sub a b) \<and> dec_val (dec_sub a b) = dec_val a - dec_val b"
proof -
  define l r where "l = (if dec_length a < dec_length b then dec_extend (dec_length b) a else a)"
    and "r = (if dec_length a > dec_length b then dec_extend (dec_length a) b else b)"
  note al = align_operands [OF assms, folded l_def r_def]
  note ok = assms [THEN dec_wf_ok] and s = assms [THEN dec_wf_ok, THEN dec_okD(6)]
  note diff = dec_difference_correct [OF al(1-3)] and sum = sum_magnitudes [OF al(1-3)]
  show ?thesis
    using s diff [of "CHR ''+''" "CHR ''-''"] diff [of "CHR ''-''" "CHR ''+''"] sum [of "CHR ''+''"] sum [of "CHR ''-''"]
      al(4-7) dec_okD(1) [OF ok(1)] dec_okD(1) [OF ok(2)]
    by (auto simp: dec_sub_def Let_def l_def [symmetric] r_def [symmetric] dec_val_signed signed_def)
qed

lemma dec_mul_correct:
  assumes "dec_wf a" "dec_wf b"
  shows "dec_wf (dec_mul a b)" "mag (dec_mul a b) = mag a * mag b"
    "dec_sign (dec_mul a b) = (if dec_sign a = dec_sign b then CHR ''+'' else CHR ''-'')"
    "dec_length (dec_mul a b) = dec_length a + dec_length b"
proof -
  note ok = assms [THEN dec_wf_ok]
  note a = dec_okD [OF ok(1)] and b = dec_okD [OF ok(2)]
  note mul = dec_multiply_correct [OF a(2) b(2) a(3)]
  define c where "c = (if dec_sign a = dec_sign b then CHR ''+'' else CHR ''-'')"
  define t where "t = (dec_multiply a b)\<lparr>dec_sign := c, dec_length := dec_length a + dec_length b\<rparr>"
  have eq: "dec_mul a b = dec_unlead t"
    using a(1,6) b(1,6) by (auto simp: dec_mul_def Let_def t_def c_def)
  have t: "dec_ok t" using a(4,5) b(4,5) mul(2) mul(3) [OF b(3)] by (auto simp: t_def c_def dec_ok_def)
  have "mag t = mag a * mag b"
    using a(4) b(4) by (simp add: t_def mag_def mul(1) nat_add_distrib power_add)
  then show "dec_wf (dec_mul a b)" "mag (dec_mul a b) = mag a * mag b"
    "dec_sign (dec_mul a b) = (if dec_sign a = dec_sign b then CHR ''+'' else CHR ''-'')"
    "dec_length (dec_mul a b) = dec_length a + dec_length b"
    using dec_unlead_correct [OF t] by (simp_all add: eq t_def c_def)
qed

lemma dec_mul_val:
  assumes "dec_wf a" "dec_wf b"
  shows "dec_val (dec_mul a b) = dec_val a * dec_val b"
  using dec_mul_correct [OF assms] assms [THEN dec_wf_ok, THEN dec_okD(6)] by (auto simp: dec_val_def)

end
