(* ===== verification/Exact_Number.thy ===== *)
theory Exact_Number
  imports Main
begin

text \<open>
  The contract of a number type whose ring operations are exact: a representation with an
  invariant and a value in an ordered ring, operators that keep the invariant and compute on
  the values, and a comparison.  A client that folds such operators over a sequence (a sum, a
  Horner scheme that reads digits in some base) gets the exact value, proved here once.
\<close>

locale exact_number =
  fixes inv :: "'a \<Rightarrow> bool"
    and val :: "'a \<Rightarrow> 'v::linordered_idom"
    and of_int' :: "int \<Rightarrow> 'a"
    and add sub mul :: "'a \<Rightarrow> 'a \<Rightarrow> 'a"
    and neg :: "'a \<Rightarrow> 'a"
    and lt le :: "'a \<Rightarrow> 'a \<Rightarrow> bool"
  assumes of_int_inv: "inv (of_int' n)" and of_int_val: "val (of_int' n) = of_int n"
    and add_inv: "inv x \<Longrightarrow> inv y \<Longrightarrow> inv (add x y)"
    and add_val: "inv x \<Longrightarrow> inv y \<Longrightarrow> val (add x y) = val x + val y"
    and sub_inv: "inv x \<Longrightarrow> inv y \<Longrightarrow> inv (sub x y)"
    and sub_val: "inv x \<Longrightarrow> inv y \<Longrightarrow> val (sub x y) = val x - val y"
    and mul_inv: "inv x \<Longrightarrow> inv y \<Longrightarrow> inv (mul x y)"
    and mul_val: "inv x \<Longrightarrow> inv y \<Longrightarrow> val (mul x y) = val x * val y"
    and neg_inv: "inv x \<Longrightarrow> inv (neg x)" and neg_val: "inv x \<Longrightarrow> val (neg x) = - val x"
    and lt_val: "inv x \<Longrightarrow> inv y \<Longrightarrow> lt x y \<longleftrightarrow> val x < val y"
    and le_val: "inv x \<Longrightarrow> inv y \<Longrightarrow> le x y \<longleftrightarrow> val x \<le> val y"
begin

lemmas exact = of_int_inv of_int_val add_inv add_val sub_inv sub_val mul_inv mul_val neg_inv neg_val lt_val le_val

lemma fold_add:
  "list_all inv xs \<Longrightarrow> inv z \<Longrightarrow> inv (foldl add z xs) \<and> val (foldl add z xs) = val z + sum_list (map val xs)"
  by (induction xs arbitrary: z) (auto simp: exact add.assoc)

lemma horner:
  "inv z \<Longrightarrow> inv (foldl (\<lambda>v c. add (mul v (of_int' b)) (of_int' (digit c))) z s)
   \<and> (val z = of_int k \<longrightarrow>
      val (foldl (\<lambda>v c. add (mul v (of_int' b)) (of_int' (digit c))) z s)
        = of_int (foldl (\<lambda>v c. v * b + digit c) k s))"
proof (induction s arbitrary: z k)
  case (Cons c s)
  let ?z = "add (mul z (of_int' b)) (of_int' (digit c))"
  have "inv ?z" using Cons.prems by (simp add: exact)
  moreover have "val z = of_int k \<Longrightarrow> val ?z = of_int (k * b + digit c)" using Cons.prems by (simp add: exact)
  ultimately show ?case using Cons.IH [of ?z "k * b + digit c"] by simp
qed simp

lemma add_sub_val: "inv x \<Longrightarrow> inv y \<Longrightarrow> val (sub (add x y) y) = val x"
  by (simp add: exact)

lemma distrib_val: "inv x \<Longrightarrow> inv y \<Longrightarrow> inv z \<Longrightarrow> val (mul x (add y z)) = val (add (mul x y) (mul x z))"
  by (simp add: exact distrib_left)

lemma le_add_mono: "inv x \<Longrightarrow> inv y \<Longrightarrow> inv z \<Longrightarrow> le x y \<Longrightarrow> le (add x z) (add y z)"
  by (simp add: exact)

lemma lt_neg_iff: "inv x \<Longrightarrow> inv y \<Longrightarrow> lt (neg y) (neg x) \<longleftrightarrow> lt x y"
  by (simp add: exact)

end

end
