(* ===== verification/Decimal_Conv.thy ===== *)
theory Decimal_Conv
  imports Decimal_Text Decimal_Arith Exact_Number
begin

text \<open>
  Reading and writing decimals: what the parser accepts, the round trips between text and
  decimals, truncation and rounding, and the conversions to machine integers.
\<close>

section \<open>Parsing\<close>

lemma push_digits_eq: "push_digits src s = (if digits s then Some (src @ s) else None)"
  by (induction s arbitrary: src) (auto simp: Let_def)

lemma digits_no_point: "digits s \<Longrightarrow> CHR ''.'' \<notin> set s"
  by (auto simp: list_all_iff)

lemma find_char_from_digits:
  assumes "digits ip"
  shows "find_char_from (CHR ''.'') (pre @ ip) (length pre) = None"
    and "find_char_from (CHR ''.'') (pre @ ip @ CHR ''.'' # fp) (length pre) = Some (length pre + length ip)"
  using digits_no_point [OF assms] by (simp_all add: find_char_from_def find_char_None find_char_append)

lemma digits_hd: "digits s \<Longrightarrow> s \<noteq> [] \<Longrightarrow> isdigit (hd s) \<and> hd s \<noteq> CHR ''+'' \<and> hd s \<noteq> CHR ''-''"
  by (cases s) auto

text \<open>The sign a text starts with, and the text with it.\<close>

definition sign_prefix :: "string \<Rightarrow> char \<Rightarrow> bool" where
  "sign_prefix pre c \<longleftrightarrow> pre = [] \<and> c = CHR ''+'' \<or> pre = [CHR ''+''] \<and> c = CHR ''+'' \<or> pre = [CHR ''-''] \<and> c = CHR ''-''"

lemma dec_of_text_integer:
  assumes "sign_prefix pre c" "digits ip" "ip \<noteq> []"
  shows "dec_of_text (pre @ ip) = \<lparr>dec_source = rev ip, dec_length = 0, dec_sign = c\<rparr>"
proof (cases "length (pre @ ip) = 1")
  case True
  then have "pre = []" "length ip = 1" using assms(3) by (cases pre; cases ip; simp)+
  then obtain a where "pre = []" "ip = [a]" by (auto simp: length_Suc_conv)
  with assms show ?thesis
    by (simp add: dec_of_text_def apply_base10_def dec_nan_def sign_prefix_def)
next
  case False
  then show ?thesis
    using assms find_char_from_digits(1) [OF assms(2), of pre] digits_hd [OF assms(2,3)]
    by (auto simp: sign_prefix_def dec_of_text_def apply_base10_def push_digits_eq dec_nan_def)
qed

lemma dec_of_text_fraction:
  assumes "sign_prefix pre c" "digits ip" "ip \<noteq> []" "digits fp"
  shows "dec_of_text (pre @ ip @ CHR ''.'' # fp)
    = \<lparr>dec_source = rev (ip @ fp), dec_length = int (length fp), dec_sign = c\<rparr>"
  using assms find_char_from_digits(2) [OF assms(2), of pre fp] digits_hd [OF assms(2,3)]
  by (auto simp: sign_prefix_def dec_of_text_def apply_base10_def push_digits_eq dec_nan_def)

lemma nat_digits_rev_correct:
  "digits (nat_digits_rev n) \<and> dval (nat_digits_rev n) = int n \<and> nat_digits_rev n \<noteq> []
   \<and> (0 < n \<longrightarrow> last (nat_digits_rev n) \<noteq> CHR ''0'')"
proof (induction n rule: nat_digits_rev.induct)
  case (1 n)
  have d: "isdigit (char_of_int (48 + int (n mod 10)))" "char_to_int (char_of_int (48 + int (n mod 10))) = int (n mod 10)"
    using isdigit_char_of_int [of "int (n mod 10)"] schar_char_of_int [of "int (n mod 10)"]
    by (simp_all add: char_to_int_def)
  show ?case
  proof (cases "n < 10")
    case True
    then have "nat_digits_rev n = [char_of_int (48 + int n)]" by (simp add: nat_digits_rev.simps [of n])
    moreover have "0 < n \<longrightarrow> char_of_int (48 + int n) \<noteq> CHR ''0''"
      using d(2) True by (metis char_to_int_zero mod_less of_nat_0_less_iff order_less_irrefl)
    ultimately show ?thesis using d True by simp
  next
    case False
    then have eq: "nat_digits_rev n = char_of_int (48 + int (n mod 10)) # nat_digits_rev (n div 10)"
      by (simp add: nat_digits_rev.simps [of n])
    have "int n = int (n mod 10) + 10 * int (n div 10)"
      by (metis add.commute div_mult_mod_eq mult.commute of_nat_add of_nat_mult of_nat_numeral)
    with 1 [OF False] False d show ?thesis unfolding eq by (simp del: of_nat_mod of_nat_div zmod_int zdiv_int)
  qed
qed

lemma dec_of_int_correct: "dec_wf (dec_of_int n) \<and> dec_val (dec_of_int n) = of_int n \<and> dec_length (dec_of_int n) = 0
   \<and> mag (dec_of_int n) = of_int \<bar>n\<bar>"
proof (cases "n = 0")
  case True
  then show ?thesis using dec_zero_wf by (simp add: dec_zero_eq(1)) (simp add: dec_zero_eq(2))
next
  case False
  let ?s = "nat_digits_rev (nat \<bar>n\<bar>)"
  note s = nat_digits_rev_correct [of "nat \<bar>n\<bar>"]
  have "digits (rev ?s)" "rev ?s \<noteq> []" using s by auto
  then have "dec_of_int n = \<lparr>dec_source = ?s, dec_length = 0, dec_sign = (if n < 0 then CHR ''-'' else CHR ''+'')\<rparr>"
    using dec_of_text_integer [of "[CHR ''-'']" "CHR ''-''" "rev ?s"] dec_of_text_integer [of "[]" "CHR ''+''" "rev ?s"] False
    by (auto simp: dec_of_int_def to_chars_def dec_of_text_def sign_prefix_def)
  then show ?thesis using s False by (auto simp: dec_wf_def dec_ok_def dec_val_def mag_def)
qed

lemma dec_of_int_wf [simp]: "dec_wf (dec_of_int n)" and dec_of_int_val [simp]: "dec_val (dec_of_int n) = of_int n"
  and dec_of_int_length [simp]: "dec_length (dec_of_int n) = 0" and mag_dec_of_int [simp]: "mag (dec_of_int n) = of_int \<bar>n\<bar>"
  using dec_of_int_correct by auto

interpretation dec: exact_number dec_wf dec_val dec_of_int dec_add dec_sub dec_mul dec_neg dec_lt dec_le
  by unfold_locales
     (simp_all add: dec_add_correct dec_sub_correct dec_mul_correct(1) dec_mul_val dec_neg_correct dec_order_correct)

section \<open>Printing\<close>

lemma skip_zeros_eq:
  "skip_zeros s off n = off + length (takeWhile (\<lambda>c. c = CHR ''0'') (take (nat n) (drop off s)))"
proof (induction s off n rule: skip_zeros.induct)
  case (1 s off n)
  show ?case
  proof (cases "str_at s off = CHR ''0'' \<and> n > 0")
    case True
    then have off: "off < length s" by (auto simp: str_at_def split: if_splits)
    then have "take (nat n) (drop off s) = CHR ''0'' # take (nat (n - 1)) (drop (off + 1) s)"
      using True by (simp add: Cons_nth_drop_Suc [symmetric] take_Cons' nat_diff_distrib)
    then show ?thesis using True 1 by (subst skip_zeros.simps) simp
  next
    case False
    then have "takeWhile (\<lambda>c. c = CHR ''0'') (take (nat n) (drop off s)) = []"
      by (cases "off < length s") (auto simp: Cons_nth_drop_Suc [symmetric] take_Cons')
    then show ?thesis using False by (subst skip_zeros.simps) auto
  qed
qed

lemma untrail_loop_eq:
  "untrail_loop s n = (let k = length (takeWhile (\<lambda>c. c = CHR ''0'') (take (nat n) s)) in (drop k s, n - int k))"
proof (induction s n rule: untrail_loop.induct)
  case (2 c cs n)
  then show ?case by (auto simp: Let_def take_Cons' nat_diff_distrib)
qed simp

lemma print_loop_low:
  "n \<le> length s \<Longrightarrow> (n \<le> nat len \<or> int off = len \<or> len = 0) \<Longrightarrow> print_loop s len off n = rev (drop off (take n s))"
proof (induction n)
  case (Suc n)
  then show ?case by (cases "off \<le> n") (auto simp: take_Suc_conv_app_nth)
qed simp

lemma print_loop_high:
  assumes "0 < len" "int off < len" "nat len < n" "n \<le> length s"
  shows "print_loop s len off n = rev (drop (nat len) (take n s)) @ CHR ''.'' # rev (drop off (take (nat len) s))"
  using assms(3,4)
proof (induction n)
  case (Suc n)
  have off: "off \<le> n" using Suc.prems(1) assms(2) by linarith
  show ?case
  proof (cases "n = nat len")
    case True
    then show ?thesis using Suc.prems assms off print_loop_low [of n s len off] by (simp add: take_Suc_conv_app_nth)
  next
    case False
    then have "nat len < n" "int n \<noteq> len" using Suc.prems(1) assms(1) by auto
    then show ?thesis using Suc off by (simp add: take_Suc_conv_app_nth)
  qed
qed simp

lemma integer_loop_eq:
  assumes "0 \<le> len" "int off \<le> len" "nat len < n" "n \<le> length s" "len = 0 \<Longrightarrow> off = 0"
  shows "integer_loop s len off n = rev (drop (nat len) (take n s))"
  using assms(3,4)
proof (induction n)
  case (Suc n)
  have off: "off \<le> n" using Suc.prems(1) assms(2) by linarith
  show ?case
  proof (cases "n = nat len")
    case True
    have "integer_loop s len off n = []" if "int off = len" using that True by (cases n) auto
    then show ?thesis using True Suc.prems assms(1,2,5) off by (auto simp: take_Suc_conv_app_nth)
  next
    case False
    then have "nat len < n" "int n \<noteq> len" using Suc.prems(1) assms(1) by auto
    then show ?thesis using Suc off by (simp add: take_Suc_conv_app_nth)
  qed
qed simp

text \<open>How many of the digits behind the point are trailing zeros.\<close>

definition trailing :: "decimal \<Rightarrow> nat" where
  "trailing d = length (takeWhile (\<lambda>c. c = CHR ''0'') (take (nat (dec_length d)) (dec_source d)))"

lemma trailing_le: "trailing d \<le> nat (dec_length d)"
  using length_takeWhile_le [of "\<lambda>c. c = CHR ''0''" "take (nat (dec_length d)) (dec_source d)"]
  by (simp add: trailing_def)

lemma dec_untrail_eq:
  "dec_ok d \<Longrightarrow> dec_untrail d = d\<lparr>dec_source := drop (trailing d) (dec_source d), dec_length := dec_length d - int (trailing d)\<rparr>"
  using dec_okD(1,3) [of d] by (simp add: dec_untrail_def untrail_loop_eq trailing_def Let_def)

lemma dec_to_string_eq:
  assumes "dec_ok d"
  shows "dec_to_string d = (if dec_sign d = CHR ''-'' then ''-'' else []) @ rev (drop (nat (dec_length d)) (dec_source d))
    @ (if trailing d = nat (dec_length d) then []
       else CHR ''.'' # rev (drop (trailing d) (take (nat (dec_length d)) (dec_source d))))"
proof -
  note ok = dec_okD [OF assms]
  have off: "skip_zeros (dec_source d) 0 (dec_length d) = trailing d" by (simp add: skip_zeros_eq trailing_def)
  show ?thesis
  proof (cases "trailing d = nat (dec_length d)")
    case True
    then show ?thesis using ok print_loop_low [of "length (dec_source d)" "dec_source d" "dec_length d" "trailing d"]
      by (simp add: dec_to_string_def off)
  next
    case False
    then have "int (trailing d) < dec_length d" "0 < dec_length d" using trailing_le [of d] by auto
    then show ?thesis using ok False print_loop_high [of "dec_length d" "trailing d" "length (dec_source d)" "dec_source d"]
      by (simp add: dec_to_string_def off)
  qed
qed

lemma digits_slices: "digits s \<Longrightarrow> digits (rev s) \<and> digits (take n s) \<and> digits (drop n s)"
  by (auto simp: list_all_iff dest: in_set_takeD in_set_dropD)

lemma drop_take_append: "k \<le> n \<Longrightarrow> drop k (take n s) @ drop n s = drop k s"
  by (induction s arbitrary: k n) (auto simp: take_Cons' drop_Cons')

lemma dec_of_text_to_string:
  assumes "dec_ok d"
  shows "dec_of_text (dec_to_string d) = dec_untrail d"
proof -
  note ok = dec_okD [OF assms]
  let ?n = "nat (dec_length d)"
  define pre where "pre = (if dec_sign d = CHR ''-'' then ''-'' else [])"
  have pre: "sign_prefix pre (dec_sign d)" using ok(6) by (auto simp: sign_prefix_def pre_def)
  have ip: "digits (rev (drop ?n (dec_source d)))" "rev (drop ?n (dec_source d)) \<noteq> []"
    "digits (rev (drop (trailing d) (take ?n (dec_source d))))"
    using digits_slices ok(2) ok(4,5) by auto
  show ?thesis
  proof (cases "trailing d = ?n")
    case True
    then show ?thesis using dec_of_text_integer [OF pre ip(1,2)] ok(4)
      by (simp add: dec_to_string_eq [OF assms] pre_def [symmetric] dec_untrail_eq [OF assms])
  next
    case False
    have "?n < length (dec_source d)" using ok(4,5) by linarith
    then have "int (length (drop (trailing d) (take ?n (dec_source d)))) = dec_length d - int (trailing d)"
      using trailing_le [of d] ok(4) by (simp add: of_nat_diff)
    then show ?thesis using False dec_of_text_fraction [OF pre ip] drop_take_append [OF trailing_le, of d "dec_source d"]
      by (simp add: dec_to_string_eq [OF assms] pre_def [symmetric] dec_untrail_eq [OF assms] del: length_drop length_take)
  qed
qed

lemma dec_untrail_correct:
  assumes "dec_ok d"
  shows "dec_ok (dec_untrail d)" "mag (dec_untrail d) = mag d" "dec_sign (dec_untrail d) = dec_sign d"
    "dec_wf d \<Longrightarrow> dec_wf (dec_untrail d)"
proof -
  note ok = dec_okD [OF assms]
  let ?k = "trailing d"
  have le: "?k \<le> nat (dec_length d)" by (rule trailing_le)
  then have len: "?k < length (dec_source d)" using ok(4,5) by linarith
  have "take ?k (dec_source d) = takeWhile (\<lambda>c. c = CHR ''0'') (take (nat (dec_length d)) (dec_source d))"
    using le unfolding trailing_def by (metis min.absorb1 take_take takeWhile_eq_take)
  then have "take ?k (dec_source d) = replicate ?k (CHR ''0'')"
    by (metis (full_types) replicate_eqI set_takeWhileD trailing_def)
  then have src: "dec_source d = replicate ?k (CHR ''0'') @ drop ?k (dec_source d)" by (metis append_take_drop_id)
  then have "dval (dec_source d) = 10 ^ ?k * dval (drop ?k (dec_source d))"
    using dval_append [of "replicate ?k (CHR ''0'')" "drop ?k (dec_source d)"] by simp
  moreover have "nat (dec_length d) = ?k + nat (dec_length d - int ?k)" using le by linarith
  then have "(10::rat) ^ nat (dec_length d) = 10 ^ ?k * 10 ^ nat (dec_length d - int ?k)" by (metis power_add)
  ultimately show "mag (dec_untrail d) = mag d" by (simp add: dec_untrail_eq [OF assms] mag_def)
  show "dec_ok (dec_untrail d)" "dec_sign (dec_untrail d) = dec_sign d" "dec_wf d \<Longrightarrow> dec_wf (dec_untrail d)"
    using assms le len digits_slices [OF ok(2)] ok(4,5)
    by (auto simp: dec_untrail_eq dec_ok_def dec_wf_def of_nat_diff)
qed

lemma dec_to_string_of_text:
  assumes "pre = [] \<or> pre = ''-''" "digits ip" "ip \<noteq> []"
  shows "dec_to_string (dec_of_text (pre @ ip)) = pre @ ip"
    and "digits fp \<Longrightarrow> fp \<noteq> [] \<Longrightarrow> last fp \<noteq> CHR ''0'' \<Longrightarrow>
      dec_to_string (dec_of_text (pre @ ip @ CHR ''.'' # fp)) = pre @ ip @ CHR ''.'' # fp"
proof -
  define c where "c = (if pre = [] then CHR ''+'' else CHR ''-'')"
  have pre: "sign_prefix pre c" using assms(1) by (auto simp: sign_prefix_def c_def)
  let ?d = "\<lparr>dec_source = rev ip, dec_length = 0, dec_sign = c\<rparr>"
  have "dec_ok ?d" using assms by (auto simp: dec_ok_def c_def)
  from dec_to_string_eq [OF this] show "dec_to_string (dec_of_text (pre @ ip)) = pre @ ip"
    using assms(1) by (auto simp: dec_of_text_integer [OF pre assms(2,3)] trailing_def c_def)
  assume fp: "digits fp" "fp \<noteq> []" "last fp \<noteq> CHR ''0''"
  let ?e = "\<lparr>dec_source = rev (ip @ fp), dec_length = int (length fp), dec_sign = c\<rparr>"
  have e: "dec_ok ?e" using assms fp by (auto simp: dec_ok_def c_def)
  have "trailing ?e = 0" using fp(2,3) by (cases fp rule: rev_cases) (simp_all add: trailing_def take_Cons')
  with dec_to_string_eq [OF e] show "dec_to_string (dec_of_text (pre @ ip @ CHR ''.'' # fp)) = pre @ ip @ CHR ''.'' # fp"
    using assms(1) fp(2) by (auto simp: dec_of_text_fraction [OF pre assms(2,3) fp(1)] c_def)
qed

section \<open>Truncation and rounding\<close>

lemma dec_shorten_steps:
  "dec_length d = n + int (Suc k) \<Longrightarrow> k < length (dec_source d) \<Longrightarrow>
   dec_shorten n (c, d) = (dec_source d ! k, d\<lparr>dec_length := n, dec_source := drop (Suc k) (dec_source d)\<rparr>)"
proof (induction k arbitrary: c d)
  case 0
  let ?d = "d\<lparr>dec_length := dec_length d - 1, dec_source := drop 1 (dec_source d)\<rparr>"
  have "dec_shorten n (c, d) = dec_shorten n (str_at (dec_source d) 0, ?d)"
    using 0 by (subst dec_shorten.simps) simp
  also have "\<dots> = (str_at (dec_source d) 0, ?d)" using 0 by (subst dec_shorten.simps) simp
  finally show ?case using 0 by simp
next
  case (Suc k)
  let ?d = "d\<lparr>dec_length := dec_length d - 1, dec_source := drop 1 (dec_source d)\<rparr>"
  have "dec_shorten n (c, d) = dec_shorten n (str_at (dec_source d) 0, ?d)"
    using Suc.prems by (subst dec_shorten.simps) simp
  also have "\<dots> = (dec_source ?d ! k, ?d\<lparr>dec_length := n, dec_source := drop (Suc k) (dec_source ?d)\<rparr>)"
    by (rule Suc.IH) (use Suc.prems in auto)
  finally show ?case using Suc.prems by simp
qed

lemma dec_shorten_eq:
  assumes "n < dec_length d" "dec_ok d" "0 \<le> n"
  shows "dec_shorten n (c, d) = (dec_source d ! nat (dec_length d - n - 1),
     d\<lparr>dec_length := n, dec_source := drop (nat (dec_length d - n)) (dec_source d)\<rparr>)"
proof -
  have "Suc (nat (dec_length d - n - 1)) = nat (dec_length d - n)" using assms(1) by simp
  with dec_shorten_steps [of d n "nat (dec_length d - n - 1)" c] show ?thesis
    using assms(1,3) dec_okD(5) [OF assms(2)] by simp
qed

text \<open>Cutting digits off the fraction: the value loses what the cut digits stood for.\<close>

lemma floor_div_pow: "\<lfloor>(of_int a :: rat) / 10 ^ k\<rfloor> = a div 10 ^ k"
  using floor_divide_of_int_eq [of a "10 ^ k", where 'a = rat] by simp

lemma dval_drop: "digits s \<Longrightarrow> k \<le> length s \<Longrightarrow> dval (drop k s) = dval s div 10 ^ k"
proof -
  assume s: "digits s" and k: "k \<le> length s"
  have "dval s = dval (take k s) + 10 ^ k * dval (drop k s)"
    using dval_append [of "take k s" "drop k s"] k by simp
  moreover have "0 \<le> dval (take k s)" "dval (take k s) < 10 ^ k"
    using dval_bounds [of "take k s"] digits_slices [OF s] k by auto
  ultimately show ?thesis by simp
qed

definition cut :: "int \<Rightarrow> decimal \<Rightarrow> decimal" where
  "cut n d = d\<lparr>dec_length := n, dec_source := drop (nat (dec_length d - n)) (dec_source d)\<rparr>"

lemma cut_correct:
  assumes "dec_ok d" "0 \<le> n" "n < dec_length d"
  shows "dec_ok (cut n d)" "dec_wf d \<Longrightarrow> dec_wf (cut n d)" "dec_sign (cut n d) = dec_sign d"
    "mag (cut n d) = of_int \<lfloor>mag d * 10 ^ nat n\<rfloor> / 10 ^ nat n" "dec_length (cut n d) = n"
proof -
  note ok = dec_okD [OF assms(1)]
  let ?k = "nat (dec_length d - n)"
  have k: "?k \<le> length (dec_source d)" "nat (dec_length d) = ?k + nat n" using assms(2,3) ok(5) by auto
  show "dec_ok (cut n d)" "dec_wf d \<Longrightarrow> dec_wf (cut n d)" "dec_sign (cut n d) = dec_sign d" "dec_length (cut n d) = n"
    using assms ok digits_slices [OF ok(2)] by (auto simp: cut_def dec_ok_def dec_wf_def)
  have "mag d * 10 ^ nat n = of_int (dval (dec_source d)) / 10 ^ ?k"
    by (simp add: mag_def k(2) power_add)
  then show "mag (cut n d) = of_int \<lfloor>mag d * 10 ^ nat n\<rfloor> / 10 ^ nat n"
    using dval_drop [OF ok(2) k(1)] by (simp add: mag_def [of "cut n d"] floor_div_pow) (simp add: cut_def)
qed

lemma sint_small:
  assumes "unat (p::u32) < 2 ^ 31"
  shows "sint p = int (unat p)"
proof -
  have "int (unat p) < int (2 ^ 31)" using assms by (simp only: of_nat_less_iff)
  then have "uint p < 2 ^ 31" by simp
  then have "signed_take_bit 31 (uint p) = uint p" using uint_ge_0 [of p] by (intro signed_take_bit_int_eq_self) linarith+
  then show ?thesis by (simp add: sint_uint)
qed

lemma dec_truncate_correct:
  assumes "dec_wf d" "unat p < 2 ^ 31"
  shows "dec_wf (dec_truncate d p)" "dec_sign (dec_truncate d p) = dec_sign d" "dec_length (dec_truncate d p) = int (unat p)"
    "mag (dec_truncate d p) = (if int (unat p) < dec_length d then of_int \<lfloor>mag d * 10 ^ unat p\<rfloor> / 10 ^ unat p else mag d)"
proof -
  note w = dec_wf_ok [OF assms(1)]
  have "dec_wf (dec_truncate d p) \<and> dec_sign (dec_truncate d p) = dec_sign d \<and> dec_length (dec_truncate d p) = int (unat p)
    \<and> mag (dec_truncate d p) = (if int (unat p) < dec_length d then of_int \<lfloor>mag d * 10 ^ unat p\<rfloor> / 10 ^ unat p else mag d)"
    using assms dec_okD(1) [OF w] cut_correct [OF w, of "int (unat p)"] dec_extend_correct [OF w, of "int (unat p)"]
      dec_shorten_eq [OF _ w, of "int (unat p)"]
    by (auto simp: dec_truncate_def sint_small Let_def cut_def [symmetric])
  then show "dec_wf (dec_truncate d p)" "dec_sign (dec_truncate d p) = dec_sign d" "dec_length (dec_truncate d p) = int (unat p)"
    "mag (dec_truncate d p) = (if int (unat p) < dec_length d then of_int \<lfloor>mag d * 10 ^ unat p\<rfloor> / 10 ^ unat p else mag d)"
    by auto
qed

lemma dval_nth: "digits s \<Longrightarrow> i < length s \<Longrightarrow> char_to_int (s ! i) = dval s div 10 ^ i mod 10"
proof -
  assume s: "digits s" and i: "i < length s"
  have "dval s div 10 ^ i = char_to_int (s ! i) + 10 * dval (drop (Suc i) s)"
    using dval_drop [OF s, of i] i by (simp add: Cons_nth_drop_Suc [symmetric])
  moreover have "0 \<le> char_to_int (s ! i)" "char_to_int (s ! i) \<le> 9"
    using char_to_int_range [of "s ! i"] s i by (auto simp: list_all_length)
  ultimately show ?thesis by simp
qed

lemma floor_half_up_parts:
  fixes q g rest :: int
  assumes "0 \<le> rest" "rest < 10 ^ k" "0 \<le> g" "g \<le> 9"
  shows "\<lfloor>(of_int (q * (10 * 10 ^ k) + (10 ^ k * g + rest)) :: rat) / 10 ^ Suc k + 1 / 2\<rfloor> = q + (if g \<ge> 5 then 1 else 0)"
proof -
  define F G :: rat where "F = of_int rest / 10 ^ k" and "G = of_int g"
  have "(of_int rest :: rat) < of_int (10 ^ k)" "(of_int 0 :: rat) \<le> of_int rest"
    using assms(1,2) by (simp_all only: of_int_less_iff of_int_le_iff)
  then have f: "0 \<le> F" "F < 1" by (simp_all add: F_def)
  have eq: "(of_int (q * (10 * 10 ^ k) + (10 ^ k * g + rest)) :: rat) / 10 ^ Suc k = of_int q + (G + F) / 10"
    by (simp add: F_def G_def field_simps)
  have g: "0 \<le> G" "G \<le> 9" "g \<ge> 5 \<Longrightarrow> G \<ge> 5" "\<not> g \<ge> 5 \<Longrightarrow> G \<le> 4"
    using assms(3,4) of_int_le_iff [of g 9, where 'a = rat] of_int_le_iff [of 5 g, where 'a = rat]
      of_int_le_iff [of g 4, where 'a = rat]
    by (simp_all add: G_def)
  show ?thesis unfolding eq by (cases "g \<ge> 5"; intro floor_unique; use f g in \<open>simp add: field_simps\<close>)
qed

lemma floor_half_up:
  fixes x :: int
  shows "\<lfloor>(of_int x :: rat) / 10 ^ Suc k + 1 / 2\<rfloor> = x div 10 ^ Suc k + (if x div 10 ^ k mod 10 \<ge> 5 then 1 else 0)"
proof -
  let ?M = "10 ^ k :: int"
  have "x mod (?M * 10) = ?M * (x div ?M mod 10) + x mod ?M" by (simp add: zmod_zmult2_eq)
  then have "x div 10 ^ Suc k * (10 * ?M) + (?M * (x div ?M mod 10) + x mod ?M) = x"
    using div_mult_mod_eq [of x "10 * ?M"] by (simp add: mult.commute)
  moreover have "x div ?M mod 10 \<le> 9" using pos_mod_bound [of 10 "x div ?M"] by simp
  ultimately show ?thesis
    using floor_half_up_parts [of "x mod ?M" k "x div ?M mod 10" "x div 10 ^ Suc k"] by simp
qed

text \<open>
  Rounding drops digits and then adds one unit of the last place kept when the first digit
  dropped is 5 or more, whatever the sign.
\<close>

lemma last_place_unit:
  assumes "0 < n"
  defines "u \<equiv> dec_of_text (''0.'' @ replicate (n - 1) (CHR ''0'') @ ''1'')"
  shows "dec_wf u" "dec_val u = 1 / 10 ^ n"
proof -
  let ?fp = "replicate (n - 1) (CHR ''0'') @ ''1''"
  have "digits ?fp" "digits ''0''" by (simp_all add: isdigit_def)
  then have u: "u = \<lparr>dec_source = rev (''0'' @ ?fp), dec_length = int (length ?fp), dec_sign = CHR ''+''\<rparr>"
    using dec_of_text_fraction [of "[]" "CHR ''+''" "''0''" ?fp] by (simp add: u_def sign_prefix_def)
  have one: "isdigit (CHR ''1'')" "char_to_int (CHR ''1'') = 1" by (simp_all add: isdigit_def char_to_int_def schar_def)
  show "dec_wf u" "dec_val u = 1 / 10 ^ n"
    using assms(1) by (simp_all add: u dec_wf_def dec_ok_def dec_val_def mag_def dval_append one)
qed

lemma dec_round_correct:
  assumes "dec_wf d" "unat p < 2 ^ 31" "int (unat p) < dec_length d"
  shows "dec_wf (dec_round d p)"
    and "dec_val (dec_round d p) = signed (dec_sign d) (of_int \<lfloor>mag d * 10 ^ unat p\<rfloor> / 10 ^ unat p)
      + of_int (\<lfloor>mag d * 10 ^ unat p + 1 / 2\<rfloor> - \<lfloor>mag d * 10 ^ unat p\<rfloor>) / 10 ^ unat p"
proof -
  note w = dec_wf_ok [OF assms(1)] and ok = dec_okD [OF dec_wf_ok [OF assms(1)]]
  define n where "n = unat p"
  note len = assms(3) [folded n_def] and sp = sint_small [OF assms(2), folded n_def]
  let ?x = "dval (dec_source d)"
  define k where "k = nat (dec_length d - int n - 1)"
  have k: "nat (dec_length d) = Suc k + n" "k < length (dec_source d)" using len ok(5) unfolding k_def by linarith+
  define lst where "lst = char_to_int (dec_source d ! k)"
  note c = cut_correct [OF w _ len]
  have X: "mag d * 10 ^ n = of_int ?x / 10 ^ Suc k" by (simp add: mag_def k(1) power_add)
  have up: "\<lfloor>mag d * 10 ^ n + 1 / 2\<rfloor> - \<lfloor>mag d * 10 ^ n\<rfloor> = (if lst \<ge> 5 then 1 else 0)"
    unfolding X floor_half_up floor_div_pow lst_def dval_nth [OF ok(2) k(2)] by simp
  have val: "dec_val (cut n d) = signed (dec_sign d) (of_int \<lfloor>mag d * 10 ^ n\<rfloor> / 10 ^ n)"
    using c by (simp add: dec_val_signed)
  have "dec_shorten (int n) (CHR 0x00, d) = (dec_source d ! k, cut n d)"
    using dec_shorten_eq [OF len w] by (simp add: cut_def k_def)
  then have eq: "dec_round d p = (if lst \<ge> 5 then
      if n \<noteq> 0 then dec_add (cut n d) (dec_of_text (''0.'' @ replicate (n - 1) (CHR ''0'') @ ''1''))
      else dec_inc (cut n d) else cut n d)"
    using len ok(1) by (auto simp: dec_round_def sp Let_def lst_def nat_diff_distrib)
  have "dec_wf (dec_round d p) \<and> dec_val (dec_round d p) = dec_val (cut n d) + (if lst \<ge> 5 then 1 else 0) / 10 ^ n"
    using dec_add_correct [OF c(2) last_place_unit(1)] last_place_unit(2) [of n] assms(1)
      dec_add_correct [OF c(2) dec_of_int_wf, of 1] c(2)
    unfolding eq by (auto simp: dec_inc_def dec_add_int_def)
  then show "dec_wf (dec_round d p)"
    "dec_val (dec_round d p) = signed (dec_sign d) (of_int \<lfloor>mag d * 10 ^ unat p\<rfloor> / 10 ^ unat p)
      + of_int (\<lfloor>mag d * 10 ^ unat p + 1 / 2\<rfloor> - \<lfloor>mag d * 10 ^ unat p\<rfloor>) / 10 ^ unat p"
    by (simp_all add: up val flip: n_def)
qed

section \<open>Machine integers\<close>

lemma parse_digits_rev: "parse_digits (rev t) = dval t"
  by (induction t) (simp_all add: parse_digits_def digit_value_def char_to_int_def)

lemma strto_parts_digits:
  assumes "digits s" "s \<noteq> []"
  shows "strto_parts s = (False, parse_digits s)" "strto_parts (CHR ''-'' # s) = (True, parse_digits s)"
proof -
  obtain c t where s: "s = c # t" using assms(2) by (cases s) auto
  have "takeWhile isdigit s = s" using assms(1) by (simp add: list_all_iff takeWhile_eq_all_conv)
  moreover have "\<not> isspace c" "c \<noteq> CHR ''-''" "c \<noteq> CHR ''+''" using assms(1) s isspace_not_digit by auto
  moreover have "\<not> isspace (CHR ''-'')" by (simp add: isspace_def)
  ultimately show "strto_parts s = (False, parse_digits s)" "strto_parts (CHR ''-'' # s) = (True, parse_digits s)"
    by (simp_all add: strto_parts_def s)
qed

lemma integer_digits:
  assumes "dec_ok d"
  shows "integer_loop (dec_source d) (dec_length d) (skip_zeros (dec_source d) 0 (dec_length d)) (length (dec_source d))
      = rev (drop (nat (dec_length d)) (dec_source d))"
    and "digits (rev (drop (nat (dec_length d)) (dec_source d)))"
    and "rev (drop (nat (dec_length d)) (dec_source d)) \<noteq> []"
    and "parse_digits (rev (drop (nat (dec_length d)) (dec_source d))) = \<lfloor>mag d\<rfloor>"
proof -
  note ok = dec_okD [OF assms]
  have off: "skip_zeros (dec_source d) 0 (dec_length d) = trailing d" by (simp add: skip_zeros_eq trailing_def)
  show "integer_loop (dec_source d) (dec_length d) (skip_zeros (dec_source d) 0 (dec_length d)) (length (dec_source d))
      = rev (drop (nat (dec_length d)) (dec_source d))"
    unfolding off by (subst integer_loop_eq) (use ok trailing_le [of d] in auto)
  show "digits (rev (drop (nat (dec_length d)) (dec_source d)))" using digits_slices ok(2) by auto
  show "rev (drop (nat (dec_length d)) (dec_source d)) \<noteq> []" using ok(4,5) by auto
  show "parse_digits (rev (drop (nat (dec_length d)) (dec_source d))) = \<lfloor>mag d\<rfloor>"
    using ok(4,5) by (simp add: parse_digits_rev dval_drop [OF ok(2)] mag_def floor_div_pow)
qed

lemma dec_to_int64_correct:
  assumes "dec_ok d"
  shows "sint (dec_to_int64 d) = max (- (2 ^ 63)) (min (2 ^ 63 - 1) (if dec_sign d = CHR ''-'' then - \<lfloor>mag d\<rfloor> else \<lfloor>mag d\<rfloor>))"
proof -
  note ok = dec_okD [OF assms] and i = integer_digits [OF assms]
  define v where "v = (if dec_sign d = CHR ''-'' then - \<lfloor>mag d\<rfloor> else \<lfloor>mag d\<rfloor>)"
  define w where "w = max (- (2 ^ 63)) (min (2 ^ 63 - 1) v)"
  have "dec_to_int64 d = word_of_int w"
    using ok(1,3) strto_parts_digits [OF i(2,3)]
    by (auto simp: dec_to_int64_def i strtoll_def w_def v_def)
  moreover have "signed_take_bit 63 w = w" by (intro signed_take_bit_int_eq_self) (auto simp: w_def)
  ultimately show ?thesis by (simp add: sint_uint uint_word_of_int_eq signed_take_bit_take_bit w_def v_def)
qed

lemma dec_to_uint64_correct:
  assumes "dec_ok d"
  shows "uint (dec_to_uint64 d) = min (2 ^ 64 - 1) \<lfloor>mag d\<rfloor>"
proof -
  note ok = dec_okD [OF assms] and i = integer_digits [OF assms]
  define v where "v = \<lfloor>mag d\<rfloor>"
  have "0 \<le> v" using mag_nonneg [OF assms] by (simp add: v_def)
  moreover have "dec_to_uint64 d = word_of_int (min (2 ^ 64 - 1) v)"
    using ok(1,3) strto_parts_digits [OF i(2,3)] unfolding i(4) v_def [symmetric]
    by (auto simp: dec_to_uint64_def i(1) strtoull_def min_def)
  ultimately show ?thesis unfolding v_def [symmetric] by (simp add: uint_word_of_int_eq take_bit_int_eq_self)
qed

section \<open>Other bases\<close>

lemma dec_from_correct:
  "dec_wf (dec_from s base) \<and> dec_val (dec_from s base) = of_int (foldl (\<lambda>v c. v * uint base + base_mapping c) 0 s)"
proof -
  have "dec_of_text ''0'' = dec_zero" using dec_of_text_integer [of "[]" "CHR ''+''" "''0''"]
    by (simp add: sign_prefix_def dec_zero_eq(2))
  then show ?thesis using dec.horner [of dec_zero "uint base" base_mapping s 0]
    by (simp add: dec_from_def Let_def)
qed

end
