(* ===== verification/Decimal_Division.thy ===== *)
theory Decimal_Division
  imports Decimal_Conv
begin

text \<open>
  Division and remainder of \<^verbatim>\<open>decimal\<close>.  The search for a digit of the quotient returns on
  every input it meets in a division by a non-zero number, and the long division is correct as
  long as the remainder has no leading zero.  It gets one when a partial remainder is 0, the
  next digit of the dividend is \<open>0\<close> and a later one is not: \<open>gap_free\<close> rules that out.
\<close>

section \<open>Integers as decimals\<close>

definition int_dec :: "decimal \<Rightarrow> int \<Rightarrow> bool" where
  "int_dec d n \<longleftrightarrow> dec_wf d \<and> dec_length d = 0 \<and> dec_sign d = CHR ''+'' \<and> dval (dec_source d) = n"

lemma int_decD:
  assumes "int_dec d n"
  shows "dec_wf d" "dec_val d = of_int n" "mag d = of_int n" "dec_length d = 0" "dec_sign d = CHR ''+''" "0 \<le> n"
    "digits (dec_source d)" "dec_source d \<noteq> []" "dval (dec_source d) = n" "\<not> is_nan d"
  using assms dval_nonneg [of "dec_source d"] dec_okD [of d] dec_wf_ok [of d]
  by (auto simp: int_dec_def dec_val_def mag_def)

lemma int_decI:
  assumes "dec_wf d" "dec_length d = 0" "dec_sign d = CHR ''+''" "dec_val d = of_int n"
  shows "int_dec d n"
  using assms by (simp add: int_dec_def dec_val_def mag_def)

lemma int_dec_compare: "int_dec a m \<Longrightarrow> int_dec b n \<Longrightarrow> compare_num a b = cmp m n"
  using compare_num_correct [of a b] int_decD(1,3) [of a m] int_decD(1,3) [of b n] by (simp add: cmp_def)

lemma dec_difference_length:
  assumes "dec_wf a" "dec_wf b" "dec_length a = dec_length b"
  shows "dec_length (dec_difference s t a b) = (if mag a = mag b then 0 else dec_length a)"
proof -
  have ul: "dec_length (dec_unlead d) = dec_length d" for d
    by (metis dec_unlead_cases select_convs(2) update_convs(1) surjective)
  show ?thesis
    using compare_num_correct [OF assms(1,2)]
    by (auto simp: dec_difference_def cmp_iff ul dec_zero_eq cmp_def)
qed

lemma int_dec_sub:
  assumes "int_dec a m" "int_dec b n" "n \<le> m"
  shows "int_dec (dec_sub a b) (m - n)"
proof -
  note a = int_decD [OF assms(1)] and b = int_decD [OF assms(2)]
  have eq: "dec_sub a b = dec_difference (CHR ''+'') (CHR ''-'') a b"
    using a(4,5,10) b(4,5,10) by (simp add: dec_sub_def)
  have len: "dec_length (dec_sub a b) = 0"
    using dec_difference_length [OF a(1) b(1)] a(4) b(4) by (simp add: eq)
  have c: "compare_num a b = cmp m n" by (rule int_dec_compare [OF assms(1,2)])
  have "dec_sign (dec_sub a b) = CHR ''+''"
    using subtract_magnitudes(3) [OF a(1) b(1), of "CHR ''+''" "dec_length a"] a(3,4) b(3,4) assms(3)
    by (auto simp: eq dec_difference_def c cmp_def dec_zero_eq)
  moreover have "dec_wf (dec_sub a b)" "dec_val (dec_sub a b) = of_int (m - n)"
    using dec_sub_correct [OF a(1) b(1)] a(2) b(2) by simp_all
  ultimately show ?thesis using len by (intro int_decI)
qed

lemma dec_of_int_sign: "0 \<le> n \<Longrightarrow> dec_sign (dec_of_int n) = CHR ''+''"
  using dec_of_int_val [of n] dec_okD(6) [OF dec_wf_ok [OF dec_of_int_wf [of n]]] mag_dec_of_int [of n]
  by (cases "n = 0") (auto simp: dec_zero_eq dec_val_def)

lemma int_dec_mul_int:
  assumes "int_dec a m" "0 \<le> n"
  shows "int_dec (dec_mul_int a n) (m * n)"
proof -
  note a = int_decD [OF assms(1)] and m = dec_mul_correct [OF int_decD(1) [OF assms(1)] dec_of_int_wf, of n]
  show ?thesis
    using m a(4,5) dec_of_int_sign [OF assms(2)] dec_mul_val [OF a(1) dec_of_int_wf, of n] a(2)
    by (intro int_decI) (simp_all add: dec_mul_int_def)
qed

section \<open>One digit of the quotient\<close>

lemma int_to_char_0 [simp]: "int_to_char 0 = CHR ''0''"
  by (simp add: int_to_char_def char_of_int_def char_of_def bit_0)

lemma half_up_bounds:
  "1 \<le> n \<Longrightarrow> 1 \<le> half_up n \<and> half_up n \<le> n \<and> (half_up n = n \<longrightarrow> n = 1)"
  unfolding half_up_def Let_def by (auto split: if_splits; presburger)

lemma digit_search_correct:
  assumes d: "int_dec d D" "0 < D"
  shows "int_dec r R \<Longrightarrow> 1 \<le> mx \<Longrightarrow> mx \<le> 9 \<Longrightarrow>
    \<exists>r'. digit_search d r qsub mx = Some (r', qsub + R div D) \<and> int_dec r' (R mod D)"
proof (induction "nat (R * 10 + mx)" arbitrary: r R qsub mx rule: less_induct)
  case less
  note r = int_decD [OF less.prems(1)] and dd = int_decD [OF d(1)]
  have ge: "dec_ge r d \<longleftrightarrow> D \<le> R" using dec_order_correct(3) [OF r(1) dd(1)] r(2) dd(2) by simp
  show ?case
  proof (cases "D \<le> R")
    case False
    then show ?thesis using less.prems(1) ge r(6) by (subst digit_search.simps) simp
  next
    case True
    define a where "a = half_up mx"
    have a: "1 \<le> a" "a \<le> mx" "a = mx \<longrightarrow> mx = 1" using half_up_bounds [OF less.prems(2)] by (auto simp: a_def)
    have m: "int_dec (dec_mul_int d a) (D * a)" using int_dec_mul_int [OF d(1)] a(1) by simp
    have cmp: "compare_num r (dec_mul_int d a) \<noteq> 2 \<longleftrightarrow> D * a \<le> R"
      using int_dec_compare [OF less.prems(1) m] by (simp add: cmp_iff not_less)
    show ?thesis
    proof (cases "D * a \<le> R")
      case sub: True
      have Da: "1 \<le> D * a" using d(2) a(1) mult_mono [of 1 D 1 a] by simp
      have "\<exists>r'. digit_search d (dec_sub r (dec_mul_int d a)) (qsub + a) 9
          = Some (r', qsub + a + (R - D * a) div D) \<and> int_dec r' ((R - D * a) mod D)"
        using int_dec_sub [OF less.prems(1) m sub] Da sub less.prems(2) by (intro less.hyps) auto
      moreover have "(R - D * a) div D = R div D - a" "(R - D * a) mod D = R mod D"
        using d(2) div_mult_self1 [of D R "- a"] mod_mult_self1 [of R "- a" D] by (simp_all add: algebra_simps)
      ultimately show ?thesis using True ge cmp sub
        by (subst digit_search.simps) (simp add: a_def [symmetric])
    next
      case False
      then have "a \<noteq> 1" using True by auto
      then have "a < mx" using a by auto
      then have "\<exists>r'. digit_search d r qsub a = Some (r', qsub + R div D) \<and> int_dec r' (R mod D)"
        using less.prems a r(6) by (intro less.hyps) auto
      then show ?thesis using True False ge cmp
        by (subst digit_search.simps) (simp add: a_def [symmetric])
    qed
  qed
qed

section \<open>Long division\<close>

text \<open>
  The digits of the dividend, most significant first, behind a partial remainder \<open>R\<close>: no zero
  digit follows a zero remainder, unless only zeros are left.
\<close>

fun gap_free :: "int \<Rightarrow> int \<Rightarrow> string \<Rightarrow> bool" where
  "gap_free D R [] = True"
| "gap_free D R (c # n) =
     (if R = 0 \<and> c = CHR ''0'' then list_all (\<lambda>c. c = CHR ''0'') n
      else gap_free D ((10 * R + char_to_int c) mod D) n)"

text \<open>The remainder between two digits: positive and normalised, or 0 and empty.\<close>

definition rem_ok :: "decimal \<Rightarrow> int \<Rightarrow> bool" where
  "rem_ok r R \<longleftrightarrow> (if R = 0 then r = \<lparr>dec_source = [], dec_length = 0, dec_sign = CHR ''+''\<rparr> else int_dec r R)"

lemma rem_push:
  assumes "rem_ok r R" "isdigit c" "0 \<le> R"
  shows "int_dec (r\<lparr>dec_source := c # dec_source r\<rparr>) (10 * R + char_to_int c)"
proof (cases "R = 0")
  case True
  then show ?thesis using assms by (simp add: rem_ok_def int_dec_def dec_wf_def dec_ok_def)
next
  case False
  then have r: "int_dec r R" using assms(1) by (simp add: rem_ok_def)
  have "last (dec_source r) \<noteq> CHR ''0''"
  proof (cases "int (length (dec_source r)) = dec_length r + 1")
    case True
    then have "length (dec_source r) = 1" using int_decD(4) [OF r] by simp
    then have "dec_source r = [last (dec_source r)]" by (cases "dec_source r") auto
    then have "dval (dec_source r) = char_to_int (last (dec_source r))" by (metis add.right_neutral dval.simps mult_zero_right)
    with False int_decD(9) [OF r] show ?thesis by auto
  next
    case F: False
    then show ?thesis using int_decD(1) [OF r] by (simp add: dec_wf_def)
  qed
  then show ?thesis using r assms(2) int_decD(8) [OF r]
    by (auto simp: int_dec_def dec_wf_def dec_ok_def)
qed

lemma divide_digit_correct:
  assumes d: "int_dec d D" "0 < D" and r: "rem_ok r R" "0 \<le> R" "R < D" and c: "isdigit c" "R \<noteq> 0 \<or> c \<noteq> CHR ''0''"
  shows "\<exists>r' s. divide_digit d c (r, q) = Some (r', int_to_char ((10 * R + char_to_int c) div D) # q, s)
    \<and> rem_ok r' ((10 * R + char_to_int c) mod D) \<and> int_dec s ((10 * R + char_to_int c) mod D)"
proof -
  let ?r = "r\<lparr>dec_source := c # dec_source r\<rparr>" and ?R = "10 * R + char_to_int c"
  have i: "int_dec ?r ?R" by (rule rem_push [OF r(1) c(1) r(2)])
  have pos: "0 < ?R" using r(2) c char_to_int_range [OF c(1)] char_to_int_eq_0 [OF c(1)] by auto
  have ge: "dec_ge ?r d \<longleftrightarrow> D \<le> ?R"
    using dec_order_correct(3) [OF int_decD(1) [OF i] int_decD(1) [OF d(1)]] int_decD(2) [OF i] int_decD(2) [OF d(1)]
    by (simp del: of_int_add of_int_mult add: of_int_le_iff)
  have zero: "dec_is_zero x \<longleftrightarrow> n = 0" if "int_dec x n" for x n
    using mag_eq_0 [OF dec_wf_ok [OF int_decD(1) [OF that]]] int_decD(3) [OF that] by simp
  show ?thesis
  proof (cases "D \<le> ?R")
    case True
    obtain s where s: "digit_search d ?r 0 9 = Some (s, ?R div D)" "int_dec s (?R mod D)"
      using digit_search_correct [OF d i, of 9 0] by auto
    have "rem_ok (if dec_is_zero s then s\<lparr>dec_source := []\<rparr> else s) (?R mod D)"
      using s(2) zero [OF s(2)] int_decD(4,5) [OF s(2)] by (auto simp: rem_ok_def)
    then show ?thesis using True ge zero [OF i] pos s by (simp add: divide_digit_def)
  next
    case False
    then show ?thesis using ge i pos by (simp add: divide_digit_def rem_ok_def Let_def)
  qed
qed

text \<open>A remainder of zeros meets only zeros.\<close>

lemma divide_loop_zeros:
  assumes "int_dec d D" "0 < D"
  shows "list_all (\<lambda>c. c = CHR ''0'') n \<Longrightarrow> dec_source r = replicate k (CHR ''0'') \<Longrightarrow>
    \<exists>r' s. divide_loop d n (r, q, res) = Some (r', replicate (length n) (CHR ''0'') @ q, s)
      \<and> (if n = [] then s = res else s = r\<lparr>dec_source := replicate (k + length n) (CHR ''0'')\<rparr>)"
proof (induction n arbitrary: r q res k)
  case (Cons c n)
  let ?r = "r\<lparr>dec_source := c # dec_source r\<rparr>"
  have "dec_source ?r = replicate (Suc k) (CHR ''0'')" using Cons.prems by simp
  moreover from this have "divide_digit d c (r, q) = Some (?r, CHR ''0'' # q, ?r)"
    using Cons.prems by (simp add: divide_digit_def dec_is_zero_def list_all_iff Let_def)
  ultimately show ?case using Cons.IH [of ?r "Suc k" "CHR ''0'' # q" ?r] Cons.prems(1)
    by (auto simp: replicate_app_Cons_same split: if_splits)
qed simp

lemma times_div_mod: "(m::int) * x + y = (m * (x mod k) + y) + (m * (x div k)) * k"
proof -
  have "m * x = m * (x div k * k + x mod k)" by simp
  then show ?thesis by (simp only: distrib_left mult.assoc)
qed

lemma divide_loop_correct:
  assumes d: "int_dec d D" "0 < D"
  shows "\<lbrakk>rem_ok r R; 0 \<le> R; R < D; digits n; gap_free D R n; n \<noteq> []\<rbrakk> \<Longrightarrow>
    \<exists>r' q' s. divide_loop d n (r, q, res) = Some (r', q' @ q, s) \<and> length q' = length n \<and> digits q'
      \<and> dval q' = (10 ^ length n * R + dval (rev n)) div D \<and> digits (dec_source s) \<and> dec_source s \<noteq> []
      \<and> dval (dec_source s) = (10 ^ length n * R + dval (rev n)) mod D \<and> dec_length s = 0 \<and> dec_sign s = CHR ''+''"
proof (induction n arbitrary: r R q res)
  case (Cons c n)
  let ?R = "10 * R + char_to_int c"
  define X where "X = dval (rev n)"
  have c: "isdigit c" and n: "digits n" using Cons.prems(4) by auto
  have X: "0 \<le> X" "X < 10 ^ length n" using dval_bounds [of "rev n"] n by (auto simp: X_def)
  have val: "10 ^ length (c # n) * R + dval (rev (c # n)) = 10 ^ length n * ?R + X"
    by (simp add: dval_append X_def algebra_simps)
  show ?case
  proof (cases "R = 0 \<and> c = CHR ''0''")
    case True
    then have z: "list_all (\<lambda>c. c = CHR ''0'') (c # n)" using Cons.prems(5) by simp
    then have "X = 0" using dval_eq_0 [of "rev n"] n by (simp add: X_def)
    then have v: "10 ^ length (c # n) * R + dval (rev (c # n)) = 0" using True unfolding val by simp
    have "dec_source r = replicate 0 (CHR ''0'')" "dec_length r = 0" "dec_sign r = CHR ''+''"
      using Cons.prems(1) True by (auto simp: rem_ok_def)
    with divide_loop_zeros [OF d z, of r 0 q res] show ?thesis unfolding v
      by (auto intro!: exI [of _ "replicate (length (c # n)) (CHR ''0'')"])
  next
    case False
    obtain r' s where step: "divide_digit d c (r, q) = Some (r', int_to_char (?R div D) # q, s)"
      "rem_ok r' (?R mod D)" "int_dec s (?R mod D)"
      using divide_digit_correct [OF d Cons.prems(1-3) c] False by blast
    have q: "0 \<le> ?R div D" "?R div D \<le> 9"
    proof -
      have "?R < 10 * D" using Cons.prems(2,3) char_to_int_range [OF c] by linarith
      moreover have "10 * D \<le> ?R div D * D" if "10 \<le> ?R div D" using mult_right_mono [OF that, of D] d(2) by simp
      moreover have "?R div D * D \<le> ?R" using div_mult_mod_eq [of ?R D] pos_mod_sign [OF d(2), of ?R] by linarith
      ultimately have "?R div D < 10" by linarith
      then show "0 \<le> ?R div D" "?R div D \<le> 9" using Cons.prems(2) char_to_int_range [OF c] d(2)
        by (simp_all add: pos_imp_zdiv_nonneg_iff)
    qed
    show ?thesis
    proof (cases "n = []")
      case True
      then show ?thesis using step q int_decD [OF step(3)] unfolding val
        by (intro exI [of _ r'] exI [of _ "[int_to_char (?R div D)]"] exI [of _ s]) (simp add: X_def)
    next
      case ne: False
      have "0 \<le> ?R mod D" "?R mod D < D" using d(2) by simp_all
      moreover have "gap_free D (?R mod D) n" using Cons.prems(5) False by simp
      ultimately obtain r2 q2 s2 where IH:
        "divide_loop d n (r', int_to_char (?R div D) # q, s) = Some (r2, q2 @ int_to_char (?R div D) # q, s2)"
        "length q2 = length n" "digits q2" "dval q2 = (10 ^ length n * (?R mod D) + X) div D"
        "digits (dec_source s2)" "dec_source s2 \<noteq> []" "dval (dec_source s2) = (10 ^ length n * (?R mod D) + X) mod D"
        "dec_length s2 = 0" "dec_sign s2 = CHR ''+''"
        using Cons.IH [OF step(2) _ _ n _ ne] unfolding X_def by blast
      have split: "10 ^ length n * ?R + X = (10 ^ length n * (?R mod D) + X) + (10 ^ length n * (?R div D)) * D"
        by (rule times_div_mod)
      have "dval (q2 @ [int_to_char (?R div D)]) = (10 ^ length n * ?R + X) div D"
        "(10 ^ length n * (?R mod D) + X) mod D = (10 ^ length n * ?R + X) mod D"
        unfolding split using d(2) q by (simp_all add: dval_append IH(2,4))
      then show ?thesis unfolding val using IH step(1) q
        by (intro exI [of _ r2] exI [of _ "q2 @ [int_to_char (?R div D)]"] exI [of _ s2]) simp
    qed
  qed
qed simp

text \<open>A normalised digit string is the printed number.\<close>

lemma nat_digits_unique:
  "digits s \<Longrightarrow> s \<noteq> [] \<Longrightarrow> length s = 1 \<or> last s \<noteq> CHR ''0'' \<Longrightarrow> s = nat_digits_rev (nat (dval s))"
proof (induction s)
  case (Cons c s)
  have c: "isdigit c" "0 \<le> char_to_int c" "char_to_int c \<le> 9" using Cons.prems(1) char_to_int_range by auto
  have ch: "char_of_int (48 + char_to_int c) = c"
  proof -
    have "isdigit (char_of_int (48 + char_to_int c))" "schar (char_of_int (48 + char_to_int c)) = schar c"
      using isdigit_char_of_int [OF c(2,3)] schar_char_of_int [OF c(2,3)] by (simp_all add: char_to_int_def)
    then show ?thesis using isdigit_inject c(1) by blast
  qed
  show ?case
  proof (cases s)
    case Nil
    then show ?thesis using c ch by (subst nat_digits_rev.simps) (simp add: nat_less_iff)
  next
    case (Cons x xs)
    then have s: "s \<noteq> []" "digits s" "last s \<noteq> CHR ''0''" using Cons.prems by auto
    have "10 ^ (length s - 1) \<le> dval s" using dval_last [OF s(2,1)] s(3) by simp
    then have pos: "1 \<le> dval s" by (metis one_le_numeral one_le_power order_trans)
    have n: "nat (dval (c # s)) = nat (char_to_int c) + 10 * nat (dval s)" using pos c by (simp add: nat_add_distrib nat_mult_distrib)
    have "\<not> nat (char_to_int c) + 10 * nat (dval s) < 10" using pos by linarith
    then have "nat_digits_rev (nat (dval (c # s))) = char_of_int (48 + char_to_int c) # nat_digits_rev (nat (dval s))"
      unfolding n using c pos by (subst nat_digits_rev.simps) (simp add: nat_less_iff)
    then show ?thesis using Cons.IH [OF s(2,1)] s(3) ch by simp
  qed
qed simp

section \<open>Division\<close>

lemma scale_loop_returns:
  "dec_length n = int a \<Longrightarrow> dec_length d = int b \<Longrightarrow> m = max a b \<Longrightarrow>
   scale_loop n d = Some (n\<lparr>dec_length := 0, dec_source := replicate (m - a) (CHR ''0'') @ dec_source n\<rparr>,
                          d\<lparr>dec_length := 0, dec_source := replicate (m - b) (CHR ''0'') @ dec_source d\<rparr>)"
proof (induction m arbitrary: n d a b)
  case 0
  then show ?case by (subst scale_loop.simps) simp
next
  case (Suc m)
  define n1 where "n1 = (if dec_length n = 0 then n\<lparr>dec_source := CHR ''0'' # dec_source n\<rparr> else n\<lparr>dec_length := dec_length n - 1\<rparr>)"
  define d1 where "d1 = (if dec_length d = 0 then d\<lparr>dec_source := CHR ''0'' # dec_source d\<rparr> else d\<lparr>dec_length := dec_length d - 1\<rparr>)"
  have "scale_loop n d = scale_loop n1 d1"
    using Suc.prems by (subst scale_loop.simps) (auto simp: n1_def d1_def max_def split: if_splits)
  also have "\<dots> = Some (n1\<lparr>dec_length := 0, dec_source := replicate (m - (a - 1)) (CHR ''0'') @ dec_source n1\<rparr>,
      d1\<lparr>dec_length := 0, dec_source := replicate (m - (b - 1)) (CHR ''0'') @ dec_source d1\<rparr>)"
    using Suc.prems by (intro Suc.IH) (auto simp: n1_def d1_def)
  also have "\<dots> = Some (n\<lparr>dec_length := 0, dec_source := replicate (Suc m - a) (CHR ''0'') @ dec_source n\<rparr>,
                          d\<lparr>dec_length := 0, dec_source := replicate (Suc m - b) (CHR ''0'') @ dec_source d\<rparr>)"
    using Suc.prems by (auto simp: n1_def d1_def replicate_app_Cons_same)
  finally show ?case .
qed

lemma dec_magnitude_correct:
  assumes "dec_wf x"
  shows "dec_wf (dec_magnitude x)" "mag (dec_magnitude x) = mag x" "dec_length (dec_magnitude x) = dec_length x"
    "mag x \<noteq> 0 \<or> dec_sign x = CHR ''-'' \<Longrightarrow> dec_sign (dec_magnitude x) = CHR ''+''"
proof -
  note ok = dec_okD [OF dec_wf_ok [OF assms]]
  have gt: "dec_gt x (dec_of_int 0) \<longleftrightarrow> 0 < dec_val x"
    using dec_order_correct(1) [OF assms dec_of_int_wf, of 0] by simp
  have m1: "dec_sign (dec_of_int (- 1)) = CHR ''-''"
    using dec_of_int_val [of "- 1"] dec_okD(6) [OF dec_wf_ok [OF dec_of_int_wf [of "- 1"]]] mag_dec_of_int [of "- 1"]
    by (auto simp: dec_val_def)
  note mul = dec_mul_correct [OF assms dec_of_int_wf, of "- 1"]
  show "dec_wf (dec_magnitude x)" "mag (dec_magnitude x) = mag x" "dec_length (dec_magnitude x) = dec_length x"
    using assms mul by (simp_all add: dec_magnitude_def dec_mul_int_def)
  show "dec_sign (dec_magnitude x) = CHR ''+''" if "mag x \<noteq> 0 \<or> dec_sign x = CHR ''-''"
    using that mul(3) m1 ok(6) mag_nonneg [OF dec_wf_ok [OF assms]]
    by (auto simp: dec_magnitude_def gt dec_mul_int_def dec_val_def)
qed

text \<open>The scaled operand: an integer decimal with the digits of the magnitude times \<open>10 ^ m\<close>.\<close>

lemma scaled_operand:
  assumes "dec_wf x" "dec_length x = int a" "a \<le> m"
  defines "y \<equiv> dec_unlead (x\<lparr>dec_length := 0, dec_source := replicate (m - a) (CHR ''0'') @ dec_source x\<rparr>)"
  shows "dec_wf y" "dec_length y = 0" "dec_sign y = dec_sign x" "of_int (dval (dec_source y)) = mag x * 10 ^ m"
proof -
  let ?x = "x\<lparr>dec_length := 0, dec_source := replicate (m - a) (CHR ''0'') @ dec_source x\<rparr>"
  have ok: "dec_ok ?x" using dec_wf_ok [OF assms(1)] by (auto simp: dec_ok_def)
  have "(10::rat) ^ m = 10 ^ a * 10 ^ (m - a)" using assms(3) by (metis le_add_diff_inverse power_add)
  then have "of_int (dval (dec_source ?x)) = mag x * 10 ^ m"
    using assms(2) by (simp add: mag_def dval_append)
  then show "dec_wf y" "dec_length y = 0" "dec_sign y = dec_sign x" "of_int (dval (dec_source y)) = mag x * 10 ^ m"
    using dec_unlead_correct [OF ok] by (simp_all add: y_def)
qed

lemma dec_div_unfold:
  assumes l: "dec_wf l" and r: "dec_wf r" "mag r \<noteq> 0 \<or> dec_sign r = CHR ''-''" and m: "m = nat (max (dec_length l) (dec_length r))"
  obtains n d where "int_dec d \<lfloor>mag r * 10 ^ m\<rfloor>" "dec_wf n" "dec_length n = 0" "of_int (dval (dec_source n)) = mag l * 10 ^ m"
    "of_int \<lfloor>mag r * 10 ^ m\<rfloor> = mag r * 10 ^ m"
    "dec_div l r = (let n = n\<lparr>dec_source := replicate m (CHR ''0'') @ dec_source n\<rparr> in
       if compare_num n d = 2 then Some (dec_of_int 0)
       else map_option (\<lambda>(r', q, _). dec_unlead (dec_nan\<lparr>dec_source := q, dec_sign := sign_of_result l r, dec_length := int m\<rparr>))
         (divide_loop d (rev (dec_source n)) (dec_nan\<lparr>dec_sign := CHR ''+''\<rparr>, [], dec_nan)))"
proof -
  note okl = dec_okD [OF dec_wf_ok [OF l]] and okr = dec_okD [OF dec_wf_ok [OF r(1)]]
  define a b where "a = nat (dec_length l)" and "b = nat (dec_length r)"
  have ab: "dec_length l = int a" "dec_length r = int b" "m = max a b" using okl(4) okr(4) m by (auto simp: a_def b_def)
  note nl = dec_magnitude_correct [OF l] and nr = dec_magnitude_correct [OF r(1)]
  define n d where "n = dec_unlead ((dec_magnitude l)\<lparr>dec_length := 0, dec_source := replicate (m - a) (CHR ''0'') @ dec_source (dec_magnitude l)\<rparr>)"
    and "d = dec_unlead ((dec_magnitude r)\<lparr>dec_length := 0, dec_source := replicate (m - b) (CHR ''0'') @ dec_source (dec_magnitude r)\<rparr>)"
  have sn: "dec_wf n" "dec_length n = 0" "of_int (dval (dec_source n)) = mag l * 10 ^ m"
    using scaled_operand [OF nl(1), of a m, folded n_def] nl(2,3) ab by simp_all
  have sd: "dec_wf d" "dec_length d = 0" "dec_sign d = CHR ''+''" "of_int (dval (dec_source d)) = mag r * 10 ^ m"
    using scaled_operand [OF nr(1), of b m, folded d_def] nr(2-4) r(2) ab by simp_all
  then have fl: "\<lfloor>mag r * 10 ^ m\<rfloor> = dval (dec_source d)" by (metis floor_of_int)
  have "scale_loop (dec_magnitude l) (dec_magnitude r)
      = Some ((dec_magnitude l)\<lparr>dec_length := 0, dec_source := replicate (m - a) (CHR ''0'') @ dec_source (dec_magnitude l)\<rparr>,
              (dec_magnitude r)\<lparr>dec_length := 0, dec_source := replicate (m - b) (CHR ''0'') @ dec_source (dec_magnitude r)\<rparr>)"
    using nl(3) nr(3) ab by (intro scale_loop_returns) simp_all
  moreover have "\<not> dec_eq r (dec_of_int 0)"
    using dec_order_correct(5) [OF r(1) dec_of_int_wf, of 0] r(2) dec_of_int_sign [of 0] by (auto simp: dec_val_def)
  moreover have "(if dec_length r < dec_length l then dec_length l else dec_length r) = int m" using ab by auto
  ultimately have "dec_div l r = (let n = n\<lparr>dec_source := replicate m (CHR ''0'') @ dec_source n\<rparr> in
       if compare_num n d = 2 then Some (dec_of_int 0)
       else map_option (\<lambda>(r', q, _). dec_unlead (dec_nan\<lparr>dec_source := q, dec_sign := sign_of_result l r, dec_length := int m\<rparr>))
         (divide_loop d (rev (dec_source n)) (dec_nan\<lparr>dec_sign := CHR ''+''\<rparr>, [], dec_nan)))"
    using okl(1) okr(1) by (simp add: dec_div_def Let_def n_def d_def)
  moreover have "int_dec d \<lfloor>mag r * 10 ^ m\<rfloor>" using sd fl by (simp add: int_dec_def)
  moreover have "of_int \<lfloor>mag r * 10 ^ m\<rfloor> = mag r * 10 ^ m" using fl sd(4) by simp
  ultimately show ?thesis using that sn by blast
qed

lemma padded_digits:
  assumes "dec_wf n" "dec_length n = 0" "0 < dval (dec_source n)"
  shows "rev (replicate m (CHR ''0'') @ dec_source n) = to_chars (dval (dec_source n) * 10 ^ m)"
    and "dec_wf (n\<lparr>dec_source := replicate m (CHR ''0'') @ dec_source n\<rparr>)"
    and "last (replicate m (CHR ''0'') @ dec_source n) \<noteq> CHR ''0''"
proof -
  note ok = dec_okD [OF dec_wf_ok [OF assms(1)]]
  let ?s = "replicate m (CHR ''0'') @ dec_source n"
  have "last (dec_source n) \<noteq> CHR ''0''"
  proof (cases "length (dec_source n) = 1")
    case True
    then obtain c where "dec_source n = [c]" by (auto simp: length_Suc_conv)
    then show ?thesis using assms(3) by auto
  qed (use assms(1,2) in \<open>auto simp: dec_wf_def\<close>)
  then have s: "digits ?s" "?s \<noteq> []" "last ?s \<noteq> CHR ''0''" using ok(2,3) by auto
  show "last ?s \<noteq> CHR ''0''" by (rule s(3))
  have v: "dval ?s = dval (dec_source n) * 10 ^ m" by (simp add: dval_append)
  have "\<not> dval (dec_source n) * 10 ^ m < 0" using dval_nonneg [OF s(1)] v by simp
  with nat_digits_unique [OF s(1,2)] s(3) show "rev ?s = to_chars (dval (dec_source n) * 10 ^ m)"
    by (simp add: to_chars_def v)
  show "dec_wf (n\<lparr>dec_source := ?s\<rparr>)" using dec_wf_ok [OF assms(1)] s assms(2) ok(5)
    by (auto simp: dec_wf_def dec_ok_def add_nonneg_pos)
qed

lemma gap_free_zeros: "list_all (\<lambda>c. c = CHR ''0'') n \<Longrightarrow> gap_free D 0 n"
  by (cases n) auto

lemma dec_div_correct:
  assumes l: "dec_wf l" and r: "dec_wf r" "mag r \<noteq> 0" and m: "m = nat (max (dec_length l) (dec_length r))"
    and gap: "gap_free \<lfloor>mag r * 10 ^ m\<rfloor> 0 (to_chars \<lfloor>mag l * 10 ^ (2 * m)\<rfloor>)"
  shows "\<exists>q. dec_div l r = Some q \<and> dec_wf q
    \<and> dec_val q = signed (sign_of_result l r) (of_int \<lfloor>mag l / mag r * 10 ^ m\<rfloor> / 10 ^ m)"
proof -
  obtain n d where d: "int_dec d \<lfloor>mag r * 10 ^ m\<rfloor>" and n: "dec_wf n" "dec_length n = 0" "of_int (dval (dec_source n)) = mag l * 10 ^ m"
    and D: "of_int \<lfloor>mag r * 10 ^ m\<rfloor> = mag r * 10 ^ m"
    and eq: "dec_div l r = (let n = n\<lparr>dec_source := replicate m (CHR ''0'') @ dec_source n\<rparr> in
       if compare_num n d = 2 then Some (dec_of_int 0)
       else map_option (\<lambda>(r', q, _). dec_unlead (dec_nan\<lparr>dec_source := q, dec_sign := sign_of_result l r, dec_length := int m\<rparr>))
         (divide_loop d (rev (dec_source n)) (dec_nan\<lparr>dec_sign := CHR ''+''\<rparr>, [], dec_nan)))"
    using dec_div_unfold [OF l r(1) _ m] r(2) by metis
  define D' where "D' = \<lfloor>mag r * 10 ^ m\<rfloor>"
  let ?n = "n\<lparr>dec_source := replicate m (CHR ''0'') @ dec_source n\<rparr>" and ?s = "replicate m (CHR ''0'') @ dec_source n"
  note okn = dec_okD [OF dec_wf_ok [OF n(1)]]
  have "D' \<noteq> 0" using D r(2) by (auto simp: D'_def)
  moreover have "0 \<le> D'" unfolding D'_def by (rule int_decD(6) [OF d])
  ultimately have Dpos: "0 < D'" by simp
  have N: "(of_int (dval ?s) :: rat) = mag l * 10 ^ m * 10 ^ m" using n(3) by (simp add: dval_append)
  then have N': "\<lfloor>mag l * 10 ^ (2 * m)\<rfloor> = dval ?s" by (metis floor_of_int mult.assoc mult_2 power_add)
  have ds: "digits ?s" "?s \<noteq> []" using okn by auto
  have "dval ?s div D' = \<lfloor>(of_int (dval ?s) :: rat) / of_int D'\<rfloor>" by (simp add: floor_divide_of_int_eq)
  also have "(of_int (dval ?s) :: rat) / of_int D' = mag l / mag r * 10 ^ m" unfolding N D'_def D using r(2) by simp
  finally have Q: "dval ?s div D' = \<lfloor>mag l / mag r * 10 ^ m\<rfloor>" .
  have z: "gap_free D' 0 (rev ?s) \<and> (compare_num ?n d = 2 \<longrightarrow> dval ?s < D')"
  proof (cases "dval (dec_source n) = 0")
    case True
    then have "dval ?s = 0" by (simp add: dval_append)
    then show ?thesis using dval_eq_0 [OF ds(1)] Dpos gap_free_zeros [of "rev ?s"] by simp
  next
    case False
    then have p: "0 < dval (dec_source n)" using dval_nonneg [OF okn(2)] by simp
    note pd = padded_digits [OF n(1,2) p, of m]
    have "compare_num ?n d = cmp (mag ?n) (mag d)" using compare_num_correct [OF pd(2) int_decD(1) [OF d]] .
    moreover have "mag ?n = of_int (dval ?s)" using n(2) by (simp add: mag_def)
    ultimately show ?thesis using gap N' int_decD(3) [OF d] pd(1)
      by (simp add: cmp_iff D'_def dval_append mult.commute del: rev_append of_int_mult of_int_power)
  qed
  show ?thesis
  proof (cases "compare_num ?n d = 2")
    case True
    then have "\<lfloor>mag l / mag r * 10 ^ m\<rfloor> = 0" using z dval_nonneg [OF ds(1)]
      unfolding Q [symmetric] by (intro div_pos_pos_trivial) auto
    then show ?thesis using True by (simp add: eq signed_def)
  next
    case False
    have ok0: "rem_ok (dec_nan\<lparr>dec_sign := CHR ''+''\<rparr>) 0" by (simp add: rem_ok_def dec_nan_def)
    obtain r' q s where loop: "divide_loop d (rev ?s) (dec_nan\<lparr>dec_sign := CHR ''+''\<rparr>, [], dec_nan) = Some (r', q, s)"
      "length q = length ?s" "digits q" "dval q = dval ?s div D'"
      using divide_loop_correct [OF d [folded D'_def] Dpos ok0 _ Dpos, of "rev ?s" "[]" dec_nan] z ds by auto
    let ?q = "dec_nan\<lparr>dec_source := q, dec_sign := sign_of_result l r, dec_length := int m\<rparr>"
    have "dec_ok ?q" using loop(2,3) ds(2) okn(3) by (auto simp: dec_ok_def sign_of_result_def)
    note ul = dec_unlead_correct [OF this]
    have "mag ?q = of_int \<lfloor>mag l / mag r * 10 ^ m\<rfloor> / 10 ^ m" by (simp add: mag_def loop(4) Q)
    then show ?thesis using False ul loop(1) by (simp add: eq dec_val_signed)
  qed
qed

section \<open>Remainder\<close>

lemma dec_mod_correct:
  assumes l: "dec_wf l" "dec_length l = 0" and r: "dec_wf r" "dec_length r = 0" "mag r \<noteq> 0"
    and gap: "gap_free \<lfloor>mag r\<rfloor> 0 (to_chars \<lfloor>mag l\<rfloor>)"
  shows "\<exists>q. dec_mod l r = Some q \<and> dec_wf q \<and> dec_length q = 0 \<and> mag q = of_int (\<lfloor>mag l\<rfloor> mod \<lfloor>mag r\<rfloor>)
    \<and> dec_val q = (if mag l < mag r then dec_val l else signed (sign_of_result l r) (of_int (\<lfloor>mag l\<rfloor> mod \<lfloor>mag r\<rfloor>)))"
proof -
  note okl = dec_okD [OF dec_wf_ok [OF l(1)]] and okr = dec_okD [OF dec_wf_ok [OF r(1)]]
  define n d where "n = dec_magnitude l" and "d = dec_magnitude r"
  define N D where "N = dval (dec_source n)" and "D = dval (dec_source d)"
  note nl = dec_magnitude_correct [OF l(1), folded n_def] and nr = dec_magnitude_correct [OF r(1), folded d_def]
  have N: "mag l = of_int N" "\<lfloor>mag l\<rfloor> = N" and D: "mag r = of_int D" "\<lfloor>mag r\<rfloor> = D"
    using floor_of_int [of N, where 'a = rat] floor_of_int [of D, where 'a = rat] nl(2,3) nr(2,3) l(2) r(2)
    by (simp_all add: mag_def [of n] mag_def [of d] N_def D_def del: floor_of_int)
  have d: "int_dec d D" using nr r(2,3) by (simp add: int_dec_def D_def)
  have D0: "0 < D" using int_decD(6) [OF d] r(3) D(1) by (cases "D = 0") auto
  have N0: "0 \<le> N" using dval_nonneg [OF dec_okD(2) [OF dec_wf_ok [OF nl(1)]]] by (simp add: N_def)
  have c: "compare_num n d = cmp N D"
    using compare_num_correct [OF nl(1) nr(1)] nl(2) nr(2) N D by (simp add: cmp_def)
  have ne: "\<not> dec_eq r (dec_of_int 0)"
    using dec_order_correct(5) [OF r(1) dec_of_int_wf, of 0] r(3) by (auto simp: dec_val_def)
  have unf: "dec_mod l r = (if N = D then Some (dec_of_int 0) else if N < D then Some l
     else map_option (\<lambda>(r', q, result).
                  let temp = (dec_unlead result)\<lparr>dec_sign := sign_of_result l r\<rparr>
                  in if compare_num temp (dec_of_int 0) = 0 then temp\<lparr>dec_sign := CHR ''+''\<rparr> else temp)
               (divide_loop d (rev (dec_source n)) (dec_nan\<lparr>dec_sign := CHR ''+''\<rparr>, [], dec_nan)))"
    using okl(1) okr(1) l(2) r(2) ne c by (auto simp: dec_mod_def n_def [symmetric] d_def [symmetric] Let_def cmp_iff)
  consider "N = D" | "N < D" | "D < N" by linarith
  then show ?thesis
  proof cases
    case 1
    then show ?thesis using D0 by (simp add: unf N D signed_def)
  next
    case 2
    then show ?thesis using l N0 by (simp add: unf N D)
  next
    case 3
    have src: "rev (dec_source n) = to_chars N"
      using padded_digits(1) [OF nl(1), of 0] nl(3) l(2) D0 3 by (simp add: N_def)
    have ok0: "rem_ok (dec_nan\<lparr>dec_sign := CHR ''+''\<rparr>) 0" by (simp add: rem_ok_def dec_nan_def)
    note okn = dec_okD [OF dec_wf_ok [OF nl(1)]]
    have gap': "gap_free D 0 (rev (dec_source n))" using gap src N D by simp
    obtain r' q s where loop: "divide_loop d (rev (dec_source n)) (dec_nan\<lparr>dec_sign := CHR ''+''\<rparr>, [], dec_nan) = Some (r', q, s)"
      "digits (dec_source s)" "dec_source s \<noteq> []" "dval (dec_source s) = N mod D" "dec_length s = 0" "dec_sign s = CHR ''+''"
      using divide_loop_correct [OF d D0 ok0 _ D0, of "rev (dec_source n)" "[]" dec_nan] gap' okn(2,3)
      by (auto simp: N_def)
    have "dec_ok s" using loop by (simp add: dec_ok_def)
    note ul = dec_unlead_correct [OF this]
    let ?t = "(dec_unlead s)\<lparr>dec_sign := sign_of_result l r\<rparr>"
    have t: "dec_wf ?t" "mag ?t = of_int (N mod D)" "dec_length ?t = 0"
      using ul loop(4,5) by (auto simp: dec_wf_def dec_ok_def sign_of_result_def mag_def)
    have z: "compare_num ?t (dec_of_int 0) = 0 \<longleftrightarrow> N mod D = 0"
      using compare_num_correct [OF t(1) dec_of_int_wf, of 0] t(2) by (simp add: cmp_iff)
    have "dec_wf (?t\<lparr>dec_sign := CHR ''+''\<rparr>)" "mag (?t\<lparr>dec_sign := CHR ''+''\<rparr>) = of_int (N mod D)"
      using t by (auto simp: dec_wf_def dec_ok_def mag_def)
    then show ?thesis using 3 t z loop(1) by (auto simp: unf N D Let_def dec_val_signed signed_def)
  qed
qed

section \<open>Division by minus zero\<close>

text \<open>
  The guard \<^verbatim>\<open>right == zero\<close> compares signs, so \<open>-0\<close> passes it, and the search for a digit then
  subtracts 0 without end.
\<close>

lemma digit_search_zero:
  assumes "int_dec d 0" "int_dec r R" "1 \<le> mx"
  shows "digit_search d r qsub mx = None"
proof (rule ccontr)
  assume "digit_search d r qsub mx \<noteq> None"
  then obtain y where "digit_search d r qsub mx = Some y" by auto
  then have "\<not> (int_dec d 0 \<and> (\<exists>R. int_dec r R) \<and> 1 \<le> mx)"
  proof (rule digit_search.raw_induct [where P = "\<lambda>d r qsub mx y. \<not> (int_dec d 0 \<and> (\<exists>R. int_dec r R) \<and> 1 \<le> mx)", rotated])
    fix f :: "decimal \<Rightarrow> decimal \<Rightarrow> int \<Rightarrow> int \<Rightarrow> (decimal \<times> int) option" and d r q m y
    assume f: "\<And>d r q m y. f d r q m = Some y \<Longrightarrow> \<not> (int_dec d 0 \<and> (\<exists>R. int_dec r R) \<and> 1 \<le> m)"
      and body: "(if dec_ge r d then let avg = half_up (m - 0) in
          if compare_num r (dec_mul_int d avg) \<noteq> 2 then f d (dec_sub r (dec_mul_int d avg)) (q + avg) 9 else f d r q avg
        else Some (r, q)) = Some y"
    show "\<not> (int_dec d 0 \<and> (\<exists>R. int_dec r R) \<and> 1 \<le> m)"
    proof
      assume asm: "int_dec d 0 \<and> (\<exists>R. int_dec r R) \<and> 1 \<le> m"
      then obtain R where dr: "int_dec d 0" "int_dec r R" "1 \<le> m" by blast
      have "0 \<le> half_up m" using half_up_bounds [OF dr(3)] by simp
      then have mul: "int_dec (dec_mul_int d (half_up m)) 0" using int_dec_mul_int [OF dr(1)] by simp
      have "0 \<le> R" using int_decD(6) [OF dr(2)] .
      then have "dec_ge r d" "compare_num r (dec_mul_int d (half_up m)) \<noteq> 2"
        "int_dec (dec_sub r (dec_mul_int d (half_up m))) R"
        using dec_order_correct(3) [OF int_decD(1) [OF dr(2)] int_decD(1) [OF dr(1)]] int_decD(2) [OF dr(1)] int_decD(2) [OF dr(2)]
          int_dec_compare [OF dr(2) mul] int_dec_sub [OF dr(2) mul] by (auto simp: cmp_iff)
      with body f [of d "dec_sub r (dec_mul_int d (half_up m))" "q + half_up m" 9 y] dr(1) show False
        by (auto simp: Let_def)
    qed
  qed
  with assms show False by blast
qed

lemma dec_div_minus_zero:
  assumes l: "dec_wf l" "mag l \<noteq> 0" and r: "dec_wf r" "mag r = 0" "dec_sign r = CHR ''-''"
  shows "dec_div l r = None"
proof -
  define m where "m = nat (max (dec_length l) (dec_length r))"
  obtain n d where d: "int_dec d \<lfloor>mag r * 10 ^ m\<rfloor>" and n: "dec_wf n" "dec_length n = 0" "of_int (dval (dec_source n)) = mag l * 10 ^ m"
    and eq: "dec_div l r = (let n = n\<lparr>dec_source := replicate m (CHR ''0'') @ dec_source n\<rparr> in
       if compare_num n d = 2 then Some (dec_of_int 0)
       else map_option (\<lambda>(r', q, _). dec_unlead (dec_nan\<lparr>dec_source := q, dec_sign := sign_of_result l r, dec_length := int m\<rparr>))
         (divide_loop d (rev (dec_source n)) (dec_nan\<lparr>dec_sign := CHR ''+''\<rparr>, [], dec_nan)))"
    using dec_div_unfold [OF l(1) r(1) disjI2 [OF r(3)] m_def] by metis
  let ?s = "replicate m (CHR ''0'') @ dec_source n" and ?n = "n\<lparr>dec_source := replicate m (CHR ''0'') @ dec_source n\<rparr>"
  note okn = dec_okD [OF dec_wf_ok [OF n(1)]]
  have d0: "int_dec d 0" using d r(2) by simp
  have "0 < (of_int (dval (dec_source n)) :: rat)" using n(3) l mag_nonneg [OF dec_wf_ok [OF l(1)]] by simp
  then have pos: "0 < dval (dec_source n)" by simp
  note wf = padded_digits(2) [OF n(1,2) pos, of m]
  have "compare_num ?n d \<noteq> 2"
    using compare_num_correct [OF wf int_decD(1) [OF d0]] int_decD(3) [OF d0] mag_nonneg [OF dec_wf_ok [OF wf]]
    by (simp add: cmp_iff not_less)
  moreover have "divide_loop d (rev ?s) (dec_nan\<lparr>dec_sign := CHR ''+''\<rparr>, [], dec_nan) = None"
  proof -
    have ds: "digits ?s" "?s \<noteq> []" using okn(2,3) by auto
    obtain c t where rs: "rev ?s = c # t" using ds(2) by (cases "rev ?s") auto
    then have c: "c = last ?s" using ds(2) by (metis hd_rev list.sel(1))
    have "c \<noteq> CHR ''0''" unfolding c by (rule padded_digits(3) [OF n(1,2) pos])
    moreover have "isdigit c" unfolding c using ds by (metis last_in_set list_all_iff)
    ultimately have "c \<noteq> CHR ''0''" "isdigit c" .
    let ?r = "\<lparr>dec_source = [c], dec_length = 0, dec_sign = CHR ''+''\<rparr>"
    have ir: "int_dec ?r (char_to_int c)"
      using rem_push [of "\<lparr>dec_source = [], dec_length = 0, dec_sign = CHR ''+''\<rparr>" 0 c] \<open>isdigit c\<close> by (simp add: rem_ok_def)
    have "dec_ge ?r d" using dec_order_correct(3) [OF int_decD(1) [OF ir] int_decD(1) [OF d0]] int_decD(2,6) [OF ir] int_decD(2) [OF d0]
      by simp
    then have "divide_digit d c (dec_nan\<lparr>dec_sign := CHR ''+''\<rparr>, []) = None"
      using digit_search_zero [OF d0 ir, of 9 0] \<open>c \<noteq> CHR ''0''\<close>
      by (simp add: divide_digit_def dec_nan_def dec_is_zero_def)
    then show ?thesis unfolding rs by simp
  qed
  ultimately show ?thesis by (simp add: eq)
qed

end
