(* ===== verification/Decimal_Properties.thy ===== *)
theory Decimal_Properties
  imports Decimal_Division
begin

text \<open>
  The properties of \<^verbatim>\<open>decimal\<close>: exact arithmetic and order on normalised operands, the
  grammar of the parser and the round trips with text, rounding and conversions, and what the
  long division computes, where it goes wrong and where it does not return.
\<close>

section \<open>What the parser accepts\<close>

lemma sign_prefix_cases:
  assumes "t \<noteq> []"
  obtains pre c rest where "t = pre @ rest" "sign_prefix pre c" "hd t = CHR ''+'' \<or> hd t = CHR ''-'' \<longleftrightarrow> pre \<noteq> []"
proof (cases "hd t = CHR ''+'' \<or> hd t = CHR ''-''")
  case True
  then show ?thesis using that [of "[hd t]" "tl t" "hd t"] assms by (auto simp: sign_prefix_def)
next
  case False
  then show ?thesis using that [of "[]" t "CHR ''+''"] by (simp add: sign_prefix_def)
qed

definition accepted :: "string \<Rightarrow> bool" where
  "accepted t \<longleftrightarrow> (\<exists>pre c ip. sign_prefix pre c \<and> digits ip \<and>
     (t = pre @ ip \<and> ip \<noteq> [] \<or> (\<exists>fp. t = pre @ ip @ CHR ''.'' # fp \<and> digits fp \<and> (pre = [] \<longrightarrow> ip \<noteq> []))))"

lemma apply_base10_long:
  assumes "sign_prefix pre c" "length (pre @ rest) \<noteq> 1" "rest \<noteq> [] \<or> pre \<noteq> []"
    and "pre = [] \<Longrightarrow> hd rest \<noteq> CHR ''+'' \<and> hd rest \<noteq> CHR ''-''"
  shows "is_nan (dec_of_text (pre @ rest)) \<longleftrightarrow>
    pre = [] \<and> \<not> isdigit (hd rest) \<or>
    (case find_char (CHR ''.'') rest of None \<Rightarrow> \<not> digits rest
     | Some p \<Rightarrow> \<not> digits (take p rest) \<or> \<not> digits (drop (Suc p) rest))"
proof -
  have pre: "pre = [] \<or> pre = [CHR ''+''] \<or> pre = [CHR ''-'']" using assms(1) by (auto simp: sign_prefix_def)
  have *: "p < length rest" if "find_char (CHR ''.'') rest = Some p" for p using find_char_Some that by blast
  note defs = dec_of_text_def apply_base10_def find_char_from_def push_digits_eq is_nan_def dec_invalid_def dec_nan_def Let_def
  consider "pre = []" | "pre = [CHR ''+'']" "rest \<noteq> []" | "pre = [CHR ''-'']" "rest \<noteq> []"
    using pre assms(2) by fastforce
  then show ?thesis
  proof cases
    case 1
    then show ?thesis using assms(2-4) *
      by (cases "find_char (CHR ''.'') rest"; cases "isdigit (hd rest)") (simp_all add: defs min_def)
  next
    case 2
    then show ?thesis using * by (cases "find_char (CHR ''.'') rest") (simp_all add: defs min_def)
  next
    case 3
    then show ?thesis using * by (cases "find_char (CHR ''.'') rest") (simp_all add: defs min_def)
  qed
qed

lemma is_nan_iff_not_accepted: "is_nan (dec_of_text t) \<longleftrightarrow> \<not> accepted t"
proof
  assume "is_nan (dec_of_text t)"
  then show "\<not> accepted t"
  proof (rule contrapos_pn)
    assume "accepted t"
    then obtain pre c ip where p: "sign_prefix pre c" "digits ip" and
      t: "t = pre @ ip \<and> ip \<noteq> [] \<or> (\<exists>fp. t = pre @ ip @ CHR ''.'' # fp \<and> digits fp \<and> (pre = [] \<longrightarrow> ip \<noteq> []))"
      by (auto simp: accepted_def)
    have c: "c \<noteq> CHR 0x00" using p(1) by (auto simp: sign_prefix_def)
    from t show "\<not> is_nan (dec_of_text t)"
    proof
      assume "t = pre @ ip \<and> ip \<noteq> []"
      then show ?thesis using dec_of_text_integer [OF p] c by (simp add: is_nan_def)
    next
      assume "\<exists>fp. t = pre @ ip @ CHR ''.'' # fp \<and> digits fp \<and> (pre = [] \<longrightarrow> ip \<noteq> [])"
      then obtain fp where f: "t = pre @ ip @ CHR ''.'' # fp" "digits fp" "pre = [] \<longrightarrow> ip \<noteq> []" by blast
      have "find_char (CHR ''.'') (ip @ CHR ''.'' # fp) = Some (length ip)"
        using digits_no_point [OF p(2)] by (rule find_char_append)
      moreover have "length (pre @ ip @ CHR ''.'' # fp) \<noteq> 1" using f(3) by auto
      moreover have "pre = [] \<Longrightarrow> isdigit (hd (ip @ CHR ''.'' # fp)) \<and> hd (ip @ CHR ''.'' # fp) \<noteq> CHR ''+'' \<and> hd (ip @ CHR ''.'' # fp) \<noteq> CHR ''-''"
        using f(3) digits_hd [OF p(2)] by simp
      ultimately show ?thesis using apply_base10_long [OF p(1), of "ip @ CHR ''.'' # fp"] f p(2) by auto
    qed
  qed
next
  assume na: "\<not> accepted t"
  show "is_nan (dec_of_text t)"
  proof (cases "length t \<le> 1")
    case True
    then consider "t = []" | a where "t = [a]" by (cases t) auto
    then show ?thesis
    proof cases
      case 2
      have "\<not> isdigit a"
      proof
        assume "isdigit a"
        then have "accepted t" unfolding accepted_def 2
          by (intro exI [of _ "[]"] exI [of _ "CHR ''+''"] exI [of _ "[a]"]) (simp add: sign_prefix_def)
        with na show False by simp
      qed
      then show ?thesis by (simp add: 2 dec_of_text_def apply_base10_def dec_invalid_def is_nan_def)
    qed (simp add: dec_of_text_def apply_base10_def dec_invalid_def is_nan_def)
  next
    case False
    then have "t \<noteq> []" by auto
    then obtain pre c rest where p: "t = pre @ rest" "sign_prefix pre c" "hd t = CHR ''+'' \<or> hd t = CHR ''-'' \<longleftrightarrow> pre \<noteq> []"
      by (rule sign_prefix_cases)
    have ne: "rest \<noteq> []" using False p by (auto simp: sign_prefix_def)
    have long: "is_nan (dec_of_text t) \<longleftrightarrow> pre = [] \<and> \<not> isdigit (hd rest) \<or>
        (case find_char (CHR ''.'') rest of None \<Rightarrow> \<not> digits rest
         | Some p \<Rightarrow> \<not> digits (take p rest) \<or> \<not> digits (drop (Suc p) rest))"
      unfolding p(1) using apply_base10_long [OF p(2), of rest] False p ne by auto
    show ?thesis
    proof (rule ccontr)
      assume "\<not> is_nan (dec_of_text t)"
      then have n: "pre = [] \<longrightarrow> isdigit (hd rest)" "case find_char (CHR ''.'') rest of None \<Rightarrow> digits rest
         | Some p \<Rightarrow> digits (take p rest) \<and> digits (drop (Suc p) rest)"
        unfolding long by (auto split: option.splits)
      have "accepted t"
      proof (cases "find_char (CHR ''.'') rest")
        case None
        then show ?thesis using n ne p unfolding accepted_def by auto
      next
        case (Some k)
        from find_char_Some [OF this] have k: "k < length rest" "rest ! k = CHR ''.''" by auto
        then have r: "rest = take k rest @ CHR ''.'' # drop (Suc k) rest" by (metis id_take_nth_drop)
        have "pre = [] \<longrightarrow> take k rest \<noteq> []" using n(1) k by (cases k; cases rest) auto
        moreover have "t = pre @ take k rest @ CHR ''.'' # drop (Suc k) rest" using p(1) r by metis
        moreover have "digits (take k rest)" "digits (drop (Suc k) rest)" using n(2) Some by auto
        ultimately show ?thesis using p(2) unfolding accepted_def by blast
      qed
      with na show False by simp
    qed
  qed
qed

section \<open>Properties\<close>

text \<open>
  C20: addition, subtraction, multiplication and negation of normalised decimals are exact
  and give normalised decimals, for every combination of signs and of numbers of digits behind
  the point.
\<close>

theorem decimal_arithmetic:
  assumes "dec_wf a" "dec_wf b"
  shows "dec_wf (dec_add a b) \<and> dec_val (dec_add a b) = dec_val a + dec_val b
    \<and> dec_wf (dec_sub a b) \<and> dec_val (dec_sub a b) = dec_val a - dec_val b
    \<and> dec_wf (dec_mul a b) \<and> dec_val (dec_mul a b) = dec_val a * dec_val b
    \<and> dec_wf (dec_neg a) \<and> dec_val (dec_neg a) = - dec_val a
    \<and> dec_val (dec_inc a) = dec_val a + 1 \<and> dec_val (dec_dec a) = dec_val a - 1"
  using dec_add_correct [OF assms] dec_sub_correct [OF assms] dec_mul_correct(1) [OF assms] dec_mul_val [OF assms]
    dec_neg_correct [OF assms(1)] dec_add_correct [OF assms(1) dec_of_int_wf, of 1]
    dec_sub_correct [OF assms(1) dec_of_int_wf, of 1]
  by (simp add: dec_inc_def dec_dec_def dec_add_int_def dec_sub_int_def)

theorem decimal_arithmetic_witness:
  "dec_wf (dec_of_int (- 25)) \<and> dec_wf (dec_of_int 12)
   \<and> dec_val (dec_mul (dec_of_int (- 25)) (dec_of_int 12)) = - 300"
  using decimal_arithmetic [of "dec_of_int (- 25)" "dec_of_int 12"] by simp

text \<open>
  C26: the order operators of normalised decimals are the order of the values; equality also
  compares the sign character, so \<open>0\<close> and \<open>-0\<close> are neither equal, nor less, nor greater.
\<close>

theorem decimal_order:
  assumes "dec_wf a" "dec_wf b"
  shows "(dec_lt a b \<longleftrightarrow> dec_val a < dec_val b) \<and> (dec_gt a b \<longleftrightarrow> dec_val a > dec_val b)
    \<and> (dec_le a b \<longleftrightarrow> dec_val a \<le> dec_val b) \<and> (dec_ge a b \<longleftrightarrow> dec_val a \<ge> dec_val b)
    \<and> (dec_eq a b \<longleftrightarrow> dec_val a = dec_val b \<and> dec_sign a = dec_sign b) \<and> (dec_ne a b \<longleftrightarrow> \<not> dec_eq a b)
    \<and> (dec_is_zero a \<longleftrightarrow> dec_val a = 0) \<and> (dec_is_positive a \<longleftrightarrow> dec_val a > 0) \<and> (dec_is_negative a \<longleftrightarrow> dec_val a < 0)"
proof -
  have "dec_is_zero a \<longleftrightarrow> dec_val a = 0"
    using mag_eq_0 [OF dec_wf_ok [OF assms(1)]] by (simp add: dec_val_def)
  moreover have "dec_is_positive a \<longleftrightarrow> dec_val a > 0" "dec_is_negative a \<longleftrightarrow> dec_val a < 0"
    using dec_order_correct(1,2) [OF assms(1) dec_zero_wf(1)] dec_okD(1) [OF dec_wf_ok [OF assms(1)]]
    by (simp_all add: dec_is_positive_def dec_is_negative_def)
  ultimately show ?thesis using dec_order_correct [OF assms] by simp
qed

theorem decimal_order_witness:
  "dec_wf dec_zero \<and> dec_wf (dec_neg dec_zero) \<and> \<not> dec_eq dec_zero (dec_neg dec_zero) \<and> \<not> dec_lt dec_zero (dec_neg dec_zero)"
proof -
  have wf: "dec_wf dec_zero" "dec_wf (dec_neg dec_zero)" using dec_neg_correct [of dec_zero] by simp_all
  have "dec_val (dec_neg dec_zero) = 0" "dec_sign (dec_neg dec_zero) = CHR ''-''"
    using dec_neg_correct [of dec_zero] by (simp_all add: dec_neg_def)
  with decimal_order [OF wf] wf show ?thesis by simp
qed

text \<open>
  The parser accepts an optional sign, digits, and optionally a point and digits, and
  nothing else: everything else is NaN.  A signed text may have no digit before the point.
\<close>

theorem decimal_parser: "is_nan (dec_of_text t) \<longleftrightarrow> \<not> accepted t"
  by (rule is_nan_iff_not_accepted)

text \<open>
  C25: reading back what \<^verbatim>\<open>to_string\<close> printed gives the decimal without the trailing zeros of its
  fraction, with the same value; printing what was read gives the text, for a text of an optional minus
  sign, at least one integer digit and, behind a point, at least one fraction digit of which the last is
  not \<open>0\<close>.  Texts with a plus sign, without integer digits or with a final point, which the constructor
  accepts too, are printed in another way (\<open>decimal_text_gaps\<close>).
\<close>

theorem decimal_text_round_trip:
  assumes "dec_ok d" "pre = [] \<or> pre = ''-''" "digits ip" "ip \<noteq> []" "digits fp" "fp \<noteq> []" "last fp \<noteq> CHR ''0''"
  shows "dec_of_text (dec_to_string d) = dec_untrail d \<and> dec_val (dec_of_text (dec_to_string d)) = dec_val d
    \<and> dec_to_string (dec_of_text (pre @ ip)) = pre @ ip
    \<and> dec_to_string (dec_of_text (pre @ ip @ CHR ''.'' # fp)) = pre @ ip @ CHR ''.'' # fp"
  using dec_of_text_to_string [OF assms(1)] dec_untrail_correct(2,3) [OF assms(1)] dec_to_string_of_text [OF assms(2-4)] assms(5-7)
  by (simp add: dec_val_def)

theorem decimal_text_round_trip_witness:
  "dec_ok (dec_of_int 7) \<and> digits ''120'' \<and> digits ''05'' \<and> last ''05'' \<noteq> CHR ''0''
   \<and> dec_to_string (dec_of_text ''-120.05'') = ''-120.05''"
proof -
  have h: "digits ''120''" "digits ''05''" "last ''05'' \<noteq> CHR ''0''" "dec_ok (dec_of_int 7)"
    using dec_wf_ok [OF dec_of_int_wf [of 7]] by (simp_all add: isdigit_def)
  then show ?thesis using decimal_text_round_trip [of "dec_of_int 7" "''-''" "''120''" "''05''"] by simp
qed

text \<open>
  A fraction without integer digits loses its point in print, and with it its value; a plus sign and a
  final point are dropped.
\<close>

theorem decimal_text_gaps:
  "dec_to_string (dec_of_text ''-.5'') = ''-5'' \<and> dec_to_string (dec_of_text ''+5'') = ''5'' \<and> dec_to_string (dec_of_text ''5.'') = ''5''"
  by code_simp

text \<open>
  Truncation to fewer digits drops the rest of the magnitude; rounding adds one unit of
  the last place kept when the dropped part is at least a half.  For a positive number that is
  rounding half up; for a negative one the unit is added as well, which moves the result
  towards zero: \<open>-1.25\<close> rounded to one digit is \<open>-1.1\<close>.
\<close>

theorem decimal_rounding:
  assumes "dec_wf d" "unat p < 2 ^ 31" "int (unat p) < dec_length d"
  shows "dec_val (dec_truncate d p) = signed (dec_sign d) (of_int \<lfloor>mag d * 10 ^ unat p\<rfloor> / 10 ^ unat p)
    \<and> dec_wf (dec_truncate d p) \<and> dec_wf (dec_round d p)
    \<and> dec_val (dec_round d p) =
        (if dec_sign d = CHR ''-''
         then (of_int \<lfloor>mag d * 10 ^ unat p + 1 / 2\<rfloor> - 2 * of_int \<lfloor>mag d * 10 ^ unat p\<rfloor>) / 10 ^ unat p
         else of_int \<lfloor>mag d * 10 ^ unat p + 1 / 2\<rfloor> / 10 ^ unat p)"
  using dec_truncate_correct [OF assms(1,2)] dec_round_correct [OF assms] assms(3)
  by (simp add: dec_val_signed signed_def diff_divide_distrib)

theorem decimal_rounding_witness:
  "dec_wf (dec_of_text ''-1.25'') \<and> unat (1 :: u32) < 2 ^ 31 \<and> int (unat (1 :: u32)) < dec_length (dec_of_text ''-1.25'')
   \<and> dec_val (dec_round (dec_of_text ''-1.25'') 1) = - 11 / 10"
proof -
  have t: "dec_of_text ''-1.25'' = \<lparr>dec_source = ''521'', dec_length = 2, dec_sign = CHR ''-''\<rparr>" by code_simp
  have v: "isdigit (CHR ''5'')" "isdigit (CHR ''2'')" "isdigit (CHR ''1'')" "char_to_int (CHR ''5'') = 5"
    "char_to_int (CHR ''2'') = 2" "char_to_int (CHR ''1'') = 1" by (simp_all add: isdigit_def char_to_int_def schar_def)
  have wf: "dec_wf (dec_of_text ''-1.25'')" "unat (1 :: u32) < 2 ^ 31" "int (unat (1 :: u32)) < dec_length (dec_of_text ''-1.25'')"
    by (simp_all add: t dec_wf_def dec_ok_def v)
  have m: "mag (dec_of_text ''-1.25'') = 125 / 100" by (simp add: t mag_def v)
  have "\<lfloor>(25::rat) / 2\<rfloor> = 12" "\<lfloor>(13::rat)\<rfloor> = 13" by (simp_all add: floor_unique)
  with decimal_rounding [OF wf] wf show ?thesis by (simp add: m) (simp add: t)
qed

text \<open>
  The conversions to 64-bit integers drop the fraction and saturate; the unsigned one
  drops the sign as well.
\<close>

theorem decimal_to_integers:
  assumes "dec_ok d"
  shows "sint (dec_to_int64 d) = max (- (2 ^ 63)) (min (2 ^ 63 - 1) (if dec_sign d = CHR ''-'' then - \<lfloor>mag d\<rfloor> else \<lfloor>mag d\<rfloor>))
    \<and> uint (dec_to_uint64 d) = min (2 ^ 64 - 1) \<lfloor>mag d\<rfloor>"
  using dec_to_int64_correct [OF assms] dec_to_uint64_correct [OF assms] by blast

theorem decimal_to_integers_witness:
  "dec_ok (dec_of_int (- (10 ^ 20))) \<and> sint (dec_to_int64 (dec_of_int (- (10 ^ 20)))) = - (2 ^ 63)"
proof -
  have ok: "dec_ok (dec_of_int (- (10 ^ 20)))" by (rule dec_wf_ok) simp
  have "dec_sign (dec_of_int (- (10 ^ 20))) = CHR ''-''"
    using dec_of_int_val [of "- (10 ^ 20)"] mag_dec_of_int [of "- (10 ^ 20)"] dec_okD(6) [OF ok] by (auto simp: dec_val_def)
  with decimal_to_integers [OF ok] mag_dec_of_int [of "- (10 ^ 20)"] ok show ?thesis by simp
qed

text \<open>
  \<^verbatim>\<open>decimal::from\<close> reads a text in the given base: the value is the Horner sum of the
  digits, of any length, with letters of either case as the digits from 10 on.
\<close>

theorem decimal_from_base:
  "dec_wf (dec_from s base) \<and> dec_val (dec_from s base) = of_int (foldl (\<lambda>v c. v * uint base + base_mapping c) 0 s)"
  by (rule dec_from_correct)

text \<open>
  C21: division by a non-zero decimal returns, its search loops included, and gives the
  quotient truncated to as many digits as the operand with more of them has, provided the
  dividend is free of gaps: no partial remainder is 0 in front of a zero digit unless only zeros
  follow.
\<close>

theorem decimal_division:
  assumes "dec_wf l" "dec_wf r" "mag r \<noteq> 0" "m = nat (max (dec_length l) (dec_length r))"
    and "gap_free \<lfloor>mag r * 10 ^ m\<rfloor> 0 (to_chars \<lfloor>mag l * 10 ^ (2 * m)\<rfloor>)"
  shows "\<exists>q. dec_div l r = Some q \<and> dec_wf q
    \<and> dec_val q = signed (sign_of_result l r) (of_int \<lfloor>mag l / mag r * 10 ^ m\<rfloor> / 10 ^ m)"
  using dec_div_correct [OF assms] .

theorem decimal_division_witness:
  "gap_free 7 0 (to_chars 105) \<and> (\<exists>q. dec_div (dec_of_int 105) (dec_of_int 7) = Some q \<and> dec_val q = 15)"
proof -
  have "gap_free 7 0 (to_chars 105)" by code_simp
  moreover have "sign_of_result (dec_of_int 105) (dec_of_int 7) = CHR ''+''"
    using dec_of_int_sign [of 105] dec_of_int_sign [of 7] by (simp add: sign_of_result_def)
  ultimately show ?thesis using decimal_division [of "dec_of_int 105" "dec_of_int 7" 0] by (auto simp: signed_def)
qed

text \<open>
  With a gap the division is wrong: the remainder is compared by its number of digits
  while it has leading zeros, so \<open>1004 / 5\<close> is printed as \<open>20D\<close> and \<open>7003 % 7\<close> is \<open>2\<close> instead
  of \<open>3\<close>.
\<close>

theorem decimal_division_gap:
  "map_option dec_to_string (dec_div (dec_of_text ''1004'') (dec_of_text ''5'')) = Some ''20D''
   \<and> map_option dec_to_string (dec_mod (dec_of_text ''7003'') (dec_of_text ''7'')) = Some ''2''"
  by code_simp

text \<open>
  The remainder of integer decimals: the magnitude is the remainder of the magnitudes
  when the dividend is free of gaps; the sign is that of the dividend when it is the smaller of
  the two, and otherwise the sign of the product.
\<close>

theorem decimal_remainder:
  assumes "dec_wf l" "dec_length l = 0" "dec_wf r" "dec_length r = 0" "mag r \<noteq> 0"
    and "gap_free \<lfloor>mag r\<rfloor> 0 (to_chars \<lfloor>mag l\<rfloor>)"
  shows "\<exists>q. dec_mod l r = Some q \<and> dec_wf q \<and> mag q = of_int (\<lfloor>mag l\<rfloor> mod \<lfloor>mag r\<rfloor>)
    \<and> dec_val q = (if mag l < mag r then dec_val l else signed (sign_of_result l r) (of_int (\<lfloor>mag l\<rfloor> mod \<lfloor>mag r\<rfloor>)))"
  using dec_mod_correct [OF assms] by blast

theorem decimal_remainder_witness:
  "gap_free 5 0 (to_chars 17) \<and> (\<exists>q. dec_mod (dec_of_int 17) (dec_of_int (- 5)) = Some q \<and> mag q = 2)"
proof -
  have "gap_free 5 0 (to_chars 17)" by code_simp
  then show ?thesis using decimal_remainder [of "dec_of_int 17" "dec_of_int (- 5)"] by auto
qed

text \<open>
  Dividing a non-zero decimal by \<open>-0\<close> does not return.  The zero that the guard of the
  division recognises is only \<open>+0\<close>, whose quotient is NaN; \<open>-0\<close> is a value the operators
  produce, for instance as \<open>0 * -1\<close>.
\<close>

theorem decimal_division_by_minus_zero:
  assumes "dec_wf l" "mag l \<noteq> 0"
  shows "dec_div l (dec_mul (dec_of_int 0) (dec_of_int (- 1))) = None \<and> dec_div l (dec_of_int 0) = Some dec_nan"
proof -
  let ?z = "dec_mul (dec_of_int 0) (dec_of_int (- 1))"
  note mul = dec_mul_correct [OF dec_of_int_wf dec_of_int_wf, of 0 "- 1"]
  have "dec_sign (dec_of_int (- 1)) = CHR ''-''"
    using dec_of_int_val [of "- 1"] dec_okD(6) [OF dec_wf_ok [OF dec_of_int_wf [of "- 1"]]] mag_dec_of_int [of "- 1"]
    by (auto simp: dec_val_def)
  then have "dec_sign ?z = CHR ''-''" using mul(3) dec_of_int_sign [of 0] by simp
  then have "dec_div l ?z = None" using dec_div_minus_zero [OF assms mul(1)] mul(2) by simp
  moreover have "dec_eq (dec_of_int 0) (dec_of_int 0)" using dec_order_correct(5) [OF dec_of_int_wf dec_of_int_wf] by simp
  then have "dec_div l (dec_of_int 0) = Some dec_nan"
    using dec_okD(1) [OF dec_wf_ok [OF assms(1)]] by (simp add: dec_div_def)
  ultimately show ?thesis by blast
qed

theorem decimal_division_by_minus_zero_witness:
  "dec_wf (dec_of_int 1) \<and> mag (dec_of_int 1) \<noteq> 0
   \<and> dec_div (dec_of_int 1) (dec_mul (dec_of_int 0) (dec_of_int (- 1))) = None"
  using decimal_division_by_minus_zero [of "dec_of_int 1"] by simp

text \<open>
  NaN is contagious: every arithmetic operator with a NaN operand gives NaN, and every
  comparison with one is false, \<^verbatim>\<open>!=\<close> included.
\<close>

theorem decimal_nan:
  assumes "is_nan a \<or> is_nan b"
  shows "is_nan (dec_add a b) \<and> is_nan (dec_sub a b) \<and> is_nan (dec_mul a b)
    \<and> dec_div a b = Some dec_nan \<and> dec_mod a b = Some dec_nan
    \<and> \<not> dec_eq a b \<and> \<not> dec_ne a b \<and> \<not> dec_lt a b \<and> \<not> dec_gt a b \<and> \<not> dec_le a b \<and> \<not> dec_ge a b"
  using assms
  by (auto simp: dec_add_def dec_sub_def dec_mul_def dec_div_def dec_mod_def dec_compare_defs) (auto simp: is_nan_def dec_nan_def)

theorem decimal_nan_witness: "is_nan dec_nan \<and> \<not> dec_ne dec_nan dec_nan"
  using decimal_nan [of dec_nan dec_nan] by (simp add: is_nan_def dec_nan_def)

end
