(* ===== verification/Codec.thy ===== *)
theory Codec
  imports Chars "HOL-Library.Signed_Division"
begin

text \<open>
  The text codecs of \<^verbatim>\<open>compute::codec\<close> (\<^verbatim>\<open>compute.cpp\<close>): the keyed byte rotation, base64
  in both alphabets, base32, base45 and its variant, hexadecimal and percent encoding, the
  number printers and the UTF-8 writer.  A buffer of bytes is a \<^typ>\<open>string\<close>;
  \<open>uchar\<close> and \<open>byte_char\<close> are the casts between \<^verbatim>\<open>char\<close> and \<^verbatim>\<open>uint8_t\<close>.  \<^verbatim>\<open>size_t\<close> has 64 bits.
  A loop that walks over a text is a recursion over the part of the text it has not read,
  with the variables the loop changes as arguments.  The assertions of the sources
  (\<^verbatim>\<open>VI_ASSERT\<close>) are compiled out of release builds and are no branches here.
\<close>

section \<open>Bytes and characters\<close>

definition uchar :: "char \<Rightarrow> u8" where
  "uchar c = word_of_nat (of_char c)"

definition byte_char :: "u8 \<Rightarrow> char" where
  "byte_char w = char_of (unat w)"

text \<open>The character classes of the \<^verbatim>\<open>C\<close> locale.\<close>

definition isupper :: "char \<Rightarrow> bool" where
  "isupper c \<longleftrightarrow> 65 \<le> (of_char c :: nat) \<and> (of_char c :: nat) \<le> 90"

definition islower :: "char \<Rightarrow> bool" where
  "islower c \<longleftrightarrow> 97 \<le> (of_char c :: nat) \<and> (of_char c :: nat) \<le> 122"

definition isalnum :: "char \<Rightarrow> bool" where
  "isalnum c \<longleftrightarrow> isdigit c \<or> isupper c \<or> islower c"

definition isxdigit :: "char \<Rightarrow> bool" where
  "isxdigit c \<longleftrightarrow> isdigit c \<or> (65 \<le> (of_char c :: nat) \<and> (of_char c :: nat) \<le> 70)
     \<or> (97 \<le> (of_char c :: nat) \<and> (of_char c :: nat) \<le> 102)"

definition tolower :: "char \<Rightarrow> char" where
  "tolower c = (if isupper c then char_of ((of_char c :: nat) + 32) else c)"

text \<open>
  \<^verbatim>\<open>strtol\<close> in base 16 on a null-terminated text: white space, an optional sign, an optional
  \<^verbatim>\<open>0x\<close> that is followed by a digit, and the longest run of digits.
\<close>

definition xdigit_value :: "char \<Rightarrow> int" where
  "xdigit_value c = (if isdigit c then schar c - 48 else schar (tolower c) - 87)"

definition parse_xdigits :: "string \<Rightarrow> int" where
  "parse_xdigits s = foldl (\<lambda>v c. 16 * v + xdigit_value c) 0 (takeWhile isxdigit s)"

definition skip_0x :: "string \<Rightarrow> string" where
  "skip_0x s = (case s of
     a # b # c # _ \<Rightarrow> if a = CHR ''0'' \<and> tolower b = CHR ''x'' \<and> isxdigit c then drop 2 s else s
   | _ \<Rightarrow> s)"

definition strtol16 :: "string \<Rightarrow> int" where
  "strtol16 s =
     (let t = dropWhile isspace (takeWhile (\<lambda>c. c \<noteq> CHR 0x00) s);
          v = (case t of
                 c # t' \<Rightarrow>
                   if c = CHR ''-'' then - parse_xdigits (skip_0x t')
                   else if c = CHR ''+'' then parse_xdigits (skip_0x t')
                   else parse_xdigits (skip_0x t)
               | [] \<Rightarrow> 0)
      in max (- (2 ^ 63)) (min (2 ^ 63 - 1) v))"

section \<open>Hashing and rotation\<close>

definition fnv1a_hash :: "string \<Rightarrow> u64" where
  "fnv1a_hash s = foldl (\<lambda>state c. (state XOR ucast (uchar c)) * 1099511628211) 14695981039346656037 s"

text \<open>
  The rotation amount of position \<open>i\<close> comes from the bytes before it and from the key:
  \<^verbatim>\<open>partition\<close> is the prefix of length \<open>i + 1\<close> with its last byte replaced.  In the
  forward direction the prefix is read from the buffer that is being written, in the backward
  direction from a copy of the original.
\<close>

definition rotation_of :: "string \<Rightarrow> u64 \<Rightarrow> u8" where
  "rotation_of prefix hash =
     (let partition = prefix @ [byte_char (ucast (hash mod 254))]
      in ucast (fnv1a_hash partition mod 254))"

fun rotate_forward :: "string \<Rightarrow> string \<Rightarrow> u64 \<Rightarrow> string" where
  "rotate_forward written [] hash = written"
| "rotate_forward written (b # rest) hash =
     (let hash = hash + 1; rotation = rotation_of written hash
      in rotate_forward (written @ [byte_char (uchar b + rotation)]) rest hash)"

fun rotate_backward :: "string \<Rightarrow> string \<Rightarrow> string \<Rightarrow> u64 \<Rightarrow> string" where
  "rotate_backward rotated written [] hash = written"
| "rotate_backward rotated written (b # rest) hash =
     (let hash = hash + 1; rotation = rotation_of (take (length written) rotated) hash
      in rotate_backward rotated (written @ [byte_char (uchar b - rotation)]) rest hash)"

definition rotate_buffer :: "string \<Rightarrow> u64 \<Rightarrow> int \<Rightarrow> string" where
  "rotate_buffer buffer hash direction =
     (if direction < 0 then rotate_backward buffer [] buffer hash else rotate_forward [] buffer hash)"

definition rotate_text :: "string \<Rightarrow> u64 \<Rightarrow> int \<Rightarrow> string" where
  "rotate_text value hash direction = rotate_buffer value hash direction"

fun shuffle_loop :: "u64 \<Rightarrow> string \<Rightarrow> string" where
  "shuffle_loop hash [] = []"
| "shuffle_loop hash (c # rest) =
     (let hash = (push_bit 5 hash - hash) + word_of_int (schar c);
          hash = hash AND hash
      in char_of_int (sint hash smod 255) # shuffle_loop hash rest)"

definition shuffle :: "string \<Rightarrow> u64 \<Rightarrow> string" where
  "shuffle value seed = shuffle_loop seed value"

section \<open>Base64\<close>

fun offset_of64_from :: "nat \<Rightarrow> string \<Rightarrow> char \<Rightarrow> nat" where
  "offset_of64_from i [] dest = 63"
| "offset_of64_from i (c # source) dest = (if c = dest then i else offset_of64_from (Suc i) source dest)"

definition offset_of64 :: "string \<Rightarrow> char \<Rightarrow> nat" where
  "offset_of64 source dest = offset_of64_from 0 (take 64 source) dest"

text \<open>
  \<^verbatim>\<open>row3\<close> and \<^verbatim>\<open>row4\<close> are the bytes and the six-bit groups collected so far; \<^verbatim>\<open>offset\<close> is
  the length of the row in the making.
\<close>

definition row4_of :: "u8 \<Rightarrow> u8 \<Rightarrow> u8 \<Rightarrow> u8 list" where
  "row4_of a b c =
     [drop_bit 2 (a AND 0xfc),
      push_bit 4 (a AND 0x03) + drop_bit 4 (b AND 0xf0),
      push_bit 2 (b AND 0x0f) + drop_bit 6 (c AND 0xc0),
      c AND 0x3f]"

definition row3_of :: "u8 \<Rightarrow> u8 \<Rightarrow> u8 \<Rightarrow> u8 \<Rightarrow> u8 list" where
  "row3_of a b c d =
     [push_bit 2 a + drop_bit 4 (b AND 0x30),
      push_bit 4 (b AND 0xf) + drop_bit 2 (c AND 0x3c),
      push_bit 6 (c AND 0x3) + d]"

definition fill_row :: "nat \<Rightarrow> u8 list \<Rightarrow> u8 list" where
  "fill_row n row = row @ replicate (n - length row) 0"

definition row4_of_row3 :: "u8 list \<Rightarrow> u8 list" where
  "row4_of_row3 row3 = row4_of (row3 ! 0) (row3 ! 1) (row3 ! 2)"

definition row3_of_row4 :: "string \<Rightarrow> u8 list \<Rightarrow> u8 list" where
  "row3_of_row4 alphabet row4 =
     (let row4 = map (\<lambda>v. word_of_nat (offset_of64 alphabet (byte_char v))) row4
      in row3_of (row4 ! 0) (row4 ! 1) (row4 ! 2) (row4 ! 3))"

fun encode64_loop :: "string \<Rightarrow> string \<Rightarrow> u8 list \<Rightarrow> string \<Rightarrow> string \<times> u8 list" where
  "encode64_loop alphabet [] row3 result = (result, row3)"
| "encode64_loop alphabet (c # value) row3 result =
     (let row3 = row3 @ [uchar c]
      in if length row3 \<noteq> 3 then encode64_loop alphabet value row3 result
         else encode64_loop alphabet value [] (result @ map (\<lambda>v. alphabet ! unat v) (row4_of_row3 row3)))"

definition encode64 :: "string \<Rightarrow> string \<Rightarrow> bool \<Rightarrow> string" where
  "encode64 alphabet value padding =
     (let (result, row3) = encode64_loop alphabet value [] []; offset = length row3
      in if offset = 0 then result
         else let row4 = row4_of_row3 (fill_row 3 row3);
                  result = result @ map (\<lambda>v. alphabet ! unat v) (take (offset + 1) row4)
              in if \<not> padding then result else result @ replicate (3 - offset) (CHR ''=''))"

text \<open>
  The decoder reads \<^verbatim>\<open>value[focus]\<close> with a 32-bit \<^verbatim>\<open>focus\<close>, which wraps after \<open>2 ^ 32\<close> characters, while
  \<^verbatim>\<open>length\<close> counts down from the length of the text.
\<close>

fun decode64_loop :: "string \<Rightarrow> (char \<Rightarrow> bool) \<Rightarrow> string \<Rightarrow> nat \<Rightarrow> u32 \<Rightarrow> u8 list \<Rightarrow> string \<Rightarrow> string \<times> u8 list" where
  "decode64_loop alphabet is_alphabetic value 0 focus row4 result = (result, row4)"
| "decode64_loop alphabet is_alphabetic value (Suc n) focus row4 result =
     (let c = value ! unat focus
      in if c \<noteq> CHR ''='' \<and> is_alphabetic c then
           let row4 = row4 @ [uchar c]; focus = focus + 1
           in if length row4 \<noteq> 4 then decode64_loop alphabet is_alphabetic value n focus row4 result
              else decode64_loop alphabet is_alphabetic value n focus []
                     (result @ map byte_char (row3_of_row4 alphabet row4))
         else (result, row4))"

definition decode64 :: "string \<Rightarrow> string \<Rightarrow> (char \<Rightarrow> bool) \<Rightarrow> string" where
  "decode64 alphabet value is_alphabetic =
     (let (result, row4) = decode64_loop alphabet is_alphabetic value (length value) 0 [] []; offset = length row4
      in if offset = 0 then result
         else result @ map byte_char (take (offset - 1) (row3_of_row4 alphabet (fill_row 4 row4))))"

definition base64_set :: string where
  "base64_set = ''ABCDEFGHIJKLMNOPQRSTUVWXYZabcdefghijklmnopqrstuvwxyz0123456789+/''"

definition base64_url_set :: string where
  "base64_url_set = ''ABCDEFGHIJKLMNOPQRSTUVWXYZabcdefghijklmnopqrstuvwxyz0123456789-_''"

definition is_base64 :: "char \<Rightarrow> bool" where
  "is_base64 value \<longleftrightarrow> isalnum value \<or> value = CHR ''+'' \<or> value = CHR ''/''"

definition is_base64_url :: "char \<Rightarrow> bool" where
  "is_base64_url value \<longleftrightarrow> isalnum value \<or> value = CHR ''-'' \<or> value = CHR ''_''"

definition base64_encode :: "string \<Rightarrow> string" where
  "base64_encode value = encode64 base64_set value True"

definition base64_decode :: "string \<Rightarrow> string" where
  "base64_decode value = decode64 base64_set value is_base64"

definition base64_url_encode :: "string \<Rightarrow> string" where
  "base64_url_encode value = encode64 base64_url_set value False"

definition base64_url_decode :: "string \<Rightarrow> string" where
  "base64_url_decode value =
     (let padding = length value mod 4
      in if padding = 0 then decode64 base64_url_set value is_base64_url
         else let padded = value @ replicate (4 - padding) (CHR ''='')
              in decode64 base64_url_set padded is_base64_url)"

section \<open>Base32\<close>

definition base32_alphabet :: string where
  "base32_alphabet = ''ABCDEFGHIJKLMNOPQRSTUVWXYZ234567''"

definition base32_index :: "u64 \<Rightarrow> nat \<Rightarrow> char" where
  "base32_index next remainder = base32_alphabet ! (unat (0x1F AND drop_bit remainder next) mod 32)"

function base32_encode_loop :: "u64 \<Rightarrow> string \<Rightarrow> nat \<Rightarrow> string" where
  "base32_encode_loop next value remainder =
     (if remainder > 0 \<or> value \<noteq> [] then
        if remainder < 5 then
          case value of
            c # rest \<Rightarrow>
              let next = push_bit 8 next OR (ucast (uchar c) AND 0xFF); remainder = remainder + 8 - 5
              in base32_index next remainder # base32_encode_loop next rest remainder
          | [] \<Rightarrow>
              let padding = 5 - remainder; next = push_bit padding next; remainder = remainder + padding - 5
              in base32_index next remainder # base32_encode_loop next [] remainder
        else
          let remainder = remainder - 5
          in base32_index next remainder # base32_encode_loop next value remainder
      else [])"
  by auto
termination
  by (relation "measure (\<lambda>(next, value, remainder). 8 * length value + remainder)") (auto simp: Let_def)

declare base32_encode_loop.simps [simp del]

definition base32_encode :: "string \<Rightarrow> string" where
  "base32_encode value =
     (case value of [] \<Rightarrow> []
      | c # rest \<Rightarrow> base32_encode_loop (word_of_int (schar c)) rest 8)"

definition base32_skip :: "char \<Rightarrow> bool" where
  "base32_skip c \<longleftrightarrow> c = CHR '' '' \<or> c = CHR 0x09 \<or> c = CHR 0x0D \<or> c = CHR 0x0A \<or> c = CHR ''-''"

text \<open>The five bits a character stands for; \<^const>\<open>None\<close> ends the decoding.\<close>

definition base32_digit :: "char \<Rightarrow> nat option" where
  "base32_digit c =
     (let c = (if c = CHR ''0'' then CHR ''O'' else if c = CHR ''1'' then CHR ''L''
               else if c = CHR ''8'' then CHR ''B'' else c)
      in if isupper c \<or> islower c then Some (unat (uchar c AND 0x1F) - 1)
         else if 50 \<le> (of_char c :: nat) \<and> (of_char c :: nat) \<le> 55 then Some (of_char c - (50 - 26))
         else None)"

fun base32_decode_loop :: "u64 \<Rightarrow> nat \<Rightarrow> string \<Rightarrow> string" where
  "base32_decode_loop prev bits_left [] = []"
| "base32_decode_loop prev bits_left (c # value) =
     (if base32_skip c then base32_decode_loop prev bits_left value
      else case base32_digit c of
             None \<Rightarrow> []
           | Some d \<Rightarrow>
               let prev = push_bit 5 prev OR word_of_nat d; bits_left = bits_left + 5
               in if bits_left < 8 then base32_decode_loop prev bits_left value
                  else byte_char (ucast (drop_bit (bits_left - 8) prev)) #
                       base32_decode_loop prev (bits_left - 8) value)"

definition base32_decode :: "string \<Rightarrow> string" where
  "base32_decode value = base32_decode_loop 0 0 value"

section \<open>Base45\<close>

definition base45_alphabet :: string where
  "base45_alphabet = ''0123456789ABCDEFGHIJKLMNOPQRSTUVWXYZ $%*+-./:''"

fun base45_encode :: "string \<Rightarrow> string" where
  "base45_encode (h # l # rest) =
     (let x = int (unat (uchar h)) * 256 + int (unat (uchar l));
          e = x div (45 * 45);
          x = x mod (45 * 45);
          d = x div 45;
          c = x mod 45
      in [base45_alphabet ! nat c, base45_alphabet ! nat d, base45_alphabet ! nat e] @ base45_encode rest)"
| "base45_encode [h] =
     (let x = int (unat (uchar h)); d = x div 45; c = x mod 45
      in [base45_alphabet ! nat c, base45_alphabet ! nat d])"
| "base45_encode [] = []"

definition base45_char_to_int :: "nat list" where
  "base45_char_to_int =
     replicate 32 255 @
     [36, 255, 255, 255, 37, 38, 255, 255, 255, 255, 39, 40, 255, 41, 42, 43,
      0, 1, 2, 3, 4, 5, 6, 7, 8, 9, 44, 255, 255, 255, 255, 255,
      255, 10, 11, 12, 13, 14, 15, 16, 17, 18, 19, 20, 21, 22, 23, 24,
      25, 26, 27, 28, 29, 30, 31, 32, 33, 34, 35, 35, 255, 255, 255, 255,
      255, 10, 11, 12, 13, 14, 15, 16, 17, 18, 19, 20, 21, 22, 23, 24,
      25, 26, 27, 28, 29, 30, 31, 32, 33, 34, 35, 35, 255, 255, 255, 255] @
     replicate 128 255"

text \<open>
  The table entry is cast to the signed \<^verbatim>\<open>char\<close> before it is compared with 255, and the
  divisions round towards zero.
\<close>

definition base45_digit :: "char \<Rightarrow> int" where
  "base45_digit c = schar (char_of (base45_char_to_int ! of_char c))"

fun base45_decode :: "string \<Rightarrow> string" where
  "base45_decode (p # q # r # rest) =
     (let a = base45_digit p; b = base45_digit q
      in if a = 255 \<or> b = 255 then []
         else let x = a + 45 * b; a = base45_digit r
              in if a = 255 then []
                 else let x = x + a * 45 * 45
                      in [char_of_int (x sdiv 256), char_of_int (x smod 256)] @ base45_decode rest)"
| "base45_decode [p, q] =
     (let a = base45_digit p; b = base45_digit q
      in if a = 255 \<or> b = 255 then [] else [char_of_int (a + 45 * b)])"
| "base45_decode [p] = []"
| "base45_decode [] = []"

fun replace_char :: "string \<Rightarrow> char \<Rightarrow> char \<Rightarrow> string" where
  "replace_char [] from to = []"
| "replace_char (c # other) from to = (if c = from then to else c) # replace_char other from to"

definition bep45_from :: string where
  "bep45_from = '' $%*+-./:''"

definition bep45_to :: string where
  "bep45_to = ''abcdefghi''"

definition bep45_encode :: "string \<Rightarrow> string" where
  "bep45_encode data =
     foldl (\<lambda>result (from, to). replace_char result from to) (base45_encode data) (zip bep45_from bep45_to)"

definition bep45_decode :: "string \<Rightarrow> string" where
  "bep45_decode data =
     base45_decode (foldl (\<lambda>result (from, to). replace_char result from to) data (zip bep45_to bep45_from))"

section \<open>Hexadecimal and percent encoding\<close>

definition hex_lower_case :: string where
  "hex_lower_case = ''0123456789abcdef''"

definition hex_upper_case :: string where
  "hex_upper_case = ''0123456789ABCDEF''"

definition hex_pair :: "string \<Rightarrow> u8 \<Rightarrow> string" where
  "hex_pair digits c = [digits ! unat (drop_bit 4 c), digits ! unat (c AND 0xf)]"

definition hex_encode_odd :: "string \<Rightarrow> bool \<Rightarrow> string" where
  "hex_encode_odd value upper_case =
     (let digits = (if upper_case then hex_upper_case else hex_lower_case)
      in concat (map (\<lambda>v. let c = uchar v
           in if c \<ge> 16 then hex_pair digits c else [digits ! unat (c AND 0xf)]) value))"

definition hex_encode :: "string \<Rightarrow> bool \<Rightarrow> string" where
  "hex_encode value upper_case =
     (let digits = (if upper_case then hex_upper_case else hex_lower_case)
      in concat (map (\<lambda>v. hex_pair digits (uchar v)) value))"

text \<open>The two-character buffer is null-terminated; an odd last character is parsed alone.\<close>

fun hex_decode_loop :: "string \<Rightarrow> string" where
  "hex_decode_loop (a # b # value) = char_of_int (strtol16 [a, b]) # hex_decode_loop value"
| "hex_decode_loop [a] = [char_of_int (strtol16 [a])]"
| "hex_decode_loop [] = []"

definition hex_decode :: "string \<Rightarrow> string" where
  "hex_decode value =
     (let offset = (if length value \<ge> 2 \<and> value ! 0 = CHR ''0'' \<and> value ! 1 = CHR ''x'' then 2 else 0)
      in hex_decode_loop (drop offset value))"

text \<open>\<^verbatim>\<open>strchr\<close> also finds the terminating null character of its first argument.\<close>

definition url_unescape :: "char \<Rightarrow> bool" where
  "url_unescape v \<longleftrightarrow> v \<in> set ''._-$,;~()'' \<or> v = CHR 0x00"

fun url_encode :: "string \<Rightarrow> string" where
  "url_encode [] = []"
| "url_encode (v # text) =
     (if \<not> isalnum v \<and> \<not> url_unescape v then CHR ''%'' # hex_pair hex_lower_case (uchar v) @ url_encode text
      else v # url_encode text)"

definition url_digit :: "char \<Rightarrow> int" where
  "url_digit c = (let a = schar (tolower c) in if isdigit (tolower c) then a - 48 else a - 87)"

definition url_escaped :: "char \<Rightarrow> char \<Rightarrow> char" where
  "url_escaped a b = char_of_int (push_bit 4 (url_digit a) OR url_digit b)"

fun url_decode :: "string \<Rightarrow> string" where
  "url_decode (t # a # b # text) =
     (if t = CHR ''%'' \<and> isxdigit a \<and> isxdigit b then url_escaped a b # url_decode text
      else (if t \<noteq> CHR ''+'' then t else CHR '' '') # url_decode (a # b # text))"
| "url_decode [t, a] = (if t \<noteq> CHR ''+'' then t else CHR '' '') # url_decode [a]"
| "url_decode [t] = [if t \<noteq> CHR ''+'' then t else CHR '' '']"
| "url_decode [] = []"

section \<open>Numbers as text\<close>

definition base62_digits :: string where
  "base62_digits = ''0123456789ABCDEFGHIJKLMNOPQRSTUVWXYZabcdefghijklmnopqrstuvwxyz+/''"

text \<open>The loop of \<^verbatim>\<open>base10_to_base_n\<close> does not end in base 1, so it is a partial function.\<close>

partial_function (option) base_n_loop :: "string \<Rightarrow> nat \<Rightarrow> u64 \<Rightarrow> string \<Rightarrow> string option" where
  "base_n_loop digits base value output =
     (if value > 0
      then base_n_loop digits base (word_of_nat (unat value div base)) (digits ! (unat value mod base) # output)
      else Some output)"

definition base10_to_base_n :: "u64 \<Rightarrow> u32 \<Rightarrow> string option" where
  "base10_to_base_n value base =
     (if value = 0 then Some ''0''
      else base_n_loop (if base = 64 then base64_set else base62_digits) (unat base) value [])"

lemma drop_bit_4_less: "0 < drop_bit 4 n \<Longrightarrow> unat (drop_bit 4 n) < unat (n::u64)"
proof -
  assume "0 < drop_bit 4 n"
  then have "0 < unat n" by (metis drop_bit_of_0 unat_0 unat_gt_0 bot_nat_0.not_eq_extremum word_gt_0 unat_eq_zero)
  then show ?thesis by (simp add: unat_drop_bit_div)
qed

function decimal_to_hex_loop :: "u64 \<Rightarrow> string \<Rightarrow> string" where
  "decimal_to_hex_loop n result =
     (let result = hex_lower_case ! unat (n AND 15) # result; n = drop_bit 4 n
      in if n > 0 then decimal_to_hex_loop n result else result)"
  by auto

termination
  by (relation "measure (\<lambda>(n, result). unat n)") (auto intro: drop_bit_4_less)

declare decimal_to_hex_loop.simps [simp del]

definition decimal_to_hex :: "u64 \<Rightarrow> string" where
  "decimal_to_hex n = decimal_to_hex_loop n []"

section \<open>UTF-8 and single digits\<close>

text \<open>The bytes \<^verbatim>\<open>utf8\<close> stores in the buffer; their number is its result.\<close>

definition utf8 :: "int \<Rightarrow> string" where
  "utf8 code =
     (if code < 0x80 then [char_of_int (code AND 0x7F)]
      else if code < 0x800 then
        [char_of_int (0xC0 OR (drop_bit 6 code AND 0x1F)),
         char_of_int (0x80 OR (code AND 0x3F))]
      else if code < 0xD800 then
        [char_of_int (0xE0 OR (drop_bit 12 code AND 0xF)),
         char_of_int (0x80 OR (drop_bit 6 code AND 0x3F)),
         char_of_int (0x80 OR (code AND 0x3F))]
      else if code < 0xE000 then []
      else if code < 0x10000 then
        [char_of_int (0xE0 OR (drop_bit 12 code AND 0xF)),
         char_of_int (0x80 OR (drop_bit 6 code AND 0x3F)),
         char_of_int (0x80 OR (code AND 0x3F))]
      else if code < 0x110000 then
        [char_of_int (0xF0 OR (drop_bit 18 code AND 0x7)),
         char_of_int (0x80 OR (drop_bit 12 code AND 0x3F)),
         char_of_int (0x80 OR (drop_bit 6 code AND 0x3F)),
         char_of_int (0x80 OR (code AND 0x3F))]
      else [])"

definition hex :: "char \<Rightarrow> int option" where
  "hex code =
     (if 0x20 \<le> schar code \<and> isdigit code then Some (schar code - 48)
      else if 65 \<le> schar code \<and> schar code \<le> 70 then Some (schar code - 65 + 10)
      else if 97 \<le> schar code \<and> schar code \<le> 102 then Some (schar code - 97 + 10)
      else None)"

text \<open>\<^verbatim>\<open>hex_to_decimal\<close> returns success and the value parsed so far.\<close>

fun hex_to_decimal_loop :: "string \<Rightarrow> nat \<Rightarrow> nat \<Rightarrow> int \<Rightarrow> bool \<times> int" where
  "hex_to_decimal_loop text index 0 value = (True, value)"
| "hex_to_decimal_loop text index (Suc count) value =
     (if str_at text index = CHR 0x00 then (False, value)
      else case hex (str_at text index) of
             None \<Rightarrow> (False, value)
           | Some v \<Rightarrow> hex_to_decimal_loop text (index + 1) count (value * 16 + v))"

definition hex_to_decimal :: "string \<Rightarrow> nat \<Rightarrow> nat \<Rightarrow> bool \<times> int" where
  "hex_to_decimal text index count = hex_to_decimal_loop text index count 0"

fun hex_to_string_loop :: "nat \<Rightarrow> string \<Rightarrow> string \<Rightarrow> string" where
  "hex_to_string_loop i [] buffer = buffer"
| "hex_to_string_loop i (v # data) buffer =
     (let buffer = (if i > 0 then buffer[3 * i - 1 := CHR '' ''] else buffer);
          buffer = buffer[3 * i := hex_lower_case ! unat (drop_bit 4 (uchar v) AND 0xF)];
          buffer = buffer[3 * i + 1 := hex_lower_case ! unat (uchar v AND 0xF)]
      in hex_to_string_loop (i + 1) data buffer)"

definition hex_to_string :: "string \<Rightarrow> string \<Rightarrow> bool \<times> string" where
  "hex_to_string data buffer =
     (if data = [] then (False, buffer)
      else (True, (hex_to_string_loop 0 data buffer)[3 * length data - 1 := CHR 0x00]))"

end
