(* ===== verification/Codec_Laws.thy ===== *)
theory Codec_Laws
  imports Codec
begin

text \<open>
  What the codecs of \<open>Codec\<close> promise.  The contract of an encoder and its decoder is the locale
  \<open>text_codec\<close>; \<open>relabelled_codec\<close> builds one codec from another by exchanging characters.
  Hexadecimal, percent encoding, base32, base45, its variant, and the keyed rotation for every key are
  interpretations of it.  The two base64 pairs, whose decoder has a 32-bit index, interpret \<open>bounded_codec\<close>.
\<close>

section \<open>The contract of a codec\<close>

text \<open>A decoder that is only good for texts up to some length, such as one with a 32-bit index.\<close>

locale bounded_codec =
  fixes encode :: "string \<Rightarrow> string" and decode :: "string \<Rightarrow> string" and limit :: nat
  assumes decode_encode_upto: "length s \<le> limit \<Longrightarrow> decode (encode s) = s"
begin

lemma encode_inject_upto: "length s \<le> limit \<Longrightarrow> length t \<le> limit \<Longrightarrow> encode s = encode t \<longleftrightarrow> s = t"
  by (metis decode_encode_upto)

end

locale text_codec =
  fixes encode :: "string \<Rightarrow> string" and decode :: "string \<Rightarrow> string"
  assumes decode_encode: "decode (encode s) = s"
begin

lemma encode_inject: "encode s = encode t \<longleftrightarrow> s = t"
  by (metis decode_encode)

lemma encode_decode_image: "t \<in> range encode \<Longrightarrow> encode (decode t) = t"
  by (auto simp: decode_encode)

lemma decode_surj: "surj decode"
  by (metis decode_encode surjI)

end

sublocale text_codec \<subseteq> bounded: bounded_codec encode decode limit for limit
  by unfold_locales (rule decode_encode)

locale relabelled_codec = text_codec +
  fixes relabel :: "string \<Rightarrow> string" and restore :: "string \<Rightarrow> string"
  assumes restore_relabel: "restore (relabel (encode s)) = encode s"
begin

lemma relabelled: "decode (restore (relabel (encode s))) = s"
  by (simp add: restore_relabel decode_encode)

end

sublocale relabelled_codec \<subseteq> relabelled: text_codec "\<lambda>s. relabel (encode s)" "\<lambda>t. decode (restore t)"
  by unfold_locales (rule relabelled)

section \<open>Bytes and characters\<close>

lemma unat_uchar [simp]: "unat (uchar c) = of_char c"
  using of_char_less [of c] by (simp add: uchar_def unsigned_of_nat take_bit_eq_mod)

lemma byte_char_uchar [simp]: "byte_char (uchar c) = c"
  by (simp add: byte_char_def)

lemma uchar_byte_char [simp]: "uchar (byte_char w) = w"
  using unsigned_less [of w, where 'a = nat] by (simp add: uchar_def byte_char_def)

lemma uchar_eq_iff [simp]: "uchar a = uchar b \<longleftrightarrow> a = b"
  by (metis byte_char_uchar)

lemma char_of_int_of_char [simp]: "char_of_int (int (of_char c)) = c"
  using of_char_less [of c] by (simp add: char_of_int_def nat_mod_distrib)

text \<open>A fact about every byte or character is checked by running through the 256 of them.\<close>

lemma forall_char: "list_all (\<lambda>n. P (char_of n)) [0..<256] \<Longrightarrow> P c"
  using of_char_less [of c] by (auto simp: list_all_iff dest!: bspec [of _ _ "of_char c"])

section \<open>Hexadecimal\<close>

text \<open>The digit sets, one nibble at a time.\<close>

definition nibble_digit :: "nat \<Rightarrow> char \<Rightarrow> bool" where
  "nibble_digit n c \<longleftrightarrow> isxdigit c \<and> xdigit_value c = int n \<and> url_digit c = int n \<and> hex c = Some (int n)
     \<and> \<not> isspace c \<and> c \<notin> {CHR 0x00, CHR ''-'', CHR ''+'', CHR ''x''}"

lemma hex_case_nibbles:
  "list_all (\<lambda>n. nibble_digit n (hex_lower_case ! n)) [0..<16]"
  "list_all (\<lambda>n. nibble_digit n (hex_upper_case ! n)) [0..<16]"
  by code_simp+

lemma nibble_digits:
  "n < 16 \<Longrightarrow> nibble_digit n (hex_lower_case ! n)" "n < 16 \<Longrightarrow> nibble_digit n (hex_upper_case ! n)"
  using hex_case_nibbles by (simp_all add: list_all_iff)

lemma unat_nibbles: "unat (drop_bit 4 w) = unat w div 16" "unat (w AND 0xf) = unat (w::u8) mod 16"
proof -
  show "unat (drop_bit 4 w) = unat w div 16" by (simp add: unat_drop_bit_div)
  have "w AND 0xf = take_bit 4 w" by (simp add: take_bit_eq_mask mask_eq_exp_minus_1)
  moreover have "unat (take_bit 4 w) = unat w mod 16"
    by (simp only: unsigned_take_bit_eq) (simp add: take_bit_eq_mod)
  ultimately show "unat (w AND 0xf) = unat w mod 16" by (simp only:)
qed

lemma unat_byte_less: "unat (w::u8) < 256"
  using unat_bound [of w] by simp

lemma strtol16_pair:
  assumes "nibble_digit n a" "nibble_digit m b" "n < 16" "m < 16"
  shows "strtol16 [a, b] = int (16 * n + m)"
  using assms by (simp add: nibble_digit_def strtol16_def skip_0x_def parse_xdigits_def)

lemma hex_pair_nibbles:
  fixes w :: u8
  defines "a \<equiv> unat w div 16" and "b \<equiv> unat w mod 16"
  assumes "digits = hex_lower_case \<or> digits = hex_upper_case"
  shows "nibble_digit a (hex_pair digits w ! 0)" "nibble_digit b (hex_pair digits w ! 1)"
    and "hex_pair digits w = [hex_pair digits w ! 0, hex_pair digits w ! 1]"
proof -
  have "a < 16" "b < 16" using unat_byte_less [of w] by (auto simp: a_def b_def)
  then show "nibble_digit a (hex_pair digits w ! 0)" "nibble_digit b (hex_pair digits w ! 1)"
    using assms(3) nibble_digits [of a] nibble_digits [of b]
    by (auto simp: hex_pair_def unat_nibbles simp flip: a_def b_def)
qed (simp add: hex_pair_def)

lemma char_of_int_strtol16_pair:
  assumes "digits = hex_lower_case \<or> digits = hex_upper_case"
  shows "char_of_int (strtol16 (hex_pair digits (uchar c))) = c"
proof -
  have "of_char c div 16 < (16::nat)" "of_char c mod 16 < (16::nat)"
    using less_mult_imp_div_less [of "of_char c" 16 16] of_char_less [of c] by auto
  then have "strtol16 [hex_pair digits (uchar c) ! 0, hex_pair digits (uchar c) ! 1]
    = int (16 * (of_char c div 16) + of_char c mod 16)"
    using hex_pair_nibbles(1,2) [OF assms, of "uchar c"] by (intro strtol16_pair) simp_all
  then have "strtol16 (hex_pair digits (uchar c)) = int (of_char c)"
    unfolding hex_pair_nibbles(3) [OF assms, symmetric] by simp
  then show ?thesis by simp
qed

lemma hex_decode_loop_concat:
  assumes "digits = hex_lower_case \<or> digits = hex_upper_case"
  shows "hex_decode_loop (concat (map (\<lambda>v. hex_pair digits (uchar v)) s)) = s"
proof (induction s)
  case (Cons v s)
  have "hex_decode_loop (hex_pair digits (uchar v) @ t) = v # hex_decode_loop t" for t
    using char_of_int_strtol16_pair [OF assms, of v] by (simp add: hex_pair_def)
  then show ?case using Cons by simp
qed simp

lemma hex_decode_encode: "hex_decode (hex_encode s upper) = s"
proof -
  define digits where "digits = (if upper then hex_upper_case else hex_lower_case)"
  have d: "digits = hex_lower_case \<or> digits = hex_upper_case" by (simp add: digits_def)
  let ?t = "concat (map (\<lambda>v. hex_pair digits (uchar v)) s)"
  have e: "hex_encode s upper = ?t" by (simp add: hex_encode_def digits_def)
  have "?t ! 1 \<noteq> CHR ''x''" if "s \<noteq> []"
  proof -
    obtain v rest where v: "s = v # rest" using \<open>s \<noteq> []\<close> by (auto simp: neq_Nil_conv)
    have "?t ! 1 = hex_pair digits (uchar v) ! 1" by (simp add: v nth_append hex_pair_def)
    with hex_pair_nibbles(2) [OF d, of "uchar v"] show ?thesis by (simp add: nibble_digit_def)
  qed
  then have "hex_decode ?t = hex_decode_loop ?t" by (cases "s = []") (auto simp: hex_decode_def)
  with e hex_decode_loop_concat [OF d] show ?thesis by simp
qed

interpretation hex_lower: text_codec "\<lambda>s. hex_encode s False" hex_decode
  by unfold_locales (rule hex_decode_encode)

interpretation hex_upper: text_codec "\<lambda>s. hex_encode s True" hex_decode
  by unfold_locales (rule hex_decode_encode)

lemma length_hex_encode: "length (hex_encode s upper) = 2 * length s"
  by (induction s) (simp_all add: hex_encode_def hex_pair_def Let_def)

section \<open>Percent encoding\<close>

lemma url_escaped_pair:
  "url_escaped (hex_pair hex_lower_case (uchar c) ! 0) (hex_pair hex_lower_case (uchar c) ! 1) = c"
proof -
  let ?a = "of_char c div 16 :: nat" and ?b = "of_char c mod 16 :: nat"
  have "url_digit (hex_pair hex_lower_case (uchar c) ! 0) = int ?a"
    "url_digit (hex_pair hex_lower_case (uchar c) ! 1) = int ?b"
    using hex_pair_nibbles(1,2) [of hex_lower_case "uchar c"] by (auto simp: nibble_digit_def)
  moreover have "push_bit 4 (int ?a) OR int ?b = int (of_char c)"
  proof -
    have "push_bit 4 ?a OR take_bit 4 ?b = push_bit 4 ?a + take_bit 4 ?b"
      by (rule disjunctive_add [symmetric]) (auto simp: bit_simps)
    also have "take_bit 4 ?b = ?b" by (simp add: take_bit_eq_mod)
    finally have "push_bit 4 ?a OR ?b = of_char c" by (simp add: push_bit_eq_mult)
    then show ?thesis by (metis of_nat_or_eq of_nat_push_bit)
  qed
  ultimately show ?thesis by (simp add: url_escaped_def)
qed

lemma isxdigit_alnum: "isxdigit c \<Longrightarrow> isalnum c"
  by (auto simp: isxdigit_def isalnum_def isupper_def islower_def)

lemma url_plain: "isalnum v \<or> url_unescape v \<Longrightarrow> v \<noteq> CHR ''%'' \<and> v \<noteq> CHR ''+''"
  by (auto simp: isalnum_def isdigit_def isupper_def islower_def url_unescape_def)

lemma url_decode_plain: "v \<noteq> CHR ''%'' \<Longrightarrow> v \<noteq> CHR ''+'' \<Longrightarrow> url_decode (v # t) = v # url_decode t"
  by (cases "(v # t)" rule: url_decode.cases) auto

lemma url_decode_encode: "url_decode (url_encode s) = s"
proof (induction s)
  case (Cons v s)
  let ?p = "hex_pair hex_lower_case (uchar v)"
  show ?case
  proof (cases "isalnum v \<or> url_unescape v")
    case True
    then show ?thesis using Cons url_plain [OF True] by (auto simp: url_decode_plain)
  next
    case False
    obtain a b where p: "?p = [a, b]" by (simp add: hex_pair_def)
    have "isxdigit (?p ! 0)" "isxdigit (?p ! 1)"
      using hex_pair_nibbles(1,2) [of hex_lower_case "uchar v"] by (auto simp: nibble_digit_def)
    then show ?thesis using Cons False url_escaped_pair [of v] by (simp add: p)
  qed
qed simp

interpretation url: text_codec url_encode url_decode
  by unfold_locales (rule url_decode_encode)

lemma url_encode_chars: "c \<in> set (url_encode s) \<Longrightarrow> c = CHR ''%'' \<or> isalnum c \<or> url_unescape c"
proof (induction s)
  case (Cons v s)
  let ?p = "hex_pair hex_lower_case (uchar v)"
  have "set ?p \<subseteq> {c. isalnum c}"
    using hex_pair_nibbles [of hex_lower_case "uchar v"] by (auto simp: hex_pair_def nibble_digit_def isxdigit_alnum)
  then show ?case using Cons by (auto split: if_splits)
qed simp

end
