(* ===== verification/Codec_Base64.thy ===== *)
theory Codec_Base64
  imports Codec_Laws
begin

text \<open>
  Base64.  The encoder is first brought into a recursive form over blocks of three bytes and the decoder, on texts its
  32-bit index can walk over, into one on lists; the round trip is then proved once, in the locale \<open>alphabet64\<close> of a set
  of 64 distinct characters the decoder accepts, and interpreted for the two sets of the sources.  Last, the encoder is
  shown equal to \<open>rfc4648\<close>, the encoding of the standard, which is defined on the bits of the bytes.
\<close>

section \<open>Six-bit groups\<close>

lemma eight_cases: "n < 8 \<Longrightarrow> P 0 \<Longrightarrow> P 1 \<Longrightarrow> P 2 \<Longrightarrow> P 3 \<Longrightarrow> P 4 \<Longrightarrow> P 5 \<Longrightarrow> P 6 \<Longrightarrow> P 7 \<Longrightarrow> P (n::nat)"
proof -
  assume "n < 8" then have "n \<in> {0,1,2,3,4,5,6,7}" by auto
  then show "P 0 \<Longrightarrow> P 1 \<Longrightarrow> P 2 \<Longrightarrow> P 3 \<Longrightarrow> P 4 \<Longrightarrow> P 5 \<Longrightarrow> P 6 \<Longrightarrow> P 7 \<Longrightarrow> P n" by auto
qed

lemma byte_eqI: "(\<And>n. n < 8 \<Longrightarrow> bit a n = bit (b::u8) n) \<Longrightarrow> a = b"
  by (rule bit_word_eqI) simp

lemma byte_add_or:
  "(\<And>n. n < 8 \<Longrightarrow> \<not> (bit a n \<and> bit b n)) \<Longrightarrow> a + b = (a OR b :: u8)"
proof (rule disjunctive_add)
  fix n assume "\<And>n. n < 8 \<Longrightarrow> \<not> (bit a n \<and> bit b n)"
  then show "\<not> bit a n \<or> \<not> bit b n" by (cases "n < 8") (auto simp: bit_beyond)
qed

lemma row4_or:
  fixes a b c :: u8
  shows "push_bit 4 (a AND 0x03) + drop_bit 4 (b AND 0xf0) = (push_bit 4 (a AND 0x03) OR drop_bit 4 (b AND 0xf0))"
    and "push_bit 2 (b AND 0x0f) + drop_bit 6 (c AND 0xc0) = (push_bit 2 (b AND 0x0f) OR drop_bit 6 (c AND 0xc0))"
  by (rule byte_add_or; erule eight_cases; simp add: bit_simps)+

lemma row4_of_or:
  "row4_of a b c =
     [drop_bit 2 (a AND 0xfc), push_bit 4 (a AND 0x03) OR drop_bit 4 (b AND 0xf0),
      push_bit 2 (b AND 0x0f) OR drop_bit 6 (c AND 0xc0), c AND 0x3f]"
  by (simp only: row4_of_def row4_or)

lemma row3_or:
  fixes a b c d :: u8
  shows "push_bit 2 a + drop_bit 4 (b AND 0x30) = (push_bit 2 a OR drop_bit 4 (b AND 0x30))"
    and "push_bit 4 (b AND 0xf) + drop_bit 2 (c AND 0x3c) = (push_bit 4 (b AND 0xf) OR drop_bit 2 (c AND 0x3c))"
    and "push_bit 6 (c AND 0x3) + (d AND 0x3f) = (push_bit 6 (c AND 0x3) OR (d AND 0x3f))"
  by (rule byte_add_or; erule eight_cases; simp add: bit_simps)+

lemma row3_of_row4_of: "row4_of a b c = [p, q, r, s] \<Longrightarrow> row3_of p q r s = [a, b, c]"
proof -
  assume "row4_of a b c = [p, q, r, s]"
  then have e: "p = drop_bit 2 (a AND 0xfc)" "q = (push_bit 4 (a AND 0x03) OR drop_bit 4 (b AND 0xf0))"
    "r = (push_bit 2 (b AND 0x0f) OR drop_bit 6 (c AND 0xc0))" "s = (c AND 0x3f)"
    unfolding row4_of_or by (blast dest: sym)+
  have "push_bit 2 p OR drop_bit 4 (q AND 0x30) = a"
    unfolding e by (rule byte_eqI, erule eight_cases) (simp_all add: bit_simps)
  moreover have "push_bit 4 (q AND 0xf) OR drop_bit 2 (r AND 0x3c) = b"
    unfolding e by (rule byte_eqI, erule eight_cases) (simp_all add: bit_simps)
  moreover have "push_bit 6 (r AND 0x3) OR (c AND 0x3f) = c"
    unfolding e by (rule byte_eqI, erule eight_cases) (simp_all add: bit_simps)
  ultimately show ?thesis unfolding row3_of_def e(4) row3_or by simp
qed

lemma sextet_bound:
  fixes w :: u8
  assumes "\<not> bit w 6" "\<not> bit w 7" shows "unat w < 64"
proof -
  have "w = take_bit 6 w" using assms by (intro byte_eqI, elim eight_cases) (simp_all add: bit_simps)
  then have "unat w = unat (take_bit 6 w)" by simp
  also have "\<dots> = unat w mod 64" by (simp only: unsigned_take_bit_eq) (simp add: take_bit_eq_mod)
  finally show ?thesis by (metis mod_less_divisor zero_less_numeral)
qed

lemma row4_of_bound: "v \<in> set (row4_of a b c) \<Longrightarrow> unat v < 64"
  by (auto simp: row4_of_or bit_simps intro!: sextet_bound)

section \<open>The encoder by blocks of three bytes\<close>

definition sextets :: "string \<Rightarrow> u8 list \<Rightarrow> string" where
  "sextets alphabet row4 = map (\<lambda>v. alphabet ! unat v) row4"

fun encode64_blocks :: "string \<Rightarrow> bool \<Rightarrow> string \<Rightarrow> string" where
  "encode64_blocks alphabet padding (a # b # c # s) =
     sextets alphabet (row4_of (uchar a) (uchar b) (uchar c)) @ encode64_blocks alphabet padding s"
| "encode64_blocks alphabet padding [a, b] =
     sextets alphabet (take 3 (row4_of (uchar a) (uchar b) 0)) @ (if padding then ''='' else [])"
| "encode64_blocks alphabet padding [a] =
     sextets alphabet (take 2 (row4_of (uchar a) 0 0)) @ (if padding then ''=='' else [])"
| "encode64_blocks alphabet padding [] = []"

lemma encode64_loop_result:
  "encode64_loop alphabet s row3 result =
     (result @ fst (encode64_loop alphabet s row3 []), snd (encode64_loop alphabet s row3 []))"
proof (induction s arbitrary: row3 result)
  case (Cons c s)
  show ?case
    by (simp add: Let_def)
       (metis Cons.IH append_Nil append_assoc fst_conv snd_conv)
qed simp

lemma encode64_block:
  "encode64 alphabet (a # b # c # s) padding =
     sextets alphabet (row4_of (uchar a) (uchar b) (uchar c)) @ encode64 alphabet s padding"
  using encode64_loop_result [of alphabet s "[]" "sextets alphabet (row4_of (uchar a) (uchar b) (uchar c))"]
  by (simp add: encode64_def row4_of_row3_def sextets_def Let_def case_prod_unfold)

lemma encode64_blocks: "encode64 alphabet s padding = encode64_blocks alphabet padding s"
proof (induction alphabet padding s rule: encode64_blocks.induct)
  case (1 alphabet padding a b c s)
  then show ?case by (simp add: encode64_block)
qed (simp_all add: encode64_def fill_row_def row4_of_row3_def sextets_def numeral_2_eq_2 numeral_3_eq_3)

lemma length_encode64_blocks:
  "length (encode64_blocks alphabet padding s) =
     (if padding then 4 * ((length s + 2) div 3) else (4 * length s + 2) div 3)"
  by (induction alphabet padding s rule: encode64_blocks.induct)
     (auto simp: sextets_def row4_of_def, presburger)

section \<open>The decoder on a set of 64 characters\<close>

text \<open>The loop of the decoder on the text itself, for texts short enough for the 32-bit index.\<close>

fun decode64_list :: "string \<Rightarrow> (char \<Rightarrow> bool) \<Rightarrow> string \<Rightarrow> u8 list \<Rightarrow> string \<Rightarrow> string \<times> u8 list" where
  "decode64_list alphabet is_alphabetic [] row4 result = (result, row4)"
| "decode64_list alphabet is_alphabetic (c # value) row4 result =
     (if c \<noteq> CHR ''='' \<and> is_alphabetic c then
        let row4 = row4 @ [uchar c]
        in if length row4 \<noteq> 4 then decode64_list alphabet is_alphabetic value row4 result
           else decode64_list alphabet is_alphabetic value []
                  (result @ map byte_char (row3_of_row4 alphabet row4))
      else (result, row4))"

definition decode64_plain :: "string \<Rightarrow> string \<Rightarrow> (char \<Rightarrow> bool) \<Rightarrow> string" where
  "decode64_plain alphabet value is_alphabetic =
     (let (result, row4) = decode64_list alphabet is_alphabetic value [] []; offset = length row4
      in if offset = 0 then result
         else result @ map byte_char (take (offset - 1) (row3_of_row4 alphabet (fill_row 4 row4))))"

lemma decode64_loop_list:
  "unat focus + n = length value \<Longrightarrow> length value \<le> 2 ^ 32 \<Longrightarrow>
   decode64_loop alphabet isa value n focus row4 result = decode64_list alphabet isa (drop (unat focus) value) row4 result"
proof (induction n arbitrary: focus row4 result)
  case (Suc n)
  have d: "drop (unat focus) value = value ! unat focus # drop (Suc (unat focus)) value"
    using Suc.prems(1) by (simp add: Cons_nth_drop_Suc)
  show ?case
  proof (cases n)
    case 0
    then show ?thesis using Suc.prems(1) unfolding d by (simp add: Let_def)
  next
    case (Suc m)
    then have "unat (focus + 1) = Suc (unat focus)"
      using Suc.prems by (simp add: unat_word_ariths)
    then show ?thesis using Suc.prems Suc.IH [of "focus + 1"] unfolding d by (simp add: Let_def)
  qed
qed simp

lemma decode64_plain: "length value \<le> 2 ^ 32 \<Longrightarrow> decode64 alphabet value isa = decode64_plain alphabet value isa"
  by (simp add: decode64_def decode64_plain_def decode64_loop_list)

lemma decode64_list_result:
  "decode64_list alphabet isa s row4 result =
     (result @ fst (decode64_list alphabet isa s row4 []), snd (decode64_list alphabet isa s row4 []))"
proof (induction s arbitrary: row4 result)
  case (Cons c s)
  show ?case
    by (simp add: Let_def)
       (metis Cons.IH append_Nil append_assoc fst_conv snd_conv)
qed simp

lemma offset_of64_from_nth:
  "distinct s \<Longrightarrow> i < length s \<Longrightarrow> offset_of64_from k s (s ! i) = k + i"
proof (induction s arbitrary: i k)
  case (Cons c s)
  then show ?case by (cases i) (auto simp: nth_Cons')
qed simp

locale alphabet64 =
  fixes alphabet :: string and is_alphabetic :: "char \<Rightarrow> bool"
  assumes length_alphabet: "length alphabet = 64"
    and distinct_alphabet: "distinct alphabet"
    and alphabet_accepted: "c \<in> set alphabet \<Longrightarrow> is_alphabetic c \<and> c \<noteq> CHR ''=''"
begin

lemma offset_of64_nth: "i < 64 \<Longrightarrow> offset_of64 alphabet (alphabet ! i) = i"
  using offset_of64_from_nth [OF distinct_alphabet, of i 0] by (simp add: offset_of64_def length_alphabet)

lemma alphabet_nth: "i < 64 \<Longrightarrow> is_alphabetic (alphabet ! i)" "i < 64 \<Longrightarrow> alphabet ! i \<noteq> CHR ''=''"
  using alphabet_accepted nth_mem [of i alphabet] by (auto simp: length_alphabet)

lemma offset_of64_sextet:
  "unat v < 64 \<Longrightarrow> word_of_nat (offset_of64 alphabet (alphabet ! unat v)) = (v::u8)"
  by (simp add: offset_of64_nth)

lemma decode64_block:
  "decode64_plain alphabet (sextets alphabet (row4_of a b c) @ s) is_alphabetic =
     map byte_char [a, b, c] @ decode64_plain alphabet s is_alphabetic"
proof -
  obtain p q r t where row: "row4_of a b c = [p, q, r, t]" by (simp add: row4_of_def)
  then have "unat p < 64" "unat q < 64" "unat r < 64" "unat t < 64"
    using row4_of_bound [of _ a b c] by auto
  then have "decode64_list alphabet is_alphabetic (sextets alphabet (row4_of a b c) @ s) [] [] =
    decode64_list alphabet is_alphabetic s [] (map byte_char [a, b, c])"
    using row3_of_row4_of [OF row]
    by (simp add: row sextets_def alphabet_nth row3_of_row4_def offset_of64_sextet)
  then show ?thesis
    using decode64_list_result [of alphabet is_alphabetic s "[]" "map byte_char [a, b, c]"]
    by (simp add: decode64_plain_def Let_def case_prod_unfold)
qed

lemma decode64_list_equals: "decode64_list alphabet is_alphabetic (replicate k (CHR ''='')) row4 result = (result, row4)"
  by (cases k) auto

lemma decode64_tail2:
  "decode64_plain alphabet (sextets alphabet (take 3 (row4_of a b 0)) @ replicate k (CHR ''='')) is_alphabetic =
     map byte_char [a, b]"
proof -
  obtain p q r t where row: "row4_of a b 0 = [p, q, r, t]" by (simp add: row4_of_def)
  then have "unat p < 64" "unat q < 64" "unat r < 64"
    using row4_of_bound [of _ a b 0] by auto
  moreover have "take (Suc (Suc 0)) (row3_of p q r x) = [a, b]" for x
    using row3_of_row4_of [OF row] by (simp add: row3_of_def)
  ultimately show ?thesis
    by (simp add: row sextets_def alphabet_nth decode64_plain_def decode64_list_equals fill_row_def
        row3_of_row4_def offset_of64_sextet take_map)
qed

lemma decode64_tail1:
  "decode64_plain alphabet (sextets alphabet (take 2 (row4_of a 0 0)) @ replicate k (CHR ''='')) is_alphabetic =
     map byte_char [a]"
proof -
  obtain p q r t where row: "row4_of a 0 0 = [p, q, r, t]" by (simp add: row4_of_def)
  then have "unat p < 64" "unat q < 64"
    using row4_of_bound [of _ a 0 0] by auto
  moreover have "take (Suc 0) (row3_of p q x y) = [a]" for x y
    using row3_of_row4_of [OF row] by (simp add: row3_of_def)
  ultimately show ?thesis
    by (simp add: row sextets_def alphabet_nth decode64_plain_def decode64_list_equals fill_row_def
        row3_of_row4_def offset_of64_sextet take_map)
qed

lemma decode64_nil: "decode64_plain alphabet (replicate k (CHR ''='')) is_alphabetic = []"
  by (simp add: decode64_plain_def decode64_list_equals)

lemma decode64_encode64_blocks:
  "al = alphabet \<Longrightarrow>
   decode64_plain alphabet (encode64_blocks al padding s @ replicate k (CHR ''='')) is_alphabetic = s"
proof (induction al padding s arbitrary: k rule: encode64_blocks.induct)
  case (1 al padding a b c s)
  then show ?case by (simp add: decode64_block)
next
  case (2 al padding a b)
  then show ?case using decode64_tail2 [of "uchar a" "uchar b" k] decode64_tail2 [of "uchar a" "uchar b" "Suc k"]
    by simp
next
  case (3 al padding a)
  then show ?case using decode64_tail1 [of "uchar a" k] decode64_tail1 [of "uchar a" "Suc (Suc k)"] by simp
qed (simp add: decode64_nil)

lemma decode64_encode64: "decode64_plain alphabet (encode64 alphabet s padding) is_alphabetic = s"
  using decode64_encode64_blocks [OF refl, of padding s 0] by (simp add: encode64_blocks)

lemma decode64_encode64_padded:
  "decode64_plain alphabet (encode64 alphabet s padding @ replicate k (CHR ''='')) is_alphabetic = s"
  using decode64_encode64_blocks [OF refl, of padding s k] by (simp add: encode64_blocks)

end

interpretation base64_alphabet: alphabet64 base64_set is_base64
proof unfold_locales
  have "list_all (\<lambda>c. is_base64 c \<and> c \<noteq> CHR ''='') base64_set" by code_simp
  then show "c \<in> set base64_set \<Longrightarrow> is_base64 c \<and> c \<noteq> CHR ''=''" for c by (simp add: list_all_iff)
qed (simp_all add: base64_set_def)

interpretation base64_url_alphabet: alphabet64 base64_url_set is_base64_url
proof unfold_locales
  have "list_all (\<lambda>c. is_base64_url c \<and> c \<noteq> CHR ''='') base64_url_set" by code_simp
  then show "c \<in> set base64_url_set \<Longrightarrow> is_base64_url c \<and> c \<noteq> CHR ''=''" for c by (simp add: list_all_iff)
qed (simp_all add: base64_url_set_def)

text \<open>The longest text whose encoding the 32-bit index of the decoder can walk over.\<close>

definition base64_limit :: nat where
  "base64_limit = 3 * 2 ^ 30"

lemma length_encode64:
  "length (encode64 alphabet s padding) = (if padding then 4 * ((length s + 2) div 3) else (4 * length s + 2) div 3)"
  by (simp add: encode64_blocks length_encode64_blocks)

interpretation base64: bounded_codec base64_encode base64_decode base64_limit
proof unfold_locales
  fix s :: string
  assume "length s \<le> base64_limit"
  then have "length (encode64 base64_set s True) \<le> 2 ^ 32" by (simp add: length_encode64 base64_limit_def)
  then show "base64_decode (base64_encode s) = s"
    using base64_alphabet.decode64_encode64 [of s True] by (simp add: base64_encode_def base64_decode_def decode64_plain)
qed

lemma length_padded_upto: "n \<le> 2 ^ 32 \<Longrightarrow> n mod 4 \<noteq> 0 \<Longrightarrow> n + (4 - n mod 4) \<le> (2 ^ 32 :: nat)"
  by simp presburger

interpretation base64_url: bounded_codec base64_url_encode base64_url_decode base64_limit
proof unfold_locales
  fix s :: string
  assume "length s \<le> base64_limit"
  then have n: "length (encode64 base64_url_set s False) \<le> 2 ^ 32" by (simp add: length_encode64 base64_limit_def)
  then show "base64_url_decode (base64_url_encode s) = s"
    using base64_url_alphabet.decode64_encode64 [of s False] base64_url_alphabet.decode64_encode64_padded [of s False] length_padded_upto [OF n]
    by (simp add: base64_url_encode_def base64_url_decode_def decode64_plain Let_def)
qed

section \<open>The encoding of RFC 4648\<close>

text \<open>
  The standard takes the bits of the bytes, most significant first, fills the last group of six with zeros and
  maps every group, read as a number, to a letter, a digit or one of two marks.
\<close>

primrec byte_bits :: "char \<Rightarrow> bool list" where
  "byte_bits (Char b0 b1 b2 b3 b4 b5 b6 b7) = [b7, b6, b5, b4, b3, b2, b1, b0]"

definition bits_number :: "bool list \<Rightarrow> nat" where
  "bits_number bs = foldl (\<lambda>n b. 2 * n + of_bool b) 0 bs"

function six_bit_groups :: "bool list \<Rightarrow> nat list" where
  "six_bit_groups bs =
     (if bs = [] then [] else bits_number (take 6 bs @ replicate (6 - length bs) False) # six_bit_groups (drop 6 bs))"
  by auto
termination by (relation "measure length") auto

declare six_bit_groups.simps [simp del]

definition rfc4648_symbol :: "char \<Rightarrow> char \<Rightarrow> nat \<Rightarrow> char" where
  "rfc4648_symbol c62 c63 n =
     (if n < 26 then char_of (of_char (CHR ''A'') + n)
      else if n < 52 then char_of (of_char (CHR ''a'') + (n - 26))
      else if n < 62 then char_of (of_char (CHR ''0'') + (n - 52))
      else if n = 62 then c62 else c63)"

definition rfc4648 :: "char \<Rightarrow> char \<Rightarrow> bool \<Rightarrow> string \<Rightarrow> string" where
  "rfc4648 c62 c63 padding s =
     map (rfc4648_symbol c62 c63) (six_bit_groups (concat (map byte_bits s)))
     @ (if padding then replicate ((3 - length s mod 3) mod 3) (CHR ''='') else [])"

lemma bit_uchar: "n < 8 \<Longrightarrow> bit (uchar c) n = rev (byte_bits c) ! n"
proof (cases c)
  case (Char b0 b1 b2 b3 b4 b5 b6 b7)
  assume "n < 8"
  moreover have "uchar c = horner_sum of_bool 2 [b0, b1, b2, b3, b4, b5, b6, b7]"
    by (simp add: uchar_def Char of_char_def)
  ultimately show ?thesis by (simp add: Char bit_horner_sum_bit_word_iff del: horner_sum_simps)
qed

lemma unat_sextet:
  fixes w :: u8
  assumes "\<not> bit w 6" "\<not> bit w 7"
  shows "unat w = bits_number (map (bit w) [5, 4, 3, 2, 1, 0])"
proof -
  have "unat w = take_bit 8 (unat w)" using unsigned_less [of w, where 'a = nat] by (simp add: take_bit_eq_mod)
  also have "\<dots> = horner_sum of_bool 2 (map (bit w) [0..<8])"
    by (simp add: horner_sum_bit_eq_take_bit [symmetric] bit_simps cong: map_cong)
  also have "[0..<8] = [0, 1, 2, 3, 4, 5, 6, 7]" by code_simp
  finally show ?thesis using assms by (simp add: bits_number_def)
qed

lemma row4_bits:
  assumes "byte_bits a = [a7, a6, a5, a4, a3, a2, a1, a0]" "byte_bits b = [b7, b6, b5, b4, b3, b2, b1, b0]"
    "byte_bits c = [c7, c6, c5, c4, c3, c2, c1, c0]"
  shows "map unat (row4_of (uchar a) (uchar b) (uchar c)) =
      [bits_number [a7, a6, a5, a4, a3, a2], bits_number [a1, a0, b7, b6, b5, b4],
       bits_number [b3, b2, b1, b0, c7, c6], bits_number [c5, c4, c3, c2, c1, c0]]"
proof -
  have u: "bit (uchar a) n = rev [a7, a6, a5, a4, a3, a2, a1, a0] ! n" "bit (uchar b) n = rev [b7, b6, b5, b4, b3, b2, b1, b0] ! n"
    "bit (uchar c) n = rev [c7, c6, c5, c4, c3, c2, c1, c0] ! n" if "n < 8" for n
    using bit_uchar that assms by simp_all
  show ?thesis unfolding row4_of_or
    by (simp add: unat_sextet bit_simps u)
qed

lemma byte_bits_cases:
  obtains b7 b6 b5 b4 b3 b2 b1 b0 where "byte_bits c = [b7, b6, b5, b4, b3, b2, b1, b0]"
  by (cases c) auto

lemma six_bit_groups_full: "length g = 6 \<Longrightarrow> six_bit_groups (g @ bs) = bits_number g # six_bit_groups bs"
  by (subst six_bit_groups.simps) auto

lemma six_bit_groups_last:
  "bs \<noteq> [] \<Longrightarrow> length bs \<le> 6 \<Longrightarrow> six_bit_groups bs = [bits_number (bs @ replicate (6 - length bs) False)]"
  by (subst six_bit_groups.simps) (simp add: six_bit_groups.simps [of "[]"])

lemma byte_bits_zero: "byte_bits (CHR 0x00) = [False, False, False, False, False, False, False, False]"
  by simp

lemma groups_three:
  "six_bit_groups (byte_bits a @ byte_bits b @ byte_bits c @ bs) = map unat (row4_of (uchar a) (uchar b) (uchar c)) @ six_bit_groups bs"
proof -
  obtain a7 a6 a5 a4 a3 a2 a1 a0 where a: "byte_bits a = [a7, a6, a5, a4, a3, a2, a1, a0]" by (rule byte_bits_cases)
  obtain b7 b6 b5 b4 b3 b2 b1 b0 where b: "byte_bits b = [b7, b6, b5, b4, b3, b2, b1, b0]" by (rule byte_bits_cases)
  obtain c7 c6 c5 c4 c3 c2 c1 c0 where c: "byte_bits c = [c7, c6, c5, c4, c3, c2, c1, c0]" by (rule byte_bits_cases)
  show ?thesis
    using row4_bits [OF a b c] six_bit_groups_full [of "[a7, a6, a5, a4, a3, a2]"] six_bit_groups_full [of "[a1, a0, b7, b6, b5, b4]"]
      six_bit_groups_full [of "[b3, b2, b1, b0, c7, c6]"] six_bit_groups_full [of "[c5, c4, c3, c2, c1, c0]"]
    by (simp add: a b c)
qed

lemma groups_two:
  "six_bit_groups (byte_bits a @ byte_bits b) = map unat (take 3 (row4_of (uchar a) (uchar b) 0))"
proof -
  obtain a7 a6 a5 a4 a3 a2 a1 a0 where a: "byte_bits a = [a7, a6, a5, a4, a3, a2, a1, a0]" by (rule byte_bits_cases)
  obtain b7 b6 b5 b4 b3 b2 b1 b0 where b: "byte_bits b = [b7, b6, b5, b4, b3, b2, b1, b0]" by (rule byte_bits_cases)
  show ?thesis
    using row4_bits [OF a b byte_bits_zero] six_bit_groups_full [of "[a7, a6, a5, a4, a3, a2]"] six_bit_groups_full [of "[a1, a0, b7, b6, b5, b4]"]
      six_bit_groups_last [of "[b3, b2, b1, b0]"]
    by (simp add: a b take_map [symmetric] uchar_def numeral_2_eq_2)
qed

lemma replicate_four: "replicate 4 x = [x, x, x, x]"
  by (simp add: numeral_eq_Suc)

lemma groups_one:
  "six_bit_groups (byte_bits a) = map unat (take 2 (row4_of (uchar a) 0 0))"
proof -
  obtain a7 a6 a5 a4 a3 a2 a1 a0 where a: "byte_bits a = [a7, a6, a5, a4, a3, a2, a1, a0]" by (rule byte_bits_cases)
  show ?thesis
    using row4_bits [OF a byte_bits_zero byte_bits_zero] six_bit_groups_full [of "[a7, a6, a5, a4, a3, a2]"]
      six_bit_groups_last [of "[a1, a0]"]
    by (simp add: a take_map [symmetric] uchar_def numeral_2_eq_2 replicate_four [of False])
qed

definition rfc4648_alphabet :: "char \<Rightarrow> char \<Rightarrow> string" where
  "rfc4648_alphabet c62 c63 = map (rfc4648_symbol c62 c63) [0..<64]"

lemma symbols:
  assumes "alphabet = rfc4648_alphabet c62 c63" "\<And>v. v \<in> set vs \<Longrightarrow> unat v < 64"
  shows "map (rfc4648_symbol c62 c63) (map unat vs) = sextets alphabet vs"
  using assms(2) by (simp add: sextets_def assms(1) rfc4648_alphabet_def)

lemma take_row4_of_bound: "v \<in> set (take n (row4_of a b c)) \<Longrightarrow> unat v < 64"
  by (blast dest: in_set_takeD intro: row4_of_bound)

lemma encode64_rfc4648:
  assumes "alphabet = rfc4648_alphabet c62 c63"
  shows "encode64 alphabet s padding = rfc4648 c62 c63 padding s"
  using assms unfolding encode64_blocks
proof (induction alphabet padding s rule: encode64_blocks.induct)
  case (1 alphabet padding a b c s)
  show ?case using symbols [OF 1(2) row4_of_bound [of _ "uchar a" "uchar b" "uchar c"]] 1(1) [OF 1(2)] by (simp add: rfc4648_def groups_three)
next
  case (2 alphabet padding a b)
  show ?case using symbols [OF 2 take_row4_of_bound [of _ 3 "uchar a" "uchar b" 0]]
    by (simp add: rfc4648_def groups_two)
next
  case (3 alphabet padding a)
  show ?case using symbols [OF 3 take_row4_of_bound [of _ 2 "uchar a" 0 0]]
    by (simp add: rfc4648_def groups_one numeral_2_eq_2)
next
  case (4 alphabet padding)
  show ?case by (simp add: rfc4648_def six_bit_groups.simps)
qed

lemma base64_sets:
  "base64_set = rfc4648_alphabet (CHR ''+'') (CHR ''/'')"
  "base64_url_set = rfc4648_alphabet (CHR ''-'') (CHR ''_'')"
  by code_simp+

end
