(* ===== verification/Codec_Base45.thy ===== *)
theory Codec_Base45
  imports Codec_Laws
begin

text \<open>
  Base45, its relabelled variant and the keyed rotation as codecs.
\<close>

section \<open>Base45\<close>

lemma base45_digits: "list_all (\<lambda>n. base45_digit (base45_alphabet ! n) = int n) [0..<45]"
  by (simp add: base45_digit_def base45_alphabet_def base45_char_to_int_def schar_def nth_append upt_rec)

lemma base45_digit_nth: "0 \<le> n \<Longrightarrow> n < 45 \<Longrightarrow> base45_digit (base45_alphabet ! nat n) = n"
  using base45_digits by (simp add: list_all_iff)

lemma sdiv_smod_nonneg: "0 \<le> x \<Longrightarrow> x sdiv (256::int) = x div 256" "0 \<le> x \<Longrightarrow> x smod (256::int) = x mod 256"
  by (auto simp: signed_divide_int_def signed_modulo_int_def sgn_if minus_div_mult_eq_mod)

lemma base45_split:
  fixes x :: int
  shows "x mod 2025 mod 45 + 45 * (x mod 2025 div 45) + x div 2025 * 45 * 45 = x"
  by (simp add: mod_div_mult_eq mult_div_mod_eq)

lemma byte_pair_range:
  "0 \<le> int (of_char h) * 256 + int (of_char l)" "int (of_char h) * 256 + int (of_char l) < 65536"
proof -
  have "int (of_char h) < 256" "int (of_char l) < 256" using of_char_less [of h] of_char_less [of l] by linarith+
  then show "0 \<le> int (of_char h) * 256 + int (of_char l)" "int (of_char h) * 256 + int (of_char l) < 65536" by linarith+
qed

lemma base45_decode_block:
  assumes x: "0 \<le> x" "x < 65536"
  shows "base45_decode (base45_alphabet ! nat (x mod 2025 mod 45) # base45_alphabet ! nat (x mod 2025 div 45)
      # base45_alphabet ! nat (x div 2025) # t)
    = char_of_int (x div 256) # char_of_int (x mod 256) # base45_decode t"
proof -
  have d: "0 \<le> x mod 2025 mod 45" "x mod 2025 mod 45 < 45" "0 \<le> x mod 2025 div 45"
    "x mod 2025 div 45 < 45" "0 \<le> x div 2025" "x div 2025 < 45"
    using x pos_mod_bound [of 2025 x] by (auto simp: pos_imp_zdiv_nonneg_iff)
  let ?c = "x mod 2025 mod 45" and ?d = "x mod 2025 div 45" and ?e = "x div 2025"
  have "base45_digit (base45_alphabet ! nat ?c) = ?c" "base45_digit (base45_alphabet ! nat ?d) = ?d"
    "base45_digit (base45_alphabet ! nat ?e) = ?e" using d base45_digit_nth by blast+
  moreover have "?c \<noteq> 255" "?d \<noteq> 255" "?e \<noteq> 255" using d by linarith+
  ultimately show ?thesis using x(1)
    by (simp only: base45_decode.simps Let_def if_False base45_split sdiv_smod_nonneg append.simps simp_thms)
qed

lemma base45_decode_encode: "base45_decode (base45_encode s) = s"
proof (induction s rule: base45_encode.induct)
  case (1 h l s)
  define x where "x = int (of_char h) * 256 + int (of_char l)"
  have x: "0 \<le> x" "x < 65536" unfolding x_def by (rule byte_pair_range)+
  have "x div 256 = int (of_char h)" "x mod 256 = int (of_char l)"
    using of_char_less [of l] by (auto simp: x_def)
  moreover have "base45_decode (base45_encode s) = s" by (rule 1) (rule refl)+
  ultimately have "base45_decode (base45_alphabet ! nat (x mod 2025 mod 45) # base45_alphabet ! nat (x mod 2025 div 45)
      # base45_alphabet ! nat (x div 2025) # base45_encode s) = h # l # s"
    by (simp only: base45_decode_block [OF x] char_of_int_of_char)
  then show ?case by (simp add: x_def Let_def)
next
  case (2 h)
  define x where "x = int (of_char h)"
  have x: "0 \<le> x" "x < 256" using of_char_less [of h] by (auto simp: x_def)
  then have d: "0 \<le> x mod 45" "x mod 45 < 45" "0 \<le> x div 45" "x div 45 < 45"
    by (auto simp: pos_imp_zdiv_nonneg_iff)
  then have "base45_digit (base45_alphabet ! nat (x mod 45)) = x mod 45"
    "base45_digit (base45_alphabet ! nat (x div 45)) = x div 45" using base45_digit_nth by blast+
  moreover have "x mod 45 \<noteq> 255" "x div 45 \<noteq> 255" using d by linarith+
  ultimately have "base45_decode [base45_alphabet ! nat (x mod 45), base45_alphabet ! nat (x div 45)] = [char_of_int x]"
    by (simp only: base45_decode.simps Let_def if_False simp_thms mod_mult_div_eq)
  then show ?case by (simp add: x_def Let_def)
qed simp

interpretation base45: text_codec base45_encode base45_decode
  by unfold_locales (rule base45_decode_encode)

text \<open>No character is rejected: the signed comparison with 255 never succeeds.\<close>

lemma base45_digit_not_255: "base45_digit c \<noteq> 255"
  using schar_range(2) [of "char_of (base45_char_to_int ! of_char c)"] by (simp add: base45_digit_def)

lemma length_base45_decode:
  "length (base45_decode s) = 2 * (length s div 3) + (if length s mod 3 = 2 then 1 else 0)"
  by (induction s rule: base45_decode.induct) (simp_all add: base45_digit_not_255 Let_def div_add_self1)

lemma length_base45_encode:
  "length (base45_encode s) = 3 * (length s div 2) + 2 * (length s mod 2)"
  by (induction s rule: base45_encode.induct) (auto simp: Let_def)

section \<open>The relabelled variant\<close>

lemma replace_char_map: "replace_char s a b = map (\<lambda>c. if c = a then b else c) s"
  by (induction s) auto

lemma foldl_replace_char:
  "foldl (\<lambda>s (a, b). replace_char s a b) s ps =
     map (\<lambda>c. foldl (\<lambda>c (a, b). if c = a then b else c) c ps) s"
  by (induction ps arbitrary: s) (auto simp: replace_char_map comp_def)

lemma base45_encode_alphabet: "set (base45_encode s) \<subseteq> set base45_alphabet"
proof (induction s rule: base45_encode.induct)
  case (1 h l s)
  define x where "x = int (of_char h) * 256 + int (of_char l)"
  have x: "0 \<le> x" "x < 65536" unfolding x_def by (rule byte_pair_range)+
  then have "nat (x mod 2025 mod 45) < 45" "nat (x mod 2025 div 45) < 45" "nat (x div 2025) < 45"
    using pos_mod_bound [of 2025 x] by (auto simp: nat_less_iff pos_imp_zdiv_nonneg_iff)
  moreover have "length base45_alphabet = 45" by (simp add: base45_alphabet_def)
  ultimately have "base45_alphabet ! nat (x mod 2025 mod 45) \<in> set base45_alphabet"
    "base45_alphabet ! nat (x mod 2025 div 45) \<in> set base45_alphabet"
    "base45_alphabet ! nat (x div 2025) \<in> set base45_alphabet" by (metis nth_mem)+
  moreover have "set (base45_encode s) \<subseteq> set base45_alphabet" by (rule 1) (rule refl)+
  moreover have "base45_encode (h # l # s) = [base45_alphabet ! nat (x mod 2025 mod 45),
      base45_alphabet ! nat (x mod 2025 div 45), base45_alphabet ! nat (x div 2025)] @ base45_encode s"
    unfolding x_def by (subst base45_encode.simps(1)) (simp only: Let_def unat_uchar arith_simps)
  ultimately show ?case by simp
next
  case (2 h)
  have "int (of_char h) < 256" using of_char_less [of h] by linarith
  then have "nat (int (of_char h) mod 45) < 45" "nat (int (of_char h) div 45) < 45" by linarith+
  moreover have "length base45_alphabet = 45" by (simp add: base45_alphabet_def)
  ultimately show ?case by (simp add: Let_def)
qed simp

definition relabel_char :: "char \<Rightarrow> (char \<times> char) list \<Rightarrow> char" where
  "relabel_char c ps = foldl (\<lambda>c (a, b). if c = a then b else c) c ps"

lemma relabel_char_map_of:
  "distinct (map fst ps) \<Longrightarrow> set (map fst ps) \<inter> set (map snd ps) = {} \<Longrightarrow>
   relabel_char c ps = (case map_of ps c of Some b \<Rightarrow> b | None \<Rightarrow> c)"
proof (induction ps arbitrary: c)
  case (Cons p ps)
  have r: "relabel_char c (p # ps) = relabel_char (if c = fst p then snd p else c) ps"
    by (simp add: relabel_char_def case_prod_unfold)
  have "map_of ps (snd p) = None" using Cons.prems(2) by (auto simp: map_of_eq_None_iff)
  then show ?case using Cons by (auto simp: r)
qed (simp add: relabel_char_def)

lemma relabel_char_swap:
  assumes "length xs = length ys" "distinct xs" "distinct ys" "set xs \<inter> set ys = {}" "c \<notin> set ys"
  shows "relabel_char (relabel_char c (zip xs ys)) (zip ys xs) = c"
proof (cases "c \<in> set xs")
  case True
  then obtain i where "i < length xs" "c = xs ! i" by (auto simp: in_set_conv_nth)
  then show ?thesis using assms by (simp add: relabel_char_map_of map_of_zip_nth Int_commute)
next
  case False
  then have "map_of (zip xs ys) c = None" "map_of (zip ys xs) c = None"
    using assms by (simp_all add: map_of_zip_is_None)
  then have "relabel_char c (zip xs ys) = c" "relabel_char c (zip ys xs) = c"
    using relabel_char_map_of [of "zip xs ys" c] relabel_char_map_of [of "zip ys xs" c] assms
    by (simp_all add: Int_commute del: map_of_eq_None_iff map_of_zip_is_None)
  then show ?thesis by simp
qed

lemma bep45_swap:
  "c \<in> set base45_alphabet \<Longrightarrow> relabel_char (relabel_char c (zip bep45_from bep45_to)) (zip bep45_to bep45_from) = c"
  by (rule relabel_char_swap) (auto simp: base45_alphabet_def bep45_from_def bep45_to_def)

interpretation bep45_pair: relabelled_codec base45_encode base45_decode
  "\<lambda>s. foldl (\<lambda>s (a, b). replace_char s a b) s (zip bep45_from bep45_to)"
  "\<lambda>s. foldl (\<lambda>s (a, b). replace_char s a b) s (zip bep45_to bep45_from)"
proof unfold_locales
  fix s
  show "foldl (\<lambda>s (a, b). replace_char s a b)
      (foldl (\<lambda>s (a, b). replace_char s a b) (base45_encode s) (zip bep45_from bep45_to))
      (zip bep45_to bep45_from) = base45_encode s"
    using bep45_swap base45_encode_alphabet [of s]
    by (auto simp: foldl_replace_char relabel_char_def comp_def intro!: map_idI)
qed

interpretation bep45: text_codec bep45_encode bep45_decode
  by unfold_locales (simp add: bep45_encode_def bep45_decode_def bep45_pair.relabelled)

section \<open>Rotation\<close>

lemma rotate_backward_forward:
  "length orig = length written \<Longrightarrow>
   rotate_backward (rotate_forward written s hash) orig (drop (length written) (rotate_forward written s hash)) hash = orig @ s"
proof (induction s arbitrary: written orig hash)
  case (Cons b s)
  let ?w = "written @ [byte_char (uchar b + rotation_of written (hash + 1))]"
  let ?r = "rotate_forward ?w s (hash + 1)"
  have prefix: "\<exists>t. rotate_forward w s h = w @ t" for w h
    by (induction w s h rule: rotate_forward.induct) (auto simp: Let_def)
  obtain t where t: "?r = ?w @ t" using prefix by blast
  have "rotate_backward ?r (orig @ [b]) (drop (length ?w) ?r) (hash + 1) = (orig @ [b]) @ s"
    by (rule Cons.IH) (simp add: Cons.prems)
  moreover have "drop (length written) ?r = byte_char (uchar b + rotation_of written (hash + 1)) # drop (length ?w) ?r"
    unfolding t by simp
  moreover have "take (length orig) ?r = written" unfolding t by (simp add: Cons.prems)
  ultimately show ?case by (simp add: Let_def)
qed simp

lemma rotate_forward_backward:
  assumes "length orig = length written" "c = written @ s"
  shows "rotate_forward written (drop (length written) (rotate_backward c orig s hash)) hash = c"
  using assms
proof (induction s arbitrary: written orig hash)
  case (Cons b s)
  let ?o = "orig @ [byte_char (uchar b - rotation_of written (hash + 1))]"
  have prefix: "\<exists>t. rotate_backward c w s h = w @ t" for w h
    by (induction c w s h rule: rotate_backward.induct) (auto simp: Let_def)
  obtain t where t: "rotate_backward c ?o s (hash + 1) = ?o @ t" using prefix by blast
  have "rotate_forward (written @ [b]) (drop (length (written @ [b])) (rotate_backward c ?o s (hash + 1))) (hash + 1) = c"
    by (rule Cons.IH) (simp_all add: Cons.prems)
  moreover have "take (length orig) c = written" by (simp add: Cons.prems)
  ultimately show ?case using Cons.prems(1) by (simp add: Let_def t)
qed simp

lemma rotate_text_inverse:
  "0 \<le> d \<Longrightarrow> e < 0 \<Longrightarrow> rotate_text (rotate_text s hash d) hash e = s"
  "0 \<le> d \<Longrightarrow> e < 0 \<Longrightarrow> rotate_text (rotate_text s hash e) hash d = s"
  using rotate_backward_forward [of "[]" "[]" s hash] rotate_forward_backward [of "[]" "[]" s s hash]
  by (simp_all add: rotate_text_def rotate_buffer_def)

lemma length_rotate:
  "length (rotate_forward w s hash) = length w + length s"
  "length (rotate_backward c w s hash) = length w + length s"
proof -
  show "length (rotate_forward w s hash) = length w + length s"
    by (induction w s hash rule: rotate_forward.induct) (auto simp: Let_def)
  show "length (rotate_backward c w s hash) = length w + length s"
    by (induction c w s hash rule: rotate_backward.induct) (auto simp: Let_def)
qed

interpretation rotation: text_codec "\<lambda>s. rotate_text s hash 1" "\<lambda>s. rotate_text s hash (- 1)" for hash
  by unfold_locales (simp add: rotate_text_inverse)

end
