(* ===== verification/Codec_Base32.thy ===== *)
theory Codec_Base32
  imports Codec_Laws
begin

text \<open>
  Base32.  Encoder and decoder both move bits through a 64-bit shift register.  \<open>low_bits n w\<close>
  are the \<open>n\<close> bits that are pending in the register, most significant first; the encoder turns
  the bits of the text, filled with zeros, into groups of five, and the decoder turns groups
  of five into bytes and drops what is left.
\<close>

section \<open>Pending bits of a register\<close>

definition low_bits :: "nat \<Rightarrow> u64 \<Rightarrow> bool list" where
  "low_bits n w = rev (map (bit w) [0..<n])"

lemma length_low_bits [simp]: "length (low_bits n w) = n"
  by (simp add: low_bits_def)

lemma low_bits_0 [simp]: "low_bits 0 w = []"
  by (simp add: low_bits_def)

lemma low_bits_split: "low_bits (n + k) w = low_bits n (drop_bit k w) @ low_bits k w"
proof -
  have "map (bit w) [0..<n + k] = map (bit w) [0..<k] @ map (bit (drop_bit k w)) [0..<n]"
    by (rule nth_equalityI) (auto simp: nth_append bit_simps)
  then show ?thesis by (simp add: low_bits_def)
qed

lemma low_bits_cong: "(\<And>i. i < n \<Longrightarrow> bit v i = bit w i) \<Longrightarrow> low_bits n v = low_bits n w"
  by (simp add: low_bits_def)

lemma low_bits_push:
  assumes "n + k \<le> 64" "\<And>i. k \<le> i \<Longrightarrow> \<not> bit x i"
  shows "low_bits (n + k) (push_bit k p OR x) = low_bits n p @ low_bits k x"
  unfolding low_bits_split using assms
  by (intro arg_cong2 [of _ _ _ _ "(@)"] low_bits_cong) (auto simp: bit_simps)

lemma low_bits_zero [simp]: "low_bits n 0 = replicate n False"
  by (rule nth_equalityI) (simp_all add: low_bits_def rev_nth)

definition char_bits :: "char \<Rightarrow> bool list" where
  "char_bits c = low_bits 8 (ucast (uchar c))"

lemma length_char_bits [simp]: "length (char_bits c) = 8"
  by (simp add: char_bits_def)

lemma char_bits_inject: "char_bits c = char_bits d \<Longrightarrow> c = d"
proof -
  assume "char_bits c = char_bits d"
  then have "bit (uchar c) i = bit (uchar d) i" if "i < 8" for i
    using that by (auto simp: char_bits_def low_bits_def bit_simps)
  then have "uchar c = uchar d" by (intro bit_word_eqI) simp
  then show ?thesis by simp
qed

lemma concat_char_bits_inject:
  assumes "concat (map char_bits s) @ r = concat (map char_bits t) @ q" "length r < 8" "length q < 8"
  shows "s = t"
  using assms
proof (induction s arbitrary: t)
  case Nil
  then show ?case by (cases t) (auto dest: arg_cong [of _ _ length])
next
  case (Cons c s)
  show ?case
  proof (cases t)
    case Nil
    then show ?thesis using Cons.prems by (auto dest: arg_cong [of _ _ length])
  next
    case (Cons d u)
    then have "char_bits c = char_bits d" "concat (map char_bits s) @ r = concat (map char_bits u) @ q"
      using Cons.prems(1) by (auto simp: append_eq_append_conv)
    then show ?thesis using Cons.IH [of u] Cons.prems(2,3) Cons by (auto dest: char_bits_inject)
  qed
qed

section \<open>The encoder\<close>

definition five_bits :: "u64 \<Rightarrow> nat \<Rightarrow> u64" where
  "five_bits next remainder = (0x1F AND drop_bit remainder next)"

lemma five_bits_eq: "five_bits w k = take_bit 5 (drop_bit k w)"
  by (simp add: five_bits_def take_bit_eq_mask mask_eq_exp_minus_1 and.commute)

lemma unat_five_bits: "unat (five_bits w k) < 32"
proof -
  have "unat (five_bits w k) = unat (drop_bit k w) mod 32"
    unfolding five_bits_eq by (simp only: unsigned_take_bit_eq) (simp add: take_bit_eq_mod)
  then show ?thesis by simp
qed

lemma low_bits_five_bits: "low_bits 5 (five_bits w k) = low_bits 5 (drop_bit k w)"
  unfolding five_bits_eq by (rule low_bits_cong) (simp add: bit_simps)

lemma low_bits_five: "low_bits (k + 5) w = low_bits 5 (five_bits w k) @ low_bits k w"
  using low_bits_split [of 5 k w] by (simp add: low_bits_five_bits add.commute)

definition base32_chars :: "u64 list \<Rightarrow> string" where
  "base32_chars ds = map (\<lambda>d. base32_alphabet ! unat d) ds"

lemma base32_index_five: "base32_index w k = base32_alphabet ! unat (five_bits w k)"
  using unat_five_bits [of w k] by (simp add: base32_index_def five_bits_def)

definition groups_of :: "bool list \<Rightarrow> string \<Rightarrow> bool" where
  "groups_of bs t \<longleftrightarrow> (\<exists>ds k. t = base32_chars ds \<and> (\<forall>d\<in>set ds. unat d < 32) \<and> k < 5 \<and>
     concat (map (low_bits 5) ds) = bs @ replicate k False)"

lemma groups_of_Cons:
  "groups_of bs t \<Longrightarrow> groups_of (low_bits 5 (five_bits w k) @ bs) (base32_index w k # t)"
  unfolding groups_of_def
proof (elim exE conjE)
  fix ds j assume *: "t = base32_chars ds" "\<forall>d\<in>set ds. unat d < 32" "j < 5"
    "concat (map (low_bits 5) ds) = bs @ replicate j False"
  then show "\<exists>es j. base32_index w k # t = base32_chars es \<and> (\<forall>d\<in>set es. unat d < 32) \<and> j < 5 \<and>
     concat (map (low_bits 5) es) = (low_bits 5 (five_bits w k) @ bs) @ replicate j False"
    by (intro exI [of _ "five_bits w k # ds"] exI [of _ j])
       (simp add: base32_chars_def base32_index_five unat_five_bits)
qed

lemma groups_of_pad:
  assumes "0 < n" "n < 5"
  shows "groups_of (low_bits n w) [base32_index (push_bit (5 - n) w) 0]"
proof -
  have "low_bits 5 (five_bits (push_bit (5 - n) w) 0) = low_bits (n + (5 - n)) (push_bit (5 - n) w OR 0)"
    using assms low_bits_five [of 0 "push_bit (5 - n) w"] by simp
  also have "\<dots> = low_bits n w @ replicate (5 - n) False"
    using assms by (subst low_bits_push) auto
  finally show ?thesis using assms unfolding groups_of_def
    by (intro exI [of _ "[five_bits (push_bit (5 - n) w) 0]"] exI [of _ "5 - n"])
       (simp add: base32_chars_def base32_index_five unat_five_bits)
qed

lemma groups_of_Nil: "groups_of [] []"
  unfolding groups_of_def by (intro exI [of _ "[]"] exI [of _ 0]) (simp add: base32_chars_def)

lemma base32_encode_loop_end [simp]: "base32_encode_loop w [] 0 = []"
  by (simp add: base32_encode_loop.simps)

lemma register_byte:
  "k \<le> 56 \<Longrightarrow> low_bits (k + 8) (push_bit 8 w OR (ucast (uchar c) AND 0xFF)) = low_bits k w @ char_bits c"
proof -
  assume k: "k \<le> 56"
  have m: "ucast (uchar c) AND (0xFF::u64) = ucast (uchar c)"
  proof -
    have "ucast (uchar c) AND (mask 8 :: u64) = ucast (uchar c)"
      by (rule bit_word_eqI) (auto simp: bit_simps dest: bit_imp_le_length)
    then show ?thesis by (simp add: mask_eq_exp_minus_1)
  qed
  show ?thesis unfolding m char_bits_def
    using k by (intro low_bits_push) (auto simp: bit_simps bit_beyond)
qed

lemma base32_encode_loop_groups:
  "remainder \<le> 56 \<Longrightarrow> groups_of (low_bits remainder w @ concat (map char_bits s)) (base32_encode_loop w s remainder)"
proof (induction w s remainder rule: base32_encode_loop.induct)
  case (1 w s remainder)
  consider (idle) "remainder = 0" "s = []" | (pad) "0 < remainder" "remainder < 5" "s = []"
    | (shift) c t where "remainder < 5" "s = c # t" | (out) "5 \<le> remainder"
    by (cases s) force+
  then show ?case
  proof cases
    case idle
    then show ?thesis by (simp add: groups_of_Nil)
  next
    case pad
    then show ?thesis using groups_of_pad [of remainder w] by (subst base32_encode_loop.simps) simp
  next
    case shift
    define v where "v = (push_bit 8 w OR (ucast (uchar c) AND 0xFF))"
    have "low_bits remainder w @ char_bits c = low_bits 5 (five_bits v (remainder + 3)) @ low_bits (remainder + 3) v"
      using register_byte [of remainder w c] low_bits_five [of "remainder + 3" v] shift(1)
      by (simp add: v_def add.commute)
    moreover have "groups_of (low_bits (remainder + 3) v @ concat (map char_bits t)) (base32_encode_loop v t (remainder + 3))"
      using "1.IH"(2) shift by (simp add: v_def add.commute)
    ultimately have "groups_of (low_bits remainder w @ char_bits c @ concat (map char_bits t))
        (base32_index v (remainder + 3) # base32_encode_loop v t (remainder + 3))"
      using groups_of_Cons [of _ _ v "remainder + 3"] by (metis append_assoc)
    then show ?thesis using shift
      by (subst base32_encode_loop.simps) (simp add: v_def [symmetric] Let_def add.commute)
  next
    case out
    then have "low_bits remainder w = low_bits 5 (five_bits w (remainder - 5)) @ low_bits (remainder - 5) w"
      using low_bits_five [of "remainder - 5" w] by simp
    moreover have "groups_of (low_bits (remainder - 5) w @ concat (map char_bits s)) (base32_encode_loop w s (remainder - 5))"
      using "1.IH"(3) out "1.prems" by simp
    ultimately show ?thesis using out groups_of_Cons [of _ _ w "remainder - 5"]
      by (subst base32_encode_loop.simps) (simp add: Let_def)
  qed
qed

lemma base32_encode_groups: "groups_of (concat (map char_bits s)) (base32_encode s)"
proof (cases s)
  case Nil
  then show ?thesis by (simp add: base32_encode_def groups_of_Nil)
next
  case (Cons c t)
  have "low_bits 8 (word_of_int (schar c)) = char_bits c"
    unfolding char_bits_def
  proof (rule low_bits_cong)
    fix i :: nat assume i: "i < 8"
    have "take_bit 8 (schar c) = take_bit 8 (int (of_char c))"
      by (simp add: schar_def Let_def take_bit_eq_mod)
    then have "bit (schar c) i = bit (int (of_char c)) i" using i by (metis bit_take_bit_iff)
    moreover have "bit (uchar c) i = bit (int (of_char c)) i"
      using i by (simp add: uchar_def bit_simps bit_of_nat_iff)
    ultimately show "bit (word_of_int (schar c) :: u64) i = bit (ucast (uchar c) :: u64) i"
      using i by (simp add: bit_simps)
  qed
  then show ?thesis using Cons base32_encode_loop_groups [of 8 "word_of_int (schar c)" t]
    by (simp add: base32_encode_def)
qed

section \<open>The decoder\<close>

lemma base32_digits:
  "list_all (\<lambda>n. base32_digit (base32_alphabet ! n) = Some n \<and> \<not> base32_skip (base32_alphabet ! n)) [0..<32]"
  by code_simp

lemma base32_digit_nth:
  "n < 32 \<Longrightarrow> base32_digit (base32_alphabet ! n) = Some n" "n < 32 \<Longrightarrow> \<not> base32_skip (base32_alphabet ! n)"
  using base32_digits by (simp_all add: list_all_iff)

lemma low_byte_char_bits: "char_bits (byte_char (ucast w)) = low_bits 8 w"
  unfolding char_bits_def by (rule low_bits_cong) (simp add: bit_simps)

lemma base32_decode_loop_bits:
  "bits_left < 8 \<Longrightarrow> \<forall>d\<in>set ds. unat d < 32 \<Longrightarrow>
   \<exists>r. length r < 8 \<and>
     low_bits bits_left prev @ concat (map (low_bits 5) ds) =
     concat (map char_bits (base32_decode_loop prev bits_left (base32_chars ds))) @ r"
proof (induction ds arbitrary: prev bits_left)
  case Nil
  then show ?case by (simp add: base32_chars_def)
next
  case (Cons d ds)
  define p where "p = (push_bit 5 prev OR d)"
  have d: "unat d < 32" using Cons.prems by simp
  have "\<not> bit d i" if "5 \<le> i" for i
  proof -
    have "d = take_bit 5 d" by (simp only: word_unat_eq_iff unsigned_take_bit_eq) (simp add: d take_bit_eq_mod)
    then show ?thesis using that by (metis bit_take_bit_iff linorder_not_le)
  qed
  then have bits: "low_bits bits_left prev @ low_bits 5 d = low_bits (bits_left + 5) p"
    using Cons.prems(1) by (simp add: p_def low_bits_push)
  have loop: "base32_decode_loop prev bits_left (base32_chars (d # ds)) =
      (if bits_left + 5 < 8 then base32_decode_loop p (bits_left + 5) (base32_chars ds)
       else byte_char (ucast (drop_bit (bits_left - 3) p)) # base32_decode_loop p (bits_left - 3) (base32_chars ds))"
    using base32_digit_nth [OF d] by (simp add: base32_chars_def p_def Let_def)
  show ?case
  proof (cases "bits_left + 5 < 8")
    case True
    then show ?thesis using Cons.IH [of "bits_left + 5" p] Cons.prems bits loop by (simp flip: append_assoc)
  next
    case False
    then have "low_bits (bits_left + 5) p = char_bits (byte_char (ucast (drop_bit (bits_left - 3) p))) @ low_bits (bits_left - 3) p"
      using low_bits_split [of 8 "bits_left - 3" p] by (simp add: low_byte_char_bits add.commute)
    moreover obtain r where "length r < 8" "low_bits (bits_left - 3) p @ concat (map (low_bits 5) ds) =
        concat (map char_bits (base32_decode_loop p (bits_left - 3) (base32_chars ds))) @ r"
      using Cons.IH [of "bits_left - 3" p] Cons.prems less_imp_diff_less [of bits_left 8 3] by auto
    ultimately show ?thesis using bits loop False by (intro exI [of _ r]) (simp flip: append_assoc, simp)
  qed
qed

interpretation base32: text_codec base32_encode base32_decode
proof
  fix s
  obtain ds k where ds: "base32_encode s = base32_chars ds" "\<forall>d\<in>set ds. unat d < 32" "k < 5"
    "concat (map (low_bits 5) ds) = concat (map char_bits s) @ replicate k False"
    using base32_encode_groups [of s] by (auto simp: groups_of_def)
  obtain r where r: "length r < 8"
    "concat (map (low_bits 5) ds) = concat (map char_bits (base32_decode (base32_encode s))) @ r"
    using base32_decode_loop_bits [of 0 ds 0] ds by (auto simp: base32_decode_def)
  show "base32_decode (base32_encode s) = s"
    using concat_char_bits_inject [of s "replicate k False" "base32_decode (base32_encode s)" r] ds r by simp
qed

lemma length_base32_encode: "length (base32_encode s) = (8 * length s + 4) div 5"
proof -
  obtain ds k where ds: "base32_encode s = base32_chars ds" "k < 5"
    "concat (map (low_bits 5) ds) = concat (map char_bits s) @ replicate k False"
    using base32_encode_groups [of s] by (auto simp: groups_of_def)
  have "length (concat (map (low_bits 5) ds)) = 5 * length ds" "length (concat (map char_bits s)) = 8 * length s"
    by (simp_all add: length_concat comp_def sum_list_triv)
  then have "5 * length ds = 8 * length s + k" using arg_cong [OF ds(3), of length] by simp
  then show ?thesis using ds(1,2) by (simp add: base32_chars_def)
qed

lemma base32_decode_separators: "base32_decode_loop p n (filter (\<lambda>c. \<not> base32_skip c) s) = base32_decode_loop p n s"
  by (induction p n s rule: base32_decode_loop.induct) (auto simp: Let_def split: option.splits)

end
