(* ===== verification/Radix.thy ===== *)
theory Radix
  imports Chars
begin

text \<open>
  Positional notation.  The number printers of the sources peel digits off with division and
  remainder; \<open>radix b n\<close> is the list of digits they produce, most significant first, and
  \<open>horner\<close> and \<open>text_value\<close> read a number back.
\<close>

section \<open>Digits of a number\<close>

fun radix :: "nat \<Rightarrow> nat \<Rightarrow> nat list" where
  "radix b n = (if b < 2 \<or> n < b then [n] else radix b (n div b) @ [n mod b])"

declare radix.simps [simp del]

definition horner :: "nat \<Rightarrow> nat list \<Rightarrow> nat" where
  "horner b ds = foldl (\<lambda>v d. v * b + d) 0 ds"

lemma horner_append [simp]: "horner b (ds @ [d]) = horner b ds * b + d"
  by (simp add: horner_def)

lemma horner_Nil [simp]: "horner b [] = 0"
  by (simp add: horner_def)

lemma horner_radix: "2 \<le> b \<Longrightarrow> horner b (radix b n) = n"
proof (induction b n rule: radix.induct)
  case (1 b n)
  show ?case
  proof (cases "n < b")
    case True
    then show ?thesis using horner_append [of b "[]" n] by (simp add: radix.simps)
  next
    case False
    then show ?thesis using 1 by (subst radix.simps) simp
  qed
qed

lemma radix_bound: "2 \<le> b \<Longrightarrow> d \<in> set (radix b n) \<Longrightarrow> d < b"
proof (induction b n rule: radix.induct)
  case (1 b n)
  then show ?case by (subst (asm) (2) radix.simps) (auto split: if_splits)
qed

lemma radix_not_Nil [simp]: "radix b n \<noteq> []"
  by (subst radix.simps) simp

lemma hd_radix: "2 \<le> b \<Longrightarrow> 0 < n \<Longrightarrow> 0 < hd (radix b n)"
proof (induction b n rule: radix.induct)
  case (1 b n)
  show ?case
  proof (cases "n < b")
    case True
    then show ?thesis using 1 by (simp add: radix.simps)
  next
    case False
    then have "0 < n div b" using "1.prems" by (simp add: div_greater_zero_iff)
    then show ?thesis using 1 False by (subst radix.simps) simp
  qed
qed

lemma radix_step: "2 \<le> b \<Longrightarrow> b \<le> n \<Longrightarrow> radix b n = radix b (n div b) @ [n mod b]"
  by (subst radix.simps) simp

lemma radix_single: "n < b \<Longrightarrow> radix b n = [n]"
  by (simp add: radix.simps)

lemma horner_append_list: "horner b (xs @ ys) = horner b xs * b ^ length ys + horner b ys"
proof (induction ys rule: rev_induct)
  case (snoc y ys)
  have "horner b (xs @ ys @ [y]) = horner b ((xs @ ys) @ [y])" by simp
  then show ?case unfolding horner_append by (simp add: snoc algebra_simps)
qed simp

lemma horner_bound: "(\<And>d. d \<in> set ds \<Longrightarrow> d < b) \<Longrightarrow> 0 < b \<Longrightarrow> horner b ds < b ^ length ds"
proof (induction ds rule: rev_induct)
  case (snoc d ds)
  then have "horner b ds + 1 \<le> b ^ length ds" "d < b" by (auto simp: Suc_le_eq)
  then have "(horner b ds + 1) * b \<le> b ^ length ds * b" by (intro mult_right_mono) auto
  then show ?case using \<open>d < b\<close> by (simp add: algebra_simps)
qed simp

lemma horner_zeros [simp]: "horner b (replicate n 0 @ ds) = horner b ds"
  by (induction ds rule: rev_induct)
     (simp_all flip: append_assoc, induction n, simp_all flip: replicate_append_same)

section \<open>Digits as characters\<close>

definition digit_index :: "string \<Rightarrow> char \<Rightarrow> nat" where
  "digit_index digits c = (case find_char c digits of Some i \<Rightarrow> i | None \<Rightarrow> length digits)"

definition text_value :: "string \<Rightarrow> nat \<Rightarrow> string \<Rightarrow> nat" where
  "text_value digits b s = horner b (map (digit_index digits) s)"

lemma find_char_nth: "distinct s \<Longrightarrow> i < length s \<Longrightarrow> find_char (s ! i) s = Some i"
proof (induction s arbitrary: i)
  case (Cons c s)
  then show ?case by (cases i) (auto simp: nth_Cons')
qed simp

lemma digit_index_nth: "distinct digits \<Longrightarrow> i < length digits \<Longrightarrow> digit_index digits (digits ! i) = i"
  by (simp add: digit_index_def find_char_nth)

lemma text_value_digits:
  assumes "distinct digits" "\<And>d. d \<in> set ds \<Longrightarrow> d < length digits"
  shows "text_value digits b (map (\<lambda>d. digits ! d) ds) = horner b ds"
proof -
  have "map (digit_index digits) (map (\<lambda>d. digits ! d) ds) = ds"
    using assms by (auto simp: digit_index_nth intro!: map_idI)
  then show ?thesis by (simp only: text_value_def)
qed

lemma text_value_radix:
  assumes "distinct digits" "2 \<le> b" "b \<le> length digits"
  shows "text_value digits b (map (\<lambda>d. digits ! d) (radix b n)) = n"
proof -
  have "d < length digits" if "d \<in> set (radix b n)" for d
    using radix_bound [OF assms(2) that] assms(3) by simp
  from text_value_digits [OF assms(1) this] show ?thesis by (simp add: horner_radix assms)
qed

end
