(* ===== verification/Codec_Numbers.thy ===== *)
theory Codec_Numbers
  imports Codec_Laws Radix
begin

text \<open>
  The number printers and the UTF-8 writer: the printed digits are the positional notation of
  the value, and the bytes of a scalar value decode to it under the reference decoder
  \<open>utf8_scalar\<close>.
\<close>

section \<open>Number printers\<close>

declare base_n_loop.simps [code]

lemma base_n_loop_radix:
  assumes "2 \<le> b" "0 < v"
  shows "base_n_loop digits b v out = Some (map (\<lambda>d. digits ! d) (radix b (unat v)) @ out)"
  using assms(2)
proof (induction "unat v" arbitrary: v out rule: less_induct)
  case less
  have pos: "0 < unat v" using less.prems by (simp add: unat_gt_0)
  let ?w = "word_of_nat (unat v div b) :: u64"
  have w: "unat ?w = unat v div b"
    using unat_bound [of v] div_le_dividend [of "unat v" b]
    by (metis of_nat_inverse order_le_less_trans)
  have step: "base_n_loop digits b v out = base_n_loop digits b ?w (digits ! (unat v mod b) # out)"
    using less.prems by (subst base_n_loop.simps) simp
  show ?case
  proof (cases "unat v < b")
    case True
    then have "?w = 0" by simp
    then show ?thesis using True step by (subst (asm) (2) base_n_loop.simps) (simp add: radix_single)
  next
    case False
    then have "0 < unat v div b" using assms(1) by (simp add: div_greater_zero_iff)
    then have "0 < ?w" using w by (metis unat_gt_0 word_gt_0)
    moreover have "unat ?w < unat v" using w pos assms(1) by simp
    ultimately show ?thesis using less.hyps [of ?w] step w False assms(1) by (simp add: radix_step)
  qed
qed

lemma base_n_loop_base_1:
  assumes "0 < v"
  shows "base_n_loop digits 1 v out = None"
proof (rule ccontr)
  assume "base_n_loop digits 1 v out \<noteq> None"
  then obtain y where "base_n_loop digits 1 v out = Some y" by auto
  then have "\<not> ((1::nat) = 1 \<and> 0 < v)"
  proof (rule base_n_loop.raw_induct [where P = "\<lambda>digits b v out y. \<not> (b = 1 \<and> 0 < v)", rotated])
    fix f :: "string \<Rightarrow> nat \<Rightarrow> u64 \<Rightarrow> string \<Rightarrow> string option" and digits and b :: nat and v :: u64 and out y
    assume "\<And>digits b v out y. f digits b v out = Some y \<Longrightarrow> \<not> (b = 1 \<and> 0 < v)"
      and "(if v > 0 then f digits b (word_of_nat (unat v div b)) (digits ! (unat v mod b) # out) else Some out) = Some y"
    then show "\<not> (b = 1 \<and> 0 < v)" by (auto split: if_splits)
  qed
  then show False using assms by simp
qed

lemma decimal_to_hex_radix:
  "decimal_to_hex_loop n result = map (\<lambda>d. hex_lower_case ! d) (radix 16 (unat n)) @ result"
proof (induction n result rule: decimal_to_hex_loop.induct)
  case (1 n result)
  have lo: "unat (n AND 15) = unat n mod 16"
  proof -
    have "n AND 15 = take_bit 4 n" by (simp add: take_bit_eq_mask mask_eq_exp_minus_1)
    moreover have "unat (take_bit 4 n) = unat n mod 16"
      by (simp only: unsigned_take_bit_eq) (simp add: take_bit_eq_mod)
    ultimately show ?thesis by (simp only:)
  qed
  have hi: "unat (drop_bit 4 n) = unat n div 16" by (simp add: unat_drop_bit_div)
  show ?case
  proof (cases "unat n < 16")
    case True
    then have "unat (drop_bit 4 n) = 0" using hi by simp
    then have "\<not> 0 < drop_bit 4 n" by (simp add: unat_eq_0)
    then show ?thesis using True by (subst decimal_to_hex_loop.simps) (simp add: radix_single lo Let_def)
  next
    case False
    then have "0 < unat (drop_bit 4 n)" using hi by simp
    then have pos: "0 < drop_bit 4 n" by (metis unat_gt_0 word_gt_0)
    have "radix 16 (unat n) = radix 16 (unat (drop_bit 4 n)) @ [unat (n AND 15)]"
      using False by (simp add: radix_step hi lo)
    then show ?thesis using 1 [OF refl refl pos] pos by (subst decimal_to_hex_loop.simps) (simp add: Let_def)
  qed
qed

lemma digit_sets:
  "distinct base62_digits" "length base62_digits = 64" "distinct base64_set" "length base64_set = 64"
  "distinct hex_lower_case" "length hex_lower_case = 16"
  by (simp_all add: base62_digits_def base64_set_def hex_lower_case_def)

section \<open>UTF-8\<close>

text \<open>The reference decoder of one well-formed sequence.\<close>

definition continuation :: "int \<Rightarrow> bool" where
  "continuation b \<longleftrightarrow> 0x80 \<le> b \<and> b < 0xC0"

fun utf8_scalar :: "int list \<Rightarrow> int option" where
  "utf8_scalar [a] = (if a < 0x80 then Some a else None)"
| "utf8_scalar [a, b] =
     (if 0xC0 \<le> a \<and> a < 0xE0 \<and> continuation b then Some ((a - 0xC0) * 64 + (b - 0x80)) else None)"
| "utf8_scalar [a, b, c] =
     (if 0xE0 \<le> a \<and> a < 0xF0 \<and> continuation b \<and> continuation c
      then Some (((a - 0xE0) * 64 + (b - 0x80)) * 64 + (c - 0x80)) else None)"
| "utf8_scalar [a, b, c, d] =
     (if 0xF0 \<le> a \<and> a < 0xF8 \<and> continuation b \<and> continuation c \<and> continuation d
      then Some ((((a - 0xF0) * 64 + (b - 0x80)) * 64 + (c - 0x80)) * 64 + (d - 0x80)) else None)"
| "utf8_scalar _ = None"

definition unsigned_bytes :: "string \<Rightarrow> int list" where
  "unsigned_bytes s = map (\<lambda>c. int (of_char c)) s"

lemma or_disjoint_add: "take_bit n a = a \<Longrightarrow> 2 ^ n dvd b \<Longrightarrow> (b::int) OR a = b + a"
proof -
  assume a: "take_bit n a = a" and b: "2 ^ n dvd b"
  have "take_bit n b = 0" using b by (simp add: take_bit_eq_mod)
  then have "\<not> bit b i" if "i < n" for i using that by (metis bit_0_eq bit_take_bit_iff bot_apply bot_bool_def)
  moreover have "\<not> bit a i" if "n \<le> i" for i using that a by (metis bit_take_bit_iff linorder_not_le)
  ultimately show ?thesis by (intro disjunctive_add [symmetric]) (meson linorder_not_le)
qed

lemma utf8_lead:
  "0xC0 OR (k AND 0x1F) = 0xC0 + k mod 32" "0xE0 OR (k AND 0xF) = 0xE0 + k mod 16"
  "0xF0 OR (k AND 0x7) = 0xF0 + k mod 8" "0x80 OR (k AND 0x3F) = 0x80 + k mod (64::int)"
  "k AND 0x7F = k mod (128::int)"
proof -
  have m: "k AND 0x1F = k mod 32" "k AND 0xF = k mod 16" "k AND 0x7 = k mod 8" "k AND 0x3F = k mod 64"
    "k AND 0x7F = k mod 128" for k :: int
    using take_bit_eq_mask [of 5 k] take_bit_eq_mask [of 4 k] take_bit_eq_mask [of 3 k]
      take_bit_eq_mask [of 6 k] take_bit_eq_mask [of 7 k]
    by (simp_all add: mask_eq_exp_minus_1 take_bit_eq_mod)
  show "0xC0 OR (k AND 0x1F) = 0xC0 + k mod 32" unfolding m by (rule or_disjoint_add [of 5]) (simp_all add: take_bit_eq_mod)
  show "0xE0 OR (k AND 0xF) = 0xE0 + k mod 16" unfolding m by (rule or_disjoint_add [of 4]) (simp_all add: take_bit_eq_mod)
  show "0xF0 OR (k AND 0x7) = 0xF0 + k mod 8" unfolding m by (rule or_disjoint_add [of 3]) (simp_all add: take_bit_eq_mod)
  show "0x80 OR (k AND 0x3F) = 0x80 + k mod 64" unfolding m by (rule or_disjoint_add [of 6]) (simp_all add: take_bit_eq_mod)
  show "k AND 0x7F = k mod 128" by (rule m)
qed

lemma unsigned_byte: "0 \<le> v \<Longrightarrow> v < 256 \<Longrightarrow> int (of_char (char_of_int v)) = v"
  by (simp add: of_char_of_int)

lemma byte_of_lead:
  "int (of_char (char_of_int (0xC0 + k mod 32))) = 0xC0 + k mod (32::int)"
  "int (of_char (char_of_int (0xE0 + k mod 16))) = 0xE0 + k mod (16::int)"
  "int (of_char (char_of_int (0xF0 + k mod 8))) = 0xF0 + k mod (8::int)"
  "int (of_char (char_of_int (0x80 + k mod 64))) = 0x80 + k mod (64::int)"
  "int (of_char (char_of_int (k mod 128))) = k mod (128::int)"
  by (rule unsigned_byte; simp add: order_less_le_trans [OF pos_mod_bound])+

lemma utf8_bytes2:
  "0x80 \<le> c \<Longrightarrow> c < 0x800 \<Longrightarrow> unsigned_bytes (utf8 c) = [0xC0 + drop_bit 6 c mod 32, 0x80 + c mod 64]"
proof -
  assume "0x80 \<le> c" "c < 0x800"
  then have "utf8 c = [char_of_int (0xC0 OR (drop_bit 6 c AND 0x1F)), char_of_int (0x80 OR (c AND 0x3F))]"
    by (simp add: utf8_def)
  then show ?thesis by (simp only: unsigned_bytes_def list.map utf8_lead byte_of_lead)
qed

lemma utf8_bytes3:
  "0x800 \<le> c \<Longrightarrow> c < 0xD800 \<or> 0xE000 \<le> c \<and> c < 0x10000 \<Longrightarrow>
   unsigned_bytes (utf8 c) = [0xE0 + drop_bit 12 c mod 16, 0x80 + drop_bit 6 c mod 64, 0x80 + c mod 64]"
proof -
  assume "0x800 \<le> c" "c < 0xD800 \<or> 0xE000 \<le> c \<and> c < 0x10000"
  then have "utf8 c = [char_of_int (0xE0 OR (drop_bit 12 c AND 0xF)),
    char_of_int (0x80 OR (drop_bit 6 c AND 0x3F)), char_of_int (0x80 OR (c AND 0x3F))]"
    by (auto simp: utf8_def)
  then show ?thesis by (simp only: unsigned_bytes_def list.map utf8_lead byte_of_lead)
qed

lemma utf8_bytes4:
  "0x10000 \<le> c \<Longrightarrow> c < 0x110000 \<Longrightarrow>
   unsigned_bytes (utf8 c) =
     [0xF0 + drop_bit 18 c mod 8, 0x80 + drop_bit 12 c mod 64, 0x80 + drop_bit 6 c mod 64, 0x80 + c mod 64]"
proof -
  assume "0x10000 \<le> c" "c < 0x110000"
  then have "utf8 c = [char_of_int (0xF0 OR (drop_bit 18 c AND 0x7)), char_of_int (0x80 OR (drop_bit 12 c AND 0x3F)),
    char_of_int (0x80 OR (drop_bit 6 c AND 0x3F)), char_of_int (0x80 OR (c AND 0x3F))]"
    by (simp add: utf8_def)
  then show ?thesis by (simp only: unsigned_bytes_def list.map utf8_lead byte_of_lead)
qed

lemma utf8_scalar_parts:
  assumes "0 \<le> y" "y < 64" "0 \<le> z" "z < 64" "0 \<le> w" "w < 64"
  shows "0 \<le> x \<Longrightarrow> x < 32 \<Longrightarrow> utf8_scalar [0xC0 + x, 0x80 + y] = Some (x * 64 + y)"
    and "0 \<le> x \<Longrightarrow> x < 16 \<Longrightarrow> utf8_scalar [0xE0 + x, 0x80 + y, 0x80 + z] = Some ((x * 64 + y) * 64 + z)"
    and "0 \<le> x \<Longrightarrow> x < 8 \<Longrightarrow>
      utf8_scalar [0xF0 + x, 0x80 + y, 0x80 + z, 0x80 + w] = Some (((x * 64 + y) * 64 + z) * 64 + w)"
  using assms by (simp_all add: continuation_def)

lemma base64_split:
  fixes c :: int
  shows "c div 262144 * 64 + c div 4096 mod 64 = c div 4096" "c div 4096 * 64 + c div 64 mod 64 = c div 64"
    "c div 64 * 64 + c mod 64 = c"
  using div_mult_mod_eq [of "c div 4096" 64] div_mult_mod_eq [of "c div 64" 64] div_mult_mod_eq [of c 64]
  by (simp_all add: div_mult2_eq [symmetric] flip: zdiv_zmult2_eq)

lemma utf8_scalar_utf8:
  assumes "0 \<le> c" "c < 0xD800 \<or> 0xE000 \<le> c \<and> c < 0x110000"
  shows "utf8_scalar (unsigned_bytes (utf8 c)) = Some c"
proof -
  have m: "0 \<le> k mod 64" "k mod 64 < 64" for k :: int by simp_all
  note parts = utf8_scalar_parts [OF m m m]
  have d: "drop_bit 6 c = c div 64" "drop_bit 12 c = c div 4096" "drop_bit 18 c = c div 262144"
    by (simp_all add: drop_bit_eq_div)
  consider "c < 0x80" | "0x80 \<le> c" "c < 0x800" | "0x800 \<le> c" "c < 0xD800 \<or> 0xE000 \<le> c \<and> c < 0x10000"
    | "0x10000 \<le> c" "c < 0x110000" using assms by linarith
  then show ?thesis
  proof cases
    case 1
    then have "utf8 c = [char_of_int (c AND 0x7F)]" by (simp add: utf8_def)
    then have "unsigned_bytes (utf8 c) = [c mod 128]" by (simp only: unsigned_bytes_def list.map utf8_lead byte_of_lead)
    then show ?thesis using 1 assms by simp
  next
    case 2
    then have b: "0 \<le> c div 64" "c div 64 < 32" "c div 64 mod 32 = c div 64" by auto
    show ?thesis unfolding utf8_bytes2 [OF 2] d b(3) parts(1) [OF b(1,2)] base64_split ..
  next
    case 3
    then have b: "0 \<le> c div 4096" "c div 4096 < 16" "c div 4096 mod 16 = c div 4096" by auto
    show ?thesis unfolding utf8_bytes3 [OF 3] d b(3) parts(2) [OF b(1,2)] base64_split ..
  next
    case 4
    then have b: "0 \<le> c div 262144" "c div 262144 < 8" "c div 262144 mod 8 = c div 262144" by auto
    show ?thesis unfolding utf8_bytes4 [OF 4] d b(3) parts(3) [OF b(1,2)] base64_split ..
  qed
qed

end
