(* ===== verification/Codec_Properties.thy ===== *)
theory Codec_Properties
  imports Codec_Base64 Codec_Base45 Codec_Base32 Codec_Numbers
begin

text \<open>
  The properties of the codecs, stated over the definitions of \<open>Codec\<close> and proved from
  the interpretations of \<open>text_codec\<close> and \<open>bounded_codec\<close>.
\<close>

text \<open>
  C29: on every non-empty byte string of at most \<open>3 * 2 ^ 30\<close> bytes, the two base64 encoders write the encoding of RFC 4648
  (groups of six bits of the byte string, with padding in the standard form and without in the URL form), of the lengths of
  the standard, and the decoders give the byte string back.  The bound keeps the text within the reach of the decoder's
  32-bit index, and the sources assert that a text is not empty.
\<close>

theorem base64_codec:
  assumes "s \<noteq> []" "length s \<le> 3 * 2 ^ 30"
  shows "base64_encode s = rfc4648 (CHR ''+'') (CHR ''/'') True s
   \<and> base64_url_encode s = rfc4648 (CHR ''-'') (CHR ''_'') False s
   \<and> base64_decode (base64_encode s) = s
   \<and> base64_url_decode (base64_url_encode s) = s
   \<and> length (base64_encode s) = 4 * ((length s + 2) div 3)
   \<and> length (base64_url_encode s) = (4 * length s + 2) div 3"
proof -
  have "length s \<le> base64_limit" using assms(2) by (simp add: base64_limit_def)
  then have "base64_decode (base64_encode s) = s" "base64_url_decode (base64_url_encode s) = s"
    by (rule base64.decode_encode_upto, rule base64_url.decode_encode_upto)
  moreover have "base64_encode s = rfc4648 (CHR ''+'') (CHR ''/'') True s" "base64_url_encode s = rfc4648 (CHR ''-'') (CHR ''_'') False s"
    by (simp_all add: base64_encode_def base64_url_encode_def encode64_rfc4648 base64_sets)
  moreover have "length (base64_encode s) = 4 * ((length s + 2) div 3)" "length (base64_url_encode s) = (4 * length s + 2) div 3"
    by (simp_all add: base64_encode_def base64_url_encode_def length_encode64)
  ultimately show ?thesis by blast
qed

theorem base64_codec_witness:
  "base64_encode ''vite'' = rfc4648 (CHR ''+'') (CHR ''/'') True ''vite'' \<and> base64_decode (base64_encode ''vite'') = ''vite''"
  using base64_codec [of "''vite''"] by auto

text \<open>
  Base32 decodes what it encodes; the encoder is total (its loop ends) and emits one
  character per started group of five bits; separators in the text do not change the result.
\<close>

theorem base32_codec:
  "base32_decode (base32_encode s) = s
   \<and> length (base32_encode s) = (8 * length s + 4) div 5
   \<and> base32_decode (filter (\<lambda>c. \<not> base32_skip c) t) = base32_decode t"
  using base32.decode_encode length_base32_encode base32_decode_separators by (simp add: base32_decode_def)

text \<open>
  Base45 and its relabelled variant decode what they encode, with three characters for two
  bytes and two for a last one.  The decoder has no failure: the test for an invalid character
  compares a signed character with 255, so every text yields as many bytes as its length allows.
\<close>

theorem base45_codec:
  "base45_decode (base45_encode s) = s
   \<and> bep45_decode (bep45_encode s) = s
   \<and> length (base45_encode s) = 3 * (length s div 2) + 2 * (length s mod 2)
   \<and> length (base45_decode t) = 2 * (length t div 3) + (if length t mod 3 = 2 then 1 else 0)"
  using base45.decode_encode bep45.decode_encode length_base45_encode length_base45_decode by simp

text \<open>
  Hexadecimal encoding in either case is decoded by \<^verbatim>\<open>hex_decode\<close> and has two digits a byte;
  \<^verbatim>\<open>hex_encode_odd\<close>, which drops a leading zero digit of each byte, is ambiguous.
\<close>

theorem hex_codec:
  "hex_decode (hex_encode s upper) = s
   \<and> length (hex_encode s upper) = 2 * length s
   \<and> hex_encode_odd [CHR 0x12, CHR 0x03] False = hex_encode_odd [CHR 0x01, CHR 0x23] False"
proof (intro conjI)
  show "hex_encode_odd [CHR 0x12, CHR 0x03] False = hex_encode_odd [CHR 0x01, CHR 0x23] False" by code_simp
qed (simp_all add: hex_decode_encode length_hex_encode)

text \<open>
  Percent encoding is decoded by \<^verbatim>\<open>url_decode\<close>; the encoded text has only letters, digits,
  the unescaped marks and percent signs, so it has no plus sign, which the decoder reads as a space.
\<close>

theorem url_codec:
  "url_decode (url_encode s) = s
   \<and> set (url_encode s) \<subseteq> {CHR ''%''} \<union> {c. isalnum c \<or> url_unescape c}
   \<and> CHR ''+'' \<notin> set (url_encode s)
   \<and> url_decode (CHR ''+'' # t) = CHR '' '' # url_decode t"
proof (intro conjI)
  show "CHR ''+'' \<notin> set (url_encode s)" using url_encode_chars url_plain by fastforce
  show "url_decode (CHR ''+'' # t) = CHR '' '' # url_decode t"
    by (cases "(CHR ''+'' # t)" rule: url_decode.cases) auto
qed (use url.decode_encode url_encode_chars in auto)

text \<open>
  The keyed rotation in the two directions is a permutation of the byte strings of each
  length: either direction undoes the other, for every key, although the amount at a position
  depends on the rotated bytes before it.
\<close>

theorem rotation_codec:
  assumes "0 \<le> forward" "backward < 0"
  shows "rotate_text (rotate_text s hash forward) hash backward = s
   \<and> rotate_text (rotate_text s hash backward) hash forward = s
   \<and> length (rotate_text s hash forward) = length s
   \<and> length (rotate_text s hash backward) = length s"
  using assms rotate_text_inverse [of forward backward]
  by (simp add: rotate_text_def rotate_buffer_def length_rotate)

theorem rotation_codec_witness:
  "rotate_text (rotate_text ''vitex'' 7 1) 7 (- 1) = ''vitex''"
  using rotation_codec [of 1 "- 1" "''vitex''" 7] by simp

text \<open>
  \<^verbatim>\<open>utf8\<close> writes the UTF-8 sequence of every Unicode scalar value, of one to four bytes, and
  nothing for surrogates and for values above the last code point.
\<close>

theorem utf8_encoder:
  assumes "0 \<le> c"
  shows "(c < 0xD800 \<or> 0xE000 \<le> c \<and> c < 0x110000 \<longrightarrow> utf8_scalar (unsigned_bytes (utf8 c)) = Some c)
   \<and> (0xD800 \<le> c \<and> c < 0xE000 \<or> 0x110000 \<le> c \<longrightarrow> utf8 c = [])"
  using assms utf8_scalar_utf8 [of c] by (auto simp: utf8_def)

theorem utf8_encoder_witness:
  "utf8_scalar (unsigned_bytes (utf8 0x20AC)) = Some 0x20AC \<and> utf8 0xD801 = []"
  using utf8_encoder [of "0x20AC"] utf8_encoder [of "0xD801"] by simp

text \<open>
  \<^verbatim>\<open>base10_to_base_n\<close> returns in every base from 2 to 64 and prints the positional notation
  of the value without leading zeros; in base 1 it never returns on a positive value.  Zero is
  printed as the character 0 in base 64 too, where that character is the digit 52.
  \<^verbatim>\<open>decimal_to_hex\<close> prints the value in base 16.
\<close>

theorem number_texts:
  assumes "2 \<le> unat base" "unat base \<le> 64" "0 < n"
  shows "(\<exists>s. base10_to_base_n n base = Some s
      \<and> text_value (if base = 64 then base64_set else base62_digits) (unat base) s = unat n)
   \<and> base10_to_base_n n 1 = None
   \<and> base10_to_base_n 0 64 = base10_to_base_n 52 64
   \<and> text_value hex_lower_case 16 (decimal_to_hex n) = unat n"
proof (intro conjI)
  let ?d = "if base = 64 then base64_set else base62_digits"
  have "base10_to_base_n n base = Some (map (\<lambda>d. ?d ! d) (radix (unat base) (unat n)))"
    using assms base_n_loop_radix [OF assms(1,3), of ?d "[]"] by (auto simp: base10_to_base_n_def)
  moreover have "text_value ?d (unat base) (map (\<lambda>d. ?d ! d) (radix (unat base) (unat n))) = unat n"
    using assms digit_sets by (intro text_value_radix) auto
  ultimately show "\<exists>s. base10_to_base_n n base = Some s \<and> text_value ?d (unat base) s = unat n" by blast
  show "base10_to_base_n n 1 = None"
    using assms base_n_loop_base_1 [OF assms(3)] by (auto simp: base10_to_base_n_def)
  show "base10_to_base_n 0 64 = base10_to_base_n 52 64"
    using base_n_loop_radix [of 64 52 base64_set "[]"] by (simp add: base10_to_base_n_def radix_single base64_set_def)
  show "text_value hex_lower_case 16 (decimal_to_hex n) = unat n"
    using text_value_radix [of hex_lower_case 16 "unat n"] digit_sets
    by (simp add: decimal_to_hex_def decimal_to_hex_radix)
qed

theorem number_texts_witness:
  "(\<exists>s. base10_to_base_n 255 16 = Some s \<and> text_value base62_digits 16 s = 255) \<and> base10_to_base_n 255 1 = None"
  using number_texts [of 16 255] by simp

end
