(* ===== verification/Stringify.thy ===== *)
theory Stringify
  imports Codec
begin

text \<open>
  The string helpers of \<^verbatim>\<open>core::stringify\<close> (\<^verbatim>\<open>core.cpp\<close>).  Helpers that work in place return the
  new text.  A loop over indices is a scan over positions or a recursion over the unread part.
  The searches with a text needle call \<^verbatim>\<open>strstr\<close> and so work on the text up to its first null
  character.  Loops that the sources do not bound are \<^theory_text>\<open>partial_function\<close>s: \<^const>\<open>None\<close> is
  a loop that never ends.
\<close>

section \<open>Search results\<close>

record text_settle =
  ts_start :: nat
  ts_end :: nat
  ts_found :: bool

definition settled :: "nat \<Rightarrow> nat \<Rightarrow> text_settle" where
  "settled s e = \<lparr>ts_start = s, ts_end = e, ts_found = True\<rparr>"

definition not_settled :: "string \<Rightarrow> text_settle" where
  "not_settled other = \<lparr>ts_start = length other, ts_end = length other, ts_found = False\<rparr>"

text \<open>\<open>scan_up P i n\<close> is the first of the \<open>n\<close> positions from \<open>i\<close> on that satisfies \<open>P\<close>,
  \<open>scan_down P n\<close> the last one below \<open>n\<close>.\<close>

fun scan_up :: "(nat \<Rightarrow> bool) \<Rightarrow> nat \<Rightarrow> nat \<Rightarrow> nat option" where
  "scan_up P i 0 = None"
| "scan_up P i (Suc n) = (if P i then Some i else scan_up P (Suc i) n)"

fun scan_down :: "(nat \<Rightarrow> bool) \<Rightarrow> nat \<Rightarrow> nat option" where
  "scan_down P 0 = None"
| "scan_down P (Suc i) = (if P i then Some i else scan_down P i)"

definition settle_at :: "string \<Rightarrow> nat option \<Rightarrow> text_settle" where
  "settle_at other r = (case r of None \<Rightarrow> not_settled other | Some i \<Rightarrow> settled i (i + 1))"

section \<open>Searching\<close>

fun strstr :: "string \<Rightarrow> string \<Rightarrow> nat option" where
  "strstr needle [] = (if needle = [] then Some 0 else None)"
| "strstr needle (c # s) =
     (if take (length needle) (c # s) = needle then Some 0 else map_option Suc (strstr needle s))"

definition c_str :: "string \<Rightarrow> string" where
  "c_str s = takeWhile (\<lambda>c. c \<noteq> CHR 0x00) s"

text \<open>\<^verbatim>\<open>strstr\<close> reads up to a null character, so this describes \<^verbatim>\<open>find\<close> for views whose text is followed by one.\<close>

definition find_text :: "string \<Rightarrow> string \<Rightarrow> nat \<Rightarrow> text_settle" where
  "find_text other needle offset =
     (if other = [] \<or> offset \<ge> length other then not_settled other
      else case strstr (c_str needle) (c_str (drop offset other)) of
             None \<Rightarrow> not_settled other
           | Some i \<Rightarrow> settled (offset + i) (offset + i + length needle))"

definition find_symbol :: "string \<Rightarrow> char \<Rightarrow> nat \<Rightarrow> text_settle" where
  "find_symbol other needle offset =
     settle_at other (scan_up (\<lambda>i. other ! i = needle) offset (length other - offset))"

definition unescaped_at :: "string \<Rightarrow> char \<Rightarrow> nat \<Rightarrow> bool" where
  "unescaped_at other needle i \<longleftrightarrow> other ! i = needle \<and> (int i - 1 < 0 \<or> other ! (i - 1) \<noteq> CHR 0x5C)"

definition find_unescaped :: "string \<Rightarrow> char \<Rightarrow> nat \<Rightarrow> text_settle" where
  "find_unescaped other needle offset =
     settle_at other (scan_up (unescaped_at other needle) offset (length other - offset))"

definition find_of :: "string \<Rightarrow> string \<Rightarrow> nat \<Rightarrow> text_settle" where
  "find_of other needle offset =
     settle_at other (scan_up (\<lambda>i. other ! i \<in> set needle) offset (length other - offset))"

definition find_not_of :: "string \<Rightarrow> string \<Rightarrow> nat \<Rightarrow> text_settle" where
  "find_not_of other needle offset =
     settle_at other (scan_up (\<lambda>i. other ! i \<notin> set needle) offset (length other - offset))"

definition reverse_find_symbol :: "string \<Rightarrow> char \<Rightarrow> nat \<Rightarrow> text_settle" where
  "reverse_find_symbol other needle offset =
     (if other = [] \<or> offset \<ge> length other then not_settled other
      else settle_at other (scan_down (\<lambda>i. other ! i = needle) (length other - offset)))"

definition reverse_find_unescaped :: "string \<Rightarrow> char \<Rightarrow> nat \<Rightarrow> text_settle" where
  "reverse_find_unescaped other needle offset =
     (if other = [] \<or> offset \<ge> length other then not_settled other
      else settle_at other (scan_down (unescaped_at other needle) (length other - offset)))"

definition reverse_find_of :: "string \<Rightarrow> string \<Rightarrow> nat \<Rightarrow> text_settle" where
  "reverse_find_of other needle offset =
     (if other = [] \<or> offset \<ge> length other then not_settled other
      else settle_at other (scan_down (\<lambda>i. other ! i \<in> set needle) (length other - offset)))"

section \<open>Character classes and comparisons\<close>

definition is_numeric :: "char \<Rightarrow> bool" where "is_numeric symbol = isdigit symbol"

definition is_whitespace :: "char \<Rightarrow> bool" where "is_whitespace symbol = isspace symbol"

definition is_alphabetic :: "char \<Rightarrow> bool" where "is_alphabetic symbol \<longleftrightarrow> isupper symbol \<or> islower symbol"

definition is_alphanum :: "char \<Rightarrow> bool" where "is_alphanum symbol = isalnum symbol"

definition is_numeric_or_dot :: "char \<Rightarrow> bool" where
  "is_numeric_or_dot symbol \<longleftrightarrow> symbol = CHR ''.'' \<or> is_numeric symbol"

definition is_numeric_or_dot_or_whitespace :: "char \<Rightarrow> bool" where
  "is_numeric_or_dot_or_whitespace symbol \<longleftrightarrow> is_whitespace symbol \<or> is_numeric_or_dot symbol"

definition is_hex :: "char \<Rightarrow> bool" where
  "is_hex symbol \<longleftrightarrow> is_numeric symbol \<or> (97 \<le> schar symbol \<and> schar symbol \<le> 102) \<or> (65 \<le> schar symbol \<and> schar symbol \<le> 70)"

definition is_hex_or_dot :: "char \<Rightarrow> bool" where
  "is_hex_or_dot symbol \<longleftrightarrow> symbol = CHR ''.'' \<or> is_hex symbol"

definition is_hex_or_dot_or_whitespace :: "char \<Rightarrow> bool" where
  "is_hex_or_dot_or_whitespace symbol \<longleftrightarrow> is_whitespace symbol \<or> is_hex_or_dot symbol"

definition toupper :: "char \<Rightarrow> char" where
  "toupper c = (if islower c then char_of ((of_char c :: nat) - 32) else c)"

definition to_lower_literal :: "char \<Rightarrow> char" where "to_lower_literal symbol = tolower symbol"

definition to_upper_literal :: "char \<Rightarrow> char" where "to_upper_literal symbol = toupper symbol"

definition to_upper :: "string \<Rightarrow> string" where "to_upper other = map toupper other"

definition to_lower :: "string \<Rightarrow> string" where "to_lower other = map tolower other"

definition case_equals :: "string \<Rightarrow> string \<Rightarrow> bool" where
  "case_equals value1 value2 \<longleftrightarrow> length value1 = length value2 \<and>
     list_all2 (\<lambda>a b. tolower a = tolower b) value1 value2"

text \<open>\<^verbatim>\<open>case_compare\<close> looks at the first characters before it compares the lengths, and stops at the shorter text.\<close>

function case_compare_loop :: "string \<Rightarrow> string \<Rightarrow> nat \<Rightarrow> nat \<Rightarrow> int" where
  "case_compare_loop value1 value2 sz offset =
     (let diff = int (of_char (tolower (str_at value1 offset))) - int (of_char (tolower (str_at value2 offset)));
          offset = offset + 1
      in if diff = 0 \<and> offset < sz then case_compare_loop value1 value2 sz offset else diff)"
  by auto
termination by (relation "measure (\<lambda>(_, _, sz, offset). sz - offset)") auto

declare case_compare_loop.simps [simp del]

definition case_compare :: "string \<Rightarrow> string \<Rightarrow> int" where
  "case_compare value1 value2 = case_compare_loop value1 value2 (min (length value1) (length value2)) 0"

definition starts_with :: "string \<Rightarrow> string \<Rightarrow> nat \<Rightarrow> bool" where
  "starts_with other value offset \<longleftrightarrow>
     \<not> length other < length value \<and> list_all (\<lambda>i. value ! i = other ! i) [offset..<length value]"

definition starts_of :: "string \<Rightarrow> string \<Rightarrow> nat \<Rightarrow> bool" where
  "starts_of other value offset \<longleftrightarrow> \<not> offset \<ge> length other \<and> other ! offset \<in> set value"

definition starts_not_of :: "string \<Rightarrow> string \<Rightarrow> nat \<Rightarrow> bool" where
  "starts_not_of other value offset \<longleftrightarrow> \<not> offset \<ge> length other \<and> other ! offset \<notin> set value"

definition ends_with :: "string \<Rightarrow> string \<Rightarrow> bool" where
  "ends_with other value \<longleftrightarrow> \<not> (other = [] \<or> length value > length other) \<and>
     c_str (drop (length other - length value) other) = c_str value"

definition ends_with_symbol :: "string \<Rightarrow> char \<Rightarrow> bool" where
  "ends_with_symbol other value \<longleftrightarrow> other \<noteq> [] \<and> last other = value"

definition ends_of :: "string \<Rightarrow> string \<Rightarrow> bool" where
  "ends_of other value \<longleftrightarrow> other \<noteq> [] \<and> last other \<in> set value"

definition ends_not_of :: "string \<Rightarrow> string \<Rightarrow> bool" where
  "ends_not_of other value \<longleftrightarrow> other = [] \<or> last other \<notin> set value"

definition consists_of :: "string \<Rightarrow> string \<Rightarrow> bool" where
  "consists_of other alphabet \<longleftrightarrow> list_all (\<lambda>c. find_char c alphabet \<noteq> None) other"

definition is_preceded_by :: "string \<Rightarrow> nat \<Rightarrow> string \<Rightarrow> bool" where
  "is_preceded_by other at tokens \<longleftrightarrow> \<not> (at = 0 \<or> at - 1 \<ge> length other) \<and> other ! (at - 1) \<in> set tokens"

definition is_followed_by :: "string \<Rightarrow> nat \<Rightarrow> string \<Rightarrow> bool" where
  "is_followed_by other at tokens \<longleftrightarrow> \<not> at + 1 \<ge> length other \<and> other ! (at + 1) \<in> set tokens"

definition is_not_preceded_by_escape :: "string \<Rightarrow> nat \<Rightarrow> char \<Rightarrow> bool" where
  "is_not_preceded_by_escape buffer offset esc \<longleftrightarrow>
     (if offset < 1 \<or> buffer ! (offset - 1) \<noteq> esc then True else offset > 1 \<and> buffer ! (offset - 2) = esc)"

definition is_empty_or_whitespace :: "string \<Rightarrow> bool" where
  "is_empty_or_whitespace other \<longleftrightarrow> other = [] \<or> list_all is_whitespace other"

definition count_lines :: "string \<Rightarrow> nat" where
  "count_lines other = foldl (\<lambda>lines item. if item = CHR 0x0A then lines + 1 else lines) 1 other"

section \<open>Numbers in texts\<close>

definition sign_offset :: "string \<Rightarrow> nat" where
  "sign_offset other = (if hd other = CHR ''+'' \<or> hd other = CHR ''-'' then 1 else 0)"

definition has_integer :: "string \<Rightarrow> bool" where
  "has_integer other =
     (if other = [] \<or> length other = 1 \<and> \<not> is_numeric (hd other) then False
      else let digits = drop (sign_offset other) other
           in list_all is_numeric digits \<and> length digits > 0)"

fun has_number_loop :: "string \<Rightarrow> nat \<Rightarrow> nat \<Rightarrow> bool" where
  "has_number_loop [] digits points \<longleftrightarrow> digits > 0 \<and> points < 2"
| "has_number_loop (v # other) digits points =
     (if is_numeric v then has_number_loop other (digits + 1) points
      else if points = 0 \<and> v = CHR ''.'' \<and> other \<noteq> [] then has_number_loop other digits (points + 1)
      else False)"

definition has_number :: "string \<Rightarrow> bool" where
  "has_number other =
     (if other = [] \<or> length other = 1 \<and> \<not> is_numeric (hd other) then False
      else has_number_loop (drop (sign_offset other) other) 0 0)"

text \<open>\<^const>\<open>None\<close> is the \<^verbatim>\<open>std::out_of_range\<close> of \<^verbatim>\<open>substr\<close> with a start behind the end of the text.\<close>

definition has_decimal :: "string \<Rightarrow> bool option" where
  "has_decimal other =
     (let f = find_symbol other (CHR ''.'') 0
      in if \<not> ts_found f then Some (has_integer other \<and> length other \<ge> 19)
         else let D1 = take (ts_end f - 1) other
              in if D1 = [] \<or> \<not> has_integer D1 then Some False
                 else if ts_end f + 1 > length other then None
                 else let D2 = take (length other - ts_end f - 1) (drop (ts_end f + 1) other)
                      in if D2 = [] \<or> \<not> has_integer D2 then Some False
                         else Some (length D1 \<ge> 19 \<or> length D2 > 2))"

section \<open>Editing\<close>

fun escape_print :: "string \<Rightarrow> string" where
  "escape_print (c # d # other) =
     (if c \<noteq> CHR ''%'' then c # escape_print (d # other)
      else if d \<noteq> CHR ''%'' then CHR ''%'' # CHR ''%'' # escape_print (d # other)
      else c # escape_print (d # other))"
| "escape_print [c] = (if c \<noteq> CHR ''%'' then [c] else [c, CHR ''%''])"
| "escape_print [] = []"

definition escape_symbol :: "char \<Rightarrow> char option" where
  "escape_symbol v =
     (if v = CHR 0x0A then Some (CHR ''n'') else if v = CHR 0x09 then Some (CHR ''t'')
      else if v = CHR 0x0B then Some (CHR ''v'') else if v = CHR 0x08 then Some (CHR ''b'')
      else if v = CHR 0x0D then Some (CHR ''r'') else if v = CHR 0x0C then Some (CHR ''f'')
      else if v = CHR 0x07 then Some (CHR ''a'') else None)"

definition unescape_symbol :: "char \<Rightarrow> char option" where
  "unescape_symbol v =
     (if v = CHR ''n'' then Some (CHR 0x0A) else if v = CHR ''t'' then Some (CHR 0x09)
      else if v = CHR ''v'' then Some (CHR 0x0B) else if v = CHR ''b'' then Some (CHR 0x08)
      else if v = CHR ''r'' then Some (CHR 0x0D) else if v = CHR ''f'' then Some (CHR 0x0C)
      else if v = CHR ''a'' then Some (CHR 0x07) else None)"

text \<open>The first argument is the character in front of the position, in the text edited so far.\<close>

fun escape_loop :: "char option \<Rightarrow> string \<Rightarrow> string" where
  "escape_loop prev [] = []"
| "escape_loop prev (v # other) =
     (if v = CHR 0x22 then
        if prev = Some (CHR 0x5C) then v # escape_loop (Some v) other
        else CHR 0x5C # v # escape_loop (Some v) other
      else case escape_symbol v of
             Some e \<Rightarrow> CHR 0x5C # e # escape_loop (Some e) other
           | None \<Rightarrow> v # escape_loop (Some v) other)"

definition escape :: "string \<Rightarrow> string" where
  "escape other = escape_loop None other"

fun unescape :: "string \<Rightarrow> string" where
  "unescape (c # v # other) =
     (if c \<noteq> CHR 0x5C then c # unescape (v # other)
      else case unescape_symbol v of
             Some w \<Rightarrow> w # unescape other
           | None \<Rightarrow> c # unescape (v # other))"
| "unescape [c] = [c]"
| "unescape [] = []"

definition clip :: "string \<Rightarrow> nat \<Rightarrow> string" where
  "clip other len = (if len < length other then take len other else other)"

definition trim_start :: "string \<Rightarrow> string" where
  "trim_start other = dropWhile isspace other"

definition trim_end :: "string \<Rightarrow> string" where
  "trim_end other = rev (dropWhile isspace (rev other))"

definition trim :: "string \<Rightarrow> string" where
  "trim other = trim_end (trim_start other)"

definition fill_all :: "string \<Rightarrow> char \<Rightarrow> string" where
  "fill_all other symbol = map (\<lambda>_. symbol) other"

definition fill_count :: "string \<Rightarrow> char \<Rightarrow> nat \<Rightarrow> string" where
  "fill_count other symbol count = replicate count symbol"

definition fill_part :: "string \<Rightarrow> char \<Rightarrow> nat \<Rightarrow> nat \<Rightarrow> string" where
  "fill_part other symbol start count =
     (let count = (if start + count > length other then length other - start else count);
          sz = start + count
      in foldl (\<lambda>s i. s[i := symbol]) other [start..<sz])"

definition erase_part :: "string \<Rightarrow> nat \<Rightarrow> nat \<Rightarrow> string" where
  "erase_part other position count = take position other @ drop (position + count) other"

definition erase_from :: "string \<Rightarrow> nat \<Rightarrow> string" where
  "erase_from other position = take position other"

definition erase_offsets :: "string \<Rightarrow> nat \<Rightarrow> nat \<Rightarrow> string" where
  "erase_offsets other s e = erase_part other s (e - s)"

definition insert_text :: "string \<Rightarrow> nat \<Rightarrow> string \<Rightarrow> string" where
  "insert_text other position t = take position other @ t @ drop position other"

definition replace_part :: "string \<Rightarrow> nat \<Rightarrow> nat \<Rightarrow> string \<Rightarrow> string" where
  "replace_part other s e value =
     (if s = 0 then
        if length other \<noteq> e then value @ take (length other - e) (drop e other) else value
      else if length other = e then take s other @ value
      else take s other @ value @ take (length other - e) (drop e other))"

definition remove_part :: "string \<Rightarrow> nat \<Rightarrow> nat \<Rightarrow> string" where
  "remove_part other s e =
     (if s = 0 then
        if length other \<noteq> e then take (length other - e) (drop e other) else []
      else if length other = e then take s other
      else take s other @ take (length other - e) (drop e other))"

definition reverse_part :: "string \<Rightarrow> nat \<Rightarrow> nat \<Rightarrow> string" where
  "reverse_part other s e = take s other @ rev (take (e - s) (drop s other)) @ drop e other"

definition reverse_text :: "string \<Rightarrow> string" where
  "reverse_text other = (if length other > 1 then reverse_part other 0 (length other) else other)"

definition substring :: "string \<Rightarrow> text_settle \<Rightarrow> string" where
  "substring other result =
     (if ts_start result \<ge> length other then []
      else let offset = (if ts_end result > length other then int (length other - ts_start result) else int (ts_end result));
               offset = int (ts_start result) - offset
           in take (nat \<bar>offset\<bar>) (drop (ts_start result) other))"

definition splice_text :: "string \<Rightarrow> nat \<Rightarrow> nat \<Rightarrow> string" where
  "splice_text other s e =
     (let e = (if e > length other then length other - s else e); offset = int s - int e
      in take (nat \<bar>offset\<bar>) (drop s other))"

definition replace_symbol :: "string \<Rightarrow> char \<Rightarrow> char \<Rightarrow> nat \<Rightarrow> string" where
  "replace_symbol other from to position = take position other @ replace_char (drop position other) from to"

definition replace_symbol_count :: "string \<Rightarrow> char \<Rightarrow> char \<Rightarrow> nat \<Rightarrow> nat \<Rightarrow> string" where
  "replace_symbol_count other from to position count =
     take position other @ replace_char (take count (drop position other)) from to @ drop (position + count) other"

text \<open>The three replacing loops differ in the search they call.\<close>

partial_function (option) replace_loop ::
  "(string \<Rightarrow> nat \<Rightarrow> text_settle) \<Rightarrow> string \<Rightarrow> nat \<Rightarrow> string \<Rightarrow> string option" where
  "replace_loop finder other offset to =
     (let result = finder other offset
      in if ts_found result then
           replace_loop finder
             (insert_text (erase_offsets other (ts_start result) (ts_end result)) (ts_start result) to)
             (ts_start result + length to) to
         else Some other)"

declare replace_loop.simps [code]

definition replace_text :: "string \<Rightarrow> string \<Rightarrow> string \<Rightarrow> nat \<Rightarrow> string option" where
  "replace_text other from to start = replace_loop (\<lambda>s. find_text s from) other start to"

definition replace_of :: "string \<Rightarrow> string \<Rightarrow> string \<Rightarrow> nat \<Rightarrow> string option" where
  "replace_of other chars to start = replace_loop (\<lambda>s. find_of s chars) other start to"

definition replace_not_of :: "string \<Rightarrow> string \<Rightarrow> string \<Rightarrow> nat \<Rightarrow> string option" where
  "replace_not_of other chars to start = replace_loop (\<lambda>s. find_not_of s chars) other start to"

section \<open>Splitting\<close>

text \<open>
  The splitting loops differ in the search they call; \<open>limit\<close> is the bound of \<^verbatim>\<open>pm_split_max\<close>.
\<close>

partial_function (option) split_loop ::
  "(nat \<Rightarrow> text_settle) \<Rightarrow> nat option \<Rightarrow> string \<Rightarrow> nat \<Rightarrow> text_settle \<Rightarrow> string list \<Rightarrow> string list option" where
  "split_loop finder limit other offset result output =
     (if ts_found result \<and> (case limit of None \<Rightarrow> True | Some count \<Rightarrow> length output < count) then
        split_loop finder limit other (ts_end result) (finder (ts_end result))
          (output @ [take (ts_start result - offset) (drop offset other)])
      else if offset < length other \<and> (case limit of None \<Rightarrow> True | Some count \<Rightarrow> length output < count)
      then Some (output @ [drop offset other])
      else Some output)"

declare split_loop.simps [code]

definition pm_split_with :: "(nat \<Rightarrow> text_settle) \<Rightarrow> nat option \<Rightarrow> string list \<Rightarrow> string \<Rightarrow> nat \<Rightarrow> string list option" where
  "pm_split_with finder limit output other start =
     (if start \<ge> length other then Some output
      else split_loop finder limit other start (finder start) output)"

definition pm_split_text :: "string list \<Rightarrow> string \<Rightarrow> string \<Rightarrow> nat \<Rightarrow> string list option" where
  "pm_split_text output other w start = pm_split_with (find_text other w) None output other start"

definition pm_split_symbol :: "string list \<Rightarrow> string \<Rightarrow> char \<Rightarrow> nat \<Rightarrow> string list option" where
  "pm_split_symbol output other w start = pm_split_with (find_symbol other w) None output other start"

definition pm_split_max :: "string list \<Rightarrow> string \<Rightarrow> char \<Rightarrow> nat \<Rightarrow> nat \<Rightarrow> string list option" where
  "pm_split_max output other w count start = pm_split_with (find_symbol other w) (Some count) output other start"

definition pm_split_of :: "string list \<Rightarrow> string \<Rightarrow> string \<Rightarrow> nat \<Rightarrow> string list option" where
  "pm_split_of output other w start = pm_split_with (find_of other w) None output other start"

definition pm_split_not_of :: "string list \<Rightarrow> string \<Rightarrow> string \<Rightarrow> nat \<Rightarrow> string list option" where
  "pm_split_not_of output other w start = pm_split_with (find_not_of other w) None output other start"

definition split_text :: "string \<Rightarrow> string \<Rightarrow> nat \<Rightarrow> string list option" where
  "split_text other w start = pm_split_text [] other w start"

definition split_symbol :: "string \<Rightarrow> char \<Rightarrow> nat \<Rightarrow> string list option" where
  "split_symbol other w start = pm_split_symbol [] other w start"

definition split_max :: "string \<Rightarrow> char \<Rightarrow> nat \<Rightarrow> nat \<Rightarrow> string list option" where
  "split_max other w count start = pm_split_max [] other w count start"

definition split_of :: "string \<Rightarrow> string \<Rightarrow> nat \<Rightarrow> string list option" where
  "split_of other w start = pm_split_of [] other w start"

definition split_not_of :: "string \<Rightarrow> string \<Rightarrow> nat \<Rightarrow> string list option" where
  "split_not_of other w start = pm_split_not_of [] other w start"

section \<open>Patterns\<close>

text \<open>
  \<open>match_loop\<close> is the loop of \<^verbatim>\<open>match\<close> on a pattern without alternatives.  With \<^term>\<open>Some k\<close> it is
  the inner loop that tries what follows a star at the offsets \<open>k\<close> down to 0.  The source indexes the view at its
  length, and \<^verbatim>\<open>strcspn\<close> scans beyond it, so \<open>str_at\<close> and \<open>takeWhile\<close> describe it for views whose text is followed by a
  null character, such as that of a string.
\<close>

partial_function (option) match_loop :: "string \<Rightarrow> string \<Rightarrow> nat \<Rightarrow> nat \<Rightarrow> nat option \<Rightarrow> int option" where
  "match_loop pattern text i j star =
     (case star of
        Some offset \<Rightarrow>
          Option.bind (match_loop (drop i pattern) (drop (j + offset) text) 0 0 None)
            (\<lambda>result. if result \<noteq> -1 then Some (int j + result + int offset)
                      else if offset > 0 then match_loop pattern text i j (Some (offset - 1))
                      else Some (-1))
      | None \<Rightarrow>
          if i < length pattern then
            if pattern ! i = CHR ''?'' \<and> str_at text j \<noteq> CHR 0x00 then match_loop pattern text i j None
            else if pattern ! i = CHR ''$'' then Some (if str_at text j = CHR 0x00 then int j else -1)
            else if pattern ! i = CHR ''*'' then
              let i = i + 1; deep = (str_at pattern i = CHR ''*'');
                  offset = (if deep then length (drop j text)
                            else length (takeWhile (\<lambda>c. c \<noteq> CHR ''/'' \<and> c \<noteq> CHR 0x00) (drop j text)));
                  i = (if deep then i + 1 else i)
              in if i = length pattern then Some (int j + int offset)
                 else match_loop pattern text i j (Some offset)
            else if tolower (pattern ! i) \<noteq> tolower (str_at text j) then Some (-1)
            else match_loop pattern text (i + 1) (j + 1) None
          else Some (int j))"

declare match_loop.simps [code]

partial_function (option) match_pattern :: "string \<Rightarrow> string \<Rightarrow> int option" where
  "match_pattern pattern text =
     (case find_char (CHR 0x7C) pattern of
        None \<Rightarrow> match_loop pattern text 0 0 None
      | Some token \<Rightarrow>
          Option.bind (match_pattern (take token pattern) text)
            (\<lambda>output. if output > 0 then Some output else match_pattern (drop (token + 1) pattern) text))"

declare match_pattern.simps [code]

section \<open>Wide characters\<close>

datatype wide_error = out_of_range

text \<open>
  \<^verbatim>\<open>to_wide\<close>: a lead byte whose continuation is missing makes \<^verbatim>\<open>at\<close> throw; a byte that is no lead
  byte is copied without an advance of the index.
\<close>

definition low_six :: "char \<Rightarrow> int" where
  "low_six c = schar c AND 0x3F"

partial_function (option) to_wide_loop :: "string \<Rightarrow> int list \<Rightarrow> (wide_error + int list) option" where
  "to_wide_loop other output =
     (case other of
        [] \<Rightarrow> Some (Inr output)
      | c # rest \<Rightarrow>
          let v = schar c in
          if v AND 0x80 = 0 then to_wide_loop rest (output @ [v])
          else if v AND 0xE0 = 0xC0 then
            (case rest of
               d # t \<Rightarrow> to_wide_loop t (output @ [push_bit 6 (v AND 0x1F) OR low_six d])
             | _ \<Rightarrow> Some (Inl out_of_range))
          else if v AND 0xF0 = 0xE0 then
            (case rest of
               d # e # t \<Rightarrow> to_wide_loop t (output @ [push_bit 12 (v AND 0xF) OR push_bit 6 (low_six d) OR low_six e])
             | _ \<Rightarrow> Some (Inl out_of_range))
          else if v AND 0xF8 = 0xF0 then
            (case rest of
               d # e # f # t \<Rightarrow>
                 to_wide_loop t (output @ [push_bit 18 (v AND 0x7) OR push_bit 12 (low_six d) OR push_bit 6 (low_six e) OR low_six f])
             | _ \<Rightarrow> Some (Inl out_of_range))
          else if v AND 0xFC = 0xF8 then
            to_wide_loop (drop 4 rest)
              (output @ [push_bit 24 (v AND 0x3) OR push_bit 18 (low_six c) OR push_bit 12 (low_six c) OR push_bit 6 (low_six c) OR low_six c])
          else if v AND 0xFE = 0xFC then
            to_wide_loop (drop 5 rest)
              (output @ [push_bit 30 (v AND 0x1) OR push_bit 24 (low_six c) OR push_bit 18 (low_six c) OR push_bit 12 (low_six c)
                 OR push_bit 6 (low_six c) OR low_six c])
          else to_wide_loop other (output @ [v]))"

declare to_wide_loop.simps [code]

definition to_wide :: "string \<Rightarrow> (wide_error + int list) option" where
  "to_wide other = to_wide_loop other []"

end
