(* ===== verification/Stringify_Laws.thy ===== *)
theory Stringify_Laws
  imports Stringify Codec_Numbers
begin

text \<open>
  Laws of the string helpers.  The locale \<open>symbol_finder\<close> is what the loops that split and replace
  rely on: a search for the first character with a property.  It is interpreted for the three
  searches of the sources, and the loops are then equal to structural reference definitions.
\<close>

section \<open>Scans\<close>

lemma scan_up_cases:
  "(case scan_up P i n of
      None \<Rightarrow> \<forall>k. i \<le> k \<and> k < i + n \<longrightarrow> \<not> P k
    | Some k \<Rightarrow> i \<le> k \<and> k < i + n \<and> P k \<and> (\<forall>j. i \<le> j \<and> j < k \<longrightarrow> \<not> P j))"
proof (induction P i n rule: scan_up.induct)
  case (2 P i n)
  show ?case
  proof (cases "P i")
    case False
    have le: "i \<le> j \<longleftrightarrow> j = i \<or> Suc i \<le> j" for j by auto
    show ?thesis using 2 False by (auto split: option.splits simp: le)
  qed auto
qed auto

lemma scan_up_SomeD:
  assumes "scan_up P i n = Some k"
  shows "i \<le> k" "k < i + n" "P k" "\<And>j. i \<le> j \<Longrightarrow> j < k \<Longrightarrow> \<not> P j"
  using scan_up_cases [where P = P and i = i and n = n] assms by auto

lemma scan_up_NoneD: "scan_up P i n = None \<Longrightarrow> i \<le> k \<Longrightarrow> k < i + n \<Longrightarrow> \<not> P k"
  using scan_up_cases [where P = P and i = i and n = n] by auto

lemma scan_down_cases:
  "(case scan_down P n of
      None \<Rightarrow> \<forall>k<n. \<not> P k
    | Some k \<Rightarrow> k < n \<and> P k \<and> (\<forall>j. k < j \<and> j < n \<longrightarrow> \<not> P j))"
  by (induction P n rule: scan_down.induct) (auto simp: less_Suc_eq split: option.splits if_splits)

text \<open>A scan over the characters of a text is \<^const>\<open>takeWhile\<close>.\<close>

lemma scan_up_text:
  assumes "i \<le> length s"
  shows "scan_up (\<lambda>k. Q (s ! k)) i (length s - i) =
     (let p = takeWhile (\<lambda>c. \<not> Q c) (drop i s)
      in if i + length p < length s then Some (i + length p) else None)"
  using assms
proof (induction "length s - i" arbitrary: i)
  case (Suc n)
  then have i: "i < length s" "n = length s - Suc i" by auto
  have d: "drop i s = s ! i # drop (Suc i) s" using i by (simp add: Cons_nth_drop_Suc)
  have "scan_up (\<lambda>k. Q (s ! k)) i (length s - i) =
      (if Q (s ! i) then Some i else scan_up (\<lambda>k. Q (s ! k)) (Suc i) (length s - Suc i))"
    using Suc(2) i by (metis scan_up.simps(2))
  then show ?case using Suc(1) [of "Suc i"] i d by (auto simp: Let_def)
qed simp

section \<open>The contract of a search for a character\<close>

lemma dropWhile_shorter: "dropWhile Q s = c # t \<Longrightarrow> length t < length s"
  by (metis dropWhile_eq_drop length_Cons length_drop lessI order_less_le_trans diff_le_self)

function split_spec :: "(char \<Rightarrow> bool) \<Rightarrow> string \<Rightarrow> string list" where
  "split_spec Q s =
     (case dropWhile (\<lambda>c. \<not> Q c) s of
        [] \<Rightarrow> if s = [] then [] else [s]
      | c # t \<Rightarrow> takeWhile (\<lambda>c. \<not> Q c) s # split_spec Q t)"
  by auto
termination by (relation "measure (\<lambda>(Q, s). length s)") (auto intro: dropWhile_shorter)

declare split_spec.simps [simp del]

lemma split_spec_plain: "dropWhile (\<lambda>c. \<not> Q c) s = [] \<Longrightarrow> split_spec Q s = (if s = [] then [] else [s])"
  by (subst split_spec.simps) (simp del: dropWhile_eq_Nil_conv)

lemma split_spec_hit:
  "dropWhile (\<lambda>c. \<not> Q c) s = c # t \<Longrightarrow> split_spec Q s = takeWhile (\<lambda>c. \<not> Q c) s # split_spec Q t"
  by (subst split_spec.simps) simp

lemma drop_dropWhile: "drop (length (takeWhile Q s)) s = dropWhile Q s"
  by (simp add: dropWhile_eq_drop)

locale symbol_finder =
  fixes finder :: "string \<Rightarrow> nat \<Rightarrow> text_settle" and hit :: "char \<Rightarrow> bool"
  assumes finder: "finder s i = settle_at s (scan_up (\<lambda>k. hit (s ! k)) i (length s - i))"
begin

lemma finder_beyond: "length s \<le> i \<Longrightarrow> \<not> ts_found (finder s i)"
  by (simp add: finder settle_at_def not_settled_def)

lemma finder_cases:
  assumes "i \<le> length s"
  obtains (none) "finder s i = not_settled s" "list_all (\<lambda>c. \<not> hit c) (drop i s)"
    | (found) c t where "dropWhile (\<lambda>c. \<not> hit c) (drop i s) = c # t"
        "finder s i = settled (i + length (takeWhile (\<lambda>c. \<not> hit c) (drop i s)))
           (Suc (i + length (takeWhile (\<lambda>c. \<not> hit c) (drop i s))))"
        "t = drop (Suc (i + length (takeWhile (\<lambda>c. \<not> hit c) (drop i s)))) s" "hit c"
        "i + length (takeWhile (\<lambda>c. \<not> hit c) (drop i s)) < length s"
proof (cases "i + length (takeWhile (\<lambda>c. \<not> hit c) (drop i s)) < length s")
  case True
  let ?p = "takeWhile (\<lambda>c. \<not> hit c) (drop i s)"
  have d: "dropWhile (\<lambda>c. \<not> hit c) (drop i s) = drop (i + length ?p) s"
    by (simp add: dropWhile_eq_drop add.commute)
  then have d': "dropWhile (\<lambda>c. \<not> hit c) (drop i s) = s ! (i + length ?p) # drop (Suc (i + length ?p)) s"
    using True by (simp add: Cons_nth_drop_Suc)
  moreover have "hit (s ! (i + length ?p))" using d' hd_dropWhile [of "\<lambda>c. \<not> hit c" "drop i s"] by fastforce
  ultimately show ?thesis
    using found [of "s ! (i + length ?p)"] True assms
    by (simp add: finder scan_up_text settle_at_def)
next
  case False
  let ?p = "takeWhile (\<lambda>c. \<not> hit c) (drop i s)"
  have "length (drop i s) \<le> length ?p" using False by simp
  then have "?p = drop i s" by (metis takeWhile_eq_take length_takeWhile_le order_antisym take_all)
  then have "list_all (\<lambda>c. \<not> hit c) (drop i s)" by (metis list_all_iff set_takeWhileD)
  then show ?thesis using none False assms by (simp add: finder scan_up_text settle_at_def)
qed

lemma split_loop_eq:
  "i \<le> length s \<Longrightarrow>
   split_loop (finder s) None s i (finder s i) out = Some (out @ split_spec hit (drop i s))"
proof (induction "length s - i" arbitrary: i out rule: less_induct)
  case less
  let ?p = "takeWhile (\<lambda>c. \<not> hit c) (drop i s)"
  from less.prems show ?case
  proof (cases rule: finder_cases)
    case none
    have "dropWhile (\<lambda>c. \<not> hit c) (drop i s) = []" using none(2) by (simp add: list_all_iff dropWhile_eq_Nil_conv)
    then have "split_spec hit (drop i s) = (if drop i s = [] then [] else [drop i s])" by (rule split_spec_plain)
    then show ?thesis using none(1) by (subst split_loop.simps) (auto simp: not_settled_def)
  next
    case (found c t)
    let ?k = "Suc (i + length ?p)"
    have "split_loop (finder s) None s ?k (finder s ?k) (out @ [?p]) = Some ((out @ [?p]) @ split_spec hit (drop ?k s))"
      using found(5) by (intro less.hyps) auto
    moreover have "split_spec hit (drop i s) = ?p # split_spec hit (drop ?k s)"
      using split_spec_hit [OF found(1)] found(3) by simp
    moreover have "take (length ?p) (drop i s) = ?p" by (metis takeWhile_eq_take)
    ultimately show ?thesis using found(2) by (subst split_loop.simps) (simp add: settled_def)
  qed
qed

lemma split_eq: "pm_split_with (finder s) None out s i = Some (out @ split_spec hit (drop i s))"
  using split_loop_eq [of i s out] by (auto simp: pm_split_with_def split_spec.simps)

lemma replace_loop_eq:
  "i \<le> length s \<Longrightarrow>
   replace_loop finder s i to = Some (take i s @ concat (map (\<lambda>c. if hit c then to else [c]) (drop i s)))"
proof (induction "length s - i" arbitrary: i s rule: less_induct)
  case less
  let ?p = "takeWhile (\<lambda>c. \<not> hit c) (drop i s)"
  have plain: "concat (map (\<lambda>c. if hit c then to else [c]) q) = q" if "list_all (\<lambda>c. \<not> hit c) q" for q
    using that by (induction q) auto
  from less.prems show ?case
  proof (cases rule: finder_cases)
    case none
    then show ?thesis by (subst replace_loop.simps) (simp add: not_settled_def plain)
  next
    case (found c t)
    let ?n = "i + length ?p"
    define u where "u = insert_text (erase_offsets s ?n (Suc ?n)) ?n to"
    have u: "u = take ?n s @ to @ t"
      using found(3,5) by (simp add: u_def insert_text_def erase_offsets_def erase_part_def)
    have len: "length (take ?n s @ to) = ?n + length to" using found(5) by simp
    have "length u - (?n + length to) < length s - i" using found(3,5) by (simp add: u)
    then have "replace_loop finder u (?n + length to) to =
        Some (take (?n + length to) u @ concat (map (\<lambda>c. if hit c then to else [c]) (drop (?n + length to) u)))"
      using len by (intro less.hyps) (auto simp: u)
    moreover have "take (?n + length to) u = take ?n s @ to" "drop (?n + length to) u = t"
      using len by (simp_all add: u)
    moreover have "concat (map (\<lambda>c. if hit c then to else [c]) (drop i s)) =
        concat (map (\<lambda>c. if hit c then to else [c]) (?p @ c # t))"
      unfolding found(1) [symmetric] takeWhile_dropWhile_id by (rule refl)
    moreover have "take (length ?p) (drop i s) = ?p" by (rule takeWhile_eq_take [symmetric])
    then have "take ?n s = take i s @ ?p" by (simp add: take_add)
    moreover have "list_all (\<lambda>c. \<not> hit c) ?p" by (metis list_all_iff set_takeWhileD)
    ultimately show ?thesis using found(2,4)
      by (subst replace_loop.simps) (simp add: settled_def plain u_def)
  qed
qed

end

interpretation find_symbol: symbol_finder "\<lambda>s. find_symbol s w" "\<lambda>c. c = w" for w
  by unfold_locales (simp add: find_symbol_def)

interpretation find_of: symbol_finder "\<lambda>s. find_of s w" "\<lambda>c. c \<in> set w" for w
  by unfold_locales (simp add: find_of_def)

interpretation find_not_of: symbol_finder "\<lambda>s. find_not_of s w" "\<lambda>c. c \<notin> set w" for w
  by unfold_locales (simp add: find_not_of_def)

section \<open>Splitting and joining\<close>

lemma split_spec_pieces: "p \<in> set (split_spec Q s) \<Longrightarrow> c \<in> set p \<Longrightarrow> \<not> Q c"
proof (induction Q s rule: split_spec.induct)
  case (1 Q s)
  show ?case
  proof (cases "dropWhile (\<lambda>c. \<not> Q c) s")
    case Nil
    then show ?thesis using split_spec_plain [OF Nil] "1.prems" by (auto split: if_splits)
  next
    case (Cons d t)
    then show ?thesis using 1 Cons split_spec_hit [OF Cons] by (auto dest: set_takeWhileD)
  qed
qed

lemma split_spec_join:
  "concat (map (\<lambda>p. p @ [w]) (split_spec (\<lambda>c. c = w) s)) = (if s = [] \<or> last s = w then s else s @ [w])"
proof (induction "\<lambda>c. c = w" s rule: split_spec.induct)
  case (1 s)
  show ?case
  proof (cases "dropWhile (\<lambda>c. c \<noteq> w) s")
    case Nil
    then have "s = [] \<or> last s \<noteq> w" by (auto simp: dropWhile_eq_Nil_conv)
    moreover have "split_spec (\<lambda>c. c = w) s = (if s = [] then [] else [s])"
      using Nil by (rule split_spec_plain)
    ultimately show ?thesis by auto
  next
    case (Cons d t)
    let ?p = "takeWhile (\<lambda>c. c \<noteq> w) s"
    have d: "d = w" using Cons hd_dropWhile [of "\<lambda>c. c \<noteq> w" s] by auto
    have s: "?p @ d # t = s" using Cons by (metis takeWhile_dropWhile_id)
    have e: "split_spec (\<lambda>c. c = w) s = ?p # split_spec (\<lambda>c. c = w) t"
      using Cons by (rule split_spec_hit)
    have l: "last s = (if t = [] then w else last t)" using s d by (metis last.simps last_append list.distinct(1))
    have "concat (map (\<lambda>p. p @ [w]) (split_spec (\<lambda>c. c = w) t)) = (if t = [] \<or> last t = w then t else t @ [w])"
      using 1 Cons by simp
    then have "concat (map (\<lambda>p. p @ [w]) (split_spec (\<lambda>c. c = w) s)) =
      ?p @ d # (if t = [] \<or> last t = w then t else t @ [w])" using d by (simp add: e)
    also have "\<dots> = (if s = [] \<or> last s = w then ?p @ d # t else (?p @ d # t) @ [w])" using l s by auto
    finally show ?thesis unfolding s .
  qed
qed

section \<open>Trimming\<close>

lemma trim_bounds:
  "trim s = [] \<or> (\<not> isspace (hd (trim s)) \<and> \<not> isspace (last (trim s)))"
proof (cases "trim s = []")
  case False
  let ?t = "dropWhile isspace s"
  have t: "?t \<noteq> []"
  proof
    assume "?t = []"
    then have "trim s = trim_end []" by (simp only: trim_def trim_start_def)
    then show False using False by (simp add: trim_end_def)
  qed
  have "last (trim s) = hd (dropWhile isspace (rev ?t))"
    using False by (simp add: trim_def trim_start_def trim_end_def last_rev)
  then have l: "\<not> isspace (last (trim s))"
    using False hd_dropWhile [of isspace "rev ?t"] by (auto simp: trim_def trim_start_def trim_end_def)
  have "\<exists>q. rev ?t = q @ dropWhile isspace (rev ?t)" by (metis takeWhile_dropWhile_id)
  then obtain q where "?t = trim s @ rev q"
    by (metis rev_append rev_rev_ident trim_def trim_end_def trim_start_def)
  then have "hd (trim s) = hd ?t" using False by simp
  then show ?thesis using l hd_dropWhile [OF t] by simp
qed simp

lemma trim_parts:
  "\<exists>l r. s = l @ trim s @ r \<and> list_all isspace l \<and> list_all isspace r"
proof -
  let ?t = "dropWhile isspace s"
  have "s = takeWhile isspace s @ ?t" by simp
  moreover have "rev ?t = takeWhile isspace (rev ?t) @ dropWhile isspace (rev ?t)" by simp
  then have "?t = trim s @ rev (takeWhile isspace (rev ?t))"
    by (metis rev_append rev_rev_ident trim_def trim_end_def trim_start_def)
  ultimately have "s = takeWhile isspace s @ trim s @ rev (takeWhile isspace (rev ?t))" by metis
  then show ?thesis by (intro exI conjI) (auto simp: list_all_iff dest: set_takeWhileD)
qed

lemma trim_idem: "trim (trim s) = trim s"
proof (cases "trim s = []")
  case False
  then have "\<not> isspace (hd (trim s))" "\<not> isspace (last (trim s))" using trim_bounds by auto
  then have "dropWhile isspace (trim s) = trim s" "dropWhile isspace (rev (trim s)) = rev (trim s)"
    using False by (simp_all add: dropWhile_eq_self_iff hd_rev)
  then show ?thesis by (simp add: trim_def [of "trim s"] trim_start_def trim_end_def)
next
  case True
  then have "trim (trim s) = trim []" by (simp only:)
  then show ?thesis using True by (simp add: trim_def [of "[]"] trim_start_def trim_end_def)
qed

section \<open>Escaping\<close>

lemma unescape_escape_symbol: "escape_symbol v = Some e \<Longrightarrow> unescape_symbol e = Some v"
  by (auto simp: escape_symbol_def unescape_symbol_def split: if_splits)

lemma unescape_plain: "c \<noteq> CHR 0x5C \<Longrightarrow> unescape (c # s) = c # unescape s"
  by (cases s) auto

lemma unescape_escape:
  "CHR 0x22 \<notin> set s \<Longrightarrow> CHR 0x5C \<notin> set s \<Longrightarrow> unescape (escape s) = s"
proof -
  assume "CHR 0x22 \<notin> set s" "CHR 0x5C \<notin> set s"
  then have "unescape (escape_loop prev s) = s" for prev
    by (induction prev s rule: escape_loop.induct)
       (auto simp: unescape_plain dest!: unescape_escape_symbol split: option.splits)
  then show ?thesis by (simp add: escape_def)
qed

section \<open>Searching and replacing texts\<close>

lemma strstr_cases:
  "(case strstr needle s of
      None \<Rightarrow> \<forall>k. take (length needle) (drop k s) \<noteq> needle
    | Some i \<Rightarrow> i \<le> length s \<and> take (length needle) (drop i s) = needle
        \<and> (\<forall>k<i. take (length needle) (drop k s) \<noteq> needle))"
proof (induction s)
  case (Cons c s)
  show ?case
  proof (cases "take (length needle) (c # s) = needle")
    case False
    have "take (length needle) (drop k (c # s)) \<noteq> needle \<longleftrightarrow> k = 0 \<or> take (length needle) (drop (k - 1) s) \<noteq> needle" for k
      using False by (cases k) auto
    then show ?thesis using Cons False by (auto split: option.splits simp: less_Suc_eq_0_disj)
  qed auto
qed auto

lemma c_str_id: "CHR 0x00 \<notin> set s \<Longrightarrow> c_str s = s"
  by (auto simp: c_str_def takeWhile_eq_all_conv)

function replace_spec :: "string \<Rightarrow> string \<Rightarrow> string \<Rightarrow> string" where
  "replace_spec from to [] = []"
| "replace_spec from to (c # s) =
     (if from \<noteq> [] \<and> take (length from) (c # s) = from then to @ replace_spec from to (drop (length from) (c # s))
      else c # replace_spec from to s)"
  by pat_completeness auto
termination by (relation "measure (\<lambda>(from, to, s). length s)") auto

declare replace_spec.simps(2) [simp del]

lemma replace_spec_skip:
  "(\<And>k. k < i \<Longrightarrow> take (length from) (drop k s) \<noteq> from) \<Longrightarrow> i \<le> length s \<Longrightarrow>
   replace_spec from to s = take i s @ replace_spec from to (drop i s)"
proof (induction i arbitrary: s)
  case (Suc i)
  then obtain c t where s: "s = c # t" by (cases s) auto
  have "take (length from) (drop k t) \<noteq> from" if "k < i" for k using Suc.prems(1) [of "Suc k"] that by (simp add: s)
  then have "replace_spec from to t = take i t @ replace_spec from to (drop i t)" using Suc s by auto
  moreover have "take (length from) (c # t) \<noteq> from" using Suc.prems(1) [of 0] by (simp add: s)
  ultimately show ?case by (simp add: s replace_spec.simps)
qed simp

lemma replace_spec_none:
  "from \<noteq> [] \<Longrightarrow> (\<And>k. take (length from) (drop k s) \<noteq> from) \<Longrightarrow> replace_spec from to s = s"
  using replace_spec_skip [of "length s" "from" s to] by simp

lemma replace_text_eq:
  assumes "from \<noteq> []" "CHR 0x00 \<notin> set from" "CHR 0x00 \<notin> set to"
  shows "i \<le> length s \<Longrightarrow> CHR 0x00 \<notin> set s \<Longrightarrow>
    replace_text s from to i = Some (take i s @ replace_spec from to (drop i s))"
  unfolding replace_text_def
proof (induction "length s - i" arbitrary: i s rule: less_induct)
  case less
  have null: "CHR 0x00 \<notin> set (drop i s)" using less.prems(2) by (auto dest: in_set_dropD)
  show ?case
  proof (cases "i < length s")
    case False
    then show ?thesis using less.prems by (subst replace_loop.simps) (simp add: find_text_def not_settled_def)
  next
    case True
    then have f: "find_text s from i = (case strstr from (drop i s) of None \<Rightarrow> not_settled s
        | Some k \<Rightarrow> settled (i + k) (i + k + length from))"
      using assms null by (auto simp: find_text_def c_str_id)
    show ?thesis
    proof (cases "strstr from (drop i s)")
      case None
      then have "replace_spec from to (drop i s) = drop i s"
        using strstr_cases [of "from" "drop i s"] assms(1) by (intro replace_spec_none) auto
      then show ?thesis using None f by (subst replace_loop.simps) (simp add: not_settled_def)
    next
      case (Some k)
      let ?n = "i + k"
      have k: "k \<le> length (drop i s)" "take (length from) (drop ?n s) = from"
        "\<And>j. j < k \<Longrightarrow> take (length from) (drop j (drop i s)) \<noteq> from"
        using strstr_cases [of "from" "drop i s"] Some by (auto simp: add.commute)
      define t where "t = drop (?n + length from) s"
      have dn: "drop ?n s = from @ t" using k(2) by (metis append_take_drop_id drop_drop t_def add.commute)
      have n: "?n + length from \<le> length s" using arg_cong [OF dn, of length] assms(1) by (simp add: t_def) (cases "from", auto)
      define u where "u = insert_text (erase_offsets s ?n (?n + length from)) ?n to"
      have u: "u = take ?n s @ to @ t"
        using n by (simp add: u_def insert_text_def erase_offsets_def erase_part_def t_def)
      have len: "length (take ?n s @ to) = ?n + length to" using n by simp
      have "replace_loop (\<lambda>s. find_text s from) u (?n + length to) to =
          Some (take (?n + length to) u @ replace_spec from to (drop (?n + length to) u))"
      proof (rule less.hyps)
        show "length u - (?n + length to) < length s - i"
          using n assms(1) True by (simp add: u t_def) (cases "from", auto)
        show "?n + length to \<le> length u" using len by (simp add: u)
        show "CHR 0x00 \<notin> set u" using less.prems(2) assms(3) by (auto simp: u t_def dest: in_set_takeD in_set_dropD)
      qed
      moreover have "take (?n + length to) u = take ?n s @ to" "drop (?n + length to) u = t"
        using len by (simp_all add: u)
      moreover have "replace_spec from to (drop i s) = take k (drop i s) @ to @ replace_spec from to t"
      proof -
        have "replace_spec from to (drop i s) = take k (drop i s) @ replace_spec from to (from @ t)"
          using replace_spec_skip [OF k(3) k(1), of to] dn by (simp add: add.commute)
        moreover have "replace_spec from to (from @ t) = to @ replace_spec from to t"
          using assms(1) by (cases "from") (simp_all add: replace_spec.simps)
        ultimately show ?thesis by simp
      qed
      ultimately show ?thesis using f Some
        by (subst replace_loop.simps) (simp add: settled_def u_def take_add)
    qed
  qed
qed

section \<open>Wide characters\<close>

lemma and_schar:
  assumes "take_bit 8 m = m"
  shows "schar c AND m = int (of_char c) AND m"
proof -
  have "take_bit 8 (schar c) = take_bit 8 (int (of_char c))"
    by (simp add: schar_def Let_def take_bit_eq_mod)
  then have "bit (schar c) i = bit (int (of_char c)) i" if "i < 8" for i using that by (metis bit_take_bit_iff)
  moreover have "\<not> bit m i" if "\<not> i < 8" for i using that assms by (metis bit_take_bit_iff)
  ultimately show ?thesis by (intro bit_eqI) (auto simp: bit_simps)
qed

lemma and_high:
  assumes "0 \<le> b" "b < 256" "k \<le> 8"
  shows "b AND push_bit k (mask (8 - k)) = push_bit k (drop_bit k (b::int))"
proof -
  have "take_bit 8 b = b" using assms by (simp add: take_bit_eq_mod)
  then have "i < 8" if "bit b i" for i using that by (metis bit_take_bit_iff)
  then show ?thesis using assms(3) by (intro bit_eqI) (auto simp: bit_simps diff_less_mono)
qed

lemma byte_range: "0 \<le> int (of_char c)" "int (of_char c) < 256"
  using of_char_less [of c] by linarith+

lemma lead_tests:
  fixes c :: char
  defines "b \<equiv> int (of_char c)"
  shows "schar c AND 0x80 = 0 \<longleftrightarrow> b < 128" "schar c AND 0xE0 = 0xC0 \<longleftrightarrow> b div 32 = 6"
    "schar c AND 0xF0 = 0xE0 \<longleftrightarrow> b div 16 = 14" "schar c AND 0xF8 = 0xF0 \<longleftrightarrow> b div 8 = 30"
    "schar c AND 0xFC = 0xF8 \<longleftrightarrow> b div 4 = 62" "schar c AND 0xFE = 0xFC \<longleftrightarrow> b div 2 = 126"
proof -
  note r = byte_range [of c, folded b_def]
  have h: "b AND 0x80 = b div 128 * 128" "b AND 0xE0 = b div 32 * 32" "b AND 0xF0 = b div 16 * 16"
    "b AND 0xF8 = b div 8 * 8" "b AND 0xFC = b div 4 * 4" "b AND 0xFE = b div 2 * 2"
    using and_high [OF r, of 7] and_high [OF r, of 5] and_high [OF r, of 4] and_high [OF r, of 3]
      and_high [OF r, of 2] and_high [OF r, of 1]
    by (simp_all add: push_bit_eq_mult drop_bit_eq_div mask_eq_exp_minus_1)
  have s: "schar c AND 0x80 = b AND 0x80" "schar c AND 0xE0 = b AND 0xE0" "schar c AND 0xF0 = b AND 0xF0"
    "schar c AND 0xF8 = b AND 0xF8" "schar c AND 0xFC = b AND 0xFC" "schar c AND 0xFE = b AND 0xFE"
    unfolding b_def by (simp_all add: and_schar take_bit_eq_mod)
  show "schar c AND 0x80 = 0 \<longleftrightarrow> b < 128" unfolding s h using r by (auto simp: zdiv_eq_0_iff)
  show "schar c AND 0xE0 = 0xC0 \<longleftrightarrow> b div 32 = 6" "schar c AND 0xF0 = 0xE0 \<longleftrightarrow> b div 16 = 14"
    "schar c AND 0xF8 = 0xF0 \<longleftrightarrow> b div 8 = 30" "schar c AND 0xFC = 0xF8 \<longleftrightarrow> b div 4 = 62"
    "schar c AND 0xFE = 0xFC \<longleftrightarrow> b div 2 = 126" unfolding s h by linarith+
qed

lemma payload_bits:
  fixes c :: char
  defines "b \<equiv> int (of_char c)"
  shows "schar c AND 0x1F = b mod 32" "schar c AND 0xF = b mod 16" "schar c AND 0x7 = b mod 8" "low_six c = b mod 64"
proof -
  have "schar c AND 0x1F = b AND 0x1F" "schar c AND 0xF = b AND 0xF" "schar c AND 0x7 = b AND 0x7" "schar c AND 0x3F = b AND 0x3F"
    unfolding b_def by (simp_all add: and_schar take_bit_eq_mod)
  then show "schar c AND 0x1F = b mod 32" "schar c AND 0xF = b mod 16" "schar c AND 0x7 = b mod 8" "low_six c = b mod 64"
    using take_bit_eq_mask [of 5 b] take_bit_eq_mask [of 4 b] take_bit_eq_mask [of 3 b] take_bit_eq_mask [of 6 b]
    by (simp_all add: mask_eq_exp_minus_1 take_bit_eq_mod low_six_def)
qed

lemma or_groups:
  fixes x y z w :: int
  assumes y: "0 \<le> y" "y < 64" and z: "0 \<le> z" "z < 64" and w: "0 \<le> w" "w < 64"
  shows "push_bit 6 x OR y = x * 64 + y"
    and "push_bit 12 x OR push_bit 6 y OR z = (x * 64 + y) * 64 + z"
    and "push_bit 18 x OR push_bit 12 y OR push_bit 6 z OR w = ((x * 64 + y) * 64 + z) * 64 + w"
proof -
  have join: "push_bit n a OR b = a * 2 ^ n + b" if "0 \<le> b" "b < 2 ^ n" for n and a b :: int
    using or_disjoint_add [of n b "push_bit n a"] that by (simp add: take_bit_eq_mod push_bit_eq_mult)
  have yz: "push_bit 6 y OR z = y * 64 + z" and zw: "push_bit 6 z OR w = z * 64 + w"
    using join [of z 6 y] join [of w 6 z] z w by auto
  show "push_bit 6 x OR y = x * 64 + y" using join [of y 6 x] y by simp
  show "push_bit 12 x OR push_bit 6 y OR z = (x * 64 + y) * 64 + z"
    unfolding yz using join [of "y * 64 + z" 12 x] y z by simp
  have "push_bit 12 y OR push_bit 6 z OR w = y * 4096 + (z * 64 + w)"
    unfolding zw using join [of "z * 64 + w" 12 y] z w by simp
  then show "push_bit 18 x OR push_bit 12 y OR push_bit 6 z OR w = ((x * 64 + y) * 64 + z) * 64 + w"
    using join [of "y * 4096 + (z * 64 + w)" 18 x] y z w by simp
qed

lemma to_wide_ascii: "int (of_char a) < 128 \<Longrightarrow> to_wide_loop (a # t) out = to_wide_loop t (out @ [int (of_char a)])"
proof -
  assume a: "int (of_char a) < 128"
  then have "schar a = int (of_char a)" by (simp add: schar_def Let_def)
  moreover have "schar a AND 0x80 = 0" using a by (simp only: lead_tests)
  ultimately show ?thesis by (subst to_wide_loop.simps) (simp only: list.case Let_def if_True simp_thms)
qed

lemma mod_add_base: "0 \<le> x \<Longrightarrow> x < m \<Longrightarrow> m dvd k \<Longrightarrow> (k + x) mod m = (x::int)"
  by (metis add.left_neutral dvd_imp_mod_0 mod_add_left_eq mod_pos_pos_trivial)

lemma to_wide_2:
  assumes "int (of_char a) = 0xC0 + x" "int (of_char b) = 0x80 + y" "0 \<le> x" "x < 32" "0 \<le> y" "y < 64"
  shows "to_wide_loop (a # b # t) out = to_wide_loop t (out @ [x * 64 + y])"
proof -
  have l: "\<not> schar a AND 0x80 = 0" "schar a AND 0xE0 = 0xC0"
    unfolding lead_tests assms(1) using assms(3,4) by linarith+
  have p: "schar a AND 0x1F = x" "low_six b = y"
    unfolding payload_bits assms(1,2) using assms(3-) by (auto intro!: mod_add_base)
  show ?thesis by (subst to_wide_loop.simps) (simp only: list.case Let_def l p simp_thms if_True if_False
      or_groups(1) [OF assms(5,6) assms(5,6) assms(5,6)])
qed

lemma to_wide_3:
  assumes "int (of_char a) = 0xE0 + x" "int (of_char b) = 0x80 + y" "int (of_char c) = 0x80 + z"
    "0 \<le> x" "x < 16" "0 \<le> y" "y < 64" "0 \<le> z" "z < 64"
  shows "to_wide_loop (a # b # c # t) out = to_wide_loop t (out @ [(x * 64 + y) * 64 + z])"
proof -
  have l: "\<not> schar a AND 0x80 = 0" "\<not> schar a AND 0xE0 = 0xC0" "schar a AND 0xF0 = 0xE0"
    unfolding lead_tests assms(1) using assms(4,5) by linarith+
  have p: "schar a AND 0xF = x" "low_six b = y" "low_six c = z"
    unfolding payload_bits assms(1,2,3) using assms(4-) by (auto intro!: mod_add_base)
  show ?thesis by (subst to_wide_loop.simps) (simp only: list.case Let_def l p simp_thms if_True if_False
      or_groups(2) [OF assms(6,7) assms(8,9) assms(8,9)])
qed

lemma to_wide_4:
  assumes "int (of_char a) = 0xF0 + x" "int (of_char b) = 0x80 + y" "int (of_char c) = 0x80 + z" "int (of_char d) = 0x80 + w"
    "0 \<le> x" "x < 8" "0 \<le> y" "y < 64" "0 \<le> z" "z < 64" "0 \<le> w" "w < 64"
  shows "to_wide_loop (a # b # c # d # t) out = to_wide_loop t (out @ [((x * 64 + y) * 64 + z) * 64 + w])"
proof -
  have l: "\<not> schar a AND 0x80 = 0" "\<not> schar a AND 0xE0 = 0xC0" "\<not> schar a AND 0xF0 = 0xE0" "schar a AND 0xF8 = 0xF0"
    unfolding lead_tests assms(1) using assms(5,6) by linarith+
  have p: "schar a AND 0x7 = x" "low_six b = y" "low_six c = z" "low_six d = w"
    unfolding payload_bits assms(1,2,3,4) using assms(5-) by (auto intro!: mod_add_base)
  show ?thesis by (subst to_wide_loop.simps) (simp only: list.case Let_def l p simp_thms if_True if_False
      or_groups(3) [OF assms(7,8) assms(9,10) assms(11,12)])
qed

lemma to_wide_utf8:
  assumes "0 \<le> c" "c < 0xD800 \<or> 0xE000 \<le> c \<and> c < 0x110000"
  shows "to_wide_loop (utf8 c @ t) out = to_wide_loop t (out @ [c])"
proof -
  have m: "0 \<le> k mod 64" "k mod 64 < 64" for k :: int by simp_all
  have d: "drop_bit 6 c = c div 64" "drop_bit 12 c = c div 4096" "drop_bit 18 c = c div 262144"
    by (simp_all add: drop_bit_eq_div)
  consider "c < 0x80" | "0x80 \<le> c" "c < 0x800" | "0x800 \<le> c" "c < 0xD800 \<or> 0xE000 \<le> c \<and> c < 0x10000"
    | "0x10000 \<le> c" "c < 0x110000" using assms by linarith
  then show ?thesis
  proof cases
    case 1
    then have "utf8 c = [char_of_int (c AND 0x7F)]" by (simp add: utf8_def)
    moreover have "int (of_char (char_of_int (c AND 0x7F))) = c" unfolding utf8_lead byte_of_lead using 1 assms by simp
    ultimately show ?thesis using to_wide_ascii [of "char_of_int (c AND 0x7F)" t out] 1 by simp
  next
    case 2
    from utf8_bytes2 [OF 2] obtain a b where u: "utf8 c = [a, b]"
      and v: "int (of_char a) = 0xC0 + c div 64 mod 32" "int (of_char b) = 0x80 + c mod 64"
      unfolding d by (auto simp: unsigned_bytes_def map_eq_Cons_conv)
    have b: "0 \<le> c div 64" "c div 64 < 32" "c div 64 mod 32 = c div 64" using 2 by auto
    show ?thesis using to_wide_2 [OF v(1) [unfolded b(3)] v(2) b(1,2) m, of t out] unfolding base64_split by (simp add: u)
  next
    case 3
    from utf8_bytes3 [OF 3] obtain a b e where u: "utf8 c = [a, b, e]"
      and v: "int (of_char a) = 0xE0 + c div 4096 mod 16" "int (of_char b) = 0x80 + c div 64 mod 64" "int (of_char e) = 0x80 + c mod 64"
      unfolding d by (auto simp: unsigned_bytes_def map_eq_Cons_conv)
    have b: "0 \<le> c div 4096" "c div 4096 < 16" "c div 4096 mod 16 = c div 4096" using 3 by auto
    show ?thesis using to_wide_3 [OF v(1) [unfolded b(3)] v(2,3) b(1,2) m m, of t out] unfolding base64_split by (simp add: u)
  next
    case 4
    from utf8_bytes4 [OF 4] obtain a b e f where u: "utf8 c = [a, b, e, f]"
      and v: "int (of_char a) = 0xF0 + c div 262144 mod 8" "int (of_char b) = 0x80 + c div 4096 mod 64"
        "int (of_char e) = 0x80 + c div 64 mod 64" "int (of_char f) = 0x80 + c mod 64"
      unfolding d by (auto simp: unsigned_bytes_def map_eq_Cons_conv)
    have b: "0 \<le> c div 262144" "c div 262144 < 8" "c div 262144 mod 8 = c div 262144" using 4 by auto
    show ?thesis using to_wide_4 [OF v(1) [unfolded b(3)] v(2,3,4) b(1,2) m m m, of t out] unfolding base64_split by (simp add: u)
  qed
qed

lemma to_wide_stray:
  assumes "128 \<le> int (of_char c)" "int (of_char c) < 192"
  shows "to_wide_loop (c # t) out = None"
proof (rule ccontr)
  have e: "\<not> schar c AND 0x80 = 0" "schar c AND 0xE0 \<noteq> 0xC0" "schar c AND 0xF0 \<noteq> 0xE0"
    "schar c AND 0xF8 \<noteq> 0xF0" "schar c AND 0xFC \<noteq> 0xF8" "schar c AND 0xFE \<noteq> 0xFC"
    unfolding lead_tests using assms by linarith+
  assume "to_wide_loop (c # t) out \<noteq> None"
  then obtain y where "to_wide_loop (c # t) out = Some y" by auto
  then have "c # t \<noteq> c # t"
    apply (rule to_wide_loop.raw_induct [where P = "\<lambda>s out y. s \<noteq> c # t", rotated])
    subgoal premises prems for f s out' y using prems(1) [of "c # t"] prems(2) e by (auto simp: Let_def)
    done
  then show False by simp
qed

section \<open>Patterns\<close>

definition literal_symbol :: "char \<Rightarrow> bool" where
  "literal_symbol c \<longleftrightarrow> c \<notin> set ''?$*|'' \<and> c \<noteq> CHR 0x00"

text \<open>The text begins with the pattern, in either case.\<close>

definition begins_with :: "string \<Rightarrow> string \<Rightarrow> bool" where
  "begins_with text p \<longleftrightarrow> map tolower (take (length p) text) = map tolower p"

lemma tolower_eq_null: "tolower c = CHR 0x00 \<longleftrightarrow> c = CHR 0x00"
proof (cases "isupper c")
  case True
  then have n: "(of_char c :: nat) + 32 < 256" "(of_char c :: nat) \<noteq> 0" by (auto simp: isupper_def)
  have "of_char (tolower c) = (of_char c :: nat) + 32" using True n(1) by (simp add: tolower_def of_char_of)
  then have "tolower c \<noteq> CHR 0x00" by (auto dest: arg_cong [of _ _ "of_char :: char \<Rightarrow> nat"])
  then show ?thesis using n(2) by auto
qed (simp add: tolower_def)

lemma literal_in_text:
  assumes "literal_symbol c" "tolower c = tolower (str_at text i)"
  shows "i < length text"
proof (rule ccontr)
  assume "\<not> i < length text"
  then have "tolower c = tolower (CHR 0x00)" using assms(2) by simp
  then show False using assms(1) tolower_eq_null [of c] tolower_eq_null [of "CHR 0x00"] by (simp add: literal_symbol_def)
qed

lemma begins_with_take_Suc:
  assumes "i < length p" "literal_symbol (p ! i)" "begins_with text (take i p)"
  shows "begins_with text (take (Suc i) p) \<longleftrightarrow> tolower (p ! i) = tolower (str_at text i)"
proof -
  have "begins_with text (take (Suc i) p) \<longleftrightarrow> i < length text \<and> tolower (text ! i) = tolower (p ! i)"
    using assms(1,3) by (cases "i < length text") (auto simp: begins_with_def take_Suc_conv_app_nth dest: arg_cong [of _ _ length])
  then show ?thesis using literal_in_text [OF assms(2), of "text" i] by auto
qed

lemma begins_with_takeD: "begins_with text p \<Longrightarrow> begins_with text (take i p)"
  by (simp add: begins_with_def min.commute) (metis take_map take_take)

lemma match_loop_literal:
  assumes "list_all literal_symbol p" "i \<le> length p" "begins_with text (take i p)"
  shows "match_loop (p @ q) text i i None =
    (if begins_with text p then match_loop (p @ q) text (length p) (length p) None else Some (-1))"
  using assms(2,3)
proof (induction "length p - i" arbitrary: i)
  case 0
  then show ?case by simp
next
  case (Suc n)
  then have i: "i < length p" by simp
  then have lit: "literal_symbol (p ! i)" using assms(1) by (simp add: list_all_length)
  note more = begins_with_take_Suc [OF i lit Suc.prems(2)]
  have step: "match_loop (p @ q) text i i None =
      (if begins_with text (take (Suc i) p) then match_loop (p @ q) text (Suc i) (Suc i) None else Some (-1))"
    using i lit unfolding more by (subst match_loop.simps) (auto simp: nth_append literal_symbol_def)
  show ?case
  proof (cases "begins_with text (take (Suc i) p)")
    case True
    then show ?thesis unfolding step using Suc i by simp
  next
    case False
    then show ?thesis unfolding step using begins_with_takeD [of "text" p "Suc i"] by auto
  qed
qed

lemma match_literal_start:
  assumes "list_all literal_symbol p" "CHR 0x7C \<notin> set q"
  shows "match_pattern (p @ q) text =
    (if begins_with text p then match_loop (p @ q) text (length p) (length p) None else Some (-1))"
proof -
  have "CHR 0x7C \<notin> set (p @ q)" using assms by (auto simp: list_all_iff literal_symbol_def)
  then have "find_char (CHR 0x7C) (p @ q) = None" by (simp add: find_char_None)
  moreover have "begins_with text (take 0 p)" by (simp add: begins_with_def)
  ultimately show ?thesis using match_loop_literal [OF assms(1), of 0 "text" q] by (subst match_pattern.simps) simp
qed

lemma match_loop_question:
  assumes "i < length p" "p ! i = CHR ''?''" "str_at text j \<noteq> CHR 0x00"
  shows "match_loop p text i j None = None"
proof (rule ccontr)
  assume "match_loop p text i j None \<noteq> None"
  then obtain y where "match_loop p text i j None = Some y" by auto
  then have "\<not> (p = p \<and> text = text \<and> i = i \<and> j = j \<and> (None :: nat option) = None)"
    apply (rule match_loop.raw_induct [where P = "\<lambda>p' t' i' j' star y. \<not> (p' = p \<and> t' = text \<and> i' = i \<and> j' = j \<and> star = None)", rotated])
    subgoal premises prems for f p' t' i' j' star y
      using prems(1) [of p "text" i j None] prems(2) assms by (intro notI, elim conjE) simp
    done
  then show False by simp
qed

lemma match_literal:
  assumes "list_all literal_symbol p"
  shows "match_pattern p text = Some (if begins_with text p then int (length p) else -1)"
proof -
  have "match_loop p text (length p) (length p) None = Some (int (length p))" by (subst match_loop.simps) simp
  then show ?thesis using match_literal_start [OF assms, of "[]" "text"] by simp
qed

lemma match_question:
  assumes "list_all literal_symbol p" "CHR 0x7C \<notin> set q"
  shows "match_pattern (p @ CHR ''?'' # q) text =
    (if begins_with text p \<and> str_at text (length p) \<noteq> CHR 0x00 then None else Some (-1))"
proof -
  have "match_loop (p @ CHR ''?'' # q) text (length p) (length p) None = Some (-1)" if "str_at text (length p) = CHR 0x00"
    using that tolower_eq_null [of "CHR ''?''"] tolower_eq_null [of "CHR 0x00"] by (subst match_loop.simps) simp
  then show ?thesis using match_literal_start [OF assms(1), of "CHR ''?'' # q" "text"] assms(2)
      match_loop_question [of "length p" "p @ CHR ''?'' # q" "text" "length p"] by auto
qed

section \<open>Number recognisers\<close>

lemma has_integer_iff:
  "has_integer s \<longleftrightarrow> (\<exists>sign ds. s = sign @ ds \<and> sign \<in> {[], ''+'', ''-''} \<and> ds \<noteq> [] \<and> list_all isdigit ds)"
proof (cases s)
  case (Cons c t)
  have "is_numeric = isdigit" by (simp add: is_numeric_def fun_eq_iff)
  then have digits: "list_all is_numeric = list_all isdigit" by simp
  show ?thesis
  proof (cases "c = CHR ''+'' \<or> c = CHR ''-''")
    case True
    then have "\<not> isdigit c" by auto
    then have "has_integer s \<longleftrightarrow> t \<noteq> [] \<and> list_all isdigit t"
      using True Cons by (auto simp: has_integer_def sign_offset_def is_numeric_def digits)
    moreover have "t \<noteq> [] \<and> list_all isdigit t" if "s = sign @ ds" "sign \<in> {[], ''+'', ''-''}" "ds \<noteq> []" "list_all isdigit ds" for sign ds
      using that Cons \<open>\<not> isdigit c\<close> by auto
    moreover have "s = [c] @ t \<and> [c] \<in> {[], ''+'', ''-''}" using Cons True by auto
    ultimately show ?thesis by blast
  next
    case False
    then have "has_integer s \<longleftrightarrow> list_all isdigit s"
      using Cons by (auto simp: has_integer_def sign_offset_def is_numeric_def digits)
    moreover have "list_all isdigit s" if "s = sign @ ds" "sign \<in> {[], ''+'', ''-''}" "ds \<noteq> []" "list_all isdigit ds" for sign ds
      using that Cons False by auto
    moreover have "s = [] @ s \<and> s \<noteq> []" using Cons by simp
    ultimately show ?thesis by blast
  qed
qed (simp add: has_integer_def)

end
