(* ===== verification/Stringify_Properties.thy ===== *)
theory Stringify_Properties
  imports Stringify_Laws
begin

text \<open>
  The properties of the string helpers.
\<close>

text \<open>
  C38: Splitting at a character returns the maximal pieces without it, in order; joining the pieces
  with the character gives the text back, up to one separator at its end.  The same loop with a
  set of separators, or with everything outside a set, is the reference split for that set.
\<close>

theorem string_split:
  "\<exists>parts. split_symbol s w 0 = Some parts
     \<and> parts = split_spec (\<lambda>c. c = w) s
     \<and> (\<nexists>p. p \<in> set parts \<and> w \<in> set p)
     \<and> concat (map (\<lambda>p. p @ [w]) parts) = (if s = [] \<or> last s = w then s else s @ [w])
     \<and> split_of s ws 0 = Some (split_spec (\<lambda>c. c \<in> set ws) s)
     \<and> split_not_of s ws 0 = Some (split_spec (\<lambda>c. c \<notin> set ws) s)"
proof (intro exI conjI)
  show "split_symbol s w 0 = Some (split_spec (\<lambda>c. c = w) s)"
    using find_symbol.split_eq [of s w "[]" 0] by (simp add: split_symbol_def pm_split_symbol_def)
  show "\<nexists>p. p \<in> set (split_spec (\<lambda>c. c = w) s) \<and> w \<in> set p" using split_spec_pieces by fastforce
  show "concat (map (\<lambda>p. p @ [w]) (split_spec (\<lambda>c. c = w) s)) = (if s = [] \<or> last s = w then s else s @ [w])"
    by (rule split_spec_join)
  show "split_of s ws 0 = Some (split_spec (\<lambda>c. c \<in> set ws) s)"
    using find_of.split_eq [of s ws "[]" 0] by (simp add: split_of_def pm_split_of_def)
  show "split_not_of s ws 0 = Some (split_spec (\<lambda>c. c \<notin> set ws) s)"
    using find_not_of.split_eq [of s ws "[]" 0] by (simp add: split_not_of_def pm_split_not_of_def)
qed simp

text \<open>
  Replacing a non-empty text returns and is the left-to-right replacement of its
  occurrences, none of which is searched in inserted text; replacing the characters of a set maps
  each of them to the replacement.
\<close>

theorem string_replace:
  assumes "from \<noteq> []" "CHR 0x00 \<notin> set from" "CHR 0x00 \<notin> set to" "CHR 0x00 \<notin> set s"
  shows "replace_text s from to 0 = Some (replace_spec from to s)
   \<and> replace_of s ws to 0 = Some (concat (map (\<lambda>c. if c \<in> set ws then to else [c]) s))
   \<and> replace_not_of s ws to 0 = Some (concat (map (\<lambda>c. if c \<notin> set ws then to else [c]) s))"
  using replace_text_eq [OF assms(1,2,3), of 0 s] assms(4)
    find_of.replace_loop_eq [of 0 s ws to] find_not_of.replace_loop_eq [of 0 s ws to]
  by (simp add: replace_of_def replace_not_of_def)

theorem string_replace_witness: "replace_text ''aaab'' ''aa'' ''a'' 0 = Some ''aab''"
  using string_replace [of "''aa''" "''a''" "''aaab''"] by (simp add: replace_spec.simps)

text \<open>
  Trimming removes exactly the white space at both ends and is idempotent; unescaping undoes
  escaping on texts without quotes and backslashes.
\<close>

theorem string_trim_escape:
  "(\<exists>l r. s = l @ trim s @ r \<and> list_all isspace l \<and> list_all isspace r)
   \<and> (trim s = [] \<or> (\<not> isspace (hd (trim s)) \<and> \<not> isspace (last (trim s))))
   \<and> trim (trim s) = trim s
   \<and> (CHR 0x22 \<notin> set s \<longrightarrow> CHR 0x5C \<notin> set s \<longrightarrow> unescape (escape s) = s)"
  using trim_parts trim_bounds trim_idem unescape_escape by blast

theorem string_trim_escape_witness: "trim (trim '' a b '') = trim '' a b '' \<and> unescape (escape [CHR 0x0A, CHR ''a'']) = [CHR 0x0A, CHR ''a'']"
  using string_trim_escape [of "'' a b ''"] string_trim_escape [of "[CHR 0x0A, CHR ''a'']"] by simp

text \<open>
  \<^verbatim>\<open>to_wide\<close> decodes what \<^verbatim>\<open>codec::utf8\<close> writes: a sequence of scalar values encoded one after the
  other comes back.  A continuation byte where a lead byte is expected makes the loop run forever.
\<close>

theorem wide_text:
  assumes "\<And>c. c \<in> set cs \<Longrightarrow> 0 \<le> c \<and> (c < 0xD800 \<or> 0xE000 \<le> c \<and> c < 0x110000)"
    and "128 \<le> (of_char b :: nat)" "(of_char b :: nat) < 192"
  shows "to_wide (concat (map utf8 cs)) = Some (Inr cs)
   \<and> to_wide (concat (map utf8 cs) @ b # t) = None"
proof -
  have "to_wide_loop (concat (map utf8 cs) @ t) out = to_wide_loop t (out @ cs)" for t out
    using assms(1) by (induction cs arbitrary: out) (simp_all add: to_wide_utf8)
  moreover have "to_wide_loop (b # t) cs = None" using assms(2,3) by (intro to_wide_stray) simp_all
  moreover have "to_wide_loop [] cs = Some (Inr cs)" by (subst to_wide_loop.simps) simp
  ultimately show ?thesis by (metis append_Nil append_Nil2 to_wide_def)
qed

theorem wide_text_witness:
  "to_wide (concat (map utf8 [0x48, 0x20AC])) = Some (Inr [0x48, 0x20AC])
   \<and> to_wide (concat (map utf8 [0x48, 0x20AC]) @ [CHR 0x80]) = None"
  by (rule wide_text) auto

text \<open>
  C31: a pattern of literal symbols matches exactly the texts that begin with it, in either case, and the result is its
  length.  In a pattern without alternatives whose first special symbol is a question mark, the matcher never advances over
  it: if the text begins with the symbols in front and goes on, the matcher runs forever, and otherwise it fails; it never
  matches.  Views are taken to be followed by a null character in memory, which the sources rely on at the end of the text.
\<close>

theorem pattern_match:
  assumes "list_all literal_symbol p" "CHR 0x7C \<notin> set q"
  shows "match_pattern p t = Some (if begins_with t p then int (length p) else -1)
   \<and> match_pattern (p @ CHR ''?'' # q) t =
       (if begins_with t p \<and> length p < length t \<and> t ! length p \<noteq> CHR 0x00 then None else Some (-1))"
  using match_literal [OF assms(1)] match_question [OF assms] by (simp add: str_at_def)

theorem pattern_match_witness: "match_pattern ''GeT'' ''get /'' = Some 3 \<and> match_pattern ''GeT?*'' ''get /'' = None \<and> match_pattern ''GeT?*'' ''get'' = Some (-1)"
proof -
  have "begins_with ''get /'' ''GeT''" "begins_with ''get'' ''GeT''" by code_simp+
  then show ?thesis
    using pattern_match [of "''GeT''" "''*''" "''get /''"] pattern_match [of "''GeT''" "''*''" "''get''"] by (simp add: literal_symbol_def)
qed
text \<open>
  \<^verbatim>\<open>has_integer\<close> accepts an optional sign and at least one digit and nothing else;
  \<^verbatim>\<open>has_decimal\<close> throws on a number that ends with its point.
\<close>

theorem number_recognisers:
  "(has_integer s \<longleftrightarrow> (\<exists>sign ds. s = sign @ ds \<and> sign \<in> {[], ''+'', ''-''} \<and> ds \<noteq> [] \<and> list_all isdigit ds))
   \<and> has_decimal ''1.'' = None"
proof
  show "has_decimal ''1.'' = None" by code_simp
qed (rule has_integer_iff)

end
