(* ===== verification/Http_Frames.thy ===== *)
theory Http_Frames
  imports Stringify
begin

text \<open>
  The frames of \<^verbatim>\<open>network/http.h\<close> and \<^verbatim>\<open>network/http.cpp\<close>: header maps, cookies, the content of a
  message, the request and the response.  The fields of \<^verbatim>\<open>request_frame\<close> and \<^verbatim>\<open>response_frame\<close> that
  belong to routing and authentication (\<^verbatim>\<open>match\<close>, \<^verbatim>\<open>user\<close>) are left out.
\<close>

section \<open>Header maps\<close>

text \<open>
  \<^verbatim>\<open>kimv_unordered_map\<close> maps a key, compared and hashed without case, to its values.  Its order is
  not specified; the association list keeps the order of the insertions.
\<close>

type_synonym kimv = "(string \<times> string list) list"

definition lfnv1a_hash :: "string \<Rightarrow> u64" where
  "lfnv1a_hash data =
     foldl (\<lambda>state c. (state XOR word_of_nat (of_char (tolower c))) * 1099511628211) 14695981039346656037 data"

definition kimv_equal_to :: "string \<Rightarrow> string \<Rightarrow> bool" where
  "kimv_equal_to l r \<longleftrightarrow> length l = length r \<and> list_all2 (\<lambda>a b. tolower a = tolower b) l r"

fun kimv_find :: "kimv \<Rightarrow> string \<Rightarrow> string list option" where
  "kimv_find [] key = None"
| "kimv_find ((k, vs) # m) key = (if kimv_equal_to k key then Some vs else kimv_find m key)"

text \<open>\<^verbatim>\<open>headers[key]\<close> with a change of the values it refers to.\<close>

fun kimv_update :: "kimv \<Rightarrow> string \<Rightarrow> (string list \<Rightarrow> string list) \<Rightarrow> kimv" where
  "kimv_update [] key f = [(key, f [])]"
| "kimv_update ((k, vs) # m) key f =
     (if kimv_equal_to k key then (k, f vs) # m else (k, vs) # kimv_update m key f)"

definition HTTP_KIMV_LOAD_FACTOR :: nat where "HTTP_KIMV_LOAD_FACTOR = 48"

definition cleanup_hash_map :: "kimv \<Rightarrow> kimv" where
  "cleanup_hash_map m =
     (if length m \<le> HTTP_KIMV_LOAD_FACTOR then map (\<lambda>(k, vs). (k, [])) m else [])"

definition header_text :: "kimv \<Rightarrow> string \<Rightarrow> string" where
  "header_text headers key =
     (case kimv_find headers key of
        None \<Rightarrow> []
      | Some vs \<Rightarrow> if vs = [] then [] else last vs)"

text \<open>
  The operations on headers have one body in \<^verbatim>\<open>resource\<close>, \<^verbatim>\<open>request_frame\<close>, \<^verbatim>\<open>response_frame\<close> and
  \<^verbatim>\<open>fetch_frame\<close>; those on cookies in \<^verbatim>\<open>request_frame\<close> and \<^verbatim>\<open>fetch_frame\<close> have it too.
\<close>

definition put_header :: "kimv \<Rightarrow> string \<Rightarrow> string \<Rightarrow> kimv" where
  "put_header headers label value = kimv_update headers label (\<lambda>vs. vs @ [value])"

definition set_header :: "kimv \<Rightarrow> string \<Rightarrow> string \<Rightarrow> kimv" where
  "set_header headers label value = kimv_update headers label (\<lambda>vs. [value])"

definition compose_header :: "kimv \<Rightarrow> string \<Rightarrow> string" where
  "compose_header headers label =
     (case kimv_find headers label of
        None \<Rightarrow> []
      | Some vs \<Rightarrow>
          let result = foldl (\<lambda>result item. result @ item @ '','') [] vs
          in if result = [] then result else take (length result - 1) result)"

definition get_header_ranges :: "kimv \<Rightarrow> string \<Rightarrow> string list \<times> kimv" where
  "get_header_ranges headers label =
     (case kimv_find headers label of
        Some vs \<Rightarrow> (vs, headers)
      | None \<Rightarrow> ([], kimv_update headers label (\<lambda>_. [])))"

definition get_header_blob :: "kimv \<Rightarrow> string \<Rightarrow> string option" where
  "get_header_blob headers label =
     (case kimv_find headers label of
        None \<Rightarrow> None
      | Some vs \<Rightarrow> if vs = [] then None else Some (last vs))"

definition get_header :: "kimv \<Rightarrow> string \<Rightarrow> string" where
  "get_header headers label =
     (case kimv_find headers label of
        None \<Rightarrow> []
      | Some vs \<Rightarrow> if vs = [] then [] else last vs)"

section \<open>Cookies\<close>

record cookie =
  ck_name :: string
  ck_value :: string
  ck_domain :: string
  ck_path :: string
  ck_same_site :: string
  ck_expires :: string
  ck_secure :: bool
  ck_http_only :: bool

definition new_cookie :: cookie where
  "new_cookie = \<lparr>ck_name = [], ck_value = [], ck_domain = [], ck_path = ''/'', ck_same_site = [],
                 ck_expires = [], ck_secure = False, ck_http_only = False\<rparr>"

fun set_cookie :: "cookie list \<Rightarrow> cookie \<Rightarrow> cookie list" where
  "set_cookie [] value = [value]"
| "set_cookie (c # cookies) value =
     (if case_equals (c_str (ck_name c)) (c_str (ck_name value)) then value # cookies
      else c # set_cookie cookies value)"

fun get_cookie :: "cookie list \<Rightarrow> string \<Rightarrow> cookie option" where
  "get_cookie [] key = None"
| "get_cookie (c # cookies) key =
     (if case_equals (c_str (ck_name c)) key then Some c else get_cookie cookies key)"

section \<open>Resources and content\<close>

record resource =
  rs_headers :: kimv
  rs_path :: string
  rs_type :: string
  rs_name :: string
  rs_key :: string
  rs_length :: u64
  rs_is_in_memory :: bool

record content_frame =
  ct_resources :: "resource list"
  ct_data :: string
  ct_length :: u64
  ct_offset :: u64
  ct_prefetch :: u64
  ct_exceeds :: bool
  ct_limited :: bool

definition new_content_frame :: content_frame where
  "new_content_frame = \<lparr>ct_resources = [], ct_data = [], ct_length = 0, ct_offset = 0, ct_prefetch = 0,
                        ct_exceeds = False, ct_limited = False\<rparr>"

definition content_append :: "content_frame \<Rightarrow> string \<Rightarrow> content_frame" where
  "content_append f s = f\<lparr>ct_data := ct_data f @ s\<rparr>"

definition content_assign :: "content_frame \<Rightarrow> string \<Rightarrow> content_frame" where
  "content_assign f s = f\<lparr>ct_data := s\<rparr>"

text \<open>\<open>buffer\<close> is \<^const>\<open>None\<close> for a null pointer.\<close>

definition content_prepare :: "content_frame \<Rightarrow> kimv \<Rightarrow> string option \<Rightarrow> content_frame" where
  "content_prepare f headers buffer =
     (let content_length = header_text headers ''Content-Length'';
          f = f\<lparr>ct_limited := content_length \<noteq> []\<rparr>;
          f = (if ct_limited f then f\<lparr>ct_length := word_of_int (strtoull content_length)\<rparr> else f);
          size = (case buffer of None \<Rightarrow> 0 | Some b \<Rightarrow> word_of_nat (length b));
          f = f\<lparr>ct_offset := size, ct_prefetch := size\<rparr>;
          f = (if ct_offset f > 0 then f\<lparr>ct_data := the buffer\<rparr> else f\<lparr>ct_data := []\<rparr>)
      in if ct_limited f then f
         else if \<not> case_equals (header_text headers ''Transfer-Encoding'') ''chunked'' then f\<lparr>ct_limited := True\<rparr>
         else f)"

definition content_finalize :: "content_frame \<Rightarrow> content_frame" where
  "content_finalize f = f\<lparr>ct_length := ct_offset f, ct_limited := True\<rparr>"

text \<open>The files to remove, in the order in which the spawned task removes them, and the frame.\<close>

definition content_cleanup :: "content_frame \<Rightarrow> string list \<times> content_frame" where
  "content_cleanup f =
     (map rs_path (filter (\<lambda>r. \<not> rs_is_in_memory r) (ct_resources f)),
      f\<lparr>ct_data := [], ct_resources := [], ct_length := 0, ct_offset := 0, ct_prefetch := 0,
        ct_limited := False, ct_exceeds := False\<rparr>)"

definition is_finalized :: "content_frame \<Rightarrow> bool" where
  "is_finalized f \<longleftrightarrow>
     (if ct_prefetch f > 0 then False
      else if \<not> ct_limited f then ct_offset f \<ge> ct_length f \<and> ct_length f > 0
      else ct_offset f \<ge> ct_length f \<or> word_of_nat (length (ct_data f)) \<ge> ct_length f)"

section \<open>Requests\<close>

definition LABEL_SIZE :: nat where "LABEL_SIZE = 16"

text \<open>\<^verbatim>\<open>memset\<close> and \<^verbatim>\<open>memcpy\<close> of a text into a field of \<^const>\<open>LABEL_SIZE\<close> characters.\<close>

definition label :: "string \<Rightarrow> string" where
  "label data = take LABEL_SIZE data @ replicate (LABEL_SIZE - length data) (CHR 0x00)"

record request_frame =
  req_content :: content_frame
  req_cookies :: kimv
  req_headers :: kimv
  req_query :: string
  req_path :: string
  req_location :: string
  req_referrer :: string
  req_method :: string
  req_version :: string

definition new_request_frame :: request_frame where
  "new_request_frame =
     \<lparr>req_content = new_content_frame, req_cookies = [], req_headers = [], req_query = [], req_path = [],
      req_location = [], req_referrer = [], req_method = label ''GET'', req_version = label ''HTTP/1.1''\<rparr>"

definition set_method :: "request_frame \<Rightarrow> string \<Rightarrow> request_frame" where
  "set_method r value = r\<lparr>req_method := label value\<rparr>"

definition set_version :: "request_frame \<Rightarrow> u32 \<Rightarrow> u32 \<Rightarrow> request_frame" where
  "set_version r major minor =
     r\<lparr>req_version := label (''HTTP/'' @ to_chars (uint major) @ ''.'' @ to_chars (uint minor))\<rparr>"

definition request_cleanup :: "request_frame \<Rightarrow> string list \<times> request_frame" where
  "request_cleanup r =
     (let (files, content) = content_cleanup (req_content r)
      in (files,
          r\<lparr>req_method := replicate LABEL_SIZE (CHR 0x00), req_version := replicate LABEL_SIZE (CHR 0x00),
            req_headers := cleanup_hash_map (req_headers r), req_cookies := cleanup_hash_map (req_cookies r),
            req_content := content, req_query := [], req_path := [], req_location := [], req_referrer := []\<rparr>))"

text \<open>
  \<^verbatim>\<open>from_string<size_t>\<close> of a run of digits.  The loop to the left of the minus sign tests
  \<^verbatim>\<open>*(left - 1)\<close> before it compares \<^verbatim>\<open>left_size\<close> with the position, and so looks at the character before the
  text; the run it finds does not depend on it.
\<close>

definition range_number :: "string \<Rightarrow> u64" where
  "range_number digits =
     (if digits = [] then - 1
      else let v = parse_digits digits in if v < 2 ^ 64 then word_of_int v else - 1)"

definition range_of :: "string \<Rightarrow> (u64 \<times> u64) option" where
  "range_of item =
     (let result = find_symbol item (CHR ''-'') 0
      in if \<not> ts_found result then None
         else let content_start = range_number (rev (takeWhile isdigit (rev (take (ts_start result) item))));
                  content_end = range_number (takeWhile isdigit (drop (ts_start result + 1) item))
              in if content_start \<noteq> - 1 \<or> content_end \<noteq> - 1 then Some (content_start, content_end) else None)"

definition get_ranges :: "kimv \<Rightarrow> (u64 \<times> u64) list" where
  "get_ranges headers =
     (case kimv_find headers ''Range'' of None \<Rightarrow> [] | Some vs \<Rightarrow> List.map_filter range_of vs)"

definition close_range :: "u64 \<Rightarrow> u64 \<Rightarrow> u64 \<Rightarrow> u64 \<times> u64" where
  "close_range first second content_length =
     (let second = (if second = - 1 then content_length
                    else if second > content_length then content_length else second);
          first = (if first > second then second else first)
      in (first, second - first))"

text \<open>
  The source also leaves the clamped bounds in the range it was given: for the result \<open>(f, n)\<close> these are \<open>f\<close> and \<open>f + n\<close>,
  or the range itself where both bounds are \<open>- 1\<close>.
\<close>

definition get_range :: "u64 \<times> u64 \<Rightarrow> u64 \<Rightarrow> u64 \<times> u64" where
  "get_range rng content_length =
     (let (first, second) = rng
      in if first = - 1 \<and> second = - 1 then (0, content_length)
         else if first = - 1 then
           let second = (if second > content_length then 0 else second)
           in close_range (content_length - second) content_length content_length
         else if first > content_length then close_range content_length second content_length
         else close_range first second content_length)"

section \<open>Responses\<close>

record response_frame =
  res_content :: content_frame
  res_headers :: kimv
  res_cookies :: "cookie list"
  res_status_code :: int
  res_error :: bool

definition new_response_frame :: response_frame where
  "new_response_frame = \<lparr>res_content = new_content_frame, res_headers = [], res_cookies = [],
                         res_status_code = - 1, res_error = False\<rparr>"

definition response_cleanup :: "response_frame \<Rightarrow> string list \<times> response_frame" where
  "response_cleanup r =
     (let (files, content) = content_cleanup (res_content r)
      in (files, r\<lparr>res_headers := cleanup_hash_map (res_headers r), res_status_code := - 1, res_error := False,
                   res_cookies := [], res_content := content\<rparr>))"

definition is_undefined :: "response_frame \<Rightarrow> bool" where
  "is_undefined r \<longleftrightarrow> res_status_code r \<le> 0"

definition is_ok :: "response_frame \<Rightarrow> bool" where
  "is_ok r \<longleftrightarrow> res_status_code r \<ge> 200 \<and> res_status_code r < 400"

section \<open>Heads of messages\<close>

abbreviation CR :: char where "CR \<equiv> CHR 0x0D"
abbreviation LF :: char where "LF \<equiv> CHR 0x0A"

definition header_lines_of :: "kimv \<Rightarrow> string" where
  "header_lines_of headers =
     concat (map (\<lambda>(k, vs). concat (map (\<lambda>payload. k @ '': '' @ payload @ [CR, LF]) vs)) headers)"

definition set_cookie_line :: "cookie \<Rightarrow> string" where
  "set_cookie_line item =
     (if ck_name item = [] then []
      else ''Set-Cookie: '' @ ck_name item @ ''='' @ ck_value item
           @ (if ck_expires item \<noteq> [] then ''; expires='' @ ck_expires item else [])
           @ (if ck_domain item \<noteq> [] then ''; domain='' @ ck_domain item else [])
           @ (if ck_path item \<noteq> [] then ''; path='' @ ck_path item else [])
           @ (if ck_same_site item \<noteq> [] then ''; same_site='' @ ck_same_site item else [])
           @ (if ck_secure item then ''; SameSite'' else [])
           @ (if ck_http_only item then ''; HttpOnly'' else [])
           @ [CR, LF])"

definition construct_head_full :: "request_frame \<Rightarrow> response_frame \<Rightarrow> bool \<Rightarrow> string \<Rightarrow> string" where
  "construct_head_full request response is_request buffer =
     (let buffer = buffer @ header_lines_of (if is_request then req_headers request else res_headers response)
      in if is_request then buffer
         else buffer @ concat (map set_cookie_line (res_cookies response)))"

text \<open>The request line that \<^verbatim>\<open>client::send\<close> writes.\<close>

definition request_line :: "request_frame \<Rightarrow> string" where
  "request_line request =
     (let location = (if req_location request = [] then ''/'' else req_location request)
      in if req_query request \<noteq> [] then
           c_str (req_method request) @ '' '' @ location @ ''?'' @ req_query request @ '' ''
           @ c_str (req_version request) @ [CR, LF]
         else c_str (req_method request) @ '' '' @ location @ '' '' @ c_str (req_version request) @ [CR, LF])"

definition construct_head_uncache :: "string \<Rightarrow> string" where
  "construct_head_uncache buffer =
     buffer @ ''Cache-Control: no-cache, no-store, must-revalidate, private, max-age=0'' @ [CR, LF]
            @ ''Pragma: no-cache'' @ [CR, LF] @ ''Expires: 0'' @ [CR, LF]"

end
