(* ===== verification/Http_Parser.thy ===== *)
theory Http_Parser
  imports Http_Frames
begin

text \<open>
  The request and response parser of \<^verbatim>\<open>network/http.cpp\<close> (class \<^verbatim>\<open>parser\<close> and the callbacks of
  \<^verbatim>\<open>parsing\<close>).  A pointer into the input is the text from there to \<^verbatim>\<open>buffer_end\<close>, so a difference of
  pointers is a difference of lengths.  The C++ functions return a null pointer and set
  \<^verbatim>\<open>*out\<close>; here they return an error:

  \<^item> \<open>invalid\<close> for \<^verbatim>\<open>*out = -1\<close> and \<open>incomplete\<close> for \<^verbatim>\<open>*out = -2\<close>;
  \<^item> \<open>unset_result\<close> where the source returns without setting \<^verbatim>\<open>*out\<close>, which its callers do not initialise;
  \<^item> \<open>overrun\<close> for a read at \<^verbatim>\<open>buffer_end\<close>;
  \<^item> \<open>length_error\<close> for the exception of a \<^verbatim>\<open>std::string\<close> constructed with a negative length.
\<close>

datatype parse_error = invalid | incomplete | unset_result | overrun | length_error

section \<open>The state of a message\<close>

text \<open>\<^const>\<open>None\<close> in a field is the null pointer.\<close>

record message_state =
  msg_header :: string
  msg_version :: "string option"
  msg_method :: "string option"
  msg_status_code :: "int option"
  msg_location :: "string option"
  msg_query :: "string option"
  msg_cookies :: "kimv option"
  msg_headers :: "kimv option"

section \<open>The callbacks\<close>

definition parse_header_field :: "message_state \<Rightarrow> string \<Rightarrow> message_state" where
  "parse_header_field m name = (if length name > 0 then m\<lparr>msg_header := name\<rparr> else m)"

fun cookie_end :: "string \<Rightarrow> nat \<Rightarrow> nat \<Rightarrow> nat" where
  "cookie_end data 0 i = i"
| "cookie_end data (Suc n) i =
     (if i + 1 < length data \<and> data ! i \<noteq> CHR '';'' then cookie_end data n (i + 1) else i)"

lemma cookie_end_ge: "i \<le> cookie_end data n i"
  by (induction data n i rule: cookie_end.induct) (auto dest: Suc_leD)

definition cookie_last :: "string \<Rightarrow> nat \<Rightarrow> nat" where
  "cookie_last data i =
     (let i = cookie_end data (length data) i in if data ! i = CHR '';'' then i - 1 else i)"

lemma cookie_last_ge: "data ! i = CHR ''='' \<Longrightarrow> i \<le> cookie_last data i"
  using cookie_end_ge [of i data "length data"]
  by (cases "cookie_end data (length data) i = i") (auto simp: cookie_last_def Let_def)

function cookie_loop :: "string \<Rightarrow> nat \<Rightarrow> nat \<Rightarrow> (string \<times> string) list \<Rightarrow> parse_error + (string \<times> string) list" where
  "cookie_loop data i offset cookies =
     (if i < length data then
        if data ! i \<noteq> CHR ''='' then cookie_loop data (i + 1) offset cookies
        else if i < offset then Inl length_error
        else let name = take (i - offset) (drop offset data);
                 j = cookie_last data i
             in cookie_loop data (j + 1) (j + 3) (cookies @ [(name, take (j - i) (drop (i + 1) data))])
      else Inr cookies)"
  by auto
termination
proof (relation "measure (\<lambda>(data, i, _). length data - i)")
  fix data :: string and i :: nat and offset :: nat and cookies and name :: string and j
  assume "i < length data" "\<not> data ! i \<noteq> CHR ''=''" "j = cookie_last data i"
  then show "((data, j + 1, j + 3, cookies @ [(name, take (j - i) (drop (i + 1) data))]), (data, i, offset, cookies))
    \<in> measure (\<lambda>(data, i, _). length data - i)"
    using cookie_last_ge [of data i] by auto
qed auto

declare cookie_loop.simps [simp del]

definition put_cookies :: "kimv \<Rightarrow> (string \<times> string) list \<Rightarrow> kimv" where
  "put_cookies m cookies = foldl (\<lambda>m (name, value). kimv_update m name (\<lambda>vs. vs @ [value])) m cookies"

text \<open>
  The value of the header in \<^verbatim>\<open>message.header\<close>.  The list splitting looks for a comma in the name of the
  header and not in its value.
\<close>

definition store_header :: "message_state \<Rightarrow> kimv \<Rightarrow> string \<Rightarrow> message_state" where
  "store_header m headers data =
     (let split = (\<not> case_equals (msg_header m) ''user-agent'' \<and> find_char (CHR '','') (msg_header m) \<noteq> None);
          grow = (\<lambda>vs. if split then map trim (case pm_split_symbol vs data (CHR '','') 0 of Some vs' \<Rightarrow> vs' | None \<Rightarrow> vs)
                       else vs @ [data])
      in m\<lparr>msg_headers := Some (kimv_update headers (msg_header m) grow), msg_header := []\<rparr>)"

definition parse_header_value :: "message_state \<Rightarrow> string \<Rightarrow> parse_error + message_state" where
  "parse_header_value m data =
     (if data = [] \<or> msg_header m = [] then Inr m
      else if case_equals (msg_header m) ''cookie'' then
        (case msg_cookies m of
           None \<Rightarrow> Inr (m\<lparr>msg_header := []\<rparr>)
         | Some cookies \<Rightarrow>
             (case cookie_loop data 0 0 [] of
                Inl e \<Rightarrow> Inl e
              | Inr items \<Rightarrow> Inr (m\<lparr>msg_cookies := Some (put_cookies cookies items), msg_header := []\<rparr>)))
      else case msg_headers m of
             None \<Rightarrow> Inr (m\<lparr>msg_header := []\<rparr>)
           | Some headers \<Rightarrow> Inr (store_header m headers data))"

definition parse_version :: "message_state \<Rightarrow> string \<Rightarrow> message_state" where
  "parse_version m data = (if data = [] \<or> msg_version m = None then m else m\<lparr>msg_version := Some (label data)\<rparr>)"

definition parse_status_code :: "message_state \<Rightarrow> int \<Rightarrow> message_state" where
  "parse_status_code m value = (if msg_status_code m \<noteq> None then m\<lparr>msg_status_code := Some value\<rparr> else m)"

definition parse_method_value :: "message_state \<Rightarrow> string \<Rightarrow> message_state" where
  "parse_method_value m data = (if data = [] \<or> msg_method m = None then m else m\<lparr>msg_method := Some (label data)\<rparr>)"

definition parse_path_value :: "message_state \<Rightarrow> string \<Rightarrow> message_state" where
  "parse_path_value m data = (if data = [] \<or> msg_location m = None then m else m\<lparr>msg_location := Some data\<rparr>)"

definition parse_query_value :: "message_state \<Rightarrow> string \<Rightarrow> message_state" where
  "parse_query_value m data = (if data = [] \<or> msg_query m = None then m else m\<lparr>msg_query := Some data\<rparr>)"

section \<open>Tokens\<close>

definition printable :: "char \<Rightarrow> bool" where
  "printable c \<longleftrightarrow> (word_of_nat (of_char c) :: u32) - 32 < 95"

definition control :: "char \<Rightarrow> bool" where
  "control c \<longleftrightarrow> ((of_char c :: nat) < 32 \<and> c \<noteq> CHR 0x09) \<or> c = CHR 0x7F"

text \<open>The scan for a control character: eight characters at a time as long as there are eight, then one by one.\<close>

fun find_control_slow :: "string \<Rightarrow> string option" where
  "find_control_slow [] = None"
| "find_control_slow (c # s) = (if \<not> printable c \<and> control c then Some (c # s) else find_control_slow s)"

function find_control :: "string \<Rightarrow> string option" where
  "find_control s =
     (if length s \<ge> 8 then
        let run = length (takeWhile printable (take 8 s))
        in if run = 8 then find_control (drop 8 s)
           else let t = drop run s
                in if control (hd t) then Some t else find_control (tl t)
      else find_control_slow s)"
  by auto
termination
proof (relation "measure length")
  fix s :: string and run t
  assume *: "8 \<le> length s" "run = length (takeWhile printable (take 8 s))" "run \<noteq> 8" "t = drop run s"
  then have "run \<le> 8" using length_takeWhile_le [of printable "take 8 s"] by simp
  then show "(tl t, s) \<in> measure length" using * by auto
qed auto

declare find_control.simps [simp del]

definition tokenize :: "string \<Rightarrow> parse_error + string \<times> string" where
  "tokenize s =
     (case find_control s of
        Some (c # t) \<Rightarrow>
          let token = take (length s - length (c # t)) s
          in if c = CR then (case t of [] \<Rightarrow> Inl incomplete | d # u \<Rightarrow> if d \<noteq> LF then Inl invalid else Inr (token, u))
             else if c = LF then Inr (token, t)
             else Inl invalid
      | _ \<Rightarrow> Inl incomplete)"

section \<open>Completeness of the head\<close>

fun completed_loop :: "string \<Rightarrow> nat \<Rightarrow> parse_error + string" where
  "completed_loop [] result = Inl incomplete"
| "completed_loop (c # s) result =
     (if c = CR then
        (case s of
           [] \<Rightarrow> Inl incomplete
         | d # t \<Rightarrow>
             if d \<noteq> LF then Inl invalid
             else if result + 1 = 2 then Inr t else completed_loop t (result + 1))
      else if c = LF then if result + 1 = 2 then Inr s else completed_loop s (result + 1)
      else completed_loop s 0)"

definition is_completed :: "string \<Rightarrow> nat \<Rightarrow> parse_error + string" where
  "is_completed buffer offset =
     (if offset < 3 then completed_loop buffer 0
      else if offset - 3 > length buffer then Inl overrun
      else completed_loop (drop (offset - 3) buffer) 0)"

section \<open>The parts of a message\<close>

definition process_version :: "message_state \<Rightarrow> string \<Rightarrow> message_state \<times> (parse_error + string)" where
  "process_version m s =
     (if length s < 9 then (m, Inl incomplete)
      else if take 7 s \<noteq> ''HTTP/1.'' then (m, Inl invalid)
      else if \<not> isdigit (s ! 7) then (m, Inl invalid)
      else (parse_version m (take 8 s), Inr (drop 8 s)))"

definition header_mapping :: "nat list" where
  "header_mapping =
     replicate 32 0 @
     [0, 1, 0, 1, 1, 1, 1, 1, 0, 0, 1, 1, 0, 1, 1, 0, 1, 1, 1, 1, 1, 1, 1, 1, 1, 1, 0, 0, 0, 0, 0, 0] @
     [0, 1, 1, 1, 1, 1, 1, 1, 1, 1, 1, 1, 1, 1, 1, 1, 1, 1, 1, 1, 1, 1, 1, 1, 1, 1, 1, 0, 0, 0, 1, 1] @
     [1, 1, 1, 1, 1, 1, 1, 1, 1, 1, 1, 1, 1, 1, 1, 1, 1, 1, 1, 1, 1, 1, 1, 1, 1, 1, 1, 0, 1, 0, 1, 0] @
     replicate 128 0"

fun scan_name :: "string \<Rightarrow> parse_error + string \<times> string" where
  "scan_name [] = Inl incomplete"
| "scan_name (c # s) =
     (if c = CHR '':'' then Inr ([], s)
      else if header_mapping ! of_char c = 0 then Inl invalid
      else case scan_name s of Inl e \<Rightarrow> Inl e | Inr (name, rest) \<Rightarrow> Inr (c # name, rest))"

definition blank :: "char \<Rightarrow> bool" where
  "blank c \<longleftrightarrow> c = CHR '' '' \<or> c = CHR 0x09"

definition header_value :: "message_state \<Rightarrow> string \<Rightarrow> message_state \<times> (parse_error + string)" where
  "header_value m s =
     (case tokenize s of
        Inl e \<Rightarrow> (case parse_header_value m [] of Inr m' \<Rightarrow> (m', Inl e) | Inl e' \<Rightarrow> (m, Inl e'))
      | Inr (value, rest) \<Rightarrow>
          let value = rev (dropWhile blank (rev value))
          in case parse_header_value m value of Inl e \<Rightarrow> (m, Inl e) | Inr m' \<Rightarrow> (m', Inr rest))"

text \<open>One line of the head: a name and its value, or the continuation of a value.\<close>

definition header_line :: "message_state \<Rightarrow> string \<Rightarrow> message_state \<times> (parse_error + string)" where
  "header_line m s =
     (if \<not> blank (hd s) then
        (case scan_name s of
           Inl e \<Rightarrow> (m, Inl e)
         | Inr (name, rest) \<Rightarrow>
             if name = [] then (m, Inl invalid)
             else let m = parse_header_field m name; rest = dropWhile blank rest
                  in if rest = [] then
                       (case parse_header_value m [] of Inr m' \<Rightarrow> (m', Inl incomplete) | Inl e \<Rightarrow> (m, Inl e))
                     else header_value m rest)
      else header_value (parse_header_field m []) s)"

lemma printable_iff: "printable c \<longleftrightarrow> 32 \<le> (of_char c :: nat) \<and> (of_char c :: nat) < 127"
proof -
  have c: "(of_char c :: nat) < 256" by (simp add: of_char_def)
  let ?n = "of_char c :: nat"
  have "uint ((word_of_nat ?n :: u32) - 32) = (int ?n - 32) mod 2 ^ 32"
  proof -
    have "?n mod 4294967296 = ?n" using c by (intro mod_less) linarith
    then show ?thesis by (simp add: uint_word_ariths unsigned_of_nat take_bit_eq_mod)
  qed
  then have "printable c \<longleftrightarrow> (int ?n - 32) mod 2 ^ 32 < 95"
    by (simp add: printable_def word_less_def)
  also have "\<dots> \<longleftrightarrow> 32 \<le> ?n \<and> ?n < 127"
  proof (cases "32 \<le> ?n")
    case False
    then have "(int ?n - 32) mod 2 ^ 32 = int ?n - 32 + 2 ^ 32"
      by (subst mod_add_self2 [symmetric]) (simp add: mod_pos_pos_trivial)
    then show ?thesis using False by simp
  next
    case True
    then have "(int ?n - 32) mod 4294967296 = int ?n - 32" using c by (intro mod_pos_pos_trivial; linarith)
    then show ?thesis using True by auto
  qed
  finally show ?thesis .
qed

lemma control_not_printable: "control c \<Longrightarrow> \<not> printable c"
  by (auto simp: control_def printable_iff)

lemma find_control_slow_eq:
  "find_control_slow s = (case dropWhile (\<lambda>c. \<not> control c) s of [] \<Rightarrow> None | t \<Rightarrow> Some t)"
  by (induction s) (auto dest: control_not_printable)

lemma dropWhile_skip: "\<forall>x\<in>set (take n s). P x \<Longrightarrow> dropWhile P s = dropWhile P (drop n s)"
  by (metis append_take_drop_id dropWhile_append2)

lemma find_control_eq:
  "find_control s = (case dropWhile (\<lambda>c. \<not> control c) s of [] \<Rightarrow> None | t \<Rightarrow> Some t)"
proof (induction s rule: find_control.induct)
  case (1 s)
  let ?run = "length (takeWhile printable (take 8 s))"
  have le: "?run \<le> 8" using length_takeWhile_le [of printable "take 8 s"] by simp
  have "takeWhile printable (take 8 s) = take ?run s"
    using le by (metis min.absorb1 take_take takeWhile_eq_take)
  then have "\<forall>x\<in>set (take ?run s). printable x" by (metis set_takeWhileD)
  then have skip: "dropWhile (\<lambda>c. \<not> control c) s = dropWhile (\<lambda>c. \<not> control c) (drop ?run s)"
    by (intro dropWhile_skip) (auto dest: control_not_printable)
  show ?case
  proof (cases "8 \<le> length s")
    case long: True
    show ?thesis
    proof (cases "?run = 8")
      case True
      then show ?thesis using 1(1) [OF long] long skip by (simp add: find_control.simps [of s])
    next
      case False
      then obtain c t where t: "drop ?run s = c # t" using le long by (cases "drop ?run s") auto
      then show ?thesis using 1(2) [OF long refl False refl] long skip False
        by (simp add: find_control.simps [of s])
    qed
  next
    case False
    then show ?thesis by (simp add: find_control.simps [of s] find_control_slow_eq)
  qed
qed

lemma find_control_split:
  assumes "find_control s = Some t"
  obtains c u where "t = c # u" "s = takeWhile (\<lambda>c. \<not> control c) s @ c # u" "control c"
proof -
  have "dropWhile (\<lambda>c. \<not> control c) s = t" "t \<noteq> []"
    using assms by (auto simp: find_control_eq split: list.splits)
  then show ?thesis using that hd_dropWhile [of "\<lambda>c. \<not> control c" s]
    by (metis list.sel(1) neq_Nil_conv takeWhile_dropWhile_id)
qed

lemma tokenize_shorter: "tokenize s = Inr (token, rest) \<Longrightarrow> length rest < length s"
proof -
  assume *: "tokenize s = Inr (token, rest)"
  then obtain t where t: "find_control s = Some t" by (cases "find_control s") (auto simp: tokenize_def)
  obtain c u where u: "t = c # u" and s: "s = takeWhile (\<lambda>c. \<not> control c) s @ c # u"
    using t by (rule find_control_split)
  have "length u < length s" using arg_cong [OF s, of length] by simp
  then show ?thesis using * by (auto simp: tokenize_def t u Let_def split: list.splits if_splits)
qed

lemma scan_name_shorter: "scan_name s = Inr (name, rest) \<Longrightarrow> length rest < length s"
  by (induction s arbitrary: name) (auto split: if_splits sum.splits intro: less_SucI)

lemma header_value_shorter: "header_value m s = (m', Inr rest) \<Longrightarrow> length rest < length s"
  by (auto simp: header_value_def Let_def split: sum.splits prod.splits dest: tokenize_shorter)

lemma header_line_shorter: "header_line m s = (m', Inr rest) \<Longrightarrow> length rest < length s"
  by (auto simp: header_line_def Let_def split: sum.splits prod.splits if_splits
      dest!: header_value_shorter scan_name_shorter)
     (meson le_less_trans length_dropWhile_le less_trans)+

text \<open>The headers up to the empty line.\<close>

function header_lines :: "message_state \<Rightarrow> string \<Rightarrow> message_state \<times> (parse_error + string)" where
  "header_lines m s =
     (case s of
        [] \<Rightarrow> (m, Inl incomplete)
      | c # t \<Rightarrow>
          if c = CR then
            (case t of
               [] \<Rightarrow> (m, Inl incomplete)
             | d # u \<Rightarrow> if d \<noteq> LF then (m, Inl invalid) else (m, Inr u))
          else if c = LF then (m, Inr t)
          else case header_line m s of
                 (m', Inl e) \<Rightarrow> (m', Inl e)
               | (m', Inr rest) \<Rightarrow> header_lines m' rest)"
  by auto
termination
  by (relation "measure (\<lambda>(m, s). length s)") (auto dest: header_line_shorter [OF sym])

declare header_lines.simps [simp del]

definition process_headers :: "message_state \<Rightarrow> string \<Rightarrow> message_state \<times> (parse_error + string)" where
  "process_headers m s =
     header_lines (m\<lparr>msg_headers := map_option (\<lambda>_. []) (msg_headers m),
                     msg_cookies := map_option (\<lambda>_. []) (msg_cookies m)\<rparr>) s"

text \<open>
  A word up to the next space.  The source skips the test of the control characters for a printable
  one; the tab is a control character here.
\<close>

fun scan_word :: "string \<Rightarrow> parse_error + string \<times> string" where
  "scan_word [] = Inl incomplete"
| "scan_word (c # s) =
     (if c = CHR '' '' then Inr ([], c # s)
      else if \<not> printable c \<and> ((of_char c :: nat) < 32 \<or> c = CHR 0x7F) then Inl invalid
      else case scan_word s of Inl e \<Rightarrow> Inl e | Inr (word, rest) \<Rightarrow> Inr (c # word, rest))"

text \<open>
  \<^verbatim>\<open>do { ++buffer; } while (*buffer == ' ');\<close> at a space: it does not look for the end of the buffer.
\<close>

fun skip_spaces :: "string \<Rightarrow> parse_error + string" where
  "skip_spaces [] = Inl overrun"
| "skip_spaces [c] = Inl overrun"
| "skip_spaces (c # d # s) = (if d = CHR '' '' then skip_spaces (d # s) else Inr (d # s))"

text \<open>The optional line end before a request.\<close>

definition skip_line_end :: "string \<Rightarrow> parse_error + string" where
  "skip_line_end s =
     (case s of
        [] \<Rightarrow> Inl incomplete
      | c # t \<Rightarrow>
          if c = CR then (case t of [] \<Rightarrow> Inl incomplete | d # u \<Rightarrow> if d \<noteq> LF then Inl invalid else Inr u)
          else if c = LF then Inr t
          else Inr s)"

text \<open>The line end after the version, read without a test for the end of the buffer.\<close>

definition expect_line_end :: "string \<Rightarrow> parse_error + string" where
  "expect_line_end s =
     (case s of
        [] \<Rightarrow> Inl overrun
      | c # t \<Rightarrow>
          if c = CR then (case t of [] \<Rightarrow> Inl incomplete | d # u \<Rightarrow> if d \<noteq> LF then Inl invalid else Inr u)
          else if c \<noteq> LF then Inl invalid
          else Inr t)"

text \<open>
  The target of a request: a query follows the first question mark, unless the target begins with it.
\<close>

definition process_target :: "message_state \<Rightarrow> string \<Rightarrow> message_state" where
  "process_target m path =
     (let QL = length (takeWhile (\<lambda>c. c \<noteq> CHR ''?'') path); PL = length path
      in if QL > 0 \<and> QL < PL then
           let QL' = PL - QL - 1; PL' = PL - (QL' + 1)
           in parse_path_value (parse_query_value m (take QL' (drop (PL' + 1) path))) (take PL' path)
         else parse_path_value m path)"

definition process_request_line :: "message_state \<Rightarrow> string \<Rightarrow> message_state \<times> (parse_error + string)" where
  "process_request_line m s =
     (case scan_word s of
        Inl e \<Rightarrow> (m, Inl e)
      | Inr (word, rest) \<Rightarrow>
          if word = [] then (m, Inl unset_result)
          else let m = parse_method_value m word
               in case skip_spaces rest of
                    Inl e \<Rightarrow> (m, Inl e)
                  | Inr rest \<Rightarrow>
                      case scan_word rest of
                        Inl e \<Rightarrow> (m, Inl e)
                      | Inr (path, rest) \<Rightarrow>
                          if path = [] then (m, Inl unset_result)
                          else let m = process_target m path
                               in case skip_spaces rest of
                                    Inl e \<Rightarrow> (m, Inl e)
                                  | Inr rest \<Rightarrow>
                                      case process_version m rest of
                                        (m, Inl e) \<Rightarrow> (m, Inl e)
                                      | (m, Inr rest) \<Rightarrow> (m, expect_line_end rest))"

definition process_request :: "message_state \<Rightarrow> string \<Rightarrow> message_state \<times> (parse_error + string)" where
  "process_request m s =
     (case skip_line_end s of
        Inl e \<Rightarrow> (m, Inl e)
      | Inr s \<Rightarrow>
          if s = [] then (m, Inl incomplete)
          else case process_request_line m s of
                 (m, Inl e) \<Rightarrow> (m, Inl e)
               | (m, Inr rest) \<Rightarrow> process_headers m rest)"

definition digit :: "char \<Rightarrow> int" where
  "digit c = of_char c - 48"

definition parse_status_message :: "message_state \<Rightarrow> string \<Rightarrow> message_state" where
  "parse_status_message m name = m"

definition process_status :: "message_state \<Rightarrow> string \<Rightarrow> message_state \<times> (parse_error + string)" where
  "process_status m s =
     (case process_version m s of
        (m, Inl e) \<Rightarrow> (m, Inl e)
      | (m, Inr s) \<Rightarrow>
          if s = [] then (m, Inl overrun)
          else if hd s \<noteq> CHR '' '' then (m, Inl invalid)
          else case skip_spaces s of
                 Inl e \<Rightarrow> (m, Inl e)
               | Inr s \<Rightarrow>
                   if length s < 4 then (m, Inl incomplete)
                   else if \<not> isdigit (s ! 0) \<or> \<not> isdigit (s ! 1) \<or> \<not> isdigit (s ! 2) then (m, Inl invalid)
                   else (parse_status_code m (100 * digit (s ! 0) + 10 * digit (s ! 1) + digit (s ! 2)),
                         Inr (drop 3 s)))"

definition process_response :: "message_state \<Rightarrow> string \<Rightarrow> message_state \<times> (parse_error + string)" where
  "process_response m s =
     (case process_status m s of
        (m, Inl e) \<Rightarrow> (m, Inl e)
      | (m, Inr s) \<Rightarrow>
          case tokenize s of
            Inl e \<Rightarrow> (m, Inl e)
          | Inr (message, rest) \<Rightarrow>
              if message = [] then process_headers m rest
              else if hd message \<noteq> CHR '' '' then (m, Inl invalid)
              else process_headers (parse_status_message m (dropWhile (\<lambda>c. c = CHR '' '') message)) rest)"

section \<open>The entry points\<close>

text \<open>
  The result of a parse is the error or the number of bytes read.  The pointers of
  \<^verbatim>\<open>message_state\<close> are set to the fields of the frame by \<^verbatim>\<open>prepare_for_request_parsing\<close> and
  \<^verbatim>\<open>prepare_for_response_parsing\<close>, so that the state after the parse holds the fields of the frame.
\<close>

definition prepare_for_request_parsing :: "request_frame \<Rightarrow> message_state" where
  "prepare_for_request_parsing request =
     \<lparr>msg_header = [], msg_version = Some (req_version request), msg_method = Some (req_method request),
      msg_status_code = None, msg_location = Some (req_location request), msg_query = Some (req_query request),
      msg_cookies = Some (req_cookies request), msg_headers = Some (req_headers request)\<rparr>"

definition prepare_for_response_parsing :: "response_frame \<Rightarrow> message_state" where
  "prepare_for_response_parsing response =
     \<lparr>msg_header = [], msg_version = None, msg_method = None,
      msg_status_code = Some (res_status_code response), msg_location = None, msg_query = None,
      msg_cookies = None, msg_headers = Some (res_headers response)\<rparr>"

definition parse_with ::
    "(message_state \<Rightarrow> string \<Rightarrow> message_state \<times> (parse_error + string)) \<Rightarrow> message_state \<Rightarrow> string \<Rightarrow> nat
     \<Rightarrow> message_state \<times> (parse_error + nat)" where
  "parse_with process m buffer offset =
     (case is_completed buffer offset of
        Inl e \<Rightarrow> (m, Inl e)
      | Inr _ \<Rightarrow>
          case process m buffer of
            (m, Inl e) \<Rightarrow> (m, Inl e)
          | (m, Inr rest) \<Rightarrow> (m, Inr (length buffer - length rest)))"

definition parse_request :: "message_state \<Rightarrow> string \<Rightarrow> nat \<Rightarrow> message_state \<times> (parse_error + nat)" where
  "parse_request = parse_with process_request"

definition parse_response :: "message_state \<Rightarrow> string \<Rightarrow> nat \<Rightarrow> message_state \<times> (parse_error + nat)" where
  "parse_response = parse_with process_response"

end
