(* ===== verification/Http_Laws.thy ===== *)
theory Http_Laws
  imports Http_Parser "HOL-Library.Sublist"
begin

text \<open>
  Lemmas on the frames and the parser: the law of a map from keys to values (locale
  \<open>keyed_values\<close>, interpreted on the header maps), the tokens of a head and their round trip through
  the printer, the count of line ends behind \<^const>\<open>is_completed\<close>, and the suffixes the parser returns.
\<close>

section \<open>Maps from keys to lists of values\<close>

locale keyed_values =
  fixes same :: "'k \<Rightarrow> 'k \<Rightarrow> bool"
    and find :: "'m \<Rightarrow> 'k \<Rightarrow> 'v list option"
    and update :: "'m \<Rightarrow> 'k \<Rightarrow> ('v list \<Rightarrow> 'v list) \<Rightarrow> 'm"
  assumes same_equiv: "equivp same"
    and find_update: "find (update m k f) k' =
      (if same k k' then Some (f (case find m k of None \<Rightarrow> [] | Some vs \<Rightarrow> vs)) else find m k')"
    and find_same: "same k k' \<Longrightarrow> find m k = find m k'"
begin

definition "values" where
  "values m k = (case find m k of None \<Rightarrow> [] | Some vs \<Rightarrow> vs)"

lemma values_update: "values (update m k f) k' = (if same k k' then f (values m k) else values m k')"
  by (simp add: values_def find_update)

lemma values_same: "same k k' \<Longrightarrow> values m k = values m k'"
  using find_same by (simp add: values_def)

lemma values_puts:
  "values (foldl (\<lambda>m (k, v). update m k (\<lambda>vs. vs @ [v])) m items) k' =
   values m k' @ map snd (filter (\<lambda>(k, v). same k k') items)"
  by (induction items arbitrary: m) (auto simp: values_update values_same)

end

lemma kimv_equal_to_iff: "kimv_equal_to l r \<longleftrightarrow> map tolower l = map tolower r"
  by (auto simp: kimv_equal_to_def list_all2_conv_all_nth list_eq_iff_nth_eq)

lemma kimv_find_same: "kimv_equal_to k k' \<Longrightarrow> kimv_find m k = kimv_find m k'"
  by (induction m k rule: kimv_find.induct) (auto simp: kimv_equal_to_iff)

lemma kimv_find_update:
  "kimv_find (kimv_update m k f) k' =
   (if kimv_equal_to k k' then Some (f (case kimv_find m k of None \<Rightarrow> [] | Some vs \<Rightarrow> vs)) else kimv_find m k')"
  by (induction m k f rule: kimv_update.induct) (auto simp: kimv_equal_to_iff)

interpretation headers: keyed_values kimv_equal_to kimv_find kimv_update
proof unfold_locales
  show "equivp kimv_equal_to"
    by (rule equivpI) (auto simp: reflp_def symp_def transp_def kimv_equal_to_iff)
qed (auto simp: kimv_find_update intro: kimv_find_same)

lemma lfnv1a_hash_lower: "lfnv1a_hash data =
    foldl (\<lambda>state c. (state XOR word_of_nat (of_char c)) * 1099511628211) 14695981039346656037 (map tolower data)"
  by (simp add: lfnv1a_hash_def foldl_map)

section \<open>Tokens\<close>

definition plain :: "string \<Rightarrow> bool" where
  "plain s \<longleftrightarrow> (\<forall>c\<in>set s. \<not> control c)"

lemma control_ends: "control CR" "control LF"
  by (simp_all add: control_def)

lemma tokenize_plain: "plain token \<Longrightarrow> tokenize (token @ CR # LF # rest) = Inr (token, rest)"
  by (simp add: tokenize_def find_control_eq plain_def dropWhile_append3 control_ends Let_def)

definition tokenize_reference :: "string \<Rightarrow> parse_error + string \<times> string" where
  "tokenize_reference s =
     (let token = takeWhile (\<lambda>c. \<not> control c) s
      in case drop (length token) s of
           [] \<Rightarrow> Inl incomplete
         | [c] \<Rightarrow> if c = LF then Inr (token, []) else if c = CR then Inl incomplete else Inl invalid
         | c # d # rest \<Rightarrow>
             if c = LF then Inr (token, d # rest)
             else if c = CR \<and> d = LF then Inr (token, rest)
             else Inl invalid)"

lemma tokenize_eq: "tokenize s = tokenize_reference s"
proof -
  have "length s - length (dropWhile P s) = length (takeWhile P s)" for P :: "char \<Rightarrow> bool"
    by (metis diff_add_inverse2 length_append takeWhile_dropWhile_id)
  then have "dropWhile (\<lambda>c. \<not> control c) s = t
      \<Longrightarrow> take (length s - length t) s = takeWhile (\<lambda>c. \<not> control c) s" for t
    by (metis takeWhile_eq_take)
  then show ?thesis
    by (cases "dropWhile (\<lambda>c. \<not> control c) s" rule: remdups_adj.cases)
       (simp_all add: tokenize_def tokenize_reference_def find_control_eq Let_def
         del: dropWhile_eq_Nil_conv flip: dropWhile_eq_drop)
qed

lemma tokenize_suffix:
  assumes "tokenize s = Inr (token, rest)"
  shows "\<exists>e. s = token @ e @ rest \<and> (e = [LF] \<or> e = [CR, LF])"
proof -
  have "s = takeWhile (\<lambda>c. \<not> control c) s @ drop (length (takeWhile (\<lambda>c. \<not> control c) s)) s"
    by (metis dropWhile_eq_drop takeWhile_dropWhile_id)
  then show ?thesis using assms
    by (auto simp: tokenize_eq tokenize_reference_def Let_def split: list.splits if_splits)
qed

section \<open>The completeness test\<close>

lemma completed_step:
  "completed_loop (LF # s) r = (if r = 1 then Inr s else completed_loop s (r + 1))"
  "completed_loop (CR # LF # s) r = (if r = 1 then Inr s else completed_loop s (r + 1))"
  "c \<noteq> CR \<Longrightarrow> c \<noteq> LF \<Longrightarrow> completed_loop (c # s) r = completed_loop s 0"
  by simp_all

text \<open>Case analysis on the next line end.\<close>

lemma completed_cases [case_names nil cr bad crlf lf other]:
  obtains "s = []" | "s = [CR]" | d t where "s = CR # d # t" "d \<noteq> LF" | t where "s = CR # LF # t"
    | t where "s = LF # t" | c t where "s = c # t" "c \<noteq> CR" "c \<noteq> LF"
  by (metis list.exhaust)

lemma completed_suffix:
  "completed_loop s r = Inr t \<Longrightarrow> r < 2 \<Longrightarrow> suffix t s \<and> 2 \<le> r + count_list s LF"
proof (induction s arbitrary: r rule: length_induct)
  case (1 s)
  note IH = 1(1) [rule_format]
  have r: "r = 0 \<or> r = Suc 0" using 1(3) by linarith
  show ?case
  proof (cases s rule: completed_cases)
    case (crlf u)
    then show ?thesis using IH [of u "r + 1"] 1(2) r by (auto simp: suffix_Cons split: if_splits)
  next
    case (lf u)
    then show ?thesis using IH [of u "r + 1"] 1(2) r by (auto simp: suffix_Cons split: if_splits)
  next
    case (other c u)
    then show ?thesis using IH [of u 0] 1(2,3) by (auto simp: suffix_Cons)
  qed (use 1 in auto)
qed

lemma count_list_suffix: "suffix t s \<Longrightarrow> count_list t x \<le> count_list s x"
  by (auto simp: suffix_def)

lemma is_completed_count: "is_completed s offset = Inr t \<Longrightarrow> 2 \<le> count_list s LF"
  using completed_suffix [of _ 0 t] count_list_suffix [OF suffix_drop, of "offset - 3" s LF]
  by (force simp: is_completed_def split: if_splits)

lemma completed_resume:
  "completed_loop s r = Inl incomplete \<Longrightarrow> r < 2 \<Longrightarrow> 3 \<le> length s \<Longrightarrow>
   completed_loop (s @ t) r = completed_loop (drop (length s - 3) s @ t) 0"
proof (induction s arbitrary: r rule: length_induct)
  case (1 s)
  note IH = 1(1) [rule_format]
  have r: "r = 0 \<or> r = Suc 0" using 1(3) by linarith
  show ?case
  proof (cases s rule: completed_cases)
    case (crlf u)
    then have r: "r = 0" "completed_loop u 1 = Inl incomplete" using 1(2) r by (auto split: if_splits)
    consider "length u = 1" | "length u = 2" | "3 \<le> length u" using 1(4) crlf by force
    then show ?thesis
    proof cases
      case 3
      then show ?thesis using IH [of u 1] r crlf by (simp add: drop_Cons' numeral_3_eq_3)
    qed (use r crlf in \<open>simp_all add: drop_Cons'\<close>)
  next
    case (lf u)
    then have r: "r = 0" "completed_loop u 1 = Inl incomplete" using 1(2) r by (auto split: if_splits)
    consider "length u = 2" | "3 \<le> length u" using 1(4) lf by force
    then show ?thesis
    proof cases
      case 2
      then show ?thesis using IH [of u 1] r lf by (simp add: drop_Cons')
    qed (use r lf in simp)
  next
    case (other c u)
    then have r: "completed_loop u 0 = Inl incomplete" using 1(2,3) by simp
    consider "length u = 2" | "3 \<le> length u" using 1(4) other by force
    then show ?thesis
    proof cases
      case 2
      then show ?thesis using IH [of u 0] r other by (simp add: drop_Cons')
    qed (use r other in simp)
  qed (use 1 in auto)
qed


section \<open>No read past the end\<close>

lemma skip_spaces_suffix: "skip_spaces s = Inr t \<Longrightarrow> suffix t s"
  by (induction s rule: skip_spaces.induct) (auto split: if_splits simp: suffix_Cons)

lemma skip_spaces_safe: "LF \<in> set (tl s) \<Longrightarrow> \<exists>t. skip_spaces s = Inr t \<and> LF \<in> set t"
  by (induction s rule: skip_spaces.induct) auto

lemma scan_word_split:
  "scan_word s = Inr (w, t) \<Longrightarrow> s = w @ t \<and> (\<exists>u. t = CHR '' '' # u) \<and> LF \<notin> set w"
proof (induction s arbitrary: w)
  case (Cons c s)
  show ?case
  proof (cases "c = CHR '' ''")
    case True
    then show ?thesis using Cons.prems by auto
  next
    case False
    have "\<not> printable LF" "(of_char LF :: nat) < 32" by (simp_all add: printable_iff)
    then have "c \<noteq> LF" using Cons.prems by auto
    moreover obtain w' where "w = c # w'" "scan_word s = Inr (w', t)"
      using Cons.prems False by (auto split: if_splits sum.splits)
    ultimately show ?thesis using Cons.IH [of w'] by auto
  qed
qed simp

lemma scan_word_not_overrun: "scan_word s \<noteq> Inl overrun"
  by (induction s) (auto split: sum.splits)

lemma process_version_safe:
  "process_version m s = (m', Inr t) \<Longrightarrow> suffix t s \<and> t \<noteq> []"
  "process_version m s \<noteq> (m', Inl overrun)"
  by (auto simp: process_version_def suffix_drop split: if_splits)

lemma cookie_loop_error: "cookie_loop data i offset cookies = Inl e \<Longrightarrow> e = length_error"
  by (induction data i offset cookies rule: cookie_loop.induct)
     (subst (asm) (3) cookie_loop.simps, auto simp: Let_def split: if_splits)

lemma parse_header_value_error: "parse_header_value m data = Inl e \<Longrightarrow> e = length_error"
  by (auto simp: parse_header_value_def split: if_splits option.splits sum.splits dest: cookie_loop_error)

lemma scan_name_split: "scan_name s = Inr (name, t) \<Longrightarrow> s = name @ CHR '':'' # t"
  by (induction s arbitrary: name) (auto split: if_splits sum.splits)

lemma scan_name_not_overrun: "scan_name s \<noteq> Inl overrun"
  by (induction s) (auto split: sum.splits)

lemma tokenize_not_overrun: "tokenize s \<noteq> Inl overrun"
  by (auto simp: tokenize_def Let_def split: option.splits list.splits)

lemma suffix_dropWhile: "suffix (dropWhile P s) s"
  by (metis suffixI takeWhile_dropWhile_id)

lemma header_value_safe:
  "header_value m s = (m', Inr t) \<Longrightarrow> suffix t s"
  "header_value m s \<noteq> (m', Inl overrun)"
  by (auto simp: header_value_def Let_def suffix_def tokenize_not_overrun
      split: sum.splits dest: tokenize_suffix parse_header_value_error)

lemma header_line_safe:
  "header_line m s = (m', Inr t) \<Longrightarrow> suffix t s"
  "header_line m s \<noteq> (m', Inl overrun)"
proof -
  assume "header_line m s = (m', Inr t)"
  then show "suffix t s"
    by (auto simp: header_line_def Let_def split: if_splits sum.splits
        dest!: header_value_safe(1) scan_name_split intro!: suffix_appendI suffix_ConsI
        intro: suffix_order.trans [OF _ suffix_dropWhile])
next
  show "header_line m s \<noteq> (m', Inl overrun)"
    by (auto simp: header_line_def Let_def header_value_safe scan_name_not_overrun split: sum.splits
        dest: parse_header_value_error)
qed

text \<open>What a parse leaves begins after a line feed of its input.\<close>

definition after_line :: "string \<Rightarrow> string \<Rightarrow> bool" where
  "after_line s t \<longleftrightarrow> suffix (LF # t) s"

lemma after_line_suffix: "after_line s t \<Longrightarrow> suffix s u \<Longrightarrow> after_line u t"
  by (auto simp: after_line_def intro: suffix_order.trans)

lemma header_lines_safe:
  "header_lines m s = (m', r) \<Longrightarrow> (case r of Inl e \<Rightarrow> e \<noteq> overrun | Inr t \<Rightarrow> after_line s t)"
proof (induction m s arbitrary: m' r rule: header_lines.induct)
  case (1 m s)
  show ?case
  proof (cases s rule: completed_cases)
    case (other c u)
    obtain m1 r1 where l: "header_line m s = (m1, r1)" by fastforce
    show ?thesis
    proof (cases r1)
      case (Inl e)
      then show ?thesis using 1(2) other l header_line_safe(2) [of m s m1]
        by (auto simp: header_lines.simps [of m "c # u"])
    next
      case (Inr rest)
      then have "header_lines m1 rest = (m', r)" using 1(2) other l by (simp add: header_lines.simps [of m "c # u"])
      with 1(1) [of c u m1 r1 rest] other l Inr
      have "case r of Inl e \<Rightarrow> e \<noteq> overrun | Inr t \<Rightarrow> after_line rest t" by simp
      then show ?thesis using header_line_safe(1) [of m s m1 rest] l Inr
        by (auto split: sum.splits intro: after_line_suffix)
    qed
  qed (use 1(2) in \<open>auto simp: header_lines.simps [of m "[]"] header_lines.simps [of m "_ # _"]
      after_line_def suffix_Cons\<close>)
qed

lemma process_headers_safe:
  "process_headers m s = (m', r) \<Longrightarrow> (case r of Inl e \<Rightarrow> e \<noteq> overrun | Inr t \<Rightarrow> after_line s t)"
  unfolding process_headers_def by (rule header_lines_safe)

text \<open>A request is read only behind two line feeds, so that the line feed of the request line is in front of the parser.\<close>

lemma expect_line_end_safe:
  "expect_line_end s = Inr t \<Longrightarrow> suffix t s"
  "s \<noteq> [] \<Longrightarrow> expect_line_end s \<noteq> Inl overrun"
  by (auto simp: expect_line_end_def suffix_Cons split: list.splits if_splits)

lemma version_line_safe:
  assumes "(case process_version m x of
              (m, Inl e) \<Rightarrow> (m, Inl e)
            | (m, Inr rest) \<Rightarrow> (m, expect_line_end rest)) = (m', r)"
  shows "case r of Inl e \<Rightarrow> e \<noteq> overrun | Inr t \<Rightarrow> suffix t x"
proof (cases "process_version m x")
  case (Pair m1 r1)
  show ?thesis
  proof (cases r1)
    case (Inl e)
    then show ?thesis using assms Pair process_version_safe(2) [of m x m1] by auto
  next
    case (Inr t)
    then have "suffix t x" "t \<noteq> []" using process_version_safe(1) Pair by blast+
    then show ?thesis using assms Pair Inr expect_line_end_safe [of t]
      by (auto split: sum.splits intro: suffix_order.trans)
  qed
qed

lemma process_request_line_safe:
  assumes "process_request_line m s = (m', r)" "LF \<in> set s"
  shows "case r of Inl e \<Rightarrow> e \<noteq> overrun | Inr t \<Rightarrow> suffix t s"
proof (cases "scan_word s")
  case (Inl e)
  then show ?thesis using assms scan_word_not_overrun [of s] by (auto simp: process_request_line_def)
next
  case (Inr wt)
  obtain w u where w: "scan_word s = Inr (w, CHR '' '' # u)" "s = w @ CHR '' '' # u" "LF \<notin> set w"
    using scan_word_split [of s] Inr by (metis prod.exhaust)
  then have "LF \<in> set u" using assms(2) by auto
  then obtain t where t: "skip_spaces (CHR '' '' # u) = Inr t" "LF \<in> set t"
    using skip_spaces_safe [of "CHR '' '' # u"] by auto
  then have st: "suffix t s" using skip_spaces_suffix w(2) by (metis suffix_def suffix_order.trans)
  show ?thesis
  proof (cases "w = []")
    case True
    then show ?thesis using assms(1) w by (auto simp: process_request_line_def)
  next
    case nonempty: False
    show ?thesis
    proof (cases "scan_word t")
      case (Inl e)
      then show ?thesis using assms(1) w t nonempty scan_word_not_overrun [of t]
        by (auto simp: process_request_line_def)
    next
      case (Inr wt)
      obtain p v where p: "scan_word t = Inr (p, CHR '' '' # v)" "t = p @ CHR '' '' # v" "LF \<notin> set p"
        using scan_word_split [of t] Inr by (metis prod.exhaust)
      then have "LF \<in> set v" using t(2) by auto
      then obtain x where x: "skip_spaces (CHR '' '' # v) = Inr x"
        using skip_spaces_safe [of "CHR '' '' # v"] by auto
      then have sx: "suffix x s" using skip_spaces_suffix p(2) st by (metis suffix_def suffix_order.trans)
      show ?thesis
      proof (cases "p = []")
        case True
        then show ?thesis using assms(1) w(1) t(1) p(1) nonempty by (auto simp: process_request_line_def Let_def)
      next
        case False
        then have "case r of Inl e \<Rightarrow> e \<noteq> overrun | Inr t \<Rightarrow> suffix t x"
          using assms(1) w(1) t(1) p(1) x nonempty
          by (intro version_line_safe [of "process_target (parse_method_value m w) p" x m'])
             (simp add: process_request_line_def Let_def)
        then show ?thesis using sx by (auto split: sum.splits intro: suffix_order.trans)
      qed
    qed
  qed
qed

lemma process_request_safe:
  assumes "process_request m s = (m', r)" "2 \<le> count_list s LF"
  shows "case r of Inl e \<Rightarrow> e \<noteq> overrun | Inr t \<Rightarrow> after_line s t"
proof (cases "skip_line_end s")
  case (Inl e)
  then show ?thesis using assms(1)
    by (auto simp: process_request_def skip_line_end_def split: list.splits if_splits)
next
  case (Inr u)
  then have u: "suffix u s" "1 \<le> count_list u LF"
    using assms(2) by (auto simp: skip_line_end_def suffix_Cons split: list.splits if_splits)
  have "LF \<in> set u" using u(2) count_notin [of LF u] by fastforce
  moreover from this have "u \<noteq> []" by auto
  ultimately show ?thesis using assms(1) Inr u
    by (auto simp: process_request_def split: prod.splits sum.splits
        dest!: process_request_line_safe process_headers_safe intro: after_line_suffix suffix_order.trans)
qed

lemma process_version_keeps:
  assumes "process_version m s = (m', Inr t)" "LF \<in> set s"
  shows "LF \<in> set t"
proof -
  have d: "isdigit (s ! 7)" "take 7 s = ''HTTP/1.''" "9 \<le> length s" "t = drop 8 s"
    using assms(1) by (auto simp: process_version_def split: if_splits)
  then have "take (Suc 7) s = ''HTTP/1.'' @ [s ! 7]" by (subst take_Suc_conv_app_nth) auto
  moreover have "s ! 7 \<noteq> LF" using d(1) by (auto simp: isdigit_def)
  ultimately have "LF \<notin> set (take 8 s)" by simp
  then show ?thesis using assms(2) d(4) by (metis Un_iff append_take_drop_id set_append)
qed

lemma process_status_safe:
  assumes "process_status m s = (m', r)" "LF \<in> set s"
  shows "case r of Inl e \<Rightarrow> e \<noteq> overrun | Inr t \<Rightarrow> suffix t s"
proof (cases "process_version m s")
  case (Pair m1 r1)
  show ?thesis
  proof (cases r1)
    case (Inl e)
    then show ?thesis using assms Pair process_version_safe(2) [of m s m1] by (auto simp: process_status_def)
  next
    case (Inr t)
    then have t: "suffix t s" "t \<noteq> []" "LF \<in> set t"
      using process_version_safe(1) process_version_keeps Pair assms(2) by blast+
    show ?thesis
    proof (cases "hd t = CHR '' ''")
      case False
      then show ?thesis using assms(1) Pair Inr t(2) by (auto simp: process_status_def)
    next
      case True
      then have "LF \<in> set (tl t)" using t(2,3) by (cases t) auto
      then obtain u where u: "skip_spaces t = Inr u" using skip_spaces_safe by blast
      then have "suffix (drop 3 u) s"
        using skip_spaces_suffix t(1) suffix_drop [of 3 u] suffix_order.trans by blast
      then show ?thesis using assms(1) Pair Inr t(2) u True
        by (auto simp: process_status_def split: if_splits)
    qed
  qed
qed

lemma process_response_safe:
  assumes "process_response m s = (m', r)" "LF \<in> set s"
  shows "case r of Inl e \<Rightarrow> e \<noteq> overrun | Inr t \<Rightarrow> after_line s t"
proof (cases "process_status m s")
  case (Pair m1 r1)
  then have r1: "case r1 of Inl e \<Rightarrow> e \<noteq> overrun | Inr t \<Rightarrow> suffix t s"
    using assms(2) by (rule process_status_safe)
  show ?thesis
  proof (cases r1)
    case (Inl e)
    then show ?thesis using assms(1) Pair r1 by (auto simp: process_response_def)
  next
    case (Inr u)
    show ?thesis
    proof (cases "tokenize u")
      case (Inl e)
      then show ?thesis using assms(1) Pair Inr tokenize_not_overrun [of u]
        by (auto simp: process_response_def)
    next
      case tok: (Inr tr)
      obtain token rest where tr: "tr = (token, rest)" by fastforce
      then have "suffix rest u" using tokenize_suffix [of u token rest] tok by (auto simp: suffix_def)
      then have "suffix rest s" using r1 Inr suffix_order.trans by auto
      then show ?thesis using assms(1) Pair Inr tok tr
        by (auto simp: process_response_def split: if_splits sum.splits
            dest!: process_headers_safe intro: after_line_suffix)
    qed
  qed
qed

text \<open>Both entry points: the parts are safe behind the test of completeness.\<close>

lemma parse_with_safe:
  assumes "\<And>m s m' r. process m s = (m', r) \<Longrightarrow> 2 \<le> count_list s LF
      \<Longrightarrow> (case r of Inl e \<Rightarrow> e \<noteq> overrun | Inr t \<Rightarrow> after_line s t)"
    and "offset \<le> length buffer"
  shows "case snd (parse_with process m buffer offset) of
           Inl e \<Rightarrow> e \<noteq> overrun
         | Inr n \<Rightarrow> 0 < n \<and> n \<le> length buffer \<and> buffer ! (n - 1) = LF"
proof (cases "is_completed buffer offset")
  case (Inl e)
  have "completed_loop s r \<noteq> Inl overrun" for s r
    by (induction s r rule: completed_loop.induct) (auto split: list.splits)
  then have "e \<noteq> overrun" using Inl assms(2) by (auto simp: is_completed_def split: if_splits)
  then show ?thesis using Inl by (simp add: parse_with_def)
next
  case (Inr t)
  obtain m' r where p: "process m buffer = (m', r)" by fastforce
  have r: "case r of Inl e \<Rightarrow> e \<noteq> overrun | Inr t \<Rightarrow> after_line buffer t"
    using assms(1) [OF p is_completed_count [OF Inr]] .
  show ?thesis
  proof (cases r)
    case (Inl e)
    then show ?thesis using Inr p r by (simp add: parse_with_def)
  next
    case (Inr rest)
    then obtain pre where "buffer = pre @ LF # rest" using r by (auto simp: after_line_def suffix_def)
    then show ?thesis using \<open>is_completed buffer offset = Inr t\<close> Inr p by (simp add: parse_with_def nth_append)
  qed
qed


section \<open>Printing and parsing\<close>

text \<open>
  What may stand in a head: a word of the request line, the name and the value of a header.
  The header \<^verbatim>\<open>Cookie\<close> goes to the cookies and is left out.
\<close>

definition word_ok :: "string \<Rightarrow> bool" where
  "word_ok w \<longleftrightarrow> w \<noteq> [] \<and> (\<forall>c\<in>set w. 32 < (of_char c :: nat) \<and> c \<noteq> CHR 0x7F)"

definition name_ok :: "string \<Rightarrow> bool" where
  "name_ok n \<longleftrightarrow> n \<noteq> [] \<and> (\<forall>c\<in>set n. header_mapping ! of_char c \<noteq> 0) \<and> \<not> case_equals n ''cookie''"

definition value_ok :: "string \<Rightarrow> bool" where
  "value_ok v \<longleftrightarrow> v \<noteq> [] \<and> plain v \<and> \<not> blank (hd v) \<and> \<not> blank (last v)"

lemma header_mapping_none:
  "header_mapping ! of_char (CHR '':'') = 0" "header_mapping ! of_char (CHR '','') = 0"
  "header_mapping ! of_char CR = 0" "header_mapping ! of_char LF = 0"
  "header_mapping ! of_char (CHR '' '') = 0" "header_mapping ! of_char (CHR 0x09) = 0"
  "header_mapping ! of_char (CHR 0x7F) = 0"
  by code_simp+

lemma name_ok_excludes:
  assumes "name_ok n"
  shows "CHR '':'' \<notin> set n" "CHR '','' \<notin> set n" "CR \<notin> set n" "LF \<notin> set n" "\<not> blank (hd n)"
proof -
  have *: "c \<notin> set n" if "header_mapping ! of_char c = 0" for c using assms that by (auto simp: name_ok_def)
  show "CHR '':'' \<notin> set n" "CHR '','' \<notin> set n" "CR \<notin> set n" "LF \<notin> set n"
    by (rule *, rule header_mapping_none)+
  have "CHR '' '' \<notin> set n" "CHR 0x09 \<notin> set n" by (rule *, rule header_mapping_none)+
  moreover have "n \<noteq> []" using assms by (simp add: name_ok_def)
  ultimately show "\<not> blank (hd n)" by (metis blank_def hd_in_set)
qed

lemma plain_excludes: "plain v \<Longrightarrow> CR \<notin> set v \<and> LF \<notin> set v"
  using control_ends by (auto simp: plain_def)

lemma scan_name_print:
  "\<forall>c\<in>set n. header_mapping ! of_char c \<noteq> 0 \<Longrightarrow> scan_name (n @ CHR '':'' # t) = Inr (n, t)"
  using header_mapping_none(1) by (induction n) fastforce+

lemma find_char_notin: "c \<notin> set s \<Longrightarrow> find_char c s = None"
  by (induction s) auto

lemma dropWhile_hd: "s = [] \<or> \<not> P (hd s) \<Longrightarrow> dropWhile P s = s"
  by (cases s) auto

lemma header_line_print:
  assumes "name_ok n" "value_ok v" "msg_headers m = Some headers"
  shows "header_line m (n @ '': '' @ v @ [CR, LF] @ rest) =
         (m\<lparr>msg_headers := Some (put_header headers n v), msg_header := []\<rparr>, Inr rest)"
proof -
  have n: "n \<noteq> []" "\<not> blank (hd n)" "scan_name (n @ CHR '':'' # t) = Inr (n, t)" "\<not> case_equals n ''cookie''"
    "find_char (CHR '','') n = None" for t
    using assms(1) name_ok_excludes [OF assms(1)] scan_name_print find_char_notin by (auto simp: name_ok_def)
  have v: "v \<noteq> []" "dropWhile blank (v @ t) = v @ t" "dropWhile blank (rev v) = rev v"
    "tokenize (v @ CR # LF # t) = Inr (v, t)" for t
    using assms(2) by (auto simp: value_ok_def dropWhile_hd hd_rev tokenize_plain)
  have b: "blank (CHR '' '')" "\<not> blank CR" by (simp_all add: blank_def)
  have vb: "\<not> Ball (set v) blank" using assms(2) last_in_set by (auto simp: value_ok_def)
  have "header_line m (n @ '': '' @ v @ [CR, LF] @ rest) = header_value (m\<lparr>msg_header := n\<rparr>) (v @ CR # LF # rest)"
    using n v(1) v(2) [of "CR # LF # rest"] b by (simp add: header_line_def parse_header_field_def Let_def)
  also have "\<dots> = (m\<lparr>msg_headers := Some (put_header headers n v), msg_header := []\<rparr>, Inr rest)"
    using n v vb assms(3)
    by (simp add: header_value_def parse_header_value_def store_header_def put_header_def) blast
  finally show ?thesis .
qed

definition puts :: "kimv \<Rightarrow> (string \<times> string) list \<Rightarrow> kimv" where
  "puts m items = foldl (\<lambda>m (k, v). kimv_update m k (\<lambda>vs. vs @ [v])) m items"

definition items_of :: "kimv \<Rightarrow> (string \<times> string) list" where
  "items_of headers = concat (map (\<lambda>(k, vs). map (Pair k) vs) headers)"

definition print_items :: "(string \<times> string) list \<Rightarrow> string" where
  "print_items items = concat (map (\<lambda>(k, v). k @ '': '' @ v @ [CR, LF]) items)"

lemma header_lines_of_eq: "header_lines_of headers = print_items (items_of headers)"
  by (induction headers) (auto simp: header_lines_of_def print_items_def items_of_def comp_def)

lemma header_lines_print:
  assumes "\<forall>(n, v)\<in>set items. name_ok n \<and> value_ok v" "msg_headers m = Some headers"
  shows "header_lines m (print_items items @ [CR, LF] @ rest) =
         (m\<lparr>msg_headers := Some (puts headers items), msg_header := if items = [] then msg_header m else []\<rparr>, Inr rest)"
  using assms
proof (induction items arbitrary: m headers)
  case Nil
  then show ?case by (simp add: print_items_def puts_def header_lines.simps [of _ "_ # _"])
next
  case (Cons item items)
  obtain n v where item: "item = (n, v)" by fastforce
  let ?rest = "print_items items @ [CR, LF] @ rest"
  let ?m = "m\<lparr>msg_headers := Some (put_header headers n v), msg_header := []\<rparr>"
  have nv: "name_ok n" "value_ok v" using Cons.prems item by auto
  then obtain c n' where c: "n = c # n'" "c \<noteq> CR" "c \<noteq> LF"
    using name_ok_excludes [of n] by (cases n) (auto simp: name_ok_def)
  have "header_lines m (n @ '': '' @ v @ [CR, LF] @ ?rest) = header_lines ?m ?rest"
    using header_line_print [OF nv Cons.prems(2), of ?rest] c
    by (subst header_lines.simps) simp
  also have "\<dots> = (?m\<lparr>msg_headers := Some (puts (put_header headers n v) items), msg_header := []\<rparr>, Inr rest)"
    using Cons.IH [of ?m "put_header headers n v"] Cons.prems by (auto split: if_splits)
  finally show ?case by (simp add: item print_items_def puts_def put_header_def)
qed

text \<open>A header map as the frames build it: no key twice, and no key without a value.\<close>

definition kimv_ok :: "kimv \<Rightarrow> bool" where
  "kimv_ok headers \<longleftrightarrow>
     sorted_wrt (\<lambda>(k, _) (k', _). \<not> kimv_equal_to k k') headers \<and> (\<forall>(k, vs)\<in>set headers. vs \<noteq> [])"

lemma kimv_update_last:
  "\<forall>(k', _)\<in>set m. \<not> kimv_equal_to k' k \<Longrightarrow> kimv_update (m @ [(k, vs)]) k f = m @ [(k, f vs)]"
  "\<forall>(k', _)\<in>set m. \<not> kimv_equal_to k' k \<Longrightarrow> kimv_update m k f = m @ [(k, f [])]"
  by (induction m) (auto simp: kimv_equal_to_iff)

lemma puts_one:
  assumes "\<forall>(k', _)\<in>set m. \<not> kimv_equal_to k' k"
  shows "puts (m @ [(k, ws)]) (map (Pair k) vs) = m @ [(k, ws @ vs)]"
  using assms by (induction vs arbitrary: ws) (auto simp: puts_def kimv_update_last)

lemma puts_items:
  "kimv_ok hs \<Longrightarrow> \<forall>(k, _)\<in>set hs. \<forall>(k', _)\<in>set m. \<not> kimv_equal_to k' k \<Longrightarrow> puts m (items_of hs) = m @ hs"
proof (induction hs arbitrary: m)
  case Nil
  then show ?case by (simp add: puts_def items_of_def)
next
  case (Cons h hs)
  obtain k v vs where h: "h = (k, v # vs)" using Cons.prems(1) by (cases h; cases "snd h") (auto simp: kimv_ok_def)
  have k: "\<forall>(k', _)\<in>set m. \<not> kimv_equal_to k' k" using Cons.prems(2) h by auto
  have "puts m (items_of (h # hs)) = puts (puts (kimv_update m k (\<lambda>vs. vs @ [v])) (map (Pair k) vs)) (items_of hs)"
    by (simp add: h items_of_def puts_def)
  also have "\<dots> = puts (m @ [h]) (items_of hs)"
    using puts_one [OF k, of "[v]" vs] by (simp add: h kimv_update_last k)
  also have "\<dots> = (m @ [h]) @ hs"
    using Cons.prems h by (intro Cons.IH) (auto simp: kimv_ok_def)
  finally show ?case by simp
qed

definition headers_ok :: "kimv \<Rightarrow> bool" where
  "headers_ok headers \<longleftrightarrow> kimv_ok headers \<and> (\<forall>(n, vs)\<in>set headers. name_ok n \<and> (\<forall>v\<in>set vs. value_ok v))"

lemma headers_items_ok: "headers_ok headers \<Longrightarrow> \<forall>(n, v)\<in>set (items_of headers). name_ok n \<and> value_ok v"
  by (fastforce simp: headers_ok_def items_of_def)

lemma process_headers_print:
  assumes "headers_ok headers" "msg_headers m = Some old" "msg_header m = []"
  shows "process_headers m (header_lines_of headers @ [CR, LF] @ rest) =
         (m\<lparr>msg_headers := Some headers, msg_cookies := map_option (\<lambda>_. []) (msg_cookies m)\<rparr>, Inr rest)"
proof -
  have "puts [] (items_of headers) = headers"
    using puts_items [of headers "[]"] assms(1) by (simp add: headers_ok_def)
  then show ?thesis
    using header_lines_print [OF headers_items_ok [OF assms(1)],
        of "m\<lparr>msg_headers := Some [], msg_cookies := map_option (\<lambda>_. []) (msg_cookies m)\<rparr>" "[]" rest] assms(2,3)
    by (simp add: process_headers_def header_lines_of_eq)
qed

lemma completed_plain:
  "CR \<notin> set s \<Longrightarrow> LF \<notin> set s \<Longrightarrow> s \<noteq> [] \<Longrightarrow> completed_loop (s @ [CR, LF] @ t) r = completed_loop t 1"
proof (induction s arbitrary: r)
  case (Cons c s)
  then show ?case by (cases "s = []") (auto simp: completed_step)
qed simp

lemma completed_items:
  "\<forall>(n, v)\<in>set items. name_ok n \<and> value_ok v \<Longrightarrow> completed_loop (print_items items @ [CR, LF] @ t) 1 = Inr t"
proof (induction items)
  case Nil
  then show ?case by (simp add: print_items_def)
next
  case (Cons item items)
  obtain n v where item: "item = (n, v)" by fastforce
  then have nv: "name_ok n" "value_ok v" using Cons.prems by auto
  then have "CR \<notin> set (n @ '': '' @ v)" "LF \<notin> set (n @ '': '' @ v)"
    using name_ok_excludes(3,4) plain_excludes by (auto simp: value_ok_def)
  then have "completed_loop ((n @ '': '' @ v) @ [CR, LF] @ (print_items items @ [CR, LF] @ t)) 1 =
      completed_loop (print_items items @ [CR, LF] @ t) 1"
    by (intro completed_plain) auto
  then show ?case using Cons by (simp add: item print_items_def)
qed

section \<open>The request line\<close>

lemma word_ok_low: "word_ok w \<Longrightarrow> (of_char c :: nat) \<le> 32 \<Longrightarrow> c \<notin> set w"
  by (metis word_ok_def not_less)

lemma word_ok_excludes:
  assumes "word_ok w"
  shows "CR \<notin> set w" "LF \<notin> set w" "CHR '' '' \<notin> set w" "CHR 0x00 \<notin> set w"
  by (rule word_ok_low [OF assms], simp)+

lemma scan_word_print:
  assumes "word_ok w"
  shows "scan_word (w @ CHR '' '' # t) = Inr (w, CHR '' '' # t)"
proof -
  have "c \<noteq> CHR '' '' \<and> \<not> (of_char c :: nat) < 32 \<and> c \<noteq> CHR 0x7F" if "c \<in> set w" for c
    using that assms word_ok_excludes(3) [OF assms] by (metis less_imp_not_less word_ok_def)
  then show ?thesis by (induction w) simp_all
qed

lemma skip_spaces_one: "t \<noteq> [] \<Longrightarrow> hd t \<noteq> CHR '' '' \<Longrightarrow> skip_spaces (CHR '' '' # t) = Inr t"
  by (cases t) auto

lemma word_ok_hd: "word_ok w \<Longrightarrow> hd (w @ t) \<noteq> CHR '' ''"
  using word_ok_excludes(3) [of w] by (cases w) (auto simp: word_ok_def)

lemma c_str_label: "length s < LABEL_SIZE \<Longrightarrow> CHR 0x00 \<notin> set s \<Longrightarrow> c_str (label s) = s"
proof -
  assume *: "length s < LABEL_SIZE" "CHR 0x00 \<notin> set s"
  then obtain k where "LABEL_SIZE - length s = Suc k" by (metis Suc_diff_Suc)
  moreover have "\<forall>c\<in>set s. c \<noteq> CHR 0x00" using *(2) by metis
  ultimately show ?thesis using * by (simp add: c_str_def label_def takeWhile_append2)
qed

text \<open>A request as a client sends it.\<close>

definition request_ok :: "request_frame \<Rightarrow> bool" where
  "request_ok r \<longleftrightarrow>
     (\<exists>method digit. word_ok method \<and> length method < LABEL_SIZE \<and> req_method r = label method \<and>
        isdigit digit \<and> req_version r = label (''HTTP/1.'' @ [digit])) \<and>
     word_ok (req_location r) \<and> CHR ''?'' \<notin> set (req_location r) \<and>
     (req_query r = [] \<or> word_ok (req_query r)) \<and>
     headers_ok (req_headers r)"

definition target_of :: "request_frame \<Rightarrow> string" where
  "target_of r = req_location r @ (if req_query r = [] then [] else CHR ''?'' # req_query r)"

lemma target_ok: "request_ok r \<Longrightarrow> word_ok (target_of r)"
  by (auto simp: request_ok_def target_of_def word_ok_def)

lemma process_target_print:
  assumes "request_ok r" "msg_location m = Some l" "msg_query m = Some q"
  shows "process_target m (target_of r) =
         m\<lparr>msg_location := Some (req_location r),
           msg_query := Some (if req_query r = [] then q else req_query r)\<rparr>"
proof -
  have l: "req_location r \<noteq> []" "\<forall>c\<in>set (req_location r). c \<noteq> CHR ''?''"
    using assms(1) by (auto simp: request_ok_def word_ok_def)
  then have "takeWhile (\<lambda>c. c \<noteq> CHR ''?'') (target_of r) = req_location r"
    by (simp add: target_of_def takeWhile_append2)
  then show ?thesis using l(1) assms(2,3)
    by (simp add: process_target_def parse_query_value_def parse_path_value_def target_of_def)
qed

lemma process_version_print:
  "isdigit d \<Longrightarrow> msg_version m \<noteq> None \<Longrightarrow>
   process_version m (''HTTP/1.'' @ d # CR # t) = (m\<lparr>msg_version := Some (label (''HTTP/1.'' @ [d]))\<rparr>, Inr (CR # t))"
  by (simp add: process_version_def parse_version_def)

lemma process_request_line_print:
  assumes "word_ok method" "isdigit d" "request_ok r"
    and "msg_method m \<noteq> None" "msg_version m \<noteq> None" "msg_location m = Some l" "msg_query m = Some q"
  shows "process_request_line m (method @ CHR '' '' # target_of r @ CHR '' '' # ''HTTP/1.'' @ d # CR # LF # h) =
         (m\<lparr>msg_method := Some (label method), msg_version := Some (label (''HTTP/1.'' @ [d])),
            msg_location := Some (req_location r),
            msg_query := Some (if req_query r = [] then q else req_query r)\<rparr>, Inr h)"
proof -
  note t = target_ok [OF assms(3)]
  let ?m = "m\<lparr>msg_method := Some (label method)\<rparr>"
  have m: "parse_method_value m method = ?m" "method \<noteq> []" "target_of r \<noteq> []"
    using assms(1,4) t by (auto simp: parse_method_value_def word_ok_def)
  have target: "process_target ?m (target_of r) =
      ?m\<lparr>msg_location := Some (req_location r), msg_query := Some (if req_query r = [] then q else req_query r)\<rparr>"
    using assms by (intro process_target_print) auto
  have w: "scan_word (method @ CHR '' '' # u) = Inr (method, CHR '' '' # u)"
    "scan_word (target_of r @ CHR '' '' # u) = Inr (target_of r, CHR '' '' # u)"
    "skip_spaces (CHR '' '' # target_of r @ u) = Inr (target_of r @ u)"
    "skip_spaces (CHR '' '' # ''HTTP/1.'' @ u) = Inr (''HTTP/1.'' @ u)" for u
    using scan_word_print [OF assms(1)] scan_word_print [OF t] word_ok_hd [OF t] m
    by (auto intro!: skip_spaces_one)
  show ?thesis
    using assms(5) m target
    by (simp add: process_request_line_def w process_version_print [OF assms(2)] expect_line_end_def Let_def
        del: append_Cons append.simps)
qed

section \<open>Cookies\<close>

lemma cookie_end_eq:
  "i \<le> e \<Longrightarrow> e - i \<le> n \<Longrightarrow> \<forall>x. i \<le> x \<and> x < e \<longrightarrow> x + 1 < length data \<and> data ! x \<noteq> CHR '';'' \<Longrightarrow>
   \<not> (e + 1 < length data \<and> data ! e \<noteq> CHR '';'') \<Longrightarrow> cookie_end data n i = e"
proof (induction data n i rule: cookie_end.induct)
  case (2 data n i)
  show ?case
  proof (cases "i = e")
    case False
    then have "cookie_end data n (i + 1) = e" using 2 by (intro 2(1)) auto
    then show ?thesis using 2(2,4) False by simp
  qed (use 2 in auto)
qed simp

lemma cookie_skip:
  "CHR ''='' \<notin> set mid \<Longrightarrow>
   cookie_loop (pre @ mid @ post) (length pre) offset cookies =
   cookie_loop (pre @ mid @ post) (length pre + length mid) offset cookies"
proof (induction mid arbitrary: pre)
  case (Cons c mid)
  then have "cookie_loop (pre @ (c # mid) @ post) (length pre) offset cookies =
      cookie_loop ((pre @ [c]) @ mid @ post) (length (pre @ [c])) offset cookies"
    by (subst cookie_loop.simps) auto
  also have "\<dots> = cookie_loop ((pre @ [c]) @ mid @ post) (length (pre @ [c]) + length mid) offset cookies"
    using Cons by (intro Cons.IH) auto
  finally show ?case by simp
qed simp

lemma cookie_last_eq:
  assumes "CHR '';'' \<notin> set value" "post = [] \<or> hd post = CHR '';''"
  shows "cookie_last (pre @ CHR ''='' # value @ post) (length pre) = length pre + length value"
proof -
  let ?data = "pre @ CHR ''='' # value @ post" and ?i = "length pre"
  have body: "?data ! x \<noteq> CHR '';''" if "?i \<le> x" "x \<le> ?i + length value" for x
  proof -
    have "?data ! x = (CHR ''='' # value) ! (x - ?i)"
      using that by (simp add: nth_append nth_Cons split: nat.splits) arith
    moreover have "(CHR ''='' # value) ! (x - ?i) \<in> set (CHR ''='' # value)" using that by (intro nth_mem) simp
    ultimately show ?thesis using assms(1) by auto
  qed
  show ?thesis
  proof (cases "post = []")
    case True
    then have "cookie_end ?data (length ?data) ?i = ?i + length value"
      by (intro cookie_end_eq) (use body in auto)
    then show ?thesis using body [of "?i + length value"] by (simp add: cookie_last_def)
  next
    case False
    then obtain k where post: "length post = Suc k" by (cases post) auto
    have e: "?data ! (?i + length value + 1) = CHR '';''" using assms(2) False by (cases post) (auto simp: nth_append)
    then have "cookie_end ?data (length ?data) ?i = ?i + length value + 1"
      by (intro cookie_end_eq) (use body in \<open>auto simp: less_Suc_eq_le post\<close>)
    then show ?thesis using e by (simp add: cookie_last_def)
  qed
qed

lemma cookie_step:
  assumes "CHR ''='' \<notin> set gap" "CHR ''='' \<notin> set name" "CHR '';'' \<notin> set value" "post = [] \<or> hd post = CHR '';''"
    and "data = pre @ gap @ name @ CHR ''='' # value @ post"
  shows "cookie_loop data (length pre) (length (pre @ gap)) cookies =
         cookie_loop data (length (pre @ gap @ name @ CHR ''='' # value))
           (length (pre @ gap @ name @ CHR ''='' # value) + 2) (cookies @ [(name, value)])"
proof -
  let ?i = "length (pre @ gap @ name)"
  have d: "data = (pre @ gap @ name) @ CHR ''='' # value @ post" "data = pre @ (gap @ name) @ CHR ''='' # value @ post"
    using assms(5) by simp_all
  have "cookie_loop data (length pre) (length (pre @ gap)) cookies = cookie_loop data ?i (length (pre @ gap)) cookies"
    using cookie_skip [of "gap @ name" pre "CHR ''='' # value @ post"] assms(1,2) by (simp add: d(2))
  moreover have "cookie_last data ?i = ?i + length value"
    unfolding d(1) using assms(3,4) by (rule cookie_last_eq)
  ultimately show ?thesis using assms(5) by (subst (asm) (2) cookie_loop.simps) (simp add: Let_def nth_append ac_simps numeral_3_eq_3)
qed

fun print_cookies :: "(string \<times> string) list \<Rightarrow> string" where
  "print_cookies [] = []"
| "print_cookies [(n, v)] = n @ ''='' @ v"
| "print_cookies ((n, v) # c # cs) = n @ ''='' @ v @ ''; '' @ print_cookies (c # cs)"

lemma cookie_loop_print:
  assumes "\<forall>(n, v)\<in>set cookies. CHR ''='' \<notin> set n \<and> CHR '';'' \<notin> set v" "CHR ''='' \<notin> set gap" "cookies \<noteq> []"
  shows "cookie_loop (pre @ gap @ print_cookies cookies) (length pre) (length (pre @ gap)) acc = Inr (acc @ cookies)"
  using assms
proof (induction cookies arbitrary: pre gap acc rule: print_cookies.induct)
  case (2 n v)
  then have "cookie_loop (pre @ gap @ n @ CHR ''='' # v @ []) (length pre) (length (pre @ gap)) acc =
      cookie_loop (pre @ gap @ n @ CHR ''='' # v @ []) (length (pre @ gap @ n @ CHR ''='' # v))
        (length (pre @ gap @ n @ CHR ''='' # v) + 2) (acc @ [(n, v)])"
    by (intro cookie_step) auto
  then show ?case by (subst (asm) (2) cookie_loop.simps) simp
next
  case (3 n v c cs)
  let ?pre = "pre @ gap @ n @ CHR ''='' # v"
  let ?data = "pre @ gap @ n @ CHR ''='' # v @ ''; '' @ print_cookies (c # cs)"
  have "cookie_loop ?data (length pre) (length (pre @ gap)) acc =
      cookie_loop ?data (length ?pre) (length ?pre + 2) (acc @ [(n, v)])"
    using 3(2,3) by (intro cookie_step) auto
  also have "\<dots> = Inr ((acc @ [(n, v)]) @ c # cs)"
    using 3(1) [of "''; ''" ?pre "acc @ [(n, v)]"] 3(2) by simp
  finally show ?case by simp
qed simp

lemma cookie_loop_stray:
  assumes "CHR ''='' \<notin> set n" "CHR '';'' \<notin> set v"
  shows "cookie_loop (n @ ''='' @ v @ '';='' @ rest) 0 0 [] = Inl length_error"
proof -
  let ?pre = "n @ CHR ''='' # v" and ?data = "n @ CHR ''='' # v @ '';='' @ rest"
  have "cookie_loop ?data 0 0 [] = cookie_loop ?data (length ?pre) (length ?pre + 2) [(n, v)]"
    using cookie_step [of "[]" n v "'';='' @ rest" ?data "[]" "[]"] assms by simp
  also have "\<dots> = cookie_loop ?data (length ?pre + 1) (length ?pre + 2) [(n, v)]"
    by (subst cookie_loop.simps) (simp add: nth_append)
  also have "\<dots> = Inl length_error"
    by (subst cookie_loop.simps) (simp add: nth_append nth_Cons')
  finally show ?thesis by simp
qed

end
