(* ===== verification/Http_Properties.thy ===== *)
theory Http_Properties
  imports Http_Laws
begin

text \<open>
  Properties of the frames and of the request and response parser.
\<close>

section \<open>Header maps and ranges\<close>

text \<open>
  Header maps ignore the case of a key: keys that are equal hash to the same value, and after any
  sequence of \<^verbatim>\<open>put_header\<close> the values of a key are those it had followed by those put under an equal
  key, in order; \<^verbatim>\<open>set_header\<close> leaves its value alone.
\<close>
theorem header_map:
  "(kimv_equal_to k k' \<longrightarrow> lfnv1a_hash k = lfnv1a_hash k') \<and>
   headers.values (foldl (\<lambda>m (k, v). put_header m k v) m items) k =
     headers.values m k @ map snd (filter (\<lambda>(k', v). kimv_equal_to k' k) items) \<and>
   get_header (put_header m k v) k = v \<and> compose_header (set_header m k v) k = v \<and>
   (\<not> kimv_equal_to k k' \<longrightarrow> kimv_find (set_header m k v) k' = kimv_find m k')"
proof -
  have "lfnv1a_hash k = lfnv1a_hash k'" if "kimv_equal_to k k'"
    using that by (simp add: lfnv1a_hash_lower kimv_equal_to_iff)
  moreover have "headers.values (foldl (\<lambda>m (k, v). put_header m k v) m items) k =
      headers.values m k @ map snd (filter (\<lambda>(k', v). kimv_equal_to k' k) items)"
    unfolding put_header_def by (rule headers.values_puts)
  moreover have "kimv_equal_to k k" by (simp add: kimv_equal_to_iff)
  ultimately show ?thesis
    by (auto simp: get_header_def put_header_def compose_header_def set_header_def kimv_find_update)
qed

theorem header_map_witness:
  "lfnv1a_hash ''Host'' = lfnv1a_hash ''HOST'' \<and> \<not> kimv_equal_to ''Host'' ''Via'' \<and>
   kimv_find (set_header [(''Via'', [''1''])] ''Host'' ''a'') ''Via'' = Some [''1'']"
proof -
  have "kimv_equal_to ''Host'' ''HOST''" by code_simp
  moreover have "\<not> kimv_equal_to ''Host'' ''Via''" by code_simp
  moreover have "kimv_find [(''Via'', [''1''])] ''Via'' = Some [''1'']" by code_simp
  ultimately show ?thesis
    using header_map [of "''Host''" "''HOST''" "[]" "[]" "''a''"]
      header_map [of "''Host''" "''Via''" "[(''Via'', [''1''])]" "[]" "''a''"] by simp
qed

text \<open>
  C30: A range of bytes lies inside the content: whatever the two numbers of the header, the offset and
  the length that \<^verbatim>\<open>get_range\<close> returns do not pass the length of the content, and no subtraction wraps.
\<close>
theorem get_range_bounds:
  "case get_range rng content_length of (start, count) \<Rightarrow> unat start + unat count \<le> unat content_length"
proof -
  have sub: "unat f + unat (s - f) \<le> unat n" if "f \<le> s" "s \<le> n" for f s n :: u64
    using that by (simp add: unat_sub word_le_nat_alt)
  have "case close_range f s content_length of (start, count) \<Rightarrow> unat start + unat count \<le> unat content_length" for f s
    unfolding close_range_def Let_def prod.case by (rule sub) (auto simp: not_less)
  then show ?thesis by (cases rng) (simp add: get_range_def Let_def)
qed

section \<open>Requests and responses\<close>

text \<open>
  C4: The request and the response parser never read past the end of the buffer, although they skip
  spaces and test the character after the version without looking for it: \<^verbatim>\<open>is_completed\<close> has found two
  line feeds before.  A parse that succeeds stops right after a line feed.
\<close>
theorem http_parser_safe:
  assumes "offset \<le> length buffer"
  shows "(case snd (parse_request m buffer offset) of
            Inl e \<Rightarrow> e \<noteq> overrun
          | Inr n \<Rightarrow> 0 < n \<and> n \<le> length buffer \<and> buffer ! (n - 1) = LF) \<and>
         (case snd (parse_response m buffer offset) of
            Inl e \<Rightarrow> e \<noteq> overrun
          | Inr n \<Rightarrow> 0 < n \<and> n \<le> length buffer \<and> buffer ! (n - 1) = LF)"
proof
  show "case snd (parse_request m buffer offset) of
          Inl e \<Rightarrow> e \<noteq> overrun
        | Inr n \<Rightarrow> 0 < n \<and> n \<le> length buffer \<and> buffer ! (n - 1) = LF"
    unfolding parse_request_def using process_request_safe assms by (rule parse_with_safe)
next
  have "2 \<le> count_list s LF \<Longrightarrow> LF \<in> set s" for s using count_notin [of LF s] by fastforce
  with process_response_safe
  have "process_response m s = (m', r) \<Longrightarrow> 2 \<le> count_list s LF
      \<Longrightarrow> (case r of Inl e \<Rightarrow> e \<noteq> overrun | Inr t \<Rightarrow> after_line s t)" for m s m' r
    by blast
  then show "case snd (parse_response m buffer offset) of
          Inl e \<Rightarrow> e \<noteq> overrun
        | Inr n \<Rightarrow> 0 < n \<and> n \<le> length buffer \<and> buffer ! (n - 1) = LF"
    unfolding parse_response_def using assms by (rule parse_with_safe)
qed

definition example_state :: message_state where
  "example_state = prepare_for_request_parsing new_request_frame"

definition example_head :: string where
  "example_head = ''GET /a?b HTTP/1.1'' @ [CR, LF] @ ''Via: x'' @ [CR, LF, CR, LF]"

theorem http_parser_safe_witness:
  "snd (parse_request example_state example_head 3) = Inr 29 \<and> example_head ! 28 = LF"
proof -
  have r: "snd (parse_request example_state example_head 3) = Inr 29" by code_simp
  have "3 \<le> length example_head" by code_simp
  then show ?thesis using http_parser_safe [of 3 example_head example_state] r by simp
qed

text \<open>
  C27: The parser tests the bytes that have come since the last call only: if the first part of a head was
  incomplete, the test of the whole buffer from three bytes before the new part gives what a test from
  the beginning gives.
\<close>
theorem is_completed_resume:
  assumes "is_completed s 0 = Inl incomplete"
  shows "is_completed (s @ t) (length s) = is_completed (s @ t) 0"
proof (cases "length s < 3")
  case False
  then have "is_completed (s @ t) (length s) = completed_loop (drop (length s - 3) s @ t) 0"
    by (auto simp: is_completed_def)
  also have "\<dots> = completed_loop (s @ t) 0"
    using assms False by (intro completed_resume [symmetric]) (auto simp: is_completed_def)
  finally show ?thesis by (simp add: is_completed_def)
qed (simp add: is_completed_def)

theorem is_completed_resume_witness:
  "is_completed (''GET /'' @ [CR, LF, CR]) 0 = Inl incomplete \<and>
   is_completed (''GET /'' @ [CR, LF, CR] @ [LF, CHR ''x'']) 8 = Inr ''x''"
proof -
  have i: "is_completed (''GET /'' @ [CR, LF, CR]) 0 = Inl incomplete" by code_simp
  have "is_completed ((''GET /'' @ [CR, LF, CR]) @ [LF, CHR ''x'']) 0 = Inr ''x''" by code_simp
  then show ?thesis using is_completed_resume [OF i, of "[LF, CHR ''x'']"] i
    by (simp add: eval_nat_numeral)
qed

text \<open>
  C28: The tokeniser, which tests eight bytes at a time, finds the token that a scan byte by byte finds:
  the text up to the first control character, which has to be a line feed or a carriage return and a
  line feed.
\<close>
theorem tokenize_equiv: "tokenize s = tokenize_reference s"
  by (rule tokenize_eq)

text \<open>
  C6: A request that the client prints is read back by the server: the method, the version, the
  location, the query and the header map are those of the request, the cookies are cleared, and the
  count of bytes is that of the head.  A request without a query leaves the query of the frame as it
  was.  This is for the requests of \<open>request_ok\<close>: method, location and query are non-empty words
  without blanks or control characters (the query may be absent, the location has no question mark), the
  method fits its buffer, the version is \<^verbatim>\<open>HTTP/1.\<close> and a digit, header names are tokens other than
  \<^verbatim>\<open>Cookie\<close> (whose content the parser moves to the cookies), and header values are non-empty, printable
  and have no blank at either end (the parser drops empty values and strips blanks).
\<close>
theorem request_round_trip:
  assumes "request_ok r"
  shows "parse_request (prepare_for_request_parsing old)
           (construct_head_full r response True (request_line r) @ [CR, LF] @ body) 0 =
         ((prepare_for_request_parsing old)
            \<lparr>msg_version := Some (req_version r), msg_method := Some (req_method r),
             msg_location := Some (req_location r),
             msg_query := Some (if req_query r = [] then req_query old else req_query r),
             msg_cookies := Some [], msg_headers := Some (req_headers r)\<rparr>,
          Inr (length (construct_head_full r response True (request_line r)) + 2))"
proof -
  obtain meth d where md: "word_ok meth" "length meth < LABEL_SIZE" "req_method r = label meth"
      "isdigit d" "req_version r = label (''HTTP/1.'' @ [d])"
    using assms by (auto simp: request_ok_def)
  have ok: "word_ok (target_of r)" "headers_ok (req_headers r)" "req_location r \<noteq> []"
    using target_ok [OF assms] assms by (simp_all add: request_ok_def word_ok_def)
  let ?m = "prepare_for_request_parsing old"
  let ?h = "header_lines_of (req_headers r) @ [CR, LF] @ body"
  let ?line = "meth @ '' '' @ target_of r @ '' HTTP/1.'' @ [d]"
  let ?s = "?line @ [CR, LF] @ ?h"
  have d0: "CHR 0x00 \<noteq> d" "CR \<noteq> d" "LF \<noteq> d" using md(4) by (auto simp: isdigit_def)
  have c: "c_str (req_method r) = meth" "c_str (req_version r) = ''HTTP/1.'' @ [d]"
    using c_str_label [OF md(2) word_ok_excludes(4) [OF md(1)]] c_str_label [of "''HTTP/1.'' @ [d]"] md(3,5) d0(1)
    by (simp_all add: LABEL_SIZE_def)
  have s: "construct_head_full r response True (request_line r) @ [CR, LF] @ body = ?s"
    using ok(3) by (simp add: construct_head_full_def request_line_def target_of_def c)
  have len: "length ?s = length (construct_head_full r response True (request_line r)) + 2 + length body"
    unfolding s [symmetric] by simp
  have "completed_loop ?s 0 = completed_loop ?h 1"
    using word_ok_excludes [OF md(1)] word_ok_excludes [OF ok(1)] d0 by (intro completed_plain) auto
  then have complete: "is_completed ?s 0 = Inr body"
    using completed_items [OF headers_items_ok [OF ok(2)]] by (simp add: is_completed_def header_lines_of_eq)
  have "process_request_line ?m ?s = (?m\<lparr>msg_method := Some (req_method r), msg_version := Some (req_version r),
      msg_location := Some (req_location r),
      msg_query := Some (if req_query r = [] then req_query old else req_query r)\<rparr>, Inr ?h)"
    using process_request_line_print [OF md(1,4) assms, of ?m _ _ ?h] md(3,5)
    by (simp add: prepare_for_request_parsing_def)
  moreover have "skip_line_end ?s = Inr ?s" "?s \<noteq> []"
    using word_ok_excludes [OF md(1)] md(1) by (cases meth; force simp: skip_line_end_def word_ok_def)+
  ultimately show ?thesis using process_headers_print [OF ok(2)] complete len
    unfolding s by (simp add: parse_request_def parse_with_def process_request_def prepare_for_request_parsing_def)
qed

definition example_request :: request_frame where
  "example_request = new_request_frame\<lparr>req_location := ''/a'', req_query := ''b'', req_headers := [(''Via'', [''x''])]\<rparr>"

theorem request_round_trip_witness:
  "msg_headers (fst (parse_request (prepare_for_request_parsing new_request_frame)
     (construct_head_full example_request new_response_frame True (request_line example_request) @ [CR, LF]) 0)) =
   Some [(''Via'', [''x''])]"
proof -
  have "word_ok ''GET''" "length ''GET'' < LABEL_SIZE" "isdigit (CHR ''1'')"
    "word_ok (req_location example_request)" "CHR ''?'' \<notin> set (req_location example_request)"
    "word_ok (req_query example_request)" "headers_ok (req_headers example_request)"
    "req_headers example_request = [(''Via'', [''x''])]"
    by code_simp+
  moreover have "req_method example_request = label ''GET''" "req_version example_request = label (''HTTP/1.'' @ ''1'')"
    by (simp_all add: example_request_def new_request_frame_def)
  ultimately have ok: "request_ok example_request" unfolding request_ok_def by blast
  show ?thesis
    using request_round_trip [OF ok, of new_request_frame new_response_frame "[]"]
    by (simp add: example_request_def)
qed

text \<open>
  The cookies of a request: names and values printed with the separator \<^verbatim>\<open>"; "\<close> are read back in
  order, and a separator without a space in front of an equals sign makes the length of the next name
  negative, which \<^verbatim>\<open>std::string\<close> answers with an exception that the parser does not catch.
\<close>
theorem cookie_parsing:
  assumes "\<forall>(n, v)\<in>set ((name, value) # cookies). CHR ''='' \<notin> set n \<and> CHR '';'' \<notin> set v"
    and "case_equals (msg_header m) ''cookie''" "msg_cookies m = Some jar"
  shows "parse_header_value m (print_cookies ((name, value) # cookies)) =
           Inr (m\<lparr>msg_cookies := Some (put_cookies jar ((name, value) # cookies)), msg_header := []\<rparr>) \<and>
         parse_header_value m (name @ ''='' @ value @ '';='' @ rest) = Inl length_error"
proof -
  have h: "msg_header m \<noteq> []" using assms(2) by (auto simp: case_equals_def)
  have "cookie_loop (print_cookies ((name, value) # cookies)) 0 0 [] = Inr ((name, value) # cookies)"
    using cookie_loop_print [of "(name, value) # cookies" "[]" "[]" "[]"] assms(1) by simp
  moreover have "cookie_loop (name @ ''='' @ value @ '';='' @ rest) 0 0 [] = Inl length_error"
    using assms(1) by (intro cookie_loop_stray) auto
  moreover have "print_cookies ((name, value) # cookies) \<noteq> []" by (cases cookies) auto
  ultimately show ?thesis using h assms(2,3) by (simp add: parse_header_value_def)
qed

theorem cookie_parsing_witness:
  "\<exists>m. parse_header_value m ''a=b; c=d'' =
         Inr (m\<lparr>msg_cookies := Some [(''a'', [''b'']), (''c'', [''d''])], msg_header := []\<rparr>) \<and>
       parse_header_value m ''a=b;='' = Inl length_error"
proof -
  let ?m = "(prepare_for_request_parsing new_request_frame)\<lparr>msg_header := ''Cookie''\<rparr>"
  have "case_equals (msg_header ?m) ''cookie''" "msg_cookies ?m = Some []" by code_simp+
  moreover have "put_cookies [] [(''a'', ''b''), (''c'', ''d'')] = [(''a'', [''b'']), (''c'', [''d''])]" by code_simp
  ultimately show ?thesis
    using cookie_parsing [of "''a''" "''b''" "[(''c'', ''d'')]" ?m "[]" "[]"] by (intro exI [of _ ?m]) simp
qed

end
