(* ===== verification/Http_Chunked.thy ===== *)
theory Http_Chunked
  imports Http_Frames
begin

text \<open>
  The decoder of chunked bodies, \<^verbatim>\<open>parser::parse_decode_chunked\<close> in \<^verbatim>\<open>network/http.cpp\<close>.  It works in
  place: \<^verbatim>\<open>src\<close> is the byte it reads next, \<^verbatim>\<open>dest\<close> the end of the decoded bytes, and \<^verbatim>\<open>memmove\<close>
  closes the gap.  One case of the \<^verbatim>\<open>switch\<close> is one definition; a case that falls through calls the
  next one.  The scans over the buffer are recursions over the bytes from \<^verbatim>\<open>src\<close> on.
\<close>

section \<open>The state\<close>

datatype chunked_status = chunk_size | chunk_ext | chunk_data | chunk_end | chunk_head | chunk_middle

record chunked_state =
  ch_length :: u64
  ch_state :: chunked_status
  ch_consume_trailer :: bool
  ch_hex_count :: nat

definition prepare_for_chunked_parsing :: chunked_state where
  "prepare_for_chunked_parsing =
     \<lparr>ch_length = 0, ch_state = chunk_size, ch_consume_trailer = True, ch_hex_count = 0\<rparr>"

text \<open>The parser with the local variables of the function.\<close>

record decoder =
  dc_chunked :: chunked_state
  dc_buffer :: string
  dc_dest :: nat
  dc_src :: nat

text \<open>
  How a case ends: at \<^verbatim>\<open>goto exit\<close> with a result, at \<^verbatim>\<open>goto complete\<close>, or at the end of the
  \<^verbatim>\<open>switch\<close>.
\<close>

datatype flow = Exit int decoder | Complete decoder | Again decoder

definition memmove :: "string \<Rightarrow> nat \<Rightarrow> nat \<Rightarrow> nat \<Rightarrow> string" where
  "memmove b dest src n = map (\<lambda>i. if dest \<le> i \<and> i < dest + n then b ! (src + (i - dest)) else b ! i) [0..<length b]"

definition move_down :: "decoder \<Rightarrow> nat \<Rightarrow> decoder" where
  "move_down d n =
     (if dc_dest d \<noteq> dc_src d then d\<lparr>dc_buffer := memmove (dc_buffer d) (dc_dest d) (dc_src d) n\<rparr> else d)"

section \<open>The cases\<close>

definition hex_digit :: "char \<Rightarrow> nat option" where
  "hex_digit c =
     (let v = (of_char c :: nat)
      in if 48 \<le> v \<and> v \<le> 57 then Some (v - 48)
         else if 65 \<le> v \<and> v \<le> 70 then Some (v - 65 + 10)
         else if 97 \<le> v \<and> v \<le> 102 then Some (v - 97 + 10)
         else None)"

text \<open>The scan for the size: the result at \<^verbatim>\<open>goto exit\<close> or \<^const>\<open>None\<close> at the end of the digits.\<close>

fun size_loop :: "chunked_state \<Rightarrow> nat \<Rightarrow> string \<Rightarrow> int option \<times> chunked_state \<times> nat" where
  "size_loop st src [] = (Some (- 2), st, src)"
| "size_loop st src (c # rest) =
     (case hex_digit c of
        None \<Rightarrow> if ch_hex_count st = 0 then (Some (- 1), st, src) else (None, st, src)
      | Some v \<Rightarrow>
          if ch_hex_count st = 16 then (Some (- 1), st, src)
          else size_loop (st\<lparr>ch_length := ch_length st * 16 + word_of_nat v, ch_hex_count := ch_hex_count st + 1\<rparr>)
                 (src + 1) rest)"

text \<open>The first position from \<^verbatim>\<open>src\<close> on that satisfies a test.\<close>

fun scan_for :: "(char \<Rightarrow> bool) \<Rightarrow> nat \<Rightarrow> string \<Rightarrow> nat option" where
  "scan_for P src [] = None"
| "scan_for P src (c # rest) = (if P c then Some src else scan_for P (src + 1) rest)"

definition scan_from :: "(char \<Rightarrow> bool) \<Rightarrow> decoder \<Rightarrow> nat option" where
  "scan_from P d = scan_for P (dc_src d) (drop (dc_src d) (dc_buffer d))"

definition at_size :: "decoder \<Rightarrow> decoder" where
  "at_size d = d\<lparr>dc_src := length (dc_buffer d)\<rparr>"

definition set_status :: "decoder \<Rightarrow> chunked_status \<Rightarrow> decoder" where
  "set_status d s = d\<lparr>dc_chunked := (dc_chunked d)\<lparr>ch_state := s\<rparr>\<rparr>"

definition case_middle :: "decoder \<Rightarrow> flow" where
  "case_middle d =
     (case scan_from (\<lambda>c. c = LF) d of
        None \<Rightarrow> Exit (- 2) (at_size d)
      | Some src \<Rightarrow> Again (set_status (d\<lparr>dc_src := src + 1\<rparr>) chunk_head))"

definition case_head :: "decoder \<Rightarrow> flow" where
  "case_head d =
     (case scan_from (\<lambda>c. c \<noteq> CR) d of
        None \<Rightarrow> Exit (- 2) (at_size d)
      | Some src \<Rightarrow>
          if dc_buffer d ! src = LF then Complete (d\<lparr>dc_src := src + 1\<rparr>)
          else case_middle (set_status (d\<lparr>dc_src := src + 1\<rparr>) chunk_middle))"

definition case_end :: "decoder \<Rightarrow> flow" where
  "case_end d =
     (case scan_from (\<lambda>c. c \<noteq> CR) d of
        None \<Rightarrow> Exit (- 2) (at_size d)
      | Some src \<Rightarrow>
          if dc_buffer d ! src \<noteq> LF then Exit (- 1) (d\<lparr>dc_src := src\<rparr>)
          else Again (set_status (d\<lparr>dc_src := src + 1\<rparr>) chunk_size))"

definition case_data :: "decoder \<Rightarrow> flow" where
  "case_data d =
     (let avail = length (dc_buffer d) - dc_src d; n = unat (ch_length (dc_chunked d))
      in if avail < n then
           Exit (- 2) ((move_down d avail)
             \<lparr>dc_src := dc_src d + avail, dc_dest := dc_dest d + avail,
              dc_chunked := (dc_chunked d)\<lparr>ch_length := ch_length (dc_chunked d) - word_of_nat avail\<rparr>\<rparr>)
         else case_end (set_status ((move_down d n)
             \<lparr>dc_src := dc_src d + n, dc_dest := dc_dest d + n,
              dc_chunked := (dc_chunked d)\<lparr>ch_length := 0\<rparr>\<rparr>) chunk_end))"

definition case_ext :: "decoder \<Rightarrow> flow" where
  "case_ext d =
     (case scan_from (\<lambda>c. c = LF) d of
        None \<Rightarrow> Exit (- 2) (at_size d)
      | Some src \<Rightarrow>
          let d = d\<lparr>dc_src := src + 1\<rparr>
          in if ch_length (dc_chunked d) = 0 then
               if ch_consume_trailer (dc_chunked d) then Again (set_status d chunk_head) else Complete d
             else case_data (set_status d chunk_data))"

definition case_size :: "decoder \<Rightarrow> flow" where
  "case_size d =
     (case size_loop (dc_chunked d) (dc_src d) (drop (dc_src d) (dc_buffer d)) of
        (Some r, st, src) \<Rightarrow> Exit r (d\<lparr>dc_src := src, dc_chunked := st\<rparr>)
      | (None, st, src) \<Rightarrow>
          case_ext (set_status (d\<lparr>dc_src := src, dc_chunked := st\<lparr>ch_hex_count := 0\<rparr>\<rparr>) chunk_ext))"

definition decode_switch :: "decoder \<Rightarrow> flow" where
  "decode_switch d =
     (case ch_state (dc_chunked d) of
        chunk_size \<Rightarrow> case_size d
      | chunk_ext \<Rightarrow> case_ext d
      | chunk_data \<Rightarrow> case_data d
      | chunk_end \<Rightarrow> case_end d
      | chunk_head \<Rightarrow> case_head d
      | chunk_middle \<Rightarrow> case_middle d)"

section \<open>The loop\<close>

text \<open>The cases that come round again have read at least one byte of the buffer, whose size does not change.\<close>

definition advances :: "decoder \<Rightarrow> decoder \<Rightarrow> bool" where
  "advances d d' \<longleftrightarrow> dc_src d < dc_src d' \<and> dc_src d < length (dc_buffer d) \<and> length (dc_buffer d') = length (dc_buffer d)"

lemma advancesI: "dc_src d \<le> dc_src e \<Longrightarrow> length (dc_buffer e) = length (dc_buffer d) \<Longrightarrow> advances e d' \<Longrightarrow> advances d d'"
  by (auto simp: advances_def)

lemma scan_for_bounds: "scan_for P src rest = Some i \<Longrightarrow> src \<le> i \<and> i < src + length rest"
  by (induction P src rest rule: scan_for.induct) (auto split: if_splits)

lemma scan_from_bounds: "scan_from P d = Some i \<Longrightarrow> dc_src d \<le> i \<and> i < length (dc_buffer d)"
  using scan_for_bounds [of P "dc_src d" "drop (dc_src d) (dc_buffer d)" i] by (auto simp: scan_from_def)

lemma size_loop_ge: "size_loop st src rest = (r, st', src') \<Longrightarrow> src \<le> src'"
  by (induction st src rest rule: size_loop.induct) (auto split: option.splits if_splits)

lemma length_move_down [simp]: "length (dc_buffer (move_down d n)) = length (dc_buffer d)"
  by (simp add: move_down_def memmove_def)

lemmas case_simps = set_status_def advances_def Let_def

lemma case_middle_again: "case_middle d = Again d' \<Longrightarrow> advances d d'"
  by (auto simp: case_middle_def case_simps split: option.splits dest: scan_from_bounds)

lemma case_head_again: "case_head d = Again d' \<Longrightarrow> advances d d'"
  by (auto simp: case_head_def set_status_def split: option.splits if_splits
      dest!: scan_from_bounds case_middle_again elim!: advancesI [rotated 2])

lemma case_end_again: "case_end d = Again d' \<Longrightarrow> advances d d'"
  by (auto simp: case_end_def case_simps split: option.splits if_splits dest: scan_from_bounds)

lemma case_data_again: "case_data d = Again d' \<Longrightarrow> advances d d'"
  by (auto simp: case_data_def Let_def set_status_def split: if_splits
      dest!: case_end_again elim!: advancesI [rotated 2])

lemma case_ext_again: "case_ext d = Again d' \<Longrightarrow> advances d d'"
  by (auto simp: case_ext_def case_simps split: option.splits if_splits
      dest!: scan_from_bounds case_data_again)

lemma case_size_again: "case_size d = Again d' \<Longrightarrow> advances d d'"
  by (auto simp: case_size_def set_status_def split: option.splits prod.splits
      dest!: size_loop_ge case_ext_again elim!: advancesI [rotated 2])

lemma decode_switch_again: "decode_switch d = Again d' \<Longrightarrow> advances d d'"
  by (auto simp: decode_switch_def split: chunked_status.splits
      dest: case_size_again case_ext_again case_data_again case_end_again case_head_again case_middle_again)

function decode_loop :: "decoder \<Rightarrow> int \<times> decoder" where
  "decode_loop d =
     (case decode_switch d of
        Exit r d \<Rightarrow> (r, d)
      | Complete d \<Rightarrow> (int (length (dc_buffer d) - dc_src d), d)
      | Again d \<Rightarrow> decode_loop d)"
  by auto
termination
  by (relation "measure (\<lambda>d. length (dc_buffer d) - dc_src d)")
     (auto dest!: decode_switch_again simp: advances_def)

declare decode_loop.simps [simp del]

text \<open>The result, the state, the buffer and the new length.\<close>

definition parse_decode_chunked :: "chunked_state \<Rightarrow> string \<Rightarrow> int \<times> chunked_state \<times> string \<times> nat" where
  "parse_decode_chunked st buffer =
     (let (result, d) = decode_loop \<lparr>dc_chunked = st, dc_buffer = buffer, dc_dest = 0, dc_src = 0\<rparr>;
          d' = move_down d (length (dc_buffer d) - dc_src d)
      in (result, dc_chunked d', dc_buffer d', dc_dest d'))"

end
