(* ===== verification/Http_Chunked_Laws.thy ===== *)
theory Http_Chunked_Laws
  imports Http_Chunked
begin

text \<open>
  A byte by byte automaton for chunked bodies, and the refinement: the decoder that works in place on
  whole runs of bytes gives the output, the state and the result of the automaton.
\<close>

section \<open>The automaton\<close>

text \<open>A byte is accepted and may be output, or it is an error, or it is the last one.\<close>

datatype byte_result = Feed chunked_state string | Bad chunked_state | Last chunked_state

definition ext_byte :: "chunked_state \<Rightarrow> char \<Rightarrow> byte_result" where
  "ext_byte st c =
     (if c \<noteq> LF then Feed (st\<lparr>ch_state := chunk_ext\<rparr>) []
      else if ch_length st \<noteq> 0 then Feed (st\<lparr>ch_state := chunk_data\<rparr>) []
      else if ch_consume_trailer st then Feed (st\<lparr>ch_state := chunk_head\<rparr>) []
      else Last (st\<lparr>ch_state := chunk_ext\<rparr>))"

definition chunk_byte :: "chunked_state \<Rightarrow> char \<Rightarrow> byte_result" where
  "chunk_byte st c =
     (case ch_state st of
        chunk_size \<Rightarrow>
          (case hex_digit c of
             Some v \<Rightarrow> if ch_hex_count st = 16 then Bad st
                       else Feed (st\<lparr>ch_length := ch_length st * 16 + word_of_nat v,
                                     ch_hex_count := ch_hex_count st + 1\<rparr>) []
           | None \<Rightarrow> if ch_hex_count st = 0 then Bad st else ext_byte (st\<lparr>ch_hex_count := 0\<rparr>) c)
      | chunk_ext \<Rightarrow> ext_byte st c
      | chunk_data \<Rightarrow>
          Feed (st\<lparr>ch_length := ch_length st - 1,
                   ch_state := if ch_length st = 1 then chunk_end else chunk_data\<rparr>) [c]
      | chunk_end \<Rightarrow> if c = CR then Feed st [] else if c = LF then Feed (st\<lparr>ch_state := chunk_size\<rparr>) [] else Bad st
      | chunk_head \<Rightarrow> if c = CR then Feed st [] else if c = LF then Last st else Feed (st\<lparr>ch_state := chunk_middle\<rparr>) []
      | chunk_middle \<Rightarrow> if c = LF then Feed (st\<lparr>ch_state := chunk_head\<rparr>) [] else Feed st [])"

text \<open>The final state, the output, the result and the bytes that were not read.\<close>

type_synonym chunk_run = "chunked_state \<times> string \<times> int \<times> string"

definition emit :: "string \<Rightarrow> chunk_run \<Rightarrow> chunk_run" where
  "emit out = (\<lambda>(st, out', r, rest). (st, out @ out', r, rest))"

fun chunk_bytes :: "chunked_state \<Rightarrow> string \<Rightarrow> chunk_run" where
  "chunk_bytes st [] = (st, [], - 2, [])"
| "chunk_bytes st (c # rest) =
     (case chunk_byte st c of
        Feed st' out \<Rightarrow> emit out (chunk_bytes st' rest)
      | Bad st' \<Rightarrow> (st', [], - 1, c # rest)
      | Last st' \<Rightarrow> (st', [], int (length rest), rest))"

lemma emit_simps [simp]:
  "emit [] x = x" "emit a (emit b x) = emit (a @ b) x" "emit a (st, out, r, rest) = (st, a @ out, r, rest)"
  by (auto simp: emit_def split: prod.splits)

text \<open>The automaton can be stopped after any byte and resumed.\<close>

lemma chunk_bytes_append:
  "chunk_bytes st a = (st', out, - 2, []) \<Longrightarrow> chunk_bytes st (a @ b) = emit out (chunk_bytes st' b)"
proof (induction st a arbitrary: out rule: chunk_bytes.induct)
  case (2 st c rest)
  show ?case
  proof (cases "chunk_byte st c")
    case (Feed st1 o1)
    obtain x where x: "chunk_bytes st1 rest = (st', x, - 2, [])" "out = o1 @ x"
      using 2(2) Feed by (auto simp: emit_def split: prod.splits)
    then show ?thesis using 2(1) [OF Feed x(1)] Feed by simp
  qed (use 2(2) in auto)
qed simp

lemma chunk_bytes_stay:
  "\<forall>c\<in>set pre. chunk_byte st c = Feed st [] \<Longrightarrow> chunk_bytes st (pre @ post) = chunk_bytes st post"
  by (induction pre) auto

section \<open>The data of a chunk\<close>

lemma chunk_bytes_data_all:
  "ch_state st = chunk_data \<Longrightarrow> length bs < unat (ch_length st) \<Longrightarrow>
   chunk_bytes st bs = (st\<lparr>ch_length := ch_length st - word_of_nat (length bs)\<rparr>, bs, - 2, [])"
proof (induction bs arbitrary: st)
  case (Cons b bs)
  have n: "ch_length st \<noteq> 0" "ch_length st \<noteq> 1" using Cons.prems(2) by auto
  note n = this unat_minus_one [OF this(1)]
  let ?st = "st\<lparr>ch_length := ch_length st - 1\<rparr>"
  have "chunk_byte st b = Feed ?st [b]" using Cons.prems(1) n by (simp add: chunk_byte_def)
  moreover have "chunk_bytes ?st bs = (?st\<lparr>ch_length := ch_length ?st - word_of_nat (length bs)\<rparr>, bs, - 2, [])"
    using Cons.prems n by (intro Cons.IH) auto
  ultimately show ?case by (simp add: algebra_simps)
qed simp

lemma chunk_bytes_data_part:
  "ch_state st = chunk_data \<Longrightarrow> ch_length st \<noteq> 0 \<Longrightarrow> unat (ch_length st) \<le> length bs \<Longrightarrow>
   chunk_bytes st bs = emit (take (unat (ch_length st)) bs)
     (chunk_bytes (st\<lparr>ch_length := 0, ch_state := chunk_end\<rparr>) (drop (unat (ch_length st)) bs))"
proof (induction bs arbitrary: st)
  case Nil
  then show ?case by (simp add: unat_eq_0)
next
  case (Cons b bs)
  show ?case
  proof (cases "ch_length st = 1")
    case True
    then show ?thesis using Cons.prems(1) by (simp add: chunk_byte_def)
  next
    case False
    let ?st = "st\<lparr>ch_length := ch_length st - 1\<rparr>"
    have n: "ch_length st - 1 \<noteq> 0" "unat (ch_length st) = Suc (unat (ch_length st - 1))"
      using False Cons.prems(2) unat_minus_one [of "ch_length st"] unat_gt_0 [of "ch_length st"]
      by (auto simp: word_neq_0_conv [symmetric])
    have "chunk_byte st b = Feed ?st [b]" using Cons.prems(1) False by (simp add: chunk_byte_def)
    moreover have "chunk_bytes ?st bs = emit (take (unat (ch_length ?st)) bs)
        (chunk_bytes (?st\<lparr>ch_length := 0, ch_state := chunk_end\<rparr>) (drop (unat (ch_length ?st)) bs))"
      using Cons.prems n by (intro Cons.IH) auto
    ultimately show ?thesis using n(2) by simp
  qed
qed

section \<open>The decoder in place\<close>

definition unread :: "decoder \<Rightarrow> string" where
  "unread d = drop (dc_src d) (dc_buffer d)"

definition in_place :: "decoder \<Rightarrow> bool" where
  "in_place d \<longleftrightarrow> dc_dest d \<le> dc_src d \<and> dc_src d \<le> length (dc_buffer d) \<and>
     (ch_state (dc_chunked d) = chunk_data \<longrightarrow> ch_length (dc_chunked d) \<noteq> 0)"

text \<open>The decoder has written an output behind what it had and has read on.\<close>

definition moved :: "decoder \<Rightarrow> string \<Rightarrow> decoder \<Rightarrow> bool" where
  "moved d out d' \<longleftrightarrow>
     length (dc_buffer d') = length (dc_buffer d) \<and> dc_dest d' = dc_dest d + length out \<and>
     take (dc_dest d') (dc_buffer d') = take (dc_dest d) (dc_buffer d) @ out \<and>
     dc_src d \<le> dc_src d' \<and> drop (dc_src d') (dc_buffer d') = drop (dc_src d') (dc_buffer d) \<and>
     in_place d'"

definition leads :: "decoder \<Rightarrow> decoder \<Rightarrow> bool" where
  "leads d d' \<longleftrightarrow> (\<exists>out. moved d out d' \<and>
     chunk_bytes (dc_chunked d) (unread d) = emit out (chunk_bytes (dc_chunked d') (unread d')))"

definition finishes :: "decoder \<Rightarrow> int \<Rightarrow> decoder \<Rightarrow> bool" where
  "finishes d r d' \<longleftrightarrow> (\<exists>out. moved d out d' \<and>
     chunk_bytes (dc_chunked d) (unread d) = (dc_chunked d', out, r, unread d'))"

fun agrees :: "decoder \<Rightarrow> flow \<Rightarrow> bool" where
  "agrees d (Exit r d') \<longleftrightarrow> finishes d r d'"
| "agrees d (Complete d') \<longleftrightarrow> finishes d (int (length (unread d'))) d'"
| "agrees d (Again d') \<longleftrightarrow> leads d d'"

lemma moved_trans: "moved d a e \<Longrightarrow> moved e b f \<Longrightarrow> moved d (a @ b) f"
proof -
  assume d: "moved d a e" and e: "moved e b f"
  have "drop (dc_src f) (dc_buffer e) = drop (dc_src f) (dc_buffer d)"
    using d e by (metis drop_drop le_add_diff_inverse2 moved_def)
  moreover have "take (dc_dest f) (dc_buffer f) = take (dc_dest d) (dc_buffer d) @ a @ b"
    using d e by (metis append_assoc moved_def)
  ultimately show ?thesis using d e by (simp add: moved_def)
qed

lemma leads_trans: "leads d e \<Longrightarrow> leads e f \<Longrightarrow> leads d f"
  unfolding leads_def using moved_trans by (metis emit_simps(2))

lemma leads_finishes: "leads d e \<Longrightarrow> finishes e r f \<Longrightarrow> finishes d r f"
  unfolding leads_def finishes_def using moved_trans by (metis emit_simps(3))

lemma leads_agrees: "leads d e \<Longrightarrow> agrees e fl \<Longrightarrow> agrees d fl"
  by (cases fl) (auto intro: leads_trans leads_finishes)

text \<open>Reading without writing.\<close>

lemma leads_read:
  assumes "in_place d" "dc_src d \<le> src" "src \<le> length (dc_buffer d)"
    and "ch_state st = chunk_data \<longrightarrow> ch_length st \<noteq> 0"
    and "chunk_bytes (dc_chunked d) (unread d) = chunk_bytes st (drop src (dc_buffer d))"
  shows "leads d (d\<lparr>dc_src := src, dc_chunked := st\<rparr>)"
  using assms by (auto simp: leads_def moved_def in_place_def unread_def)

lemma finishes_read:
  assumes "in_place d" "dc_src d \<le> src" "src \<le> length (dc_buffer d)"
    and "ch_state st = chunk_data \<longrightarrow> ch_length st \<noteq> 0"
    and "chunk_bytes (dc_chunked d) (unread d) = (st, [], r, drop src (dc_buffer d))"
  shows "finishes d r (d\<lparr>dc_src := src, dc_chunked := st\<rparr>)"
  using assms by (auto simp: finishes_def moved_def in_place_def unread_def)

lemma scan_for_split:
  "scan_for P src rest = Some i \<Longrightarrow>
   \<exists>pre c post. rest = pre @ c # post \<and> i = src + length pre \<and> P c \<and> (\<forall>x\<in>set pre. \<not> P x)"
proof (induction P src rest rule: scan_for.induct)
  case (2 P src c rest)
  show ?case
  proof (cases "P c")
    case True
    then show ?thesis using 2(2) by (intro exI [of _ "[]"]) auto
  next
    case False
    then obtain pre x post where "rest = pre @ x # post" "i = src + 1 + length pre" "P x" "\<forall>x\<in>set pre. \<not> P x"
      using 2 by auto
    then show ?thesis using False by (intro exI [of _ "c # pre"]) auto
  qed
qed simp

lemma scan_from_split:
  assumes "scan_from P d = Some i"
  obtains pre c where "unread d = pre @ c # drop (i + 1) (dc_buffer d)" "dc_buffer d ! i = c" "P c"
    "\<forall>x\<in>set pre. \<not> P x" "dc_src d \<le> i" "i < length (dc_buffer d)" "drop i (dc_buffer d) = c # drop (i + 1) (dc_buffer d)"
proof -
  obtain pre c post where s: "unread d = pre @ c # post" "i = dc_src d + length pre" "P c" "\<forall>x\<in>set pre. \<not> P x"
    using assms scan_for_split unfolding scan_from_def unread_def by blast
  then have "drop i (dc_buffer d) = c # post"
    by (metis add.commute append_eq_conv_conj drop_drop unread_def)
  moreover from this have "post = drop (i + 1) (dc_buffer d)" "dc_buffer d ! i = c"
    by (metis drop_Suc tl_drop list.sel(3) Suc_eq_plus1, metis hd_drop_conv_nth list.sel(1) drop_all not_less list.discI)
  ultimately show ?thesis using that s scan_from_bounds [OF assms] by auto
qed

lemma scan_from_None: "scan_from P d = None \<Longrightarrow> \<forall>x\<in>set (unread d). \<not> P x"
proof -
  have "scan_for P src rest = None \<Longrightarrow> \<forall>x\<in>set rest. \<not> P x" for src rest
    by (induction P src rest rule: scan_for.induct) (auto split: if_splits)
  then show "scan_from P d = None \<Longrightarrow> ?thesis" by (simp add: scan_from_def unread_def)
qed

lemma finishes_at_size:
  assumes "in_place d" "\<forall>x\<in>set (unread d). chunk_byte (dc_chunked d) x = Feed (dc_chunked d) []"
  shows "finishes d (- 2) (at_size d)"
proof -
  have "chunk_bytes (dc_chunked d) (unread d @ []) = (dc_chunked d, [], - 2, [])"
    unfolding chunk_bytes_stay [OF assms(2)] by simp
  then show ?thesis
    using finishes_read [OF assms(1), of "length (dc_buffer d)" "dc_chunked d" "- 2"] assms(1)
    by (simp add: at_size_def in_place_def)
qed

section \<open>The cases agree with the automaton\<close>

lemma chunk_bytes_skip:
  "unread d = pre @ c # rest \<Longrightarrow> \<forall>x\<in>set pre. chunk_byte st x = Feed st [] \<Longrightarrow>
   chunk_bytes st (unread d) = chunk_bytes st (c # rest)"
  using chunk_bytes_stay by metis

lemma case_middle_agrees:
  assumes "in_place d" "ch_state (dc_chunked d) = chunk_middle"
  shows "agrees d (case_middle d)"
proof (cases "scan_from (\<lambda>c. c = LF) d")
  case None
  then have "finishes d (- 2) (at_size d)" using assms scan_from_None [OF None]
    by (intro finishes_at_size) (simp_all add: chunk_byte_def)
  then show ?thesis using None by (simp add: case_middle_def)
next
  case (Some i)
  then obtain pre c where s: "unread d = pre @ c # drop (i + 1) (dc_buffer d)" "c = LF"
      "\<forall>x\<in>set pre. x \<noteq> LF" "dc_src d \<le> i" "i < length (dc_buffer d)"
    by (rule scan_from_split)
  have "chunk_bytes (dc_chunked d) (unread d) = chunk_bytes (dc_chunked d) (c # drop (i + 1) (dc_buffer d))"
    using s(1) assms(2) s(3) by (intro chunk_bytes_skip) (auto simp: chunk_byte_def)
  then show ?thesis
    using leads_read [OF assms(1), of "i + 1" "(dc_chunked d)\<lparr>ch_state := chunk_head\<rparr>"] s assms(2) Some
    by (simp add: case_middle_def set_status_def chunk_byte_def)
qed

lemma case_head_agrees:
  assumes "in_place d" "ch_state (dc_chunked d) = chunk_head"
  shows "agrees d (case_head d)"
proof (cases "scan_from (\<lambda>c. c \<noteq> CR) d")
  case None
  then have "finishes d (- 2) (at_size d)" using assms scan_from_None [OF None]
    by (intro finishes_at_size) (simp_all add: chunk_byte_def)
  then show ?thesis using None by (simp add: case_head_def)
next
  case (Some i)
  then obtain pre c where s: "unread d = pre @ c # drop (i + 1) (dc_buffer d)" "dc_buffer d ! i = c" "c \<noteq> CR"
      "\<forall>x\<in>set pre. \<not> x \<noteq> CR" "dc_src d \<le> i" "i < length (dc_buffer d)"
    by (rule scan_from_split)
  have b: "chunk_bytes (dc_chunked d) (unread d) = chunk_bytes (dc_chunked d) (c # drop (i + 1) (dc_buffer d))"
    using s(1) assms(2) s(4) by (intro chunk_bytes_skip) (auto simp: chunk_byte_def)
  show ?thesis
  proof (cases "c = LF")
    case True
    then show ?thesis
      using finishes_read [OF assms(1), of "i + 1" "dc_chunked d"] b s assms(2) Some
      by (simp add: case_head_def chunk_byte_def unread_def of_nat_diff)
  next
    case False
    let ?e = "d\<lparr>dc_src := i + 1, dc_chunked := (dc_chunked d)\<lparr>ch_state := chunk_middle\<rparr>\<rparr>"
    have "leads d ?e"
      using False b s assms(2) by (intro leads_read [OF assms(1)]) (auto simp: chunk_byte_def)
    moreover have "agrees ?e (case_middle ?e)"
      using assms(1) s(5,6) by (intro case_middle_agrees) (auto simp: in_place_def)
    ultimately show ?thesis using False s(2) Some leads_agrees
      by (auto simp: case_head_def set_status_def)
  qed
qed

lemma case_end_agrees:
  assumes "in_place d" "ch_state (dc_chunked d) = chunk_end"
  shows "agrees d (case_end d)"
proof (cases "scan_from (\<lambda>c. c \<noteq> CR) d")
  case None
  then have "finishes d (- 2) (at_size d)" using assms scan_from_None [OF None]
    by (intro finishes_at_size) (simp_all add: chunk_byte_def)
  then show ?thesis using None by (simp add: case_end_def)
next
  case (Some i)
  then obtain pre c where s: "unread d = pre @ c # drop (i + 1) (dc_buffer d)" "dc_buffer d ! i = c" "c \<noteq> CR"
      "\<forall>x\<in>set pre. \<not> x \<noteq> CR" "dc_src d \<le> i" "i < length (dc_buffer d)"
      "drop i (dc_buffer d) = c # drop (i + 1) (dc_buffer d)"
    by (rule scan_from_split)
  have b: "chunk_bytes (dc_chunked d) (unread d) = chunk_bytes (dc_chunked d) (c # drop (i + 1) (dc_buffer d))"
    using s(1) assms(2) s(4) by (intro chunk_bytes_skip) (auto simp: chunk_byte_def)
  show ?thesis
  proof (cases "c = LF")
    case True
    then show ?thesis
      using leads_read [OF assms(1), of "i + 1" "(dc_chunked d)\<lparr>ch_state := chunk_size\<rparr>"] b s assms(2) Some
      by (simp add: case_end_def chunk_byte_def set_status_def)
  next
    case False
    then show ?thesis
      using finishes_read [OF assms(1), of i "dc_chunked d" "- 1"] b s assms(2) Some
      by (simp add: case_end_def chunk_byte_def)
  qed
qed

lemma memmove_eq:
  "dest \<le> src \<Longrightarrow> src + n \<le> length b \<Longrightarrow>
   memmove b dest src n = take dest b @ take n (drop src b) @ drop (dest + n) b"
  by (rule nth_equalityI) (auto simp: memmove_def nth_append)

lemma moved_down:
  assumes "in_place d" "n \<le> length (unread d)" "ch_state st = chunk_data \<longrightarrow> ch_length st \<noteq> 0"
  shows "moved d (take n (unread d))
    ((move_down d n)\<lparr>dc_src := dc_src d + n, dc_dest := dc_dest d + n, dc_chunked := st\<rparr>)"
proof (cases "dc_dest d = dc_src d")
  case True
  then show ?thesis using assms by (auto simp: moved_def move_down_def in_place_def unread_def take_add)
next
  case False
  moreover have "dc_src d + n \<le> length (dc_buffer d)" using assms by (auto simp: in_place_def unread_def)
  ultimately have b: "dc_buffer (move_down d n) =
      take (dc_dest d) (dc_buffer d) @ take n (unread d) @ drop (dc_dest d + n) (dc_buffer d)"
    using assms by (simp add: move_down_def memmove_eq in_place_def unread_def)
  show ?thesis using assms unfolding moved_def in_place_def
    by (simp add: b) (auto simp: unread_def)
qed

lemma case_data_agrees:
  assumes "in_place d" "ch_state (dc_chunked d) = chunk_data"
  shows "agrees d (case_data d)"
proof -
  let ?st = "dc_chunked d"
  have len: "length (unread d) = length (dc_buffer d) - dc_src d" "ch_length ?st \<noteq> 0"
    using assms by (simp_all add: unread_def in_place_def)
  show ?thesis
  proof (cases "length (unread d) < unat (ch_length ?st)")
    case True
    let ?n = "length (unread d)"
    let ?st' = "?st\<lparr>ch_length := ch_length ?st - word_of_nat ?n\<rparr>"
    have "unat (word_of_nat ?n :: u64) \<le> ?n" by (simp add: unat_of_nat)
    then have "ch_length ?st' \<noteq> 0" using True by auto
    then have "moved d (take ?n (unread d))
        ((move_down d ?n)\<lparr>dc_src := dc_src d + ?n, dc_dest := dc_dest d + ?n, dc_chunked := ?st'\<rparr>)"
      using assms by (intro moved_down) auto
    then show ?thesis using True chunk_bytes_data_all [OF assms(2) True] len assms(1)
      by (auto simp: case_data_def finishes_def Let_def unread_def in_place_def)
  next
    case False
    let ?n = "unat (ch_length ?st)"
    let ?st' = "?st\<lparr>ch_length := 0, ch_state := chunk_end\<rparr>"
    let ?e = "(move_down d ?n)\<lparr>dc_src := dc_src d + ?n, dc_dest := dc_dest d + ?n, dc_chunked := ?st'\<rparr>"
    have m: "moved d (take ?n (unread d)) ?e" using False assms by (intro moved_down) auto
    then have "unread ?e = drop ?n (unread d)" by (simp add: moved_def unread_def add.commute)
    then have "leads d ?e" using m chunk_bytes_data_part [OF assms(2) len(2)] False by (auto simp: leads_def)
    moreover have "agrees ?e (case_end ?e)" using m by (intro case_end_agrees) (auto simp: moved_def)
    ultimately show ?thesis using False len leads_agrees
      by (auto simp: case_data_def Let_def set_status_def)
  qed
qed

lemma case_ext_agrees:
  assumes "in_place d" "ch_state (dc_chunked d) = chunk_ext"
  shows "agrees d (case_ext d)"
proof (cases "scan_from (\<lambda>c. c = LF) d")
  case None
  then have "finishes d (- 2) (at_size d)" using assms scan_from_None [OF None]
    by (intro finishes_at_size) (simp_all add: chunk_byte_def ext_byte_def)
  then show ?thesis using None by (simp add: case_ext_def)
next
  case (Some i)
  then obtain pre c where s: "unread d = pre @ c # drop (i + 1) (dc_buffer d)" "c = LF"
      "\<forall>x\<in>set pre. x \<noteq> LF" "dc_src d \<le> i" "i < length (dc_buffer d)"
    by (rule scan_from_split)
  let ?st = "dc_chunked d"
  have b: "chunk_bytes ?st (unread d) = chunk_bytes ?st (c # drop (i + 1) (dc_buffer d))"
    using s(1) assms(2) s(3) by (intro chunk_bytes_skip) (auto simp: chunk_byte_def ext_byte_def)
  let ?to = "\<lambda>s. d\<lparr>dc_src := i + 1, dc_chunked := ?st\<lparr>ch_state := s\<rparr>\<rparr>"
  show ?thesis
  proof (cases "ch_length ?st = 0")
    case True
    have "leads d (?to chunk_head)" if "ch_consume_trailer ?st"
      using that True s assms b by (intro leads_read) (auto simp: chunk_byte_def ext_byte_def)
    moreover have "finishes d (int (length (drop (i + 1) (dc_buffer d)))) (d\<lparr>dc_src := i + 1, dc_chunked := ?st\<rparr>)"
      if "\<not> ch_consume_trailer ?st"
      using that True s assms b by (intro finishes_read) (auto simp: chunk_byte_def ext_byte_def)
    ultimately show ?thesis using True Some
      by (auto simp: case_ext_def Let_def set_status_def unread_def)
  next
    case False
    have "leads d (?to chunk_data)"
      using False s assms b by (intro leads_read) (auto simp: chunk_byte_def ext_byte_def)
    moreover have "agrees (?to chunk_data) (case_data (?to chunk_data))"
      using False s(4,5) assms(1) by (intro case_data_agrees) (auto simp: in_place_def)
    ultimately show ?thesis using False Some leads_agrees
      by (auto simp: case_ext_def Let_def set_status_def)
  qed
qed

lemma size_loop_agrees:
  "ch_state st = chunk_size \<Longrightarrow> size_loop st src rest = (r, st', src') \<Longrightarrow>
   \<exists>k. src' = src + k \<and> k \<le> length rest \<and> ch_state st' = chunk_size \<and>
     (case r of
        Some v \<Rightarrow> chunk_bytes st rest = (st', [], v, drop k rest)
      | None \<Rightarrow> chunk_bytes st rest = chunk_bytes (st'\<lparr>ch_hex_count := 0, ch_state := chunk_ext\<rparr>) (drop k rest))"
proof (induction st src rest rule: size_loop.induct)
  case (2 st src c rest)
  show ?case
  proof (cases "hex_digit c")
    case None
    then show ?thesis using 2(2,3) by (auto simp: chunk_byte_def ext_byte_def split: if_splits)
  next
    case (Some v)
    show ?thesis
    proof (cases "ch_hex_count st = 16")
      case True
      then show ?thesis using Some 2(2,3) by (auto simp: chunk_byte_def)
    next
      case False
      then obtain k where "src' = src + 1 + k" "k \<le> length rest" "ch_state st' = chunk_size"
        "case r of
           Some w \<Rightarrow> chunk_bytes (st\<lparr>ch_length := ch_length st * 16 + word_of_nat v, ch_hex_count := ch_hex_count st + 1\<rparr>) rest
             = (st', [], w, drop k rest)
         | None \<Rightarrow> chunk_bytes (st\<lparr>ch_length := ch_length st * 16 + word_of_nat v, ch_hex_count := ch_hex_count st + 1\<rparr>) rest
             = chunk_bytes (st'\<lparr>ch_hex_count := 0, ch_state := chunk_ext\<rparr>) (drop k rest)"
        using 2(1) [OF Some False] 2(2,3) Some by auto
      then show ?thesis using Some False 2(2)
        by (intro exI [of _ "k + 1"]) (auto simp: chunk_byte_def split: option.splits)
    qed
  qed
qed auto

lemma case_size_agrees:
  assumes "in_place d" "ch_state (dc_chunked d) = chunk_size"
  shows "agrees d (case_size d)"
proof -
  obtain r st src where l: "size_loop (dc_chunked d) (dc_src d) (unread d) = (r, st, src)"
    using prod_cases3 by blast
  obtain k where k: "src = dc_src d + k" "k \<le> length (unread d)" "ch_state st = chunk_size"
    "case r of
       Some v \<Rightarrow> chunk_bytes (dc_chunked d) (unread d) = (st, [], v, drop k (unread d))
     | None \<Rightarrow> chunk_bytes (dc_chunked d) (unread d) =
                 chunk_bytes (st\<lparr>ch_hex_count := 0, ch_state := chunk_ext\<rparr>) (drop k (unread d))"
    using size_loop_agrees [OF assms(2) l] by blast
  have src: "dc_src d \<le> src" "src \<le> length (dc_buffer d)" "drop k (unread d) = drop src (dc_buffer d)"
    using k(1,2) assms(1) by (auto simp: unread_def in_place_def add.commute)
  show ?thesis
  proof (cases r)
    case (Some v)
    then have "finishes d v (d\<lparr>dc_src := src, dc_chunked := st\<rparr>)"
      using k src assms(1) by (intro finishes_read) auto
    then show ?thesis using Some l by (simp add: case_size_def unread_def)
  next
    case None
    let ?e = "d\<lparr>dc_src := src, dc_chunked := st\<lparr>ch_hex_count := 0, ch_state := chunk_ext\<rparr>\<rparr>"
    have "leads d ?e" using None k src assms(1) by (intro leads_read) auto
    moreover have "agrees ?e (case_ext ?e)"
      using src assms(1) by (intro case_ext_agrees) (auto simp: in_place_def)
    ultimately show ?thesis using None l leads_agrees
      by (auto simp: case_size_def unread_def set_status_def)
  qed
qed

lemma decode_switch_agrees: "in_place d \<Longrightarrow> agrees d (decode_switch d)"
  by (cases "ch_state (dc_chunked d)")
     (simp_all add: decode_switch_def case_size_agrees case_ext_agrees case_data_agrees case_end_agrees
        case_head_agrees case_middle_agrees)

lemma decode_loop_agrees: "in_place d \<Longrightarrow> decode_loop d = (r, d') \<Longrightarrow> finishes d r d'"
proof (induction d rule: decode_loop.induct)
  case (1 d)
  note a = decode_switch_agrees [OF 1(2)]
  show ?case
  proof (cases "decode_switch d")
    case (Again e)
    then have e: "leads d e" "in_place e" using a by (auto simp: leads_def moved_def)
    then show ?thesis using 1(1) [OF Again e(2)] 1(3) Again leads_finishes
      by (simp add: decode_loop.simps [of d])
  qed (use a 1(3) in \<open>auto simp: decode_loop.simps [of d] unread_def\<close>)
qed

end
