(* ===== verification/Http_Chunked_Properties.thy ===== *)
theory Http_Chunked_Properties
  imports Http_Chunked_Laws
begin

text \<open>
  Properties of the decoder of chunked bodies: it refines the automaton that reads byte by byte, can be
  fed a body in pieces, and reads back a body that was encoded in chunks.
\<close>

section \<open>Refinement\<close>

lemma decode_refines:
  assumes "ch_state st = chunk_data \<longrightarrow> ch_length st \<noteq> 0" "chunk_bytes st buffer = (st', out, r, rest)"
  shows "\<exists>junk. parse_decode_chunked st buffer = (r, st', out @ rest @ junk, length out)
           \<and> length (out @ rest @ junk) = length buffer"
proof -
  let ?d = "\<lparr>dc_chunked = st, dc_buffer = buffer, dc_dest = 0, dc_src = 0\<rparr>"
  obtain r' d where l: "decode_loop ?d = (r', d)" by fastforce
  have "in_place ?d" using assms(1) by (simp add: in_place_def)
  then have f: "finishes ?d r' d" using l by (rule decode_loop_agrees)
  then have d: "r' = r" "dc_chunked d = st'" "unread d = rest" "moved ?d out d"
    using assms(2) by (auto simp: finishes_def unread_def)
  let ?n = "length (unread d)"
  let ?e = "move_down d ?n"
  have "moved d (take ?n (unread d))
      (?e\<lparr>dc_src := dc_src d + ?n, dc_dest := dc_dest d + ?n, dc_chunked := dc_chunked d\<rparr>)"
    using d(4) by (intro moved_down) (auto simp: moved_def in_place_def)
  then have e: "take (length (out @ rest)) (dc_buffer ?e) = out @ rest"
      "length (dc_buffer ?e) = length buffer" "dc_dest ?e = length out" "dc_chunked ?e = st'"
    using d by (auto simp: moved_def move_down_def)
  obtain junk where junk: "dc_buffer ?e = out @ rest @ junk"
    using e(1) append_take_drop_id [of "length (out @ rest)" "dc_buffer ?e"] by (metis append_assoc)
  then have "length (out @ rest @ junk) = length buffer" using e(2) by metis
  then show ?thesis using e(3,4) l d(1) junk
    by (auto simp: parse_decode_chunked_def Let_def unread_def)
qed

text \<open>
  C5: The decoder of chunked bodies refines an automaton that reads one byte at a time: the output is at
  the front of the buffer, the bytes that were not read follow it, the new length, the result and the
  state are those of the automaton, and the buffer keeps its size.
\<close>
theorem decode_chunked_refines:
  assumes "ch_state st = chunk_data \<longrightarrow> ch_length st \<noteq> 0" "chunk_bytes st buffer = (st', out, r, rest)"
  shows "\<exists>junk. parse_decode_chunked st buffer = (r, st', out @ rest @ junk, length out)
           \<and> length (out @ rest @ junk) = length buffer"
  using assms by (rule decode_refines)

definition example_chunks :: string where
  "example_chunks = ''3'' @ [CR, LF] @ ''abc'' @ [CR, LF] @ ''0'' @ [CR, LF, CR, LF] @ ''x''"

theorem decode_chunked_refines_witness:
  "\<exists>junk. fst (parse_decode_chunked prepare_for_chunked_parsing example_chunks) = 1 \<and>
     fst (snd (snd (parse_decode_chunked prepare_for_chunked_parsing example_chunks))) = ''abcx'' @ junk"
proof -
  have "snd (chunk_bytes prepare_for_chunked_parsing example_chunks) = (''abc'', 1, ''x'')" by code_simp
  then obtain st' where st': "chunk_bytes prepare_for_chunked_parsing example_chunks = (st', ''abc'', 1, ''x'')"
    by (metis prod.collapse)
  have "ch_state prepare_for_chunked_parsing = chunk_data \<longrightarrow> ch_length prepare_for_chunked_parsing \<noteq> 0"
    by code_simp
  from decode_chunked_refines [OF this st'] show ?thesis by auto
qed

text \<open>The result \<^verbatim>\<open>-2\<close> means that every byte was read.\<close>

lemma chunk_bytes_more: "chunk_bytes st s = (st', out, - 2, rest) \<Longrightarrow> rest = []"
proof (induction st s arbitrary: out rule: chunk_bytes.induct)
  case (2 st c s)
  then show ?case
    by (cases "chunk_byte st c") (auto simp: emit_def split: prod.splits)
qed simp

text \<open>The state keeps its invariant.\<close>

lemma chunk_byte_ok:
  assumes "ch_state st = chunk_data \<longrightarrow> ch_length st \<noteq> 0"
  shows "case chunk_byte st c of
           Feed st' out \<Rightarrow> ch_state st' = chunk_data \<longrightarrow> ch_length st' \<noteq> 0
         | Bad st' \<Rightarrow> ch_state st' = chunk_data \<longrightarrow> ch_length st' \<noteq> 0
         | Last st' \<Rightarrow> ch_state st' = chunk_data \<longrightarrow> ch_length st' \<noteq> 0"
  using assms by (auto simp: chunk_byte_def ext_byte_def split: chunked_status.splits option.splits)

lemma chunk_bytes_ok:
  "ch_state st = chunk_data \<longrightarrow> ch_length st \<noteq> 0 \<Longrightarrow>
   ch_state (fst (chunk_bytes st s)) = chunk_data \<longrightarrow> ch_length (fst (chunk_bytes st s)) \<noteq> 0"
proof (induction st s rule: chunk_bytes.induct)
  case (2 st c s)
  then show ?case using chunk_byte_ok [OF 2(2), of c]
    by (cases "chunk_byte st c") (auto simp: emit_def split: prod.splits)
qed simp

text \<open>
  C22: A chunked body can be fed in pieces: when the decoder asks for more bytes, decoding the second piece
  in the state it has left gives the state, the result and the rest of the output that decoding both pieces
  at once gives.
\<close>
theorem decode_chunked_resume:
  assumes "ch_state st = chunk_data \<longrightarrow> ch_length st \<noteq> 0"
    and "parse_decode_chunked st a = (- 2, st1, a', n)" "parse_decode_chunked st1 b = (r, st2, b', m)"
  shows "\<exists>c. parse_decode_chunked st (a @ b) = (r, st2, c, n + m) \<and> take (n + m) c = take n a' @ take m b'"
proof -
  obtain s1 o1 r1 rest1 where a: "chunk_bytes st a = (s1, o1, r1, rest1)" using prod_cases4 by blast
  obtain j1 where j1: "parse_decode_chunked st a = (r1, s1, o1 @ rest1 @ j1, length o1)"
    using decode_refines [OF assms(1) a] by blast
  have e1: "r1 = - 2" "s1 = st1" "rest1 = []" "n = length o1" "take n a' = o1"
    using j1 assms(2) a chunk_bytes_more [of st a s1 o1 rest1] by auto
  have ok: "ch_state st1 = chunk_data \<longrightarrow> ch_length st1 \<noteq> 0"
    using chunk_bytes_ok [OF assms(1), of a] a e1(2) by auto
  obtain s2 o2 r2 rest2 where b: "chunk_bytes st1 b = (s2, o2, r2, rest2)" using prod_cases4 by blast
  obtain j2 where j2: "parse_decode_chunked st1 b = (r2, s2, o2 @ rest2 @ j2, length o2)"
    using decode_refines [OF ok b] by blast
  have e2: "r2 = r" "s2 = st2" "m = length o2" "take m b' = o2" using j2 assms(3) by auto
  have "chunk_bytes st (a @ b) = (s2, o1 @ o2, r2, rest2)"
    using chunk_bytes_append [of st a st1 o1 b] a b e1 by simp
  then obtain j where "parse_decode_chunked st (a @ b) = (r2, s2, (o1 @ o2) @ rest2 @ j, length (o1 @ o2))"
    using decode_refines [OF assms(1)] by blast
  then show ?thesis using e1 e2 by auto
qed

theorem decode_chunked_resume_witness:
  "\<exists>c. parse_decode_chunked prepare_for_chunked_parsing
          ((''3'' @ [CR, LF] @ ''ab'') @ ''c'' @ [CR, LF] @ ''0'' @ [CR, LF, CR, LF]) =
        (0, \<lparr>ch_length = 0, ch_state = chunk_head, ch_consume_trailer = True, ch_hex_count = 0\<rparr>, c, 3) \<and>
     take 3 c = ''abc''"
proof -
  let ?st = "\<lparr>ch_length = 1, ch_state = chunk_data, ch_consume_trailer = True, ch_hex_count = 0\<rparr>"
  have a: "parse_decode_chunked prepare_for_chunked_parsing (''3'' @ [CR, LF] @ ''ab'') =
      (- 2, ?st, ''ab'' @ [LF] @ ''ab'', 2)" by code_simp
  have b: "parse_decode_chunked ?st (''c'' @ [CR, LF] @ ''0'' @ [CR, LF, CR, LF]) =
      (0, \<lparr>ch_length = 0, ch_state = chunk_head, ch_consume_trailer = True, ch_hex_count = 0\<rparr>,
       ''c'' @ [CR, LF] @ ''0'' @ [CR, LF, CR, LF], 1)" by code_simp
  have "ch_state prepare_for_chunked_parsing = chunk_data \<longrightarrow> ch_length prepare_for_chunked_parsing \<noteq> 0"
    by code_simp
  from decode_chunked_resume [OF this a b] show ?thesis by (auto simp: numeral_2_eq_2 numeral_3_eq_3)
qed

section \<open>The invariant of the state\<close>

text \<open>
  The states a decoder can be in: those that the calls of \<^verbatim>\<open>parse_decode_chunked\<close> lead to from the
  prepared one.
\<close>

inductive chunk_reachable :: "chunked_state \<Rightarrow> bool" where
  prepared: "chunk_reachable prepare_for_chunked_parsing"
| decoded: "chunk_reachable st \<Longrightarrow> parse_decode_chunked st buffer = (r, st', buffer', n) \<Longrightarrow> chunk_reachable st'"

definition chunked_ok :: "chunked_state \<Rightarrow> bool" where
  "chunked_ok st \<longleftrightarrow> ch_hex_count st \<le> 16 \<and>
     (case ch_state st of
        chunk_size \<Rightarrow> unat (ch_length st) < 16 ^ ch_hex_count st
      | chunk_ext \<Rightarrow> ch_hex_count st = 0
      | chunk_data \<Rightarrow> ch_length st \<noteq> 0 \<and> ch_hex_count st = 0
      | _ \<Rightarrow> ch_length st = 0 \<and> ch_hex_count st = 0)"

lemma hex_digit_less: "hex_digit c = Some v \<Longrightarrow> v < 16"
  by (auto simp: hex_digit_def Let_def split: if_splits)

lemma size_no_overflow:
  fixes w :: u64
  assumes "unat w < 16 ^ n" "n < 16" "v < 16"
  shows "unat (w * 16 + word_of_nat v) = unat w * 16 + v" "unat w * 16 + v < 16 ^ (n + 1)"
proof -
  have "unat w * 16 + v < (unat w + 1) * 16" using assms(3) by simp
  also have "\<dots> \<le> 16 ^ n * 16" using assms(1) by (intro mult_right_mono) auto
  finally show b: "unat w * 16 + v < 16 ^ (n + 1)" by simp
  have "(16::nat) ^ (n + 1) \<le> 16 ^ 16" using assms(2) by (intro power_increasing) auto
  with b have "unat w * 16 + v < 2 ^ 64" by simp
  moreover have "w * 16 + word_of_nat v = word_of_nat (unat w * 16 + v)" by simp
  ultimately show "unat (w * 16 + word_of_nat v) = unat w * 16 + v"
    by (simp only: unat_of_nat) simp
qed

lemma chunk_byte_keeps:
  assumes "chunked_ok st"
  shows "case chunk_byte st c of Feed st' out \<Rightarrow> chunked_ok st' | Bad st' \<Rightarrow> chunked_ok st' | Last st' \<Rightarrow> chunked_ok st'"
proof (cases "ch_state st")
  case chunk_size
  show ?thesis
  proof (cases "hex_digit c")
    case (Some v)
    then show ?thesis
      using size_no_overflow [of "ch_length st" "ch_hex_count st" v] hex_digit_less assms chunk_size
      by (auto simp: chunk_byte_def chunked_ok_def)
  qed (use assms chunk_size in \<open>auto simp: chunk_byte_def ext_byte_def chunked_ok_def\<close>)
qed (use assms in \<open>auto simp: chunk_byte_def ext_byte_def chunked_ok_def\<close>)

lemma chunk_bytes_keeps: "chunked_ok st \<Longrightarrow> chunked_ok (fst (chunk_bytes st s))"
proof (induction st s rule: chunk_bytes.induct)
  case (2 st c s)
  then show ?case using chunk_byte_keeps [OF 2(2), of c]
    by (cases "chunk_byte st c") (auto simp: emit_def split: prod.splits)
qed simp

text \<open>
  C8: The invariant of the decoder: in every state that calls can lead to, at most sixteen digits of a
  size have been read and its value is below the power of sixteen with as many digits, so that the
  length never overflows; outside the size no digits are counted, and only in the data of a chunk is a
  length pending.
\<close>
theorem chunk_reachable_ok:
  assumes "chunk_reachable st"
  shows "chunked_ok st"
  using assms
proof induction
  case prepared
  then show ?case by (simp add: chunked_ok_def prepare_for_chunked_parsing_def)
next
  case (decoded st buffer r st' buffer' n)
  have "ch_state st = chunk_data \<longrightarrow> ch_length st \<noteq> 0"
    using decoded.IH by (auto simp: chunked_ok_def)
  from decode_refines [OF this] have "st' = fst (chunk_bytes st buffer)"
    using decoded.hyps(2) by (metis fst_conv prod_cases4 prod.inject)
  then show ?case using chunk_bytes_keeps [OF decoded.IH] by simp
qed

theorem chunk_reachable_ok_witness:
  "chunked_ok \<lparr>ch_length = 1, ch_state = chunk_data, ch_consume_trailer = True, ch_hex_count = 0\<rparr>"
proof -
  have "parse_decode_chunked prepare_for_chunked_parsing (''3'' @ [CR, LF] @ ''ab'') =
      (- 2, \<lparr>ch_length = 1, ch_state = chunk_data, ch_consume_trailer = True, ch_hex_count = 0\<rparr>,
       ''ab'' @ [LF] @ ''ab'', 2)" by code_simp
  from chunk_reachable_ok [OF decoded [OF prepared this]] show ?thesis .
qed

section \<open>Encoding and decoding\<close>

definition hex_value :: "nat \<Rightarrow> string \<Rightarrow> nat" where
  "hex_value = foldl (\<lambda>v c. v * 16 + the (hex_digit c))"

text \<open>
  A chunk: the digits of its size, an extension with the line end, the data and a line end.  The last
  chunk has the size zero.
\<close>

type_synonym chunk = "string \<times> string \<times> string"

definition chunk_ok :: "chunk \<Rightarrow> bool" where
  "chunk_ok = (\<lambda>(hx, ext, data).
     0 < length hx \<and> length hx \<le> 16 \<and> (\<forall>c\<in>set hx. hex_digit c \<noteq> None) \<and> hex_value 0 hx = length data \<and>
     LF \<notin> set ext \<and> (ext = [] \<or> hex_digit (hd ext) = None))"

definition print_chunk :: "chunk \<Rightarrow> string" where
  "print_chunk = (\<lambda>(hx, ext, data). hx @ ext @ [LF] @ data @ [CR, LF])"

definition data_of :: "chunk \<Rightarrow> string" where
  "data_of = (\<lambda>(hx, ext, data). data)"

lemma chunk_bytes_hex:
  assumes "\<forall>c\<in>set hx. hex_digit c \<noteq> None" "ch_state st = chunk_size" "ch_hex_count st + length hx \<le> 16"
  shows "chunk_bytes st (hx @ s) =
    chunk_bytes (st\<lparr>ch_length := word_of_nat (hex_value (unat (ch_length st)) hx),
                    ch_hex_count := ch_hex_count st + length hx\<rparr>) s"
  using assms
proof (induction hx arbitrary: st)
  case (Cons c hx)
  then obtain v where v: "hex_digit c = Some v" by auto
  let ?st = "st\<lparr>ch_length := ch_length st * 16 + word_of_nat v, ch_hex_count := ch_hex_count st + 1\<rparr>"
  have "word_of_nat (hex_value (unat w) hx) = (word_of_nat (hex_value n hx) :: u64)" if "w = word_of_nat n"
    for w :: u64 and n
    using that
  proof (induction hx arbitrary: w n)
    case (Cons d hx)
    have "word_of_nat (hex_value (unat (w * 16 + word_of_nat (the (hex_digit d)))) hx) =
        (word_of_nat (hex_value (unat w * 16 + the (hex_digit d)) hx) :: u64)"
      by (rule Cons.IH) simp
    moreover have "word_of_nat (hex_value (unat (w * 16 + word_of_nat (the (hex_digit d)))) hx) =
        (word_of_nat (hex_value (n * 16 + the (hex_digit d)) hx) :: u64)"
      by (rule Cons.IH) (simp add: Cons.prems)
    ultimately show ?case by (simp add: hex_value_def)
  qed (simp add: hex_value_def)
  from this [of "ch_length ?st" "unat (ch_length st) * 16 + v"]
  show ?case using Cons.IH [of ?st] Cons.prems v by (simp add: chunk_byte_def hex_value_def)
qed (simp add: hex_value_def)

lemma chunk_bytes_ext:
  assumes "ch_state st = chunk_ext" "LF \<notin> set ext"
  shows "chunk_bytes st (ext @ LF # s) = chunk_bytes st (LF # s)"
proof (rule chunk_bytes_stay)
  show "\<forall>c\<in>set ext. chunk_byte st c = Feed st []"
    using assms by (auto simp: chunk_byte_def ext_byte_def)
qed

text \<open>After the digits, the first other character is read as if the extension had begun.\<close>

lemma chunk_bytes_size_ext:
  assumes "ch_state st = chunk_size" "ch_hex_count st \<noteq> 0" "s \<noteq> []" "hex_digit (hd s) = None"
  shows "chunk_bytes st s = chunk_bytes (st\<lparr>ch_hex_count := 0, ch_state := chunk_ext\<rparr>) s"
proof -
  obtain c s' where "s = c # s'" using assms(3) by (cases s) auto
  then show ?thesis using assms by (auto simp: chunk_byte_def ext_byte_def)
qed

lemma hex_value_less: "\<forall>c\<in>set hx. hex_digit c \<noteq> None \<Longrightarrow> hex_value v hx < (v + 1) * 16 ^ length hx"
proof (induction hx arbitrary: v)
  case (Cons c hx)
  then obtain d where d: "hex_digit c = Some d" "d < 16" using hex_digit_less by auto
  have "hex_value v (c # hx) < (v * 16 + d + 1) * 16 ^ length hx"
    using Cons d by (simp add: hex_value_def)
  also have "\<dots> \<le> ((v + 1) * 16) * 16 ^ length hx" using d(2) by (intro mult_right_mono) auto
  finally show ?case by (simp add: algebra_simps)
qed (simp add: hex_value_def)

abbreviation at_chunk :: chunked_state where "at_chunk \<equiv> prepare_for_chunked_parsing"

lemma chunk_bytes_head:
  assumes "chunk_ok (hx, ext, data)"
  shows "chunk_bytes at_chunk (hx @ ext @ LF # s) =
    chunk_bytes (at_chunk\<lparr>ch_length := word_of_nat (length data),
                          ch_state := if data = [] then chunk_head else chunk_data\<rparr>) s"
    and "unat (word_of_nat (length data) :: u64) = length data"
proof -
  have ok: "0 < length hx" "length hx \<le> 16" "\<forall>c\<in>set hx. hex_digit c \<noteq> None" "hex_value 0 hx = length data"
    "LF \<notin> set ext" "hex_digit (hd (ext @ [LF])) = None"
    using assms by (auto simp: chunk_ok_def hex_digit_def hd_append)
  have "length data < 16 ^ length hx" using hex_value_less [OF ok(3), of 0] ok(4) by simp
  also have "(16::nat) ^ length hx \<le> 16 ^ 16" using ok(2) by (intro power_increasing) auto
  finally have "length data < 2 ^ 64" by simp
  then show len: "unat (word_of_nat (length data) :: u64) = length data" by (simp only: unat_of_nat) simp
  let ?w = "word_of_nat (length data) :: u64"
  let ?st = "at_chunk\<lparr>ch_length := ?w, ch_hex_count := length hx\<rparr>"
  let ?e = "at_chunk\<lparr>ch_length := ?w, ch_state := chunk_ext\<rparr>"
  have "chunk_bytes at_chunk (hx @ ext @ LF # s) = chunk_bytes ?st (ext @ LF # s)"
    using chunk_bytes_hex [OF ok(3), of at_chunk "ext @ LF # s"] ok(2,4)
    by (simp add: prepare_for_chunked_parsing_def)
  also have "\<dots> = chunk_bytes ?e (ext @ LF # s)"
    using chunk_bytes_size_ext [of ?st "ext @ LF # s"] ok(1,6)
    by (cases ext) (simp_all add: prepare_for_chunked_parsing_def)
  also have "\<dots> = chunk_bytes ?e (LF # s)" using ok(5) by (intro chunk_bytes_ext) auto
  also have "\<dots> = chunk_bytes (at_chunk\<lparr>ch_length := ?w, ch_state := if data = [] then chunk_head else chunk_data\<rparr>) s"
    using len by (auto simp: chunk_byte_def ext_byte_def prepare_for_chunked_parsing_def)
  finally show "chunk_bytes at_chunk (hx @ ext @ LF # s) =
    chunk_bytes (at_chunk\<lparr>ch_length := ?w, ch_state := if data = [] then chunk_head else chunk_data\<rparr>) s" .
qed

lemma chunk_bytes_chunk:
  assumes "chunk_ok c" "data_of c \<noteq> []"
  shows "chunk_bytes at_chunk (print_chunk c @ s) = emit (data_of c) (chunk_bytes at_chunk s)"
proof -
  obtain hx ext data where c: "c = (hx, ext, data)" using prod_cases3 by blast
  then have data: "data \<noteq> []" "unat (word_of_nat (length data) :: u64) = length data"
    using chunk_bytes_head(2) assms by (auto simp: data_of_def)
  let ?st = "at_chunk\<lparr>ch_length := word_of_nat (length data), ch_state := chunk_data\<rparr>"
  have "chunk_bytes at_chunk (print_chunk c @ s) = chunk_bytes ?st (data @ [CR, LF] @ s)"
    using chunk_bytes_head(1) [of hx ext data "data @ [CR, LF] @ s"] assms(1) data(1) by (simp add: c print_chunk_def)
  also have "\<dots> = emit data (chunk_bytes (?st\<lparr>ch_length := 0, ch_state := chunk_end\<rparr>) (CR # LF # s))"
  proof -
    have "ch_length ?st \<noteq> 0" using data by (metis chunked_state.select_convs(1) chunked_state.update_convs(1,2)
          chunked_state.surjective length_0_conv unat_0)
    then show ?thesis using chunk_bytes_data_part [of ?st "data @ [CR, LF] @ s"] data(2) by simp
  qed
  finally show ?thesis
    by (simp add: c data_of_def chunk_byte_def prepare_for_chunked_parsing_def)
qed

lemma chunk_bytes_chunks:
  assumes "\<forall>c\<in>set chunks. chunk_ok c \<and> data_of c \<noteq> []" "chunk_ok (hx, ext, [])"
  shows "chunk_bytes at_chunk (concat (map print_chunk chunks) @ print_chunk (hx, ext, []) @ rest) =
         (at_chunk\<lparr>ch_state := chunk_head\<rparr>, concat (map data_of chunks), int (length rest), rest)"
  using assms(1)
proof (induction chunks)
  case Nil
  show ?case
    using chunk_bytes_head(1) [OF assms(2), of "[CR, LF] @ rest"]
    by (simp add: print_chunk_def chunk_byte_def prepare_for_chunked_parsing_def)
next
  case (Cons c chunks)
  then show ?case using chunk_bytes_chunk [of c] by simp
qed

text \<open>
  C23: A body that was encoded in chunks is decoded: whatever the spelling of the sizes (up to sixteen
  digits) and the extensions, the front of the buffer is the data of the chunks, the result is the
  number of bytes after the body, and those bytes follow the data.
\<close>
theorem chunked_round_trip:
  assumes "\<forall>c\<in>set chunks. chunk_ok c \<and> data_of c \<noteq> []" "chunk_ok (hx, ext, [])"
  shows "\<exists>st junk. parse_decode_chunked prepare_for_chunked_parsing
           (concat (map print_chunk chunks) @ print_chunk (hx, ext, []) @ rest) =
         (int (length rest), st, concat (map data_of chunks) @ rest @ junk, length (concat (map data_of chunks)))"
proof -
  have "ch_state at_chunk = chunk_data \<longrightarrow> ch_length at_chunk \<noteq> 0" by (simp add: prepare_for_chunked_parsing_def)
  from decode_refines [OF this chunk_bytes_chunks [OF assms]] show ?thesis by blast
qed

theorem chunked_round_trip_witness:
  "\<exists>st junk. parse_decode_chunked prepare_for_chunked_parsing
       (''0A;x=y'' @ [CR, LF] @ ''0123456789'' @ [CR, LF] @ ''0'' @ [CR, LF, CR, LF] @ ''GET'') =
     (3, st, ''0123456789'' @ ''GET'' @ junk, 10)"
proof -
  have "chunk_ok (''0A'', '';x=y'' @ [CR], ''0123456789'')" "chunk_ok (''0'', [CR], [])" by code_simp+
  then show ?thesis
    using chunked_round_trip [of "[(''0A'', '';x=y'' @ [CR], ''0123456789'')]" "''0''" "[CR]" "''GET''"]
    by (simp add: data_of_def print_chunk_def eval_nat_numeral)
qed

text \<open>
  A size of more than sixteen digits is an error, whatever follows it, and so is a chunk that does not
  begin with a digit.
\<close>
theorem chunk_size_limit:
  "((\<forall>c\<in>set hx. hex_digit c \<noteq> None) \<and> length hx = 17 \<longrightarrow>
     fst (parse_decode_chunked prepare_for_chunked_parsing (hx @ s)) = - 1) \<and>
   (hex_digit c = None \<longrightarrow> fst (parse_decode_chunked prepare_for_chunked_parsing (c # s)) = - 1)"
proof -
  have at: "ch_state at_chunk = chunk_data \<longrightarrow> ch_length at_chunk \<noteq> 0" by (simp add: prepare_for_chunked_parsing_def)
  have *: "fst (parse_decode_chunked at_chunk s) = - 1" if "\<exists>st out rest. chunk_bytes at_chunk s = (st, out, - 1, rest)" for s
    using decode_refines [OF at] that by fastforce
  have "fst (parse_decode_chunked at_chunk (hx @ s)) = - 1"
    if hx: "\<forall>c\<in>set hx. hex_digit c \<noteq> None" "length hx = 17"
  proof -
    obtain h c where h: "hx = h @ [c]" "length h = 16" using hx(2) by (cases hx rule: rev_cases) auto
    have "chunk_bytes at_chunk (h @ c # s) =
        chunk_bytes (at_chunk\<lparr>ch_length := word_of_nat (hex_value 0 h), ch_hex_count := 16\<rparr>) (c # s)"
      using chunk_bytes_hex [of h at_chunk "c # s"] hx(1) h by (simp add: prepare_for_chunked_parsing_def)
    moreover obtain v where "hex_digit c = Some v" using hx(1) h by auto
    ultimately show ?thesis by (intro *) (simp add: h chunk_byte_def prepare_for_chunked_parsing_def)
  qed
  moreover have "hex_digit c = None \<Longrightarrow> fst (parse_decode_chunked at_chunk (c # s)) = - 1"
    by (intro *) (simp add: chunk_byte_def prepare_for_chunked_parsing_def)
  ultimately show ?thesis by blast
qed

theorem chunk_size_limit_witness:
  "fst (parse_decode_chunked prepare_for_chunked_parsing (replicate 17 (CHR ''f'') @ [CR, LF])) = - 1"
proof -
  have "hex_digit (CHR ''f'') \<noteq> None" by code_simp
  then show ?thesis using chunk_size_limit [of "replicate 17 (CHR ''f'')" "[CR, LF]"] by auto
qed

end
