(* ===== verification/Web_Codec.thy ===== *)
theory Web_Codec
  imports Endian
begin

text \<open>
  Web socket frames in \<^verbatim>\<open>network/http.cpp\<close>: the incremental parser \<^verbatim>\<open>web_codec\<close> and the frame that
  \<^verbatim>\<open>web_socket_frame::send\<close> writes.  The pointer \<^verbatim>\<open>data\<close> and the count \<^verbatim>\<open>size\<close> are the list of the bytes that
  are left.
\<close>

unbundle bit_operations_syntax

section \<open>The state\<close>

datatype web_socket_op = ws_next | ws_text | ws_binary | ws_close | ws_ping | ws_pong

definition op_code :: "web_socket_op \<Rightarrow> u8" where
  "op_code op = (case op of ws_next \<Rightarrow> 0x00 | ws_text \<Rightarrow> 0x01 | ws_binary \<Rightarrow> 0x02
     | ws_close \<Rightarrow> 0x08 | ws_ping \<Rightarrow> 0x09 | ws_pong \<Rightarrow> 0x0A)"

definition op_of :: "u8 \<Rightarrow> web_socket_op" where
  "op_of b = (if b = 0x01 then ws_text else if b = 0x02 then ws_binary else if b = 0x08 then ws_close
     else if b = 0x09 then ws_ping else if b = 0x0A then ws_pong else ws_next)"

text \<open>\<open>bc_length16 i\<close> and \<open>bc_length64 i\<close> stand for \<^verbatim>\<open>length160\<close> to \<^verbatim>\<open>length647\<close>, \<open>bc_mask i\<close> for \<^verbatim>\<open>mask0\<close> to \<^verbatim>\<open>mask3\<close>.\<close>

datatype bytecode = bc_begin | bc_length | bc_length16 nat | bc_length64 nat | bc_mask nat | bc_end

record web_codec =
  wc_queue :: "(web_socket_op \<times> u8 list) list"
  wc_remains :: u64
  wc_opcode :: web_socket_op
  wc_state :: bytecode
  wc_mask :: "u8 list"
  wc_fragment :: bool
  wc_final :: bool
  wc_control :: bool
  wc_masked :: bool
  wc_masks :: u8

text \<open>The constructor sets two members; \<open>memory\<close> is what the others hold.\<close>

definition new_web_codec :: "web_codec \<Rightarrow> web_codec" where
  "new_web_codec memory = memory\<lparr>wc_queue := [], wc_state := bc_begin, wc_fragment := False\<rparr>"

section \<open>The cases\<close>

datatype web_flow =
    Stop web_codec            \<comment> \<open>\<^verbatim>\<open>return !queue.empty();\<close>\<close>
  | Break web_codec "u8 list"   \<comment> \<open>the end of the \<^verbatim>\<open>switch\<close>\<close>
  | Fetch web_codec "u8 list"   \<comment> \<open>\<^verbatim>\<open>goto fetch_payload;\<close>\<close>

definition case_begin :: "web_codec \<Rightarrow> u8 \<Rightarrow> u8 list \<Rightarrow> web_flow" where
  "case_begin c index data =
     (let opb = index AND 0x0F
      in if index AND 0x70 \<noteq> 0 then Stop c
         else let c = c\<lparr>wc_final := index AND 0x80 \<noteq> 0\<rparr>
              in if opb = 0 then
                   if \<not> wc_fragment c then Stop c
                   else Break (c\<lparr>wc_control := False, wc_state := bc_length\<rparr>) data
                 else if opb AND 0x8 \<noteq> 0 then
                   if opb \<noteq> op_code ws_ping \<and> opb \<noteq> op_code ws_pong \<and> opb \<noteq> op_code ws_close then Stop c
                   else if \<not> wc_final c then Stop c
                   else Break (c\<lparr>wc_control := True, wc_opcode := op_of opb, wc_state := bc_length\<rparr>) data
                 else
                   if opb \<noteq> op_code ws_text \<and> opb \<noteq> op_code ws_binary then Stop c
                   else Break (c\<lparr>wc_control := False, wc_fragment := \<not> wc_final c, wc_opcode := op_of opb,
                                 wc_state := bc_length\<rparr>) data)"

definition payload_state :: "web_codec \<Rightarrow> bytecode" where
  "payload_state c = (if wc_masked c then bc_mask 0 else bc_end)"

definition emplace :: "web_codec \<Rightarrow> web_socket_op \<Rightarrow> u8 list \<Rightarrow> web_codec" where
  "emplace c op message = c\<lparr>wc_queue := wc_queue c @ [(op, message)]\<rparr>"

definition case_length :: "web_codec \<Rightarrow> u8 \<Rightarrow> u8 list \<Rightarrow> web_flow" where
  "case_length c index data =
     (let len = index AND 0x7F;
          c = c\<lparr>wc_masked := index AND 0x80 \<noteq> 0, wc_masks := 0\<rparr>
      in if wc_control c \<and> len > 125 then Stop c
         else let c = (if wc_control c \<or> len < 126 then c\<lparr>wc_remains := ucast len, wc_state := payload_state c\<rparr>
                       else if len = 126 then c\<lparr>wc_state := bc_length16 0\<rparr>
                       else c\<lparr>wc_state := bc_length64 0\<rparr>)
              in if wc_state c = bc_end \<and> wc_remains c = 0 then Fetch (emplace c (wc_opcode c) []) data
                 else Break c data)"

text \<open>The bytes of an extended length, the most significant one first.\<close>

definition case_length16 :: "nat \<Rightarrow> web_codec \<Rightarrow> u8 \<Rightarrow> u8 list \<Rightarrow> web_flow" where
  "case_length16 i c index data =
     (if i = 0 then Break (c\<lparr>wc_remains := push_bit 8 (ucast index), wc_state := bc_length16 1\<rparr>) data
      else let c = c\<lparr>wc_remains := wc_remains c OR ucast index, wc_state := payload_state c\<rparr>
           in if wc_remains c < 126 then Stop c else Break c data)"

definition case_length64 :: "nat \<Rightarrow> web_codec \<Rightarrow> u8 \<Rightarrow> u8 list \<Rightarrow> web_flow" where
  "case_length64 i c index data =
     (if i = 0 then Break (c\<lparr>wc_remains := push_bit 56 (ucast index), wc_state := bc_length64 1\<rparr>) data
      else if i < 7 then
        Break (c\<lparr>wc_remains := wc_remains c OR push_bit (56 - 8 * i) (ucast index), wc_state := bc_length64 (i + 1)\<rparr>) data
      else let c = c\<lparr>wc_remains := wc_remains c OR ucast index, wc_state := payload_state c\<rparr>
           in if wc_remains c < 65536 then Stop c else Break c data)"

definition case_mask :: "nat \<Rightarrow> web_codec \<Rightarrow> u8 \<Rightarrow> u8 list \<Rightarrow> web_flow" where
  "case_mask i c index data =
     (let c = c\<lparr>wc_mask := (wc_mask c)[i := index]\<rparr>
      in if i < 3 then Break (c\<lparr>wc_state := bc_mask (i + 1)\<rparr>) data
         else let c = c\<lparr>wc_state := bc_end\<rparr>
              in if wc_remains c = 0 then Fetch (emplace c (wc_opcode c) []) data else Break c data)"

text \<open>\<^verbatim>\<open>data[i] ^= mask[masks++ % 4]\<close>, with a count of eight bits.\<close>

fun unmask :: "u8 list \<Rightarrow> u8 \<Rightarrow> u8 list \<Rightarrow> u8 list \<times> u8" where
  "unmask key masks [] = ([], masks)"
| "unmask key masks (b # bs) =
     (let (bs', masks') = unmask key (masks + 1) bs in ((b XOR key ! unat (masks mod 4)) # bs', masks'))"

fun append_front :: "(web_socket_op \<times> u8 list) list \<Rightarrow> u8 list \<Rightarrow> (web_socket_op \<times> u8 list) list" where
  "append_front [] message = []"
| "append_front ((op, m) # queue) message = (op, m @ message) # queue"

definition case_payload :: "web_codec \<Rightarrow> u8 list \<Rightarrow> web_flow" where
  "case_payload c data =
     (let len = (if unat (wc_remains c) < length data then unat (wc_remains c) else length data);
          (message, masks) = (if wc_masked c then unmask (wc_mask c) (wc_masks c) (take len data)
                              else (take len data, wc_masks c));
          c = c\<lparr>wc_masks := masks\<rparr>;
          c = (if wc_opcode c = ws_next \<and> wc_queue c \<noteq> [] then c\<lparr>wc_queue := append_front (wc_queue c) message\<rparr>
               else emplace c (if wc_opcode c = ws_next then ws_text else wc_opcode c) message);
          c = c\<lparr>wc_opcode := ws_next, wc_remains := wc_remains c - word_of_nat len\<rparr>
      in if wc_remains c = 0 then Fetch c (drop len data) else Break c (drop len data))"

definition web_switch :: "web_codec \<Rightarrow> u8 \<Rightarrow> u8 list \<Rightarrow> web_flow" where
  "web_switch c index data =
     (case wc_state c of
        bc_begin \<Rightarrow> case_begin c index data
      | bc_length \<Rightarrow> case_length c index data
      | bc_length16 i \<Rightarrow> case_length16 i c index data
      | bc_length64 i \<Rightarrow> case_length64 i c index data
      | bc_mask i \<Rightarrow> case_mask i c index data
      | bc_end \<Rightarrow> case_payload c (index # data))"

section \<open>The loop\<close>

text \<open>A byte is read, or a payload of no bytes ends and the next frame begins.\<close>

definition web_measure :: "web_codec \<Rightarrow> u8 list \<Rightarrow> nat" where
  "web_measure c data = 2 * length data + (if wc_state c = bc_end then 1 else 0)"

lemma case_begin_data:
  "case_begin c index data = Break c' d \<Longrightarrow> d = data" "case_begin c index data \<noteq> Fetch c' d"
  by (auto simp: case_begin_def Let_def split: if_splits)

lemma case_length_data:
  "case_length c index data = Break c' d \<Longrightarrow> d = data" "case_length c index data = Fetch c' d \<Longrightarrow> d = data"
  by (auto simp: case_length_def Let_def split: if_splits)

lemma case_length16_data:
  "case_length16 i c index data = Break c' d \<Longrightarrow> d = data" "case_length16 i c index data \<noteq> Fetch c' d"
  by (auto simp: case_length16_def Let_def split: if_splits)

lemma case_length64_data:
  "case_length64 i c index data = Break c' d \<Longrightarrow> d = data" "case_length64 i c index data \<noteq> Fetch c' d"
  by (auto simp: case_length64_def Let_def split: if_splits)

lemma case_mask_data:
  "case_mask i c index data = Break c' d \<Longrightarrow> d = data" "case_mask i c index data = Fetch c' d \<Longrightarrow> d = data"
  by (auto simp: case_mask_def Let_def split: if_splits)

lemma case_payload_data:
  "case_payload c (index # data) = Break c' d \<Longrightarrow> length d < Suc (length data)"
  "case_payload c (index # data) = Fetch c' d \<Longrightarrow> length d \<le> Suc (length data)"
  by (auto simp: case_payload_def Let_def unat_gt_0 emplace_def split: if_splits prod.splits)

lemma web_switch_measure:
  "web_switch c index data = Break c' d \<Longrightarrow> web_measure c' d < web_measure c (index # data)"
  "web_switch c index data = Fetch c' d \<Longrightarrow> web_measure (c'\<lparr>wc_state := bc_begin\<rparr>) d < web_measure c (index # data)"
  by (auto simp: web_switch_def web_measure_def case_begin_data(2) case_length16_data(2) case_length64_data(2)
      split: bytecode.splits
      dest!: case_begin_data(1) case_length_data case_length16_data(1) case_length64_data(1) case_mask_data case_payload_data)

function web_loop :: "web_codec \<Rightarrow> u8 list \<Rightarrow> web_codec \<times> bool" where
  "web_loop c [] = (c, wc_queue c \<noteq> [])"
| "web_loop c (index # data) =
     (case web_switch c index data of
        Stop c \<Rightarrow> (c, wc_queue c \<noteq> [])
      | Break c data \<Rightarrow> web_loop c data
      | Fetch c data \<Rightarrow>
          if \<not> wc_control c \<and> \<not> wc_final c then (c, wc_queue c \<noteq> [])
          else let c = c\<lparr>wc_state := bc_begin\<rparr>
               in if data \<noteq> [] then web_loop c data else (c, True))"
  by pat_completeness auto
termination
  by (relation "measure (\<lambda>(c, data). web_measure c data)") (auto dest: web_switch_measure)

declare web_loop.simps(2) [simp del]

definition parse_frame :: "web_codec \<Rightarrow> u8 list \<Rightarrow> web_codec \<times> bool" where
  "parse_frame c buffer = (if buffer = [] then (c, wc_queue c \<noteq> []) else web_loop c buffer)"

definition get_frame :: "web_codec \<Rightarrow> (web_codec \<times> web_socket_op \<times> u8 list) option" where
  "get_frame c =
     (case wc_queue c of
        [] \<Rightarrow> None
      | (op, message) # queue \<Rightarrow> Some (c\<lparr>wc_queue := queue\<rparr>, op, message))"

section \<open>Sending\<close>

text \<open>
  The header that \<^verbatim>\<open>web_socket_frame::send\<close> writes, followed by the payload as it is: also when a mask is
  given.  \<^verbatim>\<open>htons\<close> and \<^verbatim>\<open>htonl\<close> give the bytes in network order.
\<close>

definition send_header :: "u32 \<Rightarrow> u64 \<Rightarrow> web_socket_op \<Rightarrow> u8 list" where
  "send_header key len opcode =
     (let first = 0x80 + (op_code opcode AND 0xF);
          (second, rest) =
            (if len < 126 then (ucast len, [])
             else if len \<le> 65535 then (126, mem_bytes (to_endianness big (ucast len :: u16)))
             else (127, mem_bytes (to_endianness big (ucast (drop_bit 32 len) :: u32)) @
                        mem_bytes (to_endianness big (ucast (len AND 0xFFFFFFFF) :: u32))))
      in if key \<noteq> 0 then first # (second OR 0x80) # rest @ mem_bytes key
         else first # second # rest)"

definition send_frame :: "u32 \<Rightarrow> u8 list \<Rightarrow> web_socket_op \<Rightarrow> u8 list" where
  "send_frame key buffer opcode = send_header key (word_of_nat (length buffer)) opcode @ buffer"

end
