(* ===== verification/Web_Codec_Properties.thy ===== *)
theory Web_Codec_Properties
  imports Web_Codec
begin

text \<open>
  Properties of the web socket frames: what is sent is parsed back, frame after frame; a mask given to
  \<^verbatim>\<open>send\<close> garbles the payload; fragmented messages stop the parser.
\<close>

unbundle bit_operations_syntax

section \<open>Bytes of a header\<close>

lemma take_bit_less: "w < 2 ^ k \<Longrightarrow> take_bit k w = w" for w :: "'a::len word"
  by (simp add: take_bit_eq_mod mod_word_less)

lemma byte_flag:
  fixes x :: u8
  assumes "x < 128"
  shows "x AND 0x7F = x" "x AND 0x80 = 0" "(x OR 0x80) AND 0x7F = x" "(x OR 0x80) AND 0x80 \<noteq> 0"
proof -
  have m: "(0x7F::u8) = Bit_Operations.mask 7" by (simp add: mask_eq_exp_minus_1)
  have h: "bit (0x80::u8) n \<longleftrightarrow> n = 7" for n
    using bit_exp_iff [of 7 n, where 'a = u8] by auto
  have x: "take_bit 7 x = x" using assms by (simp add: take_bit_less)
  then have b: "bit x n \<Longrightarrow> n < 7" for n by (metis bit_take_bit_iff)
  show "x AND 0x7F = x" unfolding m using x by (simp add: take_bit_eq_mask)
  show "x AND 0x80 = 0" by (rule bit_eqI, simp only: bit_and_iff bit_or_iff bit_mask_iff h) (auto dest: b)
  show "(x OR 0x80) AND 0x7F = x" unfolding m by (rule bit_eqI, simp only: bit_and_iff bit_or_iff bit_mask_iff h) (auto dest: b)
  have "bit ((x OR 0x80) AND 0x80) 7" by (simp only: bit_and_iff bit_or_iff h) simp
  then show "(x OR 0x80) AND 0x80 \<noteq> 0" by auto
qed

lemma join_bytes16:
  fixes w :: u64
  assumes "w \<le> 65535"
  shows "push_bit 8 (ucast (ucast (drop_bit 8 (ucast w :: u16)) :: u8)) OR ucast (ucast (ucast w :: u16) :: u8) = w"
    (is "?l = w")
proof -
  have w: "take_bit 16 w = w" using assms by (intro take_bit_less) (simp add: word_le_nat_alt word_less_nat_alt)
  show ?thesis
  proof (rule bit_eqI)
    fix n assume "possible_bit TYPE(u64) n"
    have "bit w n \<Longrightarrow> n < 16" using w by (metis bit_take_bit_iff)
    then show "bit ?l n = bit w n" by (auto simp: bit_simps)
  qed
qed

lemma network_bytes16: "mem_bytes (to_endianness big (ucast (w::u64) :: u16)) =
    [ucast (drop_bit 8 (ucast w :: u16)), ucast (ucast w :: u16)]"
  by (simp add: mem_bytes_to_big) (simp add: mem_bytes_def upt_rec)

lemma network_bytes64:
  "mem_bytes (to_endianness big (ucast (drop_bit 32 w) :: u32)) @
   mem_bytes (to_endianness big (ucast (w AND 0xFFFFFFFF) :: u32)) =
   map (\<lambda>i. ucast (drop_bit (56 - 8 * i) w)) [0..<8]" for w :: u64
proof -
  have m: "(0xFFFFFFFF::u64) = Bit_Operations.mask 32" by (simp add: mask_eq_exp_minus_1)
  have b: "ucast (drop_bit k (ucast (drop_bit 32 w) :: u32)) = (ucast (drop_bit (k + 32) w) :: u8)" if "k \<le> 24" for k
    using that by (intro bit_eqI) (auto simp: bit_simps ac_simps)
  have l: "ucast (drop_bit k (ucast (w AND 0xFFFFFFFF) :: u32)) = (ucast (drop_bit k w) :: u8)" if "k \<le> 24" for k
    unfolding m using that by (intro bit_eqI) (auto simp: bit_simps)
  show ?thesis using b [of 0] l [of 0]
    by (simp add: mem_bytes_to_big) (simp add: mem_bytes_def b l upt_rec)
qed

lemma join_bytes64:
  "(((((((push_bit 56 (ucast (ucast (drop_bit 56 w) :: u8)) OR push_bit 48 (ucast (ucast (drop_bit 48 w) :: u8)))
      OR push_bit 40 (ucast (ucast (drop_bit 40 w) :: u8))) OR push_bit 32 (ucast (ucast (drop_bit 32 w) :: u8)))
      OR push_bit 24 (ucast (ucast (drop_bit 24 w) :: u8))) OR push_bit 16 (ucast (ucast (drop_bit 16 w) :: u8)))
      OR push_bit 8 (ucast (ucast (drop_bit 8 w) :: u8))) OR ucast (ucast w :: u8)) = w" (is "?l = w") for w :: u64
proof (rule bit_eqI)
  fix n assume "possible_bit TYPE(u64) n"
  then have "n < 64" by simp
  then consider "n < 8" | "8 \<le> n \<and> n < 16" | "16 \<le> n \<and> n < 24" | "24 \<le> n \<and> n < 32" | "32 \<le> n \<and> n < 40"
    | "40 \<le> n \<and> n < 48" | "48 \<le> n \<and> n < 56" | "56 \<le> n \<and> n < 64" by linarith
  then show "bit ?l n = bit w n" by cases (auto simp: bit_simps)
qed

section \<open>Reading a header\<close>

definition is_control :: "web_socket_op \<Rightarrow> bool" where
  "is_control op \<longleftrightarrow> op = ws_close \<or> op = ws_ping \<or> op = ws_pong"

lemma web_loop_first:
  assumes "op \<noteq> ws_next" "wc_state c = bc_begin"
  shows "web_loop c ((0x80 + (op_code op AND 0xF)) # data) =
    web_loop (c\<lparr>wc_final := True, wc_control := is_control op,
                wc_fragment := is_control op \<and> wc_fragment c, wc_opcode := op, wc_state := bc_length\<rparr>) data"
  using assms
  by (cases op) (simp_all add: web_loop.simps(2) web_switch_def case_begin_def op_code_def op_of_def is_control_def Let_def)

text \<open>What a payload does to the parser.\<close>

definition received :: "web_codec \<Rightarrow> u8 list \<Rightarrow> web_codec \<times> bool" where
  "received c data =
     (if \<not> wc_control c \<and> \<not> wc_final c then (c, wc_queue c \<noteq> [])
      else let c = c\<lparr>wc_state := bc_begin\<rparr> in if data \<noteq> [] then web_loop c data else (c, True))"

definition at_payload :: "web_codec \<Rightarrow> u8 list \<Rightarrow> web_codec \<times> bool" where
  "at_payload c data =
     (if wc_remains c = 0 then received (emplace c (wc_opcode c) []) data else web_loop c data)"

lemma web_loop_mask:
  assumes "length (wc_mask c) = 4" "wc_state c = bc_mask 0"
  shows "web_loop c (a # b # d # e # data) =
    at_payload (c\<lparr>wc_mask := [a, b, d, e], wc_state := bc_end\<rparr>) data"
proof -
  obtain p q r s where "wc_mask c = [p, q, r, s]" using assms(1)
    by (auto simp: numeral_eq_Suc length_Suc_conv)
  then show ?thesis using assms(2)
    by (simp add: web_loop.simps(2) web_switch_def case_mask_def at_payload_def received_def emplace_def Let_def)
qed

text \<open>The key bytes, when there are any, and the payload.\<close>

definition key_bytes :: "u32 \<Rightarrow> u8 list" where
  "key_bytes key = (if key = 0 then [] else mem_bytes key)"

lemma web_loop_key:
  assumes "length (wc_mask c) = 4" "wc_state c = payload_state c" "wc_masked c = (key \<noteq> 0)"
    and "wc_remains c = 0 \<longrightarrow> key \<noteq> 0"
  shows "web_loop c (key_bytes key @ data) =
    at_payload (c\<lparr>wc_mask := if key = 0 then wc_mask c else mem_bytes key, wc_state := bc_end\<rparr>) data"
proof (cases "key = 0")
  case True
  then show ?thesis using assms by (cases c) (simp add: key_bytes_def payload_state_def at_payload_def)
next
  case False
  obtain a b d e where "mem_bytes key = [a, b, d, e]"
    by (simp add: mem_bytes_def upt_rec)
  then show ?thesis using False assms web_loop_mask [of c a b d e data]
    by (simp add: key_bytes_def payload_state_def)
qed

definition length_byte :: "u64 \<Rightarrow> u8" where
  "length_byte len = (if len < 126 then ucast len else if len \<le> 65535 then 126 else 127)"

definition length_rest :: "u64 \<Rightarrow> u8 list" where
  "length_rest len =
     (if len < 126 then []
      else if len \<le> 65535 then [ucast (drop_bit 8 (ucast len :: u16)), ucast (ucast len :: u16)]
      else map (\<lambda>i. ucast (drop_bit (56 - 8 * i) len)) [0..<8])"

lemma send_header_eq:
  "send_header key len op = (0x80 + (op_code op AND 0xF)) #
     (if key = 0 then length_byte len else length_byte len OR 0x80) # length_rest len @ key_bytes key"
  by (simp add: send_header_def length_byte_def length_rest_def key_bytes_def network_bytes16 network_bytes64 Let_def)

lemma length_byte_small: "length_byte len < 128"
proof -
  have "unat (ucast len :: u8) < 128" if "len < 126"
    using that by (simp add: unsigned_ucast_eq take_bit_eq_mod word_less_nat_alt)
  then show ?thesis by (simp add: length_byte_def word_less_nat_alt)
qed

lemma small_length:
  fixes len :: u64
  assumes "len < 126"
  shows "ucast (ucast len :: u8) = len" "(ucast len :: u8) < 126"
proof -
  have "take_bit 8 len = len" using assms by (intro take_bit_less) (simp add: word_less_nat_alt)
  then show "ucast (ucast len :: u8) = len" by (intro bit_eqI) (auto simp: bit_simps, metis bit_take_bit_iff)
  show "(ucast len :: u8) < 126"
    using assms by (simp add: unsigned_ucast_eq take_bit_eq_mod word_less_nat_alt)
qed

lemma web_loop_length16:
  assumes "wc_state c = bc_length16 0" "\<not> len < 126" "len \<le> 65535"
  shows "web_loop c (ucast (drop_bit 8 (ucast len :: u16)) # ucast (ucast len :: u16) # d) =
    web_loop (c\<lparr>wc_remains := len, wc_state := payload_state c\<rparr>) d"
  using assms(1,2) join_bytes16 [OF assms(3)]
  by (simp add: web_loop.simps(2) web_switch_def case_length16_def Let_def payload_state_def)

lemma web_loop_length64:
  assumes "wc_state c = bc_length64 0" "\<not> len < 65536"
  shows "web_loop c (ucast (drop_bit 56 len) # ucast (drop_bit 48 len) # ucast (drop_bit 40 len) #
      ucast (drop_bit 32 len) # ucast (drop_bit 24 len) # ucast (drop_bit 16 len) # ucast (drop_bit 8 len) # ucast len # d) =
    web_loop (c\<lparr>wc_remains := len, wc_state := payload_state c\<rparr>) d"
  using assms join_bytes64 [of len]
  by (simp add: web_loop.simps(2) web_switch_def case_length64_def Let_def payload_state_def)

lemma web_loop_length:
  assumes "wc_state c = bc_length" "length (wc_mask c) = 4" "wc_control c \<longrightarrow> len < 126"
  shows "web_loop c ((if key = 0 then length_byte len else length_byte len OR 0x80) # length_rest len @ key_bytes key @ data) =
    at_payload (c\<lparr>wc_masked := key \<noteq> 0, wc_masks := 0, wc_remains := len,
                  wc_mask := if key = 0 then wc_mask c else mem_bytes key, wc_state := bc_end\<rparr>) data"
    (is "?l = at_payload ?e data")
proof -
  let ?b = "if key = 0 then length_byte len else length_byte len OR 0x80"
  let ?c = "c\<lparr>wc_masked := key \<noteq> 0, wc_masks := 0\<rparr>"
  have b: "?b AND 0x7F = length_byte len" "(?b AND 0x80 \<noteq> 0) = (key \<noteq> 0)"
    using byte_flag [OF length_byte_small, of len] by auto
  have k: "web_loop (?c\<lparr>wc_remains := len, wc_state := payload_state ?c\<rparr>) (key_bytes key @ data) = at_payload ?e data"
    if "len = 0 \<longrightarrow> key \<noteq> 0"
    using web_loop_key [of "?c\<lparr>wc_remains := len, wc_state := payload_state ?c\<rparr>" key data] assms(2) that
    by (simp add: payload_state_def)
  show ?thesis
  proof (cases "len < 126")
    case True
    note s = small_length [OF True]
    have "web_switch c ?b (key_bytes key @ data) =
        (let c = ?c\<lparr>wc_remains := len, wc_state := payload_state ?c\<rparr>
         in if wc_state c = bc_end \<and> len = 0 then Fetch (emplace c (wc_opcode c) []) (key_bytes key @ data)
            else Break c (key_bytes key @ data))"
      using assms(1) s True unfolding web_switch_def case_length_def b Let_def
      by (auto simp: length_byte_def payload_state_def word_less_nat_alt)
    moreover have "length_rest len = []" using True by (simp add: length_rest_def)
    ultimately show ?thesis using k
      by (auto simp: web_loop.simps(2) Let_def payload_state_def at_payload_def received_def key_bytes_def)
  next
    case large: False
    then have nc: "\<not> wc_control c" and nz: "len \<noteq> 0" using assms(3) by auto
    show ?thesis
    proof (cases "len \<le> 65535")
      case True
      have "web_switch c ?b d = Break (?c\<lparr>wc_state := bc_length16 0\<rparr>) d" for d
        using assms(1) nc large True unfolding web_switch_def case_length_def b Let_def
        by (simp add: length_byte_def)
      then have "?l = web_loop (?c\<lparr>wc_state := bc_length16 0\<rparr>) (length_rest len @ key_bytes key @ data)"
        by (simp add: web_loop.simps(2) [of c])
      also have "\<dots> = web_loop (?c\<lparr>wc_remains := len, wc_state := payload_state ?c\<rparr>) (key_bytes key @ data)"
        using web_loop_length16 [OF _ large True, of "?c\<lparr>wc_state := bc_length16 0\<rparr>"] large True
        by (simp add: length_rest_def payload_state_def)
      finally show ?thesis using k nz by auto
    next
      case False
      have "web_switch c ?b d = Break (?c\<lparr>wc_state := bc_length64 0\<rparr>) d" for d
        using assms(1) nc large False unfolding web_switch_def case_length_def b Let_def
        by (simp add: length_byte_def)
      then have "?l = web_loop (?c\<lparr>wc_state := bc_length64 0\<rparr>) (length_rest len @ key_bytes key @ data)"
        by (simp add: web_loop.simps(2) [of c])
      also have "\<dots> = web_loop (?c\<lparr>wc_remains := len, wc_state := payload_state ?c\<rparr>) (key_bytes key @ data)"
      proof -
        have "\<not> len < 65536" using False by (simp add: word_le_nat_alt word_less_nat_alt)
        moreover have "length_rest len = [ucast (drop_bit 56 len), ucast (drop_bit 48 len), ucast (drop_bit 40 len),
            ucast (drop_bit 32 len), ucast (drop_bit 24 len), ucast (drop_bit 16 len), ucast (drop_bit 8 len), ucast len]"
          using False large by (simp add: length_rest_def upt_rec)
        ultimately show ?thesis
          using web_loop_length64 [of "?c\<lparr>wc_state := bc_length64 0\<rparr>" len] by (simp add: payload_state_def)
      qed
      finally show ?thesis using k nz by auto
    qed
  qed
qed

section \<open>Reading a payload\<close>

text \<open>The message that the parser hands out: the payload, or its sum with the repeated key.\<close>

definition message_of :: "u32 \<Rightarrow> u8 list \<Rightarrow> u8 list" where
  "message_of key payload = (if key = 0 then payload else fst (unmask (mem_bytes key) 0 payload))"

lemma at_payload_whole:
  assumes "wc_state c = bc_end" "wc_remains c = word_of_nat (length payload)" "length payload < 2 ^ 64"
    and "wc_opcode c \<noteq> ws_next" "wc_final c" "wc_masks c = 0" "wc_masked c = (key \<noteq> 0)"
    and "key \<noteq> 0 \<longrightarrow> wc_mask c = mem_bytes key"
  shows "\<exists>c'. at_payload c (payload @ rest) = (if rest = [] then (c', True) else web_loop c' rest) \<and>
     wc_queue c' = wc_queue c @ [(wc_opcode c, message_of key payload)] \<and>
     wc_state c' = bc_begin \<and> wc_mask c' = wc_mask c \<and> wc_fragment c' = wc_fragment c"
proof (cases payload)
  case Nil
  then show ?thesis using assms
    by (auto simp: at_payload_def received_def emplace_def message_of_def Let_def)
next
  case (Cons b bs)
  have n: "unat (wc_remains c) = length payload" using assms(2,3) by (simp only: unat_of_nat) simp
  then have r: "wc_remains c \<noteq> 0" using Cons by auto
  have len: "(if unat (wc_remains c) < length (payload @ rest) then unat (wc_remains c) else length (payload @ rest)) =
      length payload" using n by auto
  obtain ms k where u: "(if wc_masked c then unmask (wc_mask c) (wc_masks c) payload else (payload, wc_masks c)) = (ms, k)"
    by fastforce
  have ms: "ms = message_of key payload"
    using u assms(6-8) by (cases "key = 0") (auto simp: message_of_def)
  have "case_payload c (payload @ rest) =
      Fetch (c\<lparr>wc_masks := k, wc_queue := wc_queue c @ [(wc_opcode c, ms)], wc_opcode := ws_next, wc_remains := 0\<rparr>) rest"
    using u assms(2,4) unfolding case_payload_def len
    by (cases "wc_masked c"; cases c) (auto simp: Let_def emplace_def)
  then have "at_payload c (payload @ rest) =
      received (c\<lparr>wc_masks := k, wc_queue := wc_queue c @ [(wc_opcode c, ms)], wc_opcode := ws_next, wc_remains := 0\<rparr>) rest"
    using r Cons assms(1) by (simp add: at_payload_def web_loop.simps(2) web_switch_def received_def)
  then show ?thesis using assms(5) ms by (auto simp: received_def emplace_def Let_def)
qed

text \<open>The parser after the header of a frame.\<close>

definition after_header :: "web_codec \<Rightarrow> u32 \<Rightarrow> u64 \<Rightarrow> web_socket_op \<Rightarrow> web_codec" where
  "after_header c key len op =
     c\<lparr>wc_final := True, wc_control := is_control op, wc_fragment := is_control op \<and> wc_fragment c,
       wc_opcode := op, wc_masked := key \<noteq> 0, wc_masks := 0, wc_remains := len,
       wc_mask := if key = 0 then wc_mask c else mem_bytes key, wc_state := bc_end\<rparr>"

lemma web_loop_header:
  assumes "wc_state c = bc_begin" "length (wc_mask c) = 4" "op \<noteq> ws_next" "is_control op \<longrightarrow> len < 126"
  shows "web_loop c (send_header key len op @ data) = at_payload (after_header c key len op) data"
proof -
  let ?c1 = "c\<lparr>wc_final := True, wc_control := is_control op, wc_fragment := is_control op \<and> wc_fragment c,
               wc_opcode := op, wc_state := bc_length\<rparr>"
  have "web_loop c (send_header key len op @ data) = web_loop ?c1
      ((if key = 0 then length_byte len else length_byte len OR 0x80) # length_rest len @ key_bytes key @ data)"
    using web_loop_first [OF assms(3,1)] by (simp add: send_header_eq)
  then show ?thesis
    using web_loop_length [of ?c1 len key data] assms(2,4) by (simp add: after_header_def)
qed

lemma web_loop_frame:
  assumes "wc_state c = bc_begin" "length (wc_mask c) = 4" "op \<noteq> ws_next" "length payload < 2 ^ 64"
    and "is_control op \<longrightarrow> length payload < 126"
  shows "\<exists>c'. web_loop c (send_frame key payload op @ rest) = (if rest = [] then (c', True) else web_loop c' rest) \<and>
     wc_queue c' = wc_queue c @ [(op, message_of key payload)] \<and>
     wc_state c' = bc_begin \<and> length (wc_mask c') = 4"
proof -
  let ?len = "word_of_nat (length payload) :: u64"
  have "is_control op \<longrightarrow> ?len < 126" using assms(5) by (auto simp: word_less_nat_alt unat_of_nat)
  then have "web_loop c (send_frame key payload op @ rest) = at_payload (after_header c key ?len op) (payload @ rest)"
    using web_loop_header [OF assms(1-3)] by (simp add: send_frame_def)
  then show ?thesis
    using at_payload_whole [of "after_header c key ?len op" payload key rest] assms(2-4)
    by (auto simp: after_header_def)
qed

section \<open>Properties\<close>

definition sendable :: "web_socket_op \<Rightarrow> u8 list \<Rightarrow> bool" where
  "sendable op payload \<longleftrightarrow> op \<noteq> ws_next \<and> length payload < 2 ^ 64 \<and> (is_control op \<longrightarrow> length payload < 126)"

text \<open>A parser between two frames; \<^verbatim>\<open>mask\<close> is an array of four bytes.\<close>

definition between_frames :: "web_codec \<Rightarrow> bool" where
  "between_frames c \<longleftrightarrow> wc_state c = bc_begin \<and> length (wc_mask c) = 4"

text \<open>
  C9: What \<^verbatim>\<open>web_socket_frame::send\<close> writes without a mask is what \<^verbatim>\<open>web_codec::parse_frame\<close> reads: from a
  parser between two frames, a buffer with any number of frames gives their messages in order, for the
  lengths of seven, sixteen and sixty-four bits, and leaves the parser between two frames.
\<close>
theorem web_socket_round_trip:
  assumes "between_frames c" "messages \<noteq> []" "\<forall>(op, payload)\<in>set messages. sendable op payload"
  shows "\<exists>c'. parse_frame c (concat (map (\<lambda>(op, payload). send_frame 0 payload op) messages)) = (c', True) \<and>
     wc_queue c' = wc_queue c @ messages \<and> between_frames c'"
proof -
  let ?frames = "\<lambda>messages. concat (map (\<lambda>(op, payload). send_frame 0 payload op) messages)"
  have ne: "send_frame key payload op \<noteq> []" for key payload op by (simp add: send_frame_def send_header_eq)
  have "\<exists>c'. web_loop c (?frames messages) = (c', True) \<and> wc_queue c' = wc_queue c @ messages \<and> between_frames c'"
    using assms
  proof (induction messages arbitrary: c)
    case (Cons m messages)
    obtain op payload where m: "m = (op, payload)" by fastforce
    obtain c1 where c1: "web_loop c (send_frame 0 payload op @ ?frames messages) =
        (if ?frames messages = [] then (c1, True) else web_loop c1 (?frames messages))"
      "wc_queue c1 = wc_queue c @ [(op, message_of 0 payload)]" "between_frames c1"
      using web_loop_frame [of c op payload 0 "?frames messages"] Cons.prems m
      by (auto simp: between_frames_def sendable_def)
    show ?case
    proof (cases "messages = []")
      case True
      then show ?thesis using c1 m by (auto simp: message_of_def)
    next
      case False
      then have "?frames messages \<noteq> []" using ne by (cases messages) auto
      then show ?thesis using c1 m Cons.IH [of c1] Cons.prems False by (auto simp: message_of_def)
    qed
  qed simp
  moreover have "?frames messages \<noteq> []" using ne assms(2) by (cases messages) auto
  ultimately show ?thesis by (simp only: parse_frame_def if_False)
qed

definition example_codec :: web_codec where
  "example_codec = new_web_codec \<lparr>wc_queue = [], wc_remains = 0, wc_opcode = ws_next, wc_state = bc_begin,
     wc_mask = [0, 0, 0, 0], wc_fragment = False, wc_final = False, wc_control = False, wc_masked = False, wc_masks = 0\<rparr>"

theorem web_socket_round_trip_witness:
  "\<exists>c'. parse_frame example_codec (send_frame 0 [1, 2] ws_binary @ send_frame 0 [] ws_close) = (c', True) \<and>
     wc_queue c' = [(ws_binary, [1, 2]), (ws_close, [])]"
proof -
  have "between_frames example_codec" "wc_queue example_codec = []"
    by (simp_all add: between_frames_def example_codec_def new_web_codec_def)
  then show ?thesis
    using web_socket_round_trip [of example_codec "[(ws_binary, [1, 2]), (ws_close, [])]"]
    by (auto simp: sendable_def is_control_def)
qed

lemma length_unmask [simp]: "length (fst (unmask key k bs)) = length bs"
  by (induction bs arbitrary: k) (auto split: prod.splits simp: Let_def, metis fst_conv)

lemma nth_unmask:
  "i < length bs \<Longrightarrow> fst (unmask key k bs) ! i = bs ! i XOR key ! unat ((k + word_of_nat i) mod 4)"
proof (induction bs arbitrary: k i)
  case (Cons b bs)
  have "fst (unmask key k (b # bs)) = (b XOR key ! unat (k mod 4)) # fst (unmask key (k + 1) bs)"
    by (simp split: prod.splits)
  then show ?case using Cons.IH [of "i - 1" "k + 1"] Cons.prems by (cases i) (simp_all add: ac_simps)
qed simp

lemma message_of_differs:
  assumes "key \<noteq> 0" "4 \<le> length payload"
  shows "message_of key payload \<noteq> payload"
proof
  assume same: "message_of key payload = payload"
  have "mem_bytes key ! i = 0" if "i < 4" for i
  proof -
    have "unat (word_of_nat i mod 4 :: u8) = i"
      using that by (simp add: unat_mod unat_of_nat)
    then have "payload ! i = payload ! i XOR mem_bytes key ! i"
      using nth_unmask [of i payload "mem_bytes key" 0] that assms same by (simp add: message_of_def)
    then show ?thesis by (metis xor_self_eq bit.xor_left_self xor.right_neutral)
  qed
  then have "mem_bytes key = mem_bytes (0 :: u32)"
    by (intro nth_equalityI) (auto simp: nth_mem_bytes)
  then have "key = 0" using mem_word_bytes [of key] mem_word_bytes [of "0 :: u32"] by simp
  then show False using assms(1) by simp
qed

text \<open>
  A mask given to \<^verbatim>\<open>web_socket_frame::send\<close> is announced in the header but not applied: the receiver
  removes it from a payload that does not have it, and a payload of four bytes or more never arrives as
  it was sent.
\<close>
theorem masked_send_garbles:
  assumes "between_frames c" "sendable op payload" "key \<noteq> 0" "4 \<le> length payload"
  shows "\<exists>c' message. parse_frame c (send_frame key payload op) = (c', True) \<and>
     wc_queue c' = wc_queue c @ [(op, message)] \<and> length message = length payload \<and> message \<noteq> payload \<and>
     (\<forall>i < length payload. message ! i = payload ! i XOR mem_bytes key ! unat (word_of_nat i mod 4 :: u8))"
proof -
  obtain c' where c': "web_loop c (send_frame key payload op) = (c', True)"
    "wc_queue c' = wc_queue c @ [(op, message_of key payload)]"
    using web_loop_frame [of c op payload key "[]"] assms(1,2) by (auto simp: between_frames_def sendable_def)
  have "send_frame key payload op \<noteq> []" by (simp add: send_frame_def send_header_eq)
  then show ?thesis using c' message_of_differs [OF assms(3,4)] assms(3)
    by (auto simp: parse_frame_def message_of_def nth_unmask)
qed

theorem masked_send_garbles_witness:
  "\<exists>c' message. parse_frame example_codec (send_frame 0x01020304 [5, 6, 7, 8] ws_text) = (c', True) \<and>
     wc_queue c' = [(ws_text, message)] \<and> message \<noteq> [5, 6, 7, 8]"
proof -
  have "between_frames example_codec" "wc_queue example_codec = []"
    by (simp_all add: between_frames_def example_codec_def new_web_codec_def)
  then show ?thesis
    using masked_send_garbles [of example_codec ws_text "[5, 6, 7, 8]" "0x01020304"]
    by (auto simp: sendable_def is_control_def)
qed

section \<open>Fragments and split frames\<close>

text \<open>A parser at the end of a payload that was not the last fragment.\<close>

definition stuck :: "web_codec \<Rightarrow> bool" where
  "stuck c \<longleftrightarrow> wc_state c = bc_end \<and> wc_remains c = 0 \<and> \<not> wc_control c \<and> \<not> wc_final c"

lemma stuck_parse:
  assumes "stuck c"
  shows "stuck (fst (parse_frame c buffer))"
    "concat (map snd (wc_queue (fst (parse_frame c buffer)))) = concat (map snd (wc_queue c))"
proof -
  have "stuck (fst (parse_frame c buffer)) \<and>
      concat (map snd (wc_queue (fst (parse_frame c buffer)))) = concat (map snd (wc_queue c))"
  proof (cases buffer)
    case Nil
    then show ?thesis using assms by (simp add: parse_frame_def)
  next
    case (Cons b bs)
    have "append_front q [] = q" for q by (cases q) auto
    then show ?thesis using assms Cons
      by (auto simp: parse_frame_def stuck_def web_loop.simps(2) web_switch_def case_payload_def emplace_def Let_def)
  qed
  then show "stuck (fst (parse_frame c buffer))"
    "concat (map snd (wc_queue (fst (parse_frame c buffer)))) = concat (map snd (wc_queue c))" by auto
qed

text \<open>
  Fragmented messages are not supported: after a first fragment (a text frame without the final bit)
  the parser stays at the end of its payload, and whatever bytes follow, in however many buffers, no byte
  of them reaches a message.
\<close>
theorem fragments_stuck:
  assumes "between_frames c" "length payload < 126"
  shows "let c1 = fst (parse_frame c (0x01 # word_of_nat (length payload) # payload))
         in wc_queue c1 = wc_queue c @ [(ws_text, payload)] \<and>
            concat (map snd (wc_queue (foldl (\<lambda>c buffer. fst (parse_frame c buffer)) c1 buffers))) =
            concat (map snd (wc_queue c)) @ payload"
proof -
  let ?n = "word_of_nat (length payload) :: u8"
  have u: "unat ?n = length payload" using assms(2) by (simp only: unat_of_nat) simp
  have "ucast ?n = (word_of_nat (unat ?n) :: u64)" by simp
  then have n: "?n < 126" "ucast ?n = (word_of_nat (length payload) :: u64)" "?n < 128"
    using assms(2) u by (simp_all add: word_less_nat_alt)
  note flag = byte_flag(1,2) [OF n(3)]
  let ?c1 = "c\<lparr>wc_final := False, wc_control := False, wc_fragment := True, wc_opcode := ws_text,
               wc_masked := False, wc_masks := 0, wc_remains := word_of_nat (length payload), wc_state := bc_end\<rparr>"
  have "web_loop c (0x01 # ?n # payload) = at_payload ?c1 payload"
    using assms(1) n flag
    by (auto simp: between_frames_def web_loop.simps(2) web_switch_def case_begin_def case_length_def op_code_def op_of_def
        at_payload_def received_def emplace_def payload_state_def Let_def)
  moreover have "fst (at_payload ?c1 payload) =
      ?c1\<lparr>wc_queue := wc_queue c @ [(ws_text, payload)], wc_remains := 0,
          wc_opcode := if payload = [] then ws_text else ws_next\<rparr>"
  proof (cases payload)
    case (Cons b bs)
    have l: "unat (word_of_nat (length payload) :: u64) = length payload"
      using assms(2) by (simp only: unat_of_nat) simp
    then have nz: "(word_of_nat (length payload) :: u64) \<noteq> 0" using Cons by (metis length_0_conv list.discI unat_0)
    have "case_payload ?c1 payload = Fetch (?c1\<lparr>wc_queue := wc_queue c @ [(ws_text, payload)], wc_opcode := ws_next,
        wc_remains := 0\<rparr>) []"
      using l by (simp add: case_payload_def emplace_def Let_def)
    then show ?thesis using Cons nz
      by (simp add: at_payload_def web_loop.simps(2) web_switch_def)
  qed (simp add: at_payload_def received_def emplace_def)
  ultimately have c1: "fst (parse_frame c (0x01 # ?n # payload)) =
      ?c1\<lparr>wc_queue := wc_queue c @ [(ws_text, payload)], wc_remains := 0,
          wc_opcode := if payload = [] then ws_text else ws_next\<rparr>" (is "?f = ?c2")
    by (simp add: parse_frame_def)
  have "concat (map snd (wc_queue (foldl (\<lambda>c buffer. fst (parse_frame c buffer)) c' buffers))) =
      concat (map snd (wc_queue c'))" if "stuck c'" for c'
    using that by (induction buffers arbitrary: c') (simp_all add: stuck_parse)
  then show ?thesis unfolding c1 by (simp add: stuck_def Let_def)
qed

theorem fragments_stuck_witness:
  "wc_queue (fst (parse_frame example_codec [0x01, 2, 104, 105])) = [(ws_text, [104, 105])] \<and>
   concat (map snd (wc_queue (fst (parse_frame (fst (parse_frame example_codec [0x01, 2, 104, 105])) [0x80, 1, 33])))) =
   [104, 105]"
proof -
  have "between_frames example_codec" "wc_queue example_codec = []"
    by (simp_all add: between_frames_def example_codec_def new_web_codec_def)
  then show ?thesis
    using fragments_stuck [of example_codec "[104, 105]" "[[0x80, 1, 33]]"] by (simp add: Let_def)
qed

text \<open>
  A frame that arrives in two parts: the second part is appended to the message at the front of the
  queue.  The message is whole again when no other one was waiting; otherwise the second part goes to the
  end of a message that was complete.
\<close>
theorem split_frame:
  assumes "between_frames c" "sendable op (part1 @ part2)" "part1 \<noteq> []" "part2 \<noteq> []"
  shows "\<exists>c1 c2. parse_frame c (send_header 0 (word_of_nat (length (part1 @ part2))) op @ part1) = (c1, True) \<and>
     parse_frame c1 part2 = (c2, True) \<and>
     wc_queue c2 = (case wc_queue c of
         [] \<Rightarrow> [(op, part1 @ part2)]
       | (op', message) # queue \<Rightarrow> (op', message @ part2) # queue @ [(op, part1)])"
proof -
  let ?n = "length part1 + length part2"
  let ?len = "word_of_nat ?n :: u64"
  have "?n < 2 ^ 64" using assms(2) by (simp add: sendable_def)
  then have u: "unat ?len = ?n" "unat (word_of_nat (length part2) :: u64) = length part2"
    "unat (word_of_nat (length part1) :: u64) = length part1"
    by (simp_all only: unat_of_nat) simp_all
  have nz: "(word_of_nat (length part2) :: u64) \<noteq> 0" "?len \<noteq> 0"
    using u assms(3,4) by (metis add_is_0 length_0_conv unat_0)+
  let ?c = "after_header c 0 ?len op"
  let ?c1 = "?c\<lparr>wc_queue := wc_queue c @ [(op, part1)], wc_opcode := ws_next, wc_remains := word_of_nat (length part2)\<rparr>"
  have op: "op \<noteq> ws_next" using assms(2) by (simp add: sendable_def)
  have "is_control op \<longrightarrow> ?len < 126"
    using assms(2) u(1) by (auto simp: word_less_nat_alt sendable_def)
  then have "web_loop c (send_header 0 ?len op @ part1) = at_payload ?c part1"
    using web_loop_header [of c op ?len 0 part1] assms(1) op by (simp add: between_frames_def)
  also have "\<dots> = (?c1, True)"
  proof -
    have "case_payload ?c part1 = Break ?c1 []"
      using u(1) assms(4) op nz by (simp add: case_payload_def emplace_def after_header_def Let_def)
    then show ?thesis using nz assms(3)
      by (cases part1) (simp_all add: at_payload_def after_header_def web_loop.simps(2) web_switch_def)
  qed
  finally have 1: "parse_frame c (send_header 0 ?len op @ part1) = (?c1, True)"
    using assms(3) by (simp add: parse_frame_def)
  let ?c2 = "?c1\<lparr>wc_queue := append_front (wc_queue c @ [(op, part1)]) part2, wc_remains := 0, wc_state := bc_begin\<rparr>"
  have "case_payload ?c1 part2 = Fetch (?c2\<lparr>wc_state := bc_end\<rparr>) []"
    using u(2) by (simp add: case_payload_def after_header_def Let_def)
  then have 2: "parse_frame ?c1 part2 = (?c2, True)"
    using assms(4) by (cases part2) (simp_all add: parse_frame_def web_loop.simps(2) web_switch_def after_header_def)
  have "wc_queue ?c2 = (case wc_queue c of
         [] \<Rightarrow> [(op, part1 @ part2)]
       | (op', message) # queue \<Rightarrow> (op', message @ part2) # queue @ [(op, part1)])"
    by (cases "wc_queue c") auto
  then show ?thesis using 1 2 by auto
qed

theorem split_frame_witness:
  "\<exists>c1 c2. parse_frame example_codec (send_header 0 3 ws_binary @ [1, 2]) = (c1, True) \<and>
     parse_frame c1 [3] = (c2, True) \<and> wc_queue c2 = [(ws_binary, [1, 2, 3])]"
proof -
  have "between_frames example_codec" "wc_queue example_codec = []"
    by (simp_all add: between_frames_def example_codec_def new_web_codec_def)
  then show ?thesis
    using split_frame [of example_codec ws_binary "[1, 2]" "[3]"] by (simp add: sendable_def is_control_def)
qed

end
