(* ===== verification/Allocators.thy ===== *)
theory Allocators
  imports Vitex_Prelude
begin

text \<open>
  The local allocators of \<^verbatim>\<open>core.cpp\<close>: \<^verbatim>\<open>linear_allocator\<close> and \<^verbatim>\<open>stack_allocator\<close>.  Both hand out
  memory from a chain of regions; the list has \<^verbatim>\<open>bottom\<close> first and \<^verbatim>\<open>top\<close> last.  Addresses and sizes
  are natural numbers; where the sources add to a size the sum is reduced modulo \<open>2 ^ 64\<close>.

  \<^verbatim>\<open>memory::allocate\<close> is not part of the model: the operations take the list of the blocks that its next
  calls return.  \<^const>\<open>None\<close> is the use of a null pointer, or a list that is too short.
\<close>

section \<open>Regions\<close>

record region =
  rg_block :: nat
  rg_free :: nat
  rg_base :: nat
  rg_size :: nat

definition SIZEOF_REGION :: nat where "SIZEOF_REGION = 40"

definition SIZEOF_SIZE :: nat where "SIZEOF_SIZE = 8"

text \<open>The number of bytes that \<^verbatim>\<open>next_region\<close> asks for, and the region it makes of them.\<close>

definition region_bytes :: "nat \<Rightarrow> nat" where
  "region_bytes bytes = (SIZEOF_REGION + bytes) mod 2 ^ 64"

definition next_region :: "region list \<Rightarrow> nat \<Rightarrow> nat \<Rightarrow> region list" where
  "next_region regions bytes block =
     \<lparr>rg_block = block, rg_free = block + SIZEOF_REGION, rg_base = block + SIZEOF_REGION, rg_size = bytes\<rparr> # regions"

text \<open>The blocks that \<^verbatim>\<open>flush_regions\<close> gives back, in order.\<close>

definition flush_regions :: "region list \<Rightarrow> nat list" where
  "flush_regions regions = map rg_block regions"

definition region_leftovers :: "region \<Rightarrow> nat" where
  "region_leftovers r = rg_base r + rg_size r - rg_free r"

definition get_leftovers :: "region list \<Rightarrow> nat" where
  "get_leftovers regions = (case regions of [] \<Rightarrow> 0 | r # _ \<Rightarrow> region_leftovers r)"

definition is_valid :: "region list \<Rightarrow> nat \<Rightarrow> bool" where
  "is_valid regions address \<longleftrightarrow>
     list_ex (\<lambda>r. rg_base r \<le> address \<and> address \<le> rg_base r + rg_size r) (rev regions)"

text \<open>\<^verbatim>\<open>reset\<close>: every region is emptied; if they are larger than the sizing, one region replaces them.\<close>

definition total_size :: "region list \<Rightarrow> nat" where
  "total_size regions = foldl (\<lambda>t r. (t + rg_size r) mod 2 ^ 64) 0 (rev regions)"

definition reset_regions :: "region list \<Rightarrow> nat \<Rightarrow> nat list \<Rightarrow> (region list \<times> nat \<times> nat list \<times> nat list) option" where
  "reset_regions regions sizing blocks =
     (let emptied = map (\<lambda>r. r\<lparr>rg_free := rg_base r\<rparr>) regions; t = total_size regions
      in if t > sizing then
           case blocks of [] \<Rightarrow> None | b # bs \<Rightarrow> Some (next_region [] t b, t, flush_regions emptied, bs)
         else Some (emptied, sizing, [], blocks))"

section \<open>The linear allocator\<close>

record linear_allocator =
  la_regions :: "region list"
  la_latest_size :: nat
  la_sizing :: nat

definition new_linear_allocator :: "nat \<Rightarrow> nat list \<Rightarrow> (linear_allocator \<times> nat list) option" where
  "new_linear_allocator bytes blocks =
     (let a = \<lparr>la_regions = [], la_latest_size = 0, la_sizing = bytes\<rparr>
      in if bytes > 0 then
           case blocks of [] \<Rightarrow> None | b # bs \<Rightarrow> Some (a\<lparr>la_regions := next_region [] bytes b\<rparr>, bs)
         else Some (a, blocks))"

definition linear_take :: "linear_allocator \<Rightarrow> nat \<Rightarrow> (linear_allocator \<times> nat) option" where
  "linear_take a bytes =
     (case la_regions a of
        [] \<Rightarrow> None
      | r # rs \<Rightarrow>
          if region_leftovers r < bytes then None
          else Some (a\<lparr>la_regions := r\<lparr>rg_free := rg_free r + bytes\<rparr> # rs, la_latest_size := bytes\<rparr>, rg_free r))"

fun linear_retry :: "linear_allocator \<Rightarrow> nat \<Rightarrow> nat list \<Rightarrow> (linear_allocator \<times> nat \<times> nat list) option" where
  "linear_retry a bytes [] = (case linear_take a bytes of None \<Rightarrow> None | Some (a', p) \<Rightarrow> Some (a', p, []))"
| "linear_retry a bytes (b # bs) =
     (case linear_take a bytes of
        None \<Rightarrow> linear_retry (a\<lparr>la_regions := next_region (la_regions a) bytes b\<rparr>) bytes bs
      | Some (a', p) \<Rightarrow> Some (a', p, b # bs))"

definition linear_allocate :: "linear_allocator \<Rightarrow> nat \<Rightarrow> nat list \<Rightarrow> (linear_allocator \<times> nat \<times> nat list) option" where
  "linear_allocate a bytes blocks =
     (if la_regions a = [] then
        case blocks of
          [] \<Rightarrow> None
        | b # bs \<Rightarrow> linear_retry (a\<lparr>la_regions := next_region (la_regions a) bytes b\<rparr>) bytes bs
      else linear_retry a bytes blocks)"

definition linear_free :: "linear_allocator \<Rightarrow> nat \<Rightarrow> linear_allocator option" where
  "linear_free a address =
     (case la_regions a of
        [] \<Rightarrow> None
      | r # rs \<Rightarrow>
          if int (rg_free r) - int (la_latest_size a) = int address
          then Some (a\<lparr>la_regions := r\<lparr>rg_free := address\<rparr> # rs, la_latest_size := 0\<rparr>)
          else Some a)"

definition linear_reset :: "linear_allocator \<Rightarrow> nat list \<Rightarrow> (linear_allocator \<times> nat list \<times> nat list) option" where
  "linear_reset a blocks =
     (case reset_regions (la_regions a) (la_sizing a) blocks of
        None \<Rightarrow> None
      | Some (regions, sizing, freed, bs) \<Rightarrow> Some (a\<lparr>la_regions := regions, la_sizing := sizing\<rparr>, freed, bs))"

section \<open>The stack allocator\<close>

text \<open>\<open>sa_sizes\<close> is the memory in front of the blocks, where \<^verbatim>\<open>allocate\<close> writes their sizes.\<close>

record stack_allocator =
  sa_regions :: "region list"
  sa_sizing :: nat
  sa_sizes :: "nat \<Rightarrow> nat"

definition new_stack_allocator :: "(nat \<Rightarrow> nat) \<Rightarrow> nat \<Rightarrow> nat list \<Rightarrow> (stack_allocator \<times> nat list) option" where
  "new_stack_allocator memory bytes blocks =
     (let a = \<lparr>sa_regions = [], sa_sizing = bytes, sa_sizes = memory\<rparr>
      in if bytes > 0 then
           case blocks of [] \<Rightarrow> None | b # bs \<Rightarrow> Some (a\<lparr>sa_regions := next_region [] bytes b\<rparr>, bs)
         else Some (a, blocks))"

definition stack_take :: "stack_allocator \<Rightarrow> nat \<Rightarrow> (stack_allocator \<times> nat) option" where
  "stack_take a bytes =
     (case sa_regions a of
        [] \<Rightarrow> None
      | r # rs \<Rightarrow>
          if region_leftovers r < bytes then None
          else Some (a\<lparr>sa_regions := r\<lparr>rg_free := rg_free r + bytes\<rparr> # rs,
                       sa_sizes := (sa_sizes a)(rg_free r := bytes)\<rparr>, rg_free r + SIZEOF_SIZE))"

fun stack_retry :: "stack_allocator \<Rightarrow> nat \<Rightarrow> nat list \<Rightarrow> (stack_allocator \<times> nat \<times> nat list) option" where
  "stack_retry a bytes [] = (case stack_take a bytes of None \<Rightarrow> None | Some (a', p) \<Rightarrow> Some (a', p, []))"
| "stack_retry a bytes (b # bs) =
     (case stack_take a bytes of
        None \<Rightarrow> stack_retry (a\<lparr>sa_regions := next_region (sa_regions a) bytes b\<rparr>) bytes bs
      | Some (a', p) \<Rightarrow> Some (a', p, b # bs))"

definition stack_allocate :: "stack_allocator \<Rightarrow> nat \<Rightarrow> nat list \<Rightarrow> (stack_allocator \<times> nat \<times> nat list) option" where
  "stack_allocate a bytes blocks =
     (let bytes = (bytes + SIZEOF_SIZE) mod 2 ^ 64
      in if sa_regions a = [] then
           case blocks of
             [] \<Rightarrow> None
           | b # bs \<Rightarrow> stack_retry (a\<lparr>sa_regions := next_region (sa_regions a) bytes b\<rparr>) bytes bs
         else stack_retry a bytes blocks)"

definition stack_free :: "stack_allocator \<Rightarrow> nat \<Rightarrow> stack_allocator option" where
  "stack_free a address =
     (case sa_regions a of
        [] \<Rightarrow> None
      | r # rs \<Rightarrow>
          let offset_address = address - SIZEOF_SIZE
          in if int (rg_free r) - int (sa_sizes a offset_address) = int offset_address
             then Some (a\<lparr>sa_regions := r\<lparr>rg_free := offset_address\<rparr> # rs\<rparr>)
             else Some a)"

definition stack_reset :: "stack_allocator \<Rightarrow> nat list \<Rightarrow> (stack_allocator \<times> nat list \<times> nat list) option" where
  "stack_reset a blocks =
     (case reset_regions (sa_regions a) (sa_sizing a) blocks of
        None \<Rightarrow> None
      | Some (regions, sizing, freed, bs) \<Rightarrow> Some (a\<lparr>sa_regions := regions, sa_sizing := sizing\<rparr>, freed, bs))"

end
