(* ===== verification/Allocator_Laws.thy ===== *)
theory Allocator_Laws
  imports Allocators
begin

text \<open>
  Lemmas on the allocators: the regions and the blocks that are in use, the invariant that every
  operation keeps, and the transition systems of the two allocators.
\<close>

section \<open>Invariants of transition systems\<close>

locale transition_invariant =
  fixes init :: "'s \<Rightarrow> bool" and step :: "'s \<Rightarrow> 's \<Rightarrow> bool" and inv :: "'s \<Rightarrow> bool"
  assumes init_inv: "init s \<Longrightarrow> inv s"
    and step_inv: "inv s \<Longrightarrow> step s s' \<Longrightarrow> inv s'"
begin

lemma reachable_inv: "init s \<Longrightarrow> step\<^sup>*\<^sup>* s s' \<Longrightarrow> inv s'"
  by (rotate_tac, induction rule: rtranclp_induct) (auto intro: init_inv step_inv)

end

section \<open>Regions and blocks in use\<close>

text \<open>The memory of two regions, each with its head, does not overlap.\<close>

definition apart :: "region \<Rightarrow> region \<Rightarrow> bool" where
  "apart r s \<longleftrightarrow> rg_base r + rg_size r \<le> rg_block s \<or> rg_base s + rg_size s \<le> rg_block r"

definition region_ok :: "region \<Rightarrow> bool" where
  "region_ok r \<longleftrightarrow> rg_base r = rg_block r + SIZEOF_REGION \<and> rg_base r \<le> rg_free r \<and> rg_free r \<le> rg_base r + rg_size r"

definition regions_ok :: "region list \<Rightarrow> bool" where
  "regions_ok rs \<longleftrightarrow> (\<forall>r\<in>set rs. region_ok r) \<and> sorted_wrt apart rs"

definition inside :: "nat \<times> nat \<Rightarrow> region \<Rightarrow> bool" where
  "inside b r \<longleftrightarrow> rg_base r \<le> fst b \<and> fst b + snd b \<le> rg_free r"

definition disjoint :: "nat \<times> nat \<Rightarrow> nat \<times> nat \<Rightarrow> bool" where
  "disjoint b c \<longleftrightarrow> fst b + snd b \<le> fst c \<or> fst c + snd c \<le> fst b"

definition blocks_ok :: "region list \<Rightarrow> (nat \<times> nat) set \<Rightarrow> bool" where
  "blocks_ok rs live \<longleftrightarrow>
     (\<forall>b\<in>live. 0 < snd b \<and> (\<exists>r\<in>set rs. inside b r)) \<and>
     (\<forall>b\<in>live. \<forall>c\<in>live. b \<noteq> c \<longrightarrow> disjoint b c)"

lemma blocks_okD:
  "blocks_ok rs live \<Longrightarrow> b \<in> live \<Longrightarrow> 0 < snd b"
  "blocks_ok rs live \<Longrightarrow> b \<in> live \<Longrightarrow> \<exists>r\<in>set rs. inside b r"
  "blocks_ok rs live \<Longrightarrow> b \<in> live \<Longrightarrow> c \<in> live \<Longrightarrow> b \<noteq> c \<Longrightarrow> disjoint b c"
  by (simp_all add: blocks_ok_def)

lemma disjoint_sym: "disjoint b c \<Longrightarrow> disjoint c b"
  by (auto simp: disjoint_def)

text \<open>What \<^verbatim>\<open>memory::allocate\<close> returns does not overlap what is in use, and the size did not wrap.\<close>

definition fresh_block :: "region list \<Rightarrow> nat \<Rightarrow> nat \<Rightarrow> bool" where
  "fresh_block rs b n \<longleftrightarrow> SIZEOF_REGION + n < 2 ^ 64 \<and>
     (\<forall>r\<in>set rs. b + region_bytes n \<le> rg_block r \<or> rg_base r + rg_size r \<le> b)"

lemma sorted_wrt_sym:
  "(\<And>x y. P x y \<Longrightarrow> P y x) \<Longrightarrow> sorted_wrt P xs \<Longrightarrow> x \<in> set xs \<Longrightarrow> y \<in> set xs \<Longrightarrow> x \<noteq> y \<Longrightarrow> P x y"
  by (induction xs) auto

lemma next_region_ok:
  assumes "regions_ok rs" "fresh_block rs b n"
  shows "regions_ok (next_region rs n b)"
  using assms
  by (fastforce simp: regions_ok_def next_region_def region_ok_def apart_def fresh_block_def region_bytes_def)

lemma next_region_blocks: "blocks_ok rs live \<Longrightarrow> blocks_ok (next_region rs n b) live"
  by (auto simp: blocks_ok_def next_region_def)

text \<open>A block in use ends where the bottom region is free only if it is in the bottom region.\<close>

lemma block_in_bottom:
  assumes "regions_ok (r # rs)" "s \<in> set (r # rs)" "inside b s" "0 < snd b" "fst b + snd b = rg_free r"
  shows "inside b r"
proof (cases "s \<in> set rs")
  case True
  then have "apart r s" "region_ok r" "region_ok s" using assms(1) by (auto simp: regions_ok_def)
  then show ?thesis using assms(3-5) by (auto simp: apart_def region_ok_def inside_def SIZEOF_REGION_def)
qed (use assms in auto)

lemma free_not_in_use:
  assumes "regions_ok (r # rs)" "blocks_ok (r # rs) live" "b \<in> live"
  shows "fst b \<noteq> rg_free r"
proof
  assume f: "fst b = rg_free r"
  obtain s where s: "s \<in> set (r # rs)" "inside b s" "0 < snd b"
    using blocks_okD [OF assms(2,3)] by blast
  show False
  proof (cases "s \<in> set rs")
    case True
    then have "apart r s" "region_ok r" "region_ok s" using assms(1) by (auto simp: regions_ok_def)
    then show False using f s by (auto simp: apart_def region_ok_def inside_def SIZEOF_REGION_def)
  next
    case False
    then show False using f s by (auto simp: inside_def)
  qed
qed

lemma take_ok:
  assumes "regions_ok (r # rs)" "n \<le> region_leftovers r"
  shows "regions_ok (r\<lparr>rg_free := rg_free r + n\<rparr> # rs)"
  using assms by (auto simp: regions_ok_def region_ok_def apart_def region_leftovers_def)

lemma blocks_ok_insert:
  assumes "blocks_ok rs live" "0 < snd c" "r \<in> set rs'" "inside c r" "\<forall>b\<in>live. disjoint b c"
    and "\<And>b s. s \<in> set rs \<Longrightarrow> inside b s \<Longrightarrow> \<exists>s\<in>set rs'. inside b s"
  shows "blocks_ok rs' (insert c live)"
  unfolding blocks_ok_def
proof (intro conjI ballI impI)
  fix b assume "b \<in> insert c live"
  then consider "b = c" | "b \<in> live" by blast
  then show "0 < snd b" "\<exists>r\<in>set rs'. inside b r"
    using blocks_okD(1,2) [OF assms(1), of b] assms(2-4) assms(6) [of _ b] by (cases; blast)+
  fix d assume "d \<in> insert c live" "b \<noteq> d"
  then show "disjoint b d"
    using blocks_okD(3) [OF assms(1), of b d] assms(5) disjoint_sym \<open>b \<in> insert c live\<close> by blast
qed

lemma take_blocks:
  assumes "regions_ok (r # rs)" "blocks_ok (r # rs) live" "n \<le> region_leftovers r" "0 < n"
  shows "blocks_ok (r\<lparr>rg_free := rg_free r + n\<rparr> # rs) (insert (rg_free r, n) live)"
proof -
  have r: "region_ok r" using assms(1) by (simp add: regions_ok_def)
  have "disjoint b (rg_free r, n)" if live: "b \<in> live" for b
  proof -
    obtain s where s: "s \<in> set (r # rs)" "inside b s" using blocks_okD(2) [OF assms(2) live] by blast
    show ?thesis
    proof (cases "s \<in> set rs")
      case True
      then have "apart r s" "region_ok s" using assms(1) by (auto simp: regions_ok_def)
      then show ?thesis using r s(2) assms(3,4)
        by (auto simp: apart_def region_ok_def inside_def disjoint_def region_leftovers_def SIZEOF_REGION_def)
    next
      case False
      then show ?thesis using s by (auto simp: inside_def disjoint_def)
    qed
  qed
  moreover have "inside (rg_free r, n) (r\<lparr>rg_free := rg_free r + n\<rparr>)" using r by (simp add: inside_def region_ok_def)
  moreover have "inside b s \<Longrightarrow> s \<in> set (r # rs) \<Longrightarrow> \<exists>s\<in>set (r\<lparr>rg_free := rg_free r + n\<rparr> # rs). inside b s" for b s
    by (auto simp: inside_def)
  ultimately show ?thesis using assms(2,4)
    by (intro blocks_ok_insert [OF assms(2), where r = "r\<lparr>rg_free := rg_free r + n\<rparr>"]) auto
qed

lemma rewind_ok:
  assumes "regions_ok (r # rs)" "blocks_ok (r # rs) live" "(p, n) \<in> live" "p + n = rg_free r"
  shows "regions_ok (r\<lparr>rg_free := p\<rparr> # rs)" "blocks_ok (r\<lparr>rg_free := p\<rparr> # rs) (live - {(p, n)})"
proof -
  obtain s where s: "s \<in> set (r # rs)" "inside (p, n) s" "0 < n"
    using assms(2,3) unfolding blocks_ok_def by fastforce
  have b: "inside (p, n) r" using block_in_bottom [OF assms(1) s(1,2)] s(3) assms(4) by simp
  then show "regions_ok (r\<lparr>rg_free := p\<rparr> # rs)"
    using assms(1) by (auto simp: regions_ok_def region_ok_def apart_def inside_def)
  have "inside c (r\<lparr>rg_free := p\<rparr>)" if "c \<in> live - {(p, n)}" "inside c r" for c
  proof -
    have "disjoint c (p, n)" "0 < snd c" using assms(2,3) that(1) unfolding blocks_ok_def by blast+
    then show ?thesis using that(2) assms(4) s(3) by (auto simp: disjoint_def inside_def)
  qed
  then show "blocks_ok (r\<lparr>rg_free := p\<rparr> # rs) (live - {(p, n)})"
    using assms(2) unfolding blocks_ok_def by (auto; metis)
qed

lemma reset_ok:
  assumes "regions_ok rs" "reset_regions rs sizing blocks = Some (rs', sizing', freed, bs)"
    and "\<forall>b\<in>set blocks. fresh_block [] b (total_size rs)"
  shows "regions_ok rs'"
proof (cases "total_size rs > sizing")
  case True
  then show ?thesis using assms(2,3) next_region_ok [of "[]"]
    by (auto simp: reset_regions_def Let_def regions_ok_def split: list.splits)
next
  case False
  then have "rs' = map (\<lambda>r. r\<lparr>rg_free := rg_base r\<rparr>) rs" using assms(2) by (simp add: reset_regions_def Let_def)
  moreover have "sorted_wrt apart (map (\<lambda>r. r\<lparr>rg_free := rg_base r\<rparr>) rs)"
    using assms(1) unfolding regions_ok_def sorted_wrt_map by (auto elim: sorted_wrt_mono_rel [rotated] simp: apart_def)
  ultimately show ?thesis using assms(1) by (auto simp: regions_ok_def region_ok_def)
qed

end
