(* ===== verification/Allocator_Properties.thy ===== *)
theory Allocator_Properties
  imports Allocator_Laws
begin

text \<open>
  Properties of the allocators.  A program and its allocator are a pair: the allocator and the blocks in
  use, each with its address and its size.  The program may ask for a block, return one that is in use,
  and reset the allocator, after which no block is in use.
\<close>

section \<open>Allocation\<close>

lemma next_region_leftovers: "region_leftovers (hd (next_region rs n b)) = n" "next_region rs n b \<noteq> []"
  by (simp_all add: next_region_def region_leftovers_def)

lemma linear_allocate_cases:
  assumes "linear_allocate a n [b] = Some (a', p, bs)"
  obtains rs where "rs = la_regions a \<or> rs = next_region (la_regions a) n b"
    "linear_take (a\<lparr>la_regions := rs\<rparr>) n = Some (a', p)"
proof (cases "linear_take a n")
  case None
  then show ?thesis using assms that [of "next_region (la_regions a) n b"]
    by (auto simp: linear_allocate_def split: option.splits if_splits)
next
  case (Some ap)
  then have "la_regions a \<noteq> []" by (auto simp: linear_take_def)
  then show ?thesis using assms Some that [of "la_regions a"] by (cases ap) (auto simp: linear_allocate_def)
qed

lemma stack_allocate_cases:
  assumes "stack_allocate a n [b] = Some (a', p, bs)" "n + SIZEOF_SIZE < 2 ^ 64"
  obtains rs where "rs = sa_regions a \<or> rs = next_region (sa_regions a) (n + SIZEOF_SIZE) b"
    "stack_take (a\<lparr>sa_regions := rs\<rparr>) (n + SIZEOF_SIZE) = Some (a', p)"
proof (cases "stack_take a (n + SIZEOF_SIZE)")
  case None
  then show ?thesis using assms that [of "next_region (sa_regions a) (n + SIZEOF_SIZE) b"]
    by (auto simp: stack_allocate_def Let_def split: option.splits if_splits)
next
  case (Some ap)
  then have "sa_regions a \<noteq> []" by (auto simp: stack_take_def)
  then show ?thesis using assms Some that [of "sa_regions a"] by (cases ap) (auto simp: stack_allocate_def Let_def)
qed

text \<open>
  C37: An allocation asks \<^verbatim>\<open>memory::allocate\<close> for at most one region: whatever the regions are, with one block
  to come the loop of both allocators ends and returns an address.
\<close>
theorem allocation_ends:
  "(\<exists>a' p. linear_allocate a n (b # bs) = Some (a', p, bs) \<or> linear_allocate a n (b # bs) = Some (a', p, b # bs)) \<and>
   (\<exists>s' q. stack_allocate s n (b # bs) = Some (s', q, bs) \<or> stack_allocate s n (b # bs) = Some (s', q, b # bs))"
proof
  have t: "\<exists>a' p. linear_retry (a\<lparr>la_regions := next_region rs n b\<rparr>) n bs = Some (a', p, bs)" for rs
    by (cases bs) (simp_all add: linear_take_def next_region_def region_leftovers_def)
  have e: "la_regions a = [] \<Longrightarrow> linear_take a n = None" by (simp add: linear_take_def)
  show "\<exists>a' p. linear_allocate a n (b # bs) = Some (a', p, bs) \<or> linear_allocate a n (b # bs) = Some (a', p, b # bs)"
    using t [of "[]"] t [of "la_regions a"] e by (cases "linear_take a n") (auto simp: linear_allocate_def)
next
  let ?n = "(n + SIZEOF_SIZE) mod 2 ^ 64"
  have t: "\<exists>s' q. stack_retry (s\<lparr>sa_regions := next_region rs ?n b\<rparr>) ?n bs = Some (s', q, bs)" for rs
    by (cases bs) (simp_all add: stack_take_def next_region_def region_leftovers_def)
  have e: "sa_regions s = [] \<Longrightarrow> stack_take s ?n = None" by (simp add: stack_take_def)
  show "\<exists>s' q. stack_allocate s n (b # bs) = Some (s', q, bs) \<or> stack_allocate s n (b # bs) = Some (s', q, b # bs)"
    using t [of "[]"] t [of "sa_regions s"] e by (cases "stack_take s ?n") (auto simp: stack_allocate_def Let_def)
qed

section \<open>The linear allocator\<close>

type_synonym linear_use = "linear_allocator \<times> (nat \<times> nat) set"

definition linear_init :: "linear_use \<Rightarrow> bool" where
  "linear_init = (\<lambda>(a, live). live = {} \<and>
     (\<exists>n b bs. fresh_block [] b n \<and> new_linear_allocator n [b] = Some (a, bs)))"

inductive linear_step :: "linear_use \<Rightarrow> linear_use \<Rightarrow> bool" where
  l_allocate: "0 < n \<Longrightarrow> fresh_block (la_regions a) b n \<Longrightarrow> linear_allocate a n [b] = Some (a', p, bs)
    \<Longrightarrow> linear_step (a, live) (a', insert (p, n) live)"
| l_free: "(p, n) \<in> live \<Longrightarrow> linear_free a p = Some a' \<Longrightarrow> linear_step (a, live) (a', live - {(p, n)})"
| l_reset: "fresh_block [] b (total_size (la_regions a)) \<Longrightarrow> linear_reset a [b] = Some (a', freed, bs)
    \<Longrightarrow> linear_step (a, live) (a', {})"

text \<open>The block that begins where the latest one began has its size.\<close>

definition linear_inv :: "linear_use \<Rightarrow> bool" where
  "linear_inv = (\<lambda>(a, live). regions_ok (la_regions a) \<and> blocks_ok (la_regions a) live \<and>
     (\<forall>r rs. la_regions a = r # rs \<longrightarrow> (\<forall>(p, n)\<in>live. p + la_latest_size a = rg_free r \<longrightarrow> n = la_latest_size a)))"

lemma linear_take_inv:
  assumes "linear_take a n = Some (a', p)" "0 < n" "regions_ok (la_regions a)" "blocks_ok (la_regions a) live"
  shows "linear_inv (a', insert (p, n) live)"
proof -
  obtain r rs where r: "la_regions a = r # rs" "n \<le> region_leftovers r" "p = rg_free r"
      "a' = a\<lparr>la_regions := r\<lparr>rg_free := rg_free r + n\<rparr> # rs, la_latest_size := n\<rparr>"
    using assms(1) by (auto simp: linear_take_def split: list.splits if_splits)
  have "\<forall>(q, m)\<in>live. q \<noteq> rg_free r"
    using free_not_in_use [of r rs live] assms(3,4) r(1) by fastforce
  then show ?thesis
    using take_ok [of r rs n] take_blocks [of r rs live n] assms(2-4) r by (fastforce simp: linear_inv_def)
qed

lemma linear_free_inv:
  assumes "linear_free a p = Some a'" "(p, n) \<in> live" "linear_inv (a, live)"
  shows "linear_inv (a', live - {(p, n)})"
proof -
  have ok: "regions_ok (la_regions a)" "blocks_ok (la_regions a) live" using assms(3) by (auto simp: linear_inv_def)
  obtain r rs where r: "la_regions a = r # rs" using assms(1) by (auto simp: linear_free_def split: list.splits)
  show ?thesis
  proof (cases "p + la_latest_size a = rg_free r")
    case True
    then have n: "n = la_latest_size a" using assms(2,3) r by (fastforce simp: linear_inv_def)
    have a': "a' = a\<lparr>la_regions := r\<lparr>rg_free := p\<rparr> # rs, la_latest_size := 0\<rparr>"
      using assms(1) True r by (auto simp: linear_free_def)
    have w: "regions_ok (r\<lparr>rg_free := p\<rparr> # rs)" "blocks_ok (r\<lparr>rg_free := p\<rparr> # rs) (live - {(p, n)})"
      using rewind_ok [of r rs live p n] ok r assms(2) True n by auto
    have "\<forall>(q, m)\<in>live - {(p, n)}. q \<noteq> p" using free_not_in_use [OF w] by fastforce
    then show ?thesis using a' w by (auto simp: linear_inv_def)
  next
    case False
    then have "a' = a" using assms(1) r by (auto simp: linear_free_def split: if_splits)
    then show ?thesis using assms(3) by (auto simp: linear_inv_def blocks_ok_def)
  qed
qed

lemma linear_step_inv:
  assumes "linear_inv s" "linear_step s s'"
  shows "linear_inv s'"
  using assms(2)
proof (cases rule: linear_step.cases)
  case (l_allocate n a b a' p bs live)
  then have ok: "regions_ok (la_regions a)" "blocks_ok (la_regions a) live" using assms(1) by (auto simp: linear_inv_def)
  from l_allocate(5) obtain rs where rs: "rs = la_regions a \<or> rs = next_region (la_regions a) n b"
    "linear_take (a\<lparr>la_regions := rs\<rparr>) n = Some (a', p)"
    by (rule linear_allocate_cases)
  then have "regions_ok rs" "blocks_ok rs live"
    using ok next_region_ok [OF ok(1) l_allocate(4)] next_region_blocks [OF ok(2)] by auto
  then show ?thesis using linear_take_inv [OF rs(2) l_allocate(3), of live] l_allocate(2) by simp
next
  case (l_free p n live a a')
  then show ?thesis using linear_free_inv assms(1) by simp
next
  case (l_reset b a a' freed bs live)
  then obtain rs sizing where rs: "reset_regions (la_regions a) (la_sizing a) [b] = Some (rs, sizing, freed, bs)"
    "a' = a\<lparr>la_regions := rs, la_sizing := sizing\<rparr>"
    by (auto simp: linear_reset_def split: option.splits)
  have "regions_ok (la_regions a)" using assms(1) l_reset(1) by (auto simp: linear_inv_def)
  from reset_ok [OF this rs(1)] show ?thesis using rs(2) l_reset(2,3) by (simp add: linear_inv_def blocks_ok_def)
qed

interpretation linear: transition_invariant linear_init linear_step linear_inv
proof unfold_locales
  fix s assume "linear_init s"
  then show "linear_inv s"
    using next_region_ok [of "[]"]
    by (auto simp: linear_init_def linear_inv_def new_linear_allocator_def blocks_ok_def regions_ok_def Let_def
        split: if_splits)
qed (rule linear_step_inv)

text \<open>
  C7: The linear allocator is safe for blocks of at least one byte: after any sequence of allocations,
  returns and resets, the blocks in use lie in the regions, below the free address, and no two of them
  overlap.
\<close>
theorem linear_allocator_safe:
  assumes "linear_init s" "linear_step\<^sup>*\<^sup>* s (a, live)"
  shows "(\<forall>(p, n)\<in>live. is_valid (la_regions a) p \<and>
            (\<exists>r\<in>set (la_regions a). rg_base r \<le> p \<and> p + n \<le> rg_free r \<and> rg_free r \<le> rg_base r + rg_size r)) \<and>
         (\<forall>(p, n)\<in>live. \<forall>(q, m)\<in>live. (p, n) \<noteq> (q, m) \<longrightarrow> p + n \<le> q \<or> q + m \<le> p)"
proof -
  have inv: "linear_inv (a, live)" using assms by (rule linear.reachable_inv)
  then have "\<forall>(p, n)\<in>live. \<exists>r\<in>set (la_regions a). rg_base r \<le> p \<and> p + n \<le> rg_free r \<and> rg_free r \<le> rg_base r + rg_size r"
    by (fastforce simp: linear_inv_def blocks_ok_def inside_def regions_ok_def region_ok_def)
  moreover have "\<forall>(p, n)\<in>live. \<forall>(q, m)\<in>live. (p, n) \<noteq> (q, m) \<longrightarrow> p + n \<le> q \<or> q + m \<le> p"
    using inv by (fastforce simp: linear_inv_def blocks_ok_def disjoint_def)
  ultimately show ?thesis by (fastforce simp: is_valid_def list_ex_iff)
qed

definition example_linear :: linear_allocator where
  "example_linear = \<lparr>la_regions = next_region [] 16 1000, la_latest_size = 0, la_sizing = 16\<rparr>"

theorem linear_allocator_safe_witness:
  "\<exists>a. linear_step\<^sup>*\<^sup>* (example_linear, {}) (a, {(1048, 4), (1040, 8)}) \<and>
     (\<forall>(p, n)\<in>{(1048, 4), (1040, 8)}. is_valid (la_regions a) p)"
proof -
  have init: "linear_init (example_linear, {})"
  proof -
    have "fresh_block [] 1000 16" "new_linear_allocator 16 [1000] = Some (example_linear, [])"
      by (simp_all add: new_linear_allocator_def fresh_block_def SIZEOF_REGION_def example_linear_def)
    then show ?thesis unfolding linear_init_def by blast
  qed
  let ?a1 = "example_linear\<lparr>la_regions := [\<lparr>rg_block = 1000, rg_free = 1048, rg_base = 1040, rg_size = 16\<rparr>], la_latest_size := 8\<rparr>"
  let ?a2 = "?a1\<lparr>la_regions := [\<lparr>rg_block = 1000, rg_free = 1052, rg_base = 1040, rg_size = 16\<rparr>], la_latest_size := 4\<rparr>"
  have "linear_allocate example_linear 8 [5000] = Some (?a1, 1040, [5000])"
    "linear_allocate ?a1 4 [5000] = Some (?a2, 1048, [5000])"
    by (simp_all add: linear_allocate_def linear_take_def region_leftovers_def example_linear_def next_region_def
        SIZEOF_REGION_def)
  moreover have "fresh_block (la_regions example_linear) 5000 8" "fresh_block (la_regions ?a1) 5000 4"
    by (simp_all add: fresh_block_def region_bytes_def example_linear_def next_region_def SIZEOF_REGION_def)
  ultimately have "linear_step (example_linear, {}) (?a1, {(1040, 8)})"
    "linear_step (?a1, {(1040, 8)}) (?a2, {(1048, 4), (1040, 8)})"
    by (auto intro: l_allocate)
  then have "linear_step\<^sup>*\<^sup>* (example_linear, {}) (?a2, {(1048, 4), (1040, 8)})"
    by (meson converse_rtranclp_into_rtranclp rtranclp.rtrancl_refl)
  then show ?thesis using linear_allocator_safe [OF init, of ?a2 "{(1048, 4), (1040, 8)}"] by blast
qed

text \<open>
  A block of no bytes breaks the linear allocator: it has the address of the block that is allocated
  after it, and returning it hands the memory of that block out again.
\<close>
theorem linear_zero_block:
  assumes "la_regions a = r # rs" "0 < n" "n \<le> region_leftovers r" "rg_free r \<le> rg_base r + rg_size r"
  shows "\<exists>a1 a2 a3 a4 p. linear_allocate a 0 blocks = Some (a1, p, blocks) \<and>
     linear_allocate a1 n blocks = Some (a2, p, blocks) \<and> linear_free a2 p = Some a3 \<and>
     linear_allocate a3 n blocks = Some (a4, p, blocks)"
proof -
  let ?r = "\<lambda>k. r\<lparr>rg_free := rg_free r + k\<rparr>"
  have take: "linear_take (a\<lparr>la_regions := s # rs, la_latest_size := l\<rparr>) k =
      Some (a\<lparr>la_regions := s\<lparr>rg_free := rg_free s + k\<rparr> # rs, la_latest_size := k\<rparr>, rg_free s)"
    if "k \<le> region_leftovers s" for s k l
    using that by (simp add: linear_take_def)
  have alloc: "linear_allocate (a\<lparr>la_regions := s # rs, la_latest_size := l\<rparr>) k blocks =
      Some (a\<lparr>la_regions := s\<lparr>rg_free := rg_free s + k\<rparr> # rs, la_latest_size := k\<rparr>, rg_free s, blocks)"
    if "k \<le> region_leftovers s" for s k l
    using take [OF that, of l] by (cases blocks) (simp_all add: linear_allocate_def)
  have a: "a = a\<lparr>la_regions := r # rs, la_latest_size := la_latest_size a\<rparr>" using assms(1) by (cases a) simp
  have "linear_allocate a 0 blocks = Some (a\<lparr>la_regions := r # rs, la_latest_size := 0\<rparr>, rg_free r, blocks)"
    using alloc [of 0 r "la_latest_size a"] a by (cases r) simp
  moreover note alloc [OF assms(3), of 0]
  moreover have "linear_free (a\<lparr>la_regions := ?r n # rs, la_latest_size := n\<rparr>) (rg_free r) =
      Some (a\<lparr>la_regions := r # rs, la_latest_size := 0\<rparr>)"
    by (cases r) (simp add: linear_free_def)
  ultimately show ?thesis using alloc [OF assms(3), of 0] by blast
qed

theorem linear_zero_block_witness:
  "\<exists>a1 a2 a3 a4 p. linear_allocate example_linear 0 [] = Some (a1, p, []) \<and>
     linear_allocate a1 8 [] = Some (a2, p, []) \<and> linear_free a2 p = Some a3 \<and>
     linear_allocate a3 8 [] = Some (a4, p, [])"
  using linear_zero_block [of example_linear "hd (next_region [] 16 1000)" "[]" 8 "[]"]
  by (simp add: example_linear_def next_region_def region_leftovers_def)

section \<open>The stack allocator\<close>

type_synonym stack_use = "stack_allocator \<times> (nat \<times> nat) set"

definition stack_init :: "stack_use \<Rightarrow> bool" where
  "stack_init = (\<lambda>(a, live). live = {} \<and>
     (\<exists>memory n b bs. fresh_block [] b n \<and> new_stack_allocator memory n [b] = Some (a, bs)))"

inductive stack_step :: "stack_use \<Rightarrow> stack_use \<Rightarrow> bool" where
  s_allocate: "fresh_block (sa_regions a) b (n + SIZEOF_SIZE) \<Longrightarrow> stack_allocate a n [b] = Some (a', p, bs)
    \<Longrightarrow> stack_step (a, live) (a', insert (p, n) live)"
| s_free: "(p, n) \<in> live \<Longrightarrow> stack_free a p = Some a' \<Longrightarrow> stack_step (a, live) (a', live - {(p, n)})"
| s_reset: "fresh_block [] b (total_size (sa_regions a)) \<Longrightarrow> stack_reset a [b] = Some (a', freed, bs)
    \<Longrightarrow> stack_step (a, live) (a', {})"

text \<open>A block with the size in front of it.\<close>

definition with_size :: "nat \<times> nat \<Rightarrow> nat \<times> nat" where
  "with_size = (\<lambda>(p, n). (p - SIZEOF_SIZE, n + SIZEOF_SIZE))"

definition stack_inv :: "stack_use \<Rightarrow> bool" where
  "stack_inv = (\<lambda>(a, live). regions_ok (sa_regions a) \<and> blocks_ok (sa_regions a) (with_size ` live) \<and>
     (\<forall>(p, n)\<in>live. SIZEOF_SIZE \<le> p \<and> sa_sizes a (p - SIZEOF_SIZE) = n + SIZEOF_SIZE))"

lemma blocks_ok_subset: "blocks_ok rs live \<Longrightarrow> live' \<subseteq> live \<Longrightarrow> blocks_ok rs live'"
  unfolding blocks_ok_def by blast

lemma with_size_inj:
  assumes "\<forall>(p, n)\<in>live. SIZEOF_SIZE \<le> p \<and> P p n"
  shows "inj_on with_size live"
proof (rule inj_onI, clarify)
  fix p n q m assume "(p, n) \<in> live" "(q, m) \<in> live" "with_size (p, n) = with_size (q, m)"
  moreover from this have "SIZEOF_SIZE \<le> p" "SIZEOF_SIZE \<le> q" using assms by auto
  ultimately show "p = q \<and> n = m" by (auto simp: with_size_def)
qed

lemma stack_take_inv:
  assumes "stack_take a (n + SIZEOF_SIZE) = Some (a', p)" "stack_inv (a, live)"
  shows "stack_inv (a', insert (p, n) live)"
proof -
  let ?m = "n + SIZEOF_SIZE"
  obtain r rs where r: "sa_regions a = r # rs" "?m \<le> region_leftovers r" "p = rg_free r + SIZEOF_SIZE"
      "a' = a\<lparr>sa_regions := r\<lparr>rg_free := rg_free r + ?m\<rparr> # rs, sa_sizes := (sa_sizes a)(rg_free r := ?m)\<rparr>"
    using assms(1) by (auto simp: stack_take_def split: list.splits if_splits)
  have ok: "regions_ok (r # rs)" "blocks_ok (r # rs) (with_size ` live)"
    using assms(2) r(1) by (auto simp: stack_inv_def)
  have free: "\<forall>(q, k)\<in>live. q - SIZEOF_SIZE \<noteq> rg_free r"
    using free_not_in_use [OF ok] by (fastforce simp: with_size_def)
  have "0 < ?m" by (simp add: SIZEOF_SIZE_def)
  then show ?thesis
    using take_ok [OF ok(1) r(2)] take_blocks [OF ok r(2)] assms(2) r(3,4) free
    by (auto simp: stack_inv_def with_size_def)
qed

lemma stack_free_inv:
  assumes "stack_free a p = Some a'" "(p, n) \<in> live" "stack_inv (a, live)"
  shows "stack_inv (a', live - {(p, n)})"
proof -
  let ?q = "p - SIZEOF_SIZE" and ?m = "n + SIZEOF_SIZE"
  have ok: "regions_ok (sa_regions a)" "blocks_ok (sa_regions a) (with_size ` live)"
    and sizes: "\<forall>(p, n)\<in>live. SIZEOF_SIZE \<le> p \<and> sa_sizes a (p - SIZEOF_SIZE) = n + SIZEOF_SIZE"
    using assms(3) by (auto simp: stack_inv_def)
  have m: "sa_sizes a ?q = ?m" "(?q, ?m) \<in> with_size ` live" using sizes assms(2) by (force simp: with_size_def)+
  obtain r rs where r: "sa_regions a = r # rs" using assms(1) by (auto simp: stack_free_def split: list.splits)
  have sub: "with_size ` (live - {(p, n)}) = with_size ` live - {(?q, ?m)}"
    using inj_on_image_set_diff [OF with_size_inj [OF sizes], of live "{(p, n)}"] assms(2)
    by (simp add: with_size_def)
  show ?thesis
  proof (cases "?q + ?m = rg_free r")
    case True
    then have "a' = a\<lparr>sa_regions := r\<lparr>rg_free := ?q\<rparr> # rs\<rparr>"
      using assms(1) r m by (auto simp: stack_free_def Let_def)
    then show ?thesis using rewind_ok [of r rs "with_size ` live" ?q ?m] ok r m True sizes sub
      by (auto simp: stack_inv_def)
  next
    case False
    then have "a' = a" using assms(1) r m by (auto simp: stack_free_def Let_def split: if_splits)
    then show ?thesis using ok sizes blocks_ok_subset [OF ok(2), of "with_size ` (live - {(p, n)})"]
      by (auto simp: stack_inv_def)
  qed
qed

lemma stack_step_inv:
  assumes "stack_inv s" "stack_step s s'"
  shows "stack_inv s'"
  using assms(2)
proof (cases rule: stack_step.cases)
  case (s_allocate a b n a' p bs live)
  then have inv: "stack_inv (a, live)" using assms(1) by simp
  have small: "n + SIZEOF_SIZE < 2 ^ 64" using s_allocate(3) by (simp add: fresh_block_def)
  from s_allocate(4) small obtain rs where rs: "rs = sa_regions a \<or> rs = next_region (sa_regions a) (n + SIZEOF_SIZE) b"
    "stack_take (a\<lparr>sa_regions := rs\<rparr>) (n + SIZEOF_SIZE) = Some (a', p)"
    by (rule stack_allocate_cases)
  then have "stack_inv (a\<lparr>sa_regions := rs\<rparr>, live)"
    using inv next_region_ok [OF _ s_allocate(3)] next_region_blocks by (auto simp: stack_inv_def)
  then show ?thesis using stack_take_inv [OF rs(2)] s_allocate(2) by simp
next
  case (s_free p n live a a')
  then show ?thesis using stack_free_inv assms(1) by simp
next
  case (s_reset b a a' freed bs live)
  then obtain rs sizing where rs: "reset_regions (sa_regions a) (sa_sizing a) [b] = Some (rs, sizing, freed, bs)"
    "a' = a\<lparr>sa_regions := rs, sa_sizing := sizing\<rparr>"
    by (auto simp: stack_reset_def split: option.splits)
  have "regions_ok (sa_regions a)" using assms(1) s_reset(1) by (auto simp: stack_inv_def)
  from reset_ok [OF this rs(1)] show ?thesis using rs(2) s_reset(2,3) by (simp add: stack_inv_def blocks_ok_def)
qed

interpretation stack: transition_invariant stack_init stack_step stack_inv
proof unfold_locales
  fix s assume "stack_init s"
  then show "stack_inv s"
    using next_region_ok [of "[]"]
    by (auto simp: stack_init_def stack_inv_def new_stack_allocator_def blocks_ok_def regions_ok_def Let_def
        split: if_splits)
qed (rule stack_step_inv)

text \<open>
  C24: The stack allocator is safe for blocks of any size that does not wrap: after any sequence of
  allocations, returns and resets, the blocks in use and the sizes in front of them lie in the regions, no
  two of them overlap, and the memory in front of each block holds its size.
\<close>
theorem stack_allocator_safe:
  assumes "stack_init s" "stack_step\<^sup>*\<^sup>* s (a, live)"
  shows "(\<forall>(p, n)\<in>live. sa_sizes a (p - SIZEOF_SIZE) = n + SIZEOF_SIZE \<and>
            (\<exists>r\<in>set (sa_regions a). rg_base r + SIZEOF_SIZE \<le> p \<and> p + n \<le> rg_free r \<and> rg_free r \<le> rg_base r + rg_size r)) \<and>
         (\<forall>(p, n)\<in>live. \<forall>(q, m)\<in>live. (p, n) \<noteq> (q, m) \<longrightarrow> p + n + SIZEOF_SIZE \<le> q \<or> q + m + SIZEOF_SIZE \<le> p)"
proof -
  have "stack_inv (a, live)" using assms by (rule stack.reachable_inv)
  then have ok: "regions_ok (sa_regions a)" "blocks_ok (sa_regions a) (with_size ` live)"
    and sizes: "\<forall>(p, n)\<in>live. SIZEOF_SIZE \<le> p \<and> sa_sizes a (p - SIZEOF_SIZE) = n + SIZEOF_SIZE"
    by (auto simp: stack_inv_def)
  have "\<exists>r\<in>set (sa_regions a). rg_base r + SIZEOF_SIZE \<le> p \<and> p + n \<le> rg_free r \<and> rg_free r \<le> rg_base r + rg_size r"
    if l: "(p, n) \<in> live" for p n
  proof -
    obtain r where r: "r \<in> set (sa_regions a)" "inside (with_size (p, n)) r"
      using blocks_okD(2) [OF ok(2), of "with_size (p, n)"] l by blast
    moreover have "region_ok r" "SIZEOF_SIZE \<le> p" using r(1) ok(1) sizes l by (auto simp: regions_ok_def)
    ultimately show ?thesis by (intro bexI [of _ r]) (auto simp: with_size_def inside_def region_ok_def)
  qed
  moreover have "p + n + SIZEOF_SIZE \<le> q \<or> q + m + SIZEOF_SIZE \<le> p"
    if "(p, n) \<in> live" "(q, m) \<in> live" "(p, n) \<noteq> (q, m)" for p n q m
  proof -
    have le: "SIZEOF_SIZE \<le> p" "SIZEOF_SIZE \<le> q" using sizes that(1,2) by auto
    have "with_size (p, n) \<noteq> with_size (q, m)"
      using inj_onD [OF with_size_inj [OF sizes]] that by blast
    then have "disjoint (with_size (p, n)) (with_size (q, m))"
      using blocks_okD(3) [OF ok(2)] that(1,2) by blast
    then show ?thesis using le by (auto simp: with_size_def disjoint_def)
  qed
  ultimately show ?thesis using sizes by fast
qed

definition example_stack :: stack_allocator where
  "example_stack = \<lparr>sa_regions = next_region [] 64 1000, sa_sizing = 64, sa_sizes = (\<lambda>_. 0)\<rparr>"

theorem stack_allocator_safe_witness:
  "\<exists>a. stack_step\<^sup>*\<^sup>* (example_stack, {}) (a, {(1048, 0)}) \<and> sa_sizes a 1040 = 8"
proof -
  have "fresh_block [] 1000 64" "new_stack_allocator (\<lambda>_. 0) 64 [1000] = Some (example_stack, [])"
    by (simp_all add: new_stack_allocator_def fresh_block_def SIZEOF_REGION_def example_stack_def)
  then have init: "stack_init (example_stack, {})" unfolding stack_init_def by blast
  let ?a = "example_stack\<lparr>sa_regions := [\<lparr>rg_block = 1000, rg_free = 1048, rg_base = 1040, rg_size = 64\<rparr>],
    sa_sizes := (\<lambda>_. 0)(1040 := 8)\<rparr>"
  have "stack_allocate example_stack 0 [5000] = Some (?a, 1048, [5000])"
    by (simp add: stack_allocate_def stack_take_def region_leftovers_def example_stack_def next_region_def
        SIZEOF_REGION_def SIZEOF_SIZE_def Let_def)
  moreover have "fresh_block (sa_regions example_stack) 5000 (0 + SIZEOF_SIZE)"
    by (simp add: fresh_block_def region_bytes_def example_stack_def next_region_def SIZEOF_REGION_def SIZEOF_SIZE_def)
  ultimately have "stack_step (example_stack, {}) (?a, {(1048, 0)})"
    using s_allocate [of example_stack 5000 0 ?a 1048 "[5000]" "{}"] by simp
  then have "stack_step\<^sup>*\<^sup>* (example_stack, {}) (?a, {(1048, 0)})" by (rule r_into_rtranclp)
  then show ?thesis using stack_allocator_safe [OF init, of ?a "{(1048, 0)}"] by (auto simp: SIZEOF_SIZE_def)
qed

text \<open>
  The stack allocator adds the eight bytes of the size without a test: a request of \<open>2 ^ 64 - 8\<close>
  bytes or more wraps, succeeds, and reserves fewer than eight bytes.
\<close>
theorem stack_size_wraps:
  assumes "sa_regions a = r # rs" "2 ^ 64 - SIZEOF_SIZE \<le> n" "n < 2 ^ 64" "n + SIZEOF_SIZE - 2 ^ 64 \<le> region_leftovers r"
  shows "\<exists>a'. stack_allocate a n blocks = Some (a', rg_free r + SIZEOF_SIZE, blocks) \<and>
     rg_free (hd (sa_regions a')) - rg_free r < SIZEOF_SIZE"
proof -
  have "(n + SIZEOF_SIZE) mod 2 ^ 64 = n + SIZEOF_SIZE - 2 ^ 64"
    using assms(2,3) by (simp add: SIZEOF_SIZE_def mod_if)
  then show ?thesis using assms
    by (cases blocks) (auto simp: stack_allocate_def stack_take_def SIZEOF_SIZE_def Let_def)
qed

theorem stack_size_wraps_witness:
  "\<exists>a'. stack_allocate example_stack (2 ^ 64 - 1) [] = Some (a', 1048, []) \<and> rg_free (hd (sa_regions a')) - 1040 < 8"
  using stack_size_wraps [of example_stack "hd (next_region [] 64 1000)" "[]" "2 ^ 64 - 1" "[]"]
  by (simp add: example_stack_def next_region_def SIZEOF_SIZE_def SIZEOF_REGION_def region_leftovers_def)

end
