(* ===== verification/Variant.thy ===== *)
theory Variant
  imports Decimal_Text Codec Stringify
begin

text \<open>
  The tagged union \<^verbatim>\<open>variant\<close> and its makers \<^verbatim>\<open>var\<close> (\<^verbatim>\<open>core.h\<close>, \<^verbatim>\<open>core.cpp\<close>).  A text is a list of
  characters whether the union holds it in place or behind a pointer; an integer and a floating-point
  number are the 64 bits of the union.  The arithmetic of \<^verbatim>\<open>double\<close> is a parameter, the record
  \<open>floating\<close>.  \<open>VOther\<close> stands for a tag outside the enumeration, which a reader of
  binary data can store.
\<close>

section \<open>Data\<close>

datatype var_type = Null_type | Undefined_type | Object_type | Array_type | Pointer_type | String_type
  | Binary_type | Integer_type | Number_type | Decimal_type | Boolean_type | Other_type u8

datatype variant = VNull | VUndefined | VObject | VArray | VPointer u64 | VString string | VBinary string
  | VInteger u64 | VNumber u64 | VDecimal decimal | VBoolean bool | VOther u8

fun get_type :: "variant \<Rightarrow> var_type" where
  "get_type VNull = Null_type"
| "get_type VUndefined = Undefined_type"
| "get_type VObject = Object_type"
| "get_type VArray = Array_type"
| "get_type (VPointer p) = Pointer_type"
| "get_type (VString s) = String_type"
| "get_type (VBinary s) = Binary_type"
| "get_type (VInteger n) = Integer_type"
| "get_type (VNumber n) = Number_type"
| "get_type (VDecimal d) = Decimal_type"
| "get_type (VBoolean b) = Boolean_type"
| "get_type (VOther t) = Other_type t"

text \<open>
  What the sources use of \<^verbatim>\<open>double\<close>: \<^verbatim>\<open>from_chars\<close>, \<^verbatim>\<open>to_chars\<close> in fixed notation into 32 bytes (the
  empty text when they do not suffice), the casts and the arithmetic.
\<close>

record floating =
  fp_from_chars :: "string \<Rightarrow> u64 option"
  fp_to_chars :: "u64 \<Rightarrow> string"
  fp_of_int :: "int \<Rightarrow> u64"
  fp_to_int :: "u64 \<Rightarrow> u64"
  fp_add :: "u64 \<Rightarrow> u64 \<Rightarrow> u64"
  fp_sub :: "u64 \<Rightarrow> u64 \<Rightarrow> u64"
  fp_mul :: "u64 \<Rightarrow> u64 \<Rightarrow> u64"
  fp_div :: "u64 \<Rightarrow> u64 \<Rightarrow> u64"
  fp_less :: "u64 \<Rightarrow> u64 \<Rightarrow> bool"
  fp_equal :: "u64 \<Rightarrow> u64 \<Rightarrow> bool"
  fp_nan :: u64
  fp_epsilon :: u64

definition fp_abs :: "u64 \<Rightarrow> u64" where
  "fp_abs x = x AND 0x7FFFFFFFFFFFFFFF"

section \<open>Numbers and texts\<close>

text \<open>\<^verbatim>\<open>std::from_chars\<close> for integers: the longest run of digits, a minus sign only for the signed
  type; \<^const>\<open>None\<close> when there is no digit or the value is out of range.\<close>

definition from_chars_i64 :: "string \<Rightarrow> u64 option" where
  "from_chars_i64 s =
     (let neg = (s \<noteq> [] \<and> hd s = CHR ''-''); ds = takeWhile isdigit (if neg then tl s else s);
          v = (if neg then - parse_digits ds else parse_digits ds)
      in if ds = [] \<or> v < - (2 ^ 63) \<or> v \<ge> 2 ^ 63 then None else Some (word_of_int v))"

definition from_chars_u64 :: "string \<Rightarrow> u64 option" where
  "from_chars_u64 s =
     (let ds = takeWhile isdigit s
      in if ds = [] \<or> parse_digits ds \<ge> 2 ^ 64 then None else Some (word_of_int (parse_digits ds)))"

definition int64_text :: "u64 \<Rightarrow> string" where
  "int64_text n = to_chars (sint n)"

fun dec_scale :: "floating \<Rightarrow> nat \<Rightarrow> u64 \<Rightarrow> u64" where
  "dec_scale F 0 dec = dec"
| "dec_scale F (Suc aus) dec = dec_scale F aus (fp_div F dec (fp_of_int F 10))"

fun dec_digits_sum :: "floating \<Rightarrow> string \<Rightarrow> u64 \<Rightarrow> u64 \<Rightarrow> u64" where
  "dec_digits_sum F [] dec var = var"
| "dec_digits_sum F (symbol # source) dec var =
     dec_digits_sum F source (fp_mul F dec (fp_of_int F 10))
       (fp_add F var (fp_mul F (fp_of_int F (char_to_int symbol)) dec))"

definition dec_to_double :: "floating \<Rightarrow> decimal \<Rightarrow> u64" where
  "dec_to_double F d =
     (if is_nan d then fp_nan F
      else let dec = (if dec_length d > 0 then dec_scale F (nat (dec_length d)) (fp_of_int F 1) else fp_of_int F 1);
               var = dec_digits_sum F (dec_source d) dec (fp_of_int F 0)
           in if dec_sign d = CHR ''-'' then fp_mul F var (fp_of_int F (- 1)) else var)"

definition is_safe_number :: "floating \<Rightarrow> decimal \<Rightarrow> bool" where
  "is_safe_number F d =
     (if is_nan d then True
      else let numeric = dec_to_string d
           in if dec_is_fractional d then
                (case fp_from_chars F numeric of None \<Rightarrow> False | Some number \<Rightarrow> fp_to_chars F number = numeric)
              else if dec_is_positive d then
                (case from_chars_u64 numeric of None \<Rightarrow> False | Some number \<Rightarrow> to_chars (uint number) = numeric)
              else (case from_chars_i64 numeric of None \<Rightarrow> False | Some number \<Rightarrow> int64_text number = numeric))"

section \<open>Makers\<close>

text \<open>
  The length of a text is kept in 32 bits.  When it is the largest of them, the size of the buffer
  wraps around to zero and the copy runs over it: \<^const>\<open>None\<close>.
\<close>

definition kept_text :: "string \<Rightarrow> string option" where
  "kept_text s =
     (let length' = word_of_nat (length s) :: u32 in if length' = - 1 then None else Some (take (unat length') s))"

definition var_string :: "string \<Rightarrow> variant option" where
  "var_string s = map_option VString (kept_text s)"

definition var_binary :: "string \<Rightarrow> variant option" where
  "var_binary s = map_option VBinary (kept_text s)"

definition var_pointer :: "u64 \<Rightarrow> variant" where
  "var_pointer p = (if p = 0 then VNull else VPointer p)"

definition var_decimal_string :: "string \<Rightarrow> variant" where
  "var_decimal_string s = VDecimal (dec_of_text s)"

section \<open>Text form\<close>

text \<open>
  \<^verbatim>\<open>deserialize\<close> of a variant whose union holds the null pointer, as in \<^verbatim>\<open>var::any\<close> and in the reader
  of XML.  \<^const>\<open>None\<close> is an exception or an overrun.
\<close>

definition deserialize_text :: "string \<Rightarrow> variant option" where
  "deserialize_text t =
     (if length t > 2 \<and> hd t = CHR 0x60 \<and> last t = CHR 0x60
      then var_binary (bep45_decode (take (length t - 2) (drop 1 t)))
      else var_string t)"

definition deserialize_enum :: "string \<Rightarrow> variant option" where
  "deserialize_enum t =
     (if t = ''$null$'' then Some VNull
      else if t = ''$undefined$'' then Some VUndefined
      else if t = ''${}$'' then Some VObject
      else if t = ''$[]$'' then Some VArray
      else if t = ''$void*$'' then Some (VPointer 0)
      else deserialize_text t)"

definition deserialize_number :: "floating \<Rightarrow> string \<Rightarrow> variant option" where
  "deserialize_number F t =
     (if has_integer t then
        (case from_chars_i64 t of Some number \<Rightarrow> Some (VInteger number) | None \<Rightarrow> deserialize_text t)
      else case has_decimal t of
             None \<Rightarrow> None
           | Some True \<Rightarrow> Some (var_decimal_string t)
           | Some False \<Rightarrow>
               (case fp_from_chars F t of Some number \<Rightarrow> Some (VNumber number) | None \<Rightarrow> deserialize_text t))"

definition deserialize :: "floating \<Rightarrow> string \<Rightarrow> bool \<Rightarrow> variant option" where
  "deserialize F t strict =
     (if \<not> strict \<and> t \<noteq> [] then
        if length t > 2 \<and> hd t = CHR ''$'' \<and> last t = CHR ''$'' then deserialize_enum t
        else if hd t = CHR ''t'' \<and> t = ''true'' then Some (VBoolean True)
        else if hd t = CHR ''f'' \<and> t = ''false'' then Some (VBoolean False)
        else if has_number t then deserialize_number F t
        else deserialize_text t
      else deserialize_text t)"

fun serialize :: "floating \<Rightarrow> variant \<Rightarrow> string" where
  "serialize F VNull = ''$null$''"
| "serialize F VUndefined = ''$undefined$''"
| "serialize F VObject = ''${}$''"
| "serialize F VArray = ''$[]$''"
| "serialize F (VPointer p) = ''$void*$''"
| "serialize F (VString s) = s"
| "serialize F (VBinary s) = CHR 0x60 # bep45_encode s @ [CHR 0x60]"
| "serialize F (VDecimal d) = (if is_nan d then ''$null$'' else dec_to_string d)"
| "serialize F (VInteger n) = int64_text n"
| "serialize F (VNumber n) = fp_to_chars F n"
| "serialize F (VBoolean b) = (if b then ''true'' else ''false'')"
| "serialize F (VOther t) = []"

section \<open>Reading a value\<close>

fun get_string :: "variant \<Rightarrow> string" where
  "get_string (VString s) = s"
| "get_string (VBinary s) = s"
| "get_string v = []"

fun get_blob :: "floating \<Rightarrow> variant \<Rightarrow> string" where
  "get_blob F (VString s) = s"
| "get_blob F (VBinary s) = s"
| "get_blob F (VDecimal d) = dec_to_string d"
| "get_blob F (VInteger n) = int64_text n"
| "get_blob F (VNumber n) = fp_to_chars F n"
| "get_blob F (VBoolean b) = (if b then ''1'' else ''0'')"
| "get_blob F v = []"

fun get_decimal :: "floating \<Rightarrow> variant \<Rightarrow> decimal" where
  "get_decimal F (VDecimal d) = d"
| "get_decimal F (VInteger n) = dec_of_text (int64_text n)"
| "get_decimal F (VNumber n) = dec_of_text (fp_to_chars F n)"
| "get_decimal F (VBoolean b) = dec_of_text (if b then ''1'' else ''0'')"
| "get_decimal F (VString s) = dec_of_text s"
| "get_decimal F v = dec_nan"

fun get_pointer :: "variant \<Rightarrow> u64" where
  "get_pointer (VPointer p) = p"
| "get_pointer v = 0"

fun get_integer :: "floating \<Rightarrow> variant \<Rightarrow> u64" where
  "get_integer F (VInteger n) = n"
| "get_integer F (VNumber n) = fp_to_int F n"
| "get_integer F (VDecimal d) = fp_to_int F (dec_to_double F d)"
| "get_integer F (VBoolean b) = (if b then 1 else 0)"
| "get_integer F (VString s) = (case from_chars_i64 s of Some result \<Rightarrow> result | None \<Rightarrow> 0)"
| "get_integer F v = 0"

fun get_number :: "floating \<Rightarrow> variant \<Rightarrow> u64" where
  "get_number F (VNumber n) = n"
| "get_number F (VInteger n) = fp_of_int F (sint n)"
| "get_number F (VDecimal d) = dec_to_double F d"
| "get_number F (VBoolean b) = fp_of_int F (if b then 1 else 0)"
| "get_number F (VString s) = (case fp_from_chars F s of Some result \<Rightarrow> result | None \<Rightarrow> fp_of_int F 0)"
| "get_number F v = fp_of_int F 0"

text \<open>\<^verbatim>\<open>decimal::size\<close> is the size of the object, 40 bytes on x86-64, and of its digits, in 32 bits.\<close>

fun variant_size :: "variant \<Rightarrow> nat" where
  "variant_size (VPointer p) = 8"
| "variant_size (VString s) = length s"
| "variant_size (VBinary s) = length s"
| "variant_size (VDecimal d) = unat (word_of_nat (40 + length (dec_source d)) :: u32)"
| "variant_size (VInteger n) = 8"
| "variant_size (VNumber n) = 8"
| "variant_size (VBoolean b) = 1"
| "variant_size v = 0"

fun get_boolean :: "floating \<Rightarrow> variant \<Rightarrow> bool" where
  "get_boolean F (VBoolean b) = b"
| "get_boolean F (VNumber n) = fp_less F (fp_of_int F 0) n"
| "get_boolean F (VInteger n) = (sint n > 0)"
| "get_boolean F (VDecimal d) = fp_less F (fp_of_int F 0) (dec_to_double F d)"
| "get_boolean F v = (variant_size v > 0)"

definition is_object :: "variant \<Rightarrow> bool" where
  "is_object v \<longleftrightarrow> get_type v = Object_type \<or> get_type v = Array_type"

definition is_string :: "variant \<Rightarrow> string \<Rightarrow> bool" where
  "is_string v t \<longleftrightarrow> get_string v = t"

fun variant_empty :: "floating \<Rightarrow> variant \<Rightarrow> bool" where
  "variant_empty F VNull = True"
| "variant_empty F VUndefined = True"
| "variant_empty F VObject = False"
| "variant_empty F VArray = False"
| "variant_empty F (VPointer p) = (p = 0)"
| "variant_empty F (VString s) = (length s = 0)"
| "variant_empty F (VBinary s) = (length s = 0)"
| "variant_empty F (VDecimal d) = fp_equal F (dec_to_double F d) (fp_of_int F 0)"
| "variant_empty F (VInteger n) = (n = 0)"
| "variant_empty F (VNumber n) = fp_equal F n (fp_of_int F 0)"
| "variant_empty F (VBoolean b) = (\<not> b)"
| "variant_empty F (VOther t) = True"

definition same :: "floating \<Rightarrow> variant \<Rightarrow> variant \<Rightarrow> bool" where
  "same F v other =
     (if get_type v \<noteq> get_type other then False
      else case v of
             VNull \<Rightarrow> True
           | VUndefined \<Rightarrow> True
           | VPointer p \<Rightarrow> get_pointer v = get_pointer other
           | VString s \<Rightarrow> variant_size v = variant_size other \<and> get_string v = get_string other
           | VBinary s \<Rightarrow> variant_size v = variant_size other \<and> get_string v = get_string other
           | VDecimal d \<Rightarrow> dec_eq d (get_decimal F other)
           | VInteger n \<Rightarrow> get_integer F v = get_integer F other
           | VNumber n \<Rightarrow> fp_less F (fp_abs (fp_sub F (get_number F v) (get_number F other))) (fp_epsilon F)
           | VBoolean b \<Rightarrow> get_boolean F v = get_boolean F other
           | _ \<Rightarrow> False)"

section \<open>Copying and moving\<close>

text \<open>A copy owns a buffer or decimal of its own, so it is the same value; a move leaves the
  source undefined.\<close>

definition variant_copy :: "variant \<Rightarrow> variant" where
  "variant_copy other = other"

definition variant_move :: "variant \<Rightarrow> variant \<times> variant" where
  "variant_move other = (other, VUndefined)"

end
