(* ===== verification/Schema.thy ===== *)
theory Schema
  imports Variant
begin

text \<open>
  The document tree \<^verbatim>\<open>schema\<close> (\<^verbatim>\<open>core.h\<close>, \<^verbatim>\<open>core.cpp\<close>) as a value: a key, a variant, the flag \<^verbatim>\<open>saved\<close> and
  the children; \<^const>\<open>None\<close> is a null pointer in place of the vector of the children.  Here are the
  operations that only read a tree or rewrite it in place.  What the owner of a tree sees of the
  pointers between parents and children is the subject of \<open>Schema_Heap\<close>.
\<close>

section \<open>Data\<close>

datatype schema = Schema (sch_key: string) (sch_value: variant) (sch_saved: bool) (sch_nodes: "schema list option")

definition new_schema :: "variant \<Rightarrow> schema" where
  "new_schema base = Schema [] base True None"

definition children :: "schema \<Rightarrow> schema list" where
  "children t = (case sch_nodes t of None \<Rightarrow> [] | Some ns \<Rightarrow> ns)"

lemma children_simps [simp]: "children (Schema k v s None) = []" "children (Schema k v s (Some ns)) = ns"
  by (simp_all add: children_def)

lemma size_children: "x \<in> set (children t) \<Longrightarrow> size x < size t"
  using size_list_estimation' [of x "children t" "size x" size]
  by (cases t rule: schema.exhaust) (auto simp: children_def split: option.splits)

lemma size_children_Schema [termination_simp]: "x \<in> set (children (Schema k v s ns)) \<Longrightarrow> size x < Suc (size_option (size_list size) ns)"
  using size_children [of x "Schema k v s ns"] by simp

section \<open>Queries\<close>

definition schema_empty :: "schema \<Rightarrow> bool" where
  "schema_empty t \<longleftrightarrow> children t = []"

definition schema_size :: "schema \<Rightarrow> nat" where
  "schema_size t = length (children t)"

definition is_attribute :: "schema \<Rightarrow> bool" where
  "is_attribute t \<longleftrightarrow> \<not> length (sch_key t) < 2 \<and> hd (sch_key t) = CHR '':''"

definition get_name :: "schema \<Rightarrow> string" where
  "get_name t = (if is_attribute t then drop 1 (sch_key t) else sch_key t)"

definition get_attributes :: "schema \<Rightarrow> schema list" where
  "get_attributes t = filter is_attribute (children t)"

definition schema_get :: "schema \<Rightarrow> string \<Rightarrow> schema option" where
  "schema_get t name = List.find (\<lambda>k. sch_key k = name) (children t)"

definition get_attribute :: "schema \<Rightarrow> string \<Rightarrow> schema option" where
  "get_attribute t name = schema_get t (CHR '':'' # name)"

definition get_var :: "schema \<Rightarrow> string \<Rightarrow> variant" where
  "get_var t fkey = (case schema_get t fkey of None \<Rightarrow> VUndefined | Some r \<Rightarrow> sch_value r)"

definition get_attribute_var :: "schema \<Rightarrow> string \<Rightarrow> variant" where
  "get_attribute_var t name = get_var t (CHR '':'' # name)"

text \<open>
  \<^verbatim>\<open>find\<close> takes a name that looks like an integer for an index.  The outer \<^const>\<open>None\<close> is the panic of
  \<^verbatim>\<open>operator*\<close> when the name is not an integer of 64 bits without sign; the inner one is a null pointer.
  A deep search calls \<^verbatim>\<open>find(name)\<close> on the children, whose own \<^verbatim>\<open>deep\<close> is false.
\<close>

definition find_index :: "schema list \<Rightarrow> string \<Rightarrow> schema option option" where
  "find_index ns name =
     (if has_integer name then
        (case from_chars_u64 name of
           None \<Rightarrow> None
         | Some index \<Rightarrow> Some (if unat index < length ns then Some (ns ! unat index) else None))
      else Some None)"

definition find_flat :: "schema \<Rightarrow> string \<Rightarrow> schema option option" where
  "find_flat t name =
     (case sch_nodes t of
        None \<Rightarrow> Some None
      | Some ns \<Rightarrow>
          (case find_index ns name of
             None \<Rightarrow> None
           | Some (Some r) \<Rightarrow> Some (Some r)
           | Some None \<Rightarrow> Some (List.find (\<lambda>k. sch_key k = name) ns)))"

fun find_deep_loop :: "schema list \<Rightarrow> string \<Rightarrow> schema option option" where
  "find_deep_loop [] name = Some None"
| "find_deep_loop (k # ns) name =
     (if sch_key k = name then Some (Some k)
      else case find_flat k name of
             None \<Rightarrow> None
           | Some (Some r) \<Rightarrow> Some (Some r)
           | Some None \<Rightarrow> find_deep_loop ns name)"

definition schema_find :: "schema \<Rightarrow> string \<Rightarrow> bool \<Rightarrow> schema option option" where
  "schema_find t name deep =
     (if \<not> deep then find_flat t name
      else case sch_nodes t of
             None \<Rightarrow> Some None
           | Some ns \<Rightarrow>
               (case find_index ns name of
                  None \<Rightarrow> None
                | Some (Some r) \<Rightarrow> Some (Some r)
                | Some None \<Rightarrow> find_deep_loop ns name))"

fun fetch_path :: "schema \<Rightarrow> string list \<Rightarrow> bool \<Rightarrow> schema option option" where
  "fetch_path current [] deep = Some (Some current)"
| "fetch_path current (name # names) deep =
     (case schema_find current name deep of
        None \<Rightarrow> None
      | Some None \<Rightarrow> Some None
      | Some (Some next) \<Rightarrow> fetch_path next names deep)"

definition fetch :: "schema \<Rightarrow> string \<Rightarrow> bool \<Rightarrow> schema option option" where
  "fetch t path deep =
     (case split_symbol path (CHR ''.'') 0 of
        None \<Rightarrow> None
      | Some names \<Rightarrow> if names = [] then Some None else fetch_path t names deep)"

definition fetch_var :: "schema \<Rightarrow> string \<Rightarrow> bool \<Rightarrow> variant option" where
  "fetch_var t fkey deep = map_option (\<lambda>r. case r of None \<Rightarrow> VUndefined | Some s \<Rightarrow> sch_value s) (fetch t fkey deep)"

definition schema_has :: "schema \<Rightarrow> string \<Rightarrow> bool option" where
  "schema_has t name = map_option (\<lambda>r. r \<noteq> None) (fetch t name False)"

definition has_attribute :: "schema \<Rightarrow> string \<Rightarrow> bool option" where
  "has_attribute t name = map_option (\<lambda>r. r \<noteq> None) (fetch t (CHR '':'' # name) False)"

definition find_collection :: "schema \<Rightarrow> string \<Rightarrow> bool \<Rightarrow> schema list" where
  "find_collection t name deep =
     concat (map (\<lambda>x. (if sch_key x = name then [x] else [])
                      @ (if deep then filter (\<lambda>y. sch_key y = name) (children x) else [])) (children t))"

definition fetch_collection :: "schema \<Rightarrow> string \<Rightarrow> bool \<Rightarrow> schema list option" where
  "fetch_collection t path deep =
     (case split_symbol path (CHR ''.'') 0 of
        None \<Rightarrow> None
      | Some names \<Rightarrow>
          if names = [] then Some []
          else if length names = 1 then Some (find_collection t (hd names) False)
          else case fetch_path t (butlast names) deep of
                 None \<Rightarrow> None
               | Some None \<Rightarrow> Some []
               | Some (Some current) \<Rightarrow> Some (find_collection current (last names) deep))"

section \<open>Rewriting in place\<close>

fun schema_copy :: "schema \<Rightarrow> schema" where
  "schema_copy (Schema k v s ns) = Schema k (variant_copy v) s (map_option (map schema_copy) ns)"

fun schema_save :: "schema \<Rightarrow> schema" where
  "schema_save (Schema k v s ns) =
     Schema k v True (map_option (map (\<lambda>x. if is_object (sch_value x) then schema_save x
        else Schema (sch_key x) (sch_value x) True (sch_nodes x))) ns)"

fun transform :: "(string \<Rightarrow> string) \<Rightarrow> schema \<Rightarrow> schema" where
  "transform callback (Schema k v s ns) = Schema (callback k) v s (map_option (map (transform callback)) ns)"

section \<open>The table of names\<close>

text \<open>\<^verbatim>\<open>generate_naming_table\<close>: the table in the order in which it was filled, and the next index.\<close>

definition name_entry :: "string \<Rightarrow> (string \<times> nat) list \<times> nat \<Rightarrow> (string \<times> nat) list \<times> nat" where
  "name_entry k st = (case st of (tab, index) \<Rightarrow>
     if k \<noteq> [] \<and> map_of tab k = None then (tab @ [(k, index)], index + 1) else (tab, index))"

fun generate_naming_table :: "schema \<Rightarrow> (string \<times> nat) list \<times> nat \<Rightarrow> (string \<times> nat) list \<times> nat" where
  "generate_naming_table (Schema k v s ns) st =
     fold generate_naming_table (children (Schema k v s ns)) (name_entry k st)"

definition get_names :: "schema \<Rightarrow> (string \<times> nat) list" where
  "get_names t = fst (generate_naming_table t ([], 0))"

end
