(* ===== verification/Schema_Binary.thy ===== *)
theory Schema_Binary
  imports Schema Endian
begin

text \<open>
  The binary form of a \<^verbatim>\<open>schema\<close> (\<^verbatim>\<open>convert_to_jsonb\<close>, \<^verbatim>\<open>convert_from_jsonb\<close> and their helpers): a
  version, a dictionary of the names, and the nodes in preorder.  The order in which the
  dictionary, an \<^verbatim>\<open>unordered_map\<close>, is written is a parameter.  The reader is driven by the callback of
  \<^verbatim>\<open>from_jsonb\<close>, which copies from a buffer; its recursion is over a fuel for the depth, and
  \<open>from_jsonb\<close> passes one more than the length of the buffer.
\<close>

section \<open>Writing\<close>

definition jsonb_version :: u64 where
  "jsonb_version = 0xef1033dd"

definition word_text :: "'a::len word \<Rightarrow> string" where
  "word_text w = map byte_char (mem_bytes (to_endianness little w))"

fun type_byte :: "var_type \<Rightarrow> u8" where
  "type_byte Null_type = 0"
| "type_byte Undefined_type = 1"
| "type_byte Object_type = 2"
| "type_byte Array_type = 3"
| "type_byte Pointer_type = 4"
| "type_byte String_type = 5"
| "type_byte Binary_type = 6"
| "type_byte Integer_type = 7"
| "type_byte Number_type = 8"
| "type_byte Decimal_type = 9"
| "type_byte Boolean_type = 10"
| "type_byte (Other_type t) = t"

definition jsonb_text :: "string \<Rightarrow> string" where
  "jsonb_text s = (let n = word_of_nat (length s) :: u32 in word_text n @ take (unat n) s)"

definition jsonb_short_text :: "string \<Rightarrow> string" where
  "jsonb_short_text s = (let n = word_of_nat (length s) :: u16 in word_text n @ take (unat n) s)"

text \<open>What follows the type of a value that has no children.\<close>

fun jsonb_scalar :: "variant \<Rightarrow> string" where
  "jsonb_scalar (VString s) = jsonb_text s"
| "jsonb_scalar (VBinary s) = jsonb_text s"
| "jsonb_scalar (VDecimal d) = jsonb_short_text (dec_to_string d)"
| "jsonb_scalar (VInteger n) = word_text n"
| "jsonb_scalar (VNumber n) = word_text n"
| "jsonb_scalar (VBoolean b) = [if b then CHR 0x01 else CHR 0x00]"
| "jsonb_scalar v = []"

definition jsonb_key :: "(string \<times> nat) list \<Rightarrow> string \<Rightarrow> string option" where
  "jsonb_key m k =
     (if k = [] then Some (word_text (- 1 :: u32)) else map_option (\<lambda>i. word_text (word_of_nat i :: u32)) (map_of m k))"

text \<open>\<^const>\<open>None\<close> is the exception of \<^verbatim>\<open>map->at\<close> for a name that is not in the dictionary.\<close>

fun process_convertion_to_jsonb :: "(string \<times> nat) list \<Rightarrow> schema \<Rightarrow> string option" where
  "process_convertion_to_jsonb m (Schema k v s ns) =
     (case jsonb_key m k of
        None \<Rightarrow> None
      | Some key \<Rightarrow>
          let tag = [byte_char (type_byte (get_type v))] in
          if is_object v then
            let count = word_of_nat (length (children (Schema k v s ns))) :: u32
            in if count > 0 then
                 map_option (\<lambda>items. key @ tag @ word_text count @ concat items)
                   (those (map (process_convertion_to_jsonb m) (children (Schema k v s ns))))
               else Some (key @ tag @ word_text count)
          else Some (key @ tag @ jsonb_scalar v))"

definition jsonb_name :: "string \<times> nat \<Rightarrow> string" where
  "jsonb_name e =
     (let name_size = word_of_nat (length (fst e)) :: u16
      in word_text (word_of_nat (snd e) :: u32) @ word_text name_size
         @ (if name_size > 0 then take (unat name_size) (fst e) else []))"

definition to_jsonb :: "((string \<times> nat) list \<Rightarrow> (string \<times> nat) list) \<Rightarrow> schema \<Rightarrow> string option" where
  "to_jsonb iteration base =
     (let mapping = get_names base
      in map_option (\<lambda>body. word_text jsonb_version @ word_text (word_of_nat (length mapping) :: u32)
             @ concat (map jsonb_name (iteration mapping)) @ body)
           (process_convertion_to_jsonb mapping base))"

section \<open>Reading\<close>

text \<open>The errors of the reader; \<open>Text_overrun\<close> is the overrun of \<^verbatim>\<open>var::string\<close> and \<^verbatim>\<open>var::binary\<close>.\<close>

datatype parser_error = Bad_version | Bad_dictionary | Bad_name_index | Bad_name | Bad_key_name | Bad_key_type
  | Bad_value | Bad_string | Bad_integer | Bad_double | Bad_boolean | Text_overrun

definition read_bytes :: "nat \<Rightarrow> string \<Rightarrow> (string \<times> string) option" where
  "read_bytes n inp = (if n > length inp then None else Some (take n inp, drop n inp))"

definition text_word :: "string \<Rightarrow> 'a::len word" where
  "text_word s = to_endianness little (mem_word (map uchar s))"

definition read_word :: "string \<Rightarrow> ('a::len word \<times> string) option" where
  "read_word inp = map_option (\<lambda>(s, rest). (text_word s, rest)) (read_bytes (LENGTH('a) div 8) inp)"

text \<open>The dictionary: names of length zero are skipped, and the first of two entries stays.\<close>

fun read_names :: "nat \<Rightarrow> string \<Rightarrow> (nat \<times> string) list \<Rightarrow> parser_error + (nat \<times> string) list \<times> string" where
  "read_names 0 inp m = Inr (m, inp)"
| "read_names (Suc n) inp m =
     (case read_word inp :: (u32 \<times> string) option of
        None \<Rightarrow> Inl Bad_name_index
      | Some (index, inp1) \<Rightarrow>
          (case read_word inp1 :: (u16 \<times> string) option of
             None \<Rightarrow> Inl Bad_name
           | Some (name_size, inp2) \<Rightarrow>
               if name_size = 0 then read_names n inp2 m
               else case read_bytes (unat name_size) inp2 of
                      None \<Rightarrow> Inl Bad_name
                    | Some (name, inp3) \<Rightarrow>
                        read_names n inp3 (if map_of m (unat index) = None then m @ [(unat index, name)] else m)))"

definition read_key :: "(nat \<times> string) list \<Rightarrow> u32 \<Rightarrow> string" where
  "read_key m i =
     (if i \<noteq> - 1 then (case map_of m (unat (to_endianness little i)) of None \<Rightarrow> [] | Some name \<Rightarrow> name) else [])"

definition jsonb_text_value :: "(string \<Rightarrow> variant option) \<Rightarrow> string \<Rightarrow> parser_error + variant \<times> string" where
  "jsonb_text_value maker inp =
     (case read_word inp :: (u32 \<times> string) option of
        None \<Rightarrow> Inl Bad_value
      | Some (n, inp1) \<Rightarrow>
          (case read_bytes (unat n) inp1 of
             None \<Rightarrow> Inl Bad_string
           | Some (s, inp2) \<Rightarrow> (case maker s of None \<Rightarrow> Inl Text_overrun | Some v \<Rightarrow> Inr (v, inp2))))"

definition decimal_value :: "string \<Rightarrow> parser_error + variant \<times> string" where
  "decimal_value inp =
     (case read_word inp :: (u16 \<times> string) option of
        None \<Rightarrow> Inl Bad_value
      | Some (n, inp1) \<Rightarrow>
          (case read_bytes (unat n) inp1 of
             None \<Rightarrow> Inl Bad_string
           | Some (s, inp2) \<Rightarrow> Inr (var_decimal_string s, inp2)))"

definition word_value :: "parser_error \<Rightarrow> (u64 \<Rightarrow> variant) \<Rightarrow> string \<Rightarrow> parser_error + variant \<times> string" where
  "word_value err maker inp = (case read_word inp of None \<Rightarrow> Inl err | Some (n, inp1) \<Rightarrow> Inr (maker n, inp1))"

definition boolean_value :: "string \<Rightarrow> parser_error + variant \<times> string" where
  "boolean_value inp =
     (case read_bytes 1 inp of None \<Rightarrow> Inl Bad_boolean | Some (b, inp1) \<Rightarrow> Inr (VBoolean (b \<noteq> [CHR 0x00]), inp1))"

definition read_scalar :: "u8 \<Rightarrow> string \<Rightarrow> parser_error + variant \<times> string" where
  "read_scalar tag inp =
     (if tag = 5 then jsonb_text_value var_string inp
      else if tag = 6 then jsonb_text_value var_binary inp
      else if tag = 7 then word_value Bad_integer VInteger inp
      else if tag = 8 then word_value Bad_double VNumber inp
      else if tag = 9 then decimal_value inp
      else if tag = 10 then boolean_value inp
      else Inr (if tag = 0 then VNull else if tag = 1 then VUndefined else if tag = 4 then VPointer 0 else VOther tag, inp))"

fun read_items :: "(string \<Rightarrow> (parser_error + schema \<times> string) option) \<Rightarrow> nat \<Rightarrow> string
    \<Rightarrow> (parser_error + schema list \<times> string) option" where
  "read_items reader 0 inp = Some (Inr ([], inp))"
| "read_items reader (Suc n) inp =
     (case reader inp of
        None \<Rightarrow> None
      | Some (Inl e) \<Rightarrow> Some (Inl e)
      | Some (Inr (item, inp1)) \<Rightarrow>
          (case read_items reader n inp1 of
             None \<Rightarrow> None
           | Some (Inl e) \<Rightarrow> Some (Inl e)
           | Some (Inr (items, inp2)) \<Rightarrow> Some (Inr (item # items, inp2))))"

definition read_children :: "(string \<Rightarrow> (parser_error + schema \<times> string) option) \<Rightarrow> string \<Rightarrow> variant \<Rightarrow> string
    \<Rightarrow> (parser_error + schema \<times> string) option" where
  "read_children reader key v inp =
     (case read_word inp :: (u32 \<times> string) option of
        None \<Rightarrow> Some (Inl Bad_value)
      | Some (count, inp1) \<Rightarrow>
          if count = 0 then Some (Inr (Schema key v True None, inp1))
          else case read_items reader (unat count) inp1 of
                 None \<Rightarrow> None
               | Some (Inl e) \<Rightarrow> Some (Inl e)
               | Some (Inr (items, inp2)) \<Rightarrow> Some (Inr (Schema key v True (Some items), inp2)))"

fun process_convertion_from_jsonb :: "nat \<Rightarrow> (nat \<times> string) list \<Rightarrow> string \<Rightarrow> (parser_error + schema \<times> string) option" where
  "process_convertion_from_jsonb 0 m inp = None"
| "process_convertion_from_jsonb (Suc fuel) m inp =
     (case read_bytes 4 inp of
        None \<Rightarrow> Some (Inl Bad_key_name)
      | Some (i, inp1) \<Rightarrow>
          let key = read_key m (mem_word (map uchar i)) in
          case read_bytes 1 inp1 of
            None \<Rightarrow> Some (Inl Bad_key_type)
          | Some (tags, inp2) \<Rightarrow>
              let tag = uchar (hd tags) in
              if tag = 2 then read_children (process_convertion_from_jsonb fuel m) key VObject inp2
              else if tag = 3 then read_children (process_convertion_from_jsonb fuel m) key VArray inp2
              else case read_scalar tag inp2 of
                     Inl e \<Rightarrow> Some (Inl e)
                   | Inr (v, inp3) \<Rightarrow> Some (Inr (Schema key v True None, inp3)))"

definition convert_from_jsonb :: "nat \<Rightarrow> string \<Rightarrow> (parser_error + schema \<times> string) option" where
  "convert_from_jsonb fuel inp =
     (case read_word inp :: (u64 \<times> string) option of
        None \<Rightarrow> Some (Inl Bad_version)
      | Some (version, inp1) \<Rightarrow>
          if version \<noteq> jsonb_version then Some (Inl Bad_version)
          else case read_word inp1 :: (u32 \<times> string) option of
                 None \<Rightarrow> Some (Inl Bad_dictionary)
               | Some (n, inp2) \<Rightarrow>
                   (case read_names (unat n) inp2 [] of
                      Inl e \<Rightarrow> Some (Inl e)
                    | Inr (m, inp3) \<Rightarrow> process_convertion_from_jsonb fuel m inp3))"

definition from_jsonb :: "string \<Rightarrow> (parser_error + schema) option" where
  "from_jsonb binary = map_option (map_sum id fst) (convert_from_jsonb (Suc (length binary)) binary)"

end
