(* ===== verification/Variant_Laws.thy ===== *)
theory Variant_Laws
  imports Variant Decimal_Conv Codec_Base45 Stringify_Laws
begin

text \<open>
  Texts of variants: integers, binary data and the enumerated values are read back from their text; a
  text that is not read as something else stays a text.
\<close>

section \<open>Short texts\<close>

lemma unat_small: "n < 2 ^ LENGTH('a) \<Longrightarrow> unat (word_of_nat n :: 'a::len word) = n"
  by (simp add: unsigned_of_nat take_bit_nat_eq_self)

lemma unat_minus_one32: "unat (- 1 :: u32) = 2 ^ 32 - 1"
  by (simp add: unsigned_minus_1_eq_mask mask_eq_exp_minus_1)

lemma kept_text_small: "length s < 2 ^ 32 - 1 \<Longrightarrow> kept_text s = Some s"
proof -
  assume "length s < 2 ^ 32 - 1"
  moreover then have u: "unat (word_of_nat (length s) :: u32) = length s" by (intro unat_small) simp
  moreover note unat_minus_one32
  ultimately have "(word_of_nat (length s) :: u32) \<noteq> - 1" by (metis order_less_irrefl)
  with u show ?thesis by (simp add: kept_text_def)
qed

section \<open>Integers\<close>

lemma takeWhile_digits: "digits s \<Longrightarrow> takeWhile isdigit s = s"
  by (simp add: list_all_iff takeWhile_eq_all_conv)

lemma to_chars_cases:
  obtains ds where "digits ds" "ds \<noteq> []" "parse_digits ds = \<bar>n\<bar>" "n \<noteq> 0 \<Longrightarrow> hd ds \<noteq> CHR ''0''" "n = 0 \<Longrightarrow> ds = ''0''"
    "to_chars n = (if n < 0 then ''-'' else []) @ ds"
proof -
  let ?ds = "rev (nat_digits_rev (nat \<bar>n\<bar>))"
  note d = nat_digits_rev_correct [of "nat \<bar>n\<bar>"]
  have "parse_digits ?ds = \<bar>n\<bar>" using d by (simp add: parse_digits_rev)
  moreover have "rev (nat_digits_rev 0) = ''0''" by code_simp
  then have "n = 0 \<Longrightarrow> ?ds = ''0''" by simp
  ultimately show ?thesis using that [of ?ds] d by (auto simp: to_chars_def hd_rev list_all_iff)
qed

lemma from_chars_to_chars:
  assumes "- (2 ^ 63) \<le> n" "n < 2 ^ 63"
  shows "from_chars_i64 (to_chars n) = Some (word_of_int n)"
proof -
  obtain ds where ds: "digits ds" "ds \<noteq> []" "parse_digits ds = \<bar>n\<bar>" "to_chars n = (if n < 0 then ''-'' else []) @ ds"
    by (rule to_chars_cases [of n])
  have "hd ds \<noteq> CHR ''-''" using ds(1,2) by (cases ds) auto
  then show ?thesis using ds assms by (simp add: from_chars_i64_def takeWhile_digits Let_def)
qed

lemma from_chars_int64_text: "from_chars_i64 (int64_text n) = Some n"
  using from_chars_to_chars [of "sint n"] sint_greater_eq [of n] sint_less [of n] by (simp add: int64_text_def)

lemma int64_text_integer: "has_integer (int64_text n)"
proof -
  obtain ds where "digits ds" "ds \<noteq> []" "to_chars (sint n) = (if sint n < 0 then ''-'' else []) @ ds"
    by (rule to_chars_cases [of "sint n"])
  then show ?thesis unfolding has_integer_iff int64_text_def
    by (intro exI [of _ "if sint n < 0 then ''-'' else []"] exI [of _ ds]) auto
qed

section \<open>Numbers\<close>

lemma is_numeric_digit: "is_numeric = isdigit"
  by (simp add: is_numeric_def fun_eq_iff)

lemma has_number_loop_digits: "digits ds \<Longrightarrow> has_number_loop (ds @ rest) n p = has_number_loop rest (n + length ds) p"
  by (induction ds arbitrary: n) (simp_all add: is_numeric_digit)

lemma has_number_loop_last: "has_number_loop s n p \<Longrightarrow> s = [] \<or> last s \<noteq> CHR ''.''"
  by (induction s n p rule: has_number_loop.induct) (auto simp: is_numeric_digit split: if_splits)

lemma has_number_shape:
  "has_number t \<Longrightarrow> t \<noteq> [] \<and> last t \<noteq> CHR ''.'' \<and> hd t \<in> {c. isdigit c} \<union> {CHR ''+'', CHR ''-'', CHR ''.''}"
proof -
  assume t: "has_number t"
  then obtain c s where c: "t = c # s" by (cases t) (auto simp: has_number_def)
  have loop: "has_number_loop (drop (sign_offset t) t) 0 0" using t by (auto simp: has_number_def split: if_splits)
  show ?thesis
  proof (cases "c = CHR ''+'' \<or> c = CHR ''-''")
    case True
    then have "has_number_loop s 0 0" using loop c by (simp add: sign_offset_def)
    then show ?thesis using has_number_loop_last [of s 0 0] True c by (cases s) auto
  next
    case False
    then have "has_number_loop t 0 0" using loop c by (simp add: sign_offset_def)
    then show ?thesis using has_number_loop_last [of t 0 0] False c by (auto simp: is_numeric_digit split: if_splits)
  qed
qed

lemma has_integer_number: "has_integer t \<Longrightarrow> has_number t"
proof -
  assume t: "has_integer t"
  then have "list_all is_numeric (drop (sign_offset t) t)" "drop (sign_offset t) t \<noteq> []"
    by (auto simp: has_integer_def Let_def split: if_splits)
  then have "has_number_loop (drop (sign_offset t) t) 0 0"
    using has_number_loop_digits [of "drop (sign_offset t) t" "[]" 0 0] by (simp add: is_numeric_digit)
  then show ?thesis using t by (auto simp: has_number_def has_integer_def split: if_splits)
qed

text \<open>The exception of \<^verbatim>\<open>has_decimal\<close> needs a text that ends with a point, and such a text is not a number.\<close>

lemma has_decimal_defined: "t = [] \<or> last t \<noteq> CHR ''.'' \<Longrightarrow> \<exists>b. has_decimal t = Some b"
proof (cases "ts_found (find_symbol t (CHR ''.'') 0) \<and> length t < Suc (ts_end (find_symbol t (CHR ''.'') 0))")
  case True
  assume last: "t = [] \<or> last t \<noteq> CHR ''.''"
  have "0 \<le> length t" by simp
  then have "t \<noteq> [] \<and> last t = CHR ''.''"
  proof (cases rule: find_symbol.finder_cases [of 0 t "CHR ''.''"])
    case none
    then show ?thesis using True by (simp add: not_settled_def)
  next
    case (found c u)
    then have "u = []" using True by (simp add: settled_def)
    then have "t = takeWhile (\<lambda>c. c \<noteq> CHR ''.'') t @ [CHR ''.'']"
      using found(1,4) by (metis drop0 takeWhile_dropWhile_id)
    then show ?thesis by (metis last_snoc snoc_eq_iff_butlast)
  qed
  then show ?thesis using last by simp
next
  case False
  then show ?thesis by (auto simp: has_decimal_def Let_def)
qed

section \<open>Reading back\<close>

lemma deserialize_text_small: "length t < 2 ^ 32 - 1 \<Longrightarrow> \<exists>v. deserialize_text t = Some v"
proof -
  assume t: "length t < 2 ^ 32 - 1"
  let ?s = "take (length t - 2) (drop 1 t)"
  have "length (bep45_decode ?s) \<le> length ?s"
    using length_base45_decode [of "foldl (\<lambda>r (a, b). replace_char r a b) ?s (zip bep45_to bep45_from)"]
    by (simp add: bep45_decode_def foldl_replace_char split: if_splits)
  then have "length (bep45_decode ?s) < 2 ^ 32 - 1" using t by simp
  then show ?thesis using t kept_text_small by (simp add: deserialize_text_def var_binary_def var_string_def)
qed

text \<open>A text that is read as something else than itself.\<close>

definition special_text :: "string \<Rightarrow> bool" where
  "special_text t \<longleftrightarrow> t \<in> {''$null$'', ''$undefined$'', ''${}$'', ''$[]$'', ''$void*$'', ''true'', ''false''} \<or> has_number t
     \<or> length t > 2 \<and> hd t = CHR 0x60 \<and> last t = CHR 0x60"

lemma deserialize_plain: "\<not> special_text t \<Longrightarrow> deserialize F t b = var_string t"
  by (auto simp: special_text_def deserialize_def deserialize_enum_def deserialize_text_def)

lemma deserialize_integer: "deserialize F (int64_text n) False = Some (VInteger n)"
proof -
  have i: "has_integer (int64_text n)" by (rule int64_text_integer)
  note shape = has_number_shape [OF has_integer_number [OF i]]
  then show ?thesis using i by (auto simp: deserialize_def deserialize_number_def from_chars_int64_text has_integer_number isdigit_def)
qed

lemma deserialize_enumerated:
  "deserialize F ''$null$'' False = Some VNull" "deserialize F ''$undefined$'' False = Some VUndefined"
  "deserialize F ''${}$'' False = Some VObject" "deserialize F ''$[]$'' False = Some VArray"
  "deserialize F ''$void*$'' False = Some (VPointer 0)"
  "deserialize F ''true'' False = Some (VBoolean True)" "deserialize F ''false'' False = Some (VBoolean False)"
  by (simp_all add: deserialize_def deserialize_enum_def)

lemma deserialize_binary:
  assumes "s \<noteq> []" "length s < 2 ^ 32 - 1"
  shows "deserialize F (serialize F (VBinary s)) False = Some (VBinary s)"
proof -
  have "length (bep45_encode s) = 3 * (length s div 2) + 2 * (length s mod 2)"
    using length_base45_encode [of s] by (simp add: bep45_encode_def foldl_replace_char)
  moreover have "0 < length s div 2 \<or> 0 < length s mod 2" using assms(1) by (cases "length s") auto
  ultimately have "2 < length (serialize F (VBinary s))" by auto
  moreover have "\<not> has_number (serialize F (VBinary s))" using has_number_shape [of "serialize F (VBinary s)"] by (auto simp: isdigit_def)
  ultimately show ?thesis using assms(2)
    by (simp add: deserialize_def deserialize_text_def bep45.decode_encode var_binary_def kept_text_small)
qed

lemma deserialize_total: "length t < 2 ^ 32 - 1 \<Longrightarrow> \<exists>v. deserialize F t b = Some v"
proof -
  assume t: "length t < 2 ^ 32 - 1"
  note plain = deserialize_text_small [OF t]
  have "\<exists>v. deserialize_number F t = Some v" if "has_number t"
    using plain has_decimal_defined [of t] has_number_shape [OF that]
    by (auto simp: deserialize_number_def split: option.splits bool.splits)
  then show ?thesis using plain by (auto simp: deserialize_def deserialize_enum_def)
qed

end
