(* ===== verification/Schema_Binary_Laws.thy ===== *)
theory Schema_Binary_Laws
  imports Schema_Binary Variant_Laws "HOL-Library.Multiset"
begin

text \<open>
  The table of names of a tree has every name once, with the indices \<open>0, 1, 2, ...\<close>; the reader of
  the binary form gives back what the writer wrote, up to \<open>jsonb_image\<close>.
\<close>

section \<open>Words and texts\<close>

lemma length_word_text [simp]: "length (word_text (w :: 'a::len word)) = LENGTH('a) div 8"
  by (simp add: word_text_def)

lemma map_uchar_byte_char [simp]: "map (uchar \<circ> byte_char) bs = bs"
  by (induction bs) simp_all

lemma text_word_text: "8 dvd LENGTH('a) \<Longrightarrow> text_word (word_text (w :: 'a::len word)) = w"
  by (simp add: text_word_def word_text_def to_endianness_def mem_word_bytes)

lemma read_bytes_append: "length s = n \<Longrightarrow> read_bytes n (s @ x) = Some (s, x)"
  by (simp add: read_bytes_def)

lemma read_bytes_one [simp]: "read_bytes (Suc 0) (c # x) = Some ([c], x)"
  by (simp add: read_bytes_def)

lemma read_bytes_eq: "read_bytes n inp = Some (s, rest) \<longleftrightarrow> inp = s @ rest \<and> length s = n"
  by (auto simp: read_bytes_def)

lemma read_word_text: "8 dvd LENGTH('a) \<Longrightarrow> read_word (word_text (w :: 'a::len word) @ x) = Some (w, x)"
  by (simp add: read_word_def read_bytes_append text_word_text)

lemmas read_simps = read_word_text [where 'a = 16, simplified] read_word_text [where 'a = 32, simplified]
  read_word_text [where 'a = 64, simplified] read_bytes_append

section \<open>The table of names\<close>

text \<open>The keys of a tree in preorder.\<close>

fun schema_keys :: "schema \<Rightarrow> string list" where
  "schema_keys (Schema k v s ns) = k # concat (map schema_keys (children (Schema k v s ns)))"

definition names_ok :: "(string \<times> nat) list \<times> nat \<Rightarrow> bool" where
  "names_ok st \<longleftrightarrow> map snd (fst st) = [0..<snd st] \<and> distinct (map fst (fst st)) \<and> [] \<notin> fst ` set (fst st)"

lemma name_entry_ok:
  "names_ok st \<Longrightarrow> names_ok (name_entry k st) \<and> fst ` set (fst (name_entry k st)) = fst ` set (fst st) \<union> ({k} - {[]})"
  by (cases st) (auto simp: names_ok_def name_entry_def map_of_eq_None_iff rev_image_eqI)

lemma generate_naming_table_ok:
  "names_ok st \<Longrightarrow> names_ok (generate_naming_table t st)
     \<and> fst ` set (fst (generate_naming_table t st)) = fst ` set (fst st) \<union> (set (schema_keys t) - {[]})"
proof (induction t st rule: generate_naming_table.induct)
  case (1 k v s ns st)
  let ?ts = "children (Schema k v s ns)"
  have "names_ok st' \<Longrightarrow> set ts \<subseteq> set ?ts \<Longrightarrow> names_ok (fold generate_naming_table ts st')
     \<and> fst ` set (fst (fold generate_naming_table ts st')) = fst ` set (fst st') \<union> (set (concat (map schema_keys ts)) - {[]})"
    for ts st'
  proof (induction ts arbitrary: st')
    case (Cons t ts)
    then show ?case using "1.IH" [of t st'] Cons.IH [of "generate_naming_table t st'"] by auto
  qed simp
  from this [of "name_entry k st" ?ts] name_entry_ok [OF 1(2), of k] show ?case by auto
qed

lemma get_names_ok:
  "map snd (get_names t) = [0..<length (get_names t)]" "distinct (map fst (get_names t))"
  "fst ` set (get_names t) = set (schema_keys t) - {[]}"
proof -
  have ok: "names_ok ([], 0)" by (simp add: names_ok_def)
  note r = generate_naming_table_ok [OF this, of t]
  then have "length (get_names t) = snd (generate_naming_table t ([], 0))"
    unfolding names_ok_def get_names_def by (metis length_map length_upt minus_nat.diff_0)
  with r show "map snd (get_names t) = [0..<length (get_names t)]" "distinct (map fst (get_names t))"
    "fst ` set (get_names t) = set (schema_keys t) - {[]}"
    by (auto simp: names_ok_def get_names_def)
qed

section \<open>Reading back what was written\<close>

lemma read_jsonb_name:
  assumes "k \<noteq> []" "length k < 2 ^ 16" "i < 2 ^ 32"
  shows "read_names (Suc n) (jsonb_name (k, i) @ x) m = read_names n x (if map_of m i = None then m @ [(i, k)] else m)"
proof -
  have n: "unat (word_of_nat (length k) :: u16) = length k" using assms(2) by (intro unat_small) simp
  have i: "unat (word_of_nat i :: u32) = i" using assms(3) by (intro unat_small) simp
  have "(word_of_nat (length k) :: u16) \<noteq> 0" using n assms(1) by (metis length_0_conv unat_0)
  then show ?thesis by (simp add: jsonb_name_def Let_def read_simps n i word_gt_0)
qed

lemma read_names_text:
  "(\<And>k i. (k, i) \<in> set es \<Longrightarrow> k \<noteq> [] \<and> length k < 2 ^ 16 \<and> i < 2 ^ 32) \<Longrightarrow> distinct (map snd es) \<Longrightarrow>
   snd ` set es \<inter> fst ` set m = {} \<Longrightarrow>
   read_names (length es) (concat (map jsonb_name es) @ x) m = Inr (m @ map prod.swap es, x)"
proof (induction es arbitrary: m)
  case (Cons e es)
  obtain k i where e: "e = (k, i)" by force
  have "map_of m i = None" using Cons.prems(3) e by (simp add: map_of_eq_None_iff)
  moreover have "read_names (length es) (concat (map jsonb_name es) @ x) (m @ [(i, k)]) = Inr ((m @ [(i, k)]) @ map prod.swap es, x)"
    using Cons.prems e by (intro Cons.IH) auto
  ultimately show ?case using Cons.prems(1) [of k i] read_jsonb_name [of k i] e by simp
qed simp

text \<open>Dictionary and inverse dictionary of a tree.\<close>

definition names_inverse :: "(string \<times> nat) list \<Rightarrow> (nat \<times> string) list \<Rightarrow> bool" where
  "names_inverse m m' \<longleftrightarrow> (\<forall>k i. map_of m k = Some i \<longrightarrow> i < 2 ^ 32 - 1 \<and> map_of m' i = Some k)"

lemma read_key_text:
  assumes "names_inverse m m'" "k = [] \<or> k \<in> fst ` set m"
  obtains i :: u32 where "jsonb_key m k = Some (word_text i)" "read_key m' i = k"
proof (cases "k = []")
  case True
  then show ?thesis using that [of "- 1"] by (simp add: jsonb_key_def read_key_def)
next
  case False
  then obtain i where i: "map_of m k = Some i" using assms(2) by (metis domD dom_map_of_conv_image_fst)
  then have b: "i < 2 ^ 32 - 1" "map_of m' i = Some k" using assms(1) by (auto simp: names_inverse_def)
  then have u: "unat (word_of_nat i :: u32) = i" by (intro unat_small) simp
  moreover note unat_minus_one32
  ultimately have "(word_of_nat i :: u32) \<noteq> - 1" using b(1) by (metis order_less_irrefl)
  then show ?thesis using that [of "word_of_nat i"] False i b u by (simp add: jsonb_key_def read_key_def to_endianness_def)
qed

text \<open>What survives the binary form: an address does not, nor the trailing zeros of a fraction.\<close>

fun jsonb_value_ok :: "variant \<Rightarrow> bool" where
  "jsonb_value_ok (VString s) = (length s < 2 ^ 32 - 1)"
| "jsonb_value_ok (VBinary s) = (length s < 2 ^ 32 - 1)"
| "jsonb_value_ok (VDecimal d) = ((dec_ok d \<or> d = dec_nan) \<and> length (dec_to_string d) < 2 ^ 16)"
| "jsonb_value_ok (VOther t) = (10 < t)"
| "jsonb_value_ok v = True"

fun jsonb_value :: "variant \<Rightarrow> variant" where
  "jsonb_value (VPointer p) = VPointer 0"
| "jsonb_value (VDecimal d) = VDecimal (if is_nan d then dec_nan else dec_untrail d)"
| "jsonb_value v = v"

fun jsonb_ok :: "schema \<Rightarrow> bool" where
  "jsonb_ok (Schema k v s ns) \<longleftrightarrow> length k < 2 ^ 16 \<and> jsonb_value_ok v \<and> length (children (Schema k v s ns)) < 2 ^ 32
     \<and> list_all jsonb_ok (children (Schema k v s ns))"

fun jsonb_image :: "schema \<Rightarrow> schema" where
  "jsonb_image (Schema k v s ns) =
     Schema k (jsonb_value v) True
       (if is_object v \<and> children (Schema k v s ns) \<noteq> [] then Some (map jsonb_image (children (Schema k v s ns))) else None)"

lemma read_text_value:
  "length s < 2 ^ 32 - 1 \<Longrightarrow> jsonb_text_value var_string (jsonb_text s @ x) = Inr (VString s, x)"
  "length s < 2 ^ 32 - 1 \<Longrightarrow> jsonb_text_value var_binary (jsonb_text s @ x) = Inr (VBinary s, x)"
  using unat_small [of "length s", where 'a = 32] kept_text_small [of s]
  by (simp_all add: jsonb_text_value_def jsonb_text_def Let_def read_simps var_string_def var_binary_def)

lemma dec_text_round_trip:
  "dec_ok d \<or> d = dec_nan \<Longrightarrow> dec_of_text (dec_to_string d) = (if is_nan d then dec_nan else dec_untrail d)"
proof (erule disjE)
  assume "dec_ok d"
  then show ?thesis using dec_of_text_to_string [of d] dec_okD [of d] by (auto simp: is_nan_def)
next
  assume "d = dec_nan"
  moreover have "dec_of_text (dec_to_string dec_nan) = dec_nan" "is_nan dec_nan" by code_simp+
  ultimately show ?thesis by simp
qed

lemma read_scalar_text:
  assumes "jsonb_value_ok v" "\<not> is_object v"
  shows "read_scalar (type_byte (get_type v)) (jsonb_scalar v @ x) = Inr (jsonb_value v, x)"
proof (cases v)
  case (VDecimal d)
  then show ?thesis using assms unat_small [of "length (dec_to_string d)", where 'a = 16] dec_text_round_trip [of d]
    by (simp add: read_scalar_def decimal_value_def jsonb_short_text_def Let_def read_simps var_decimal_string_def)
next
  case (VOther t)
  then show ?thesis using assms by (auto simp: read_scalar_def)
qed (use assms in \<open>auto simp: read_scalar_def read_text_value word_value_def boolean_value_def read_bytes_def
       is_object_def read_simps\<close>)

definition node_reads :: "(string \<times> nat) list \<Rightarrow> (nat \<times> string) list \<Rightarrow> schema \<Rightarrow> string \<Rightarrow> bool" where
  "node_reads m m' t b \<longleftrightarrow> process_convertion_to_jsonb m t = Some b
     \<and> (\<forall>fuel x. length b < fuel \<longrightarrow> process_convertion_from_jsonb fuel m' (b @ x) = Some (Inr (jsonb_image t, x)))"

lemma read_items_text:
  "list_all2 (node_reads m m') ts bs \<Longrightarrow>
   those (map (process_convertion_to_jsonb m) ts) = Some bs
   \<and> (length (concat bs) < fuel \<longrightarrow>
      read_items (process_convertion_from_jsonb fuel m') (length ts) (concat bs @ x) = Some (Inr (map jsonb_image ts, x)))"
  by (induction ts bs rule: list_all2_induct) (auto simp: node_reads_def)

lemma read_node_object:
  assumes v: "v = VObject \<or> v = VArray" and key: "jsonb_key m k = Some (word_text i)" "read_key m' i = k"
    and small: "length (children (Schema k v s ns)) < 2 ^ 32"
    and items: "list_all2 (node_reads m m') (children (Schema k v s ns)) bs"
  shows "\<exists>b. node_reads m m' (Schema k v s ns) b"
proof -
  let ?ts = "children (Schema k v s ns)"
  let ?n = "word_of_nat (length ?ts) :: u32"
  have n: "unat ?n = length ?ts" using small by (intro unat_small) simp
  then have nz: "?n = 0 \<longleftrightarrow> ?ts = []" by (metis length_0_conv unat_eq_0)
  have key': "read_key m' (mem_word (map uchar (word_text i))) = k"
    using key(2) by (simp add: word_text_def to_endianness_def mem_word_bytes)
  note read = read_items_text [OF items]
  let ?b = "word_text i @ [byte_char (type_byte (get_type v))] @ word_text ?n @ concat bs"
  have "process_convertion_to_jsonb m (Schema k v s ns) = Some ?b"
    using v key(1) read nz items by (cases "?ts = []") (auto simp: is_object_def Let_def word_gt_0)
  moreover have "process_convertion_from_jsonb fuel m' (?b @ x) = Some (Inr (jsonb_image (Schema k v s ns), x))"
    if fuel: "length ?b < fuel" for fuel x
  proof -
    obtain f where f: "fuel = Suc f" "length (concat bs) < f" using fuel by (cases fuel) auto
    show ?thesis using v key' read [of f x] n nz f items
      by (cases "?ts = []") (auto simp: is_object_def Let_def read_bytes_append read_children_def read_simps)
  qed
  ultimately show ?thesis by (auto simp: node_reads_def)
qed

lemma read_node_scalar:
  assumes v: "\<not> is_object v" "jsonb_value_ok v" and key: "jsonb_key m k = Some (word_text i)" "read_key m' i = k"
  shows "\<exists>b. node_reads m m' (Schema k v s ns) b"
proof -
  let ?b = "word_text i @ [byte_char (type_byte (get_type v))] @ jsonb_scalar v"
  have key': "read_key m' (mem_word (map uchar (word_text i))) = k"
    using key(2) by (simp add: word_text_def to_endianness_def mem_word_bytes)
  have tag: "type_byte (get_type v) \<noteq> 2" "type_byte (get_type v) \<noteq> 3"
    using v by (cases v; auto simp: is_object_def)+
  have "process_convertion_to_jsonb m (Schema k v s ns) = Some ?b" using v key(1) by simp
  moreover have "process_convertion_from_jsonb fuel m' (?b @ x) = Some (Inr (jsonb_image (Schema k v s ns), x))"
    if "length ?b < fuel" for fuel x
    using that v key' tag read_scalar_text [OF v(2,1), of x]
    by (cases fuel) (simp_all add: Let_def read_bytes_append)
  ultimately show ?thesis by (auto simp: node_reads_def)
qed

lemma read_node_text:
  assumes "names_inverse m m'"
  shows "set (schema_keys t) \<subseteq> insert [] (fst ` set m) \<Longrightarrow> jsonb_ok t \<Longrightarrow> \<exists>b. node_reads m m' t b"
proof (induction t rule: schema_keys.induct)
  case (1 k v s ns)
  let ?ts = "children (Schema k v s ns)"
  obtain i :: u32 where key: "jsonb_key m k = Some (word_text i)" "read_key m' i = k"
    using read_key_text [OF assms, of k] "1.prems"(1) by auto
  show ?case
  proof (cases "is_object v")
    case True
    have "\<exists>b. node_reads m m' t b" if "t \<in> set ?ts" for t
      using that "1.prems" by (intro "1.IH") (auto simp: list_all_iff)
    then obtain f where "\<forall>t\<in>set ?ts. node_reads m m' t (f t)" by metis
    then have "list_all2 (node_reads m m') ?ts (map f ?ts)" by (auto simp: list_all2_conv_all_nth)
    moreover have "v = VObject \<or> v = VArray" using True by (cases v) (auto simp: is_object_def)
    ultimately show ?thesis using "1.prems"(2) by (intro read_node_object [OF _ key]) auto
  qed (use read_node_scalar [OF _ _ key] "1.prems"(2) in auto)
qed

lemma jsonb_round_trip_general:
  assumes ok: "jsonb_ok t" and few: "length (get_names t) < 2 ^ 32 - 1" and perm: "\<And>xs. mset (iteration xs) = mset xs"
  shows "\<exists>b. to_jsonb iteration t = Some b \<and> (\<forall>x fuel. length b < fuel \<longrightarrow> convert_from_jsonb fuel (b @ x) = Some (Inr (jsonb_image t, x)))"
proof -
  let ?m = "get_names t" and ?e = "iteration (get_names t)"
  note names = get_names_ok [of t]
  have keys: "k \<noteq> [] \<and> length k < 2 ^ 16" if "k \<in> set (schema_keys t) - {[]}" for k
  proof -
    have "\<forall>k\<in>set (schema_keys t). length k < 2 ^ 16" using ok
      by (induction t rule: schema_keys.induct) (auto simp: list_all_iff)
    with that show ?thesis by auto
  qed
  have set_e: "set ?e = set ?m" and len: "length ?e = length ?m"
    using perm [of ?m] by (metis mset_eq_setD, metis mset_eq_length)
  have bound: "i < length ?m" if "(k, i) \<in> set ?m" for k i
    using that names(1) by (metis atLeastLessThan_iff image_eqI list.set_map set_upt snd_conv)
  have "mset (map snd ?e) = mset (map snd ?m)" using perm [of ?m] by simp
  then have dist: "distinct (map snd ?e)" using names(1) by (metis distinct_upt mset_eq_imp_distinct_iff)
  have inverse: "names_inverse ?m (map prod.swap ?e)"
    unfolding names_inverse_def
  proof (intro allI impI conjI)
    fix k i assume "map_of ?m k = Some i"
    then have in_m: "(k, i) \<in> set ?m" by (rule map_of_SomeD)
    then show "i < 2 ^ 32 - 1" using bound [OF in_m] few by simp
    show "map_of (map prod.swap ?e) i = Some k" using in_m set_e dist
      by (intro map_of_is_SomeI) (auto simp: rev_image_eqI o_def comp_def)
  qed
  have "read_names (length ?m) (concat (map jsonb_name ?e) @ x) [] = Inr (map prod.swap ?e, x)" for x
  proof -
    have "k \<noteq> [] \<and> length k < 2 ^ 16 \<and> i < 2 ^ 32" if "(k, i) \<in> set ?e" for k i
    proof -
      have "k \<in> fst ` set ?m" using that set_e by (metis fst_conv image_eqI)
      then show ?thesis using keys [of k] names(3) bound [of k i] that set_e few by auto
    qed
    from read_names_text [OF this dist, of "[]" x] show ?thesis by (simp add: len)
  qed
  moreover obtain b where b: "node_reads ?m (map prod.swap ?e) t b"
    using read_node_text [OF inverse _ ok] names(3) by auto
  ultimately show ?thesis using few
    by (auto simp: to_jsonb_def convert_from_jsonb_def node_reads_def Let_def read_simps unat_small)
qed
end
