(* ===== verification/Schema_Readers.thy ===== *)
theory Schema_Readers
  imports Schema_Binary_Laws
begin

text \<open>
  Readers that take a prefix of a buffer.  The contract, locale \<open>prefix_reader\<close>: a success depends on
  the consumed prefix only, and no part of that prefix is accepted.  It is kept by sequencing and by
  the loop over the children, so the reader of the binary form has it.  One more fuel than
  bytes is enough, and more fuel changes nothing.  The copy past the buffer of a text needs an input of \<open>2 ^ 32\<close> bytes.
\<close>

section \<open>Readers\<close>

locale prefix_reader =
  fixes reader :: "string \<Rightarrow> ('e + 'a \<times> string) option"
  assumes consumed: "reader inp = Some (Inr (x, rest)) \<Longrightarrow>
    \<exists>c. inp = c @ rest \<and> (\<forall>y. reader (c @ y) = Some (Inr (x, y)))
      \<and> (\<forall>n < length c. reader (take n c) = None \<or> (\<exists>e. reader (take n c) = Some (Inl e)))"
begin

lemma rest_length: "reader inp = Some (Inr (x, rest)) \<Longrightarrow> length rest \<le> length inp"
  using consumed by fastforce

lemma truncated:
  "reader inp = Some (Inr (x, [])) \<Longrightarrow> n < length inp \<Longrightarrow> reader (take n inp) = None \<or> (\<exists>e. reader (take n inp) = Some (Inl e))"
  using consumed [of inp x "[]"] by fastforce

lemma extended: "reader inp = Some (Inr (x, rest)) \<Longrightarrow> reader (inp @ y) = Some (Inr (x, rest @ y))"
  using consumed [of inp x rest] by (metis append.assoc)

end

definition reader_return :: "'a \<Rightarrow> string \<Rightarrow> ('e + 'a \<times> string) option" where
  "reader_return x inp = Some (Inr (x, inp))"

definition reader_fail :: "'e \<Rightarrow> string \<Rightarrow> ('e + 'a \<times> string) option" where
  "reader_fail e inp = Some (Inl e)"

definition reader_bytes :: "'e \<Rightarrow> nat \<Rightarrow> string \<Rightarrow> ('e + string \<times> string) option" where
  "reader_bytes e n inp = (case read_bytes n inp of None \<Rightarrow> Some (Inl e) | Some r \<Rightarrow> Some (Inr r))"

definition reader_bind :: "(string \<Rightarrow> ('e + 'a \<times> string) option) \<Rightarrow> ('a \<Rightarrow> string \<Rightarrow> ('e + 'b \<times> string) option)
    \<Rightarrow> string \<Rightarrow> ('e + 'b \<times> string) option" where
  "reader_bind r k inp =
     (case r inp of None \<Rightarrow> None | Some (Inl e) \<Rightarrow> Some (Inl e) | Some (Inr (x, rest)) \<Rightarrow> k x rest)"

lemma prefix_reader_return: "prefix_reader (reader_return x)"
  by unfold_locales (auto simp: reader_return_def)

lemma prefix_reader_fail: "prefix_reader (reader_fail e)"
  by unfold_locales (auto simp: reader_fail_def)

lemma prefix_reader_bytes: "prefix_reader (reader_bytes e n)"
proof
  fix inp x rest assume "reader_bytes e n inp = Some (Inr (x, rest))"
  then have "inp = x @ rest" "length x = n" by (auto simp: reader_bytes_def read_bytes_eq split: option.splits)
  then show "\<exists>c. inp = c @ rest \<and> (\<forall>y. reader_bytes e n (c @ y) = Some (Inr (x, y)))
      \<and> (\<forall>m < length c. reader_bytes e n (take m c) = None \<or> (\<exists>e'. reader_bytes e n (take m c) = Some (Inl e')))"
    by (intro exI [of _ x]) (simp add: reader_bytes_def read_bytes_def)
qed

lemma prefix_reader_bind:
  assumes r: "prefix_reader r" and k: "\<And>x. prefix_reader (k x)"
  shows "prefix_reader (reader_bind r k)"
proof
  fix inp x rest assume "reader_bind r k inp = Some (Inr (x, rest))"
  then obtain y mid where y: "r inp = Some (Inr (y, mid))" "k y mid = Some (Inr (x, rest))"
    by (auto simp: reader_bind_def split: option.splits sum.splits)
  obtain c where c: "inp = c @ mid" "\<And>z. r (c @ z) = Some (Inr (y, z))"
    "\<And>n. n < length c \<Longrightarrow> r (take n c) = None \<or> (\<exists>e. r (take n c) = Some (Inl e))"
    using prefix_reader.consumed [OF r y(1)] by auto
  obtain d where d: "mid = d @ rest" "\<And>z. k y (d @ z) = Some (Inr (x, z))"
    "\<And>n. n < length d \<Longrightarrow> k y (take n d) = None \<or> (\<exists>e. k y (take n d) = Some (Inl e))"
    using prefix_reader.consumed [OF k y(2)] by auto
  have "reader_bind r k (take n (c @ d)) = None \<or> (\<exists>e. reader_bind r k (take n (c @ d)) = Some (Inl e))"
    if n: "n < length (c @ d)" for n
  proof (cases "n < length c")
    case True
    then show ?thesis using c(3) [of n] by (auto simp: reader_bind_def)
  next
    case False
    then show ?thesis using c(2) [of "take (n - length c) d"] d(3) [of "n - length c"] n by (auto simp: reader_bind_def)
  qed
  moreover have "inp = (c @ d) @ rest" using c(1) d(1) by simp
  moreover have "reader_bind r k ((c @ d) @ z) = Some (Inr (x, z))" for z
    using c(2) [of "d @ z"] d(2) [of z] by (simp add: reader_bind_def)
  ultimately show "\<exists>c. inp = c @ rest \<and> (\<forall>y. reader_bind r k (c @ y) = Some (Inr (x, y)))
      \<and> (\<forall>n < length c. reader_bind r k (take n c) = None \<or> (\<exists>e. reader_bind r k (take n c) = Some (Inl e)))"
    by blast
qed

lemma prefix_reader_if: "prefix_reader r \<Longrightarrow> prefix_reader r' \<Longrightarrow> prefix_reader (if P then r else r')"
  by simp

lemmas prefix_reader_rules = prefix_reader_return prefix_reader_fail prefix_reader_bytes prefix_reader_bind prefix_reader_if

lemma read_items_bind:
  "read_items r 0 = reader_return []"
  "read_items r (Suc n) = reader_bind r (\<lambda>x. reader_bind (read_items r n) (\<lambda>xs. reader_return (x # xs)))"
  by (auto simp: fun_eq_iff reader_return_def reader_bind_def split: option.splits sum.splits)

lemma prefix_reader_items: "prefix_reader r \<Longrightarrow> prefix_reader (read_items r n)"
  by (induction n) (simp_all only: read_items_bind prefix_reader_rules)

text \<open>The functions of the reader in terms of these.\<close>

definition reader_word :: "'e \<Rightarrow> ('a::len word \<Rightarrow> string \<Rightarrow> ('e + 'b \<times> string) option) \<Rightarrow> string \<Rightarrow> ('e + 'b \<times> string) option" where
  "reader_word e k = reader_bind (reader_bytes e (LENGTH('a) div 8)) (\<lambda>s. k (text_word s))"

lemma prefix_reader_word: "(\<And>w. prefix_reader (k w)) \<Longrightarrow> prefix_reader (reader_word e k)"
  by (simp add: reader_word_def prefix_reader_rules)

lemmas reader_defs = reader_word_def reader_bind_def reader_bytes_def reader_return_def reader_fail_def read_word_def

lemma jsonb_text_value_bind:
  "Some \<circ> jsonb_text_value maker = reader_word Bad_value (\<lambda>n :: u32. reader_bind (reader_bytes Bad_string (unat n))
     (\<lambda>s. case maker s of None \<Rightarrow> reader_fail Text_overrun | Some v \<Rightarrow> reader_return v))"
  by (auto simp: fun_eq_iff jsonb_text_value_def reader_defs split: option.splits)

lemma decimal_value_bind:
  "Some \<circ> decimal_value = reader_word Bad_value (\<lambda>n :: u16. reader_bind (reader_bytes Bad_string (unat n))
     (\<lambda>s. reader_return (var_decimal_string s)))"
  by (auto simp: fun_eq_iff decimal_value_def reader_defs split: option.splits)

lemma word_value_bind: "Some \<circ> word_value e maker = reader_word e (\<lambda>n :: u64. reader_return (maker n))"
  by (auto simp: fun_eq_iff word_value_def reader_defs split: option.splits)

lemma boolean_value_bind:
  "Some \<circ> boolean_value = reader_bind (reader_bytes Bad_boolean 1) (\<lambda>b. reader_return (VBoolean (b \<noteq> [CHR 0x00])))"
  by (auto simp: fun_eq_iff boolean_value_def reader_defs split: option.splits)

lemma prefix_reader_scalar: "prefix_reader (Some \<circ> read_scalar tag)"
proof -
  have "prefix_reader (Some \<circ> jsonb_text_value maker)" for maker
    unfolding jsonb_text_value_bind
    by (intro prefix_reader_word prefix_reader_rules) (auto intro: prefix_reader_rules split: option.split)
  moreover have "prefix_reader (Some \<circ> decimal_value)" "prefix_reader (Some \<circ> boolean_value)"
    "prefix_reader (Some \<circ> word_value e maker)" for e maker
    unfolding decimal_value_bind boolean_value_bind word_value_bind by (intro prefix_reader_word prefix_reader_rules)+
  moreover have "Some \<circ> read_scalar tag =
     (if tag = 5 then Some \<circ> jsonb_text_value var_string
      else if tag = 6 then Some \<circ> jsonb_text_value var_binary
      else if tag = 7 then Some \<circ> word_value Bad_integer VInteger
      else if tag = 8 then Some \<circ> word_value Bad_double VNumber
      else if tag = 9 then Some \<circ> decimal_value
      else if tag = 10 then Some \<circ> boolean_value
      else reader_return (if tag = 0 then VNull else if tag = 1 then VUndefined else if tag = 4 then VPointer 0 else VOther tag))"
    by (simp add: fun_eq_iff read_scalar_def reader_return_def)
  ultimately show ?thesis by (simp add: prefix_reader_rules)
qed

lemma read_children_bind:
  "read_children r key v = reader_word Bad_value (\<lambda>count :: u32. if count = 0 then reader_return (Schema key v True None)
     else reader_bind (read_items r (unat count)) (\<lambda>items. reader_return (Schema key v True (Some items))))"
  by (auto simp: fun_eq_iff read_children_def reader_defs split: option.splits sum.splits)

lemma process_convertion_from_jsonb_bind:
  "process_convertion_from_jsonb (Suc fuel) m = reader_bind (reader_bytes Bad_key_name 4)
     (\<lambda>i. reader_bind (reader_bytes Bad_key_type 1) (\<lambda>tags.
        if uchar (hd tags) = 2 then read_children (process_convertion_from_jsonb fuel m) (read_key m (mem_word (map uchar i))) VObject
        else if uchar (hd tags) = 3 then read_children (process_convertion_from_jsonb fuel m) (read_key m (mem_word (map uchar i))) VArray
        else reader_bind (Some \<circ> read_scalar (uchar (hd tags)))
          (\<lambda>v. reader_return (Schema (read_key m (mem_word (map uchar i))) v True None))))"
  by (auto simp: fun_eq_iff reader_defs Let_def split: option.splits sum.splits)

lemma prefix_reader_jsonb: "prefix_reader (process_convertion_from_jsonb fuel m)"
proof (induction fuel)
  case 0
  show ?case by unfold_locales simp
next
  case (Suc fuel)
  have "prefix_reader (read_children (process_convertion_from_jsonb fuel m) key v)" for key v
    unfolding read_children_bind by (intro prefix_reader_word prefix_reader_rules prefix_reader_items Suc)
  then show ?case unfolding process_convertion_from_jsonb_bind
    by (intro prefix_reader_rules prefix_reader_scalar)
qed

interpretation jsonb_node: prefix_reader "process_convertion_from_jsonb fuel m" for fuel m
  by (rule prefix_reader_jsonb)

lemma read_names_bind:
  "Some (read_names (Suc n) inp m) = reader_word Bad_name_index (\<lambda>index :: u32. reader_word Bad_name (\<lambda>name_size :: u16.
     if name_size = 0 then \<lambda>inp. Some (read_names n inp m)
     else reader_bind (reader_bytes Bad_name (unat name_size)) (\<lambda>name inp.
       Some (read_names n inp (if map_of m (unat index) = None then m @ [(unat index, name)] else m))))) inp"
  by (auto simp: reader_defs split: option.splits)

lemma prefix_reader_names: "prefix_reader (\<lambda>inp. Some (read_names n inp m))"
proof (induction n arbitrary: m)
  case 0
  show ?case using prefix_reader_return [of m] by (simp add: reader_return_def [abs_def])
next
  case (Suc n)
  show ?case unfolding read_names_bind by (intro prefix_reader_word prefix_reader_rules Suc)
qed

lemma convert_from_jsonb_bind:
  "convert_from_jsonb fuel = reader_word Bad_version (\<lambda>version :: u64. if version \<noteq> jsonb_version then reader_fail Bad_version
     else reader_word Bad_dictionary (\<lambda>n :: u32. reader_bind (\<lambda>inp. Some (read_names (unat n) inp []))
       (process_convertion_from_jsonb fuel)))"
  by (auto simp: fun_eq_iff convert_from_jsonb_def reader_defs split: option.splits sum.splits)

interpretation jsonb_document: prefix_reader "convert_from_jsonb fuel" for fuel
  unfolding convert_from_jsonb_bind
  by (intro prefix_reader_word prefix_reader_rules prefix_reader_names prefix_reader_jsonb)

section \<open>The fuel is enough\<close>

lemma read_items_total:
  assumes r: "prefix_reader r" and total: "\<And>inp. length inp < N \<Longrightarrow> r inp \<noteq> None"
  shows "length inp < N \<Longrightarrow> read_items r n inp \<noteq> None"
proof (induction n arbitrary: inp)
  case (Suc n)
  have "length rest < N" if "r inp = Some (Inr (x, rest))" for x rest
    using prefix_reader.rest_length [OF r that] Suc.prems by simp
  then show ?case using total [OF Suc.prems] Suc.IH by (fastforce split: option.splits sum.splits)
qed simp

lemma read_children_total:
  assumes "prefix_reader r" "\<And>inp. length inp < N \<Longrightarrow> r inp \<noteq> None" "length rest < N"
  shows "read_children r key v rest \<noteq> None"
proof (cases "read_word rest :: (u32 \<times> string) option")
  case (Some w)
  obtain count inp1 where w: "w = (count, inp1)" by force
  then have "length inp1 < N" using Some assms(3) by (auto simp: read_word_def read_bytes_eq)
  then have "read_items r (unat count) inp1 \<noteq> None" using read_items_total [OF assms(1,2)] by blast
  then show ?thesis using Some w by (auto simp: read_children_def split: sum.splits)
qed (simp add: read_children_def)

lemma process_convertion_from_jsonb_total: "length inp < fuel \<Longrightarrow> process_convertion_from_jsonb fuel m inp \<noteq> None"
proof (induction fuel arbitrary: inp)
  case (Suc fuel)
  have "read_children (process_convertion_from_jsonb fuel m) key v rest \<noteq> None" if "length rest < fuel" for key v rest
    using prefix_reader_jsonb Suc.IH that by (rule read_children_total)
  then show ?case using Suc.prems by (auto simp: Let_def read_bytes_eq split: option.splits sum.splits)
qed simp

lemma read_names_rest: "read_names n inp m = Inr (m', rest) \<Longrightarrow> length rest \<le> length inp"
  using prefix_reader.rest_length [OF prefix_reader_names [of n m], of inp m' rest] by simp

lemma convert_from_jsonb_total: "length inp < fuel \<Longrightarrow> convert_from_jsonb fuel inp \<noteq> None"
proof -
  assume "length inp < fuel"
  then have "process_convertion_from_jsonb fuel m rest \<noteq> None" if "length rest \<le> length inp" for m rest
    using that process_convertion_from_jsonb_total [of rest fuel m] by simp
  then show ?thesis using read_names_rest
    by (fastforce simp: convert_from_jsonb_def read_word_def read_bytes_eq split: option.splits sum.splits)
qed

text \<open>More fuel does not change the result.\<close>

lemma read_items_mono:
  "(\<And>inp x. r inp = Some x \<Longrightarrow> r' inp = Some x) \<Longrightarrow> read_items r n inp = Some y \<Longrightarrow> read_items r' n inp = Some y"
proof (induction n arbitrary: inp y)
  case (Suc n)
  then show ?case by (fastforce split: option.splits sum.splits)
qed simp

lemma read_children_mono:
  assumes mono: "\<And>inp x. r inp = Some x \<Longrightarrow> r' inp = Some x" and "read_children r key v rest = Some z"
  shows "read_children r' key v rest = Some z"
proof (cases "read_word rest :: (u32 \<times> string) option")
  case (Some w)
  obtain count inp1 where w: "w = (count, inp1)" by force
  show ?thesis
  proof (cases "read_items r (unat count) inp1")
    case None
    then show ?thesis using Some w assms(2) by (simp add: read_children_def split: if_splits)
  next
    case (Some y)
    then have "read_items r' (unat count) inp1 = Some y" using read_items_mono [of r r'] mono by blast
    then show ?thesis using Some \<open>read_word rest = Some w\<close> w assms(2)
      by (cases "count = 0") (simp_all add: read_children_def)
  qed
qed (use assms(2) in \<open>simp add: read_children_def\<close>)

lemma process_convertion_from_jsonb_mono:
  "process_convertion_from_jsonb fuel m inp = Some y \<Longrightarrow> process_convertion_from_jsonb (Suc fuel) m inp = Some y"
proof (induction fuel arbitrary: inp y)
  case (Suc fuel)
  have children: "read_children (process_convertion_from_jsonb (Suc fuel) m) key v rest = Some z"
    if "read_children (process_convertion_from_jsonb fuel m) key v rest = Some z" for key v rest z
    using Suc.IH that by (rule read_children_mono)
  from Suc.prems [unfolded process_convertion_from_jsonb_bind [of fuel]] show ?case
    by (subst process_convertion_from_jsonb_bind)
       (auto simp: reader_bind_def reader_bytes_def
          simp del: process_convertion_from_jsonb.simps split: option.splits intro: children)
qed simp

lemma process_convertion_from_jsonb_fuel:
  assumes "process_convertion_from_jsonb fuel m inp = Some y" "fuel \<le> fuel'"
  shows "process_convertion_from_jsonb fuel' m inp = Some y"
  using assms(2) by (induction rule: dec_induct) (use assms(1) process_convertion_from_jsonb_mono in blast)+

lemma convert_from_jsonb_fuel:
  assumes "convert_from_jsonb fuel inp = Some y" "fuel \<le> fuel'"
  shows "convert_from_jsonb fuel' inp = Some y"
  using assms process_convertion_from_jsonb_fuel [OF _ assms(2)]
  by (auto simp: convert_from_jsonb_def split: option.splits sum.splits prod.splits if_splits)

lemma from_jsonb_total: "\<exists>r. from_jsonb b = Some r"
  using convert_from_jsonb_total [of b "Suc (length b)"] by (auto simp: from_jsonb_def)

lemma from_jsonb_truncated:
  assumes "convert_from_jsonb fuel b = Some (Inr (t, []))" "n < length b"
  shows "\<exists>e. from_jsonb (take n b) = Some (Inl e)"
proof -
  obtain r where r: "convert_from_jsonb (Suc n) (take n b) = Some r"
    using convert_from_jsonb_total [of "take n b" "Suc n"] assms(2) by auto
  let ?f = "max fuel (Suc n)"
  have "convert_from_jsonb ?f b = Some (Inr (t, []))" "convert_from_jsonb ?f (take n b) = Some r"
    using convert_from_jsonb_fuel [OF assms(1)] convert_from_jsonb_fuel [OF r] by simp_all
  then obtain e where "r = Inl e" using jsonb_document.truncated [of ?f b t n] assms(2) by auto
  then show ?thesis using r assms(2) by (simp add: from_jsonb_def)
qed
section \<open>The size of a tree\<close>

lemma read_items_nodes:
  assumes "\<And>inp t rest. r inp = Some (Inr (t, rest)) \<Longrightarrow> 5 * length (schema_keys t) + length rest \<le> length inp"
  shows "read_items r n inp = Some (Inr (ts, rest)) \<Longrightarrow> 5 * length (concat (map schema_keys ts)) + length rest \<le> length inp"
proof (induction n arbitrary: inp ts)
  case (Suc n)
  then show ?case using assms by (fastforce split: option.splits sum.splits)
qed simp

lemma read_scalar_rest: "read_scalar tag inp = Inr (v, rest) \<Longrightarrow> length rest \<le> length inp"
  using prefix_reader.rest_length [OF prefix_reader_scalar [of tag], of inp v rest] by simp

lemma read_children_nodes:
  assumes "\<And>inp t rest. r inp = Some (Inr (t, rest)) \<Longrightarrow> 5 * length (schema_keys t) + length rest \<le> length inp"
    and "read_children r key v inp = Some (Inr (t, rest))"
  shows "5 * length (schema_keys t) + length rest \<le> length inp + 5"
  using assms(2) read_items_nodes [of r, OF assms(1)]
  by (fastforce simp: read_children_def read_word_def read_bytes_eq split: option.splits sum.splits if_splits)

lemma process_convertion_from_jsonb_nodes:
  "process_convertion_from_jsonb fuel m inp = Some (Inr (t, rest)) \<Longrightarrow> 5 * length (schema_keys t) + length rest \<le> length inp"
proof (induction fuel arbitrary: inp t rest)
  case (Suc fuel)
  have "5 * length (schema_keys t) + length rest \<le> length inp + 5"
    if "read_children (process_convertion_from_jsonb fuel m) key v inp = Some (Inr (t, rest))" for key v inp t rest
    using Suc.IH that by (rule read_children_nodes)
  with Suc.prems read_scalar_rest show ?case
    by (fastforce simp: Let_def read_bytes_eq split: option.splits sum.splits if_splits)
qed simp

lemma convert_from_jsonb_nodes:
  "convert_from_jsonb fuel inp = Some (Inr (t, rest)) \<Longrightarrow> 12 + 5 * length (schema_keys t) + length rest \<le> length inp"
  by (auto simp: convert_from_jsonb_def read_word_def read_bytes_eq split: option.splits sum.splits if_splits
      dest!: process_convertion_from_jsonb_nodes read_names_rest)

lemma from_jsonb_nodes: "from_jsonb b = Some (Inr t) \<Longrightarrow> 12 + 5 * length (schema_keys t) \<le> length b"
proof -
  assume "from_jsonb b = Some (Inr t)"
  then obtain r where r: "convert_from_jsonb (Suc (length b)) b = Some r" "map_sum id fst r = Inr t"
    by (auto simp: from_jsonb_def)
  then obtain rest where "r = Inr (t, rest)" by (cases r) auto
  with r(1) have "convert_from_jsonb (Suc (length b)) b = Some (Inr (t, rest))" by simp
  then show ?thesis using convert_from_jsonb_nodes by fastforce
qed
section \<open>Texts of the full 32-bit length\<close>

text \<open>
  \<open>overrun_from N r\<close>: the reader copies past the buffer of a text only on inputs of at least \<open>N\<close> bytes.
\<close>

definition overrun_from :: "nat \<Rightarrow> (string \<Rightarrow> (parser_error + 'a \<times> string) option) \<Rightarrow> bool" where
  "overrun_from N r \<longleftrightarrow> (\<forall>inp. r inp = Some (Inl Text_overrun) \<longrightarrow> N \<le> length inp)"

lemma overrun_from_return: "overrun_from N (reader_return x)"
  by (simp add: overrun_from_def reader_return_def)

lemma overrun_from_fail: "e \<noteq> Text_overrun \<Longrightarrow> overrun_from N (reader_fail e)"
  by (simp add: overrun_from_def reader_fail_def)

lemma overrun_from_bytes: "e \<noteq> Text_overrun \<Longrightarrow> overrun_from N (reader_bytes e n)"
  by (simp add: overrun_from_def reader_bytes_def split: option.splits)

lemma overrun_from_bind:
  assumes "prefix_reader r" "overrun_from N r" "\<And>x. overrun_from N (k x)"
  shows "overrun_from N (reader_bind r k)"
proof -
  have "N \<le> length inp" if "r inp = Some (Inr (x, rest))" "k x rest = Some (Inl Text_overrun)" for inp x rest
    using prefix_reader.rest_length [OF assms(1) that(1)] assms(3) [of x] that(2) by (fastforce simp: overrun_from_def)
  then show ?thesis using assms(2) by (auto simp: overrun_from_def reader_bind_def split: option.splits sum.splits)
qed

lemma overrun_from_word:
  "e \<noteq> Text_overrun \<Longrightarrow> (\<And>w. overrun_from N (k w)) \<Longrightarrow> overrun_from N (reader_word e k)"
  unfolding reader_word_def by (intro overrun_from_bind prefix_reader_bytes overrun_from_bytes)

lemma overrun_from_if: "overrun_from N r \<Longrightarrow> overrun_from N r' \<Longrightarrow> overrun_from N (if P then r else r')"
  by simp

lemmas overrun_rules = overrun_from_return overrun_from_fail overrun_from_bytes overrun_from_bind overrun_from_word overrun_from_if

lemma overrun_from_items: "prefix_reader r \<Longrightarrow> overrun_from N r \<Longrightarrow> overrun_from N (read_items r n)"
  by (induction n) (simp_all only: read_items_bind overrun_rules prefix_reader_items)

lemma overrun_from_text:
  assumes "\<And>s. length s < 2 ^ 32 - 1 \<Longrightarrow> maker s \<noteq> None"
  shows "overrun_from (2 ^ 32) (Some \<circ> jsonb_text_value maker)"
  unfolding overrun_from_def
proof (intro allI impI)
  fix inp assume "(Some \<circ> jsonb_text_value maker) inp = Some (Inl Text_overrun)"
  then obtain n :: u32 and inp1 s rest where "read_word inp = Some (n, inp1)" "read_bytes (unat n) inp1 = Some (s, rest)" "maker s = None"
    by (auto simp: jsonb_text_value_def split: option.splits)
  moreover from this have "2 ^ 32 - 1 \<le> length s" using assms [of s] by (meson not_less)
  ultimately show "2 ^ 32 \<le> length inp" by (auto simp: read_word_def read_bytes_eq)
qed

lemma overrun_from_scalar: "overrun_from (2 ^ 32) (Some \<circ> read_scalar tag)"
proof -
  have t: "overrun_from (2 ^ 32) (Some \<circ> jsonb_text_value var_string)" "overrun_from (2 ^ 32) (Some \<circ> jsonb_text_value var_binary)"
    by (intro overrun_from_text; simp add: var_string_def var_binary_def kept_text_small)+
  have o: "overrun_from N (Some \<circ> decimal_value)" "overrun_from N (Some \<circ> boolean_value)"
    "overrun_from N (Some \<circ> word_value Bad_integer maker)" "overrun_from N (Some \<circ> word_value Bad_double maker)" for N maker
    unfolding decimal_value_bind boolean_value_bind word_value_bind by (intro overrun_rules prefix_reader_rules; simp)+
  show ?thesis using t o unfolding overrun_from_def by (auto simp: read_scalar_def)
qed

lemma overrun_from_jsonb: "overrun_from (2 ^ 32) (process_convertion_from_jsonb fuel m)"
proof (induction fuel)
  case 0
  show ?case by (simp add: overrun_from_def)
next
  case (Suc fuel)
  have "overrun_from (2 ^ 32) (read_children (process_convertion_from_jsonb fuel m) key v)" for key v
    unfolding read_children_bind by (intro overrun_rules overrun_from_items prefix_reader_items prefix_reader_jsonb Suc) simp
  then show ?case unfolding process_convertion_from_jsonb_bind
    by (intro overrun_rules prefix_reader_rules prefix_reader_scalar overrun_from_scalar) simp_all
qed

lemma overrun_from_names: "overrun_from N (\<lambda>inp. Some (read_names n inp m))"
proof (induction n arbitrary: m)
  case (Suc n)
  show ?case unfolding read_names_bind by (intro overrun_rules prefix_reader_rules Suc) simp_all
qed (simp add: overrun_from_def)

lemma from_jsonb_overrun: "from_jsonb b = Some (Inl Text_overrun) \<Longrightarrow> 2 ^ 32 \<le> length b"
proof -
  assume a: "from_jsonb b = Some (Inl Text_overrun)"
  have "overrun_from (2 ^ 32) (convert_from_jsonb fuel)" for fuel
    unfolding convert_from_jsonb_bind
    by (intro overrun_rules prefix_reader_names overrun_from_names overrun_from_jsonb) simp_all
  moreover have "convert_from_jsonb (Suc (length b)) b = Some (Inl Text_overrun)"
    using a by (cases "convert_from_jsonb (Suc (length b)) b") (auto simp: from_jsonb_def map_sum_def split: sum.splits)
  ultimately show ?thesis unfolding overrun_from_def by blast
qed

end
