(* ===== verification/Schema_Json.thy ===== *)
theory Schema_Json
  imports Schema
begin

text \<open>
  The JSON form of a \<^verbatim>\<open>schema\<close>.  The writer \<^verbatim>\<open>convert_to_json\<close> calls back with pieces of text and hints
  for the layout; \<^verbatim>\<open>to_json\<close> appends the pieces.  Parsing is done by rapidjson: its result, a value or
  an error with an offset, is a parameter of \<open>convert_from_json\<close>, which builds the tree.
\<close>

section \<open>Writing\<close>

datatype var_form = Dummy | Tab_decrease | Tab_increase | Write_space | Write_line | Write_tab

text \<open>The enumeration prefix of \<^verbatim>\<open>serialize\<close> is cut off on both ends.\<close>

definition strip_enum :: "string \<Rightarrow> string" where
  "strip_enum s =
     (if length s \<ge> 2 \<and> hd s = CHR ''$'' \<and> last s = CHR ''$'' then take (length s - 2) (drop 1 s) else s)"

definition json_root_scalar :: "floating \<Rightarrow> variant \<Rightarrow> (var_form \<times> string) list" where
  "json_root_scalar F v =
     (let t = escape (serialize F v)
      in if get_type v \<noteq> String_type \<and> get_type v \<noteq> Binary_type then [(Dummy, strip_enum t)]
         else [(Dummy, [CHR 0x22]), (Dummy, t), (Dummy, [CHR 0x22])])"

definition json_child_scalar :: "floating \<Rightarrow> variant \<Rightarrow> (var_form \<times> string) list" where
  "json_child_scalar F v =
     (let t = escape (if get_type v = Undefined_type then ''null'' else serialize F v)
      in case v of
           VDecimal d \<Rightarrow>
             (let quote = (if \<not> is_safe_number F d then [(Dummy, [CHR 0x22])] else [])
              in quote @ [(Dummy, strip_enum t)] @ quote)
         | VString s \<Rightarrow> [(Dummy, [CHR 0x22]), (Dummy, t), (Dummy, [CHR 0x22])]
         | VBinary s \<Rightarrow> [(Dummy, [CHR 0x22]), (Dummy, t), (Dummy, [CHR 0x22])]
         | _ \<Rightarrow> [(Dummy, strip_enum t)])"

text \<open>The second argument says whether the node has a parent; the loop over the children is \<open>json_nodes\<close>.\<close>

function convert_to_json :: "floating \<Rightarrow> bool \<Rightarrow> schema \<Rightarrow> (var_form \<times> string) list"
  and json_nodes :: "floating \<Rightarrow> bool \<Rightarrow> schema list \<Rightarrow> (var_form \<times> string) list" where
  "convert_to_json F parent base =
     (if \<not> is_object (sch_value base) then json_root_scalar F (sch_value base)
      else let array = (get_type (sch_value base) = Array_type) in
        if children base = [] then [(Dummy, if array then ''[]'' else ''{}'')]
        else [(Dummy, if array then ''['' else ''{''), (Tab_increase, [])]
          @ json_nodes F array (children base)
          @ [(Tab_decrease, []), (Write_line, [])]
          @ (if parent then [(Write_tab, [])] else [])
          @ [(Dummy, if array then '']'' else ''}'')])"
| "json_nodes F array [] = []"
| "json_nodes F array (next # nodes) =
     (if \<not> array then
        [(Write_line, []), (Write_tab, []), (Dummy, [CHR 0x22]), (Dummy, sch_key next), (Write_space, [CHR 0x22, CHR '':''])]
      else [(Write_line, []), (Write_tab, [])])
     @ (if \<not> is_object (sch_value next) then json_child_scalar F (sch_value next) else convert_to_json F True next)
     @ (if nodes \<noteq> [] then [(Dummy, '','')] else [])
     @ json_nodes F array nodes"
  by pat_completeness auto
termination
proof (relation "measure (\<lambda>x. case x of Inl (F, p, t) \<Rightarrow> size t | Inr (F, a, ns) \<Rightarrow> size_list size ns)", goal_cases)
  case (2 F p t array)
  then show ?case by (cases t rule: schema.exhaust) (auto simp: children_def split: option.splits)
qed auto

declare convert_to_json.simps [simp del]

definition to_json :: "floating \<Rightarrow> schema \<Rightarrow> string" where
  "to_json F t = concat (map snd (convert_to_json F False t))"

section \<open>Reading\<close>

text \<open>
  A value of rapidjson.  The document is parsed with \<^verbatim>\<open>kParseNumbersAsStringsFlag\<close>, so a number arrives as
  its text; the branches for numbers are kept.
\<close>

datatype rapid_value = RNull | RBool bool | RString string | RInt u64 | RDouble u64
  | RArray "rapid_value list" | RObject "(string \<times> rapid_value) list"

datatype rapid_code = ErrorDocumentEmpty | ErrorDocumentRootNotSingular | ErrorValueInvalid | ErrorObjectMissName
  | ErrorObjectMissColon | ErrorObjectMissCommaOrCurlyBracket | ErrorArrayMissCommaOrSquareBracket
  | ErrorStringUnicodeEscapeInvalidHex | ErrorStringUnicodeSurrogateInvalid | ErrorStringEscapeInvalid
  | ErrorStringMissQuotationMark | ErrorStringInvalidEncoding | ErrorNumberTooBig | ErrorNumberMissFraction
  | ErrorNumberMissExponent | ErrorTermination | ErrorUnspecificSyntaxError | ErrorNone

datatype json_error = Json_document_empty nat | Json_document_root_not_singular nat | Json_value_invalid nat
  | Json_object_miss_name nat | Json_object_miss_colon nat | Json_object_miss_comma_or_curly_bracket nat
  | Json_array_miss_comma_or_square_bracket nat | Json_string_unicode_escape_invalid_hex nat
  | Json_string_unicode_surrogate_invalid nat | Json_string_escape_invalid nat | Json_string_miss_quotation_mark nat
  | Json_string_invalid_encoding nat | Json_number_too_big nat | Json_number_miss_fraction nat
  | Json_number_miss_exponent nat | Json_termination nat | Json_unspecific_syntax_error nat | Json_bad_value

fun json_error_of :: "rapid_code \<Rightarrow> nat \<Rightarrow> json_error" where
  "json_error_of ErrorDocumentEmpty offset = Json_document_empty offset"
| "json_error_of ErrorDocumentRootNotSingular offset = Json_document_root_not_singular offset"
| "json_error_of ErrorValueInvalid offset = Json_value_invalid offset"
| "json_error_of ErrorObjectMissName offset = Json_object_miss_name offset"
| "json_error_of ErrorObjectMissColon offset = Json_object_miss_colon offset"
| "json_error_of ErrorObjectMissCommaOrCurlyBracket offset = Json_object_miss_comma_or_curly_bracket offset"
| "json_error_of ErrorArrayMissCommaOrSquareBracket offset = Json_array_miss_comma_or_square_bracket offset"
| "json_error_of ErrorStringUnicodeEscapeInvalidHex offset = Json_string_unicode_escape_invalid_hex offset"
| "json_error_of ErrorStringUnicodeSurrogateInvalid offset = Json_string_unicode_surrogate_invalid offset"
| "json_error_of ErrorStringEscapeInvalid offset = Json_string_escape_invalid offset"
| "json_error_of ErrorStringMissQuotationMark offset = Json_string_miss_quotation_mark offset"
| "json_error_of ErrorStringInvalidEncoding offset = Json_string_invalid_encoding offset"
| "json_error_of ErrorNumberTooBig offset = Json_number_too_big offset"
| "json_error_of ErrorNumberMissFraction offset = Json_number_miss_fraction offset"
| "json_error_of ErrorNumberMissExponent offset = Json_number_miss_exponent offset"
| "json_error_of ErrorTermination offset = Json_termination offset"
| "json_error_of ErrorUnspecificSyntaxError offset = Json_unspecific_syntax_error offset"
| "json_error_of ErrorNone offset = Json_bad_value"

text \<open>\<^verbatim>\<open>process_conversion_from_json_string_or_number\<close>; \<^const>\<open>None\<close> is an exception or an overrun.\<close>

definition json_string_or_number :: "floating \<Rightarrow> string \<Rightarrow> variant option" where
  "json_string_or_number F t =
     (if \<not> has_number t then var_string t
      else case has_decimal t of
             None \<Rightarrow> None
           | Some True \<Rightarrow> Some (var_decimal_string t)
           | Some False \<Rightarrow>
               if has_integer t then
                 (case from_chars_i64 t of Some number \<Rightarrow> Some (VInteger number) | None \<Rightarrow> var_string t)
               else (case fp_from_chars F t of Some number \<Rightarrow> Some (VNumber number) | None \<Rightarrow> var_string t))"

text \<open>A text in an array that is enclosed in back quotes becomes binary data as it stands.\<close>

definition json_item_string :: "floating \<Rightarrow> string \<Rightarrow> variant option" where
  "json_item_string F t =
     (if length t < 2 \<or> hd t \<noteq> CHR 0x60 \<or> last t \<noteq> CHR 0x60 then json_string_or_number F t
      else var_binary (take (length t - 2) (drop 1 t)))"

text \<open>
  \<^verbatim>\<open>process_convertion_from_json\<close>, for one member (with its name) or element (\<open>array\<close>).  \<^verbatim>\<open>set\<close> and \<^verbatim>\<open>push\<close>
  append the node, since the parent is an array at that moment, and clear \<^verbatim>\<open>saved\<close> of both.
\<close>

fun process_convertion_from_json :: "floating \<Rightarrow> bool \<Rightarrow> string \<Rightarrow> rapid_value \<Rightarrow> schema option" where
  "process_convertion_from_json F array name RNull = Some (Schema name VNull False None)"
| "process_convertion_from_json F array name (RBool b) = Some (Schema name (VBoolean b) False None)"
| "process_convertion_from_json F array name (RInt n) = Some (Schema name (VInteger n) False None)"
| "process_convertion_from_json F array name (RDouble n) = Some (Schema name (VNumber n) False None)"
| "process_convertion_from_json F array name (RString t) =
     map_option (\<lambda>v. Schema name v False None) (if array then json_item_string F t else json_string_or_number F t)"
| "process_convertion_from_json F array name (RObject members) =
     map_option (\<lambda>ns. Schema name VObject False (Some ns))
       (those (map (\<lambda>m. process_convertion_from_json F False (fst m) (snd m)) members))"
| "process_convertion_from_json F array name (RArray items) =
     map_option (\<lambda>ns. Schema name VArray False (Some ns))
       (those (map (process_convertion_from_json F True []) items))"

text \<open>The root is not attached to anything: its \<^verbatim>\<open>saved\<close> is cleared by its first child only.\<close>

definition json_root :: "floating \<Rightarrow> rapid_value \<Rightarrow> schema option" where
  "json_root F value =
     map_option (\<lambda>t. Schema (sch_key t) (sch_value t) (children t = []) (sch_nodes t))
       (process_convertion_from_json F False [] value)"

definition convert_from_json ::
  "(string \<Rightarrow> (rapid_code \<times> nat) + rapid_value) \<Rightarrow> floating \<Rightarrow> string \<Rightarrow> (json_error + schema) option" where
  "convert_from_json parse F buffer =
     (if buffer = [] then Some (Inl (Json_document_empty 0))
      else case parse buffer of
             Inl (code, offset) \<Rightarrow> Some (Inl (json_error_of code offset))
           | Inr value \<Rightarrow> map_option Inr (json_root F value))"

end
