(* ===== verification/Schema_Json_Laws.thy ===== *)
theory Schema_Json_Laws
  imports Variant_Laws Schema_Json
begin

text \<open>
  What a JSON text denotes, by the grammar of RFC 8259, and that the writer produces such a text: the
  tree that it denotes is \<open>json_of\<close>.
\<close>

section \<open>The grammar\<close>

definition json_unescaped :: "char \<Rightarrow> bool" where
  "json_unescaped c \<longleftrightarrow> 0x20 \<le> (of_char c :: nat) \<and> c \<noteq> CHR 0x22 \<and> c \<noteq> CHR 0x5C"

definition json_escapes :: "(char \<times> char) list" where
  "json_escapes = [(CHR 0x22, CHR 0x22), (CHR 0x5C, CHR 0x5C), (CHR ''/'', CHR ''/''), (CHR ''b'', CHR 0x08),
     (CHR ''f'', CHR 0x0C), (CHR ''n'', CHR 0x0A), (CHR ''r'', CHR 0x0D), (CHR ''t'', CHR 0x09)]"

inductive json_chars :: "string \<Rightarrow> string \<Rightarrow> bool" where
  json_chars_end: "json_chars [] []"
| json_chars_plain: "json_unescaped c \<Longrightarrow> json_chars b t \<Longrightarrow> json_chars (c # b) (c # t)"
| json_chars_escape: "map_of json_escapes e = Some c \<Longrightarrow> json_chars b t \<Longrightarrow> json_chars (CHR 0x5C # e # b) (c # t)"

definition json_number :: "string \<Rightarrow> bool" where
  "json_number s \<longleftrightarrow> (\<exists>sign ip fp. s = sign @ ip @ fp \<and> (sign = [] \<or> sign = ''-'') \<and> ip \<noteq> [] \<and> digits ip
     \<and> (ip = ''0'' \<or> hd ip \<noteq> CHR ''0'') \<and> (fp = [] \<or> (\<exists>ds. fp = CHR ''.'' # ds \<and> ds \<noteq> [] \<and> digits ds)))"

fun commas :: "string list \<Rightarrow> string" where
  "commas [] = []"
| "commas [t] = t"
| "commas (t # u # ts) = t @ '','' @ commas (u # ts)"

text \<open>A number denotes its text, as the flag of the parser asks for.\<close>

inductive json_denotes :: "rapid_value \<Rightarrow> string \<Rightarrow> bool" where
  json_null: "json_denotes RNull ''null''"
| json_true: "json_denotes (RBool True) ''true''"
| json_false: "json_denotes (RBool False) ''false''"
| json_numeral: "json_number s \<Longrightarrow> json_denotes (RString s) s"
| json_string: "json_chars b t \<Longrightarrow> json_denotes (RString t) (CHR 0x22 # b @ [CHR 0x22])"
| json_array: "list_all2 json_denotes xs ts \<Longrightarrow> json_denotes (RArray xs) (''['' @ commas ts @ '']'')"
| json_object: "list_all2 (\<lambda>m t. \<exists>b s. json_chars b (fst m) \<and> json_denotes (snd m) s \<and> t = CHR 0x22 # b @ [CHR 0x22, CHR '':''] @ s) ms ts
     \<Longrightarrow> json_denotes (RObject ms) (''{'' @ commas ts @ ''}'')"

section \<open>Which trees are written as JSON\<close>

definition json_text_ok :: "string \<Rightarrow> bool" where
  "json_text_ok s \<longleftrightarrow> list_all (\<lambda>c. c \<noteq> CHR 0x5C \<and> (0x20 \<le> (of_char c :: nat) \<or> c \<in> {CHR 0x08, CHR 0x09, CHR 0x0A, CHR 0x0C, CHR 0x0D})) s"

fun json_value_ok :: "floating \<Rightarrow> variant \<Rightarrow> bool" where
  "json_value_ok F (VString s) = json_text_ok s"
| "json_value_ok F (VNumber n) = json_number (fp_to_chars F n)"
| "json_value_ok F (VDecimal d) = (d = dec_nan \<or> dec_wf d)"
| "json_value_ok F (VPointer p) = False"
| "json_value_ok F (VOther t) = False"
| "json_value_ok F v = True"

fun json_ok :: "floating \<Rightarrow> schema \<Rightarrow> bool" where
  "json_ok F (Schema k v s ns) \<longleftrightarrow> json_value_ok F v
     \<and> list_all (\<lambda>c. (v = VObject \<longrightarrow> list_all json_unescaped (sch_key c)) \<and> json_ok F c) (children (Schema k v s ns))"

fun json_of_value :: "floating \<Rightarrow> variant \<Rightarrow> rapid_value" where
  "json_of_value F (VString s) = RString s"
| "json_of_value F (VBoolean b) = RBool b"
| "json_of_value F (VDecimal d) = (if is_nan d then RNull else RString (dec_to_string d))"
| "json_of_value F (VInteger n) = RString (int64_text n)"
| "json_of_value F (VNumber n) = RString (fp_to_chars F n)"
| "json_of_value F (VBinary s) = RString (serialize F (VBinary s))"
| "json_of_value F v = RNull"

fun json_of :: "floating \<Rightarrow> schema \<Rightarrow> rapid_value" where
  "json_of F (Schema k v s ns) =
     (if v = VObject then RObject (map (\<lambda>c. (sch_key c, json_of F c)) (children (Schema k v s ns)))
      else if v = VArray then RArray (map (json_of F) (children (Schema k v s ns)))
      else json_of_value F v)"

section \<open>Scalars\<close>

lemma escape_symbol_control: "escape_symbol c = Some e \<Longrightarrow> \<not> json_unescaped c"
  by (auto simp: escape_symbol_def json_unescaped_def split: if_splits)

lemma json_unescaped_symbol: "json_unescaped c \<Longrightarrow> escape_symbol c = None \<and> c \<noteq> CHR 0x22 \<and> c \<noteq> CHR 0x5C"
  using escape_symbol_control [of c] by (cases "escape_symbol c") (auto simp: json_unescaped_def)

lemma json_char_cases:
  assumes "c \<noteq> CHR 0x5C" "0x20 \<le> (of_char c :: nat) \<or> c \<in> {CHR 0x08, CHR 0x09, CHR 0x0A, CHR 0x0C, CHR 0x0D}"
  obtains (plain) "json_unescaped c" | (quotation) "c = CHR 0x22"
    | (escaped) e where "escape_symbol c = Some e" "map_of json_escapes e = Some c" "e \<noteq> CHR 0x5C" "c \<noteq> CHR 0x22"
proof (cases "0x20 \<le> (of_char c :: nat)")
  case True
  then show ?thesis using plain quotation assms(1) by (auto simp: json_unescaped_def)
next
  case False
  then have "c \<in> {CHR 0x08, CHR 0x09, CHR 0x0A, CHR 0x0C, CHR 0x0D}" using assms(2) by simp
  then show ?thesis using escaped by (auto simp: escape_symbol_def json_escapes_def)
qed

lemma escape_json_chars: "json_text_ok s \<Longrightarrow> json_chars (escape s) s"
proof -
  have "prev \<noteq> Some (CHR 0x5C) \<Longrightarrow> json_text_ok s \<Longrightarrow> json_chars (escape_loop prev s) s" for prev
  proof (induction s arbitrary: prev)
    case (Cons c s)
    have rest: "json_chars (escape_loop p s) s" if "p \<noteq> Some (CHR 0x5C)" for p
      using Cons.IH [OF that] Cons.prems(2) by (simp add: json_text_ok_def)
    have c: "c \<noteq> CHR 0x5C" "0x20 \<le> (of_char c :: nat) \<or> c \<in> {CHR 0x08, CHR 0x09, CHR 0x0A, CHR 0x0C, CHR 0x0D}"
      using Cons.prems(2) by (simp_all add: json_text_ok_def)
    then show ?case
    proof (cases rule: json_char_cases)
      case plain
      then show ?thesis using json_unescaped_symbol [of c] rest [of "Some c"] by (simp add: json_chars_plain)
    next
      case quotation
      then show ?thesis using rest [of "Some c"] Cons.prems(1) by (simp add: json_chars_escape json_escapes_def)
    next
      case (escaped e)
      then show ?thesis using rest [of "Some e"] by (simp add: json_chars_escape)
    qed
  qed (simp add: json_chars_end)
  then show "json_text_ok s \<Longrightarrow> json_chars (escape s) s" by (simp add: escape_def)
qed

lemma json_chars_unescaped: "list_all json_unescaped s \<Longrightarrow> json_chars s s"
  by (induction s) (auto intro: json_chars.intros)

text \<open>Texts that \<^verbatim>\<open>escape\<close> leaves alone.\<close>

lemma escape_plain: "list_all json_unescaped s \<Longrightarrow> escape s = s"
proof -
  have "list_all json_unescaped s \<Longrightarrow> escape_loop prev s = s" for prev
    by (induction s arbitrary: prev) (simp_all add: json_unescaped_symbol)
  then show "list_all json_unescaped s \<Longrightarrow> escape s = s" by (simp add: escape_def)
qed

lemma json_unescaped_digit: "isdigit c \<Longrightarrow> json_unescaped c"
  by (auto simp: json_unescaped_def isdigit_def)

lemma json_number_plain: "json_number s \<Longrightarrow> list_all json_unescaped s \<and> s \<noteq> [] \<and> hd s \<noteq> CHR ''$''"
proof -
  assume "json_number s"
  then obtain sign ip fp where s: "s = sign @ ip @ fp" "sign = [] \<or> sign = ''-''" "ip \<noteq> []" "digits ip"
    "fp = [] \<or> (\<exists>ds. fp = CHR ''.'' # ds \<and> ds \<noteq> [] \<and> digits ds)" by (auto simp: json_number_def)
  have "json_unescaped (CHR ''-'')" "json_unescaped (CHR ''.'')" by (simp_all add: json_unescaped_def)
  then have "list_all json_unescaped s" using s by (auto simp: list_all_iff json_unescaped_digit)
  moreover have "hd s \<noteq> CHR ''$''" using s by (cases ip) (auto simp: isdigit_def)
  ultimately show ?thesis using s by auto
qed

lemma strip_enum_number: "json_number s \<Longrightarrow> strip_enum (escape s) = s"
  using json_number_plain [of s] by (simp add: escape_plain strip_enum_def)

lemma to_chars_number: "json_number (to_chars n)"
proof -
  obtain ds where "digits ds" "ds \<noteq> []" "n \<noteq> 0 \<Longrightarrow> hd ds \<noteq> CHR ''0''" "n = 0 \<Longrightarrow> ds = ''0''"
    "to_chars n = (if n < 0 then ''-'' else []) @ ds" by (rule to_chars_cases [of n]) blast
  then show ?thesis unfolding json_number_def
    by (intro exI [of _ "if n < 0 then ''-'' else []"] exI [of _ ds] exI [of _ "[]"]) auto
qed

lemma dec_to_string_number:
  assumes "dec_wf d"
  shows "json_number (dec_to_string d)"
proof -
  have ok: "dec_ok d" using assms by (simp add: dec_wf_def)
  note d = dec_okD [OF ok]
  let ?n = "nat (dec_length d)"
  let ?ip = "rev (drop ?n (dec_source d))" and ?fp = "rev (drop (trailing d) (take ?n (dec_source d)))"
  have n: "?n < length (dec_source d)" using d(4,5) by linarith
  have "?ip = ''0'' \<or> hd ?ip \<noteq> CHR ''0''"
  proof (cases "last (dec_source d) = CHR ''0''")
    case True
    then have "int (length (dec_source d)) = dec_length d + 1" using assms by (simp add: dec_wf_def)
    then have "length (drop ?n (dec_source d)) = 1" using d(4) unfolding length_drop by linarith
    moreover have "last (drop ?n (dec_source d)) = CHR ''0''" using True n by (simp add: last_drop)
    ultimately have "drop ?n (dec_source d) = ''0''" by (cases "drop ?n (dec_source d)") auto
    then show ?thesis by simp
  next
    case False
    then show ?thesis using n by (simp add: hd_rev last_drop)
  qed
  moreover have "digits ?ip" "?ip \<noteq> []" "digits ?fp" using digits_slices d(2) n by auto
  moreover have "?fp \<noteq> []" if "trailing d \<noteq> ?n" using that trailing_le [of d] n by simp
  ultimately show ?thesis unfolding json_number_def dec_to_string_eq [OF ok]
    by (intro exI [of _ "if dec_sign d = CHR ''-'' then ''-'' else []"] exI [of _ ?ip]
          exI [of _ "if trailing d = ?n then [] else CHR ''.'' # ?fp"]) simp
qed

lemma dec_nan_is_nan [simp]: "is_nan dec_nan"
  by (simp add: is_nan_def dec_nan_def)

lemma serialize_binary_plain: "list_all json_unescaped (serialize F (VBinary s))"
proof -
  have "list_all (\<lambda>c. json_unescaped (relabel_char c (zip bep45_from bep45_to))) base45_alphabet"
    by (simp add: base45_alphabet_def relabel_char_def bep45_from_def bep45_to_def json_unescaped_def)
  then have "list_all json_unescaped (bep45_encode s)"
    using base45_encode_alphabet [of s]
    unfolding bep45_encode_def foldl_replace_char relabel_char_def [symmetric] list_all_iff by auto
  moreover have "json_unescaped (CHR 0x60)" by (simp add: json_unescaped_def)
  ultimately show ?thesis by simp
qed

abbreviation json_text :: "(var_form \<times> string) list \<Rightarrow> string" where
  "json_text events \<equiv> concat (map snd events)"

lemma strip_enum_texts: "strip_enum (escape ''$null$'') = ''null''" "strip_enum (escape ''null'') = ''null''"
  "strip_enum (escape ''true'') = ''true''" "strip_enum (escape ''false'') = ''false''"
  by code_simp+

lemma json_child_scalar_denotes:
  assumes "json_value_ok F v" "\<not> is_object v"
  shows "json_denotes (json_of_value F v) (json_text (json_child_scalar F v))"
proof (cases v)
  case (VDecimal d)
  show ?thesis
  proof (cases "is_nan d")
    case True
    then show ?thesis using VDecimal
      by (simp add: json_child_scalar_def Let_def strip_enum_texts is_safe_number_def json_null)
  next
    case False
    then have n: "json_number (dec_to_string d)" using assms(1) VDecimal dec_to_string_number by auto
    then show ?thesis using VDecimal False json_number_plain [OF n] json_numeral [OF n]
        json_string [OF json_chars_unescaped, of "dec_to_string d"]
      by (simp add: json_child_scalar_def Let_def strip_enum_number)
  qed
next
  case (VBinary s)
  then show ?thesis using json_string [OF json_chars_unescaped [OF serialize_binary_plain [of F s]]] escape_plain [OF serialize_binary_plain [of F s]]
    by (simp add: json_child_scalar_def Let_def)
qed (use assms in \<open>simp_all add: json_child_scalar_def Let_def strip_enum_texts strip_enum_number escape_json_chars
       json_denotes.intros(1-5) is_object_def int64_text_def to_chars_number\<close>)

lemma json_root_scalar_eq:
  "\<not> is_object v \<Longrightarrow> v \<noteq> VUndefined \<Longrightarrow> (\<And>d. v = VDecimal d \<Longrightarrow> is_safe_number F d) \<Longrightarrow>
   json_text (json_root_scalar F v) = json_text (json_child_scalar F v)"
  by (cases v) (simp_all add: json_root_scalar_def json_child_scalar_def Let_def)

section \<open>The writer\<close>

definition json_node_text :: "floating \<Rightarrow> bool \<Rightarrow> schema \<Rightarrow> string" where
  "json_node_text F array t =
     (if array then [] else CHR 0x22 # sch_key t @ [CHR 0x22, CHR '':''])
     @ json_text (if is_object (sch_value t) then convert_to_json F True t else json_child_scalar F (sch_value t))"

lemma json_nodes_text: "json_text (json_nodes F array ns) = commas (map (json_node_text F array) ns)"
proof (induction ns)
  case (Cons t ns)
  then show ?case by (cases ns) (simp_all add: json_node_text_def)
qed simp

lemma convert_to_json_container:
  assumes "v = VObject \<or> v = VArray"
  shows "json_text (convert_to_json F p (Schema k v s ns)) =
    (if v = VArray then ''['' else ''{'') @ commas (map (json_node_text F (v = VArray)) (children (Schema k v s ns)))
    @ (if v = VArray then '']'' else ''}'')"
  using assms by (auto simp: convert_to_json.simps is_object_def json_nodes_text)

lemma json_node_denotes:
  "json_ok F t \<Longrightarrow> json_denotes (json_of F t) (json_node_text F True t)"
proof (induction t rule: json_of.induct)
  case (1 F k v s ns)
  let ?ts = "children (Schema k v s ns)"
  show ?case
  proof (cases "v = VObject \<or> v = VArray")
    case True
    have child: "json_denotes (json_of F c) (json_node_text F True c)" if "c \<in> set ?ts" for c
      using that "1.IH" [of c] "1.prems" True by (auto simp: list_all_iff)
    have key: "json_chars (sch_key c) (sch_key c)" if "c \<in> set ?ts" "v = VObject" for c
      using that "1.prems" by (auto simp: list_all_iff intro: json_chars_unescaped)
    have arr: "list_all2 json_denotes (map (json_of F) ?ts) (map (json_node_text F True) ?ts)"
      using child by (auto simp: list_all2_conv_all_nth)
    have obj: "list_all2 (\<lambda>m t. \<exists>b s. json_chars b (fst m) \<and> json_denotes (snd m) s \<and> t = CHR 0x22 # b @ [CHR 0x22, CHR '':''] @ s)
      (map (\<lambda>c. (sch_key c, json_of F c)) ?ts) (map (json_node_text F False) ?ts)" if "v = VObject"
    proof -
      have "json_node_text F False c = CHR 0x22 # sch_key c @ [CHR 0x22, CHR '':''] @ json_node_text F True c" for c
        by (simp add: json_node_text_def)
      then show ?thesis using child key [OF _ that] unfolding list_all2_map1 list_all2_map2 list_all2_same by fastforce
    qed
    show ?thesis using True json_array [OF arr] json_object [OF obj]
      by (auto simp: json_node_text_def convert_to_json_container is_object_def)
  next
    case False
    then have "\<not> is_object v" by (cases v) (simp_all add: is_object_def)
    then show ?thesis using False json_child_scalar_denotes [of F v] "1.prems" by (simp add: json_node_text_def)
  qed
qed

lemma to_json_denotes:
  assumes "json_ok F t" "sch_value t \<noteq> VUndefined" "\<And>d. sch_value t = VDecimal d \<Longrightarrow> is_safe_number F d"
  shows "json_denotes (json_of F t) (to_json F t)"
proof (cases "is_object (sch_value t)")
  case True
  then have "sch_value t = VObject \<or> sch_value t = VArray" by (cases "sch_value t") (simp_all add: is_object_def)
  then have "to_json F t = json_node_text F True t"
    using convert_to_json_container [of "sch_value t" F _ "sch_key t" "sch_saved t" "sch_nodes t"] True
    by (simp add: to_json_def json_node_text_def)
  then show ?thesis using json_node_denotes [OF assms(1)] by simp
next
  case False
  then show ?thesis using json_root_scalar_eq [OF False assms(2,3)] json_node_denotes [OF assms(1)]
    by (simp add: to_json_def json_node_text_def convert_to_json.simps)
qed

section \<open>The reader\<close>

text \<open>Values that come back as they were, in an array or elsewhere.\<close>

fun json_value_stable :: "bool \<Rightarrow> variant \<Rightarrow> bool" where
  "json_value_stable array (VString s) = (\<not> has_number s \<and> length s < 2 ^ 32 - 1
     \<and> (array \<longrightarrow> \<not> (length s \<ge> 2 \<and> hd s = CHR 0x60 \<and> last s = CHR 0x60)))"
| "json_value_stable array (VInteger n) = (length (int64_text n) < 19)"
| "json_value_stable array (VDecimal d) = (dec_wf d \<and> has_decimal (dec_to_string d) = Some True \<and> dec_untrail d = d)"
| "json_value_stable array v = (v \<in> {VNull, VBoolean True, VBoolean False, VObject, VArray})"

fun json_stable :: "bool \<Rightarrow> schema \<Rightarrow> bool" where
  "json_stable array (Schema k v s ns) \<longleftrightarrow> json_value_stable array v
     \<and> (is_object v \<longrightarrow> list_all (json_stable (v = VArray)) (children (Schema k v s ns)))"

text \<open>The tree that is built: elements of an array have no key, and containers have a vector of children.\<close>

fun json_image :: "string \<Rightarrow> schema \<Rightarrow> schema" where
  "json_image name (Schema k v s ns) =
     Schema name v False
       (if v = VObject then Some (map (\<lambda>c. json_image (sch_key c) c) (children (Schema k v s ns)))
        else if v = VArray then Some (map (json_image []) (children (Schema k v s ns))) else None)"

lemma has_decimal_no_point: "CHR ''.'' \<notin> set t \<Longrightarrow> has_decimal t = Some (has_integer t \<and> length t \<ge> 19)"
proof -
  assume t: "CHR ''.'' \<notin> set t"
  have "0 \<le> length t" by simp
  then have "\<not> ts_found (find_symbol t (CHR ''.'') 0)"
  proof (cases rule: find_symbol.finder_cases [of 0 t "CHR ''.''"])
    case none
    then show ?thesis by (simp add: not_settled_def)
  next
    case (found c u)
    then have "CHR ''.'' \<in> set (dropWhile (\<lambda>c. c \<noteq> CHR ''.'') t)" by simp
    then show ?thesis using t set_dropWhileD by fast
  qed
  then show ?thesis by (simp add: has_decimal_def Let_def)
qed

lemma int64_text_no_point: "CHR ''.'' \<notin> set (int64_text n)"
proof -
  obtain ds where "digits ds" "to_chars (sint n) = (if sint n < 0 then ''-'' else []) @ ds"
    by (rule to_chars_cases [of "sint n"])
  then show ?thesis using digits_no_point [of ds] by (simp add: int64_text_def)
qed

lemma json_number_has_number: "json_number s \<Longrightarrow> has_number s"
proof -
  assume "json_number s"
  then obtain sign ip fp where s: "s = sign @ ip @ fp" "sign = [] \<or> sign = ''-''" "ip \<noteq> []" "digits ip"
    "fp = [] \<or> (\<exists>ds. fp = CHR ''.'' # ds \<and> ds \<noteq> [] \<and> digits ds)" by (auto simp: json_number_def)
  have "has_number_loop fp (length ip) 0"
    using s(3,5) has_number_loop_digits [of _ "[]"] by (auto simp: is_numeric_digit)
  then have "has_number_loop (ip @ fp) 0 0" using has_number_loop_digits [OF s(4), of fp 0 0] by simp
  moreover have "hd ip \<noteq> CHR ''+'' \<and> hd ip \<noteq> CHR ''-'' \<and> isdigit (hd ip)" using s(3,4) by (cases ip) auto
  ultimately show ?thesis using s(1-3) by (auto simp: has_number_def sign_offset_def is_numeric_digit)
qed

lemma json_value_read:
  assumes "json_value_stable array v" "\<not> is_object v"
  shows "process_convertion_from_json F array name (json_of_value F v) = Some (Schema name v False None)"
proof (cases v)
  case (VInteger n)
  have "has_integer (int64_text n)" "has_number (int64_text n)"
    using int64_text_integer has_integer_number by blast+
  moreover have "\<not> (hd (int64_text n) = CHR 0x60)" using has_number_shape [OF calculation(2)] by (auto simp: isdigit_def)
  ultimately show ?thesis using VInteger assms(1)
    by (simp add: json_item_string_def json_string_or_number_def has_decimal_no_point int64_text_no_point from_chars_int64_text)
next
  case (VDecimal d)
  then have d: "dec_wf d" "has_decimal (dec_to_string d) = Some True" "dec_untrail d = d" using assms(1) by auto
  have n: "has_number (dec_to_string d)" using d(1) by (intro json_number_has_number dec_to_string_number)
  have "hd (dec_to_string d) \<noteq> CHR 0x60" using has_number_shape [OF n] by (auto simp: isdigit_def)
  moreover have "\<not> is_nan d" "dec_of_text (dec_to_string d) = d"
    using d dec_okD [of d] dec_of_text_to_string [of d] by (simp_all add: dec_wf_def)
  ultimately show ?thesis using VDecimal d n
    by (simp add: json_item_string_def json_string_or_number_def var_decimal_string_def)
qed (use assms in \<open>auto simp: json_item_string_def json_string_or_number_def var_string_def kept_text_small is_object_def\<close>)

lemma those_map_Some: "(\<And>x. x \<in> set xs \<Longrightarrow> f x = Some (g x)) \<Longrightarrow> those (map f xs) = Some (map g xs)"
  by (induction xs) auto

lemma json_tree_read: "json_stable array t \<Longrightarrow> process_convertion_from_json F array name (json_of F t) = Some (json_image name t)"
proof (induction name t arbitrary: array rule: json_image.induct)
  case (1 name k v s ns)
  show ?case
  proof (cases "is_object v")
    case True
    then have "v = VObject \<or> v = VArray" by (cases v) (simp_all add: is_object_def)
    then show ?thesis using "1.IH" "1.prems" True by (auto simp: list_all_iff comp_def intro!: those_map_Some)
  next
    case False
    then have "v \<noteq> VObject" "v \<noteq> VArray" by (auto simp: is_object_def)
    then show ?thesis using json_value_read [OF _ False, of array F name] "1.prems" by simp
  qed
qed

lemma json_number_nonempty: "json_denotes j s \<Longrightarrow> s \<noteq> []"
  by (cases rule: json_denotes.cases) (auto dest: json_number_plain)
end
