(* ===== verification/Schema_Properties.thy ===== *)
theory Schema_Properties
  imports Schema_Readers Schema_Json_Laws
begin

text \<open>
  The properties of variants, of the document tree and of its binary and JSON forms.
\<close>

section \<open>Binary form\<close>

text \<open>
  C2: what \<^verbatim>\<open>to_jsonb\<close> writes, \<^verbatim>\<open>from_jsonb\<close> reads back: keys, values and children of every node; only the
  address in a pointer, the trailing zeros of a decimal, the flag \<^verbatim>\<open>saved\<close> and the children of a node
  that is neither object nor array are not kept.  It holds for every iteration order of the
  dictionary.  Bytes after the document are ignored, and a document that is cut off
  anywhere is an error.
\<close>

theorem jsonb_round_trip:
  assumes "jsonb_ok t" "length (get_names t) < 2 ^ 32 - 1" "\<And>xs. mset (iteration xs) = mset xs"
  shows "\<exists>b. to_jsonb iteration t = Some b \<and> from_jsonb b = Some (Inr (jsonb_image t))
    \<and> (\<forall>junk. from_jsonb (b @ junk) = Some (Inr (jsonb_image t)))
    \<and> (\<forall>n < length b. \<exists>e. from_jsonb (take n b) = Some (Inl e))"
proof -
  obtain b where b: "to_jsonb iteration t = Some b"
    "\<And>x fuel. length b < fuel \<Longrightarrow> convert_from_jsonb fuel (b @ x) = Some (Inr (jsonb_image t, x))"
    using jsonb_round_trip_general [OF assms] by auto
  have "from_jsonb (b @ x) = Some (Inr (jsonb_image t))" for x
    using b(2) [of "Suc (length (b @ x))" x] by (simp add: from_jsonb_def)
  moreover from this [of "[]"] have "from_jsonb b = Some (Inr (jsonb_image t))" by simp
  moreover have "\<exists>e. from_jsonb (take n b) = Some (Inl e)" if "n < length b" for n
    using b(2) [of "Suc (length b)" "[]"] that by (intro from_jsonb_truncated) simp_all
  ultimately show ?thesis using b(1) by blast
qed

definition sample_schema :: schema where
  "sample_schema = Schema ''a'' VObject False (Some [Schema ''x'' (VInteger 5) False None, Schema [] (VString ''hey'') True None,
     Schema ''a'' VArray True (Some []), Schema ''d'' (VDecimal (dec_of_int 7)) True None])"

lemma sample_ok: "jsonb_ok sample_schema"
proof -
  have "length (dec_to_string (dec_of_int 7)) = 1" by code_simp
  then show ?thesis using dec_wf_ok [OF dec_of_int_wf [of 7]] by (simp add: sample_schema_def)
qed

lemma sample_names: "length (get_names sample_schema) = 3"
  by code_simp

theorem jsonb_round_trip_witness:
  "jsonb_ok sample_schema \<and> length (get_names sample_schema) < 2 ^ 32 - 1
   \<and> (\<exists>b. to_jsonb rev sample_schema = Some b \<and> from_jsonb b = Some (Inr (jsonb_image sample_schema)))"
  using jsonb_round_trip [of sample_schema rev] sample_ok sample_names by auto

text \<open>
  C15: \<^verbatim>\<open>from_jsonb\<close> ends on every buffer, if the memory it asks for is there (it resizes a text or the vector of the
  children to a 32-bit count of the buffer before it reads them): the recursion is never deeper than the buffer is long.
  It ends with an error of the code, with a tree of at most one node for every five bytes, or, on buffers of at least
  \<open>2 ^ 32\<close> bytes only, with a copy past the allocated text, which is no error of the code and is the value \<open>Text_overrun\<close>.
\<close>

theorem jsonb_reader_total:
  "\<exists>r. from_jsonb b = Some r
     \<and> (case r of Inl e \<Rightarrow> e = Text_overrun \<longrightarrow> 2 ^ 32 \<le> length b | Inr t \<Rightarrow> 12 + 5 * length (schema_keys t) \<le> length b)"
  using from_jsonb_total [of b] from_jsonb_nodes [of b] from_jsonb_overrun [of b] by (auto split: sum.splits)

theorem jsonb_reader_total_witness: "\<exists>r. from_jsonb ''vitex'' = Some r \<and> r \<noteq> Inl Text_overrun"
proof -
  obtain r where r: "from_jsonb ''vitex'' = Some r"
    "case r of Inl e \<Rightarrow> e = Text_overrun \<longrightarrow> 2 ^ 32 \<le> length ''vitex'' | Inr t \<Rightarrow> 12 + 5 * length (schema_keys t) \<le> length ''vitex''"
    using jsonb_reader_total [of "''vitex''"] by blast
  then have "r \<noteq> Inl Text_overrun" by auto
  with r(1) show ?thesis by blast
qed

section \<open>Variants\<close>

text \<open>The variants that their text keeps, and what it makes of them.\<close>

fun text_stable :: "variant \<Rightarrow> bool" where
  "text_stable (VString s) = (\<not> special_text s \<and> length s < 2 ^ 32 - 1)"
| "text_stable (VBinary s) = (s \<noteq> [] \<and> length s < 2 ^ 32 - 1)"
| "text_stable (VNumber n) = False"
| "text_stable (VDecimal d) = False"
| "text_stable (VOther t) = False"
| "text_stable v = True"

text \<open>
  C14: \<^verbatim>\<open>deserialize\<close> undoes \<^verbatim>\<open>serialize\<close> for null, undefined, objects and arrays (by their names), booleans, all
  64-bit integers, binary data that is not empty, and texts that do not look like something else (a number, a name of a
  value, text in back quotes); a pointer comes back null.  Numbers (\<^verbatim>\<open>double\<close>), decimals and empty binary data are not
  covered, and binary data and texts are shorter than \<open>2 ^ 32 - 1\<close> bytes.  On any text below that length
  \<^verbatim>\<open>deserialize\<close> returns a variant and never throws.
\<close>

theorem variant_text_round_trip:
  assumes "text_stable v" "length t < 2 ^ 32 - 1"
  shows "deserialize F (serialize F v) False = Some (case v of VPointer p \<Rightarrow> VPointer 0 | _ \<Rightarrow> v)
    \<and> (\<exists>w. deserialize F t strict = Some w)"
proof
  show "deserialize F (serialize F v) False = Some (case v of VPointer p \<Rightarrow> VPointer 0 | _ \<Rightarrow> v)"
  proof (cases v)
    case (VBinary s)
    then show ?thesis using assms(1) deserialize_binary [of s F] by (simp del: serialize.simps)
  qed (use assms(1) in \<open>simp_all add: deserialize_enumerated deserialize_integer deserialize_plain var_string_def kept_text_small\<close>)
  show "\<exists>w. deserialize F t strict = Some w" using assms(2) by (rule deserialize_total)
qed

text \<open>A floating-point unit without numbers, for the witnesses.\<close>

definition no_floating :: floating where
  "no_floating = \<lparr>fp_from_chars = \<lambda>s. None, fp_to_chars = \<lambda>n. [], fp_of_int = \<lambda>i. 0, fp_to_int = \<lambda>n. 0, fp_add = (+), fp_sub = (-),
     fp_mul = (*), fp_div = (div), fp_less = (<), fp_equal = (=), fp_nan = 0, fp_epsilon = 0\<rparr>"

theorem variant_text_round_trip_witness:
  "text_stable (VBinary ''q'') \<and> deserialize no_floating (serialize no_floating (VBinary ''q'')) False = Some (VBinary ''q'')
   \<and> (\<exists>w. deserialize no_floating ''1.'' False = Some w)"
  using variant_text_round_trip [of "VBinary ''q''" "''1.''" no_floating False] by simp

text \<open>
  A decimal that is an integer of 64 bits or more is printed as digits, and \<^verbatim>\<open>deserialize\<close>, which tests for an
  integer first, reads it back as a text; empty binary data comes back as the text of two back quotes.
\<close>

theorem variant_text_losses:
  "deserialize F (serialize F (VDecimal (dec_of_text ''10000000000000000000''))) False = Some (VString ''10000000000000000000'')
   \<and> deserialize F (serialize F (VBinary [])) False = Some (VString [CHR 0x60, CHR 0x60])"
proof
  have d: "is_nan (dec_of_text ''10000000000000000000'') = False"
    "dec_to_string (dec_of_text ''10000000000000000000'') = ''10000000000000000000''" by code_simp+
  have "has_number ''10000000000000000000''" "has_integer ''10000000000000000000''"
    "from_chars_i64 ''10000000000000000000'' = None" "deserialize_text ''10000000000000000000'' = Some (VString ''10000000000000000000'')"
    by code_simp+
  then show "deserialize F (serialize F (VDecimal (dec_of_text ''10000000000000000000''))) False = Some (VString ''10000000000000000000'')"
    by (simp add: d deserialize_def deserialize_number_def)
  have "bep45_encode [] = []" "has_number [CHR 0x60, CHR 0x60] = False" "deserialize_text [CHR 0x60, CHR 0x60] = Some (VString [CHR 0x60, CHR 0x60])"
    by code_simp+
  then show "deserialize F (serialize F (VBinary [])) False = Some (VString [CHR 0x60, CHR 0x60])"
    by (simp add: deserialize_def)
qed

section \<open>JSON\<close>

text \<open>
  C3: \<^verbatim>\<open>to_json\<close> writes a JSON text, by the grammar of RFC 8259, that denotes the tree: objects with their
  members in order, arrays, and scalars, texts escaped.  This holds for trees whose keys need no escape (keys are
  written as they are), whose texts have no backslash and no control character without a short escape of JSON, which
  hold no pointer, and whose root is not undefined and, if a decimal, safe as a number.
\<close>

theorem json_writer:
  assumes "json_ok F t" "sch_value t \<noteq> VUndefined" "\<And>d. sch_value t = VDecimal d \<Longrightarrow> is_safe_number F d"
  shows "json_denotes (json_of F t) (to_json F t)"
  using assms by (rule to_json_denotes)

definition json_sample :: schema where
  "json_sample = Schema [] VObject True (Some [Schema ''a'' (VInteger 5) False None,
     Schema ''b'' VArray True (Some [Schema [] (VString [CHR ''h'', CHR 0x22, CHR 0x0A]) True None, Schema [] VNull True None])])"

lemma json_sample_ok: "json_ok F json_sample"
  by (simp add: json_sample_def json_text_ok_def json_unescaped_def)

theorem json_writer_witness:
  "json_ok no_floating json_sample \<and> sch_value json_sample \<noteq> VUndefined
   \<and> json_denotes (json_of no_floating json_sample) (to_json no_floating json_sample)"
  using json_writer [OF json_sample_ok [of no_floating]] json_sample_ok by (simp add: json_sample_def)




section \<open>Lookup\<close>

text \<open>
  A deep \<^verbatim>\<open>find\<close> does not find a node three levels down, in the tree shown, and looking up the name \<^verbatim>\<open>-1\<close> in a node with a
  vector of children ends the program.
\<close>

theorem schema_find_gaps:
  "schema_find (Schema [] VObject True (Some [Schema ''a'' VObject True (Some [Schema ''b'' VObject True
     (Some [Schema ''c'' VNull True None])])])) ''c'' True = Some None
   \<and> (sch_nodes t \<noteq> None \<longrightarrow> schema_find t (CHR ''-'' # ''1'') deep = None)"
proof
  show "schema_find (Schema [] VObject True (Some [Schema ''a'' VObject True (Some [Schema ''b'' VObject True
     (Some [Schema ''c'' VNull True None])])])) ''c'' True = Some None" by code_simp
  have "has_integer (CHR ''-'' # ''1'')" "from_chars_u64 (CHR ''-'' # ''1'') = None" by code_simp+
  then show "sch_nodes t \<noteq> None \<longrightarrow> schema_find t (CHR ''-'' # ''1'') deep = None"
    by (auto simp: schema_find_def find_flat_def find_index_def)
qed

theorem schema_find_gaps_witness:
  "sch_nodes (Schema [] VObject True (Some [])) \<noteq> None \<and> schema_find (Schema [] VObject True (Some [])) (CHR ''-'' # ''1'') False = None"
  using schema_find_gaps [of "Schema [] VObject True (Some [])" False] by simp

end
