(* ===== verification/Schema_Heap.thy ===== *)
theory Schema_Heap
  imports Schema "HOL-Library.Monad_Syntax"
begin

text \<open>
  The ownership of \<^verbatim>\<open>schema\<close> objects: a heap of nodes with a counter of references, the vector of the
  children and a pointer to the parent.  An operation returns the new heap; \<^const>\<open>None\<close> is an access to
  an object that is not there (a null pointer, an object that was freed, an index out of range), or, for
  \<open>release\<close> and what calls it, a recursion deeper than the fuel.  The address of a new object is an argument.
\<close>

section \<open>Data\<close>

record node =
  nd_key :: string
  nd_value :: variant
  nd_saved :: bool
  nd_nodes :: "nat list option"
  nd_parent :: "nat option"
  nd_refs :: u32

type_synonym heap = "nat \<rightharpoonup> node"

definition new_node :: "variant \<Rightarrow> node" where
  "new_node base = \<lparr>nd_key = [], nd_value = base, nd_saved = True, nd_nodes = None, nd_parent = None, nd_refs = 1\<rparr>"

definition node_children :: "node \<Rightarrow> nat list" where
  "node_children n = (case nd_nodes n of None \<Rightarrow> [] | Some cs \<Rightarrow> cs)"

definition modify :: "heap \<Rightarrow> nat \<Rightarrow> (node \<Rightarrow> node) \<Rightarrow> heap option" where
  "modify h p f = (case h p of None \<Rightarrow> None | Some n \<Rightarrow> Some (h(p \<mapsto> f n)))"

section \<open>Links\<close>

definition allocate :: "heap \<Rightarrow> nat \<Rightarrow> heap option" where
  "allocate h p = modify h p (\<lambda>n. if nd_nodes n = None then n\<lparr>nd_nodes := Some []\<rparr> else n)"

definition push_back :: "heap \<Rightarrow> nat \<Rightarrow> nat \<Rightarrow> heap option" where
  "push_back h p c = modify h p (\<lambda>n. n\<lparr>nd_nodes := map_option (\<lambda>cs. cs @ [c]) (nd_nodes n)\<rparr>)"

text \<open>The loop of \<^verbatim>\<open>attach\<close> and \<^verbatim>\<open>unlink\<close> that erases a node from the vector of its parent.\<close>

definition erase_from_parent :: "heap \<Rightarrow> nat \<Rightarrow> heap option" where
  "erase_from_parent h self = do {
     n \<leftarrow> h self;
     case nd_parent n of
       None \<Rightarrow> Some h
     | Some q \<Rightarrow> modify h q (\<lambda>m. m\<lparr>nd_nodes := map_option (remove1 self) (nd_nodes m)\<rparr>)
   }"

definition attach :: "heap \<Rightarrow> nat \<Rightarrow> nat option \<Rightarrow> heap option" where
  "attach h self root = do {
     h \<leftarrow> modify h self (\<lambda>n. n\<lparr>nd_saved := False\<rparr>);
     h \<leftarrow> erase_from_parent h self;
     h \<leftarrow> modify h self (\<lambda>n. n\<lparr>nd_parent := root\<rparr>);
     case root of None \<Rightarrow> Some h | Some r \<Rightarrow> modify h r (\<lambda>n. n\<lparr>nd_saved := False\<rparr>)
   }"

definition unlink :: "heap \<Rightarrow> nat \<Rightarrow> heap option" where
  "unlink h self = do {
     h \<leftarrow> erase_from_parent h self;
     modify h self (\<lambda>n. n\<lparr>nd_parent := None\<rparr>)
   }"

section \<open>Release\<close>

fun clear_loop :: "(heap \<Rightarrow> nat \<Rightarrow> heap option) \<Rightarrow> nat list \<Rightarrow> heap \<Rightarrow> heap option" where
  "clear_loop rel [] h = Some h"
| "clear_loop rel (c # cs) h = do {
     h \<leftarrow> modify h c (\<lambda>n. n\<lparr>nd_parent := None\<rparr>);
     h \<leftarrow> rel h c;
     clear_loop rel cs h
   }"

definition clear_with :: "(heap \<Rightarrow> nat \<Rightarrow> heap option) \<Rightarrow> heap \<Rightarrow> nat \<Rightarrow> heap option" where
  "clear_with rel h p = do {
     n \<leftarrow> h p;
     case nd_nodes n of
       None \<Rightarrow> Some h
     | Some cs \<Rightarrow> do {
         h \<leftarrow> clear_loop rel cs h;
         modify h p (\<lambda>n. n\<lparr>nd_nodes := None\<rparr>)
       }
   }"

definition add_ref :: "heap \<Rightarrow> nat \<Rightarrow> heap option" where
  "add_ref h c = modify h c (\<lambda>n. n\<lparr>nd_refs := nd_refs n + 1\<rparr>)"

text \<open>\<^verbatim>\<open>reference::release\<close> and the destructor.\<close>

fun release :: "nat \<Rightarrow> heap \<Rightarrow> nat \<Rightarrow> heap option" where
  "release 0 h c = None"
| "release (Suc fuel) h c = do {
     n \<leftarrow> h c;
     h \<leftarrow> modify h c (\<lambda>n. n\<lparr>nd_refs := nd_refs n - 1\<rparr>);
     if nd_refs n - 1 \<noteq> 0 then Some h
     else do {
       h \<leftarrow> unlink h c;
       h \<leftarrow> clear_with (release fuel) h c;
       Some (h(c := None))
     }
   }"

definition clear :: "nat \<Rightarrow> heap \<Rightarrow> nat \<Rightarrow> heap option" where
  "clear fuel h p = clear_with (release fuel) h p"

section \<open>Editing the children\<close>

text \<open>\<^verbatim>\<open>get\<close> by name, and the search of the operations that take a name; \<^verbatim>\<open>get\<close> asserts that the name is not empty.\<close>

fun find_child :: "heap \<Rightarrow> nat list \<Rightarrow> string \<Rightarrow> nat option option" where
  "find_child h [] name = Some None"
| "find_child h (c # cs) name =
     (case h c of
        None \<Rightarrow> None
      | Some n \<Rightarrow> if nd_key n = name then Some (Some c) else find_child h cs name)"

text \<open>The search of \<^verbatim>\<open>set\<close>, which only an object makes.\<close>

definition set_target :: "heap \<Rightarrow> nat \<Rightarrow> string \<Rightarrow> nat option option" where
  "set_target h p name = do {
     n \<leftarrow> h p;
     if get_type (nd_value n) = Object_type then find_child h (node_children n) name else Some None
   }"

definition append_new :: "heap \<Rightarrow> nat \<Rightarrow> nat \<Rightarrow> node \<Rightarrow> (heap \<times> nat) option" where
  "append_new h p a n = do {
     h \<leftarrow> attach (h(a \<mapsto> n)) a (Some p);
     h \<leftarrow> allocate h p;
     h \<leftarrow> push_back h p a;
     Some (h, a)
   }"

definition set_value :: "nat \<Rightarrow> heap \<Rightarrow> nat \<Rightarrow> nat \<Rightarrow> string \<Rightarrow> variant \<Rightarrow> (heap \<times> nat) option" where
  "set_value fuel h a p name base = do {
     target \<leftarrow> set_target h p name;
     case target of
       Some c \<Rightarrow> do {
         h \<leftarrow> modify h c (\<lambda>n. n\<lparr>nd_value := base, nd_saved := False\<rparr>);
         h \<leftarrow> clear fuel h c;
         h \<leftarrow> modify h p (\<lambda>n. n\<lparr>nd_saved := False\<rparr>);
         Some (h, c)
       }
     | None \<Rightarrow> append_new h p a ((new_node base)\<lparr>nd_key := name\<rparr>)
   }"

definition set_attribute :: "nat \<Rightarrow> heap \<Rightarrow> nat \<Rightarrow> nat \<Rightarrow> string \<Rightarrow> variant \<Rightarrow> (heap \<times> nat) option" where
  "set_attribute fuel h a p name fvalue = set_value fuel h a p (CHR '':'' # name) fvalue"

definition set_schema :: "nat \<Rightarrow> heap \<Rightarrow> nat \<Rightarrow> nat \<Rightarrow> string \<Rightarrow> nat option \<Rightarrow> (heap \<times> nat) option" where
  "set_schema fuel h a p name base =
     (case base of
        None \<Rightarrow> set_value fuel h a p name VNull
      | Some b \<Rightarrow> do {
          h \<leftarrow> modify h b (\<lambda>n. n\<lparr>nd_key := name\<rparr>);
          h \<leftarrow> attach h b (Some p);
          target \<leftarrow> set_target h p name;
          case target of
            Some c \<Rightarrow>
              if c = b then Some (h, b)
              else do {
                h \<leftarrow> modify h c (\<lambda>n. n\<lparr>nd_parent := None\<rparr>);
                h \<leftarrow> release fuel h c;
                h \<leftarrow> modify h p (\<lambda>n. n\<lparr>nd_nodes := map_option (map (\<lambda>x. if x = c then b else x)) (nd_nodes n)\<rparr>);
                Some (h, b)
              }
          | None \<Rightarrow> do {
              h \<leftarrow> allocate h p;
              h \<leftarrow> push_back h p b;
              Some (h, b)
            }
        })"

definition push_value :: "heap \<Rightarrow> nat \<Rightarrow> nat \<Rightarrow> variant \<Rightarrow> (heap \<times> nat) option" where
  "push_value h a p base = append_new h p a (new_node base)"

definition push_schema :: "heap \<Rightarrow> nat \<Rightarrow> nat \<Rightarrow> nat option \<Rightarrow> (heap \<times> nat) option" where
  "push_schema h a p base =
     (case base of
        None \<Rightarrow> push_value h a p VNull
      | Some b \<Rightarrow> do {
          h \<leftarrow> attach h b (Some p);
          h \<leftarrow> allocate h p;
          h \<leftarrow> push_back h p b;
          Some (h, b)
        })"

text \<open>What both forms of \<^verbatim>\<open>pop\<close> do with the child at a position.\<close>

definition pop_child :: "nat \<Rightarrow> heap \<Rightarrow> nat \<Rightarrow> nat \<Rightarrow> heap option" where
  "pop_child fuel h p c = do {
     h \<leftarrow> modify h c (\<lambda>n. n\<lparr>nd_parent := None\<rparr>);
     h \<leftarrow> release fuel h c;
     modify h p (\<lambda>n. n\<lparr>nd_nodes := map_option (remove1 c) (nd_nodes n), nd_saved := False\<rparr>)
   }"

definition pop_index :: "nat \<Rightarrow> heap \<Rightarrow> nat \<Rightarrow> nat \<Rightarrow> heap option" where
  "pop_index fuel h p index = do {
     n \<leftarrow> h p;
     if index < length (node_children n) then pop_child fuel h p (node_children n ! index) else None
   }"

definition pop_name :: "nat \<Rightarrow> heap \<Rightarrow> nat \<Rightarrow> string \<Rightarrow> heap option" where
  "pop_name fuel h p name = do {
     n \<leftarrow> h p;
     target \<leftarrow> find_child h (node_children n) name;
     case target of None \<Rightarrow> Some h | Some c \<Rightarrow> pop_child fuel h p c
   }"

definition rename :: "heap \<Rightarrow> nat \<Rightarrow> string \<Rightarrow> string \<Rightarrow> (heap \<times> bool) option" where
  "rename h p name new_name = do {
     n \<leftarrow> h p;
     target \<leftarrow> find_child h (node_children n) name;
     case target of
       None \<Rightarrow> Some (h, False)
     | Some c \<Rightarrow> do { h \<leftarrow> modify h c (\<lambda>n. n\<lparr>nd_key := new_name\<rparr>); Some (h, True) }
   }"

section \<open>Joining\<close>

text \<open>
  \<^verbatim>\<open>fill_arena\<close> over the nodes of \<open>base\<close>: \<open>arena\<close> maps names to nodes.  A node that is replaced is released; when
  that is the last reference and its parent is \<open>base\<close>, the destructor erases it from the vector that is
  being walked: \<^const>\<open>None\<close>.
\<close>

fun fill_arena :: "nat \<Rightarrow> nat \<Rightarrow> heap \<Rightarrow> nat list \<Rightarrow> (string \<times> nat) list \<Rightarrow> (heap \<times> (string \<times> nat) list) option" where
  "fill_arena fuel base h [] arena = Some (h, arena)"
| "fill_arena fuel base h (c # cs) arena = do {
     n \<leftarrow> h c;
     case map_of arena (nd_key n) of
       None \<Rightarrow> fill_arena fuel base h cs (arena @ [(nd_key n, c)])
     | Some d \<Rightarrow> do {
         m \<leftarrow> h d;
         if nd_refs m = 1 \<and> nd_parent m = Some base then None
         else do {
           h \<leftarrow> release fuel h d;
           fill_arena fuel base h cs (map (\<lambda>(k, x). (k, if k = nd_key n then c else x)) arena)
         }
       }
   }"

definition empty_nodes :: "heap \<Rightarrow> nat \<Rightarrow> heap option" where
  "empty_nodes h p = modify h p (\<lambda>n. n\<lparr>nd_nodes := map_option (\<lambda>cs. []) (nd_nodes n)\<rparr>)"

fun adopt :: "heap \<Rightarrow> nat \<Rightarrow> nat list \<Rightarrow> heap option" where
  "adopt h p [] = Some h"
| "adopt h p (c # cs) = do { h \<leftarrow> modify h c (\<lambda>n. n\<lparr>nd_saved := False, nd_parent := Some p\<rparr>); adopt h p cs }"

text \<open>The order in which the arena, an \<^verbatim>\<open>unordered_map\<close>, is walked is the argument \<open>iteration\<close>.\<close>

definition join :: "((string \<times> nat) list \<Rightarrow> (string \<times> nat) list) \<Rightarrow> nat \<Rightarrow> heap \<Rightarrow> nat \<Rightarrow> nat \<Rightarrow> bool \<Rightarrow> heap option" where
  "join iteration fuel h p other append_only = do {
     h \<leftarrow> allocate h p;
     n \<leftarrow> h p;
     m \<leftarrow> h other;
     cs \<leftarrow> nd_nodes m;
     h \<leftarrow> modify h p (\<lambda>n. n\<lparr>nd_saved := False\<rparr>);
     h \<leftarrow> (if \<not> append_only then do {
            (h, arena) \<leftarrow> fill_arena fuel p h (node_children n) [];
            h \<leftarrow> empty_nodes h p;
            (h, arena) \<leftarrow> fill_arena fuel other h cs arena;
            h \<leftarrow> empty_nodes h other;
            modify h p (\<lambda>n. n\<lparr>nd_nodes := Some (map snd (iteration arena))\<rparr>)
          } else do {
            h \<leftarrow> modify h p (\<lambda>n. n\<lparr>nd_nodes := map_option (\<lambda>xs. xs @ cs) (nd_nodes n)\<rparr>);
            empty_nodes h other
          });
     n \<leftarrow> h p;
     adopt h p (node_children n)
   }"

end
