(* ===== verification/Schema_Heap_Laws.thy ===== *)
theory Schema_Heap_Laws
  imports Schema_Heap
begin

text \<open>
  The invariant of the heap of nodes: the vector of a node holds, once each, exactly the nodes whose
  parent it is, and no node is its own ancestor.  \<open>release\<close> frees a subtree, ends when the fuel covers
  the size of the subtree, keeps the invariant and leaves every other node alone.
\<close>

section \<open>The invariant\<close>

definition par :: "heap \<Rightarrow> nat \<Rightarrow> nat option" where
  "par h c = (case h c of None \<Rightarrow> None | Some n \<Rightarrow> nd_parent n)"

definition kids :: "heap \<Rightarrow> nat \<Rightarrow> nat list" where
  "kids h p = (case h p of None \<Rightarrow> [] | Some n \<Rightarrow> node_children n)"

definition up :: "heap \<Rightarrow> (nat \<times> nat) set" where
  "up h = {(c, p). par h c = Some p}"

definition heap_ok :: "heap \<Rightarrow> bool" where
  "heap_ok h \<longleftrightarrow> finite (dom h) \<and> (\<forall>p. distinct (kids h p) \<and> set (kids h p) = {c. par h c = Some p}) \<and> acyclic (up h)"

text \<open>A node and its descendants.\<close>

definition sub :: "heap \<Rightarrow> nat \<Rightarrow> nat set" where
  "sub h c = {x. (x, c) \<in> (up h)\<^sup>*}"

lemma heap_okD:
  assumes "heap_ok h"
  shows "finite (dom h)" "distinct (kids h p)" "c \<in> set (kids h p) \<longleftrightarrow> par h c = Some p" "acyclic (up h)"
  using assms by (auto simp: heap_ok_def)

lemma node_children_upd [simp]:
  "node_children (n\<lparr>nd_key := k\<rparr>) = node_children n" "node_children (n\<lparr>nd_value := v\<rparr>) = node_children n"
  "node_children (n\<lparr>nd_saved := b\<rparr>) = node_children n" "node_children (n\<lparr>nd_parent := q\<rparr>) = node_children n"
  "node_children (n\<lparr>nd_refs := r\<rparr>) = node_children n" "node_children (n\<lparr>nd_nodes := Some cs\<rparr>) = cs"
  "node_children (n\<lparr>nd_nodes := None\<rparr>) = []"
  by (simp_all add: node_children_def)

lemma node_children_map [simp]:
  "f [] = [] \<Longrightarrow> node_children (n\<lparr>nd_nodes := map_option f (nd_nodes n)\<rparr>) = f (node_children n)"
  by (simp add: node_children_def split: option.splits)

lemma par_upd [simp]: "par (h(p \<mapsto> n)) = (par h)(p := nd_parent n)"
  by (auto simp: par_def)

lemma kids_upd [simp]: "kids (h(p \<mapsto> n)) = (kids h)(p := node_children n)"
  by (auto simp: kids_def)

lemma par_None [simp]: "h p = None \<Longrightarrow> par h p = None" and kids_None [simp]: "h p = None \<Longrightarrow> kids h p = []"
  by (simp_all add: par_def kids_def)

lemma par_Some [simp]: "h p = Some n \<Longrightarrow> par h p = nd_parent n" and kids_Some: "h p = Some n \<Longrightarrow> kids h p = node_children n"
  by (simp_all add: par_def kids_def)

lemma par_delete [simp]: "par (h(p := None)) = (par h)(p := None)" and kids_delete [simp]: "kids (h(p := None)) = (kids h)(p := [])"
  by (auto simp: par_def kids_def)

lemma live_par: "par h c = Some p \<Longrightarrow> \<exists>n. h c = Some n \<and> nd_parent n = Some p"
  by (auto simp: par_def split: option.splits)

lemma live_kids: "heap_ok h \<Longrightarrow> c \<in> set (kids h p) \<Longrightarrow> \<exists>n. h c = Some n \<and> nd_parent n = Some p"
  using heap_okD(3) live_par by blast

lemma live_parent: "heap_ok h \<Longrightarrow> par h c = Some p \<Longrightarrow> \<exists>n. h p = Some n \<and> c \<in> set (node_children n)"
  using heap_okD(3) [of h c p] by (cases "h p") (simp_all add: kids_def)

lemma heap_okI:
  assumes "finite (dom h)" "\<And>p. distinct (kids h p)" "\<And>p c. c \<in> set (kids h p) \<longleftrightarrow> par h c = Some p" "acyclic (up h)"
  shows "heap_ok h"
  using assms by (auto simp: heap_ok_def)

lemma up_mono: "(\<And>c p. par h' c = Some p \<Longrightarrow> par h c = Some p) \<Longrightarrow> up h' \<subseteq> up h"
  by (auto simp: up_def)

lemma upD: "up h' \<subseteq> up h \<Longrightarrow> par h' c = Some p \<Longrightarrow> par h c = Some p"
  unfolding up_def by blast

lemma sub_mono: "up h' \<subseteq> up h \<Longrightarrow> sub h' c \<subseteq> sub h c"
  using rtrancl_mono [of "up h'" "up h"] by (auto simp: sub_def)

lemma sub_self [simp]: "c \<in> sub h c"
  by (simp add: sub_def)

lemma sub_child: "par h x = Some p \<Longrightarrow> p \<in> sub h c \<Longrightarrow> x \<in> sub h c"
  by (auto simp: sub_def up_def intro: converse_rtrancl_into_rtrancl)

lemma sub_trans: "y \<in> sub h x \<Longrightarrow> x \<in> sub h c \<Longrightarrow> y \<in> sub h c"
  by (auto simp: sub_def)

lemma sub_live: "heap_ok h \<Longrightarrow> sub h c \<subseteq> insert c (dom h)"
proof
  fix x assume "x \<in> sub h c"
  then have "x = c \<or> (\<exists>y. (x, y) \<in> up h)" unfolding sub_def by (auto elim: converse_rtranclE)
  then show "x \<in> insert c (dom h)" by (auto simp: up_def dest: live_par)
qed

lemma finite_sub: "heap_ok h \<Longrightarrow> finite (sub h c)"
  using sub_live [of h c] heap_okD(1) by (meson finite_insert finite_subset)

lemma child_not_above: "heap_ok h \<Longrightarrow> par h x = Some c \<Longrightarrow> c \<notin> sub h x"
  using heap_okD(4) [of h] unfolding sub_def acyclic_def up_def
  by (metis (mono_tags, lifting) CollectI case_prodI mem_Collect_eq rtrancl_into_trancl2)

lemma card_sub_child:
  assumes "heap_ok h" "par h x = Some c"
  shows "card (sub h x) < card (sub h c)"
proof -
  have "sub h x \<subseteq> sub h c - {c}" using sub_trans [of _ h x c] sub_child [OF assms(2)] child_not_above [OF assms] by auto
  then have "sub h x \<subset> sub h c" by auto
  then show ?thesis using finite_sub [OF assms(1)] by (rule psubset_card_mono [rotated])
qed

section \<open>Changes of links\<close>

text \<open>Updates that keep parent and children of every node.\<close>

lemma heap_ok_same_links:
  assumes "heap_ok h" "par h' = par h" "kids h' = kids h" "finite (dom h')"
  shows "heap_ok h'"
  using assms by (auto simp: heap_ok_def up_def)

lemma heap_ok_cut:
  assumes ok: "heap_ok h" and x: "par h x = Some p"
    and eqs: "par h' = (par h)(x := None)" "kids h' = (kids h)(p := remove1 x (kids h p))" "finite (dom h')"
  shows "heap_ok h'" "up h' \<subseteq> up h"
proof -
  show u: "up h' \<subseteq> up h" by (rule up_mono) (auto simp: eqs split: if_splits)
  show "heap_ok h'"
  proof (rule heap_okI)
    show "distinct (kids h' q)" for q using heap_okD(2) [OF ok] by (simp add: eqs)
    show "c \<in> set (kids h' q) \<longleftrightarrow> par h' c = Some q" for c q
      using heap_okD(2,3) [OF ok] x by (auto simp: eqs)
    show "acyclic (up h')" using heap_okD(4) [OF ok] u by (rule acyclic_subset)
  qed (rule eqs(3))
qed

lemma heap_ok_link:
  assumes ok: "heap_ok h" and x: "par h x = None" "p \<notin> sub h x"
    and eqs: "par h' = (par h)(x := Some p)" "kids h' = (kids h)(p := ys)" "finite (dom h')"
      "distinct ys" "set ys = insert x (set (kids h p))"
  shows "heap_ok h'"
proof (rule heap_okI)
  show "distinct (kids h' q)" for q using heap_okD(2) [OF ok] eqs(4) by (simp add: eqs)
  show "c \<in> set (kids h' q) \<longleftrightarrow> par h' c = Some q" for c q
    using heap_okD(3) [OF ok] x eqs(5) by (auto simp: eqs)
  have "up h' = insert (x, p) (up h)" using x by (auto simp: up_def eqs split: if_splits)
  then show "acyclic (up h')" using heap_okD(4) [OF ok] x(2) by (simp add: acyclic_insert sub_def)
qed (rule eqs(3))

lemma heap_ok_delete:
  assumes ok: "heap_ok h" and c: "par h c = None" "kids h c = []"
  shows "heap_ok (h(c := None))"
  by (rule heap_ok_same_links [OF ok]) (use c heap_okD(1) [OF ok] in \<open>auto simp: fun_eq_iff\<close>)

lemma heap_ok_new:
  assumes ok: "heap_ok h" and a: "h a = None" and n: "nd_parent n = None" "node_children n = []"
  shows "heap_ok (h(a \<mapsto> n))"
  by (rule heap_ok_same_links [OF ok]) (use a n heap_okD(1) [OF ok] in \<open>auto simp: fun_eq_iff\<close>)

section \<open>Locality of release\<close>

definition closed :: "nat set \<Rightarrow> heap \<Rightarrow> bool" where
  "closed S h \<longleftrightarrow> (\<forall>p\<in>S. set (kids h p) \<subseteq> S)"

lemma closedD: "closed S h \<Longrightarrow> p \<in> S \<Longrightarrow> h p = Some n \<Longrightarrow> set (node_children n) \<subseteq> S"
  using kids_Some [of h p n] by (metis closed_def)

definition merge :: "nat set \<Rightarrow> heap \<Rightarrow> heap \<Rightarrow> heap" where
  "merge S g h = (\<lambda>a. if a \<in> S then g a else h a)"

text \<open>A run from \<open>h\<close> to \<open>g\<close> that reads and writes \<open>S\<close> only.\<close>

definition runs_in :: "nat set \<Rightarrow> (heap \<Rightarrow> heap option) \<Rightarrow> heap \<Rightarrow> heap \<Rightarrow> bool" where
  "runs_in S f h g \<longleftrightarrow> closed S g \<and> (\<forall>a. a \<notin> S \<longrightarrow> g a = h a) \<and> (\<forall>h'. (\<forall>a\<in>S. h' a = h a) \<longrightarrow> f h' = Some (merge S g h'))"

lemma runs_inD:
  assumes "runs_in S f h g"
  shows "closed S g" "\<And>a. a \<notin> S \<Longrightarrow> g a = h a" "\<And>h'. (\<And>a. a \<in> S \<Longrightarrow> h' a = h a) \<Longrightarrow> f h' = Some (merge S g h')"
  using assms by (auto simp: runs_in_def)

lemma runs_in_bind:
  assumes "runs_in S f h g" "runs_in S f' g k"
  shows "runs_in S (\<lambda>h. f h \<bind> f') h k"
proof -
  have "f h' \<bind> f' = Some (merge S k h')" if "\<And>a. a \<in> S \<Longrightarrow> h' a = h a" for h'
  proof -
    have "f h' = Some (merge S g h')" using runs_inD(3) [OF assms(1)] that by blast
    moreover have "f' (merge S g h') = Some (merge S k (merge S g h'))"
      by (rule runs_inD(3) [OF assms(2)]) (simp add: merge_def)
    moreover have "merge S k (merge S g h') = merge S k h'" by (simp add: merge_def fun_eq_iff)
    ultimately show ?thesis by simp
  qed
  then show ?thesis using assms by (auto simp: runs_in_def)
qed

lemma runs_in_modify:
  assumes "closed S h" "p \<in> S" "h p = Some n" "set (node_children (f n)) \<subseteq> S"
  shows "runs_in S (\<lambda>h. modify h p f) h (h(p \<mapsto> f n))"
  using assms by (auto simp: runs_in_def closed_def modify_def merge_def fun_eq_iff)

lemma modify_Some: "modify h p f = Some g \<longleftrightarrow> (\<exists>n. h p = Some n \<and> g = h(p \<mapsto> f n))"
  by (auto simp: modify_def split: option.splits)

lemma runs_in_refl: "closed S h \<Longrightarrow> runs_in S Some h h"
  by (auto simp: runs_in_def merge_def fun_eq_iff)

lemma runs_in_clear_loop:
  assumes rel: "\<And>h x g. closed S h \<Longrightarrow> x \<in> S \<Longrightarrow> par h x = None \<Longrightarrow> rel h x = Some g \<Longrightarrow> runs_in S (\<lambda>h. rel h x) h g"
  shows "closed S h \<Longrightarrow> set cs \<subseteq> S \<Longrightarrow> clear_loop rel cs h = Some g \<Longrightarrow> runs_in S (clear_loop rel cs) h g"
proof (induction cs arbitrary: h)
  case Nil
  then show ?case by (simp add: runs_in_refl)
next
  case (Cons c cs)
  let ?f = "\<lambda>n. n\<lparr>nd_parent := None\<rparr>"
  obtain h1 h2 where h: "modify h c ?f = Some h1" "rel h1 c = Some h2" "clear_loop rel cs h2 = Some g"
    using Cons.prems(3) by (auto split: Option.bind_splits)
  obtain n where n: "h c = Some n" "h1 = h(c \<mapsto> ?f n)" using h(1) by (auto simp: modify_Some)
  have c: "set (node_children (?f n)) \<subseteq> S"
    using closedD [OF Cons.prems(1) _ n(1)] Cons.prems(2) by simp
  have m: "runs_in S (\<lambda>h. modify h c ?f) h h1" using runs_in_modify [of S h c n ?f] Cons.prems(1,2) n c by simp
  have r: "runs_in S (\<lambda>h. rel h c) h1 h2" by (rule rel [OF runs_inD(1) [OF m] _ _ h(2)]) (use Cons.prems(2) n in auto)
  have l: "runs_in S (clear_loop rel cs) h2 g" by (rule Cons.IH [OF runs_inD(1) [OF r] _ h(3)]) (use Cons.prems(2) in auto)
  show ?case using runs_in_bind [OF m runs_in_bind [OF r l]] by (simp add: comp_def)
qed

lemma clear_with_Some:
  "clear_with rel h p = Some g \<longleftrightarrow> (\<exists>n. h p = Some n \<and> (case nd_nodes n of None \<Rightarrow> g = h
     | Some cs \<Rightarrow> \<exists>h1. clear_loop rel cs h = Some h1 \<and> modify h1 p (\<lambda>n. n\<lparr>nd_nodes := None\<rparr>) = Some g))"
  by (auto simp: clear_with_def bind_eq_Some_conv split: option.splits)

lemma runs_in_clear_with:
  assumes rel: "\<And>h x g. closed S h \<Longrightarrow> x \<in> S \<Longrightarrow> par h x = None \<Longrightarrow> rel h x = Some g \<Longrightarrow> runs_in S (\<lambda>h. rel h x) h g"
    and S: "closed S h" "p \<in> S" and run: "clear_with rel h p = Some g"
  shows "runs_in S (\<lambda>h. clear_with rel h p) h g"
proof -
  obtain n where n: "h p = Some n" using run by (auto simp: clear_with_Some)
  have eq: "clear_with rel h' p = (case nd_nodes n of None \<Rightarrow> Some h'
      | Some cs \<Rightarrow> clear_loop rel cs h' \<bind> (\<lambda>h. modify h p (\<lambda>n. n\<lparr>nd_nodes := None\<rparr>)))" if "h' p = h p" for h'
    using that n by (simp add: clear_with_def)
  show ?thesis
  proof (cases "nd_nodes n")
    case None
    then have "runs_in S Some h g" using run n runs_in_refl [OF S(1)] by (simp add: clear_with_Some)
    then show ?thesis using eq None S(2) by (auto simp: runs_in_def)
  next
    case (Some cs)
    then obtain h1 where h1: "clear_loop rel cs h = Some h1" "modify h1 p (\<lambda>n. n\<lparr>nd_nodes := None\<rparr>) = Some g"
      using run n by (auto simp: clear_with_Some)
    have "set cs \<subseteq> S" using closedD [OF S n] Some by (simp add: node_children_def)
    with rel S(1) have l: "runs_in S (clear_loop rel cs) h h1" using h1(1) by (rule runs_in_clear_loop)
    obtain n1 where "h1 p = Some n1" "g = h1(p \<mapsto> n1\<lparr>nd_nodes := None\<rparr>)" using h1(2) by (auto simp: modify_Some)
    then have "runs_in S (\<lambda>h. modify h p (\<lambda>n. n\<lparr>nd_nodes := None\<rparr>)) h1 g"
      using runs_in_modify [OF runs_inD(1) [OF l] S(2), of n1 "\<lambda>n. n\<lparr>nd_nodes := None\<rparr>"] by simp
    then have "runs_in S (\<lambda>h. clear_loop rel cs h \<bind> (\<lambda>h. modify h p (\<lambda>n. n\<lparr>nd_nodes := None\<rparr>))) h g"
      using runs_in_bind [OF l] by blast
    then show ?thesis using eq Some S(2) by (auto simp: runs_in_def)
  qed
qed

text \<open>The step of \<open>release\<close> for a node without a parent.\<close>

lemma release_detached:
  assumes "h c = Some n" "nd_parent n = None"
  shows "release (Suc fuel) h c = (let h1 = h(c \<mapsto> n\<lparr>nd_refs := nd_refs n - 1\<rparr>) in
     if nd_refs n - 1 \<noteq> 0 then Some h1 else clear_with (release fuel) h1 c \<bind> (\<lambda>h. Some (h(c := None))))"
proof -
  have "unlink (h(c \<mapsto> n\<lparr>nd_refs := r\<rparr>)) c = Some (h(c \<mapsto> n\<lparr>nd_refs := r\<rparr>))" for r
    using assms by (simp add: unlink_def erase_from_parent_def modify_def fun_eq_iff)
  then show ?thesis using assms(1) by (simp add: modify_def Let_def)
qed

lemma runs_in_release:
  "closed S h \<Longrightarrow> x \<in> S \<Longrightarrow> par h x = None \<Longrightarrow> release fuel h x = Some g \<Longrightarrow> runs_in S (\<lambda>h. release fuel h x) h g"
proof (induction fuel arbitrary: h x g)
  case (Suc fuel)
  obtain n where n: "h x = Some n" "nd_parent n = None"
    using Suc.prems(3,4) by (cases "h x") auto
  let ?n = "n\<lparr>nd_refs := nd_refs n - 1\<rparr>"
  let ?h = "h(x \<mapsto> ?n)"
  have kids: "set (node_children n) \<subseteq> S" using closedD [OF Suc.prems(1,2) n(1)] .
  then have S: "closed S ?h" using Suc.prems(1) by (auto simp: closed_def)
  have step: "runs_in S (\<lambda>h. modify h x (\<lambda>n. n\<lparr>nd_refs := nd_refs n - 1\<rparr>)) h ?h"
    using runs_in_modify [of S h x n "\<lambda>n. n\<lparr>nd_refs := nd_refs n - 1\<rparr>"] Suc.prems(1,2) n kids by simp
  have eq: "release (Suc fuel) h' x = (modify h' x (\<lambda>n. n\<lparr>nd_refs := nd_refs n - 1\<rparr>) \<bind> (\<lambda>h1.
     if nd_refs n - 1 \<noteq> 0 then Some h1 else clear_with (release fuel) h1 x \<bind> (\<lambda>h. Some (h(x := None)))))" if "h' x = h x" for h'
    using that n release_detached [of h' x n fuel] by (simp add: modify_def Let_def del: release.simps)
  show ?case
  proof (cases "nd_refs n - 1 = 0")
    case False
    then have "g = ?h" using Suc.prems(4) n release_detached [of h x n fuel] by (simp add: Let_def del: release.simps)
    then have "runs_in S (\<lambda>h. modify h x (\<lambda>n. n\<lparr>nd_refs := nd_refs n - 1\<rparr>) \<bind> Some) h g"
      using runs_in_bind [OF step runs_in_refl [OF S]] by simp
    then show ?thesis using eq False Suc.prems(2) by (auto simp: runs_in_def simp del: release.simps)
  next
    case True
    then obtain h2 where h2: "clear_with (release fuel) ?h x = Some h2" "g = h2(x := None)"
      using Suc.prems(4) n release_detached [of h x n fuel] by (auto simp: Let_def simp del: release.simps split: Option.bind_splits)
    have c: "runs_in S (\<lambda>h. clear_with (release fuel) h x) ?h h2"
      using Suc.IH S Suc.prems(2) h2(1) by (rule runs_in_clear_with)
    have d: "runs_in S (\<lambda>h. Some (h(x := None))) h2 g"
      unfolding h2(2) runs_in_def using runs_inD(1) [OF c] Suc.prems(2) by (auto simp: closed_def merge_def)
    show ?thesis using runs_in_bind [OF step runs_in_bind [OF c d]] eq True Suc.prems(2)
      by (auto simp: runs_in_def simp del: release.simps)
  qed
qed simp

section \<open>What release does\<close>

definition refs_one :: "nat set \<Rightarrow> heap \<Rightarrow> bool" where
  "refs_one S h \<longleftrightarrow> (\<forall>x\<in>S. \<forall>n. h x = Some n \<longrightarrow> nd_refs n = 1)"

definition released :: "heap \<Rightarrow> nat \<Rightarrow> heap \<Rightarrow> bool" where
  "released h c g \<longleftrightarrow> heap_ok g \<and> up g \<subseteq> up h \<and> dom g \<subseteq> dom h \<and> (\<forall>x. x \<notin> sub h c \<longrightarrow> g x = h x)
     \<and> (refs_one (sub h c) h \<longrightarrow> g c = None \<and> (\<forall>y. g y \<noteq> None \<longrightarrow> par g y = par h y))"

lemma releasedD:
  assumes "released h c g"
  shows "heap_ok g" "up g \<subseteq> up h" "dom g \<subseteq> dom h" "x \<notin> sub h c \<Longrightarrow> g x = h x"
    "refs_one (sub h c) h \<Longrightarrow> g c = None" "refs_one (sub h c) h \<Longrightarrow> g y \<noteq> None \<Longrightarrow> par g y = par h y"
  using assms by (auto simp: released_def)

lemma released_none:
  assumes "released h c g" "refs_one (sub h c) h"
  shows "x \<in> sub h c \<Longrightarrow> g x = None"
proof -
  assume "x \<in> sub h c"
  then have "(x, c) \<in> (up h)\<^sup>*" by (simp add: sub_def)
  then show "g x = None"
  proof (induction rule: converse_rtrancl_induct)
    case base
    then show ?case using releasedD(5) [OF assms] .
  next
    case (step y z)
    show ?case
    proof (rule ccontr)
      assume "g y \<noteq> None"
      then have "par g y = Some z" using releasedD(6) [OF assms] step.hyps(1) by (simp add: up_def)
      then show False using live_parent [OF releasedD(1) [OF assms(1)]] step.IH by fastforce
    qed
  qed
qed

lemma closed_sub: "heap_ok h \<Longrightarrow> closed (sub h c) h"
  using heap_okD(3) [of h] sub_child [of h] by (auto simp: closed_def)

text \<open>The entry of a node outside the subtree does not matter.\<close>

lemma release_beside:
  assumes ok: "heap_ok K" and x: "par K x = None" "c \<notin> sub K x" and out: "\<And>a. a \<noteq> c \<Longrightarrow> h a = K a"
    and G: "release fuel K x = Some G" "released K x G"
  obtains g where "release fuel h x = Some g" "g c = h c" "G = g(c := K c)" "\<And>a. a \<notin> sub K x \<Longrightarrow> g a = h a"
proof -
  have run: "runs_in (sub K x) (\<lambda>h. release fuel h x) K G"
    by (rule runs_in_release [OF closed_sub [OF ok] sub_self x(1) G(1)])
  have "release fuel h x = Some (merge (sub K x) G h)" by (rule runs_inD(3) [OF run]) (metis out x(2))
  moreover have "G = (merge (sub K x) G h)(c := K c)"
    using releasedD(4) [OF G(2)] x(2) out by (auto simp: merge_def fun_eq_iff)
  ultimately show ?thesis using that [of "merge (sub K x) G h"] x(2) by (simp add: merge_def)
qed

text \<open>
  One round of \<open>clear_loop\<close>: the heap in which \<open>c\<close> has what is left of its vector satisfies the
  invariant; it loses the link of \<open>x\<close> and then the subtree.
\<close>

lemma detach_first:
  assumes K: "K = hm(c \<mapsto> n\<lparr>nd_nodes := Some (x # rest)\<rparr>)" "heap_ok K"
  obtains m where "hm x = Some m" "x \<noteq> c" "par K x = Some c"
    "heap_ok (hm(x \<mapsto> m\<lparr>nd_parent := None\<rparr>, c \<mapsto> n\<lparr>nd_nodes := Some rest\<rparr>))"
    "up (hm(x \<mapsto> m\<lparr>nd_parent := None\<rparr>, c \<mapsto> n\<lparr>nd_nodes := Some rest\<rparr>)) \<subseteq> up K"
    "par (hm(x \<mapsto> m\<lparr>nd_parent := None\<rparr>, c \<mapsto> n\<lparr>nd_nodes := Some rest\<rparr>)) = (par K)(x := None)"
proof -
  have x: "par K x = Some c" using heap_okD(3) [OF K(2), of x c] by (simp add: K(1))
  have xc: "x \<noteq> c" using child_not_above [OF K(2) x] by auto
  obtain m where m: "hm x = Some m" "nd_parent m = Some c" using live_par [OF x] xc K(1) by auto
  let ?K = "hm(x \<mapsto> m\<lparr>nd_parent := None\<rparr>, c \<mapsto> n\<lparr>nd_nodes := Some rest\<rparr>)"
  have eqs: "par ?K = (par K)(x := None)" "kids ?K = (kids K)(c := remove1 x (kids K c))"
    using m xc by (auto simp: K(1) fun_eq_iff kids_Some)
  have "finite (dom ?K)" using heap_okD(1) [OF K(2)] by (simp add: K(1))
  from that [OF m(1) xc x heap_ok_cut [OF K(2) x eqs this] eqs(1)] show ?thesis .
qed

definition release_spec :: "nat \<Rightarrow> bool" where
  "release_spec fuel \<longleftrightarrow> (\<forall>h x n. heap_ok h \<longrightarrow> h x = Some n \<longrightarrow> nd_parent n = None \<longrightarrow> card (sub h x) \<le> fuel \<longrightarrow>
     (\<exists>g. release fuel h x = Some g \<and> released h x g))"

lemma release_specD:
  "release_spec fuel \<Longrightarrow> heap_ok h \<Longrightarrow> h x = Some n \<Longrightarrow> nd_parent n = None \<Longrightarrow> card (sub h x) \<le> fuel \<Longrightarrow>
   \<exists>g. release fuel h x = Some g \<and> released h x g"
  by (auto simp: release_spec_def)

lemma clear_step:
  assumes rel: "release_spec fuel"
    and K: "K = hm(c \<mapsto> n\<lparr>nd_nodes := Some (x # rest)\<rparr>)" "heap_ok K" and small: "card (sub K x) \<le> fuel"
  obtains m K1 G hm2 where "modify hm x (\<lambda>n. n\<lparr>nd_parent := None\<rparr>) = Some (hm(x \<mapsto> m))"
    "release fuel (hm(x \<mapsto> m)) x = Some hm2" "hm2 c = hm c" "G = hm2(c \<mapsto> n\<lparr>nd_nodes := Some rest\<rparr>)"
    "released K1 x G" "up K1 \<subseteq> up K" "dom K1 \<subseteq> dom K" "par K1 = (par K)(x := None)" "sub K1 x \<subseteq> sub K c - {c}"
    "\<And>a. a \<noteq> c \<Longrightarrow> map_option nd_refs (K1 a) = map_option nd_refs (K a)" "\<And>a. a \<notin> sub K1 x \<Longrightarrow> a \<noteq> x \<Longrightarrow> hm2 a = hm a"
proof -
  obtain m where m: "hm x = Some m" "x \<noteq> c" "par K x = Some c"
    and K1: "heap_ok (hm(x \<mapsto> m\<lparr>nd_parent := None\<rparr>, c \<mapsto> n\<lparr>nd_nodes := Some rest\<rparr>))"
      "up (hm(x \<mapsto> m\<lparr>nd_parent := None\<rparr>, c \<mapsto> n\<lparr>nd_nodes := Some rest\<rparr>)) \<subseteq> up K"
      "par (hm(x \<mapsto> m\<lparr>nd_parent := None\<rparr>, c \<mapsto> n\<lparr>nd_nodes := Some rest\<rparr>)) = (par K)(x := None)"
    by (rule detach_first [OF K])
  let ?K = "hm(x \<mapsto> m\<lparr>nd_parent := None\<rparr>, c \<mapsto> n\<lparr>nd_nodes := Some rest\<rparr>)"
  have S: "sub ?K x \<subseteq> sub K x" by (rule sub_mono [OF K1(2)])
  have cS: "c \<notin> sub ?K x" using child_not_above [OF K(2) m(3)] S by auto
  have Sc: "sub ?K x \<subseteq> sub K c - {c}" using S cS sub_trans [of _ K x c] sub_child [OF m(3) sub_self] by auto
  have "card (sub ?K x) \<le> fuel" using card_mono [OF finite_sub [OF K(2)] S] small by simp
  then obtain G where G: "release fuel ?K x = Some G" "released ?K x G"
    using release_specD [OF rel K1(1), of x "m\<lparr>nd_parent := None\<rparr>"] m(2) by auto
  obtain g where g: "release fuel (hm(x \<mapsto> m\<lparr>nd_parent := None\<rparr>)) x = Some g" "g c = hm c" "G = g(c := ?K c)"
    "\<And>a. a \<notin> sub ?K x \<Longrightarrow> a \<noteq> x \<Longrightarrow> g a = hm a"
    by (rule release_beside [OF K1(1) _ cS _ G, of "hm(x \<mapsto> m\<lparr>nd_parent := None\<rparr>)"]) (use m(2) in auto)
  show ?thesis
    by (rule that [OF _ g(1,2) _ G(2) K1(2) _ K1(3) Sc _ g(4)])
       (use m(1,2) g(3) in \<open>auto simp: modify_def K(1)\<close>)
qed

lemma refs_one_step:
  assumes G: "released K1 x G" and one: "refs_one (sub K c - {c}) K" and K1: "up K1 \<subseteq> up K" "sub K1 x \<subseteq> sub K c - {c}"
    and refs: "\<And>a. a \<noteq> c \<Longrightarrow> map_option nd_refs (K1 a) = map_option nd_refs (K a)"
  shows "refs_one (sub K1 x) K1" "refs_one (sub G c - {c}) G"
proof -
  have step: "nd_refs m = 1" if a: "a \<in> sub K c - {c}" "K1 a = Some m" for a m
  proof -
    obtain k where "K a = Some k" "nd_refs k = nd_refs m" using refs [of a] a by (cases "K a") auto
    then show ?thesis using one a(1) by (auto simp: refs_one_def)
  qed
  then show one1: "refs_one (sub K1 x) K1" using K1(2) by (auto simp: refs_one_def)
  have "nd_refs m = 1" if "a \<in> sub G c - {c}" "G a = Some m" for a m
  proof -
    have "a \<notin> sub K1 x" using released_none [OF G one1, of a] that(2) by auto
    then have "K1 a = Some m" using releasedD(4) [OF G, of a] that(2) by auto
    moreover have "a \<in> sub K c - {c}" using that(1) sub_mono [OF subset_trans [OF releasedD(2) [OF G] K1(1)], of c] by auto
    ultimately show ?thesis using step by blast
  qed
  then show "refs_one (sub G c - {c}) G" by (simp add: refs_one_def)
qed

definition cleared :: "heap \<Rightarrow> nat \<Rightarrow> heap \<Rightarrow> bool" where
  "cleared K c g \<longleftrightarrow> heap_ok g \<and> kids g c = [] \<and> up g \<subseteq> up K \<and> dom g \<subseteq> dom K \<and> (\<forall>a. a \<notin> sub K c \<longrightarrow> g a = K a)
     \<and> (refs_one (sub K c - {c}) K \<longrightarrow> (\<forall>y. g y \<noteq> None \<longrightarrow> par g y = par K y))"

lemma cleared_same:
  assumes "cleared K c g" "par g' = par g" "kids g' = kids g" "dom g' = dom g" "\<And>a. a \<noteq> c \<Longrightarrow> g' a = g a"
  shows "cleared K c g'"
proof -
  have "heap_ok g'" using assms heap_okD(1) [of g] by (intro heap_ok_same_links [of g g']) (auto simp: cleared_def)
  moreover have "up g' = up g" using assms(2) by (simp add: up_def)
  moreover have "g' y \<noteq> None \<longleftrightarrow> g y \<noteq> None" for y using assms(4) by (metis domIff)
  moreover have "g' a = K a" if "a \<notin> sub K c" for a using assms(1,5) that sub_self [of c K] unfolding cleared_def by metis
  ultimately show ?thesis using assms(1-4) unfolding cleared_def by auto
qed

lemma clear_loop_ok:
  assumes rel: "release_spec fuel"
  shows "heap_ok K \<Longrightarrow> K = hm(c \<mapsto> n\<lparr>nd_nodes := Some rem\<rparr>) \<Longrightarrow> (\<And>x. x \<in> set rem \<Longrightarrow> card (sub K x) \<le> fuel) \<Longrightarrow>
    \<exists>g. clear_loop (release fuel) rem hm = Some g \<and> g c = hm c \<and> cleared K c (g(c \<mapsto> n\<lparr>nd_nodes := Some []\<rparr>))"
proof (induction rem arbitrary: K hm)
  case Nil
  then have "kids K c = []" unfolding Nil(2) kids_upd by simp
  with Nil show ?case by (auto simp add: cleared_def simp del: fun_upd_apply kids_upd)
next
  case (Cons x rest)
  obtain m K1 G hm2 where st: "modify hm x (\<lambda>n. n\<lparr>nd_parent := None\<rparr>) = Some (hm(x \<mapsto> m))"
    "release fuel (hm(x \<mapsto> m)) x = Some hm2" "hm2 c = hm c" "G = hm2(c \<mapsto> n\<lparr>nd_nodes := Some rest\<rparr>)"
    "released K1 x G" "up K1 \<subseteq> up K" "dom K1 \<subseteq> dom K" "par K1 = (par K)(x := None)" "sub K1 x \<subseteq> sub K c - {c}"
    "\<And>a. a \<noteq> c \<Longrightarrow> map_option nd_refs (K1 a) = map_option nd_refs (K a)" "\<And>a. a \<notin> sub K1 x \<Longrightarrow> a \<noteq> x \<Longrightarrow> hm2 a = hm a"
    by (rule clear_step [OF rel Cons.prems(2,1)]) (use Cons.prems(3) in auto)
  note G = releasedD [OF st(5)]
  have upG: "up G \<subseteq> up K" using G(2) st(6) by auto
  have "card (sub G y) \<le> fuel" if "y \<in> set rest" for y
    using card_mono [OF finite_sub [OF Cons.prems(1)] sub_mono [OF upG], of y] Cons.prems(3) [of y] that by simp
  then obtain g where g: "clear_loop (release fuel) rest hm2 = Some g" "g c = hm2 c" "cleared G c (g(c \<mapsto> n\<lparr>nd_nodes := Some []\<rparr>))"
    using Cons.IH [OF G(1) st(4)] by blast
  let ?g = "g(c \<mapsto> n\<lparr>nd_nodes := Some []\<rparr>)"
  have x: "x \<in> sub K c" using st(9) sub_self [of x K1] by blast
  have "?g a = K a" if "a \<notin> sub K c" for a
  proof -
    have "a \<notin> sub G c" "a \<notin> sub K1 x" "a \<noteq> c" "a \<noteq> x"
      using that subsetD [OF sub_mono [OF upG], of a c] subsetD [OF st(9), of a] x sub_self [of c K] by auto
    then show ?thesis using g(3) st(4) st(11) [of a] Cons.prems(2) by (auto simp: cleared_def)
  qed
  moreover have "par ?g y = par K y" if one: "refs_one (sub K c - {c}) K" "?g y \<noteq> None" for y
  proof -
    note r = refs_one_step [OF st(5) one(1) st(6,9,10)]
    have "par ?g y = par G y" using g(3) r(2) one(2) unfolding cleared_def by blast
    moreover have "dom ?g \<subseteq> dom G" using g(3) unfolding cleared_def by blast
    then have "G y \<noteq> None" using one(2) domIff [of y ?g] domIff [of y G] by blast
    ultimately show ?thesis using G(5,6) [OF r(1)] st(8) by (cases "y = x") auto
  qed
  ultimately have "cleared K c ?g" using g(3) upG G(3) st(7) unfolding cleared_def by blast
  moreover have "clear_loop (release fuel) (x # rest) hm = Some g" using st(1,2) g(1) by simp
  moreover have "g c = hm c" using st(3) g(2) by simp
  ultimately show ?case by blast
qed

lemma clear_with_ok:
  assumes rel: "release_spec fuel"
    and ok: "heap_ok h" "h c = Some n" and small: "card (sub h c) \<le> Suc fuel"
  obtains g where "clear_with (release fuel) h c = Some g" "g c = Some (n\<lparr>nd_nodes := None\<rparr>)" "cleared h c g"
proof (cases "nd_nodes n")
  case None
  then have "n\<lparr>nd_nodes := None\<rparr> = n" by simp
  moreover have "cleared h c h" using ok None by (simp add: cleared_def kids_Some node_children_def)
  ultimately show ?thesis using that [of h] ok(2) None by (simp add: clear_with_def)
next
  case (Some cs)
  then have n: "n\<lparr>nd_nodes := Some cs\<rparr> = n" "h(c \<mapsto> n) = h" using ok(2) by auto
  have "card (sub h x) \<le> fuel" if "x \<in> set cs" for x
  proof -
    have "par h x = Some c" using heap_okD(3) [OF ok(1), of x c] that Some ok(2) by (simp add: kids_Some node_children_def)
    from card_sub_child [OF ok(1) this] show ?thesis using small by simp
  qed
  then obtain g where g: "clear_loop (release fuel) cs h = Some g" "g c = h c" "cleared h c (g(c \<mapsto> n\<lparr>nd_nodes := Some []\<rparr>))"
    using clear_loop_ok [OF rel, of h h c cs n] ok(1) n by auto
  let ?g = "g(c \<mapsto> n\<lparr>nd_nodes := None\<rparr>)"
  have same: "par ?g = par (g(c \<mapsto> n\<lparr>nd_nodes := Some []\<rparr>))" "kids ?g = kids (g(c \<mapsto> n\<lparr>nd_nodes := Some []\<rparr>))"
    "dom ?g = dom (g(c \<mapsto> n\<lparr>nd_nodes := Some []\<rparr>))" by simp_all
  have "cleared h c ?g" by (rule cleared_same [OF g(3) same]) simp
  moreover have "clear_with (release fuel) h c = Some ?g" using g(1,2) ok(2) Some by (simp add: clear_with_def modify_def)
  ultimately show ?thesis using that [of ?g] by simp
qed

lemma release_step:
  assumes rel: "release_spec fuel"
    and prems: "heap_ok h" "h c = Some n" "nd_parent n = None" "card (sub h c) \<le> Suc fuel"
  shows "\<exists>g. release (Suc fuel) h c = Some g \<and> released h c g"
proof -
  let ?n = "n\<lparr>nd_refs := nd_refs n - 1\<rparr>"
  let ?h = "h(c \<mapsto> ?n)"
  have same: "par ?h = par h" "kids ?h = kids h" using prems(2) by (auto simp: fun_eq_iff kids_Some)
  have dom: "dom ?h = dom h" using prems(2) by auto
  have ok: "heap_ok ?h" using heap_ok_same_links [OF prems(1) same] heap_okD(1) [OF prems(1)] dom by simp
  have links: "up ?h = up h" "sub ?h c = sub h c" using same by (simp_all add: up_def sub_def)
  have step: "release (Suc fuel) h c = (if nd_refs n - 1 \<noteq> 0 then Some ?h else clear_with (release fuel) ?h c \<bind> (\<lambda>h. Some (h(c := None))))"
    using release_detached [of h c n fuel] prems(2,3) by (simp add: Let_def)
  show ?thesis
  proof (cases "nd_refs n - 1 = 0")
    case False
    then have "nd_refs n \<noteq> 1" by auto
    then have "\<not> refs_one (sub h c) h" using prems(2) sub_self [of c h] by (auto simp: refs_one_def)
    then have "released h c ?h" using ok links dom sub_self [of c h] by (auto simp: released_def)
    then show ?thesis using step False by simp
  next
    case True
    obtain g where g: "clear_with (release fuel) ?h c = Some g" "g c = Some (?n\<lparr>nd_nodes := None\<rparr>)" "cleared ?h c g"
      by (rule clear_with_ok [OF rel ok, of c ?n]) (use prems(4) links in auto)
    have g': "heap_ok g" "kids g c = []" "up g \<subseteq> up h" "dom g \<subseteq> dom h" "\<And>a. a \<notin> sub h c \<Longrightarrow> g a = ?h a"
      "refs_one (sub h c - {c}) ?h \<Longrightarrow> g y \<noteq> None \<Longrightarrow> par g y = par h y" for y
      using g(3) links dom same(1) by (auto simp: cleared_def simp del: par_upd)
    have c: "par g c = None" using g(2) prems(3) by simp
    have "heap_ok (g(c := None))" by (rule heap_ok_delete [OF g'(1) c g'(2)])
    moreover have "up (g(c := None)) \<subseteq> up h" using g'(3) upD by (intro up_mono) (auto split: if_splits)
    moreover have "(g(c := None)) x = h x" if "x \<notin> sub h c" for x using g'(5) [OF that] that by auto
    moreover have "par (g(c := None)) y = par h y" if "refs_one (sub h c) h" "(g(c := None)) y \<noteq> None" for y
      using g'(6) [of y] that by (auto simp: refs_one_def split: if_splits)
    ultimately have "released h c (g(c := None))" using g'(4) unfolding released_def by auto
    then show ?thesis using step True g(1) by auto
  qed
qed

lemma release_meets_spec: "release_spec fuel"
proof (induction fuel)
  case 0
  have "0 < card (sub h c)" if "heap_ok h" for h c
    using finite_sub [OF that, of c] sub_self [of c h] by (metis card_gt_0_iff empty_iff)
  then show ?case by (simp add: release_spec_def)
next
  case (Suc fuel)
  have "\<exists>g. release (Suc fuel) h c = Some g \<and> released h c g"
    if prems: "heap_ok h" "h c = Some n" "nd_parent n = None" "card (sub h c) \<le> Suc fuel" for h c n
    using Suc prems by (rule release_step)
  then show ?case by (simp add: release_spec_def del: release.simps)
qed

lemmas release_ok = release_specD [OF release_meets_spec]

end
