(* ===== verification/Schema_Heap_Ops.thy ===== *)
theory Schema_Heap_Ops
  imports Schema_Heap_Laws Allocator_Laws
begin

text \<open>
  The operations on the children of a node keep the invariant of the heap: each returns when its nodes are
  there, when what it attaches is no ancestor of where it attaches it, and when the fuel covers the heap.
\<close>

section \<open>Links\<close>

definition cut_kids :: "heap \<Rightarrow> nat \<Rightarrow> nat \<Rightarrow> nat list" where
  "cut_kids h b = (\<lambda>q. if par h b = Some q then remove1 b (kids h q) else kids h q)"

lemma cut_kids_eq: "par h b = Some q \<Longrightarrow> cut_kids h b = (kids h)(q := remove1 b (kids h q))"
  "par h b = None \<Longrightarrow> cut_kids h b = kids h"
  by (auto simp: cut_kids_def)

lemma heap_ok_detach:
  assumes "heap_ok h" "par h' = (par h)(b := None)" "kids h' = cut_kids h b" "finite (dom h')"
  shows "heap_ok h'" "up h' \<subseteq> up h"
proof -
  have "heap_ok h' \<and> up h' \<subseteq> up h"
  proof (cases "par h b")
    case None
    then have "par h' = par h" "kids h' = kids h" using assms(2,3) cut_kids_eq(2) by auto
    then show ?thesis using heap_ok_same_links [OF assms(1)] assms(4) by (simp add: up_def)
  next
    case (Some q)
    then show ?thesis using heap_ok_cut [OF assms(1) Some assms(2) _ assms(4)] assms(3) cut_kids_eq(1) [OF Some] by simp
  qed
  then show "heap_ok h'" "up h' \<subseteq> up h" by auto
qed

lemma modify_live: "h p = Some n \<Longrightarrow> modify h p f = Some (h(p \<mapsto> f n))"
  by (simp add: modify_def)

lemma erase_from_parent_ok:
  assumes ok: "heap_ok h" and b: "h b = Some n"
  obtains g where "erase_from_parent h b = Some g" "par g = par h" "kids g = cut_kids h b" "dom g = dom h" "g b = Some n"
proof (cases "nd_parent n")
  case None
  then have "erase_from_parent h b = Some h" using b by (simp add: erase_from_parent_def)
  moreover have "kids h = cut_kids h b" using None b cut_kids_eq(2) [of h b] by simp
  ultimately show ?thesis using that [of h] b by simp
next
  case (Some q)
  then have par: "par h b = Some q" using b by simp
  obtain m where m: "h q = Some m" using live_parent [OF ok par] by blast
  have "b \<noteq> q" using child_not_above [OF ok par] by auto
  let ?g = "h(q \<mapsto> m\<lparr>nd_nodes := map_option (remove1 b) (nd_nodes m)\<rparr>)"
  have "erase_from_parent h b = Some ?g" using Some b m by (simp add: erase_from_parent_def modify_def)
  moreover have "par ?g = par h" using m by (simp add: fun_eq_iff)
  moreover have "kids ?g = cut_kids h b" using m cut_kids_eq(1) [OF par] by (simp add: kids_Some)
  moreover have "dom ?g = dom h" "?g b = Some n" using m b \<open>b \<noteq> q\<close> by auto
  ultimately show ?thesis by (rule that)
qed

lemma unlink_ok:
  assumes ok: "heap_ok h" and b: "h b = Some n"
  obtains g where "unlink h b = Some g" "heap_ok g" "up g \<subseteq> up h" "par g = (par h)(b := None)" "kids g = cut_kids h b"
    "dom g = dom h" "g b = Some (n\<lparr>nd_parent := None\<rparr>)"
proof -
  obtain k where k: "erase_from_parent h b = Some k" "par k = par h" "kids k = cut_kids h b" "dom k = dom h" "k b = Some n"
    by (rule erase_from_parent_ok [OF ok b])
  let ?g = "k(b \<mapsto> n\<lparr>nd_parent := None\<rparr>)"
  have "unlink h b = Some ?g" using k(1,5) by (simp add: unlink_def modify_def)
  moreover have g: "par ?g = (par h)(b := None)" "dom ?g = dom h" using k(2,4,5) by auto
  moreover have kids: "kids ?g = cut_kids h b" using k(3,5) kids_Some [of k b] by (simp add: fun_eq_iff)
  moreover have "heap_ok ?g" "up ?g \<subseteq> up h" using heap_ok_detach [OF ok g(1) kids] heap_okD(1) [OF ok] unfolding g(2) by blast+
  ultimately show ?thesis using that [of ?g] by simp
qed

lemma attach_ok:
  assumes ok: "heap_ok h" and b: "h b = Some n" and p: "h p = Some m" "p \<noteq> b"
  obtains g where "attach h b (Some p) = Some g" "par g = (par h)(b := Some p)" "kids g = cut_kids h b" "dom g = dom h"
proof -
  let ?h = "h(b \<mapsto> n\<lparr>nd_saved := False\<rparr>)"
  have same: "par ?h = par h" "kids ?h = kids h" "dom ?h = dom h" using b by (auto simp: fun_eq_iff kids_Some)
  have cut: "cut_kids ?h b = cut_kids h b" unfolding cut_kids_def same ..
  have "heap_ok ?h" using heap_ok_same_links [OF ok same(1,2)] heap_okD(1) [OF ok] same(3) by simp
  then obtain k where k: "erase_from_parent ?h b = Some k" "par k = par h" "kids k = cut_kids h b" "dom k = dom h"
    "k b = Some (n\<lparr>nd_saved := False\<rparr>)"
    using erase_from_parent_ok [of ?h b] same cut by (metis fun_upd_same)
  obtain m' where m': "k p = Some m'" using k(4) p(1) by blast
  let ?g = "k(b \<mapsto> n\<lparr>nd_saved := False, nd_parent := Some p\<rparr>, p \<mapsto> m'\<lparr>nd_saved := False\<rparr>)"
  have "attach h b (Some p) = Some ?g" using b k(1,5) m' p(2) by (simp add: attach_def modify_def)
  moreover have "par ?g = (par h)(b := Some p)" using k(2) m' p(2) par_Some [of k p m'] by (auto simp: fun_eq_iff simp del: par_Some)
  moreover have "kids ?g = cut_kids h b" using k(3,5) m' p(2) kids_Some [of k] by (simp add: fun_eq_iff)
  moreover have "dom ?g = dom h" using k(4) b p(1) by auto
  ultimately show ?thesis using that [of ?g] by simp
qed

lemma push_ok:
  assumes p: "h p = Some m"
  obtains g where "(allocate h p \<bind> (\<lambda>h. push_back h p b)) = Some g" "par g = par h" "kids g = (kids h)(p := kids h p @ [b])" "dom g = dom h"
proof -
  let ?g = "h(p \<mapsto> m\<lparr>nd_nodes := Some (node_children m @ [b])\<rparr>)"
  have "(allocate h p \<bind> (\<lambda>h. push_back h p b)) = Some ?g"
    using p by (auto simp: allocate_def push_back_def modify_def node_children_def)
  moreover have "par ?g = par h" "kids ?g = (kids h)(p := kids h p @ [b])" "dom ?g = dom h"
    using p by (auto simp: fun_eq_iff kids_Some)
  ultimately show ?thesis using that by blast
qed

text \<open>Detaching in the abstract: there is a heap that satisfies the invariant and has no link of \<open>b\<close>.\<close>

lemma detached:
  assumes ok: "heap_ok h" and b: "h b = Some n"
  obtains g where "heap_ok g" "up g \<subseteq> up h" "par g = (par h)(b := None)" "kids g = cut_kids h b"
  by (rule unlink_ok [OF ok b]) (rule that)

lemma not_in_cut_kids: "heap_ok h \<Longrightarrow> b \<notin> set (cut_kids h b q)"
  using heap_okD(2,3) [of h] by (auto simp: cut_kids_def)

lemma attach_push_ok:
  assumes ok: "heap_ok h" and b: "h b = Some n" and p: "h p = Some m" "p \<notin> sub h b"
  obtains g where "(attach h b (Some p) \<bind> (\<lambda>h. allocate h p \<bind> (\<lambda>h. push_back h p b))) = Some g" "heap_ok g"
    "par g = (par h)(b := Some p)" "dom g = dom h"
proof -
  have "p \<noteq> b" using p(2) by auto
  then obtain k where k: "attach h b (Some p) = Some k" "par k = (par h)(b := Some p)" "kids k = cut_kids h b" "dom k = dom h"
    by (rule attach_ok [OF ok b p(1)])
  obtain m' where "k p = Some m'" using k(4) p(1) by blast
  then obtain g where g: "(allocate k p \<bind> (\<lambda>h. push_back h p b)) = Some g" "par g = par k" "kids g = (kids k)(p := kids k p @ [b])"
    "dom g = dom k"
    by (rule push_ok)
  obtain d where d: "heap_ok d" "up d \<subseteq> up h" "par d = (par h)(b := None)" "kids d = cut_kids h b" by (rule detached [OF ok b])
  have "heap_ok g"
  proof (rule heap_ok_link [OF d(1), of b p g "kids d p @ [b]"])
    show "par d b = None" "p \<notin> sub d b" using d(3) p(2) sub_mono [OF d(2), of b] by auto
    show "par g = (par d)(b := Some p)" "kids g = (kids d)(p := kids d p @ [b])" using g(2,3) k(2,3) d(3,4) by auto
    show "finite (dom g)" using g(4) k(4) heap_okD(1) [OF ok] by simp
    show "distinct (kids d p @ [b])" using heap_okD(2) [OF d(1)] not_in_cut_kids [OF ok] d(4) by simp
  qed simp
  then show ?thesis using that [of g] k g by simp
qed

section \<open>Operations\<close>

lemma sub_leaf: "heap_ok h \<Longrightarrow> kids h a = [] \<Longrightarrow> sub h a = {a}"
proof -
  assume h: "heap_ok h" "kids h a = []"
  have "x = a" if "(x, a) \<in> (up h)\<^sup>*" for x
    using that
  proof (cases rule: rtranclE)
    case (step y)
    then show ?thesis using heap_okD(3) [OF h(1), of y a] h(2) by (simp add: up_def)
  qed simp
  then show ?thesis by (auto simp: sub_def)
qed

lemma card_sub_le: "heap_ok h \<Longrightarrow> h c = Some n \<Longrightarrow> card (sub h c) \<le> card (dom h)"
  using sub_live [of h c] heap_okD(1) [of h] by (intro card_mono) auto

text \<open>\<open>hm\<close> is the heap of a moment at which the vector of \<open>p\<close> is not up to date; \<open>K\<close> has the entry that follows.\<close>

lemma release_child:
  assumes K: "heap_ok K" "K c = Some n" "nd_parent n = None" "p \<notin> sub K c" and fuel: "card (dom K) \<le> fuel"
    and hm: "\<And>a. a \<noteq> p \<Longrightarrow> hm a = K a"
  obtains g where "release fuel hm c = Some g" "g p = hm p" "heap_ok (g(p := K p))" "dom (g(p := K p)) \<subseteq> dom K"
proof -
  have "card (sub K c) \<le> fuel" using card_sub_le [OF K(1,2)] fuel by simp
  then obtain G where G: "release fuel K c = Some G" "released K c G" using release_ok [OF K(1-3)] by blast
  have "par K c = None" using K(2,3) by simp
  then obtain g where g: "release fuel hm c = Some g" "g p = hm p" "G = g(p := K p)"
    by (rule release_beside [OF K(1) _ K(4) hm G])
  then show ?thesis using that releasedD(1,3) [OF G(2)] by simp
qed

lemma pop_child_ok:
  assumes ok: "heap_ok h" and c: "c \<in> set (kids h p)" and fuel: "card (dom h) \<le> fuel"
  obtains g where "pop_child fuel h p c = Some g" "heap_ok g" "dom g \<subseteq> dom h"
proof -
  obtain n where n: "h c = Some n" "nd_parent n = Some p" using live_kids [OF ok c] by blast
  have par: "par h c = Some p" using n by simp
  obtain m where m: "h p = Some m" using live_parent [OF ok par] by blast
  have cp: "c \<noteq> p" using child_not_above [OF ok par] by auto
  let ?m = "m\<lparr>nd_nodes := map_option (remove1 c) (nd_nodes m), nd_saved := False\<rparr>"
  let ?hm = "h(c \<mapsto> n\<lparr>nd_parent := None\<rparr>)"
  let ?K = "?hm(p \<mapsto> ?m)"
  have "par ?K = (par h)(c := None)" using n m cp by (auto simp: fun_eq_iff)
  moreover have "kids ?K = (kids h)(p := remove1 c (kids h p))" using n m cp by (auto simp: fun_eq_iff kids_Some)
  moreover have dom: "dom ?K = dom h" using n m by auto
  ultimately have K: "heap_ok ?K" "up ?K \<subseteq> up h" using heap_ok_cut [OF ok par] heap_okD(1) [OF ok] by simp_all
  have "p \<notin> sub ?K c" using child_not_above [OF ok par] sub_mono [OF K(2), of c] by auto
  then obtain g where g: "release fuel ?hm c = Some g" "g p = ?hm p" "heap_ok (g(p := ?K p))" "dom (g(p := ?K p)) \<subseteq> dom ?K"
    using release_child [OF K(1), of c "n\<lparr>nd_parent := None\<rparr>" p fuel ?hm] cp fuel dom by auto
  then have "pop_child fuel h p c = Some (g(p := ?K p))" using n m cp by (simp add: pop_child_def modify_def)
  then show ?thesis using that g(3,4) dom by blast
qed

lemma find_child_ok:
  assumes "\<And>c. c \<in> set cs \<Longrightarrow> h c \<noteq> None"
  obtains r where "find_child h cs name = Some r" "r = None \<or> (\<exists>c. r = Some c \<and> c \<in> set cs)"
  using assms
proof (induction cs arbitrary: thesis)
  case (Cons c cs)
  obtain n where n: "h c = Some n" using Cons.prems(2) [of c] by auto
  obtain r where r: "find_child h cs name = Some r" "r = None \<or> (\<exists>c. r = Some c \<and> c \<in> set cs)"
    using Cons.IH Cons.prems(2) by (metis list.set_intros(2))
  show ?case by (rule Cons.prems(1) [of "if nd_key n = name then Some c else r"]) (use n r in auto)
qed simp

lemma kids_live: "heap_ok h \<Longrightarrow> h p = Some n \<Longrightarrow> c \<in> set (node_children n) \<Longrightarrow> h c \<noteq> None"
  using live_kids [of h c p] by (auto simp: kids_Some)

lemma set_target_ok:
  assumes "h p = Some n" "\<And>c. c \<in> set (node_children n) \<Longrightarrow> h c \<noteq> None"
  obtains r where "set_target h p name = Some r" "r = None \<or> (\<exists>c. r = Some c \<and> c \<in> set (node_children n))"
proof (cases "get_type (nd_value n) = Object_type")
  case True
  obtain r where "find_child h (node_children n) name = Some r" "r = None \<or> (\<exists>c. r = Some c \<and> c \<in> set (node_children n))"
    by (rule find_child_ok [OF assms(2)])
  then show ?thesis using that assms(1) True by (simp add: set_target_def)
next
  case False
  then show ?thesis using that [of None] assms(1) by (simp add: set_target_def)
qed

lemma append_new_ok:
  assumes ok: "heap_ok h" and a: "h a = None" and p: "h p = Some m" and n: "nd_parent n = None" "node_children n = []"
  obtains g where "append_new h p a n = Some (g, a)" "heap_ok g" "dom g = insert a (dom h)"
proof -
  let ?h = "h(a \<mapsto> n)"
  have ok': "heap_ok ?h" by (rule heap_ok_new [OF ok a n])
  have "kids ?h a = []" using n by simp
  then have "p \<notin> sub ?h a" using sub_leaf [OF ok', of a] a p by auto
  moreover have "?h a = Some n" "?h p = Some m" using a p by auto
  ultimately obtain g where "(attach ?h a (Some p) \<bind> (\<lambda>h. allocate h p \<bind> (\<lambda>h. push_back h p a))) = Some g" "heap_ok g" "dom g = dom ?h"
    using attach_push_ok [OF ok'] by metis
  then show ?thesis using that by (auto simp: append_new_def bind_eq_Some_conv)
qed

lemma clear_ok:
  assumes ok: "heap_ok h" and p: "h p = Some m" and fuel: "card (dom h) \<le> fuel"
  obtains g where "clear fuel h p = Some g" "heap_ok g" "dom g \<subseteq> dom h" "g p = Some (m\<lparr>nd_nodes := None\<rparr>)"
    "\<And>x. x \<notin> sub h p \<Longrightarrow> g x = h x"
proof -
  have "card (sub h p) \<le> Suc fuel" using card_sub_le [OF ok p] fuel by simp
  then obtain g where "clear_with (release fuel) h p = Some g" "g p = Some (m\<lparr>nd_nodes := None\<rparr>)" "cleared h p g"
    by (rule clear_with_ok [OF release_meets_spec ok p])
  then show ?thesis using that by (auto simp: clear_def cleared_def)
qed

lemma heap_ok_modify:
  assumes ok: "heap_ok h" and p: "h p = Some n" and f: "nd_parent (f n) = nd_parent n" "node_children (f n) = node_children n"
  shows "heap_ok (h(p \<mapsto> f n))" "dom (h(p \<mapsto> f n)) = dom h" "up (h(p \<mapsto> f n)) = up h"
proof -
  have same: "par (h(p \<mapsto> f n)) = par h" "kids (h(p \<mapsto> f n)) = kids h" using p f by (auto simp: fun_eq_iff kids_Some)
  show dom: "dom (h(p \<mapsto> f n)) = dom h" using p by auto
  show "heap_ok (h(p \<mapsto> f n))" using heap_ok_same_links [OF ok same] heap_okD(1) [OF ok] dom by simp
  show "up (h(p \<mapsto> f n)) = up h" unfolding up_def same ..
qed

lemma set_value_ok:
  assumes ok: "heap_ok h" and a: "h a = None" and p: "h p = Some m" and fuel: "card (dom h) \<le> fuel"
  obtains g r where "set_value fuel h a p name v = Some (g, r)" "heap_ok g" "dom g \<subseteq> insert a (dom h)"
proof -
  obtain t where t: "set_target h p name = Some t" "t = None \<or> (\<exists>c. t = Some c \<and> c \<in> set (node_children m))"
    using set_target_ok [of h p m name] p kids_live [OF ok p] by metis
  show ?thesis
  proof (cases t)
    case None
    have "nd_parent ((new_node v)\<lparr>nd_key := name\<rparr>) = None" "node_children ((new_node v)\<lparr>nd_key := name\<rparr>) = []"
      by (simp_all add: new_node_def node_children_def)
    then obtain g where "append_new h p a ((new_node v)\<lparr>nd_key := name\<rparr>) = Some (g, a)" "heap_ok g" "dom g = insert a (dom h)"
      by (rule append_new_ok [OF ok a p])
    then show ?thesis using that t(1) None by (simp add: set_value_def)
  next
    case (Some c)
    with t(2) have c: "c \<in> set (kids h p)" using p by (simp add: kids_Some)
    obtain n where n: "h c = Some n" "nd_parent n = Some p" using live_kids [OF ok c] by blast
    then have par: "par h c = Some p" by simp
    let ?f = "\<lambda>n. n\<lparr>nd_value := v, nd_saved := False\<rparr>"
    let ?h = "h(c \<mapsto> ?f n)"
    have h: "heap_ok ?h" "dom ?h = dom h" "up ?h = up h" using heap_ok_modify [OF ok n(1), of ?f] by simp_all
    then have fuel': "card (dom ?h) \<le> fuel" using fuel by simp
    have "?h c = Some (?f n)" by simp
    then obtain g where g: "clear fuel ?h c = Some g" "heap_ok g" "dom g \<subseteq> dom ?h" "\<And>x. x \<notin> sub ?h c \<Longrightarrow> g x = ?h x"
      by (rule clear_ok [OF h(1) _ fuel']) blast
    have "p \<notin> sub ?h c" using child_not_above [OF ok par] h(3) by (simp add: sub_def)
    then have "g p = Some m" using g(4) [of p] p sub_self [of c ?h] by (cases "p = c") auto
    note k = this heap_ok_modify [OF g(2) this, of "\<lambda>n. n\<lparr>nd_saved := False\<rparr>"]
    have "set_value fuel h a p name v = Some (g(p \<mapsto> m\<lparr>nd_saved := False\<rparr>), c)"
      using t(1) Some n g(1) k(1) by (simp add: set_value_def modify_def)
    then show ?thesis by (rule that) (use k g(3) h(2) in auto)
  qed
qed

text \<open>A child that the new one replaces in the vector of \<open>p\<close>.\<close>

lemma replaced_ok:
  assumes ok: "heap_ok d" and b: "par d b = None" "p \<notin> sub d b" "b \<notin> set (kids d p)" and c: "c \<in> set (kids d p)"
    and eqs: "par K = (par d)(b := Some p, c := None)" "kids K = (kids d)(p := map (\<lambda>x. if x = c then b else x) (kids d p))" "finite (dom K)"
  shows "heap_ok K" "p \<notin> sub K c"
proof -
  have cb: "c \<noteq> b" "par d c = Some p" using b(3) c heap_okD(3) [OF ok] by auto
  have "distinct (kids d p)" by (rule heap_okD(2) [OF ok])
  then have dist: "distinct (map (\<lambda>x. if x = c then b else x) (kids d p))"
    and set: "set (map (\<lambda>x. if x = c then b else x) (kids d p)) = insert b (set (kids d p) - {c})"
    using b(3) c by (auto simp: distinct_map inj_on_def image_iff)
  have up: "up K = insert (b, p) (up d - {(c, p)})" using b(1) cb by (auto simp: up_def eqs split: if_splits)
  show "heap_ok K"
  proof (rule heap_okI)
    show "distinct (kids K q)" for q using heap_okD(2) [OF ok] dist by (simp add: eqs)
    show "x \<in> set (kids K q) \<longleftrightarrow> par K x = Some q" for x q
      using heap_okD(3) [OF ok] b(1) cb set by (cases "q = p") (auto simp: eqs simp del: set_map)
    have "acyclic (up d - {(c, p)})" using heap_okD(4) [OF ok] by (rule acyclic_subset) auto
    moreover have "(p, b) \<notin> (up d - {(c, p)})\<^sup>*" using b(2) rtrancl_mono [of "up d - {(c, p)}" "up d"] by (auto simp: sub_def)
    ultimately show "acyclic (up K)" by (simp add: up acyclic_insert)
  qed (rule eqs(3))
  have "(p, c) \<notin> (up d - {(c, p)})\<^sup>*"
    using child_not_above [OF ok cb(2)] rtrancl_mono [of "up d - {(c, p)}" "up d"] by (auto simp: sub_def)
  then show "p \<notin> sub K c" by (auto simp: sub_def up rtrancl_insert)
qed

lemma set_schema_ok:
  assumes ok: "heap_ok h" and b: "h b = Some n" and p: "h p = Some m" "p \<notin> sub h b" and fuel: "card (dom h) \<le> fuel"
  obtains g where "set_schema fuel h a p name (Some b) = Some (g, b)" "heap_ok g" "dom g \<subseteq> dom h"
proof -
  let ?f = "\<lambda>n. n\<lparr>nd_key := name\<rparr>"
  let ?h = "h(b \<mapsto> ?f n)"
  have h: "heap_ok ?h" "dom ?h = dom h" "up ?h = up h" using heap_ok_modify [OF ok b, of ?f] by simp_all
  have pb: "p \<noteq> b" "p \<notin> sub ?h b" using p(2) h(3) by (auto simp: sub_def)
  have live: "?h b = Some (?f n)" "?h p = Some m" using pb p by auto
  obtain k where k: "attach ?h b (Some p) = Some k" "par k = (par ?h)(b := Some p)" "kids k = cut_kids ?h b" "dom k = dom ?h"
    by (rule attach_ok [OF h(1) live pb(1)])
  obtain d where d: "heap_ok d" "up d \<subseteq> up ?h" "par d = (par ?h)(b := None)" "kids d = cut_kids ?h b"
    by (rule detached [OF h(1) live(1)])
  obtain m' where m': "k p = Some m'" using k(4) h(2) p(1) by blast
  have kids_p: "node_children m' = kids d p" using k(3) d(4) kids_Some [of k p m'] m'  by simp
  have bd: "par d b = None" "p \<notin> sub d b" "b \<notin> set (kids d p)"
    using d(3,4) pb(2) sub_mono [OF d(2), of b] not_in_cut_kids [OF h(1)] by auto
  have kd: "k x \<noteq> None" if "x \<in> set (kids d p)" for x
    using live_kids [OF d(1) that] k(2,4) d(3) live_par [of k x p] heap_okD(3) [OF d(1), of x p] that by (cases "x = b") auto
  obtain t where t: "set_target k p name = Some t" "t = None \<or> (\<exists>c. t = Some c \<and> c \<in> set (kids d p))"
    using set_target_ok [of k p m' name] m'  kd kids_p by metis
  have start: "set_schema fuel h a p name (Some b) = (case t of
      Some c \<Rightarrow> if c = b then Some (k, b) else do {
        h \<leftarrow> modify k c (\<lambda>n. n\<lparr>nd_parent := None\<rparr>);
        h \<leftarrow> release fuel h c;
        h \<leftarrow> modify h p (\<lambda>n. n\<lparr>nd_nodes := map_option (map (\<lambda>x. if x = c then b else x)) (nd_nodes n)\<rparr>);
        Some (h, b)
      }
    | None \<Rightarrow> do { h \<leftarrow> allocate k p; h \<leftarrow> push_back h p b; Some (h, b) })"
    using b k(1) t(1) by (simp add: set_schema_def modify_def cong: option.case_cong)
  show ?thesis
  proof (cases t)
    case None
    obtain g where g: "(attach ?h b (Some p) \<bind> (\<lambda>h. allocate h p \<bind> (\<lambda>h. push_back h p b))) = Some g" "heap_ok g" "dom g = dom ?h"
      by (rule attach_push_ok [OF h(1) live pb(2)])
    then have "set_schema fuel h a p name (Some b) = Some (g, b)" using start None k(1) by (auto simp: bind_eq_Some_conv)
    then show ?thesis by (rule that [OF _ g(2)]) (use trans [OF g(3) h(2)] in simp)
  next
    case (Some c)
    with t(2) have c: "c \<in> set (kids d p)" by simp
    then have cb: "c \<noteq> b" "c \<noteq> p" using bd(3) child_not_above [OF d(1), of c p] heap_okD(3) [OF d(1), of c p] by auto
    obtain nc where nc: "k c = Some nc" using kd [OF c] by auto
    let ?r = "map (\<lambda>x. if x = c then b else x)"
    let ?hm = "k(c \<mapsto> nc\<lparr>nd_parent := None\<rparr>)"
    let ?K = "?hm(p \<mapsto> m'\<lparr>nd_nodes := map_option ?r (nd_nodes m')\<rparr>)"
    have dom: "dom ?K = dom h" using nc m' k(4) h(2) by auto
    have parK: "par ?K = (par d)(b := Some p, c := None)"
      using k(2) d(3) cb m' par_Some [of k p m'] by (auto simp: fun_eq_iff simp del: par_Some)
    have kidsK: "kids ?K = (kids d)(p := ?r (kids d p))"
      using k(3) d(4) cb kids_p kids_Some [of k c nc] nc by (auto simp: fun_eq_iff)
    have "finite (dom ?K)" using dom heap_okD(1) [OF ok] by simp
    note K = replaced_ok [OF d(1) bd c parK kidsK this]
    obtain g where g: "release fuel ?hm c = Some g" "g p = ?hm p" "heap_ok (g(p := ?K p))" "dom (g(p := ?K p)) \<subseteq> dom ?K"
      using release_child [OF K(1) _ _ K(2), of "nc\<lparr>nd_parent := None\<rparr>" fuel ?hm] cb fuel dom by auto
    have "set_schema fuel h a p name (Some b) = Some (g(p := ?K p), b)"
      using start Some nc cb g(1,2) m' by (simp add: modify_def)
    then show ?thesis by (rule that) (use g(3,4) dom in auto)
  qed
qed

lemma push_schema_ok:
  assumes ok: "heap_ok h" and b: "h b = Some n" and p: "h p = Some m" "p \<notin> sub h b"
  obtains g where "push_schema h a p (Some b) = Some (g, b)" "heap_ok g" "dom g = dom h"
proof -
  obtain g where "(attach h b (Some p) \<bind> (\<lambda>h. allocate h p \<bind> (\<lambda>h. push_back h p b))) = Some g" "heap_ok g" "dom g = dom h"
    by (rule attach_push_ok [OF ok b p])
  then show ?thesis using that by (auto simp: push_schema_def bind_eq_Some_conv)
qed

lemma push_value_ok:
  assumes ok: "heap_ok h" and a: "h a = None" and p: "h p = Some m"
  obtains g where "push_value h a p v = Some (g, a)" "heap_ok g" "dom g = insert a (dom h)"
proof -
  have "nd_parent (new_node v) = None" "node_children (new_node v) = []" by (simp_all add: new_node_def node_children_def)
  then show ?thesis using append_new_ok [OF ok a p] that by (metis push_value_def)
qed

lemma pop_index_ok:
  assumes ok: "heap_ok h" and p: "h p = Some m" "i < length (node_children m)" and fuel: "card (dom h) \<le> fuel"
  obtains g where "pop_index fuel h p i = Some g" "heap_ok g" "dom g \<subseteq> dom h"
proof -
  have "node_children m ! i \<in> set (kids h p)" using p kids_Some [of h p m] by simp
  then obtain g where "pop_child fuel h p (node_children m ! i) = Some g" "heap_ok g" "dom g \<subseteq> dom h"
    by (rule pop_child_ok [OF ok _ fuel])
  then show ?thesis using that p by (simp add: pop_index_def)
qed

lemma pop_name_ok:
  assumes ok: "heap_ok h" and p: "h p = Some m" and fuel: "card (dom h) \<le> fuel"
  obtains g where "pop_name fuel h p name = Some g" "heap_ok g" "dom g \<subseteq> dom h"
proof -
  obtain t where t: "find_child h (node_children m) name = Some t" "t = None \<or> (\<exists>c. t = Some c \<and> c \<in> set (node_children m))"
    using find_child_ok [of "node_children m" h name] kids_live [OF ok p] by metis
  show ?thesis
  proof (cases t)
    case None
    then show ?thesis using that [of h] ok p t(1) by (simp add: pop_name_def)
  next
    case (Some c)
    then have "c \<in> set (kids h p)" using t(2) p kids_Some [of h p m] by simp
    then obtain g where "pop_child fuel h p c = Some g" "heap_ok g" "dom g \<subseteq> dom h"
      by (rule pop_child_ok [OF ok _ fuel])
    then show ?thesis using that p t(1) Some by (simp add: pop_name_def)
  qed
qed

lemma rename_ok:
  assumes ok: "heap_ok h" and p: "h p = Some m"
  obtains g r where "rename h p name new_name = Some (g, r)" "heap_ok g" "dom g = dom h"
proof -
  obtain t where t: "find_child h (node_children m) name = Some t" "t = None \<or> (\<exists>c. t = Some c \<and> c \<in> set (node_children m))"
    using find_child_ok [of "node_children m" h name] kids_live [OF ok p] by metis
  show ?thesis
  proof (cases t)
    case None
    then show ?thesis using that [of h False] ok p t(1) by (simp add: rename_def)
  next
    case (Some c)
    then obtain n where n: "h c = Some n" using t(2) kids_live [OF ok p] by blast
    then have "rename h p name new_name = Some (h(c \<mapsto> n\<lparr>nd_key := new_name\<rparr>), True)"
      using p t(1) Some by (simp add: rename_def modify_def)
    then show ?thesis using that heap_ok_modify [OF ok n, of "\<lambda>n. n\<lparr>nd_key := new_name\<rparr>"] by simp
  qed
qed

text \<open>\<open>release\<close> from outside, of a node that may still have a parent.\<close>

lemma modify_unlink:
  assumes ok: "heap_ok h" and c: "h c = Some n"
  shows "unlink (h(c \<mapsto> n\<lparr>nd_refs := r\<rparr>)) c = map_option (\<lambda>g. g(c \<mapsto> n\<lparr>nd_parent := None, nd_refs := r\<rparr>)) (unlink h c)"
proof (cases "nd_parent n")
  case None
  then show ?thesis using c by (simp add: unlink_def erase_from_parent_def modify_def fun_eq_iff)
next
  case (Some q)
  have "par h c = Some q" using c Some by simp
  then obtain m where "h q = Some m" "q \<noteq> c" using live_parent [OF ok] child_not_above [OF ok] sub_self by metis
  then show ?thesis using c Some by (simp add: unlink_def erase_from_parent_def modify_def fun_eq_iff)
qed

lemma release_any_ok:
  assumes ok: "heap_ok h" and c: "h c = Some n" and fuel: "card (dom h) \<le> fuel"
  obtains g where "release fuel h c = Some g" "heap_ok g" "dom g \<subseteq> dom h"
proof -
  have "fuel \<noteq> 0" using fuel c heap_okD(1) [OF ok] card_gt_0_iff [of "dom h"] by auto
  then obtain f where f: "fuel = Suc f" using not0_implies_Suc by blast
  show ?thesis
  proof (cases "nd_refs n - 1 = 0")
    case False
    let ?g = "h(c \<mapsto> n\<lparr>nd_refs := nd_refs n - 1\<rparr>)"
    have "release fuel h c = Some ?g" using False c f by (simp add: modify_def)
    moreover note heap_ok_modify(1,2) [OF ok c, of "\<lambda>n. n\<lparr>nd_refs := nd_refs n - 1\<rparr>"]
    ultimately show ?thesis by (intro that [of ?g]) (simp_all del: dom_fun_upd)
  next
    case True
    obtain k where k: "unlink h c = Some k" "heap_ok k" "up k \<subseteq> up h" "par k = (par h)(c := None)" "dom k = dom h" "k c = Some (n\<lparr>nd_parent := None\<rparr>)"
      by (rule unlink_ok [OF ok c])
    have "release fuel h c = release fuel k c"
      using c f True k(1,6) modify_unlink [OF ok c, of "nd_refs n - 1"] release_detached [of k c _ f, OF k(6)]
      by (simp add: modify_def Let_def)
    moreover have "card (sub k c) \<le> fuel" using card_sub_le [OF k(2,6)] fuel k(5) by simp
    then obtain g where g: "release fuel k c = Some g" "released k c g" using release_ok [OF k(2,6)] by auto
    ultimately show ?thesis using that [of g] releasedD(1,3) [OF g(2)] k(5) by simp
  qed
qed

lemma adopt_ok:
  assumes "\<And>c. c \<in> set cs \<Longrightarrow> h c \<noteq> None"
  obtains g where "adopt h p cs = Some g" "par g = (\<lambda>x. if x \<in> set cs then Some p else par h x)" "kids g = kids h" "dom g = dom h"
  using assms
proof (induction cs arbitrary: h thesis)
  case (Cons c cs)
  obtain n where n: "h c = Some n" using Cons.prems(2) [of c] by auto
  let ?h = "h(c \<mapsto> n\<lparr>nd_saved := False, nd_parent := Some p\<rparr>)"
  have "?h x \<noteq> None" if "x \<in> set cs" for x using Cons.prems(2) that by auto
  then obtain g where g: "adopt ?h p cs = Some g" "par g = (\<lambda>x. if x \<in> set cs then Some p else par ?h x)" "kids g = kids ?h" "dom g = dom ?h"
    using Cons.IH [of ?h] by blast
  show ?case
  proof (rule Cons.prems(1) [of g])
    show "adopt h p (c # cs) = Some g" using n g(1) by (simp add: modify_def)
    show "kids g = kids h" using g(3) n kids_Some [of h c n] by (auto simp: fun_eq_iff)
  qed (use g n in \<open>auto simp: fun_eq_iff\<close>)
qed simp

lemma rtrancl_into_p:
  assumes "(p, y) \<in> (r \<union> S \<times> {p})\<^sup>*" "\<And>x. x \<in> S \<Longrightarrow> (p, x) \<notin> r\<^sup>*"
  shows "(p, y) \<in> r\<^sup>*"
  using assms(1) by induction (use assms(2) in \<open>auto intro: rtrancl_into_rtrancl\<close>)

lemma acyclic_into_p:
  assumes "finite S" "acyclic r" "\<And>x. x \<in> S \<Longrightarrow> (p, x) \<notin> r\<^sup>*"
  shows "acyclic (r \<union> S \<times> {p})"
  using assms(1,3)
proof induction
  case (insert x S)
  have "(p, x) \<notin> (r \<union> S \<times> {p})\<^sup>*" using rtrancl_into_p [of p x r S] insert.prems by auto
  moreover have "r \<union> insert x S \<times> {p} = insert (x, p) (r \<union> S \<times> {p})" by auto
  ultimately show ?case using insert by (simp add: acyclic_insert)
qed (use assms(2) in simp)

lemma join_append_ok:
  assumes ok: "heap_ok h" and live: "h p = Some n" "h other = Some m" "nd_nodes m = Some cs" and p: "p \<notin> sub h other"
  obtains g where "join iteration fuel h p other True = Some g" "heap_ok g" "dom g = dom h"
proof -
  have op: "p \<noteq> other" using p by auto
  have cs: "kids h other = cs" using live(2,3) kids_Some [of h other m] by (simp add: node_children_def)
  let ?n = "n\<lparr>nd_saved := False, nd_nodes := Some (node_children n @ cs)\<rparr>"
  let ?k = "h(p \<mapsto> ?n, other \<mapsto> m\<lparr>nd_nodes := Some []\<rparr>)"
  have kids: "kids ?k = (kids h)(p := kids h p @ cs, other := [])" using kids_Some [of h p n] live(1) by auto
  have par: "par ?k = par h" using live(1,2) by (auto simp: fun_eq_iff)
  have dom: "dom ?k = dom h" using live by auto
  have ch: "par h x = Some other" if "x \<in> set cs" for x using heap_okD(3) [OF ok, of x other] cs that by simp
  have disj: "set (kids h p) \<inter> set cs = {}" using heap_okD(3) [OF ok, of _ p] ch op by fastforce
  have "x \<in> dom h" if "x \<in> set (node_children n @ cs)" for x
    using that kids_live [OF ok live(1)] live_par [OF ch] by auto
  then have "?k x \<noteq> None" if "x \<in> set (node_children n @ cs)" for x using that dom by blast
  then obtain g where g: "adopt ?k p (node_children n @ cs) = Some g" "par g = (\<lambda>x. if x \<in> set (node_children n @ cs) then Some p else par ?k x)"
    "kids g = kids ?k" "dom g = dom ?k"
    using adopt_ok [of "node_children n @ cs" ?k p] by blast
  have par_g: "par g x = (if x \<in> set cs then Some p else par h x)" for x
    using g(2) par heap_okD(3) [OF ok, of x p] kids_Some [of h p n] live(1) by (auto simp: fun_eq_iff)
  have "heap_ok g"
  proof (rule heap_okI)
    show "finite (dom g)" using g(4) dom heap_okD(1) [OF ok] by simp
    show "distinct (kids g q)" for q
      using heap_okD(2) [OF ok] op disj cs unfolding g(3) kids by auto
    show "c \<in> set (kids g q) \<longleftrightarrow> par g c = Some q" for c q
      unfolding g(3) kids using op heap_okD(3) [OF ok] cs ch by (auto simp: par_g)
    have "(p, x) \<notin> (up h)\<^sup>*" if "x \<in> set cs" for x
      using p sub_trans [of p h x other] sub_child [OF ch [OF that] sub_self] by (auto simp: sub_def)
    then have "acyclic (up h \<union> set cs \<times> {p})" using heap_okD(4) [OF ok] by (intro acyclic_into_p) auto
    moreover have "up g \<subseteq> up h \<union> set cs \<times> {p}" by (auto simp: up_def par_g split: if_splits)
    ultimately show "acyclic (up g)" by (rule acyclic_subset)
  qed
  moreover have "join iteration fuel h p other True = Some g"
    using live op g(1) by (simp add: join_def allocate_def modify_def empty_nodes_def node_children_def split: option.splits)
  ultimately show ?thesis using that g(4) dom by simp
qed

section \<open>Programs over the heap\<close>

text \<open>A call of the public interface, on nodes that the caller holds.\<close>

datatype call =
    New nat variant
  | Set_value nat nat string variant
  | Set_attribute nat nat string variant
  | Set_schema nat nat string "nat option"
  | Push_value nat nat variant
  | Push_schema nat nat "nat option"
  | Pop_index nat nat
  | Pop_name nat string
  | Rename nat string string
  | Unlink nat
  | Clear nat
  | Add_ref nat
  | Release nat
  | Join_append nat nat

fun run :: "nat \<Rightarrow> heap \<Rightarrow> call \<Rightarrow> heap option" where
  "run fuel h (New a v) = Some (h(a \<mapsto> new_node v))"
| "run fuel h (Set_value a p name v) = map_option fst (set_value fuel h a p name v)"
| "run fuel h (Set_attribute a p name v) = map_option fst (set_attribute fuel h a p name v)"
| "run fuel h (Set_schema a p name b) = map_option fst (set_schema fuel h a p name b)"
| "run fuel h (Push_value a p v) = map_option fst (push_value h a p v)"
| "run fuel h (Push_schema a p b) = map_option fst (push_schema h a p b)"
| "run fuel h (Pop_index p i) = pop_index fuel h p i"
| "run fuel h (Pop_name p name) = pop_name fuel h p name"
| "run fuel h (Rename p name name') = map_option fst (rename h p name name')"
| "run fuel h (Unlink c) = unlink h c"
| "run fuel h (Clear p) = clear fuel h p"
| "run fuel h (Add_ref c) = add_ref h c"
| "run fuel h (Release c) = release fuel h c"
| "run fuel h (Join_append p q) = join id fuel h p q True"

text \<open>
  What a caller owes: the nodes are there, the address of a new one is not in use, an index is in range, a node is not
  attached below itself, and a joined node has a vector.
\<close>

fun admissible :: "heap \<Rightarrow> call \<Rightarrow> bool" where
  "admissible h (New a v) \<longleftrightarrow> h a = None"
| "admissible h (Set_value a p name v) \<longleftrightarrow> h a = None \<and> h p \<noteq> None"
| "admissible h (Set_attribute a p name v) \<longleftrightarrow> h a = None \<and> h p \<noteq> None"
| "admissible h (Set_schema a p name b) \<longleftrightarrow> h a = None \<and> h p \<noteq> None \<and> (case b of None \<Rightarrow> True | Some b \<Rightarrow> h b \<noteq> None \<and> p \<notin> sub h b)"
| "admissible h (Push_value a p v) \<longleftrightarrow> h a = None \<and> h p \<noteq> None"
| "admissible h (Push_schema a p b) \<longleftrightarrow> h a = None \<and> h p \<noteq> None \<and> (case b of None \<Rightarrow> True | Some b \<Rightarrow> h b \<noteq> None \<and> p \<notin> sub h b)"
| "admissible h (Pop_index p i) \<longleftrightarrow> h p \<noteq> None \<and> i < length (kids h p)"
| "admissible h (Pop_name p name) \<longleftrightarrow> h p \<noteq> None"
| "admissible h (Rename p name name') \<longleftrightarrow> h p \<noteq> None"
| "admissible h (Unlink c) \<longleftrightarrow> h c \<noteq> None"
| "admissible h (Clear p) \<longleftrightarrow> h p \<noteq> None"
| "admissible h (Add_ref c) \<longleftrightarrow> h c \<noteq> None"
| "admissible h (Release c) \<longleftrightarrow> h c \<noteq> None"
| "admissible h (Join_append p q) \<longleftrightarrow> h p \<noteq> None \<and> (case h q of None \<Rightarrow> False | Some m \<Rightarrow> nd_nodes m \<noteq> None) \<and> p \<notin> sub h q"

lemma run_children:
  assumes "heap_ok h" "admissible h c" "card (dom h) \<le> fuel"
    and "(\<exists>a p name v. c = Set_value a p name v) \<or> (\<exists>a p name v. c = Set_attribute a p name v) \<or> (\<exists>a p name b. c = Set_schema a p name b) \<or> (\<exists>a p v. c = Push_value a p v) \<or> (\<exists>a p b. c = Push_schema a p b)"
  shows "\<exists>g. run fuel h c = Some g \<and> heap_ok g"
proof (cases c)
  case (Set_value a p name v)
  then obtain m where "h a = None" "h p = Some m" using assms(2) by auto
  then show ?thesis using assms(3) Set_value by - (rule set_value_ok [OF assms(1), of a p m fuel name v], auto)
next
  case (Set_attribute a p name v)
  then obtain m where "h a = None" "h p = Some m" using assms(2) by auto
  then show ?thesis using assms(3) Set_attribute
    by - (rule set_value_ok [OF assms(1), of a p m fuel "CHR '':'' # name" v], auto simp: set_attribute_def)
next
  case (Set_schema a p name b)
  then obtain m where m: "h a = None" "h p = Some m" using assms(2) by auto
  show ?thesis
  proof (cases b)
    case None
    then show ?thesis using assms(3) Set_schema by - (rule set_value_ok [OF assms(1) m, of fuel name VNull], (auto simp: set_schema_def))
  next
    case (Some x)
    then obtain n where "h x = Some n" "p \<notin> sub h x" using assms(2) Set_schema by auto
    then show ?thesis using m assms(3) Set_schema Some by - (rule set_schema_ok [OF assms(1), of x n p m fuel a name], auto)
  qed
next
  case (Push_value a p v)
  then obtain m where "h a = None" "h p = Some m" using assms(2) by auto
  then show ?thesis using Push_value by - (rule push_value_ok [OF assms(1), of a p m v], auto)
next
  case (Push_schema a p b)
  then obtain m where m: "h a = None" "h p = Some m" using assms(2) by auto
  show ?thesis
  proof (cases b)
    case None
    then show ?thesis using Push_schema by - (rule push_value_ok [OF assms(1) m, of VNull], (auto simp: push_schema_def))
  next
    case (Some x)
    then obtain n where "h x = Some n" "p \<notin> sub h x" using assms(2) Push_schema by auto
    then show ?thesis using m Push_schema Some by - (rule push_schema_ok [OF assms(1), of x n p m a], auto)
  qed
qed (use assms(4) in auto)

lemma run_ok:
  assumes ok: "heap_ok h" and c: "admissible h c" and fuel: "card (dom h) \<le> fuel"
  shows "\<exists>g. run fuel h c = Some g \<and> heap_ok g"
proof (cases c)
  case (New a v)
  then show ?thesis using c heap_ok_new [OF ok, of a "new_node v"] by (simp add: new_node_def node_children_def)
next
  case (Pop_index p i)
  then obtain m where "h p = Some m" "i < length (node_children m)" using c by (auto simp: kids_def)
  then show ?thesis using fuel Pop_index by - (rule pop_index_ok [OF ok, of p m i fuel], auto)
next
  case (Pop_name p name)
  then obtain m where "h p = Some m" using c by auto
  then show ?thesis using fuel Pop_name by - (rule pop_name_ok [OF ok, of p m fuel name], auto)
next
  case (Rename p name name')
  then obtain m where "h p = Some m" using c by auto
  then show ?thesis using Rename by - (rule rename_ok [OF ok, of p m name name'], auto)
next
  case (Unlink x)
  then obtain n where "h x = Some n" using c by auto
  then show ?thesis using Unlink by - (rule unlink_ok [OF ok, of x n], auto)
next
  case (Clear p)
  then obtain n where "h p = Some n" using c by auto
  then show ?thesis using fuel Clear by - (rule clear_ok [OF ok, of p n fuel], auto)
next
  case (Add_ref x)
  then obtain n where n: "h x = Some n" using c by auto
  then show ?thesis using heap_ok_modify(1) [OF ok n, of "\<lambda>n. n\<lparr>nd_refs := nd_refs n + 1\<rparr>"] Add_ref by (simp add: add_ref_def modify_def)
next
  case (Release x)
  then obtain n where "h x = Some n" using c by auto
  then show ?thesis using fuel Release by - (rule release_any_ok [OF ok, of x n fuel], auto)
next
  case (Join_append p q)
  then obtain n m cs where "h p = Some n" "h q = Some m" "nd_nodes m = Some cs" "p \<notin> sub h q" using c by (auto split: option.splits)
  then show ?thesis using Join_append by - (rule join_append_ok [OF ok, of p n q m cs id fuel], auto)
qed (use run_children [OF ok c fuel] in auto)

text \<open>The transitions of a program that keeps to that.\<close>

inductive schema_step :: "heap \<Rightarrow> heap \<Rightarrow> bool" where
  "admissible h c \<Longrightarrow> card (dom h) \<le> fuel \<Longrightarrow> run fuel h c = Some g \<Longrightarrow> schema_step h g"

inductive_cases schema_stepE: "schema_step h g"

lemma heap_ok_empty: "heap_ok Map.empty"
  by (auto simp: heap_ok_def up_def par_def kids_def acyclic_def)

interpretation schema_heap: transition_invariant "\<lambda>h. h = Map.empty" schema_step heap_ok
  by unfold_locales (use heap_ok_empty run_ok in \<open>auto elim!: schema_stepE\<close>, metis option.inject run_ok)

end
