(* ===== verification/Schema_Heap_Properties.thy ===== *)
theory Schema_Heap_Properties
  imports Schema_Heap_Ops
begin

text \<open>
  Properties of the ownership of \<^verbatim>\<open>schema\<close> objects: programs over the public interface never reach a freed object,
  a release frees exactly the subtree, a value that was set is the one that is found, and what \<^verbatim>\<open>join\<close> does not do.
\<close>

section \<open>Set and look up\<close>

lemma find_child_same_keys:
  "(\<And>x. x \<in> set cs \<Longrightarrow> map_option nd_key (g x) = map_option nd_key (h x)) \<Longrightarrow> find_child g cs name = find_child h cs name"
proof (induction cs)
  case (Cons c cs)
  have "map_option nd_key (g c) = map_option nd_key (h c)" using Cons.prems by simp
  then show ?case using Cons by (cases "g c"; cases "h c") auto
qed simp

lemma find_child_in: "find_child h cs name = Some (Some c) \<Longrightarrow> c \<in> set cs"
  by (induction cs) (auto split: option.splits if_splits)

lemma find_child_live: "find_child h cs name = Some None \<Longrightarrow> x \<in> set cs \<Longrightarrow> h x \<noteq> None"
  by (induction cs) (auto split: option.splits if_splits)

lemma find_child_append: "find_child h cs name = Some None \<Longrightarrow> find_child h (cs @ ds) name = find_child h ds name"
  by (induction cs) (auto split: option.splits if_splits)

lemma set_target_object: "h p = Some m \<Longrightarrow> get_type (nd_value m) = Object_type \<Longrightarrow> set_target h p name = find_child h (kids h p) name"
  by (simp add: set_target_def kids_Some)

lemma set_value_existing:
  assumes ok: "heap_ok h" and p: "h p = Some m" "get_type (nd_value m) = Object_type" and fuel: "card (dom h) \<le> fuel"
    and c: "find_child h (kids h p) name = Some (Some c)"
  obtains g where "set_value fuel h a p name v = Some (g, c)" "find_child g (kids g p) name = Some (Some c)"
    "map_option nd_value (g c) = Some v" "kids g c = []"
proof -
  have ck: "c \<in> set (kids h p)" by (rule find_child_in [OF c])
  obtain n where n: "h c = Some n" "nd_parent n = Some p" using live_kids [OF ok ck] by blast
  then have par: "par h c = Some p" by simp
  let ?f = "\<lambda>n. n\<lparr>nd_value := v, nd_saved := False\<rparr>"
  let ?h = "h(c \<mapsto> ?f n)"
  have h: "heap_ok ?h" "dom ?h = dom h" "up ?h = up h" using heap_ok_modify [OF ok n(1), of ?f] by simp_all
  then have fuel': "card (dom ?h) \<le> fuel" using fuel by simp
  have "?h c = Some (?f n)" by simp
  then obtain k where k: "clear fuel ?h c = Some k" "heap_ok k" "k c = Some (?f n\<lparr>nd_nodes := None\<rparr>)" "\<And>x. x \<notin> sub ?h c \<Longrightarrow> k x = ?h x"
    by (rule clear_ok [OF h(1) _ fuel']) blast
  have above: "p \<notin> sub h c" "sub ?h c = sub h c" using child_not_above [OF ok par] h(3) by (auto simp: sub_def)
  have "p \<noteq> c" using above(1) by auto
  moreover from this have "k p = Some m" using k(4) [of p] above p(1) by simp
  ultimately have pc: "p \<noteq> c" "k p = Some m" by simp_all
  let ?g = "k(p \<mapsto> m\<lparr>nd_saved := False\<rparr>)"
  have "set_value fuel h a p name v = Some (?g, c)"
    using c set_target_object [of h p m name] p n k(1) pc by (simp add: set_value_def modify_def)
  moreover have "map_option nd_key (?g x) = map_option nd_key (h x)" if x: "x \<in> set (kids h p)" for x
  proof (cases "x = c")
    case True
    then show ?thesis using k(3) pc(1) n(1) by simp
  next
    case False
    have "par h x = Some p" using heap_okD(3) [OF ok] x by simp
    have "x \<notin> sub h c"
    proof
      assume "x \<in> sub h c"
      then have "(x, c) \<in> (up h)\<^sup>*" by (simp add: sub_def)
      then show False using False above(1) \<open>par h x = Some p\<close> by (cases rule: converse_rtranclE) (simp_all add: sub_def up_def)
    qed
    then have "k x = h x" using k(4) [of x] above(2) False by simp
    then show ?thesis using pc p(1) by (cases "x = p") auto
  qed
  then have "find_child ?g (kids h p) name = Some (Some c)" using find_child_same_keys [of "kids h p" ?g h] c by simp
  moreover have "kids ?g p = kids h p" using p(1) kids_Some [of h p m] by simp
  moreover have "kids ?g c = []" using pc(1) k(3) kids_Some [of k c] by simp
  ultimately show ?thesis using that [of ?g] k(3) pc(1) by simp
qed

lemma append_new_found:
  assumes p: "h p = Some m" "h a = None" and n: "nd_parent n = None" "node_children n = []" and miss: "find_child h (kids h p) (nd_key n) = Some None"
  obtains g where "append_new h p a n = Some (g, a)" "find_child g (kids g p) (nd_key n) = Some (Some a)"
    "map_option nd_value (g a) = Some (nd_value n)" "kids g a = []"
proof -
  have ap: "a \<noteq> p" using p by auto
  let ?g = "h(a \<mapsto> n\<lparr>nd_saved := False, nd_parent := Some p\<rparr>, p \<mapsto> m\<lparr>nd_saved := False, nd_nodes := Some (node_children m @ [a])\<rparr>)"
  have "append_new h p a n = Some (?g, a)"
    using p n(1) ap
    by (cases "nd_nodes m") (simp_all add: append_new_def attach_def erase_from_parent_def modify_def allocate_def push_back_def node_children_def)
  moreover have "map_option nd_key (?g x) = map_option nd_key (h x)" if "x \<in> set (kids h p)" for x
    using find_child_live [OF miss that] p by auto
  then have "find_child ?g (kids h p) (nd_key n) = Some None" using find_child_same_keys [of "kids h p" ?g h] miss by simp
  then have "find_child ?g (kids h p @ [a]) (nd_key n) = Some (Some a)" using ap by (subst find_child_append) auto
  then have "find_child ?g (kids ?g p) (nd_key n) = Some (Some a)" using p(1) kids_Some [of h p m] by simp
  moreover have "kids ?g a = []" using ap n(2) by simp
  ultimately show ?thesis using that [of ?g] ap by simp
qed

text \<open>
  C40: Setting a value under a name that is not empty in a node of type object, whether the name is new or not, and
  looking the name up with \<^verbatim>\<open>get\<close> gives the node that \<^verbatim>\<open>set\<close> returned, which holds the value and has no children.  (In an array
  \<^verbatim>\<open>set\<close> appends without a search, and \<^verbatim>\<open>find\<close> takes a name that is an integer as an index; \<^verbatim>\<open>get\<close> asserts that the name is
  not empty.)
\<close>

theorem schema_set_get:
  assumes "heap_ok h" "h p = Some m" "get_type (nd_value m) = Object_type" "h a = None" "card (dom h) \<le> fuel"
    and "name \<noteq> []"
  shows "\<exists>g r n. set_value fuel h a p name v = Some (g, r) \<and> find_child g (kids g p) name = Some (Some r)
           \<and> g r = Some n \<and> nd_value n = v \<and> node_children n = []"
proof -
  have found: "\<exists>n. g r = Some n \<and> nd_value n = v \<and> node_children n = []" if "map_option nd_value (g r) = Some v" "kids g r = []" for g :: heap and r
    using that by (auto simp: kids_def)
  obtain t where t: "find_child h (kids h p) name = Some t"
    using find_child_ok [of "kids h p" h name] live_kids [OF assms(1), of _ p] by (metis option.distinct(1))
  show ?thesis
  proof (cases t)
    case None
    let ?n = "(new_node v)\<lparr>nd_key := name\<rparr>"
    have n: "nd_parent ?n = None" "node_children ?n = []" "nd_key ?n = name" "nd_value ?n = v"
      by (simp_all add: new_node_def node_children_def)
    have "set_value fuel h a p name v = append_new h p a ?n"
      using set_target_object [of h p m name] assms(2,3) t None by (simp add: set_value_def)
    moreover obtain g where "append_new h p a ?n = Some (g, a)" "find_child g (kids g p) name = Some (Some a)"
      "map_option nd_value (g a) = Some v" "kids g a = []"
      using append_new_found [OF assms(2,4) n(1,2)] t None n by auto
    ultimately show ?thesis using found by metis
  next
    case (Some c)
    obtain g where "set_value fuel h a p name v = Some (g, c)" "find_child g (kids g p) name = Some (Some c)"
      "map_option nd_value (g c) = Some v" "kids g c = []"
      using set_value_existing [OF assms(1-3,5)] t Some by metis
    then show ?thesis using found by metis
  qed
qed

text \<open>An object of one entry, as \<^verbatim>\<open>set\<close> builds it from an empty heap.\<close>

definition sample_root :: heap where
  "sample_root = [0 \<mapsto> new_node VObject]"

definition sample_heap :: heap where
  "sample_heap = [0 \<mapsto> (new_node VObject)\<lparr>nd_nodes := Some [1], nd_saved := False\<rparr>,
     1 \<mapsto> (new_node VNull)\<lparr>nd_key := ''k'', nd_parent := Some 0, nd_saved := False\<rparr>]"

lemma sample_heap_steps: "schema_step\<^sup>*\<^sup>* Map.empty sample_root" "schema_step sample_root sample_heap"
proof -
  have "schema_step Map.empty sample_root"
    by (rule schema_step.intros [of _ "New 0 VObject" 0]) (simp_all add: sample_root_def)
  then show "schema_step\<^sup>*\<^sup>* Map.empty sample_root" using r_into_rtranclp [of schema_step Map.empty sample_root] by blast
  show "schema_step sample_root sample_heap"
    by (rule schema_step.intros [of _ "Set_value 1 0 ''k'' VNull" 1])
       (simp_all add: sample_root_def sample_heap_def set_value_def set_target_def new_node_def node_children_def append_new_def
          attach_def erase_from_parent_def modify_def allocate_def push_back_def fun_eq_iff)
qed

lemma sample_heap_ok: "heap_ok sample_root" "heap_ok sample_heap"
  using schema_heap.reachable_inv [OF refl sample_heap_steps(1)] schema_heap.step_inv [OF _ sample_heap_steps(2)] by blast+

lemma sample_heap_dom: "dom sample_root = {0}" "dom sample_heap = {0, 1}"
  by (auto simp: sample_root_def sample_heap_def)

theorem schema_set_get_witness:
  "heap_ok sample_heap \<and> (\<exists>g r n. set_value 2 sample_heap 7 0 ''k'' (VBoolean True) = Some (g, r) \<and> find_child g (kids g 0) ''k'' = Some (Some r)
     \<and> g r = Some n \<and> nd_value n = VBoolean True \<and> node_children n = [])"
  using schema_set_get [of sample_heap 0 _ 7 2 "''k''" "VBoolean True"] sample_heap_ok sample_heap_dom
  by (simp add: sample_heap_def new_node_def)

section \<open>Safety\<close>

text \<open>
  C1: A program made of the calls of \<open>call\<close> (the making of a node, \<^verbatim>\<open>set\<close>, \<^verbatim>\<open>set_attribute\<close> and \<^verbatim>\<open>push\<close> of a value or a node,
  \<^verbatim>\<open>pop\<close> by index or name, \<^verbatim>\<open>rename\<close>, \<^verbatim>\<open>unlink\<close>, \<^verbatim>\<open>clear\<close>, \<^verbatim>\<open>add_ref\<close>, \<^verbatim>\<open>release\<close> and the appending \<^verbatim>\<open>join\<close>), each on nodes that
  are there and none of which attaches a node below itself, never reaches a node that was freed: each call returns, and
  after it the vector of every node holds exactly, and once each, the nodes whose parent it is, and no node is its own
  ancestor.  The merging \<^verbatim>\<open>join(other, false)\<close> is not among the calls, and \<open>schema_join_gaps\<close> shows that it breaks this; nor is
  a change of the vector that \<^verbatim>\<open>get_childs\<close> hands out.
\<close>

theorem schema_heap_safe:
  assumes "schema_step\<^sup>*\<^sup>* Map.empty h" "admissible h c" "card (dom h) \<le> fuel"
  shows "\<exists>g. run fuel h c = Some g \<and> (\<forall>p. distinct (kids g p) \<and> set (kids g p) = {x. par g x = Some p}) \<and> acyclic (up g)"
proof -
  have "heap_ok h" by (rule schema_heap.reachable_inv [OF refl assms(1)])
  from run_ok [OF this assms(2,3)] show ?thesis by (auto simp: heap_ok_def)
qed

theorem schema_heap_safe_witness:
  "schema_step\<^sup>*\<^sup>* Map.empty sample_root \<and> (\<exists>g. run 1 sample_root (Set_value 1 0 ''k'' VNull) = Some g
     \<and> (\<forall>p. distinct (kids g p) \<and> set (kids g p) = {x. par g x = Some p}) \<and> acyclic (up g))"
proof -
  have "admissible sample_root (Set_value 1 0 ''k'' VNull)" by (simp add: sample_root_def)
  then show ?thesis using sample_heap_steps(1) schema_heap_safe [OF sample_heap_steps(1), of _ 1] sample_heap_dom by (simp del: run.simps)
qed

section \<open>Release\<close>

text \<open>
  C39: Releasing the last reference of a tree whose nodes have no other holders frees every node of the tree and changes no
  other object; the recursion is no deeper than the tree has nodes.
\<close>

theorem schema_release_frees:
  assumes "heap_ok h" "h c = Some n" "nd_parent n = None" "refs_one (sub h c) h" "card (sub h c) \<le> fuel"
  shows "\<exists>g. release fuel h c = Some g \<and> (\<forall>x. g x = (if x \<in> sub h c then None else h x))"
proof -
  obtain g where g: "release fuel h c = Some g" "released h c g" using release_ok [OF assms(1-3,5)] by blast
  then have "g x = (if x \<in> sub h c then None else h x)" for x
    using released_none [OF g(2) assms(4), of x] releasedD(4) [OF g(2), of x] by simp
  then show ?thesis using g(1) by blast
qed

theorem schema_release_frees_witness:
  "heap_ok sample_heap \<and> (\<exists>g. release 2 sample_heap 0 = Some g \<and> (\<forall>x. g x = (if x \<in> sub sample_heap 0 then None else sample_heap x)))"
proof -
  obtain n where n: "sample_heap 0 = Some n" "nd_parent n = None" by (simp add: sample_heap_def new_node_def)
  have "refs_one (sub sample_heap 0) sample_heap" by (auto simp: refs_one_def sample_heap_def new_node_def)
  moreover have "card (sub sample_heap 0) \<le> 2" using card_sub_le [OF sample_heap_ok(2) n(1)] sample_heap_dom by simp
  ultimately show ?thesis using schema_release_frees [OF sample_heap_ok(2) n] sample_heap_ok(2) by simp
qed

section \<open>What join does not do\<close>

definition joined_node :: "string \<Rightarrow> nat option \<Rightarrow> nat list option \<Rightarrow> u32 \<Rightarrow> node" where
  "joined_node key q cs refs = \<lparr>nd_key = key, nd_value = VObject, nd_saved = True, nd_nodes = cs, nd_parent = q, nd_refs = refs\<rparr>"

text \<open>
  \<^verbatim>\<open>join\<close> reads the size of the other vector, so it does not return for another object without one; two nodes of one
  key make it release the first while it walks the vector that the release shrinks; and a node that it replaces and
  that has a further holder keeps a parent whose vector does not hold it any more.
\<close>

theorem schema_join_gaps:
  "join id 9 [0 \<mapsto> joined_node [] None None 1, 1 \<mapsto> joined_node [] None None 1] 0 1 True = None"
  "join id 9 [0 \<mapsto> joined_node [] None (Some [2, 3]) 1, 1 \<mapsto> joined_node [] None (Some []) 1,
      2 \<mapsto> joined_node ''k'' (Some 0) None 1, 3 \<mapsto> joined_node ''k'' (Some 0) None 1] 0 1 False = None"
  "map_option (\<lambda>h. (kids h 0, par h 2)) (join id 9 [0 \<mapsto> joined_node [] None (Some [2]) 1, 1 \<mapsto> joined_node [] None (Some [3]) 1,
      2 \<mapsto> joined_node ''k'' (Some 0) None 2, 3 \<mapsto> joined_node ''k'' (Some 1) None 1] 0 1 False) = Some ([3], Some 0)"
  by code_simp+

end
