(* ===== verification/Hash.thy ===== *)
theory Hash
  imports Endian Chars
begin

text \<open>
  The hash functions that the library computes itself (\<^verbatim>\<open>compute.cpp\<close>): the streaming \<^verbatim>\<open>md5_hasher\<close>,
  \<^verbatim>\<open>crypto::sha1_compute\<close> and the two cyclic redundancy checks.  Buffers are lists of bytes; \<^const>\<open>None\<close> is a
  read behind the end of the input.
\<close>

section \<open>MD5\<close>

record md5_hasher =
  finalized :: bool
  md_buffer :: "u8 list"
  count0 :: u32
  count1 :: u32
  md_state :: "u32 list"
  digest :: "u8 list"

definition md5_init :: md5_hasher where
  "md5_init = \<lparr>finalized = False, md_buffer = replicate 64 0, count0 = 0, count1 = 0,
     md_state = [0x67452301, 0xefcdab89, 0x98badcfe, 0x10325476], digest = replicate 16 0\<rparr>"

fun md5_decode :: "u8 list \<Rightarrow> u32 list" where
  "md5_decode (b0 # b1 # b2 # b3 # bs) =
     (ucast b0 OR push_bit 8 (ucast b1) OR push_bit 16 (ucast b2) OR push_bit 24 (ucast b3)) # md5_decode bs"
| "md5_decode _ = []"

fun md5_encode :: "u32 list \<Rightarrow> u8 list" where
  "md5_encode [] = []"
| "md5_encode (w # ws) = ucast (w AND 0xff) # ucast (drop_bit 8 w AND 0xff) # ucast (drop_bit 16 w AND 0xff)
     # ucast (drop_bit 24 w AND 0xff) # md5_encode ws"

definition md5_f :: "u32 \<Rightarrow> u32 \<Rightarrow> u32 \<Rightarrow> u32" where
  "md5_f x y z = (x AND y) OR (NOT x AND z)"

definition md5_g :: "u32 \<Rightarrow> u32 \<Rightarrow> u32 \<Rightarrow> u32" where
  "md5_g x y z = (x AND z) OR (y AND NOT z)"

definition md5_h :: "u32 \<Rightarrow> u32 \<Rightarrow> u32 \<Rightarrow> u32" where
  "md5_h x y z = x XOR y XOR z"

definition md5_i :: "u32 \<Rightarrow> u32 \<Rightarrow> u32 \<Rightarrow> u32" where
  "md5_i x y z = y XOR (x OR NOT z)"

definition md5_l :: "u32 \<Rightarrow> nat \<Rightarrow> u32" where
  "md5_l x n = push_bit n x OR drop_bit (32 - n) x"

text \<open>
  The calls of \<^verbatim>\<open>ff\<close>, \<^verbatim>\<open>gg\<close>, \<^verbatim>\<open>hh\<close> and \<^verbatim>\<open>ii\<close> in \<^verbatim>\<open>transform\<close>, line by line: the function, the four registers (the first is
  the one that is assigned), the word of the block, the rotation and the constant.
\<close>

datatype md5_fn = FF | GG | HH | II

fun md5_fun :: "md5_fn \<Rightarrow> u32 \<Rightarrow> u32 \<Rightarrow> u32 \<Rightarrow> u32" where
  "md5_fun FF = md5_f"
| "md5_fun GG = md5_g"
| "md5_fun HH = md5_h"
| "md5_fun II = md5_i"

type_synonym md5_line = "md5_fn \<times> nat \<times> nat \<times> nat \<times> nat \<times> nat \<times> nat \<times> u32"

definition md5_calls :: "md5_line list" where
  "md5_calls =
  [(FF, 0, 1, 2, 3, 0, 7, 0xd76aa478), (FF, 3, 0, 1, 2, 1, 12, 0xe8c7b756),
   (FF, 2, 3, 0, 1, 2, 17, 0x242070db), (FF, 1, 2, 3, 0, 3, 22, 0xc1bdceee),
   (FF, 0, 1, 2, 3, 4, 7, 0xf57c0faf), (FF, 3, 0, 1, 2, 5, 12, 0x4787c62a),
   (FF, 2, 3, 0, 1, 6, 17, 0xa8304613), (FF, 1, 2, 3, 0, 7, 22, 0xfd469501),
   (FF, 0, 1, 2, 3, 8, 7, 0x698098d8), (FF, 3, 0, 1, 2, 9, 12, 0x8b44f7af),
   (FF, 2, 3, 0, 1, 10, 17, 0xffff5bb1), (FF, 1, 2, 3, 0, 11, 22, 0x895cd7be),
   (FF, 0, 1, 2, 3, 12, 7, 0x6b901122), (FF, 3, 0, 1, 2, 13, 12, 0xfd987193),
   (FF, 2, 3, 0, 1, 14, 17, 0xa679438e), (FF, 1, 2, 3, 0, 15, 22, 0x49b40821),
   (GG, 0, 1, 2, 3, 1, 5, 0xf61e2562), (GG, 3, 0, 1, 2, 6, 9, 0xc040b340),
   (GG, 2, 3, 0, 1, 11, 14, 0x265e5a51), (GG, 1, 2, 3, 0, 0, 20, 0xe9b6c7aa),
   (GG, 0, 1, 2, 3, 5, 5, 0xd62f105d), (GG, 3, 0, 1, 2, 10, 9, 0x2441453),
   (GG, 2, 3, 0, 1, 15, 14, 0xd8a1e681), (GG, 1, 2, 3, 0, 4, 20, 0xe7d3fbc8),
   (GG, 0, 1, 2, 3, 9, 5, 0x21e1cde6), (GG, 3, 0, 1, 2, 14, 9, 0xc33707d6),
   (GG, 2, 3, 0, 1, 3, 14, 0xf4d50d87), (GG, 1, 2, 3, 0, 8, 20, 0x455a14ed),
   (GG, 0, 1, 2, 3, 13, 5, 0xa9e3e905), (GG, 3, 0, 1, 2, 2, 9, 0xfcefa3f8),
   (GG, 2, 3, 0, 1, 7, 14, 0x676f02d9), (GG, 1, 2, 3, 0, 12, 20, 0x8d2a4c8a),
   (HH, 0, 1, 2, 3, 5, 4, 0xfffa3942), (HH, 3, 0, 1, 2, 8, 11, 0x8771f681),
   (HH, 2, 3, 0, 1, 11, 16, 0x6d9d6122), (HH, 1, 2, 3, 0, 14, 23, 0xfde5380c),
   (HH, 0, 1, 2, 3, 1, 4, 0xa4beea44), (HH, 3, 0, 1, 2, 4, 11, 0x4bdecfa9),
   (HH, 2, 3, 0, 1, 7, 16, 0xf6bb4b60), (HH, 1, 2, 3, 0, 10, 23, 0xbebfbc70),
   (HH, 0, 1, 2, 3, 13, 4, 0x289b7ec6), (HH, 3, 0, 1, 2, 0, 11, 0xeaa127fa),
   (HH, 2, 3, 0, 1, 3, 16, 0xd4ef3085), (HH, 1, 2, 3, 0, 6, 23, 0x4881d05),
   (HH, 0, 1, 2, 3, 9, 4, 0xd9d4d039), (HH, 3, 0, 1, 2, 12, 11, 0xe6db99e5),
   (HH, 2, 3, 0, 1, 15, 16, 0x1fa27cf8), (HH, 1, 2, 3, 0, 2, 23, 0xc4ac5665),
   (II, 0, 1, 2, 3, 0, 6, 0xf4292244), (II, 3, 0, 1, 2, 7, 10, 0x432aff97),
   (II, 2, 3, 0, 1, 14, 15, 0xab9423a7), (II, 1, 2, 3, 0, 5, 21, 0xfc93a039),
   (II, 0, 1, 2, 3, 12, 6, 0x655b59c3), (II, 3, 0, 1, 2, 3, 10, 0x8f0ccc92),
   (II, 2, 3, 0, 1, 10, 15, 0xffeff47d), (II, 1, 2, 3, 0, 1, 21, 0x85845dd1),
   (II, 0, 1, 2, 3, 8, 6, 0x6fa87e4f), (II, 3, 0, 1, 2, 15, 10, 0xfe2ce6e0),
   (II, 2, 3, 0, 1, 6, 15, 0xa3014314), (II, 1, 2, 3, 0, 13, 21, 0x4e0811a1),
   (II, 0, 1, 2, 3, 4, 6, 0xf7537e82), (II, 3, 0, 1, 2, 11, 10, 0xbd3af235),
   (II, 2, 3, 0, 1, 2, 15, 0x2ad7d2bb), (II, 1, 2, 3, 0, 9, 21, 0xeb86d391)]"

fun md5_call :: "u32 list \<Rightarrow> md5_line \<Rightarrow> u32 list \<Rightarrow> u32 list" where
  "md5_call x (fn, a, b, c, d, k, s, ac) r =
     r[a := md5_l (r ! a + md5_fun fn (r ! b) (r ! c) (r ! d) + x ! k + ac) s + r ! b]"

definition md5_transform :: "u32 list \<Rightarrow> u8 list \<Rightarrow> u32 list" where
  "md5_transform state block = (let x = md5_decode block; r = fold (md5_call x) md5_calls state
     in [state ! 0 + r ! 0, state ! 1 + r ! 1, state ! 2 + r ! 2, state ! 3 + r ! 3])"

text \<open>The loop over the whole blocks of \<^verbatim>\<open>update\<close>: the counter has 32 bits, and \<^verbatim>\<open>i + block_size\<close> may wrap.\<close>

function md5_blocks :: "u32 list \<Rightarrow> u8 list \<Rightarrow> nat \<Rightarrow> (u32 list \<times> nat) option" where
  "md5_blocks state input i =
     (if (of_nat i + 64 :: u32) \<le> of_nat (length input) then
        if i + 64 \<le> length input then md5_blocks (md5_transform state (take 64 (drop i input))) input (i + 64) else None
      else Some (state, i))"
  by pat_completeness auto
termination by (relation "measure (\<lambda>(state, input, i). length input - i)") auto

definition write_at :: "'a list \<Rightarrow> nat \<Rightarrow> 'a list \<Rightarrow> 'a list" where
  "write_at buf i xs = take i buf @ xs @ drop (i + length xs) buf"

text \<open>\<^verbatim>\<open>update\<close> with the block size of its default argument; the length is a \<^verbatim>\<open>uint32_t\<close>.\<close>

definition md5_update :: "md5_hasher \<Rightarrow> u8 list \<Rightarrow> md5_hasher option" where
  "md5_update m input =
     (let len = of_nat (length input) :: u32;
          index = unat (count0 m div 8 mod 64);
          c0 = count0 m + push_bit 3 len;
          c1 = (if c0 < push_bit 3 len then count1 m + 1 else count1 m) + drop_bit 29 len;
          m = m\<lparr>count0 := c0, count1 := c1\<rparr>;
          chunk = 64 - index
      in if chunk \<le> length input then
           let buf = write_at (md_buffer m) index (take chunk input)
           in case md5_blocks (md5_transform (md_state m) buf) input chunk of
                None \<Rightarrow> None
              | Some (state, i) \<Rightarrow> Some (m\<lparr>md_state := state, md_buffer := write_at buf 0 (drop i input)\<rparr>)
         else Some (m\<lparr>md_buffer := write_at (md_buffer m) index input\<rparr>))"

text \<open>The overload for views casts the length to 32 bits.\<close>

definition md5_update_view :: "md5_hasher \<Rightarrow> u8 list \<Rightarrow> md5_hasher option" where
  "md5_update_view m input = md5_update m (take (unat (of_nat (length input) :: u32)) input)"

definition md5_padding :: "u8 list" where
  "md5_padding = 0x80 # replicate 63 0"

definition md5_finalize :: "md5_hasher \<Rightarrow> md5_hasher option" where
  "md5_finalize m =
     (if finalized m then Some m
      else let bits = md5_encode [count0 m, count1 m];
               index = unat (count0 m div 8 mod 64);
               size = (if index < 56 then 56 - index else 120 - index)
           in case md5_update m (take size md5_padding) of
                None \<Rightarrow> None
              | Some m1 \<Rightarrow> (case md5_update m1 bits of
                  None \<Rightarrow> None
                | Some m2 \<Rightarrow> Some (m2\<lparr>digest := md5_encode (md_state m2), md_buffer := replicate 64 0,
                    count0 := 0, count1 := 0, finalized := True\<rparr>)))"

definition hex_char :: "nat \<Rightarrow> char" where
  "hex_char n = ''0123456789abcdef'' ! n"

definition byte_hex :: "u8 \<Rightarrow> string" where
  "byte_hex b = [hex_char (unat b div 16), hex_char (unat b mod 16)]"

definition md5_to_hex :: "md5_hasher \<Rightarrow> string" where
  "md5_to_hex m = concat (map byte_hex (digest m))"

text \<open>\<^verbatim>\<open>to_raw\<close> makes a string of a buffer that ends in a zero byte.\<close>

definition md5_to_raw :: "md5_hasher \<Rightarrow> u8 list" where
  "md5_to_raw m = takeWhile (\<lambda>b. b \<noteq> 0) (digest m)"

definition md5_raw_digest :: "md5_hasher \<Rightarrow> u8 list" where
  "md5_raw_digest m = digest m @ [0]"

section \<open>SHA-1\<close>

definition sha1_collapse_buffer_block :: "u32 list \<Rightarrow> u32 list" where
  "sha1_collapse_buffer_block w = replicate 16 0 @ drop 16 w"

definition sha1_roll :: "u32 \<Rightarrow> nat \<Rightarrow> u32" where
  "sha1_roll x n = push_bit n x OR drop_bit (32 - n) x"

type_synonym sha1_regs = "u32 \<times> u32 \<times> u32 \<times> u32 \<times> u32"

definition sha1_make :: "(u32 \<Rightarrow> u32 \<Rightarrow> u32 \<Rightarrow> u32) \<Rightarrow> u32 \<Rightarrow> nat \<Rightarrow> u32 list \<Rightarrow> sha1_regs \<Rightarrow> sha1_regs" where
  "sha1_make f v r w = (\<lambda>(a, b, c, d, e). (sha1_roll a 5 + f b c d + e + v + w ! r, a, sha1_roll b 30, c, d))"

text \<open>One round of a loop, with and without the extension of \<open>w\<close>.\<close>

definition sha1_short_round :: "(u32 \<Rightarrow> u32 \<Rightarrow> u32 \<Rightarrow> u32) \<Rightarrow> u32 \<Rightarrow> nat \<Rightarrow> u32 list \<times> sha1_regs \<Rightarrow> u32 list \<times> sha1_regs" where
  "sha1_short_round f v r = (\<lambda>(w, regs). (w, sha1_make f v r w regs))"

definition sha1_round :: "(u32 \<Rightarrow> u32 \<Rightarrow> u32 \<Rightarrow> u32) \<Rightarrow> u32 \<Rightarrow> nat \<Rightarrow> u32 list \<times> sha1_regs \<Rightarrow> u32 list \<times> sha1_regs" where
  "sha1_round f v r = (\<lambda>(w, regs).
     let w = w[r := sha1_roll (w ! (r - 3) XOR w ! (r - 8) XOR w ! (r - 14) XOR w ! (r - 16)) 1]
     in (w, sha1_make f v r w regs))"

definition sha1_choose :: "u32 \<Rightarrow> u32 \<Rightarrow> u32 \<Rightarrow> u32" where
  "sha1_choose b c d = (b AND c) OR (NOT b AND d)"

definition sha1_parity :: "u32 \<Rightarrow> u32 \<Rightarrow> u32 \<Rightarrow> u32" where
  "sha1_parity b c d = b XOR c XOR d"

definition sha1_majority :: "u32 \<Rightarrow> u32 \<Rightarrow> u32 \<Rightarrow> u32" where
  "sha1_majority b c d = (b AND c) OR (b AND d) OR (c AND d)"

definition sha1_compute_hash_block :: "sha1_regs \<times> u32 list \<Rightarrow> sha1_regs \<times> u32 list" where
  "sha1_compute_hash_block = (\<lambda>((r0, r1, r2, r3, r4), w).
     let s = fold (sha1_short_round sha1_choose 0x5a827999) [0..<16] (w, (r0, r1, r2, r3, r4));
         s = fold (sha1_round sha1_choose 0x5a827999) [16..<20] s;
         s = fold (sha1_round sha1_parity 0x6ed9eba1) [20..<40] s;
         s = fold (sha1_round sha1_majority 0x8f1bbcdc) [40..<60] s;
         (w, a, b, c, d, e) = fold (sha1_round sha1_parity 0xca62c1d6) [60..<80] s
     in ((r0 + a, r1 + b, r2 + c, r3 + d, r4 + e), w))"

definition sha1_word :: "u8 list \<Rightarrow> nat \<Rightarrow> u32" where
  "sha1_word data p = ucast (data ! (p + 3)) OR push_bit 8 (ucast (data ! (p + 2)))
     OR push_bit 16 (ucast (data ! (p + 1))) OR push_bit 24 (ucast (data ! p))"

definition sha1_load :: "u8 list \<Rightarrow> nat \<Rightarrow> u32 list \<Rightarrow> u32 list" where
  "sha1_load data current_block w = fold (\<lambda>i w. w[i := sha1_word data (current_block + 4 * i)]) [0..<16] w"

function sha1_full_blocks :: "u8 list \<Rightarrow> nat \<Rightarrow> sha1_regs \<times> u32 list \<Rightarrow> nat \<times> sha1_regs \<times> u32 list" where
  "sha1_full_blocks data current_block (result, w) =
     (if current_block + 64 \<le> length data
      then sha1_full_blocks data (current_block + 64) (sha1_compute_hash_block (result, sha1_load data current_block w))
      else (current_block, result, w))"
  by pat_completeness auto
termination by (relation "measure (\<lambda>(data, current_block, s). length data - current_block)") auto

definition sha1_or :: "u32 list \<Rightarrow> nat \<Rightarrow> u8 \<Rightarrow> u32 list" where
  "sha1_or w p b = w[p div 4 := w ! (p div 4) OR push_bit ((3 - p mod 4) * 8) (ucast b)]"

definition sha1_tail :: "u8 list \<Rightarrow> nat \<Rightarrow> u32 list \<Rightarrow> u32 list" where
  "sha1_tail data current_block w = (let end_current_block = length data - current_block in
     sha1_or (fold (\<lambda>p w. sha1_or w p (data ! (p + current_block))) [0..<end_current_block] w) end_current_block 0x80)"

text \<open>\<open>w0\<close> is what the array holds before it is written.\<close>

definition sha1_compute :: "u32 list \<Rightarrow> u8 list \<Rightarrow> u8 list" where
  "sha1_compute w0 data =
     (let (current_block, result, w) = sha1_full_blocks data 0 ((0x67452301, 0xefcdab89, 0x98badcfe, 0x10325476, 0xc3d2e1f0), w0);
          w = sha1_tail data current_block (sha1_collapse_buffer_block w);
          (result, w) = (if 56 \<le> length data - current_block
             then (let (result, w) = sha1_compute_hash_block (result, w) in (result, sha1_collapse_buffer_block w)) else (result, w));
          w = w[15 := push_bit 3 (of_nat (length data))];
          ((r0, r1, r2, r3, r4), w) = sha1_compute_hash_block (result, w)
      in map (\<lambda>i. ucast (drop_bit (((3 - i mod 4) mod 4) * 8) ([r0, r1, r2, r3, r4] ! (i div 4)) AND 0xff)) [0..<20])"

definition sha1_hash20_to_hex :: "u8 list \<Rightarrow> string" where
  "sha1_hash20_to_hex hash20 = concat (map (\<lambda>b. [hex_char (unat (drop_bit 4 b AND 0xf)), hex_char (unat (b AND 0xf))]) hash20)"

section \<open>Cyclic redundancy checks\<close>

text \<open>The elements of a \<^verbatim>\<open>string_view\<close> are signed, so the cast extends the sign.\<close>

definition crc32_bit :: "u32 \<Rightarrow> u32" where
  "crc32_bit crc = (let t = NOT ((crc AND 1) - 1) in drop_bit 1 crc XOR (0xEDB88320 AND t))"

definition crc32_byte :: "u8 \<Rightarrow> u32 \<Rightarrow> u32" where
  "crc32_byte b crc = (crc32_bit ^^ 8) (crc XOR scast b)"

definition crc32 :: "u8 list \<Rightarrow> u32" where
  "crc32 data = NOT (fold crc32_byte data (NOT 0))"

definition crc64_bit :: "u64 \<Rightarrow> u64" where
  "crc64_bit crc = (let t = NOT ((crc AND 1) - 1) in drop_bit 1 crc XOR (0xC96C5795D7870F42 AND t))"

definition crc64_byte :: "u8 \<Rightarrow> u64 \<Rightarrow> u64" where
  "crc64_byte b crc = (crc64_bit ^^ 8) (crc XOR scast b)"

definition crc64 :: "u8 list \<Rightarrow> u64" where
  "crc64 data = NOT (fold crc64_byte data (NOT 0))"

end
