(* ===== verification/Stream_Consumer.thy ===== *)
theory Stream_Consumer
  imports Main
begin

text \<open>
  A consumer of data that arrives in pieces: \<open>repr s m\<close> says that the state \<open>s\<close> stands for the data \<open>m\<close>.  The hasher of
  \<open>Hash\<close> and the content scanner of \<open>Http_Multipart\<close> are consumers.
\<close>

primrec feed_all :: "('s \<Rightarrow> 'a list \<Rightarrow> 's option) \<Rightarrow> 's \<Rightarrow> 'a list list \<Rightarrow> 's option" where
  "feed_all feed s [] = Some s"
| "feed_all feed s (c # cs) = (case feed s c of None \<Rightarrow> None | Some t \<Rightarrow> feed_all feed t cs)"

locale stream_consumer =
  fixes init :: 's and feed :: "'s \<Rightarrow> 'a list \<Rightarrow> 's option" and repr :: "'s \<Rightarrow> 'a list \<Rightarrow> bool" and piece :: "'a list \<Rightarrow> bool"
  assumes init_repr: "repr init []"
    and feed_repr: "repr s m \<Longrightarrow> piece c \<Longrightarrow> \<exists>t. feed s c = Some t \<and> repr t (m @ c)"
begin

lemma feed_all_repr: "repr s m \<Longrightarrow> (\<And>c. c \<in> set cs \<Longrightarrow> piece c) \<Longrightarrow> \<exists>t. feed_all feed s cs = Some t \<and> repr t (m @ concat cs)"
proof (induction cs arbitrary: s m)
  case (Cons c cs)
  obtain t where t: "feed s c = Some t" "repr t (m @ c)" using feed_repr Cons.prems by (meson list.set_intros(1))
  with Cons.IH [OF t(2)] Cons.prems show ?case by auto
qed simp

lemma fed_repr: "(\<And>c. c \<in> set cs \<Longrightarrow> piece c) \<Longrightarrow> \<exists>t. feed_all feed init cs = Some t \<and> repr t (concat cs)"
  using feed_all_repr [OF init_repr, of cs] by simp

end

end
