(* ===== verification/Hash_Laws.thy ===== *)
theory Hash_Laws
  imports Hash Stream_Consumer
begin

text \<open>
  The reference definitions of MD5 (RFC 1321) and SHA-1 (FIPS 180), and
  what the code of \<open>Hash\<close> has to do with them.
\<close>

section \<open>Blocks and padding\<close>

function blocks :: "'a list \<Rightarrow> 'a list list" where
  "blocks xs = (if length xs < 64 then [] else take 64 xs # blocks (drop 64 xs))"
  by pat_completeness auto
termination by (relation "measure length") auto

declare blocks.simps [simp del]

lemma blocks_short [simp]: "length xs < 64 \<Longrightarrow> blocks xs = []"
  by (simp add: blocks.simps)

lemma blocks_first: "length b = 64 \<Longrightarrow> blocks (b @ xs) = b # blocks xs"
  by (subst blocks.simps) simp

lemma blocks_append: "length xs mod 64 = 0 \<Longrightarrow> blocks (xs @ ys) = blocks xs @ blocks ys"
proof (induction xs rule: blocks.induct)
  case (1 xs)
  show ?case
  proof (cases "length xs < 64")
    case True
    then show ?thesis using 1 by simp
  next
    case False
    then have "length (drop 64 xs) mod 64 = 0" using 1(2) by (simp add: le_mod_geq)
    then show ?thesis using 1(1) False by (simp add: blocks.simps [of xs] blocks.simps [of "xs @ ys"])
  qed
qed

definition tail_of :: "'a list \<Rightarrow> 'a list" where
  "tail_of xs = drop (length xs div 64 * 64) xs"

lemma length_tail: "length (tail_of xs) = length xs mod 64"
  by (simp add: tail_of_def minus_div_mult_eq_mod)

lemma split_tail: obtains zs where "xs = zs @ tail_of xs" "length zs mod 64 = 0"
  by (rule that [of "take (length xs div 64 * 64) xs"]) (simp_all add: tail_of_def)

lemma tail_whole: "length zs mod 64 = 0 \<Longrightarrow> tail_of (zs @ us) = tail_of us"
proof -
  assume "length zs mod 64 = 0"
  then obtain k where "length zs = 64 * k" by (auto simp: mod_eq_0_iff_dvd dvd_def)
  then show ?thesis by (simp add: tail_of_def algebra_simps)
qed

lemma blocks_tail:
  fixes xs ys :: "'a list"
  shows "blocks (xs @ ys) = blocks xs @ blocks (tail_of xs @ ys)"
    and "tail_of (xs @ ys) = tail_of (tail_of xs @ ys)"
proof -
  obtain zs where zs: "xs = zs @ tail_of xs" "length zs mod 64 = 0" by (rule split_tail)
  have "blocks (tail_of xs) = []" by (simp add: length_tail)
  then have b: "blocks xs = blocks zs" using blocks_append [OF zs(2), of "tail_of xs"] zs(1) by simp
  have "xs @ ys = zs @ (tail_of xs @ ys)" using zs(1) by (metis append.assoc)
  then show "blocks (xs @ ys) = blocks xs @ blocks (tail_of xs @ ys)" using blocks_append [OF zs(2)] b by metis
  show "tail_of (xs @ ys) = tail_of (tail_of xs @ ys)" using \<open>xs @ ys = zs @ (tail_of xs @ ys)\<close> tail_whole [OF zs(2)] by metis
qed

lemma blocks_drop:
  "i \<le> length xs \<Longrightarrow> i + 64 \<le> length xs \<Longrightarrow> blocks (drop i xs) = take 64 (drop i xs) # blocks (drop (i + 64) xs)"
  by (subst blocks.simps) (simp add: add.commute)

text \<open>The message, a bit, zeros up to eight bytes before the end of a block, and the length in bits.\<close>

definition zero_pad :: "nat \<Rightarrow> u8 list" where
  "zero_pad n = 0x80 # replicate ((119 - n mod 64) mod 64) 0"

lemma length_zero_pad: "(n + length (zero_pad n)) mod 64 = 56"
proof -
  have "(r + Suc ((119 - r) mod 64)) mod 64 = 56" if "r < 64" for r :: nat
  proof (cases "r < 56")
    case True
    then have "(119 - r) mod 64 = 55 - r" by (simp add: le_mod_geq)
    then show ?thesis using True by simp
  next
    case False
    then show ?thesis using that by simp
  qed
  from this [of "n mod 64"] show ?thesis
    using mod_add_left_eq [of n 64 "Suc ((119 - n mod 64) mod 64)"] by (simp add: zero_pad_def)
qed

lemma length_zero_pad_le: "length (zero_pad n) \<le> 64"
  by (simp add: zero_pad_def Suc_le_eq)

section \<open>MD5\<close>

definition md5_table :: "u32 list" where
  "md5_table =
  [0xd76aa478, 0xe8c7b756, 0x242070db, 0xc1bdceee, 0xf57c0faf, 0x4787c62a, 0xa8304613, 0xfd469501,
   0x698098d8, 0x8b44f7af, 0xffff5bb1, 0x895cd7be, 0x6b901122, 0xfd987193, 0xa679438e, 0x49b40821,
   0xf61e2562, 0xc040b340, 0x265e5a51, 0xe9b6c7aa, 0xd62f105d, 0x02441453, 0xd8a1e681, 0xe7d3fbc8,
   0x21e1cde6, 0xc33707d6, 0xf4d50d87, 0x455a14ed, 0xa9e3e905, 0xfcefa3f8, 0x676f02d9, 0x8d2a4c8a,
   0xfffa3942, 0x8771f681, 0x6d9d6122, 0xfde5380c, 0xa4beea44, 0x4bdecfa9, 0xf6bb4b60, 0xbebfbc70,
   0x289b7ec6, 0xeaa127fa, 0xd4ef3085, 0x04881d05, 0xd9d4d039, 0xe6db99e5, 0x1fa27cf8, 0xc4ac5665,
   0xf4292244, 0x432aff97, 0xab9423a7, 0xfc93a039, 0x655b59c3, 0x8f0ccc92, 0xffeff47d, 0x85845dd1,
   0x6fa87e4f, 0xfe2ce6e0, 0xa3014314, 0x4e0811a1, 0xf7537e82, 0xbd3af235, 0x2ad7d2bb, 0xeb86d391]"

definition md5_ref_fun :: "nat \<Rightarrow> u32 \<Rightarrow> u32 \<Rightarrow> u32 \<Rightarrow> u32" where
  "md5_ref_fun i b c d =
     (if i < 16 then (b AND c) OR (NOT b AND d)
      else if i < 32 then (b AND d) OR (c AND NOT d)
      else if i < 48 then b XOR c XOR d
      else c XOR (b OR NOT d))"

definition md5_ref_index :: "nat \<Rightarrow> nat" where
  "md5_ref_index i = (if i < 16 then i else if i < 32 then (5 * i + 1) mod 16 else if i < 48 then (3 * i + 5) mod 16 else 7 * i mod 16)"

definition md5_ref_shift :: "nat \<Rightarrow> nat" where
  "md5_ref_shift i = [[7, 12, 17, 22], [5, 9, 14, 20], [4, 11, 16, 23], [6, 10, 15, 21]] ! (i div 16) ! (i mod 4)"

definition md5_ref_step :: "u8 list \<Rightarrow> nat \<Rightarrow> u32 \<times> u32 \<times> u32 \<times> u32 \<Rightarrow> u32 \<times> u32 \<times> u32 \<times> u32" where
  "md5_ref_step block i = (\<lambda>(a, b, c, d).
     (d, b + word_rotl (md5_ref_shift i) (a + md5_ref_fun i b c d + mem_word (take 4 (drop (4 * md5_ref_index i) block)) + md5_table ! i), b, c))"

definition md5_ref_block :: "u8 list \<Rightarrow> u32 \<times> u32 \<times> u32 \<times> u32 \<Rightarrow> u32 \<times> u32 \<times> u32 \<times> u32" where
  "md5_ref_block block = (\<lambda>(s0, s1, s2, s3). let (a, b, c, d) = fold (md5_ref_step block) [0..<64] (s0, s1, s2, s3)
     in (s0 + a, s1 + b, s2 + c, s3 + d))"

definition md5_ref_bits :: "nat \<Rightarrow> u8 list" where
  "md5_ref_bits n = map (\<lambda>i. of_nat (8 * n div 256 ^ i)) [0..<8]"

definition md5_ref :: "u8 list \<Rightarrow> u8 list" where
  "md5_ref msg =
     (let padded = msg @ zero_pad (length msg) @ md5_ref_bits (length msg);
          (s0, s1, s2, s3) = fold md5_ref_block (blocks padded) (0x67452301, 0xefcdab89, 0x98badcfe, 0x10325476)
      in mem_bytes s0 @ mem_bytes s1 @ mem_bytes s2 @ mem_bytes s3)"

text \<open>The calls of the code follow the formulas of the reference.\<close>

definition md5_fn_of :: "nat \<Rightarrow> md5_fn" where
  "md5_fn_of i = (if i < 16 then FF else if i < 32 then GG else if i < 48 then HH else II)"

definition md5_row :: "nat \<Rightarrow> md5_line" where
  "md5_row i = (md5_fn_of i, (64 - i) mod 4, (65 - i) mod 4, (66 - i) mod 4, (67 - i) mod 4, md5_ref_index i, md5_ref_shift i, md5_table ! i)"

lemma md5_calls_rows: "md5_calls = map md5_row [0..<64]"
  by code_simp

lemma md5_fun_ref: "md5_fun (md5_fn_of i) = md5_ref_fun i"
  by (auto simp: md5_fn_of_def md5_ref_fun_def md5_f_def md5_g_def md5_h_def md5_i_def fun_eq_iff)

lemma rotl32:
  fixes x :: u32
  assumes "0 < n" "n < 32"
  shows "push_bit n x OR drop_bit (32 - n) x = word_rotl n x"
proof (rule bit_word_eqI)
  fix m assume m: "m < LENGTH(32)"
  show "bit (push_bit n x OR drop_bit (32 - n) x) m = bit (word_rotl n x) m"
  proof (cases "n \<le> m")
    case True
    then have "(m + 32 - n) mod 32 = m - n" "\<not> bit x (32 - n + m)"
      using m bit_imp_le_length [of x "32 - n + m"] assms by (auto simp: le_mod_geq)
    then show ?thesis using True m assms by (simp add: bit_simps)
  next
    case False
    then have "(m + 32 - n) mod 32 = 32 - n + m" using m assms by simp
    then show ?thesis using False m assms by (simp add: bit_simps)
  qed
qed

lemma md5_l_rotl: "0 < n \<Longrightarrow> n < 32 \<Longrightarrow> md5_l x n = word_rotl n x"
  by (simp add: md5_l_def rotl32)

lemma md5_shift_bounds: "i < 64 \<Longrightarrow> 0 < md5_ref_shift i \<and> md5_ref_shift i < 32"
proof -
  have "\<forall>i\<in>set [0..<64]. 0 < md5_ref_shift i \<and> md5_ref_shift i < 32" by code_simp
  then show "i < 64 \<Longrightarrow> ?thesis" by simp
qed

text \<open>The registers of the code are those of the reference, which moves them by one place in each step.\<close>

definition md5_view :: "nat \<Rightarrow> u32 list \<Rightarrow> u32 \<times> u32 \<times> u32 \<times> u32" where
  "md5_view i r = (r ! ((64 - i) mod 4), r ! ((65 - i) mod 4), r ! ((66 - i) mod 4), r ! ((67 - i) mod 4))"

lemma length_decode: "length (md5_decode bs) = length bs div 4"
  by (induction bs rule: md5_decode.induct) auto

lemma nth_decode: "4 * k + 4 \<le> length bs \<Longrightarrow> md5_decode bs ! k = mem_word (take 4 (drop (4 * k) bs))"
proof (induction bs arbitrary: k rule: md5_decode.induct)
  case (1 b0 b1 b2 b3 bs)
  show ?case
  proof (cases k)
    case 0
    show ?thesis
      by (rule bit_word_eqI) (auto simp: 0 bit_simps)
  next
    case (Suc j)
    then have "4 * k = Suc (Suc (Suc (Suc (4 * j))))" by simp
    then have "drop (4 * k) (b0 # b1 # b2 # b3 # bs) = drop (4 * j) bs" by simp
    then show ?thesis using 1 Suc by simp
  qed
qed auto

lemma md5_call_view:
  assumes "i < 64" "length r = 4" "x ! md5_ref_index i = mem_word (take 4 (drop (4 * md5_ref_index i) block))"
  shows "md5_view (Suc i) (md5_call x (md5_row i) r) = md5_ref_step block i (md5_view i r)"
proof -
  define k where "k = 63 - i"
  have k: "64 - i = k + 1" "65 - i = k + 2" "66 - i = k + 3" "67 - i = k + 4" "64 - Suc i = k" "65 - Suc i = k + 1" "66 - Suc i = k + 2" "67 - Suc i = k + 3"
    using assms(1) by (auto simp: k_def)
  have l: "md5_l y (md5_ref_shift i) + z = z + word_rotl (md5_ref_shift i) y" for y z
    using md5_l_rotl md5_shift_bounds [OF assms(1)] by simp
  have ix: "(k + 4) mod 4 = k mod 4" "(k + 1) mod 4 < 4" by simp_all
  have neq: "k mod 4 \<noteq> (k + 1) mod 4" "(k + 2) mod 4 \<noteq> (k + 1) mod 4" "(k + 3) mod 4 \<noteq> (k + 1) mod 4" by presburger+
  show ?thesis
    unfolding md5_view_def md5_row_def md5_ref_step_def k ix(1)
    using ix(2) neq assms(2) by (simp only: md5_call.simps prod.case nth_list_update_eq nth_list_update_neq not_sym l assms(3) md5_fun_ref simp_thms)
qed

lemma md5_index_bound: "i < 64 \<Longrightarrow> md5_ref_index i < 16"
  by (simp add: md5_ref_index_def)

lemma length_md5_call [simp]: "length (md5_call x c r) = length r"
  by (cases "(x, c, r)" rule: md5_call.cases) simp

lemma length_md5_fold: "length (fold (md5_call x) cs r) = length r"
  by (induction cs arbitrary: r) auto

lemma md5_fold_view:
  assumes "length block = 64" "length r = 4" "n \<le> 64"
  shows "md5_view n (fold (md5_call (md5_decode block)) (map md5_row [0..<n]) r) = fold (md5_ref_step block) [0..<n] (md5_view 0 r)"
  using assms(3)
proof (induction n)
  case (Suc n)
  have "md5_decode block ! md5_ref_index n = mem_word (take 4 (drop (4 * md5_ref_index n) block))"
    using md5_index_bound [of n] Suc.prems assms(1) by (intro nth_decode) simp
  then show ?case using Suc md5_call_view [of n] assms(2) by (simp add: length_md5_fold del: md5_call.simps)
qed simp

definition quad :: "'a list \<Rightarrow> 'a \<times> 'a \<times> 'a \<times> 'a" where
  "quad r = (r ! 0, r ! 1, r ! 2, r ! 3)"

lemma md5_view_ends: "md5_view 0 r = quad r" "md5_view 64 r = quad r"
  by (simp_all add: md5_view_def quad_def)

lemma md5_transform_ref:
  assumes "length block = 64" "length state = 4"
  shows "quad (md5_transform state block) = md5_ref_block block (quad state)" "length (md5_transform state block) = 4"
proof -
  have "quad (fold (md5_call (md5_decode block)) md5_calls state) = fold (md5_ref_step block) [0..<64] (quad state)"
    using md5_fold_view [OF assms, of 64] unfolding md5_calls_rows md5_view_ends by simp
  note eq = this [symmetric]
  show "quad (md5_transform state block) = md5_ref_block block (quad state)"
    unfolding md5_ref_block_def using eq by (simp add: quad_def md5_transform_def Let_def del: upt.simps)
  show "length (md5_transform state block) = 4" by (simp add: md5_transform_def Let_def)
qed

definition md5_fold :: "u8 list \<Rightarrow> u32 list" where
  "md5_fold msg = fold (\<lambda>b s. md5_transform s b) (blocks msg) (md_state md5_init)"

lemma length_blocks: "b \<in> set (blocks xs) \<Longrightarrow> length b = 64"
  by (induction xs rule: blocks.induct) (subst (asm) (2) blocks.simps, auto split: if_splits)

lemma fold_transform_ref:
  "(\<And>b. b \<in> set bs \<Longrightarrow> length b = 64) \<Longrightarrow> length s = 4 \<Longrightarrow>
   quad (fold (\<lambda>b s. md5_transform s b) bs s) = fold md5_ref_block bs (quad s) \<and> length (fold (\<lambda>b s. md5_transform s b) bs s) = 4"
  by (induction bs arbitrary: s) (auto simp: md5_transform_ref)

lemma md5_fold_ref: "quad (md5_fold msg) = fold md5_ref_block (blocks msg) (0x67452301, 0xefcdab89, 0x98badcfe, 0x10325476)"
  "length (md5_fold msg) = 4"
  using fold_transform_ref [of "blocks msg" "md_state md5_init"] length_blocks [of _ msg] by (simp_all add: md5_fold_def md5_init_def quad_def)

section \<open>The streaming hasher\<close>

lemma word_of_nat_le_64: "n + 64 < 2 ^ 32 \<Longrightarrow> i \<le> n \<Longrightarrow> (of_nat i + 64 :: u32) \<le> of_nat n \<longleftrightarrow> i + 64 \<le> n"
proof -
  assume n: "n + 64 < 2 ^ 32" "i \<le> n"
  have "(of_nat i + 64 :: u32) = of_nat (i + 64)" by simp
  moreover have small: "unat (of_nat k :: u32) = k" if "k < 2 ^ 32" for k using that by (simp add: unat_of_nat)
  have "unat (of_nat (i + 64) :: u32) = i + 64" "unat (of_nat n :: u32) = n" using n by (intro small; simp)+
  ultimately show ?thesis by (metis word_le_nat_alt)
qed

lemma md5_blocks_spec:
  "length input + 64 < 2 ^ 32 \<Longrightarrow> i \<le> length input \<Longrightarrow> md5_blocks state input i =
     Some (fold (\<lambda>b s. md5_transform s b) (blocks (drop i input)) state, length input - (length input - i) mod 64)"
proof (induction state input i rule: md5_blocks.induct)
  case (1 state input i)
  have le: "(of_nat i + 64 :: u32) \<le> of_nat (length input) \<longleftrightarrow> i + 64 \<le> length input"
    by (rule word_of_nat_le_64 [OF 1(2,3)])
  show ?case
  proof (cases "i + 64 \<le> length input")
    case True
    then have "(length input - (i + 64)) mod 64 = (length input - i) mod 64" by (simp add: le_mod_geq)
    then show ?thesis using 1 True le by (simp add: blocks_drop md5_blocks.simps [of _ _ i])
  next
    case False
    then show ?thesis using 1 le by (simp add: md5_blocks.simps [of _ _ i])
  qed
qed

definition bit_count :: "md5_hasher \<Rightarrow> nat" where
  "bit_count m = unat (count0 m) + 2 ^ 32 * unat (count1 m)"

definition md5_repr :: "md5_hasher \<Rightarrow> u8 list \<Rightarrow> bool" where
  "md5_repr m msg \<longleftrightarrow> \<not> finalized m \<and> length (md_buffer m) = 64 \<and> md_state m = md5_fold msg
     \<and> bit_count m = 8 * length msg mod 2 ^ 64 \<and> take (length msg mod 64) (md_buffer m) = tail_of msg"

text \<open>The two words of the counter are one counter of 64 bits.\<close>

lemma mod_square: "0 < M \<Longrightarrow> (A + M * B) mod (M * M) = A mod M + M * ((A div M + B) mod M)" for A B M :: nat
  by (simp add: mod_mult2_eq add.commute)

lemma count_step:
  fixes c0 c1 :: u32
  assumes "l < 2 ^ 32"
  defines "d \<equiv> push_bit 3 (of_nat l :: u32)"
  shows "unat (c0 + d) + 2 ^ 32 * unat ((if c0 + d < d then c1 + 1 else c1) + drop_bit 29 (of_nat l))
    = (unat c0 + 2 ^ 32 * unat c1 + 8 * l) mod 2 ^ 64"
proof -
  have d: "unat d = 8 * l mod 2 ^ 32" unfolding d_def by (simp add: push_bit_eq_mult unat_word_ariths unat_of_nat mod_simps mult.commute)
  have h: "unat (drop_bit 29 (of_nat l) :: u32) = l div 2 ^ 29" using assms(1) by (simp add: drop_bit_eq_div unat_div unat_of_nat)
  have l: "8 * l = unat d + 2 ^ 32 * (l div 2 ^ 29)"
    unfolding d using mult_div_mod_eq [of "2 ^ 32" "8 * l"] by (simp add: div_mult2_eq [symmetric])
  have s: "unat (c0 + d) = (unat c0 + unat d) mod 2 ^ 32" by (simp add: unat_word_ariths)
  have carry: "(if c0 + d < d then c1 + 1 else c1) = c1 + of_nat ((unat c0 + unat d) div 2 ^ 32)"
  proof (cases "unat c0 + unat d < 2 ^ 32")
    case True
    then show ?thesis using s by (simp add: word_less_nat_alt)
  next
    case False
    have "unat c0 < 2 ^ 32" "unat d < 2 ^ 32" using unsigned_less [of c0, where 'a = nat] unsigned_less [of d, where 'a = nat] by simp_all
    then have "(unat c0 + unat d) div 2 ^ 32 = 1" "unat (c0 + d) = unat c0 + unat d - 2 ^ 32" "unat c0 + unat d - 2 ^ 32 < unat d"
      using False s by (auto simp: le_mod_geq le_div_geq)
    then show ?thesis by (simp add: word_less_nat_alt)
  qed
  have u: "unat (c1 + of_nat ((unat c0 + unat d) div 2 ^ 32) + drop_bit 29 (of_nat l))
      = (unat c1 + (unat c0 + unat d) div 2 ^ 32 + l div 2 ^ 29) mod 2 ^ 32"
    by (simp add: unat_word_ariths unat_of_nat h mod_simps del: drop_bit_eq_div)
  have "unat c0 + 2 ^ 32 * unat c1 + 8 * l = unat c0 + unat d + 2 ^ 32 * (unat c1 + l div 2 ^ 29)" using l by (simp add: algebra_simps)
  then have "(unat c0 + 2 ^ 32 * unat c1 + 8 * l) mod (2 ^ 32 * 2 ^ 32)
      = (unat c0 + unat d) mod 2 ^ 32 + 2 ^ 32 * (((unat c0 + unat d) div 2 ^ 32 + (unat c1 + l div 2 ^ 29)) mod 2 ^ 32)"
    by (simp only: mod_square zero_less_power zero_less_numeral)
  moreover have "(2 :: nat) ^ 32 * 2 ^ 32 = 2 ^ 64" by simp
  ultimately show ?thesis unfolding carry u s by (simp only: add.commute add.left_commute add.assoc)
qed

lemma count_index: "bit_count m = 8 * n mod 2 ^ 64 \<Longrightarrow> unat (count0 m div 8 mod 64) = n mod 64"
proof -
  assume b: "bit_count m = 8 * n mod 2 ^ 64"
  have "unat (count0 m) = bit_count m mod 2 ^ 32" using unsigned_less [of "count0 m", where 'a = nat] by (simp add: bit_count_def)
  also have "\<dots> = 8 * n mod 2 ^ 32" unfolding b by (simp add: mod_mod_cancel)
  also have "\<dots> = 8 * (n mod 2 ^ 29)" by (simp add: mult_mod_right)
  finally have "unat (count0 m) div 8 mod 64 = n mod 2 ^ 29 mod 64" by simp
  then show ?thesis by (simp add: unat_div unat_mod mod_mod_cancel)
qed

lemma md5_repr_init: "md5_repr md5_init []"
  by (simp add: md5_repr_def md5_init_def md5_fold_def bit_count_def tail_of_def)

lemma length_write_at [simp]: "i + length xs \<le> length buf \<Longrightarrow> length (write_at buf i xs) = length buf"
  by (simp add: write_at_def)

lemma take_write_at: "i \<le> length buf \<Longrightarrow> take (i + length xs) (write_at buf i xs) = take i buf @ xs"
  by (simp add: write_at_def)

lemma md5_fold_append: "md5_fold (msg @ xs) = fold (\<lambda>b s. md5_transform s b) (blocks (tail_of msg @ xs)) (md5_fold msg)"
  by (simp add: md5_fold_def blocks_tail(1) [of msg xs])

lemma md5_update_repr:
  assumes rep: "md5_repr m msg" and small: "length input + 64 < 2 ^ 32"
  shows "\<exists>g. md5_update m input = Some g \<and> md5_repr g (msg @ input)"
proof -
  define index where "index = length msg mod 64"
  define c0 where "c0 = count0 m + push_bit 3 (of_nat (length input))"
  define c1 where "c1 = (if c0 < push_bit 3 (of_nat (length input)) then count1 m + 1 else count1 m) + drop_bit 29 (of_nat (length input))"
  have i: "unat (count0 m div 8 mod 64) = index" "index < 64"
    using rep count_index by (simp_all add: md5_repr_def index_def)
  have cnt: "unat c0 + 2 ^ 32 * unat c1 = 8 * length (msg @ input) mod 2 ^ 64"
  proof -
    have "unat c0 + 2 ^ 32 * unat c1 = (bit_count m + 8 * length input) mod 2 ^ 64"
      unfolding c1_def c0_def bit_count_def by (rule count_step) (use small in simp)
    also have "\<dots> = (8 * length msg + 8 * length input) mod 2 ^ 64"
      using rep unfolding md5_repr_def by (metis mod_add_left_eq)
    finally show ?thesis by simp
  qed
  have buf: "length (md_buffer m) = 64" "take index (md_buffer m) = tail_of msg" "\<not> finalized m" "md_state m = md5_fold msg"
    using rep by (simp_all add: md5_repr_def index_def)
  have tl: "length (tail_of msg) = index" by (simp add: length_tail index_def)
  show ?thesis
  proof (cases "64 - index \<le> length input")
    case False
    let ?g = "m\<lparr>count0 := c0, count1 := c1, md_buffer := write_at (md_buffer m) index input\<rparr>"
    have "md5_update m input = Some ?g" using False i by (simp add: md5_update_def Let_def c0_def c1_def)
    moreover have short: "length (tail_of msg @ input) < 64" using False tl by simp
    have "tail_of (msg @ input) = tail_of msg @ input"
      using blocks_tail(2) [of msg input] short by (simp add: tail_of_def [of "tail_of msg @ input"])
    moreover have "length (msg @ input) mod 64 = index + length input"
      using length_tail [of "msg @ input"] calculation(2) tl by simp
    ultimately show ?thesis using buf cnt short i(2) take_write_at [of index "md_buffer m" input]
      by (auto simp: md5_repr_def bit_count_def md5_fold_append)
  next
    case True
    define chunk where "chunk = 64 - index"
    let ?b = "write_at (md_buffer m) index (take chunk input)"
    have lb: "length ?b = 64" using True buf i(2) by (simp add: chunk_def)
    have b: "?b = tail_of msg @ take chunk input"
      using take_write_at [of index "md_buffer m" "take chunk input"] buf i(2) True lb by (simp add: chunk_def)
    have bl: "blocks (tail_of msg @ input) = ?b # blocks (drop chunk input)"
      using blocks_first [OF lb, of "drop chunk input"] unfolding b by simp
    have run: "md5_blocks (md5_transform (md_state m) ?b) input chunk
        = Some (md5_fold (msg @ input), length input - (length input - chunk) mod 64)"
      using md5_blocks_spec [OF small, of chunk] True buf(4) by (simp add: chunk_def md5_fold_append bl [unfolded chunk_def])
    let ?rest = "drop (length input - (length input - chunk) mod 64) input"
    let ?g = "m\<lparr>count0 := c0, count1 := c1, md_state := md5_fold (msg @ input), md_buffer := write_at ?b 0 ?rest\<rparr>"
    have "md5_update m input = Some ?g" using True i run by (simp add: md5_update_def Let_def c0_def c1_def chunk_def)
    moreover have "(length msg + chunk) mod 64 = 0"
      using i(2) mod_add_left_eq [of "length msg" 64 chunk] by (simp add: chunk_def index_def)
    then have "length (msg @ take chunk input) mod 64 = 0" using True by (simp add: chunk_def)
    then have "tail_of (msg @ input) = tail_of (drop chunk input)"
      using tail_whole [of "msg @ take chunk input" "drop chunk input"] by simp
    then have tail: "tail_of (msg @ input) = ?rest"
      using True by (simp add: tail_of_def chunk_def minus_mod_eq_div_mult [symmetric] add.commute)
    then have "length (msg @ input) mod 64 = length ?rest" using length_tail [of "msg @ input"] by simp
    moreover have "length ?rest \<le> 64" by simp
    moreover have "take (length ?rest) (write_at ?b 0 ?rest) = ?rest" by (simp add: write_at_def)
    ultimately show ?thesis using buf(3) cnt lb tail by (auto simp: md5_repr_def bit_count_def)
  qed
qed

interpretation md5_stream: stream_consumer md5_init md5_update md5_repr "\<lambda>c. length c + 64 < 2 ^ 32"
  by unfold_locales (use md5_repr_init md5_update_repr in auto)

section \<open>The end of a message\<close>

lemma md5_encode_bytes: "md5_encode (w # ws) = mem_bytes w @ md5_encode ws"
proof -
  have mask: "(0xff :: u32) = mask 8" by (simp add: mask_eq_exp_minus_1)
  have and_byte: "ucast (x AND 0xff) = (ucast x :: u8)" for x :: u32
    unfolding mask by (rule bit_word_eqI) (auto simp: bit_simps)
  have "[0..<4] = [0, 1, 2, 3::nat]" by (simp add: upt_rec)
  then show ?thesis by (simp add: mem_bytes_def and_byte)
qed

declare md5_encode.simps(2) [simp del]

lemma mod_div_byte: "8 \<le> j \<Longrightarrow> n mod 2 ^ (k + j) div 2 ^ k mod 2 ^ 8 = n div 2 ^ k mod (2 ^ 8 :: nat)"
proof -
  assume "8 \<le> j"
  have "n mod 2 ^ (k + j) div 2 ^ k = n div 2 ^ k mod 2 ^ j" by (simp add: power_add mod_mult2_eq)
  then show ?thesis using mod_mod_cancel [OF le_imp_power_dvd [OF \<open>8 \<le> j\<close>, of "2 :: nat"]] by simp
qed

lemma byte_of_word: "ucast (drop_bit k (c::u32)) = (of_nat (unat c div 2 ^ k) :: u8)"
proof -
  have "unat (drop_bit k c) = unat c div 2 ^ k" unfolding unat_drop_bit_eq unfolding drop_bit_eq_div ..
  then show ?thesis by (simp add: word_unat_eq_iff unsigned_ucast_eq take_bit_eq_mod unat_of_nat)
qed

lemma of_nat_byte_eqI: "a mod 2 ^ 8 = b mod 2 ^ 8 \<Longrightarrow> (of_nat a :: u8) = of_nat b"
  by (simp add: word_unat_eq_iff unat_of_nat)

lemma md5_bits:
  assumes "bit_count m = 8 * n mod 2 ^ 64"
  shows "md5_encode [count0 m, count1 m] = md5_ref_bits n"
proof -
  have c1: "unat (count1 m) = 8 * n mod 2 ^ 64 div 2 ^ 32"
    using assms unsigned_less [of "count0 m", where 'a = nat] by (simp add: bit_count_def)
  have c0: "unat (count0 m) = 8 * n mod 2 ^ 32"
  proof -
    have "unat (count0 m) = bit_count m mod 2 ^ 32" using unsigned_less [of "count0 m", where 'a = nat] by (simp add: bit_count_def)
    then show ?thesis unfolding assms by (simp add: mod_mod_cancel)
  qed
  have "ucast (drop_bit (8 * i) (count0 m)) = (of_nat (8 * n div 256 ^ i) :: u8)" if "i < 4" for i
  proof -
    have "8 * n mod 2 ^ (8 * i + (32 - 8 * i)) div 2 ^ (8 * i) mod 2 ^ 8 = 8 * n div 2 ^ (8 * i) mod 2 ^ 8"
      by (rule mod_div_byte) (use that in simp)
    then show ?thesis unfolding byte_of_word c0 using that by (intro of_nat_byte_eqI) (simp add: power_mult)
  qed
  moreover have "ucast (drop_bit (8 * i) (count1 m)) = (of_nat (8 * n div 256 ^ (4 + i)) :: u8)" if "i < 4" for i
  proof -
    have "8 * n mod 2 ^ (32 + 8 * i + (32 - 8 * i)) div 2 ^ (32 + 8 * i) mod 2 ^ 8 = 8 * n div 2 ^ (32 + 8 * i) mod 2 ^ 8"
      by (rule mod_div_byte) (use that in simp)
    moreover have "(2 :: nat) ^ (32 + 8 * i) = 256 ^ (4 + i)" by (simp add: power_add power_mult)
    ultimately show ?thesis unfolding byte_of_word c1 using that
      by (intro of_nat_byte_eqI) (simp add: div_mult2_eq [symmetric] power_add power_mult)
  qed
  moreover have "[0..<8] = [0..<4] @ map (\<lambda>i. 4 + i) [0..<4]" by (simp add: upt_rec)
  ultimately show ?thesis by (simp add: md5_encode_bytes mem_bytes_def md5_ref_bits_def del: upt.simps upt_rec_numeral)
qed

lemma md5_pad: "take (if n mod 64 < 56 then 56 - n mod 64 else 120 - n mod 64) md5_padding = zero_pad n"
proof -
  have "n mod 64 < 64" by simp
  then show ?thesis by (auto simp: md5_padding_def zero_pad_def le_mod_geq take_Cons' min_def)
qed

lemma md5_digest:
  assumes "length s = 4"
  shows "md5_encode s = (case quad s of (s0, s1, s2, s3) \<Rightarrow> mem_bytes s0 @ mem_bytes s1 @ mem_bytes s2 @ mem_bytes s3)"
proof -
  obtain s0 s1 s2 s3 where "s = [s0, s1, s2, s3]" using assms by (auto simp: length_Suc_conv numeral_eq_Suc)
  then show ?thesis by (simp add: md5_encode_bytes quad_def)
qed

lemma md5_finalize_ok:
  assumes rep: "md5_repr m msg"
  shows "\<exists>g. md5_finalize m = Some g \<and> finalized g \<and> digest g = md5_ref msg"
proof -
  have ix: "unat (count0 m div 8 mod 64) = length msg mod 64" and bits: "md5_encode [count0 m, count1 m] = md5_ref_bits (length msg)"
    and fin: "\<not> finalized m"
    using rep count_index md5_bits by (auto simp: md5_repr_def)
  obtain m1 where m1: "md5_update m (zero_pad (length msg)) = Some m1" "md5_repr m1 (msg @ zero_pad (length msg))"
    using md5_update_repr [OF rep, of "zero_pad (length msg)"] length_zero_pad_le [of "length msg"] by auto
  obtain m2 where m2: "md5_update m1 (md5_ref_bits (length msg)) = Some m2"
    "md5_repr m2 ((msg @ zero_pad (length msg)) @ md5_ref_bits (length msg))"
    using md5_update_repr [OF m1(2), of "md5_ref_bits (length msg)"] by (auto simp: md5_ref_bits_def)
  have "md_state m2 = md5_fold (msg @ zero_pad (length msg) @ md5_ref_bits (length msg))" using m2(2) by (simp add: md5_repr_def)
  then have "md5_encode (md_state m2) = md5_ref msg" by (simp add: md5_digest md5_fold_ref md5_ref_def Let_def)
  then show ?thesis using fin m1(1) m2(1) by (simp add: md5_finalize_def Let_def ix bits md5_pad)
qed

end
