(* ===== verification/Hash_Sha1.thy ===== *)
theory Hash_Sha1
  imports Hash_Laws
begin

text \<open>
  SHA-1 as FIPS 180 defines it, and that \<open>sha1_compute\<close> computes it whatever its array holds at first; the
  cyclic redundancy checks as registers that take one bit at a time.
\<close>

section \<open>Reference\<close>

function sha1_ref_word :: "u8 list \<Rightarrow> nat \<Rightarrow> u32" where
  "sha1_ref_word block t =
     (if t < 16 then mem_word (rev (take 4 (drop (4 * t) block)))
      else word_rotl 1 (sha1_ref_word block (t - 3) XOR sha1_ref_word block (t - 8) XOR sha1_ref_word block (t - 14) XOR sha1_ref_word block (t - 16)))"
  by pat_completeness auto
termination by (relation "measure snd") auto

declare sha1_ref_word.simps [simp del]

definition sha1_ref_fun :: "nat \<Rightarrow> u32 \<Rightarrow> u32 \<Rightarrow> u32 \<Rightarrow> u32" where
  "sha1_ref_fun t b c d =
     (if t < 20 then (b AND c) OR (NOT b AND d)
      else if t < 40 then b XOR c XOR d
      else if t < 60 then (b AND c) OR (b AND d) OR (c AND d)
      else b XOR c XOR d)"

definition sha1_ref_const :: "nat \<Rightarrow> u32" where
  "sha1_ref_const t = (if t < 20 then 0x5A827999 else if t < 40 then 0x6ED9EBA1 else if t < 60 then 0x8F1BBCDC else 0xCA62C1D6)"

definition sha1_ref_step :: "u8 list \<Rightarrow> nat \<Rightarrow> sha1_regs \<Rightarrow> sha1_regs" where
  "sha1_ref_step block t = (\<lambda>(a, b, c, d, e).
     (word_rotl 5 a + sha1_ref_fun t b c d + e + sha1_ref_const t + sha1_ref_word block t, a, word_rotl 30 b, c, d))"

definition sha1_ref_block :: "u8 list \<Rightarrow> sha1_regs \<Rightarrow> sha1_regs" where
  "sha1_ref_block block = (\<lambda>(h0, h1, h2, h3, h4).
     let (a, b, c, d, e) = fold (sha1_ref_step block) [0..<80] (h0, h1, h2, h3, h4)
     in (h0 + a, h1 + b, h2 + c, h3 + d, h4 + e))"

definition sha1_ref :: "u8 list \<Rightarrow> u8 list" where
  "sha1_ref msg =
     (let padded = msg @ zero_pad (length msg) @ rev (md5_ref_bits (length msg));
          (h0, h1, h2, h3, h4) = fold sha1_ref_block (blocks padded) (0x67452301, 0xEFCDAB89, 0x98BADCFE, 0x10325476, 0xC3D2E1F0)
      in concat (map (\<lambda>h. rev (mem_bytes h)) [h0, h1, h2, h3, h4]))"

section \<open>One block\<close>

lemma fold_upt_invariant:
  assumes "P lo s" "lo \<le> hi" "\<And>r s. lo \<le> r \<Longrightarrow> r < hi \<Longrightarrow> P r s \<Longrightarrow> P (Suc r) (f r s)"
  shows "P hi (fold f [lo..<hi] s)"
  using assms(2,3)
proof (induction hi)
  case (Suc hi)
  show ?case
  proof (cases "lo \<le> hi")
    case True
    then show ?thesis using Suc.IH Suc.prems(2) by simp
  next
    case False
    then show ?thesis using assms(1) Suc.prems(1) by (simp add: le_Suc_eq)
  qed
qed (use assms(1) in simp)

definition sha1_holds :: "u32 list \<Rightarrow> u8 list \<Rightarrow> bool" where
  "sha1_holds w block \<longleftrightarrow> length w = 80 \<and> length block = 64 \<and> (\<forall>k<16. w ! k = sha1_word block (4 * k))"

lemma mem_word_four: "mem_word (rev [a, b, c, d]) = ucast d OR push_bit 8 (ucast c) OR push_bit 16 (ucast b) OR push_bit 24 (ucast a :: u32)"
  by (rule bit_word_eqI) (auto simp: bit_simps)

lemma sha1_word_ref: "p + 4 \<le> length bs \<Longrightarrow> sha1_word bs p = mem_word (rev (take 4 (drop p bs)))"
proof -
  assume "p + 4 \<le> length bs"
  then have "take 4 (drop p bs) = [bs ! p, bs ! (p + 1), bs ! (p + 2), bs ! (p + 3)]"
    by (intro nth_equalityI) (auto simp: less_Suc_eq numeral_eq_Suc)
  then show ?thesis unfolding sha1_word_def by (simp only: mem_word_four)
qed

lemma sha1_holds_ref: "sha1_holds w block \<Longrightarrow> k < 16 \<Longrightarrow> w ! k = sha1_ref_word block k"
  by (simp add: sha1_holds_def sha1_word_ref sha1_ref_word.simps)

definition sha1_inv :: "u8 list \<Rightarrow> sha1_regs \<Rightarrow> nat \<Rightarrow> u32 list \<times> sha1_regs \<Rightarrow> bool" where
  "sha1_inv block regs n s \<longleftrightarrow> length (fst s) = 80 \<and> (\<forall>k<max n 16. fst s ! k = sha1_ref_word block k)
     \<and> snd s = fold (sha1_ref_step block) [0..<n] regs"

lemma sha1_make_step:
  assumes "w ! r = sha1_ref_word block r" "f = sha1_ref_fun r" "v = sha1_ref_const r"
  shows "sha1_make f v r w regs = sha1_ref_step block r regs"
  using assms rotl32 [of 5] rotl32 [of 30] by (cases regs) (simp add: sha1_make_def sha1_ref_step_def sha1_roll_def)

lemma sha1_short_inv: "r < 16 \<Longrightarrow> sha1_inv block regs r s \<Longrightarrow> sha1_inv block regs (Suc r) (sha1_short_round sha1_choose 0x5a827999 r s)"
proof -
  assume r: "r < 16" and inv: "sha1_inv block regs r s"
  have "sha1_choose = sha1_ref_fun r" "0x5a827999 = sha1_ref_const r" using r by (auto simp: sha1_choose_def sha1_ref_fun_def sha1_ref_const_def fun_eq_iff)
  moreover have "fst s ! r = sha1_ref_word block r" using r inv by (simp add: sha1_inv_def)
  ultimately show ?thesis
    using r inv sha1_make_step [of "fst s" r block] by (cases s) (auto simp: sha1_inv_def sha1_short_round_def)
qed

lemma sha1_round_inv:
  assumes r: "16 \<le> r" "r < 80" and inv: "sha1_inv block regs r s" and f: "f = sha1_ref_fun r" "v = sha1_ref_const r"
  shows "sha1_inv block regs (Suc r) (sha1_round f v r s)"
proof -
  obtain w g where s: "s = (w, g)" by (cases s)
  define w' where "w' = w[r := sha1_roll (w ! (r - 3) XOR w ! (r - 8) XOR w ! (r - 14) XOR w ! (r - 16)) 1]"
  have w: "length w = 80" "\<And>k. k < r \<Longrightarrow> w ! k = sha1_ref_word block k" using inv r s by (auto simp: sha1_inv_def)
  have "sha1_roll x 1 = word_rotl 1 x" for x using rotl32 [of 1 x] by (simp add: sha1_roll_def)
  then have "w' ! r = sha1_ref_word block r" using r w by (simp add: w'_def sha1_ref_word.simps [of block r])
  moreover have "w' ! k = w ! k" if "k < r" for k using that by (simp add: w'_def)
  moreover have "sha1_round f v r s = (w', sha1_make f v r w' g)" by (simp add: sha1_round_def s w'_def Let_def)
  ultimately show ?thesis
    using inv r w sha1_make_step [of w' r block f v g] f s by (auto simp: sha1_inv_def w'_def less_Suc_eq)
qed

lemma sha1_block_ref:
  assumes "sha1_holds w block"
  obtains w' where "sha1_compute_hash_block (h, w) = (sha1_ref_block block h, w')" "length w' = 80"
proof -
  obtain h0 h1 h2 h3 h4 where h: "h = (h0, h1, h2, h3, h4)" by (cases h)
  let ?s0 = "fold (sha1_short_round sha1_choose 0x5a827999) [0..<16] (w, h)"
  let ?s1 = "fold (sha1_round sha1_choose 0x5a827999) [16..<20] ?s0"
  let ?s2 = "fold (sha1_round sha1_parity 0x6ed9eba1) [20..<40] ?s1"
  let ?s3 = "fold (sha1_round sha1_majority 0x8f1bbcdc) [40..<60] ?s2"
  let ?s4 = "fold (sha1_round sha1_parity 0xca62c1d6) [60..<80] ?s3"
  have f: "16 \<le> r \<Longrightarrow> r < 20 \<Longrightarrow> sha1_choose = sha1_ref_fun r" "20 \<le> r \<Longrightarrow> r < 40 \<Longrightarrow> sha1_parity = sha1_ref_fun r"
    "40 \<le> r \<Longrightarrow> r < 60 \<Longrightarrow> sha1_majority = sha1_ref_fun r" "60 \<le> r \<Longrightarrow> r < 80 \<Longrightarrow> sha1_parity = sha1_ref_fun r" for r
    by (auto simp: sha1_choose_def sha1_parity_def sha1_majority_def sha1_ref_fun_def fun_eq_iff)
  have v: "16 \<le> r \<Longrightarrow> r < 20 \<Longrightarrow> 0x5a827999 = sha1_ref_const r" "20 \<le> r \<Longrightarrow> r < 40 \<Longrightarrow> 0x6ed9eba1 = sha1_ref_const r"
    "40 \<le> r \<Longrightarrow> r < 60 \<Longrightarrow> 0x8f1bbcdc = sha1_ref_const r" "60 \<le> r \<Longrightarrow> r < 80 \<Longrightarrow> 0xca62c1d6 = sha1_ref_const r" for r
    by (auto simp: sha1_ref_const_def)
  have "sha1_inv block h 0 (w, h)" using assms sha1_holds_ref [OF assms] by (simp add: sha1_inv_def sha1_holds_def)
  then have "sha1_inv block h 16 ?s0" by (rule fold_upt_invariant) (auto intro: sha1_short_inv)
  then have "sha1_inv block h 20 ?s1" by (rule fold_upt_invariant) (auto intro!: sha1_round_inv f(1) v(1))
  then have "sha1_inv block h 40 ?s2" by (rule fold_upt_invariant) (auto intro!: sha1_round_inv f(2) v(2))
  then have "sha1_inv block h 60 ?s3" by (rule fold_upt_invariant) (auto intro!: sha1_round_inv f(3) v(3))
  then have "sha1_inv block h 80 ?s4" by (rule fold_upt_invariant) (auto intro!: sha1_round_inv f(4) v(4))
  then have s: "length (fst ?s4) = 80" "?s4 = (fst ?s4, fold (sha1_ref_step block) [0..<80] h)" by (simp_all add: sha1_inv_def prod_eq_iff)
  have "sha1_compute_hash_block (h, w) = (sha1_ref_block block h, fst ?s4)"
    unfolding sha1_compute_hash_block_def h prod.case Let_def
    by (subst s(2) [unfolded h]) (simp add: sha1_ref_block_def Let_def split: prod.splits del: upt.simps upt_rec_numeral)
  then show ?thesis using that s(1) by blast
qed

section \<open>A message\<close>

lemma sha1_word_take: "p + 4 \<le> 64 \<Longrightarrow> q + 64 \<le> length bs \<Longrightarrow> sha1_word (take 64 (drop q bs)) p = sha1_word bs (q + p)"
  by (simp add: sha1_word_def add.assoc)

lemma sha1_load_holds:
  assumes "length w = 80" "cb + 64 \<le> length bs"
  shows "sha1_holds (sha1_load bs cb w) (take 64 (drop cb bs))"
proof -
  define P where "P = (\<lambda>n v. length v = 80 \<and> (\<forall>k<n. v ! k = sha1_word bs (cb + 4 * k)))"
  have "P 16 (fold (\<lambda>i w. w[i := sha1_word bs (cb + 4 * i)]) [0..<16] w)"
    by (rule fold_upt_invariant) (use assms(1) in \<open>auto simp: P_def nth_list_update less_Suc_eq\<close>)
  then show ?thesis using assms(2) by (simp add: sha1_holds_def sha1_load_def P_def sha1_word_take)
qed

lemma sha1_full_blocks_spec:
  "length w = 80 \<Longrightarrow> cb \<le> length bs \<Longrightarrow> \<exists>v. sha1_full_blocks bs cb (h, w) =
     (length bs - (length bs - cb) mod 64, fold sha1_ref_block (blocks (drop cb bs)) h, v) \<and> length v = 80"
proof (induction bs cb "(h, w)" arbitrary: h w rule: sha1_full_blocks.induct)
  case (1 bs cb h w)
  show ?case
  proof (cases "cb + 64 \<le> length bs")
    case True
    obtain v where v: "sha1_compute_hash_block (h, sha1_load bs cb w) = (sha1_ref_block (take 64 (drop cb bs)) h, v)" "length v = 80"
      by (rule sha1_block_ref [OF sha1_load_holds [OF 1(2) True]])
    have "(length bs - (cb + 64)) mod 64 = (length bs - cb) mod 64" using True by (simp add: le_mod_geq)
    then show ?thesis using 1(1) [OF True v(1)] v True 1(3) by (auto simp: blocks_drop)
  next
    case False
    then show ?thesis using 1(2,3) by simp
  qed
qed

text \<open>Setting a byte of the block by an or with its word.\<close>

definition word4 :: "u8 \<Rightarrow> u8 \<Rightarrow> u8 \<Rightarrow> u8 \<Rightarrow> u32" where
  "word4 a b c d = ucast d OR push_bit 8 (ucast c) OR push_bit 16 (ucast b) OR push_bit 24 (ucast a)"

lemma sha1_word4: "sha1_word bs p = word4 (bs ! p) (bs ! (p + 1)) (bs ! (p + 2)) (bs ! (p + 3))"
  by (simp add: sha1_word_def word4_def)

lemma word4_or:
  "word4 0 b c d OR push_bit 24 (ucast x) = word4 x b c d" "word4 a 0 c d OR push_bit 16 (ucast x) = word4 a x c d"
  "word4 a b 0 d OR push_bit 8 (ucast x) = word4 a b x d" "word4 a b c 0 OR ucast x = word4 a b c x"
  by (simp_all add: word4_def or.assoc or.commute or.left_commute)

lemma sha1_or_word:
  assumes "p div 4 = k" "p < length bs" "bs ! p = 0" "4 * k + 3 < length bs"
  shows "sha1_word (bs[p := b]) (4 * k) = sha1_word bs (4 * k) OR push_bit ((3 - p mod 4) * 8) (ucast b)"
proof -
  have "p = 4 * k + p mod 4" "p mod 4 < 4" using assms(1) by auto
  then consider "p = 4 * k" "p mod 4 = 0" | "p = 4 * k + 1" "p mod 4 = 1" | "p = 4 * k + 2" "p mod 4 = 2" | "p = 4 * k + 3" "p mod 4 = 3"
    by linarith
  then show ?thesis using assms(3,4) by cases (simp_all add: sha1_word4 word4_or)
qed

lemma sha1_or_holds:
  assumes "sha1_holds w bs" "p < 64" "bs ! p = 0"
  shows "sha1_holds (sha1_or w p b) (bs[p := b])"
proof -
  have l: "length bs = 64" "length w = 80" and w: "\<And>k. k < 16 \<Longrightarrow> w ! k = sha1_word bs (4 * k)" using assms(1) by (auto simp: sha1_holds_def)
  have "sha1_word (bs[p := b]) (4 * k) = sha1_or w p b ! k" if k: "k < 16" for k
  proof (cases "p div 4 = k")
    case True
    then show ?thesis using sha1_or_word [OF True, of bs b] assms(2,3) l w [OF k] k by (simp add: sha1_or_def)
  next
    case False
    then have "p \<noteq> 4 * k" "p \<noteq> 4 * k + 1" "p \<noteq> 4 * k + 2" "p \<noteq> 4 * k + 3" by auto
    then show ?thesis using w [OF k] False by (simp add: sha1_word4 sha1_or_def)
  qed
  then show ?thesis using l by (simp add: sha1_holds_def sha1_or_def)
qed

lemma sha1_collapse_holds: "length w = 80 \<Longrightarrow> sha1_holds (sha1_collapse_buffer_block w) (replicate 64 0)"
  by (simp add: sha1_holds_def sha1_collapse_buffer_block_def sha1_word_def nth_append)

lemma replicate_64: "n < 64 \<Longrightarrow> replicate (64 - n) x = x # replicate (63 - n) x"
proof -
  assume "n < 64"
  then have "64 - n = Suc (63 - n)" by simp
  then show ?thesis by simp
qed

lemma sha1_tail_holds:
  assumes "length w = 80" "length bs - cb < 64" "cb \<le> length bs"
  shows "sha1_holds (sha1_tail bs cb (sha1_collapse_buffer_block w)) (drop cb bs @ 0x80 # replicate (63 - (length bs - cb)) 0)"
proof -
  define t where "t = length bs - cb"
  let ?w = "sha1_collapse_buffer_block w"
  define P where "P = (\<lambda>n v. sha1_holds v (take n (drop cb bs) @ replicate (64 - n) 0))"
  have "P 0 ?w" using sha1_collapse_holds [OF assms(1)] by (simp add: P_def)
  then have P: "P t (fold (\<lambda>p w. sha1_or w p (bs ! (p + cb))) [0..<t] ?w)"
  proof (rule fold_upt_invariant)
    fix r v assume r: "0 \<le> r" "r < t" "P r v"
    then have lt: "r < length (drop cb bs)" "r < 64" using assms by (simp_all add: t_def)
    have "sha1_holds (sha1_or v r (bs ! (r + cb))) ((take r (drop cb bs) @ replicate (64 - r) 0)[r := bs ! (r + cb)])"
      using r(3) lt by (intro sha1_or_holds) (simp_all add: P_def nth_append)
    moreover have "(take r (drop cb bs) @ replicate (64 - r) 0)[r := bs ! (r + cb)] = take (Suc r) (drop cb bs) @ replicate (64 - Suc r) 0"
      using lt replicate_64 [OF lt(2), of "0 :: u8"] by (simp add: take_Suc_conv_app_nth list_update_append add.commute)
    ultimately show "P (Suc r) (sha1_or v r (bs ! (r + cb)))" by (simp add: P_def)
  qed simp
  have t: "take t (drop cb bs) = drop cb bs" "t < 64" "length (drop cb bs) = t" using assms by (simp_all add: t_def)
  have "(drop cb bs @ replicate (64 - t) 0)[t := 0x80] = drop cb bs @ 0x80 # replicate (63 - t) 0"
    using replicate_64 [OF t(2), of "0 :: u8"] t(3) by (simp add: list_update_append)
  moreover have "sha1_holds (sha1_or (fold (\<lambda>p w. sha1_or w p (bs ! (p + cb))) [0..<t] ?w) t 0x80) ((drop cb bs @ replicate (64 - t) 0)[t := 0x80])"
    using P t by (intro sha1_or_holds) (simp_all add: P_def nth_append)
  ultimately show ?thesis unfolding sha1_tail_def Let_def t_def by simp
qed

text \<open>The length goes into the last word; up to \<open>2 ^ 29\<close> bytes it is the whole length in bits.\<close>

lemma sha1_bits:
  assumes "n < 2 ^ 29"
  shows "rev (md5_ref_bits n) = [0, 0, 0, 0] @ rev (mem_bytes (push_bit 3 (of_nat n) :: u32))"
proof -
  have u: "unat (push_bit 3 (of_nat n) :: u32) = 8 * n"
    using assms by (simp add: push_bit_eq_mult unat_word_ariths unat_of_nat)
  have lo: "ucast (drop_bit k (push_bit 3 (of_nat n) :: u32)) = (of_nat (8 * n div 2 ^ k) :: u8)" for k
    unfolding byte_of_word u ..
  have "8 * n div 256 ^ i = 0" if "4 \<le> i" for i
  proof -
    have "8 * n < 256 ^ 4" using assms by simp
    also have "(256 :: nat) ^ 4 \<le> 256 ^ i" using that by (intro power_increasing) auto
    finally show ?thesis by simp
  qed
  note hi = this [of 4] this [of 5] this [of 6] this [of 7]
  have "[0..<8] = [0, 1, 2, 3, 4, 5, 6, 7::nat]" "[0..<4] = [0, 1, 2, 3::nat]" by (simp_all add: upt_rec)
  then show ?thesis using hi lo [of 0] lo [of 8] lo [of 16] lo [of 24] by (simp add: md5_ref_bits_def mem_bytes_def)
qed

lemma sha1_last_holds:
  assumes "sha1_holds w (pre @ replicate 8 0)" "n < 2 ^ 29"
  shows "sha1_holds (w[15 := push_bit 3 (of_nat n)]) (pre @ rev (md5_ref_bits n))"
proof -
  let ?b = "pre @ rev (md5_ref_bits n)"
  have l: "length pre = 56" "length w = 80" and w: "\<And>k. k < 16 \<Longrightarrow> w ! k = sha1_word (pre @ replicate 8 0) (4 * k)"
    using assms(1) by (auto simp: sha1_holds_def)
  have lb: "length (rev (md5_ref_bits n)) = 8" by (simp add: md5_ref_bits_def)
  have "sha1_word ?b 60 = mem_word (rev (rev (mem_bytes (push_bit 3 (of_nat n) :: u32))))"
    using l lb by (subst sha1_word_ref) (simp_all add: sha1_bits [OF assms(2)])
  then have last: "sha1_word ?b 60 = push_bit 3 (of_nat n)" by (simp add: mem_word_bytes)
  have "sha1_word ?b (4 * k) = sha1_word (pre @ replicate 8 0) (4 * k)" if "k < 15" for k
  proof (cases "k = 14")
    case True
    then show ?thesis using l by (simp add: sha1_word_def sha1_bits [OF assms(2)] nth_append)
  next
    case False
    then have "4 * k + 3 < 56" using that by simp
    then show ?thesis using l by (simp add: sha1_word_def nth_append)
  qed
  then have "(w[15 := push_bit 3 (of_nat n)]) ! k = sha1_word ?b (4 * k)" if "k < 16" for k
    using that last l w by (cases "k = 15") simp_all
  then show ?thesis using l lb by (simp add: sha1_holds_def)
qed

lemma sha1_output:
  "map (\<lambda>i. ucast (drop_bit (((3 - i mod 4) mod 4) * 8) ([r0, r1, r2, r3, r4] ! (i div 4)) AND 0xff)) [0..<20]
   = concat (map (\<lambda>h. rev (mem_bytes (h :: u32))) [r0, r1, r2, r3, r4])"
proof -
  have b: "rev (mem_bytes w) = [ucast (drop_bit 24 w AND 0xff), ucast (drop_bit 16 w AND 0xff), ucast (drop_bit 8 w AND 0xff), ucast (w AND 0xff)]" for w :: u32
    using md5_encode_bytes [of w "[]"] by (simp add: md5_encode.simps)
  have "[0..<20] = [0, 1, 2, 3, 4, 5, 6, 7, 8, 9, 10, 11, 12, 13, 14, 15, 16, 17, 18, 19::nat]" by (simp add: upt_rec)
  then show ?thesis by (simp add: b)
qed

lemma sha1_compute_ref:
  assumes w0: "length w0 = 80" and n: "length msg < 2 ^ 29"
  shows "sha1_compute w0 msg = sha1_ref msg"
proof -
  let ?h0 = "(0x67452301, 0xefcdab89, 0x98badcfe, 0x10325476, 0xc3d2e1f0) :: sha1_regs"
  define cb where "cb = length msg - length msg mod 64"
  define h where "h = fold sha1_ref_block (blocks msg) ?h0"
  obtain w where w: "sha1_full_blocks msg 0 (?h0, w0) = (cb, h, w)" "length w = 80"
    using sha1_full_blocks_spec [OF w0, of 0 msg ?h0] by (auto simp: cb_def h_def)
  define t where "t = length msg - cb"
  have t: "t = length msg mod 64" "t < 64" "cb \<le> length msg" by (simp_all add: t_def cb_def)
  have tl: "drop cb msg = tail_of msg" by (simp add: cb_def tail_of_def minus_mod_eq_div_mult)
  let ?w = "sha1_tail msg cb (sha1_collapse_buffer_block w)"
  let ?b = "tail_of msg @ 0x80 # replicate (63 - t) 0"
  have hold: "sha1_holds ?w ?b" using sha1_tail_holds [OF w(2), of msg cb] t(2,3) unfolding tl t_def [symmetric] by blast
  let ?bits = "rev (md5_ref_bits (length msg))"
  have blocks: "blocks (msg @ zero_pad (length msg) @ ?bits) = blocks msg @ blocks (tail_of msg @ zero_pad (length msg) @ ?bits)"
    by (rule blocks_tail(1))
  have lb: "length ?bits = 8" by (simp add: md5_ref_bits_def)
  have lt: "length (tail_of msg) = t" by (simp add: length_tail t(1))
  have comp: "sha1_compute w0 msg = (case sha1_compute_hash_block (case (if 56 \<le> t then (case sha1_compute_hash_block (h, ?w)
          of (result, w) \<Rightarrow> (result, sha1_collapse_buffer_block w)) else (h, ?w)) of (result, w) \<Rightarrow> (result, w[15 := push_bit 3 (of_nat (length msg))]))
      of ((r0, r1, r2, r3, r4), v) \<Rightarrow> concat (map (\<lambda>h. rev (mem_bytes h)) [r0, r1, r2, r3, r4]))"
    unfolding sha1_compute_def Let_def w(1) prod.case sha1_output t_def [symmetric] by (simp only: prod.case_distrib [of sha1_compute_hash_block] case_prod_beta prod.collapse fst_conv snd_conv)
  have ref: "sha1_ref msg = (case fold sha1_ref_block (blocks (tail_of msg @ zero_pad (length msg) @ ?bits)) h of
      (h0, h1, h2, h3, h4) \<Rightarrow> concat (map (\<lambda>h. rev (mem_bytes h)) [h0, h1, h2, h3, h4]))"
    unfolding sha1_ref_def Let_def blocks h_def by simp
  show ?thesis
  proof (cases "56 \<le> t")
    case False
    let ?pre = "tail_of msg @ 0x80 # replicate (55 - t) 0"
    have "(119 - t) mod 64 = 55 - t" using False by (simp add: le_mod_geq)
    then have pad: "tail_of msg @ zero_pad (length msg) @ ?bits = ?pre @ ?bits" using t(1) by (simp add: zero_pad_def)
    have "length (?pre @ ?bits) = 64" using False lt lb by simp
    then have bl: "blocks (tail_of msg @ zero_pad (length msg) @ ?bits) = [?pre @ ?bits]"
      using blocks_first [of "?pre @ ?bits" "[]"] unfolding pad by simp
    have "63 - t = 55 - t + 8" using False by simp
    then have "sha1_holds ?w (?pre @ replicate 8 0)" using hold by (simp only: replicate_add append.assoc append_Cons)
    from sha1_block_ref [OF sha1_last_holds [OF this n], of h] obtain v where
      "sha1_compute_hash_block (h, ?w[15 := push_bit 3 (of_nat (length msg))]) = (sha1_ref_block (?pre @ ?bits) h, v)" by blast
    moreover obtain r0 r1 r2 r3 r4 where "sha1_ref_block (?pre @ ?bits) h = (r0, r1, r2, r3, r4)" by (metis prod_cases5)
    ultimately show ?thesis using False unfolding comp ref bl by simp
  next
    case True
    have "(119 - t) mod 64 = 63 - t + 56" using True t(2) by simp
    then have pad: "tail_of msg @ zero_pad (length msg) @ ?bits = ?b @ replicate 56 0 @ ?bits"
      using t(1) by (simp only: zero_pad_def replicate_add append.assoc append_Cons)
    have "length ?b = 64" "length (replicate 56 0 @ ?bits) = 64" using True lt lb t(2) by simp_all
    then have bl: "blocks (tail_of msg @ zero_pad (length msg) @ ?bits) = [?b, replicate 56 0 @ ?bits]"
      using blocks_first [of ?b "replicate 56 0 @ ?bits"] blocks_first [of "replicate 56 0 @ ?bits" "[]"] unfolding pad by simp
    obtain v where v: "sha1_compute_hash_block (h, ?w) = (sha1_ref_block ?b h, v)" "length v = 80" by (rule sha1_block_ref [OF hold])
    have "replicate 64 (0 :: u8) = replicate 56 0 @ replicate 8 0" by (simp flip: replicate_add)
    then have "sha1_holds (sha1_collapse_buffer_block v) (replicate 56 0 @ replicate 8 0)" using sha1_collapse_holds [OF v(2)] by simp
    from sha1_block_ref [OF sha1_last_holds [OF this n], of "sha1_ref_block ?b h"] obtain u where
      "sha1_compute_hash_block (sha1_ref_block ?b h, (sha1_collapse_buffer_block v)[15 := push_bit 3 (of_nat (length msg))])
        = (sha1_ref_block (replicate 56 0 @ ?bits) (sha1_ref_block ?b h), u)" by blast
    moreover obtain r0 r1 r2 r3 r4 where "sha1_ref_block (replicate 56 0 @ ?bits) (sha1_ref_block ?b h) = (r0, r1, r2, r3, r4)" by (metis prod_cases5)
    ultimately show ?thesis using True v(1) unfolding comp ref bl by simp
  qed
qed

end
