(* ===== verification/Hash_Crc.thy ===== *)
theory Hash_Crc
  imports Hash
begin

text \<open>
  The cyclic redundancy checks: on bytes below 128 they are the checks of a register that takes the message bit by bit, and
  a message with exactly one byte from 128 on, whose sign the cast to \<^verbatim>\<open>char\<close> extends, gives another result, since the register
  takes different states to different states.
\<close>

unbundle bit_operations_syntax

section \<open>Cyclic redundancy checks\<close>

text \<open>A register that takes a message bit by bit, the lowest bit of a byte first.\<close>

definition crc_step :: "'a::len word \<Rightarrow> 'a word \<Rightarrow> 'a word" where
  "crc_step poly crc = drop_bit 1 crc XOR (if bit crc 0 then poly else 0)"

definition crc_in :: "'a::len word \<Rightarrow> bool \<Rightarrow> 'a word \<Rightarrow> 'a word" where
  "crc_in poly b crc = drop_bit 1 crc XOR (if bit crc 0 \<noteq> b then poly else 0)"

definition message_bits :: "u8 list \<Rightarrow> bool list" where
  "message_bits msg = concat (map (\<lambda>b. map (bit b) [0..<8]) msg)"

definition crc_ref :: "'a::len word \<Rightarrow> u8 list \<Rightarrow> 'a word" where
  "crc_ref poly msg = NOT (fold (crc_in poly) (message_bits msg) (NOT 0))"

lemma not_low_minus_one: "NOT ((x AND 1) - 1) = (if bit x 0 then - 1 else 0)" for x :: "'a::len word"
  by (simp add: and_one_eq odd_iff_mod_2_eq_one even_word_iff [symmetric] bit_0 not_eq_complement)

lemma crc_bit_steps: "crc32_bit = crc_step 0xEDB88320" "crc64_bit = crc_step 0xC96C5795D7870F42"
  by (auto simp: fun_eq_iff crc32_bit_def crc64_bit_def crc_step_def Let_def not_low_minus_one)

lemma crc_step_in: "1 < LENGTH('a) \<Longrightarrow> crc_step poly (crc XOR of_bool b) = crc_in poly b (crc :: 'a::len word)"
proof -
  assume "1 < LENGTH('a)"
  have "drop_bit 1 (of_bool b :: 'a word) = 0" by (cases b) (simp_all add: drop_bit_Suc)
  then show ?thesis by (simp add: crc_step_def crc_in_def drop_bit_xor bit_simps)
qed

lemma crc_step_later: "\<not> bit y (LENGTH('a) - 1) \<Longrightarrow> crc_step poly (x XOR push_bit 1 y) = crc_step poly x XOR (y :: 'a::len word)"
proof -
  assume y: "\<not> bit y (LENGTH('a) - 1)"
  have "bit (drop_bit 1 (push_bit 1 y)) n = bit y n" if "n < LENGTH('a)" for n
    unfolding bit_drop_bit_eq comp_def bit_push_bit_iff using y that by (cases "n = LENGTH('a) - 1") auto
  then have d: "drop_bit 1 (push_bit 1 y) = y" by (intro bit_word_eqI) blast
  have l: "\<not> bit (push_bit 1 y) 0" unfolding bit_push_bit_iff by simp
  show ?thesis unfolding crc_step_def drop_bit_xor bit_xor_iff d using l by (simp only: ac_simps if_False simp_thms)
qed

lemma crc_steps:
  assumes "1 < LENGTH('a)"
  shows "(crc_step poly ^^ k) (crc XOR y) = fold (crc_in poly) (map (bit y) [0..<k]) crc XOR drop_bit k (y :: 'a::len word)"
proof (induction k)
  case (Suc k)
  let ?x = "fold (crc_in poly) (map (bit y) [0..<k]) crc"
  have "bit (drop_bit k y) n = bit (of_bool (bit y k) XOR push_bit 1 (drop_bit (Suc k) y)) n" if "n < LENGTH('a)" for n
    unfolding bit_drop_bit_eq comp_def bit_push_bit_iff bit_xor_iff using that by (cases n) (auto simp: bit_simps bit_of_bool_iff)
  then have "drop_bit k y = of_bool (bit y k) XOR push_bit 1 (drop_bit (Suc k) y)" by (intro bit_word_eqI) blast
  then have "(crc_step poly ^^ Suc k) (crc XOR y) = crc_step poly ((?x XOR of_bool (bit y k)) XOR push_bit 1 (drop_bit (Suc k) y))"
    using Suc by (simp add: xor.assoc)
  also have "\<dots> = crc_in poly (bit y k) ?x XOR drop_bit (Suc k) y"
  proof -
    have "\<not> bit (drop_bit (Suc k) y) (LENGTH('a) - 1)"
      using bit_imp_le_length [of y "Suc k + (LENGTH('a) - 1)"] assms by (auto simp: bit_drop_bit_eq)
    from crc_step_later [OF this, of poly "?x XOR of_bool (bit y k)"] show ?thesis unfolding crc_step_in [OF assms] .
  qed
  finally show ?case by simp
qed simp

lemma crc_byte:
  assumes "8 < LENGTH('a)"
  shows "(crc_step poly ^^ 8) (crc XOR ucast b) = fold (crc_in poly) (map (bit (b :: u8)) [0..<8]) (crc :: 'a::len word)"
proof -
  have d: "drop_bit 8 (ucast b :: 'a word) = 0" by (rule bit_word_eqI) (auto simp: bit_simps dest: bit_imp_le_length)
  have m: "map (bit (ucast b :: 'a word)) [0..<8] = map (bit b) [0..<8]" using assms by (auto simp: bit_simps)
  have "1 < LENGTH('a)" using assms by simp
  from crc_steps [OF this, where poly = poly and k = 8 and crc = crc and y = "ucast b"] show ?thesis unfolding d m by simp
qed

lemma scast_ascii: "b < 0x80 \<Longrightarrow> 8 < LENGTH('a) \<Longrightarrow> (scast (b :: u8) :: 'a::len word) = ucast b"
proof -
  assume b: "b < 0x80" "8 < LENGTH('a)"
  have "unat b < 128" using b(1) by (simp add: word_less_nat_alt)
  then have "b div 2 ^ 7 = 0" by (simp add: word_unat_eq_iff unat_div)
  then have "\<not> bit b 7" by (simp add: bit_iff_odd)
  have "bit b (min 7 n) = bit b n" for n
    using \<open>\<not> bit b 7\<close> bit_imp_le_length [of b n] by (cases n "7 :: nat" rule: linorder_cases) (auto simp: min_def)
  then show ?thesis by (intro bit_word_eqI) (auto simp: bit_simps)
qed

lemma crc_fold_ascii:
  assumes "\<And>b. b \<in> set msg \<Longrightarrow> b < 0x80"
  shows "fold crc32_byte msg c = fold (crc_in 0xEDB88320) (message_bits msg) c"
    and "fold crc64_byte msg d = fold (crc_in 0xC96C5795D7870F42) (message_bits msg) d"
  using assms
  by (induction msg arbitrary: c d) (simp_all add: message_bits_def crc32_byte_def crc64_byte_def crc_bit_steps scast_ascii crc_byte)

lemma crc_ascii:
  assumes "\<And>b. b \<in> set msg \<Longrightarrow> b < 0x80"
  shows "crc32 msg = crc_ref 0xEDB88320 msg" "crc64 msg = crc_ref 0xC96C5795D7870F42 msg"
  by (simp_all add: crc32_def crc64_def crc_ref_def crc_fold_ascii [OF assms])

section \<open>A byte from 128 on\<close>

lemma word_xor_cancel: "a XOR c = b XOR c \<Longrightarrow> a = (b :: 'a::len word)"
  by (auto simp: bit_eq_iff bit_xor_iff)

lemma crc_in_inj:
  assumes "bit poly (LENGTH('a) - 1)" "crc_in poly b x = crc_in poly b (y :: 'a::len word)"
  shows "x = y"
proof -
  have top: "bit (crc_in poly b z) (LENGTH('a) - 1) \<longleftrightarrow> bit z 0 \<noteq> b" for z :: "'a word"
    using assms(1) bit_imp_le_length [of z "LENGTH('a)"] by (auto simp: crc_in_def bit_simps)
  then have 0: "bit x 0 = bit y 0" using assms(2) by metis
  then have "drop_bit 1 x = drop_bit 1 y"
    using assms(2) word_xor_cancel unfolding crc_in_def by (simp only:) blast
  then have "bit x (Suc n) = bit y (Suc n)" for n
    using bit_drop_bit_eq [of 1 x] bit_drop_bit_eq [of 1 y] by (metis comp_apply plus_1_eq_Suc)
  then show ?thesis using 0 by (intro bit_word_eqI) (metis not0_implies_Suc)
qed

lemma crc_fold_inj:
  "bit poly (LENGTH('a) - 1) \<Longrightarrow> fold (crc_in poly) bs x = fold (crc_in poly) bs (y :: 'a::len word) \<Longrightarrow> x = y"
proof (induction bs arbitrary: x y)
  case (Cons b bs)
  then have "crc_in poly b x = crc_in poly b y" by simp
  then show ?case by (rule crc_in_inj [OF Cons.prems(1)])
qed simp

lemma crc_byte_signed:
  assumes "8 < LENGTH('a)" "0x80 \<le> b"
  shows "(crc_step poly ^^ 8) (crc XOR scast (b :: u8)) \<noteq> fold (crc_in poly) (map (bit b) [0..<8]) (crc :: 'a::len word)"
proof -
  have "128 \<le> unat b" using assms(2) by (simp add: word_le_nat_alt)
  then have "b div 2 ^ 7 = 1" using unsigned_less [of b, where 'a = nat] by (simp add: word_unat_eq_iff unat_div)
  then have b7: "bit b 7" by (simp add: bit_iff_odd)
  then have "bit (drop_bit 8 (scast b :: 'a word)) 0" using assms(1) by (simp add: bit_simps)
  then have d: "drop_bit 8 (scast b :: 'a word) \<noteq> 0" by auto
  have m: "map (bit (scast b :: 'a word)) [0..<8] = map (bit b) [0..<8]" using assms(1) by (auto simp: bit_simps intro!: arg_cong [of _ _ "bit b"])
  have "1 < LENGTH('a)" using assms(1) by simp
  from crc_steps [OF this, where poly = poly and k = 8 and crc = crc and y = "scast b"]
  have "(crc_step poly ^^ 8) (crc XOR scast b) = drop_bit 8 (scast b) XOR fold (crc_in poly) (map (bit b) [0..<8]) crc"
    unfolding m by (simp only: xor.commute)
  then show ?thesis using d word_xor_cancel [of "drop_bit 8 (scast b)" _ 0] by (metis xor.left_neutral)
qed

lemma message_bits_append [simp]: "message_bits (xs @ b # ys) = message_bits xs @ map (bit b) [0..<8] @ message_bits ys"
  by (simp add: message_bits_def)

lemma crc_signed:
  assumes "\<And>a. a \<in> set xs \<union> set ys \<Longrightarrow> a < 0x80" "0x80 \<le> b"
  shows "crc32 (xs @ b # ys) \<noteq> crc_ref 0xEDB88320 (xs @ b # ys)" "crc64 (xs @ b # ys) \<noteq> crc_ref 0xC96C5795D7870F42 (xs @ b # ys)"
proof -
  have p: "bit (0xEDB88320 :: u32) (LENGTH(32) - 1)" "bit (0xC96C5795D7870F42 :: u64) (LENGTH(64) - 1)" by simp_all
  have f: "fold crc32_byte xs c = fold (crc_in 0xEDB88320) (message_bits xs) c" "fold crc64_byte xs d = fold (crc_in 0xC96C5795D7870F42) (message_bits xs) d"
      "fold crc32_byte ys c = fold (crc_in 0xEDB88320) (message_bits ys) c" "fold crc64_byte ys d = fold (crc_in 0xC96C5795D7870F42) (message_bits ys) d" for c d
    using assms(1) by (intro crc_fold_ascii; blast)+
  have l: "8 < LENGTH(32)" "8 < LENGTH(64)" by simp_all
  show "crc32 (xs @ b # ys) \<noteq> crc_ref 0xEDB88320 (xs @ b # ys)"
    using crc_byte_signed [OF l(1) assms(2), of "0xEDB88320"] crc_fold_inj [OF p(1)]
    by (fastforce simp: crc32_def crc_ref_def f crc32_byte_def crc_bit_steps)
  show "crc64 (xs @ b # ys) \<noteq> crc_ref 0xC96C5795D7870F42 (xs @ b # ys)"
    using crc_byte_signed [OF l(2) assms(2), of "0xC96C5795D7870F42"] crc_fold_inj [OF p(2)]
    by (fastforce simp: crc64_def crc_ref_def f crc64_byte_def crc_bit_steps)
qed

end
