(* ===== verification/Hash_Properties.thy ===== *)
theory Hash_Properties
  imports Hash_Sha1 Hash_Crc
begin

text \<open>
  Properties of the hash functions: the streaming hasher computes MD5, \<open>sha1_compute\<close> computes SHA-1 up to the
  length its arithmetic has room for, and the checks are the usual ones on bytes below 128 only.
\<close>

text \<open>
  C34: Feeding a message to the hasher in any pieces and finalizing it gives the MD5 digest of RFC 1321 of the whole message;
  each piece is shorter than \<open>2 ^ 32 - 64\<close> bytes, so that the loop counter of \<^verbatim>\<open>update\<close> does not wrap.
\<close>

theorem md5_streaming:
  assumes "\<And>c. c \<in> set cs \<Longrightarrow> length c + 64 < 2 ^ 32"
  shows "\<exists>t g. feed_all md5_update md5_init cs = Some t \<and> md5_finalize t = Some g \<and> finalized g \<and> digest g = md5_ref (concat cs)"
proof -
  obtain t where t: "feed_all md5_update md5_init cs = Some t" "md5_repr t (concat cs)" using md5_stream.fed_repr [OF assms] by blast
  with md5_finalize_ok [OF t(2)] show ?thesis by blast
qed

theorem md5_streaming_witness:
  "\<exists>t g. feed_all md5_update md5_init [[0x61], [0x62, 0x63]] = Some t \<and> md5_finalize t = Some g \<and> finalized g
     \<and> digest g = md5_ref [0x61, 0x62, 0x63]"
proof -
  have "length c + 64 < 2 ^ 32" if "c \<in> set [[0x61], [0x62, 0x63 :: u8]]" for c using that by auto
  from md5_streaming [of "[[0x61], [0x62, 0x63]]", OF this] show ?thesis by (simp del: feed_all.simps)
qed

text \<open>
  C35: \<^verbatim>\<open>sha1_compute\<close> gives the SHA-1 digest of FIPS 180 for every message shorter than \<open>2 ^ 29\<close> bytes, whatever the array
  of words on its stack holds at the start.
\<close>

theorem sha1_digest:
  assumes "length msg < 2 ^ 29" "length w0 = 80"
  shows "sha1_compute w0 msg = sha1_ref msg"
  using assms by (intro sha1_compute_ref)

theorem sha1_digest_witness: "sha1_compute (replicate 80 7) [0x61, 0x62, 0x63] = sha1_ref [0x61, 0x62, 0x63]"
  using sha1_digest [of "[0x61, 0x62, 0x63]" "replicate 80 7"] by simp

text \<open>
  C36: On bytes below 128 the two checks are those of a register that takes the message bit by bit, the lowest bit of a byte
  first; for every message with exactly one byte from 128 on, wherever it stands, both results differ from the register's,
  because the cast to \<^verbatim>\<open>char\<close> extends the sign of that byte.
\<close>

theorem crc_checks:
  assumes "\<And>a. a \<in> set xs \<union> set ys \<Longrightarrow> a < 0x80" "0x80 \<le> b"
  shows "crc32 xs = crc_ref 0xEDB88320 xs \<and> crc64 xs = crc_ref 0xC96C5795D7870F42 xs
    \<and> crc32 (xs @ b # ys) \<noteq> crc_ref 0xEDB88320 (xs @ b # ys) \<and> crc64 (xs @ b # ys) \<noteq> crc_ref 0xC96C5795D7870F42 (xs @ b # ys)"
  using crc_ascii [of xs] crc_signed [of xs ys b] assms by blast

theorem crc_checks_witness:
  "crc32 [0x31, 0x32] = crc_ref 0xEDB88320 [0x31, 0x32] \<and> crc64 [0x31, 0x32, 0xE9, 0x33] \<noteq> crc_ref 0xC96C5795D7870F42 [0x31, 0x32, 0xE9, 0x33]"
proof -
  have "a < 0x80" if "a \<in> set [0x31, 0x32] \<union> set [0x33]" for a :: u8 using that by auto
  from crc_checks [of "[0x31, 0x32]" "[0x33]" "0xE9", OF this] show ?thesis by simp
qed

text \<open>\<^verbatim>\<open>to_raw\<close> cuts a digest off at its first zero byte.\<close>

theorem md5_raw_cut: "digest m = xs @ 0 # ys \<Longrightarrow> length (md5_to_raw m) \<le> length xs"
  by (simp add: md5_to_raw_def takeWhile_append length_takeWhile_le)

end
