(* ===== verification/Http_Multipart.thy ===== *)
theory Http_Multipart
  imports Http_Parser
begin

text \<open>
  The parser of \<^verbatim>\<open>multipart/form-data\<close> bodies (\<^verbatim>\<open>parser::multipart_parse\<close> and its callbacks, \<^verbatim>\<open>network/http.cpp\<close>).  It reads
  a buffer at a time and keeps its state between the calls.  The file system and the random names of the
  files are parameters (\<open>multipart_io\<close>); the files themselves are a map from paths to contents.
\<close>

section \<open>State\<close>

datatype multipart_status =
    Uninitialized | Start | Start_boundary | Header_field_start | Header_field | Header_field_waiting
  | Header_value_start | Header_value | Header_value_waiting | Resource_start | Resource
  | Resource_boundary_waiting | Resource_boundary | Resource_waiting | Resource_end | Resource_hyphen | End

text \<open>
  \<open>io_open path\<close> says whether a file can be opened, \<open>io_write path data\<close> how many bytes of the data are written, and
  \<open>io_hash n\<close> is the hash of the bytes of the \<open>n\<close>th draw of random bytes.
\<close>

record multipart_io =
  io_open :: "string \<Rightarrow> bool"
  io_write :: "string \<Rightarrow> string \<Rightarrow> nat"
  io_hash :: "nat \<Rightarrow> string option"

text \<open>
  \<open>mp_boundary\<close> is \<^const>\<open>None\<close> before the buffer is allocated; \<open>mp_look_behind\<close> is the second part of that buffer.
  \<open>mp_stream\<close> is the path of the open file.  \<open>mp_header\<close> and \<open>mp_resources\<close> are the fields of the message that the
  callbacks use, \<open>mp_called\<close> the resources that the callback has been given.
\<close>

record multipart_state =
  mp_data :: resource
  mp_callback :: bool
  mp_directory :: "string option"
  mp_stream :: "string option"
  mp_look_behind :: string
  mp_boundary :: "string option"
  mp_index :: nat
  mp_max_resources :: nat
  mp_skip :: bool
  mp_finish :: bool
  mp_status :: multipart_status
  mp_header :: string
  mp_resources :: "resource list option"
  mp_called :: "resource list"
  mp_draws :: nat
  mp_files :: "string \<Rightarrow> string option"

definition new_resource :: resource where
  "new_resource = \<lparr>rs_headers = [], rs_path = [], rs_type = [], rs_name = [], rs_key = [], rs_length = 0, rs_is_in_memory = False\<rparr>"

definition prepare_for_multipart_parsing ::
  "multipart_state \<Rightarrow> resource list option \<Rightarrow> string option \<Rightarrow> nat \<Rightarrow> bool \<Rightarrow> bool \<Rightarrow> multipart_state" where
  "prepare_for_multipart_parsing st content temporary_directory max_resources skip callback =
     st\<lparr>mp_data := new_resource, mp_callback := callback, mp_directory := temporary_directory, mp_stream := None,
        mp_look_behind := [], mp_boundary := None, mp_index := 0, mp_max_resources := max_resources, mp_skip := skip,
        mp_finish := False, mp_status := Start, mp_header := [], mp_resources := content\<rparr>"

section \<open>Callbacks\<close>

definition get_filename :: "string \<Rightarrow> string" where
  "get_filename path = (case scan_down (\<lambda>i. path ! i = CHR ''/'' \<or> path ! i = CHR 0x5C) (length path) of
     None \<Rightarrow> path | Some i \<Rightarrow> drop (i + 1) path)"

definition parse_multipart_header_field :: "multipart_state \<Rightarrow> string \<Rightarrow> multipart_state" where
  "parse_multipart_header_field st name = (if length name > 0 then st\<lparr>mp_header := name\<rparr> else st)"

text \<open>The text between \<open>key\<close>, which ends in a quotation mark, and the next quotation mark.\<close>

definition quoted_after :: "string \<Rightarrow> string \<Rightarrow> string option" where
  "quoted_after key data =
     (let start = find_text data key 0
      in if ts_found start then
           let fin = find_symbol data (CHR 0x22) (ts_end start)
           in if ts_found fin then Some (take (ts_end fin - ts_end start - 1) (drop (ts_end start) data)) else None
         else None)"

definition name_key :: string where "name_key = ''name='' @ [CHR 0x22]"
definition filename_key :: string where "filename_key = ''filename='' @ [CHR 0x22]"

definition disposition :: "string \<Rightarrow> resource \<Rightarrow> resource" where
  "disposition data r =
     (let r = (case quoted_after name_key data of None \<Rightarrow> r | Some k \<Rightarrow> r\<lparr>rs_key := k\<rparr>)
      in case quoted_after filename_key data of None \<Rightarrow> r | Some n \<Rightarrow> r\<lparr>rs_name := get_filename n\<rparr>)"

definition parse_multipart_header_value :: "multipart_state \<Rightarrow> string \<Rightarrow> multipart_state" where
  "parse_multipart_header_value st data =
     (if length data = 0 \<or> mp_skip st then st
      else if mp_header st = [] then st
      else let r = mp_data st;
               r = (if mp_header st = ''Content-Disposition'' then disposition data r
                    else if mp_header st = ''Content-Type'' then r\<lparr>rs_type := data\<rparr> else r);
               r = r\<lparr>rs_headers := set_header (rs_headers r) (c_str (mp_header st)) data\<rparr>
           in st\<lparr>mp_data := r, mp_header := []\<rparr>)"

definition write_file :: "multipart_state \<Rightarrow> string \<Rightarrow> string \<Rightarrow> multipart_state" where
  "write_file st path data = st\<lparr>mp_files := (mp_files st)(path := map_option (\<lambda>old. old @ data) (mp_files st path))\<rparr>"

definition parse_multipart_content_data :: "multipart_io \<Rightarrow> multipart_state \<Rightarrow> string \<Rightarrow> bool \<times> multipart_state" where
  "parse_multipart_content_data io st data =
     (if length data = 0 then (True, st)
      else if mp_skip st then (False, st)
      else case mp_stream st of
             None \<Rightarrow> (False, st)
           | Some path \<Rightarrow>
               let n = io_write io path data; st = write_file st path (take n data)
               in if n \<noteq> length data then (False, st)
                  else (True, st\<lparr>mp_data := (mp_data st)\<lparr>rs_length := rs_length (mp_data st) + of_nat (length data)\<rparr>\<rparr>))"

text \<open>The path of a new file: \<^verbatim>\<open>back\<close> of an empty directory is undefined, and the null character stands for it.\<close>

definition resource_path :: "multipart_io \<Rightarrow> nat \<Rightarrow> string \<Rightarrow> string" where
  "resource_path io n directory =
     (let b = (if directory = [] then CHR 0x00 else last directory);
          path = (if b \<noteq> CHR ''/'' \<and> b \<noteq> CHR 0x5C then directory @ ''/'' else directory)
      in case io_hash io n of None \<Rightarrow> path | Some hash \<Rightarrow> path @ hash)"

definition parse_multipart_resource_begin :: "multipart_io \<Rightarrow> multipart_state \<Rightarrow> bool \<times> multipart_state" where
  "parse_multipart_resource_begin io st =
     (case mp_resources st of
        None \<Rightarrow> (True, st)
      | Some resources \<Rightarrow>
          if mp_skip st then (True, st)
          else if mp_stream st \<noteq> None then (False, st\<lparr>mp_stream := None\<rparr>)
          else if mp_max_resources st \<le> length resources then (False, st\<lparr>mp_finish := True\<rparr>)
          else let r = (mp_data st)\<lparr>rs_headers := [], rs_name := [], rs_type := ''application/octet-stream'',
                     rs_is_in_memory := False, rs_length := 0\<rparr>;
                   st = st\<lparr>mp_header := []\<rparr>;
                   (r, n) = (case mp_directory st of
                      None \<Rightarrow> (r, mp_draws st)
                    | Some d \<Rightarrow> (r\<lparr>rs_path := resource_path io (mp_draws st) d\<rparr>, mp_draws st + 1));
                   st = st\<lparr>mp_data := r, mp_draws := n\<rparr>
               in if \<not> io_open io (c_str (rs_path r)) then (False, st)
                  else (True, st\<lparr>mp_stream := Some (c_str (rs_path r)), mp_files := (mp_files st)(c_str (rs_path r) \<mapsto> [])\<rparr>))"

definition parse_multipart_resource_end :: "multipart_state \<Rightarrow> bool \<times> multipart_state" where
  "parse_multipart_resource_end st =
     (case mp_resources st of
        None \<Rightarrow> (True, st)
      | Some resources \<Rightarrow>
          if mp_skip st \<or> mp_stream st = None then (True, st)
          else (True, st\<lparr>mp_stream := None, mp_resources := Some (resources @ [mp_data st]),
                 mp_called := (if mp_callback st then mp_called st @ [mp_data st] else mp_called st)\<rparr>))"

section \<open>The switch\<close>

text \<open>
  A case of the switch leaves the function with a result, the position or \<open>-1\<close>, or goes on at the position \<open>i\<close> that the next round looks
  at, with \<open>mark\<close>.  After \<^verbatim>\<open>mark = i--\<close> the next round looks at the same byte again.
\<close>

datatype multipart_next = Leave int multipart_state | Proceed nat nat multipart_state

fun proceed_if :: "bool \<times> multipart_state \<Rightarrow> nat \<Rightarrow> (multipart_state \<Rightarrow> multipart_next) \<Rightarrow> multipart_next" where
  "proceed_if (ok, st) i k = (if ok then k st else Leave (int i) st)"

definition slice :: "string \<Rightarrow> nat \<Rightarrow> nat \<Rightarrow> string" where
  "slice buf mark i = take (i - mark) (drop mark buf)"

text \<open>A byte of the buffer is a signed \<^verbatim>\<open>char\<close>, one of the boundary an unsigned one.\<close>

definition boundary_byte :: "multipart_state \<Rightarrow> char \<Rightarrow> bool" where
  "boundary_byte st c \<longleftrightarrow> schar c = int (of_char (str_at (the (mp_boundary st)) (mp_index st)))"

definition case_start_boundary :: "multipart_io \<Rightarrow> char \<Rightarrow> nat \<Rightarrow> nat \<Rightarrow> multipart_state \<Rightarrow> multipart_next" where
  "case_start_boundary io c i mark st =
     (if mp_index st = length (the (mp_boundary st)) then
        if c \<noteq> CR then Leave (int i) st else Proceed (i + 1) mark (st\<lparr>mp_index := mp_index st + 1\<rparr>)
      else if mp_index st = length (the (mp_boundary st)) + 1 then
        if c \<noteq> LF then Leave (int i) st
        else proceed_if (parse_multipart_resource_begin io (st\<lparr>mp_index := 0\<rparr>)) i
               (\<lambda>st. Proceed (i + 1) mark (st\<lparr>mp_status := Header_field_start\<rparr>))
      else if \<not> boundary_byte st c then Leave (int i) st
      else Proceed (i + 1) mark (st\<lparr>mp_index := mp_index st + 1\<rparr>))"

definition case_header_field :: "string \<Rightarrow> char \<Rightarrow> nat \<Rightarrow> nat \<Rightarrow> multipart_state \<Rightarrow> multipart_next" where
  "case_header_field buf c i mark st =
     (if c = CR then Proceed (i + 1) mark (st\<lparr>mp_status := Header_field_waiting\<rparr>)
      else if c = CHR '':'' then
        Proceed (i + 1) mark ((parse_multipart_header_field st (slice buf mark i))\<lparr>mp_status := Header_value_start\<rparr>)
      else if c \<noteq> CHR ''-'' \<and> (schar (tolower c) < 97 \<or> 122 < schar (tolower c)) then Leave (int i) st
      else Proceed (i + 1) mark (if i = length buf - 1 then parse_multipart_header_field st (slice buf mark (i + 1)) else st))"

definition case_header_value :: "string \<Rightarrow> char \<Rightarrow> nat \<Rightarrow> nat \<Rightarrow> multipart_state \<Rightarrow> multipart_next" where
  "case_header_value buf c i mark st =
     (if c = CR then
        Proceed (i + 1) mark ((parse_multipart_header_value st (slice buf mark i))\<lparr>mp_status := Header_value_waiting\<rparr>)
      else Proceed (i + 1) mark (if i = length buf - 1 then parse_multipart_header_value st (slice buf mark (i + 1)) else st))"

definition case_resource :: "multipart_io \<Rightarrow> string \<Rightarrow> char \<Rightarrow> nat \<Rightarrow> nat \<Rightarrow> multipart_state \<Rightarrow> multipart_next" where
  "case_resource io buf c i mark st =
     (if c = CR then
        proceed_if (parse_multipart_content_data io st (slice buf mark i)) i
          (\<lambda>st. Proceed (i + 1) i (st\<lparr>mp_status := Resource_boundary_waiting, mp_look_behind := (mp_look_behind st)[0 := CR]\<rparr>))
      else if i = length buf - 1 then
        proceed_if (parse_multipart_content_data io st (slice buf mark (i + 1))) i (\<lambda>st. Proceed (i + 1) mark st)
      else Proceed (i + 1) mark st)"

definition case_boundary_waiting :: "multipart_io \<Rightarrow> char \<Rightarrow> nat \<Rightarrow> nat \<Rightarrow> multipart_state \<Rightarrow> multipart_next" where
  "case_boundary_waiting io c i mark st =
     (if c = LF then
        Proceed (i + 1) mark (st\<lparr>mp_status := Resource_boundary, mp_look_behind := (mp_look_behind st)[1 := LF], mp_index := 0\<rparr>)
      else proceed_if (parse_multipart_content_data io st (take 1 (mp_look_behind st))) i
             (\<lambda>st. Proceed i i (st\<lparr>mp_status := Resource\<rparr>)))"

definition case_boundary :: "multipart_io \<Rightarrow> char \<Rightarrow> nat \<Rightarrow> nat \<Rightarrow> multipart_state \<Rightarrow> multipart_next" where
  "case_boundary io c i mark st =
     (if \<not> boundary_byte st c then
        proceed_if (parse_multipart_content_data io st (take (2 + mp_index st) (mp_look_behind st))) i
          (\<lambda>st. Proceed i i (st\<lparr>mp_status := Resource\<rparr>))
      else
        let st = st\<lparr>mp_look_behind := (mp_look_behind st)[2 + mp_index st := c], mp_index := mp_index st + 1\<rparr>
        in if mp_index st = length (the (mp_boundary st))
           then proceed_if (parse_multipart_resource_end st) i (\<lambda>st. Proceed (i + 1) mark (st\<lparr>mp_status := Resource_waiting\<rparr>))
           else Proceed (i + 1) mark st)"

text \<open>The switch: \<open>start\<close>, \<open>header_field_start\<close>, \<open>header_value_start\<close> and \<open>resource_start\<close> fall through to the case that follows.\<close>

definition multipart_step :: "multipart_io \<Rightarrow> string \<Rightarrow> nat \<Rightarrow> nat \<Rightarrow> multipart_state \<Rightarrow> multipart_next" where
  "multipart_step io buf i mark st =
     (let c = buf ! i in
      case mp_status st of
        Start \<Rightarrow> case_start_boundary io c i mark (st\<lparr>mp_index := 0, mp_status := Start_boundary\<rparr>)
      | Start_boundary \<Rightarrow> case_start_boundary io c i mark st
      | Header_field_start \<Rightarrow> case_header_field buf c i i (st\<lparr>mp_status := Header_field\<rparr>)
      | Header_field \<Rightarrow> case_header_field buf c i mark st
      | Header_field_waiting \<Rightarrow>
          if c \<noteq> LF then Leave (int i) st else Proceed (i + 1) mark (st\<lparr>mp_status := Resource_start\<rparr>)
      | Header_value_start \<Rightarrow>
          if c = CHR '' '' then Proceed (i + 1) mark st else case_header_value buf c i i (st\<lparr>mp_status := Header_value\<rparr>)
      | Header_value \<Rightarrow> case_header_value buf c i mark st
      | Header_value_waiting \<Rightarrow>
          if c \<noteq> LF then Leave (int i) st else Proceed (i + 1) mark (st\<lparr>mp_status := Header_field_start\<rparr>)
      | Resource_start \<Rightarrow> case_resource io buf c i i (st\<lparr>mp_status := Resource\<rparr>)
      | Resource \<Rightarrow> case_resource io buf c i mark st
      | Resource_boundary_waiting \<Rightarrow> case_boundary_waiting io c i mark st
      | Resource_boundary \<Rightarrow> case_boundary io c i mark st
      | Resource_waiting \<Rightarrow>
          if c = CHR ''-'' then Proceed (i + 1) mark (st\<lparr>mp_status := Resource_hyphen\<rparr>)
          else if c = CR then Proceed (i + 1) mark (st\<lparr>mp_status := Resource_end\<rparr>)
          else Leave (int i) st
      | Resource_hyphen \<Rightarrow>
          if c = CHR ''-'' then Proceed (i + 1) mark (st\<lparr>mp_status := End\<rparr>) else Leave (int i) st
      | Resource_end \<Rightarrow>
          if c = LF then proceed_if (parse_multipart_resource_begin io (st\<lparr>mp_status := Header_field_start\<rparr>)) i (\<lambda>st. Proceed (i + 1) mark st)
          else Leave (int i) st
      | End \<Rightarrow> Proceed (i + 1) mark st
      | Uninitialized \<Rightarrow> Leave (- 1) st)"

section \<open>The loop\<close>

definition scans_boundary :: "multipart_state \<Rightarrow> bool" where
  "scans_boundary st \<longleftrightarrow> mp_status st = Resource_boundary_waiting \<or> mp_status st = Resource_boundary"

lemma proceed_if_Proceed: "proceed_if r i k = Proceed j m st \<longleftrightarrow> fst r \<and> k (snd r) = Proceed j m st"
  by (cases r) simp

lemma multipart_step_progress:
  "multipart_step io buf i mark st = Proceed j mark' st' \<Longrightarrow> j = i + 1 \<or> j = i \<and> scans_boundary st \<and> \<not> scans_boundary st'"
  by (auto simp: multipart_step_def case_start_boundary_def case_header_field_def case_header_value_def case_resource_def
      case_boundary_waiting_def case_boundary_def Let_def proceed_if_Proceed scans_boundary_def split: multipart_status.splits if_splits)

function multipart_loop :: "multipart_io \<Rightarrow> string \<Rightarrow> nat \<Rightarrow> nat \<Rightarrow> multipart_state \<Rightarrow> int \<times> multipart_state" where
  "multipart_loop io buf i mark st =
     (if i < length buf then
        case multipart_step io buf i mark st of
          Leave r st \<Rightarrow> (r, st)
        | Proceed j mark st \<Rightarrow> multipart_loop io buf j mark st
      else (int (length buf), st))"
  by pat_completeness auto
termination
  by (relation "measure (\<lambda>(io, buf, i, mark, st). 2 * (length buf - i) + of_bool (scans_boundary st))")
     (auto dest: multipart_step_progress)

declare multipart_loop.simps [simp del]

text \<open>\<^verbatim>\<open>multipart_parse\<close>: the first call stores the boundary and makes room behind it, whose contents are not set.\<close>

definition multipart_parse :: "multipart_io \<Rightarrow> string \<Rightarrow> string \<Rightarrow> multipart_state \<Rightarrow> int \<times> multipart_state" where
  "multipart_parse io boundary buffer st =
     (let st = (if mp_boundary st = None
                then st\<lparr>mp_boundary := Some boundary, mp_look_behind := replicate (length boundary + 8) (CHR 0x00), mp_status := Start, mp_index := 0\<rparr>
                else st)
      in multipart_loop io buffer 0 0 st)"

end
