(* ===== verification/Http_Multipart_Laws.thy ===== *)
theory Http_Multipart_Laws
  imports Http_Multipart Stream_Consumer "HOL-Library.Sublist"
begin

text \<open>
  What the parser of multipart bodies does on the parts of a body: the line of the boundary, the header lines and the
  content.  The scan for the boundary refines an automaton that reads byte by byte, so that it does
  not matter how a content is split into buffers.
\<close>

section \<open>Writing content\<close>

definition writes_all :: "multipart_io \<Rightarrow> bool" where
  "writes_all io \<longleftrightarrow> (\<forall>path data. io_write io path data = length data)"

definition writing :: "string \<Rightarrow> multipart_state \<Rightarrow> bool" where
  "writing p st \<longleftrightarrow> mp_stream st = Some p \<and> mp_files st p \<noteq> None \<and> \<not> mp_skip st"

definition add_content :: "string \<Rightarrow> string \<Rightarrow> multipart_state \<Rightarrow> multipart_state" where
  "add_content p x st = st\<lparr>mp_files := (mp_files st)(p := map_option (\<lambda>old. old @ x) (mp_files st p)),
     mp_data := (mp_data st)\<lparr>rs_length := rs_length (mp_data st) + of_nat (length x)\<rparr>\<rparr>"

text \<open>A state without what the scan for the boundary uses.\<close>

definition core :: "multipart_state \<Rightarrow> multipart_state" where
  "core st = st\<lparr>mp_status := Start, mp_look_behind := [], mp_index := 0\<rparr>"

lemma core_upd [simp]:
  "core (st\<lparr>mp_status := s\<rparr>) = core st" "core (st\<lparr>mp_look_behind := l\<rparr>) = core st" "core (st\<lparr>mp_index := k\<rparr>) = core st"
  by (simp_all add: core_def)

lemma core_fields: "core st = core st' \<Longrightarrow> mp_stream st = mp_stream st'" "core st = core st' \<Longrightarrow> mp_files st = mp_files st'"
  "core st = core st' \<Longrightarrow> mp_skip st = mp_skip st'" "core st = core st' \<Longrightarrow> mp_boundary st = mp_boundary st'"
  "core st = core st' \<Longrightarrow> mp_resources st = mp_resources st'" "core st = core st' \<Longrightarrow> mp_data st = mp_data st'"
  "core st = core st' \<Longrightarrow> mp_callback st = mp_callback st'" "core st = core st' \<Longrightarrow> mp_called st = mp_called st'"
  by (cases st; cases st'; simp add: core_def)+

lemma core_add_content: "core (add_content p x st) = add_content p x (core st)"
  by (simp add: core_def add_content_def)

lemma add_content_fields [simp]:
  "mp_stream (add_content p x st) = mp_stream st" "mp_skip (add_content p x st) = mp_skip st" "mp_boundary (add_content p x st) = mp_boundary st"
  "mp_status (add_content p x st) = mp_status st" "mp_look_behind (add_content p x st) = mp_look_behind st" "mp_index (add_content p x st) = mp_index st"
  "mp_resources (add_content p x st) = mp_resources st"
  by (simp_all add: add_content_def)

lemma add_content_nil [simp]: "add_content p [] st = st"
proof -
  have "map_option (\<lambda>old. old @ []) v = v" for v :: "string option" by (cases v) auto
  then show ?thesis by (simp add: add_content_def fun_upd_triv)
qed

lemma add_content_add [simp]: "add_content p y (add_content p x st) = add_content p (x @ y) st"
  by (simp add: add_content_def option.map_comp comp_def add.assoc)

lemma writing_add_content [simp]: "writing p (add_content p x st) \<longleftrightarrow> writing p st"
  by (simp add: writing_def add_content_def)

lemma writing_core: "core st = core st' \<Longrightarrow> writing p st \<longleftrightarrow> writing p st'"
  using core_fields [of st st'] by (simp add: writing_def)

lemma content_data_writes:
  assumes "writes_all io" "writing p st"
  shows "parse_multipart_content_data io st x = (True, add_content p x st)"
proof (cases "x = []")
  case False
  then show ?thesis using assms by (simp add: parse_multipart_content_data_def writes_all_def writing_def write_file_def add_content_def Let_def)
qed (simp add: parse_multipart_content_data_def)

section \<open>The automaton\<close>

definition delimiter :: "string \<Rightarrow> string" where
  "delimiter b = CR # LF # b"

text \<open>The part of the delimiter that the text read so far may end in.\<close>

definition pend_step :: "string \<Rightarrow> string \<Rightarrow> char \<Rightarrow> string" where
  "pend_step b q c = (if c = CR then [CR] else if q \<noteq> [] \<and> prefix (q @ [c]) (delimiter b) then q @ [c] else [])"

definition pend :: "string \<Rightarrow> string \<Rightarrow> string" where
  "pend b m = foldl (pend_step b) [] m"

lemma pend_snoc [simp]: "pend b (m @ [c]) = pend_step b (pend b m) c"
  by (simp add: pend_def)

lemma pend_nil [simp]: "pend b [] = []"
  by (simp add: pend_def)

lemma pend_suffix: "suffix (pend b m) m"
proof (induction m rule: rev_induct)
  case (snoc c m)
  then show ?case by (auto simp: pend_step_def suffix_def)
qed simp

lemma pend_prefix: "prefix (pend b m) (delimiter b)"
  by (induction m rule: rev_induct) (auto simp: pend_step_def delimiter_def)

lemma pend_shape:
  assumes "pend b m \<noteq> delimiter b"
  shows "pend b m = [] \<or> pend b m = [CR] \<or> (\<exists>k<length b. pend b m = CR # LF # take k b)"
proof -
  obtain k where k: "pend b m = take k (CR # LF # b)"
    using pend_prefix [of b m] unfolding prefix_def delimiter_def by (metis append_eq_conv_conj)
  show ?thesis
  proof (cases k)
    case (Suc j)
    then show ?thesis using k assms by (cases j) (auto simp: delimiter_def not_less intro: exI [of _ "j - 1"])
  qed (use k in simp)
qed

text \<open>A delimiter whose boundary has no carriage return is always found.\<close>

lemma pend_delimiter:
  assumes "CR \<notin> set b"
  shows "pend b (m @ delimiter b) = delimiter b"
proof -
  have "foldl (pend_step b) (CR # LF # take k b) (drop k b) = CR # LF # b" if "k \<le> length b" for k
    using that
  proof (induction "length b - k" arbitrary: k)
    case (Suc n)
    then have k: "k < length b" by simp
    then have "drop k b = b ! k # drop (Suc k) b" "take (Suc k) b = take k b @ [b ! k]" by (simp_all add: Cons_nth_drop_Suc take_Suc_conv_app_nth)
    moreover have "b ! k \<noteq> CR" using assms k by (metis nth_mem)
    moreover have "prefix (CR # LF # take (Suc k) b) (delimiter b)" by (simp add: delimiter_def take_is_prefix)
    ultimately show ?case using Suc.hyps(1) [of "Suc k"] Suc.hyps(2) k by (simp add: pend_step_def)
  qed simp
  from this [of 0] have "foldl (pend_step b) [CR, LF] b = CR # LF # b" by simp
  then show ?thesis by (simp add: pend_def delimiter_def pend_step_def)
qed

section \<open>Scanning content\<close>

lemma schar_ascii: "(of_char x :: nat) < 128 \<Longrightarrow> schar c = int (of_char x) \<longleftrightarrow> c = x"
proof (cases "(of_char c :: nat) < 128")
  case False
  assume x: "(of_char x :: nat) < 128"
  have "schar c = int (of_char c) - 256" using False by (simp add: schar_def)
  then have "schar c < 0" using nat_of_char_less_256 [of c] by linarith
  then show ?thesis using x False by auto
qed (simp add: schar_def)

lemma take_update0: "l \<noteq> [] \<Longrightarrow> take (Suc 0) (l[0 := x]) = [x]"
  by (cases l) auto

definition boundary_ok :: "string \<Rightarrow> bool" where
  "boundary_ok b \<longleftrightarrow> b \<noteq> [] \<and> CR \<notin> set b \<and> (\<forall>c\<in>set b. (of_char c :: nat) < 128)"

lemma boundary_byte_eq:
  assumes "boundary_ok b" "mp_boundary st = Some b" "mp_index st < length b"
  shows "boundary_byte st c \<longleftrightarrow> c = b ! mp_index st"
  using assms by (simp add: boundary_byte_def boundary_ok_def str_at_def schar_ascii)

text \<open>
  The states in the middle of a content: \<open>m\<close> is the content read so far, \<open>f\<close> what has been written of it, and the rest is
  either in the look-behind buffer or in the buffer from \<open>mark\<close> on.
\<close>

inductive scanning :: "multipart_state \<Rightarrow> string \<Rightarrow> string \<Rightarrow> string \<Rightarrow> nat \<Rightarrow> nat \<Rightarrow> string \<Rightarrow> multipart_state \<Rightarrow> bool"
  for st0 p b buf i mark m st where
  resource: "mp_status st = Resource \<Longrightarrow> core st = core (add_content p f st0) \<Longrightarrow> length b + 2 \<le> length (mp_look_behind st) \<Longrightarrow>
     m = f @ (if i < length buf then slice buf mark i else []) \<Longrightarrow> mark \<le> i \<Longrightarrow> scanning st0 p b buf i mark m st"
| waiting: "mp_status st = Resource_boundary_waiting \<Longrightarrow> core st = core (add_content p f st0) \<Longrightarrow> length b + 2 \<le> length (mp_look_behind st) \<Longrightarrow>
     take 1 (mp_look_behind st) = [CR] \<Longrightarrow> m = f @ [CR] \<Longrightarrow> scanning st0 p b buf i mark m st"
| boundary: "mp_status st = Resource_boundary \<Longrightarrow> core st = core (add_content p f st0) \<Longrightarrow> length b + 2 \<le> length (mp_look_behind st) \<Longrightarrow>
     mp_index st = k \<Longrightarrow> k < length b \<Longrightarrow> take (k + 2) (mp_look_behind st) = CR # LF # take k b \<Longrightarrow>
     m = f @ CR # LF # take k b \<Longrightarrow> scanning st0 p b buf i mark m st"

text \<open>One more byte in the state \<open>resource\<close>.\<close>

lemma slice_Suc: "mark \<le> i \<Longrightarrow> i < length buf \<Longrightarrow> slice buf mark (Suc i) = slice buf mark i @ [buf ! i]"
  by (simp add: slice_def Suc_diff_le take_Suc_conv_app_nth)

lemma resource_char:
  assumes io: "writes_all io" "writing p st0" and i: "i < length buf" "mark \<le> i"
    and st: "mp_status st = Resource" "core st = core (add_content p f st0)" "length b + 2 \<le> length (mp_look_behind st)"
  obtains mark' st' where "multipart_step io buf i mark st = Proceed (Suc i) mark' st'"
    "scanning st0 p b buf (Suc i) mark' (f @ slice buf mark i @ [buf ! i]) st'"
    "buf ! i = CR \<Longrightarrow> mp_status st' = Resource_boundary_waiting" "buf ! i \<noteq> CR \<Longrightarrow> mp_status st' = Resource"
proof -
  have w: "writing p st" using io(2) writing_core [OF st(2), of p] by simp
  note cd = content_data_writes [OF io(1) w]
  have core: "core (add_content p x st) = core (add_content p (f @ x) st0)" for x
    using st(2) by (simp add: core_add_content)
  show ?thesis
  proof (cases "buf ! i = CR")
    case True
    let ?st = "(add_content p (slice buf mark i) st)\<lparr>mp_status := Resource_boundary_waiting, mp_look_behind := (mp_look_behind st)[0 := CR]\<rparr>"
    have ne: "mp_look_behind st \<noteq> []" using st(3) by auto
    have "multipart_step io buf i mark st = Proceed (Suc i) i ?st"
      using True st(1) by (simp add: multipart_step_def case_resource_def cd)
    moreover have "scanning st0 p b buf (Suc i) i (f @ slice buf mark i @ [buf ! i]) ?st"
      by (rule scanning.waiting [where f = "f @ slice buf mark i"]) (use True core st(3) ne in \<open>auto simp: take_update0\<close>)
    ultimately show ?thesis using that True by simp
  next
    case False
    show ?thesis
    proof (cases "Suc i = length buf")
      case True
      let ?st = "add_content p (slice buf mark (Suc i)) st"
      have "Suc (length buf - Suc 0) = length buf" using i by simp
      then have "multipart_step io buf i mark st = Proceed (Suc i) mark ?st"
        using True False st(1) i by (simp add: multipart_step_def case_resource_def cd)
      moreover have "slice buf mark (length buf) = slice buf mark i @ [buf ! i]" using slice_Suc [OF i(2,1)] True by simp
      then have "scanning st0 p b buf (Suc i) mark (f @ slice buf mark i @ [buf ! i]) ?st"
        by (intro scanning.resource [where f = "f @ slice buf mark (Suc i)"]) (use True core st i in auto)
      ultimately show ?thesis using that False st(1) by simp
    next
      case no: False
      have "i \<noteq> length buf - 1" using no i by auto
      then have "multipart_step io buf i mark st = Proceed (Suc i) mark st"
        using False st(1) by (simp add: multipart_step_def case_resource_def)
      moreover have "scanning st0 p b buf (Suc i) mark (f @ slice buf mark i @ [buf ! i]) st"
        by (rule scanning.resource [where f = f]) (use no st i in \<open>auto simp: slice_Suc\<close>)
      ultimately show ?thesis using that False st(1) by simp
    qed
  qed
qed

inductive_cases scanningE: "scanning st0 p b buf i mark m st"

lemma slice_empty [simp]: "slice buf i i = []"
  by (simp add: slice_def)

lemma loop_step: "i < length buf \<Longrightarrow> multipart_step io buf i mark st = Proceed j mark' st' \<Longrightarrow> multipart_loop io buf i mark st = multipart_loop io buf j mark' st'"
  by (simp add: multipart_loop.simps [of io buf i])

lemma loop_same_step: "i < length buf \<Longrightarrow> multipart_step io buf i mark st = multipart_step io buf i mark' st' \<Longrightarrow>
  multipart_loop io buf i mark st = multipart_loop io buf i mark' st'"
  by (simp add: multipart_loop.simps [of io buf i])

text \<open>After the bytes in the look-behind buffer turned out to be content, the byte is looked at again.\<close>

lemma resume_resource:
  assumes io: "writes_all io" "writing p st0" and i: "i < length buf"
    and st: "core st = core (add_content p f st0)" "length b + 2 \<le> length (mp_look_behind st)"
    and step: "multipart_step io buf i mark st = proceed_if (parse_multipart_content_data io st q) i (\<lambda>st. Proceed i i (st\<lparr>mp_status := Resource\<rparr>))"
  obtains mark' st' where "multipart_loop io buf i mark st = multipart_loop io buf (Suc i) mark' st'"
    "scanning st0 p b buf (Suc i) mark' (f @ q @ [buf ! i]) st'"
    "buf ! i = CR \<Longrightarrow> mp_status st' = Resource_boundary_waiting" "buf ! i \<noteq> CR \<Longrightarrow> mp_status st' = Resource"
proof -
  have w: "writing p st" using io(2) writing_core [OF st(1), of p] by simp
  let ?st = "(add_content p q st)\<lparr>mp_status := Resource\<rparr>"
  have "multipart_step io buf i mark st = Proceed i i ?st" using step content_data_writes [OF io(1) w] by simp
  then have loop: "multipart_loop io buf i mark st = multipart_loop io buf i i ?st" by (rule loop_step [OF i])
  have s: "mp_status ?st = Resource" "core ?st = core (add_content p (f @ q) st0)" "length b + 2 \<le> length (mp_look_behind ?st)"
    using st by (simp_all add: core_add_content)
  obtain mark' st' where st': "multipart_step io buf i i ?st = Proceed (Suc i) mark' st'"
    "scanning st0 p b buf (Suc i) mark' ((f @ q) @ slice buf i i @ [buf ! i]) st'"
    "buf ! i = CR \<Longrightarrow> mp_status st' = Resource_boundary_waiting" "buf ! i \<noteq> CR \<Longrightarrow> mp_status st' = Resource"
    by (rule resource_char [OF io i order_refl s]) blast
  then show ?thesis using that [of mark' st'] loop loop_step [OF i st'(1)] by simp
qed

lemma scanning_status: "scanning st0 p b buf i mark m st \<Longrightarrow>
  mp_status st = Resource \<or> mp_status st = Resource_boundary_waiting \<or> mp_status st = Resource_boundary"
  by (auto elim: scanningE)

text \<open>The status says what the automaton holds.\<close>

definition holds_pend :: "string \<Rightarrow> string \<Rightarrow> multipart_state \<Rightarrow> bool" where
  "holds_pend b m st \<longleftrightarrow> pend b m = (case mp_status st of Resource_boundary_waiting \<Rightarrow> [CR]
     | Resource_boundary \<Rightarrow> CR # LF # take (mp_index st) b | _ \<Rightarrow> [])"

lemma prefix_delimiter:
  assumes "k \<le> length b"
  shows "prefix (CR # LF # take k b @ [c]) (delimiter b) \<longleftrightarrow> k < length b \<and> c = b ! k"
proof -
  have "prefix (take k b @ [c]) b \<longleftrightarrow> k < length b \<and> c = b ! k"
  proof
    assume "prefix (take k b @ [c]) b"
    then obtain zs where "b = take k b @ c # zs" by (auto simp: prefix_def)
    then show "k < length b \<and> c = b ! k" using assms by (metis append_take_drop_id drop_eq_Nil length_take list.distinct(1) min.absorb2 not_le nth_append_length same_append_eq)
  next
    assume "k < length b \<and> c = b ! k"
    then show "prefix (take k b @ [c]) b" using take_is_prefix [of "Suc k" b] by (simp add: take_Suc_conv_app_nth)
  qed
  then show ?thesis by (simp add: delimiter_def)
qed

lemma scan_char:
  assumes io: "writes_all io" "writing p st0" and b: "boundary_ok b" "mp_boundary st0 = Some b" and i: "i < length buf"
    and sc: "scanning st0 p b buf i mark m st" "holds_pend b m st" and go: "pend b (m @ [buf ! i]) \<noteq> delimiter b"
  obtains mark' st' where "multipart_loop io buf i mark st = multipart_loop io buf (Suc i) mark' st'"
    "scanning st0 p b buf (Suc i) mark' (m @ [buf ! i]) st'" "holds_pend b (m @ [buf ! i]) st'"
  using sc(1)
proof (cases rule: scanning.cases)
  case (resource f)
  obtain mark' st' where st': "multipart_step io buf i mark st = Proceed (Suc i) mark' st'"
    "scanning st0 p b buf (Suc i) mark' (f @ slice buf mark i @ [buf ! i]) st'"
    "buf ! i = CR \<Longrightarrow> mp_status st' = Resource_boundary_waiting" "buf ! i \<noteq> CR \<Longrightarrow> mp_status st' = Resource"
    by (rule resource_char [OF io i resource(5,1-3)]) blast
  have "pend b m = []" using sc(2) resource(1) by (simp add: holds_pend_def)
  then have "holds_pend b (m @ [buf ! i]) st'" using st'(3,4) by (auto simp: holds_pend_def pend_step_def)
  moreover have "f @ slice buf mark i @ [buf ! i] = m @ [buf ! i]" using resource(4) i by simp
  ultimately show ?thesis using that [OF loop_step [OF i st'(1)]] st'(2) by metis
next
  case (waiting f)
  have q: "pend b m = [CR]" using sc(2) waiting(1) by (simp add: holds_pend_def)
  show ?thesis
  proof (cases "buf ! i = LF")
    case True
    let ?st = "st\<lparr>mp_status := Resource_boundary, mp_look_behind := (mp_look_behind st)[1 := LF], mp_index := 0\<rparr>"
    have "multipart_step io buf i mark st = Proceed (Suc i) mark ?st" using waiting(1) True by (simp add: multipart_step_def case_boundary_waiting_def)
    moreover have "scanning st0 p b buf (Suc i) mark (m @ [buf ! i]) ?st"
    proof (rule scanning.boundary [where f = f and k = 0])
      show "0 < length b" using b(1) by (simp add: boundary_ok_def)
      show "take (0 + 2) (mp_look_behind ?st) = CR # LF # take 0 b" using waiting(3,4) by (cases "mp_look_behind st"; cases "tl (mp_look_behind st)") auto
    qed (use waiting True in auto)
    moreover have "holds_pend b (m @ [buf ! i]) ?st" using q True by (simp add: holds_pend_def pend_step_def delimiter_def)
    ultimately show ?thesis using that loop_step [OF i] by blast
  next
    case False
    have "multipart_step io buf i mark st = proceed_if (parse_multipart_content_data io st [CR]) i (\<lambda>st. Proceed i i (st\<lparr>mp_status := Resource\<rparr>))"
      using waiting(1,4) False by (simp add: multipart_step_def case_boundary_waiting_def)
    then obtain mark' st' where st': "multipart_loop io buf i mark st = multipart_loop io buf (Suc i) mark' st'"
      "scanning st0 p b buf (Suc i) mark' (f @ [CR] @ [buf ! i]) st'"
      "buf ! i = CR \<Longrightarrow> mp_status st' = Resource_boundary_waiting" "buf ! i \<noteq> CR \<Longrightarrow> mp_status st' = Resource"
      by (rule resume_resource [OF io i waiting(2,3)]) blast
    have "\<not> prefix [CR, buf ! i] (delimiter b)" using False by (simp add: delimiter_def)
    then have "holds_pend b (m @ [buf ! i]) st'" using st'(3,4) q by (auto simp: holds_pend_def pend_step_def)
    moreover have "f @ [CR] @ [buf ! i] = m @ [buf ! i]" using waiting(5) by simp
    ultimately show ?thesis using that [OF st'(1)] st'(2) by metis
  qed
next
  case (boundary f k)
  have bd: "mp_boundary st = Some b" using core_fields(4) [OF boundary(2)] b(2) by simp
  have q: "pend b m = CR # LF # take k b" using sc(2) boundary(1,4) by (simp add: holds_pend_def)
  have byte: "boundary_byte st (buf ! i) \<longleftrightarrow> buf ! i = b ! k" using boundary_byte_eq [OF b(1) bd] boundary(4,5) by simp
  show ?thesis
  proof (cases "buf ! i = b ! k")
    case True
    then have nCR: "buf ! i \<noteq> CR" using b(1) boundary(5) by (metis boundary_ok_def nth_mem)
    then have q': "pend b (m @ [buf ! i]) = CR # LF # take (Suc k) b"
      using q True boundary(5) prefix_delimiter [of k b "buf ! i"] by (simp add: pend_step_def take_Suc_conv_app_nth)
    then have k: "Suc k < length b" using go boundary(5) by (auto simp: delimiter_def not_less)
    let ?st = "st\<lparr>mp_look_behind := (mp_look_behind st)[2 + k := buf ! i], mp_index := Suc k\<rparr>"
    have "multipart_step io buf i mark st = Proceed (Suc i) mark ?st"
      using boundary(1,4) True byte k bd by (simp add: multipart_step_def case_boundary_def Let_def)
    moreover have "scanning st0 p b buf (Suc i) mark (m @ [buf ! i]) ?st"
    proof (rule scanning.boundary [where f = f and k = "Suc k"])
      show "take (Suc k + 2) (mp_look_behind ?st) = CR # LF # take (Suc k) b"
        using boundary(3,5,6) True by (simp add: take_Suc_conv_app_nth take_update_cancel)
    qed (use boundary True k in \<open>auto simp: take_Suc_conv_app_nth\<close>)
    ultimately show ?thesis using that loop_step [OF i] q' boundary(1) by (simp add: holds_pend_def)
  next
    case False
    have "multipart_step io buf i mark st = proceed_if (parse_multipart_content_data io st (CR # LF # take k b)) i (\<lambda>st. Proceed i i (st\<lparr>mp_status := Resource\<rparr>))"
      using boundary(1,4,6) False byte by (simp add: multipart_step_def case_boundary_def add.commute)
    then obtain mark' st' where st': "multipart_loop io buf i mark st = multipart_loop io buf (Suc i) mark' st'"
      "scanning st0 p b buf (Suc i) mark' (f @ (CR # LF # take k b) @ [buf ! i]) st'"
      "buf ! i = CR \<Longrightarrow> mp_status st' = Resource_boundary_waiting" "buf ! i \<noteq> CR \<Longrightarrow> mp_status st' = Resource"
      by (rule resume_resource [OF io i boundary(2,3)]) blast
    have "\<not> prefix (CR # LF # take k b @ [buf ! i]) (delimiter b)" using False prefix_delimiter [of k b "buf ! i"] boundary(5) by simp
    then have "holds_pend b (m @ [buf ! i]) st'" using st'(3,4) q by (auto simp: holds_pend_def pend_step_def)
    moreover have "f @ (CR # LF # take k b) @ [buf ! i] = m @ [buf ! i]" using boundary(7) by simp
    ultimately show ?thesis using that [OF st'(1)] st'(2) by metis
  qed
qed

lemma nth_middle: "buf = pre @ c # rest \<Longrightarrow> i = length pre \<Longrightarrow> buf ! i = c \<and> i < length buf"
  by simp

lemma scan_text:
  assumes io: "writes_all io" "writing p st0" and b: "boundary_ok b" "mp_boundary st0 = Some b"
  shows "buf = pre @ t @ rest \<Longrightarrow> i = length pre \<Longrightarrow> scanning st0 p b buf i mark m st \<Longrightarrow> holds_pend b m st \<Longrightarrow>
    (\<And>u. prefix u t \<Longrightarrow> u \<noteq> [] \<Longrightarrow> pend b (m @ u) \<noteq> delimiter b) \<Longrightarrow>
    \<exists>mark' st'. multipart_loop io buf i mark st = multipart_loop io buf (i + length t) mark' st'
      \<and> scanning st0 p b buf (i + length t) mark' (m @ t) st' \<and> holds_pend b (m @ t) st'"
proof (induction t arbitrary: pre i mark m st)
  case Nil
  then show ?case by auto
next
  case (Cons c t)
  have c: "buf ! i = c" "i < length buf" using nth_middle [of buf pre c "t @ rest" i] Cons.prems(1,2) by simp_all
  have "pend b (m @ [buf ! i]) \<noteq> delimiter b" using Cons.prems(5) [of "[c]"] c(1) by simp
  then obtain mark1 st1 where st1: "multipart_loop io buf i mark st = multipart_loop io buf (Suc i) mark1 st1"
    "scanning st0 p b buf (Suc i) mark1 (m @ [c]) st1" "holds_pend b (m @ [c]) st1"
    using scan_char [OF io b c(2) Cons.prems(3,4)] c(1) by metis
  have "pend b ((m @ [c]) @ u) \<noteq> delimiter b" if "prefix u t" "u \<noteq> []" for u using Cons.prems(5) [of "c # u"] that by simp
  then obtain mark2 st2 where "multipart_loop io buf (Suc i) mark1 st1 = multipart_loop io buf (Suc i + length t) mark2 st2"
    "scanning st0 p b buf (Suc i + length t) mark2 ((m @ [c]) @ t) st2" "holds_pend b ((m @ [c]) @ t) st2"
    using Cons.IH [of "pre @ [c]" "Suc i" mark1 "m @ [c]" st1] Cons.prems(1,2) st1(2,3) by auto
  then show ?case using st1(1) by auto
qed

text \<open>The end of a content.\<close>

definition finish_resource :: "multipart_state \<Rightarrow> multipart_state" where
  "finish_resource st = st\<lparr>mp_stream := None, mp_resources := map_option (\<lambda>rs. rs @ [mp_data st]) (mp_resources st),
     mp_called := (if mp_callback st then mp_called st @ [mp_data st] else mp_called st)\<rparr>"

lemma core_finish: "core (finish_resource st) = finish_resource (core st)"
  by (simp add: core_def finish_resource_def)

lemma scan_end:
  assumes io: "writing p st0" "mp_resources st0 \<noteq> None" and b: "boundary_ok b" "mp_boundary st0 = Some b" and i: "i < length buf"
    and sc: "scanning st0 p b buf i mark m st" "holds_pend b m st" and fin: "pend b (m @ [buf ! i]) = delimiter b" "m @ [buf ! i] = f @ delimiter b"
  obtains st' where "multipart_loop io buf i mark st = multipart_loop io buf (Suc i) mark st'" "mp_status st' = Resource_waiting"
    "core st' = core (finish_resource (add_content p f st0))" "length b + 2 \<le> length (mp_look_behind st')"
proof -
  have q: "pend b m @ [buf ! i] = delimiter b" using fin(1) b(1) by (auto simp: pend_step_def delimiter_def boundary_ok_def split: if_splits)
  have lq: "length (pend b m) = length b + 1" using arg_cong [OF q, of length] by (simp add: delimiter_def)
  from sc(1) show ?thesis
  proof (cases rule: scanning.cases)
    case (boundary g k)
    have "pend b m = CR # LF # take k b" using sc(2) boundary(1,4) by (simp add: holds_pend_def)
    then have k1: "Suc k = length b" and k3: "take k b @ [buf ! i] = b"
      using lq q boundary(5) by (simp_all add: delimiter_def)
    have "(take k b @ [buf ! i]) ! k = buf ! i" using boundary(5) by (simp add: nth_append)
    then have k: "Suc k = length b" "buf ! i = b ! k" "b = take k b @ [buf ! i]" using k1 k3 by simp_all
    have "m @ [buf ! i] = g @ delimiter b" using boundary(7) k3 by (simp add: delimiter_def)
    then have g: "g = f" using fin(2) by simp
    have bd: "mp_boundary st = Some b" and rs: "mp_resources st = mp_resources st0" and w: "writing p st"
      using core_fields(4,5) [OF boundary(2)] b(2) writing_core [OF boundary(2)] io(1) by simp_all
    have byte: "boundary_byte st (buf ! i)" using boundary_byte_eq [OF b(1) bd] boundary(4,5) k(2) by simp
    let ?st = "st\<lparr>mp_look_behind := (mp_look_behind st)[2 + k := buf ! i], mp_index := Suc k\<rparr>"
    have "parse_multipart_resource_end ?st = (True, finish_resource ?st)"
      using io(2) rs w by (auto simp: parse_multipart_resource_end_def finish_resource_def writing_def)
    then have "multipart_step io buf i mark st = Proceed (Suc i) mark ((finish_resource ?st)\<lparr>mp_status := Resource_waiting\<rparr>)"
      using boundary(1,4) byte k(1) bd by (simp add: multipart_step_def case_boundary_def Let_def)
    moreover have "core (finish_resource ?st) = core (finish_resource (add_content p f st0))"
      using boundary(2) g by (simp add: core_finish)
    moreover have "length b + 2 \<le> length (mp_look_behind (finish_resource ?st))" using boundary(3) by (simp add: finish_resource_def)
    ultimately show ?thesis using that loop_step [OF i] by simp
  next
    case (resource g)
    then show ?thesis using sc(2) lq by (simp add: holds_pend_def)
  next
    case (waiting g)
    then show ?thesis using sc(2) lq b(1) by (simp add: holds_pend_def boundary_ok_def)
  qed
qed

lemma no_early_delimiter:
  assumes "\<not> sublist (delimiter b) (content @ butlast (delimiter b))" "prefix u (content @ butlast (delimiter b))"
  shows "pend b u \<noteq> delimiter b"
proof
  assume "pend b u = delimiter b"
  then have "suffix (delimiter b) u" using pend_suffix [of b u] by simp
  then have "sublist (delimiter b) (content @ butlast (delimiter b))"
    using assms(2) by (meson prefix_imp_sublist sublist_order.order_trans suffix_imp_sublist)
  then show False using assms(1) by simp
qed

lemma content_loop:
  assumes io: "writes_all io" "writing p st" "mp_resources st \<noteq> None" and b: "boundary_ok b" "mp_boundary st = Some b"
    and look: "length b + 2 \<le> length (mp_look_behind st)" and st: "mp_status st = Resource_start"
    and buf: "buf = pre @ content @ delimiter b @ rest" and free: "\<not> sublist (delimiter b) (content @ butlast (delimiter b))"
  obtains mark' st' where "multipart_loop io buf (length pre) mark st = multipart_loop io buf (length (pre @ content @ delimiter b)) mark' st'"
    "mp_status st' = Resource_waiting" "core st' = core (finish_resource (add_content p content st))" "length b + 2 \<le> length (mp_look_behind st')"
proof -
  let ?i = "length pre" and ?t = "content @ butlast (delimiter b)"
  let ?st = "st\<lparr>mp_status := Resource\<rparr>"
  have d: "delimiter b = butlast (delimiter b) @ [last b]" using b(1) by (simp add: delimiter_def boundary_ok_def)
  then have bt: "buf = pre @ ?t @ last b # rest" using buf by (metis append.assoc append_Cons append_Nil)
  have len: "?i < length buf" using buf by (simp add: delimiter_def)
  have "multipart_step io buf ?i mark st = multipart_step io buf ?i ?i ?st" using st by (simp add: multipart_step_def)
  then have "multipart_loop io buf ?i mark st = multipart_loop io buf ?i ?i ?st" by (rule loop_same_step [OF len])
  moreover have "scanning st p b buf ?i ?i [] ?st"
    by (rule scanning.resource [where f = "[]"]) (use look len in auto)
  moreover have "holds_pend b [] ?st" by (simp add: holds_pend_def)
  moreover have "pend b ([] @ u) \<noteq> delimiter b" if "prefix u ?t" for u using no_early_delimiter [OF free that] by simp
  ultimately obtain mark1 st1 where st1: "multipart_loop io buf ?i mark st = multipart_loop io buf (?i + length ?t) mark1 st1"
    "scanning st p b buf (?i + length ?t) mark1 ([] @ ?t) st1" "holds_pend b ([] @ ?t) st1"
    using scan_text [OF io(1,2) b bt refl, of ?i "[]" ?st] by metis
  have c: "buf ! (?i + length ?t) = last b" "?i + length ?t < length buf" using bt nth_middle [of buf "pre @ ?t" "last b" rest] by simp_all
  have full: "?t @ [last b] = content @ delimiter b" using d by simp
  have "CR \<notin> set b" using b(1) by (simp add: boundary_ok_def)
  then have "pend b (([] @ ?t) @ [buf ! (?i + length ?t)]) = delimiter b" using pend_delimiter [of b content] full c(1) by (metis append_Nil)
  moreover have "([] @ ?t) @ [buf ! (?i + length ?t)] = content @ delimiter b" using full c(1) by simp
  ultimately obtain st2 where st2: "multipart_loop io buf (?i + length ?t) mark1 st1 = multipart_loop io buf (Suc (?i + length ?t)) mark1 st2"
    "mp_status st2 = Resource_waiting" "core st2 = core (finish_resource (add_content p content st))" "length b + 2 \<le> length (mp_look_behind st2)"
    using scan_end [OF io(2,3) b c(2) st1(2,3)] by metis
  have "length (content @ delimiter b) = Suc (length ?t)" using arg_cong [OF full, of length] by simp
  then have "Suc (?i + length ?t) = length (pre @ content @ delimiter b)" by simp
  then show ?thesis using that [of mark1 st2] st1(1) st2 by metis
qed

section \<open>Content in pieces\<close>

definition content_repr :: "multipart_state \<Rightarrow> string \<Rightarrow> string \<Rightarrow> multipart_state \<Rightarrow> string \<Rightarrow> bool" where
  "content_repr st0 p b st m \<longleftrightarrow> (\<not> sublist (delimiter b) m \<longrightarrow> scanning st0 p b [] 0 0 m st \<and> holds_pend b m st)"

lemma scanning_start: "scanning st0 p b [] 0 0 m st \<longleftrightarrow> scanning st0 p b buf 0 0 m st"
  by (auto simp: scanning.simps)

lemma scanning_stop: "scanning st0 p b buf (length buf) mark m st \<Longrightarrow> scanning st0 p b [] 0 0 m st"
  by (auto simp: scanning.simps)

lemma content_feed:
  assumes io: "writes_all io" "writing p st0" and b: "boundary_ok b" "mp_boundary st0 = Some b"
    and rep: "content_repr st0 p b st m"
  shows "content_repr st0 p b (snd (multipart_parse io b buf st)) (m @ buf)"
proof (cases "sublist (delimiter b) (m @ buf)")
  case False
  have "sublist m (m @ buf)" by simp
  then have "\<not> sublist (delimiter b) m" using False by (meson sublist_order.order_trans)
  then have sc: "scanning st0 p b buf 0 0 m st" "holds_pend b m st" using rep by (auto simp: content_repr_def scanning_start [of st0 p b m st buf])
  have bd: "mp_boundary st = Some b"
    using sc(1) b(2) by (auto elim!: scanningE dest!: core_fields(4))
  have "pend b (m @ u) \<noteq> delimiter b" if "prefix u buf" for u
  proof
    assume "pend b (m @ u) = delimiter b"
    then have "suffix (delimiter b) (m @ u)" using pend_suffix [of b "m @ u"] by simp
    moreover have "prefix (m @ u) (m @ buf)" using that by simp
    ultimately show False using False by (meson prefix_imp_sublist sublist_order.order_trans suffix_imp_sublist)
  qed
  then obtain mark' st' where st': "multipart_loop io buf 0 0 st = multipart_loop io buf (0 + length buf) mark' st'"
    "scanning st0 p b buf (0 + length buf) mark' (m @ buf) st'" "holds_pend b (m @ buf) st'"
    using scan_text [OF io b, of buf "[]" buf "[]" 0 0 m st] sc by auto
  have "multipart_loop io buf (0 + length buf) mark' st' = (int (length buf), st')" by (simp add: multipart_loop.simps)
  then have "snd (multipart_parse io b buf st) = st'" using st'(1) bd by (simp add: multipart_parse_def)
  then show ?thesis using st'(2,3) scanning_stop [of st0 p b buf mark' "m @ buf" st'] by (simp add: content_repr_def)
qed (simp add: content_repr_def)

lemma content_stream:
  assumes "writes_all io" "writing p st0" "boundary_ok b" "mp_boundary st0 = Some b" "mp_status st0 = Resource" "length b + 2 \<le> length (mp_look_behind st0)"
  shows "stream_consumer st0 (\<lambda>st buf. Some (snd (multipart_parse io b buf st))) (content_repr st0 p b) (\<lambda>_. True)"
proof
  have "scanning st0 p b [] 0 0 [] st0" by (rule scanning.resource [where f = "[]"]) (use assms in auto)
  then show "content_repr st0 p b st0 []" using assms(5) by (simp add: content_repr_def holds_pend_def)
next
  fix s m c assume "content_repr st0 p b s m"
  then show "\<exists>t. Some (snd (multipart_parse io b c s)) = Some t \<and> content_repr st0 p b t (m @ c)"
    using content_feed [OF assms(1-4)] by simp
qed

text \<open>What of the content is in the file when it has been read up to some byte.\<close>

lemma scanning_file:
  assumes "scanning st0 p b [] 0 0 m st" "holds_pend b m st" "mp_files st0 p = Some old"
  shows "\<exists>f. m = f @ pend b m \<and> mp_files st p = Some (old @ f)"
proof -
  have files: "mp_files st p = Some (old @ f)" if "core st = core (add_content p f st0)" for f
    using core_fields(2) [OF that] assms(3) by (simp add: add_content_def)
  show ?thesis using assms(1,2) by (auto simp: holds_pend_def elim!: scanningE dest: files)
qed

end
