(* ===== verification/Http_Multipart_Body.thy ===== *)
theory Http_Multipart_Body
  imports Http_Multipart_Laws
begin

text \<open>
  A whole body in one buffer: how a body is printed, and what the parser makes of each of its lines.
\<close>

section \<open>Bodies\<close>

type_synonym body_part = "(string \<times> string) list \<times> string"

definition header_lines :: "(string \<times> string) list \<Rightarrow> string" where
  "header_lines hs = concat (map (\<lambda>(n, v). n @ '': '' @ v @ [CR, LF]) hs)"

fun parts_text :: "string \<Rightarrow> body_part list \<Rightarrow> string" where
  "parts_text b [] = ''--'' @ [CR, LF]"
| "parts_text b ((hs, c) # ps) = [CR, LF] @ header_lines hs @ [CR, LF] @ c @ delimiter b @ parts_text b ps"

definition multipart_body :: "string \<Rightarrow> body_part list \<Rightarrow> string" where
  "multipart_body b ps = b @ parts_text b ps"

definition field_name_ok :: "string \<Rightarrow> bool" where
  "field_name_ok n \<longleftrightarrow> n \<noteq> [] \<and> (\<forall>c\<in>set n. c = CHR ''-'' \<or> 97 \<le> schar (tolower c) \<and> schar (tolower c) \<le> 122)"

definition field_ok :: "string \<Rightarrow> bool" where
  "field_ok v \<longleftrightarrow> v \<noteq> [] \<and> hd v \<noteq> CHR '' '' \<and> CR \<notin> set v"

definition part_ok :: "string \<Rightarrow> body_part \<Rightarrow> bool" where
  "part_ok b part \<longleftrightarrow> (\<forall>(n, v)\<in>set (fst part). field_name_ok n \<and> field_ok v) \<and> \<not> sublist (delimiter b) (snd part @ butlast (delimiter b))"

section \<open>Lines\<close>

lemma loop_skip:
  "(\<And>k. k < n \<Longrightarrow> i + k < length buf \<and> multipart_step io buf (i + k) mark st = Proceed (Suc (i + k)) mark st) \<Longrightarrow>
   multipart_loop io buf i mark st = multipart_loop io buf (i + n) mark st"
proof (induction n)
  case (Suc n)
  then have "multipart_loop io buf i mark st = multipart_loop io buf (i + n) mark st" by simp
  also have "\<dots> = multipart_loop io buf (Suc (i + n)) mark st" using Suc.prems [of n] by (intro loop_step) auto
  finally show ?case by simp
qed simp

lemma nth_in_middle: "buf = pre @ t @ rest \<Longrightarrow> k < length t \<Longrightarrow> buf ! (length pre + k) = t ! k \<and> length pre + k < length buf"
  by (simp add: nth_append)

lemma slice_middle: "buf = pre @ t @ rest \<Longrightarrow> slice buf (length pre) (length pre + length t) = t"
  by (simp add: slice_def)

lemma name_char:
  assumes "field_name_ok n" "c \<in> set n"
  shows "c \<noteq> CR" "c \<noteq> CHR '':''" "\<not> (c \<noteq> CHR ''-'' \<and> (schar (tolower c) < 97 \<or> 122 < schar (tolower c)))"
proof -
  have *: "c = CHR ''-'' \<or> 97 \<le> schar (tolower c) \<and> schar (tolower c) \<le> 122" using assms by (auto simp: field_name_ok_def)
  then show "\<not> (c \<noteq> CHR ''-'' \<and> (schar (tolower c) < 97 \<or> 122 < schar (tolower c)))" by auto
  have "schar (tolower CR) = 13" "schar (tolower (CHR '':'')) = 58" by code_simp+
  then show "c \<noteq> CR" "c \<noteq> CHR '':''" using * by auto
qed

definition resource_header :: "string \<Rightarrow> string \<Rightarrow> resource \<Rightarrow> resource" where
  "resource_header n v r =
     (let r = (if n = ''Content-Disposition'' then disposition v r else if n = ''Content-Type'' then r\<lparr>rs_type := v\<rparr> else r)
      in r\<lparr>rs_headers := set_header (rs_headers r) (c_str n) v\<rparr>)"

lemma header_line_loop:
  assumes st: "mp_status st = Header_field_start" "\<not> mp_skip st" and n: "field_name_ok n" and v: "field_ok v"
    and buf: "buf = pre @ n @ '': '' @ v @ [CR, LF] @ rest"
  obtains mark' where "multipart_loop io buf (length pre) mark st = multipart_loop io buf (length (pre @ n @ '': '' @ v @ [CR, LF])) mark'
    (st\<lparr>mp_data := resource_header n v (mp_data st), mp_header := []\<rparr>)"
proof -
  let ?i = "length pre"
  let ?j = "?i + length n"
  let ?m = "length (pre @ n @ '': '')"
  have n0: "n \<noteq> []" and v0: "v \<noteq> []" using n v by (auto simp: field_name_ok_def field_ok_def)
  have last: "?i + k \<noteq> length buf - 1" if "k < length n" for k using that buf by simp
  let ?s1 = "st\<lparr>mp_status := Header_field\<rparr>"
  have "multipart_step io buf ?i mark st = multipart_step io buf ?i ?i ?s1" using st(1) by (simp add: multipart_step_def)
  then have "multipart_loop io buf ?i mark st = multipart_loop io buf ?i ?i ?s1"
    by (rule loop_same_step [rotated]) (use buf in simp)
  also have "\<dots> = multipart_loop io buf ?j ?i ?s1"
  proof (rule loop_skip)
    fix k assume k: "k < length n"
    have c: "buf ! (?i + k) = n ! k" "?i + k < length buf" using nth_in_middle [OF buf k] by auto
    then show "?i + k < length buf \<and> multipart_step io buf (?i + k) ?i ?s1 = Proceed (Suc (?i + k)) ?i ?s1"
      using name_char [OF n nth_mem [OF k]] last [OF k] by (simp add: multipart_step_def case_header_field_def Let_def)
  qed
  also have "\<dots> = multipart_loop io buf (Suc ?j) ?i (st\<lparr>mp_header := n, mp_status := Header_value_start\<rparr>)"
  proof (rule loop_step)
    have "buf ! ?j = CHR '':''" using buf by (simp add: nth_append)
    then show "multipart_step io buf ?j ?i ?s1 = Proceed (Suc ?j) ?i (st\<lparr>mp_header := n, mp_status := Header_value_start\<rparr>)"
      using slice_middle [OF buf] n0 by (simp add: multipart_step_def case_header_field_def parse_multipart_header_field_def)
  qed (use buf in simp)
  also have "\<dots> = multipart_loop io buf ?m ?i (st\<lparr>mp_header := n, mp_status := Header_value_start\<rparr>)"
  proof -
    have "buf ! Suc ?j = CHR '' ''" using buf by (simp add: nth_append)
    then have "multipart_step io buf (Suc ?j) ?i (st\<lparr>mp_header := n, mp_status := Header_value_start\<rparr>)
       = Proceed (Suc (Suc ?j)) ?i (st\<lparr>mp_header := n, mp_status := Header_value_start\<rparr>)" by (simp add: multipart_step_def)
    then show ?thesis using buf by (subst loop_step) auto
  qed
  finally have name: "multipart_loop io buf ?i mark st = multipart_loop io buf ?m ?i (st\<lparr>mp_header := n, mp_status := Header_value_start\<rparr>)" .
  let ?s2 = "st\<lparr>mp_header := n, mp_status := Header_value\<rparr>"
  have bufv: "buf = (pre @ n @ '': '') @ v @ [CR, LF] @ rest" using buf by simp
  have c0: "buf ! ?m = hd v" using nth_in_middle [OF bufv, of 0] v0 by (simp add: hd_conv_nth)
  have "multipart_step io buf ?m ?i (st\<lparr>mp_header := n, mp_status := Header_value_start\<rparr>) = multipart_step io buf ?m ?m ?s2"
    using c0 v by (simp add: multipart_step_def field_ok_def)
  then have "multipart_loop io buf ?m ?i (st\<lparr>mp_header := n, mp_status := Header_value_start\<rparr>) = multipart_loop io buf ?m ?m ?s2"
    by (rule loop_same_step [rotated]) (use bufv in simp)
  also have "\<dots> = multipart_loop io buf (?m + length v) ?m ?s2"
  proof (rule loop_skip)
    fix k assume k: "k < length v"
    have c: "buf ! (?m + k) = v ! k" "?m + k < length buf" using nth_in_middle [OF bufv k] by auto
    have "v ! k \<noteq> CR" using v nth_mem [OF k] unfolding field_ok_def by metis
    moreover have "?m + k \<noteq> length buf - 1" using k bufv by simp
    ultimately show "?m + k < length buf \<and> multipart_step io buf (?m + k) ?m ?s2 = Proceed (Suc (?m + k)) ?m ?s2"
      using c by (simp add: multipart_step_def case_header_value_def)
  qed
  also have "\<dots> = multipart_loop io buf (Suc (?m + length v)) ?m
      (st\<lparr>mp_data := resource_header n v (mp_data st), mp_header := [], mp_status := Header_value_waiting\<rparr>)"
  proof (rule loop_step)
    have "buf ! (?m + length v) = CR" using bufv by (metis append_Cons nth_middle length_append append.assoc)
    then show "multipart_step io buf (?m + length v) ?m ?s2 = Proceed (Suc (?m + length v)) ?m
      (st\<lparr>mp_data := resource_header n v (mp_data st), mp_header := [], mp_status := Header_value_waiting\<rparr>)"
      using slice_middle [OF bufv] v0 n0 st(2)
      by (simp add: multipart_step_def case_header_value_def parse_multipart_header_value_def resource_header_def Let_def)
  qed (use bufv in simp)
  also have "\<dots> = multipart_loop io buf (Suc (Suc (?m + length v))) ?m
      (st\<lparr>mp_data := resource_header n v (mp_data st), mp_header := [], mp_status := Header_field_start\<rparr>)"
  proof (rule loop_step)
    have "buf ! Suc (?m + length v) = LF" using bufv by (simp add: nth_append)
    then show "multipart_step io buf (Suc (?m + length v)) ?m (st\<lparr>mp_data := resource_header n v (mp_data st), mp_header := [], mp_status := Header_value_waiting\<rparr>)
      = Proceed (Suc (Suc (?m + length v))) ?m (st\<lparr>mp_data := resource_header n v (mp_data st), mp_header := [], mp_status := Header_field_start\<rparr>)"
      by (simp add: multipart_step_def)
  qed (use bufv in simp)
  also have "st\<lparr>mp_data := resource_header n v (mp_data st), mp_header := [], mp_status := Header_field_start\<rparr>
    = st\<lparr>mp_data := resource_header n v (mp_data st), mp_header := []\<rparr>" using st(1) by simp
  finally have field: "multipart_loop io buf ?m ?i (st\<lparr>mp_header := n, mp_status := Header_value_start\<rparr>)
    = multipart_loop io buf (Suc (Suc (?m + length v))) ?m (st\<lparr>mp_data := resource_header n v (mp_data st), mp_header := []\<rparr>)" .
  have "Suc (Suc (?m + length v)) = length (pre @ n @ '': '' @ v @ [CR, LF])" by simp
  then show ?thesis using that [of ?m] name field by metis
qed

definition part_headers :: "(string \<times> string) list \<Rightarrow> resource \<Rightarrow> resource" where
  "part_headers hs r = fold (\<lambda>(n, v). resource_header n v) hs r"

lemma header_lines_loop:
  "mp_status st = Header_field_start \<Longrightarrow> \<not> mp_skip st \<Longrightarrow> mp_header st = [] \<Longrightarrow> (\<And>n v. (n, v) \<in> set hs \<Longrightarrow> field_name_ok n \<and> field_ok v) \<Longrightarrow>
   buf = pre @ header_lines hs @ rest \<Longrightarrow>
   \<exists>mark'. multipart_loop io buf (length pre) mark st = multipart_loop io buf (length (pre @ header_lines hs)) mark' (st\<lparr>mp_data := part_headers hs (mp_data st)\<rparr>)"
proof (induction hs arbitrary: pre st mark)
  case Nil
  then show ?case by (auto simp: header_lines_def part_headers_def)
next
  case (Cons h hs)
  obtain n v where h: "h = (n, v)" by (cases h)
  have ok: "field_name_ok n" "field_ok v" using Cons.prems(4) h by auto
  have buf: "buf = pre @ n @ '': '' @ v @ [CR, LF] @ header_lines hs @ rest" using Cons.prems(5) h by (simp add: header_lines_def)
  let ?st = "st\<lparr>mp_data := resource_header n v (mp_data st), mp_header := []\<rparr>" and ?pre = "pre @ n @ '': '' @ v @ [CR, LF]"
  obtain mark1 where one: "multipart_loop io buf (length pre) mark st = multipart_loop io buf (length ?pre) mark1 ?st"
    by (rule header_line_loop [OF Cons.prems(1,2) ok buf])
  have "\<exists>mark'. multipart_loop io buf (length ?pre) mark1 ?st = multipart_loop io buf (length (?pre @ header_lines hs)) mark' (?st\<lparr>mp_data := part_headers hs (mp_data ?st)\<rparr>)"
    by (rule Cons.IH) (use Cons.prems buf in auto)
  moreover have "?st\<lparr>mp_data := part_headers hs (mp_data ?st)\<rparr> = st\<lparr>mp_data := part_headers (h # hs) (mp_data st)\<rparr>"
    using Cons.prems(3) h by (simp add: part_headers_def)
  moreover have "length (?pre @ header_lines hs) = length (pre @ header_lines (h # hs))" by (simp add: header_lines_def h)
  ultimately show ?case using one by metis
qed

lemma blank_line_loop:
  assumes "mp_status st = Header_field_start" "buf = pre @ [CR, LF] @ rest"
  obtains mark' where "multipart_loop io buf (length pre) mark st = multipart_loop io buf (length (pre @ [CR, LF])) mark' (st\<lparr>mp_status := Resource_start\<rparr>)"
proof -
  let ?i = "length pre"
  have c: "buf ! ?i = CR" "buf ! Suc ?i = LF" "Suc ?i < length buf" using assms(2) by (simp_all add: nth_append)
  have "multipart_loop io buf ?i mark st = multipart_loop io buf (Suc ?i) ?i (st\<lparr>mp_status := Header_field_waiting\<rparr>)"
    by (rule loop_step) (use c assms(1) in \<open>simp_all add: multipart_step_def case_header_field_def\<close>)
  also have "\<dots> = multipart_loop io buf (Suc (Suc ?i)) ?i (st\<lparr>mp_status := Resource_start\<rparr>)"
    by (rule loop_step) (use c in \<open>simp_all add: multipart_step_def\<close>)
  finally show ?thesis using that by simp
qed

section \<open>Parts\<close>

lemma part_loop:
  assumes io: "writes_all io" "writing p st" "mp_resources st \<noteq> None" and b: "boundary_ok b" "mp_boundary st = Some b"
    and st: "mp_status st = Header_field_start" "mp_header st = []" and look: "length b + 2 \<le> length (mp_look_behind st)"
    and part: "part_ok b (hs, c)" and buf: "buf = pre @ header_lines hs @ [CR, LF] @ c @ delimiter b @ rest"
  obtains mark' st' where
    "multipart_loop io buf (length pre) mark st = multipart_loop io buf (length (pre @ header_lines hs @ [CR, LF] @ c @ delimiter b)) mark' st'"
    "mp_status st' = Resource_waiting" "core st' = core (finish_resource (add_content p c (st\<lparr>mp_data := part_headers hs (mp_data st)\<rparr>)))"
    "length b + 2 \<le> length (mp_look_behind st')"
proof -
  let ?s1 = "st\<lparr>mp_data := part_headers hs (mp_data st)\<rparr>"
  obtain mark1 where 1: "multipart_loop io buf (length pre) mark st = multipart_loop io buf (length (pre @ header_lines hs)) mark1 ?s1"
    using header_lines_loop [OF st(1) _ st(2), of hs buf pre "[CR, LF] @ c @ delimiter b @ rest" io mark] io(2) part buf
    by (auto simp: writing_def part_ok_def)
  obtain mark2 where 2: "multipart_loop io buf (length (pre @ header_lines hs)) mark1 ?s1
      = multipart_loop io buf (length ((pre @ header_lines hs) @ [CR, LF])) mark2 (?s1\<lparr>mp_status := Resource_start\<rparr>)"
    by (rule blank_line_loop [of ?s1 buf "pre @ header_lines hs"]) (use st buf in auto)
  let ?pre = "(pre @ header_lines hs) @ [CR, LF]" and ?s2 = "?s1\<lparr>mp_status := Resource_start\<rparr>"
  have w: "writing p ?s2" using io(2) by (simp add: writing_def)
  have free: "\<not> sublist (delimiter b) (c @ butlast (delimiter b))" using part by (simp add: part_ok_def)
  have s2: "mp_resources ?s2 \<noteq> None" "mp_boundary ?s2 = Some b" "length b + 2 \<le> length (mp_look_behind ?s2)" "mp_status ?s2 = Resource_start"
    using io(3) b(2) look by simp_all
  have buf2: "buf = ?pre @ c @ delimiter b @ rest" using buf by simp
  obtain mark3 st3 where 3: "multipart_loop io buf (length ?pre) mark2 ?s2 = multipart_loop io buf (length (?pre @ c @ delimiter b)) mark3 st3"
    "mp_status st3 = Resource_waiting" "core st3 = core (finish_resource (add_content p c ?s2))" "length b + 2 \<le> length (mp_look_behind st3)"
    by (rule content_loop [OF io(1) w s2(1) b(1) s2(2-4) buf2 free])
  have "core (finish_resource (add_content p c ?s2)) = core (finish_resource (add_content p c ?s1))"
    by (simp add: core_finish core_add_content)
  moreover have "length (?pre @ c @ delimiter b) = length (pre @ header_lines hs @ [CR, LF] @ c @ delimiter b)" by simp
  ultimately show ?thesis using that [of mark3 st3] 1 2 3 by metis
qed

definition begun_resource :: "multipart_io \<Rightarrow> nat \<Rightarrow> string \<Rightarrow> resource \<Rightarrow> resource" where
  "begun_resource io n d r = r\<lparr>rs_headers := [], rs_name := [], rs_type := ''application/octet-stream'', rs_is_in_memory := False,
     rs_length := 0, rs_path := resource_path io n d\<rparr>"

definition begun :: "multipart_io \<Rightarrow> string \<Rightarrow> multipart_state \<Rightarrow> multipart_state" where
  "begun io d st = (let p = c_str (resource_path io (mp_draws st) d) in
     st\<lparr>mp_header := [], mp_data := begun_resource io (mp_draws st) d (mp_data st), mp_draws := mp_draws st + 1,
        mp_stream := Some p, mp_files := (mp_files st)(p \<mapsto> [])\<rparr>)"

definition between :: "string \<Rightarrow> string \<Rightarrow> nat \<Rightarrow> multipart_state \<Rightarrow> bool" where
  "between b d k st \<longleftrightarrow> \<not> mp_skip st \<and> mp_stream st = None \<and> mp_directory st = Some d \<and> mp_boundary st = Some b
     \<and> (\<exists>rs. mp_resources st = Some rs \<and> length rs + k \<le> mp_max_resources st)"

lemma resource_begin:
  assumes "\<And>path. io_open io path" "between b d (Suc k) st"
  shows "parse_multipart_resource_begin io st = (True, begun io d st)"
  using assms by (auto simp: between_def parse_multipart_resource_begin_def begun_def begun_resource_def Let_def)

text \<open>The state after a part whose resource was begun.\<close>

definition part_done :: "body_part \<Rightarrow> multipart_state \<Rightarrow> multipart_state" where
  "part_done part st = finish_resource (add_content (the (mp_stream st)) (snd part) (st\<lparr>mp_data := part_headers (fst part) (mp_data st)\<rparr>))"

fun parts_done :: "multipart_io \<Rightarrow> string \<Rightarrow> body_part list \<Rightarrow> multipart_state \<Rightarrow> multipart_state" where
  "parts_done io d [] st = st"
| "parts_done io d (part # ps) st = parts_done io d ps (part_done part (begun io d st))"

lemma core_begun: "core (begun io d st) = begun io d (core st)"
  by (simp add: core_def begun_def Let_def)

lemma core_part_done: "core (part_done part st) = part_done part (core st)"
  by (simp add: core_def part_done_def finish_resource_def add_content_def Let_def)

lemma core_parts_done: "core (parts_done io d ps st) = parts_done io d ps (core st)"
  by (induction ps arbitrary: st) (simp_all add: core_begun core_part_done)

lemma between_core: "core st = core st' \<Longrightarrow> between b d k st \<longleftrightarrow> between b d k st'"
  by (cases st; cases st'; simp add: core_def between_def)

lemma between_part_done: "between b d (Suc k) st \<Longrightarrow> between b d k (part_done part (begun io d st))"
  by (auto simp: between_def part_done_def begun_def finish_resource_def add_content_def Let_def)

lemma writing_begun: "\<not> mp_skip st \<Longrightarrow> writing (c_str (resource_path io (mp_draws st) d)) (begun io d st)"
  by (simp add: writing_def begun_def Let_def)

text \<open>From the end of one delimiter on.\<close>

lemma parts_loop:
  assumes io: "writes_all io" "\<And>path. io_open io path" and b: "boundary_ok b"
  shows "(\<And>part. part \<in> set ps \<Longrightarrow> part_ok b part) \<Longrightarrow> between b d (length ps) st \<Longrightarrow> mp_status st = Resource_waiting \<Longrightarrow>
    length b + 2 \<le> length (mp_look_behind st) \<Longrightarrow> buf = pre @ parts_text b ps \<Longrightarrow>
    \<exists>st'. multipart_loop io buf (length pre) mark st = (int (length buf), st') \<and> mp_status st' = End \<and> core st' = core (parts_done io d ps st)"
proof (induction ps arbitrary: pre st mark)
  case Nil
  let ?i = "length pre"
  have c: "buf ! ?i = CHR ''-''" "buf ! Suc ?i = CHR ''-''" "length buf = ?i + 4" using Nil.prems(5) by (simp_all add: nth_append)
  have "multipart_loop io buf ?i mark st = multipart_loop io buf (Suc ?i) mark (st\<lparr>mp_status := Resource_hyphen\<rparr>)"
    by (rule loop_step) (use c Nil.prems(3) in \<open>simp_all add: multipart_step_def\<close>)
  also have "\<dots> = multipart_loop io buf (Suc (Suc ?i)) mark (st\<lparr>mp_status := End\<rparr>)"
    by (rule loop_step) (use c in \<open>simp_all add: multipart_step_def\<close>)
  also have "\<dots> = multipart_loop io buf (Suc (Suc ?i) + 2) mark (st\<lparr>mp_status := End\<rparr>)"
    by (rule loop_skip) (use c(3) in \<open>simp add: multipart_step_def\<close>)
  also have "\<dots> = (int (length buf), st\<lparr>mp_status := End\<rparr>)" using c(3) by (simp add: multipart_loop.simps)
  finally show ?case by simp
next
  case (Cons part ps)
  obtain hs c where part: "part = (hs, c)" by (cases part)
  let ?i = "length pre" and ?st = "st\<lparr>mp_status := Header_field_start\<rparr>"
  have ch: "buf ! ?i = CR" "buf ! Suc ?i = LF" "Suc ?i < length buf" using Cons.prems(5) part by (simp_all add: nth_append)
  have bt: "between b d (Suc (length ps)) ?st" "\<not> mp_skip ?st" "mp_boundary ?st = Some b" "mp_resources ?st \<noteq> None"
    using Cons.prems(2) by (auto simp: between_def)
  let ?p = "c_str (resource_path io (mp_draws ?st) d)" and ?s1 = "begun io d ?st"
  have "multipart_loop io buf ?i mark st = multipart_loop io buf (Suc ?i) mark (st\<lparr>mp_status := Resource_end\<rparr>)"
    by (rule loop_step) (use ch Cons.prems(3) in \<open>simp_all add: multipart_step_def\<close>)
  also have "\<dots> = multipart_loop io buf (Suc (Suc ?i)) mark ?s1"
    by (rule loop_step) (use ch resource_begin [OF io(2) bt(1)] in \<open>simp_all add: multipart_step_def\<close>)
  finally have start: "multipart_loop io buf ?i mark st = multipart_loop io buf (length (pre @ [CR, LF])) mark ?s1" by simp
  have s1: "writing ?p ?s1" "mp_resources ?s1 \<noteq> None" "mp_boundary ?s1 = Some b" "mp_status ?s1 = Header_field_start" "mp_header ?s1 = []"
    "length b + 2 \<le> length (mp_look_behind ?s1)"
    using bt(2-4) writing_begun [of ?st io d] Cons.prems(4) by (auto simp: begun_def Let_def)
  have ok: "part_ok b (hs, c)" using Cons.prems(1) part by simp
  let ?pre = "(pre @ [CR, LF]) @ header_lines hs @ [CR, LF] @ c @ delimiter b"
  have buf: "buf = (pre @ [CR, LF]) @ header_lines hs @ [CR, LF] @ c @ delimiter b @ parts_text b ps" using Cons.prems(5) part by simp
  obtain mark2 st2 where st2: "multipart_loop io buf (length (pre @ [CR, LF])) mark ?s1 = multipart_loop io buf (length ?pre) mark2 st2"
    "mp_status st2 = Resource_waiting" "core st2 = core (finish_resource (add_content ?p c (?s1\<lparr>mp_data := part_headers hs (mp_data ?s1)\<rparr>)))"
    "length b + 2 \<le> length (mp_look_behind st2)"
    by (rule part_loop [OF io(1) s1(1,2) b s1(3-6) ok buf])
  have "mp_stream ?s1 = Some ?p" using s1(1) by (simp add: writing_def)
  then have core: "core st2 = core (part_done part ?s1)" using st2(3) part by (simp add: part_done_def)
  have "between b d (length ps) st2" using between_core [OF core] between_part_done [OF bt(1)] by simp
  then obtain st3 where st3: "multipart_loop io buf (length ?pre) mark2 st2 = (int (length buf), st3)" "mp_status st3 = End" "core st3 = core (parts_done io d ps st2)"
    using Cons.IH [of st2 ?pre mark2] Cons.prems(1) st2(2,4) buf by auto
  have "core (parts_done io d ps st2) = core (parts_done io d (part # ps) st)"
    using core by (simp add: core_parts_done core_part_done core_begun)
  then show ?case using start st2(1) st3 by auto
qed

section \<open>The first line\<close>

lemma boundary_line_loop:
  assumes st: "mp_status st = Start" "mp_boundary st = Some b" and b: "boundary_ok b" and buf: "buf = b @ rest"
  shows "multipart_loop io buf 0 mark st = multipart_loop io buf (length b) mark (st\<lparr>mp_status := Start_boundary, mp_index := length b\<rparr>)"
proof -
  let ?st = "\<lambda>k. st\<lparr>mp_status := Start_boundary, mp_index := k\<rparr>"
  have b0: "0 < length b" using b by (simp add: boundary_ok_def)
  have "k \<le> length b \<Longrightarrow> multipart_loop io buf 0 mark (?st 0) = multipart_loop io buf k mark (?st k)" for k
  proof (induction k)
    case (Suc k)
    have "boundary_byte (?st k) (buf ! k)" using boundary_byte_eq [OF b, of "?st k"] st(2) Suc.prems buf by (simp add: nth_append)
    then have "multipart_step io buf k mark (?st k) = Proceed (Suc k) mark (?st (Suc k))"
      using st(2) Suc.prems by (simp add: multipart_step_def case_start_boundary_def)
    then have "multipart_loop io buf k mark (?st k) = multipart_loop io buf (Suc k) mark (?st (Suc k))"
      by (rule loop_step [rotated]) (use Suc.prems buf in simp)
    then show ?case using Suc by simp
  qed simp
  moreover have "multipart_loop io buf 0 mark st = multipart_loop io buf 0 mark (?st 0)"
  proof (rule loop_same_step)
    have swap: "st\<lparr>mp_index := 0, mp_status := Start_boundary\<rparr> = ?st 0" by (cases st) simp
    show "multipart_step io buf 0 mark st = multipart_step io buf 0 mark (?st 0)" unfolding swap [symmetric] using st(1) by (simp add: multipart_step_def)
  qed (use b0 buf in simp)
  ultimately show ?thesis by simp
qed

text \<open>Both lines that hold a delimiter end in the same way.\<close>

lemma first_boundary_end:
  assumes io: "\<And>path. io_open io path" and bt: "between b d (Suc k) st" and st: "mp_status st = Start_boundary" "mp_index st = length b"
    and buf: "buf = b @ [CR, LF] @ rest"
  shows "multipart_loop io buf (length b) mark st
    = multipart_loop io buf (length (b @ [CR, LF])) mark ((begun io d (st\<lparr>mp_index := 0\<rparr>))\<lparr>mp_status := Header_field_start\<rparr>)"
proof -
  have bd: "mp_boundary st = Some b" using bt by (simp add: between_def)
  have c: "buf ! length b = CR" "buf ! Suc (length b) = LF" "Suc (length b) < length buf" using buf by (simp_all add: nth_append)
  have "multipart_loop io buf (length b) mark st = multipart_loop io buf (Suc (length b)) mark (st\<lparr>mp_index := Suc (length b)\<rparr>)"
    by (rule loop_step) (use c st bd in \<open>simp_all add: multipart_step_def case_start_boundary_def\<close>)
  also have "\<dots> = multipart_loop io buf (Suc (Suc (length b))) mark ((begun io d (st\<lparr>mp_index := 0\<rparr>))\<lparr>mp_status := Header_field_start\<rparr>)"
  proof (rule loop_step)
    have "between b d (Suc k) (st\<lparr>mp_index := 0\<rparr>)" using bt by (simp add: between_def)
    from resource_begin [OF io this] show "multipart_step io buf (Suc (length b)) mark (st\<lparr>mp_index := Suc (length b)\<rparr>)
      = Proceed (Suc (Suc (length b))) mark ((begun io d (st\<lparr>mp_index := 0\<rparr>))\<lparr>mp_status := Header_field_start\<rparr>)"
      using c st bd by (simp add: multipart_step_def case_start_boundary_def)
  qed (use c in simp)
  finally show ?thesis by simp
qed

text \<open>A whole body.\<close>

lemma body_loop:
  assumes io: "writes_all io" "\<And>path. io_open io path" and b: "boundary_ok b" and ok: "\<And>part. part \<in> set ps \<Longrightarrow> part_ok b part"
    and ps: "ps \<noteq> []" and bt: "between b d (length ps) st" and st: "mp_status st = Start" and look: "length b + 2 \<le> length (mp_look_behind st)"
  shows "\<exists>st'. multipart_loop io (multipart_body b ps) 0 0 st = (int (length (multipart_body b ps)), st') \<and> mp_status st' = End
    \<and> core st' = core (parts_done io d ps st)"
proof -
  obtain hs c qs where psE: "ps = (hs, c) # qs" using ps by (cases ps) auto
  let ?buf = "multipart_body b ps" and ?st = "st\<lparr>mp_status := Start_boundary, mp_index := length b\<rparr>"
  let ?s1 = "(begun io d (?st\<lparr>mp_index := 0\<rparr>))\<lparr>mp_status := Header_field_start\<rparr>"
  have buf: "?buf = (b @ [CR, LF]) @ header_lines hs @ [CR, LF] @ c @ delimiter b @ parts_text b qs" by (simp add: multipart_body_def psE)
  have bt1: "between b d (Suc (length qs)) ?st" "between b d (Suc (length qs)) (?st\<lparr>mp_index := 0\<rparr>)" using bt psE by (simp_all add: between_def)
  have bf: "?buf = b @ [CR, LF] @ header_lines hs @ [CR, LF] @ c @ delimiter b @ parts_text b qs" using buf by simp
  have "multipart_loop io ?buf 0 0 st = multipart_loop io ?buf (length b) 0 ?st"
    by (rule boundary_line_loop [OF st _ b bf]) (use bt in \<open>simp add: between_def\<close>)
  also have "\<dots> = multipart_loop io ?buf (length (b @ [CR, LF])) 0 ?s1"
    by (rule first_boundary_end [OF io(2) bt1(1) _ _ bf]) simp_all
  finally have start: "multipart_loop io ?buf 0 0 st = multipart_loop io ?buf (length (b @ [CR, LF])) 0 ?s1" .
  let ?p = "c_str (resource_path io (mp_draws st) d)"
  have s1: "writing ?p ?s1" "mp_resources ?s1 \<noteq> None" "mp_boundary ?s1 = Some b" "mp_status ?s1 = Header_field_start" "mp_header ?s1 = []"
    "length b + 2 \<le> length (mp_look_behind ?s1)"
    using bt look by (auto simp: between_def writing_def begun_def Let_def)
  have okp: "part_ok b (hs, c)" using ok psE by simp
  let ?pre = "(b @ [CR, LF]) @ header_lines hs @ [CR, LF] @ c @ delimiter b"
  obtain mark2 st2 where st2: "multipart_loop io ?buf (length (b @ [CR, LF])) 0 ?s1 = multipart_loop io ?buf (length ?pre) mark2 st2"
    "mp_status st2 = Resource_waiting" "core st2 = core (finish_resource (add_content ?p c (?s1\<lparr>mp_data := part_headers hs (mp_data ?s1)\<rparr>)))"
    "length b + 2 \<le> length (mp_look_behind st2)"
    by (rule part_loop [OF io(1) s1(1,2) b s1(3-6) okp buf])
  have "mp_stream ?s1 = Some ?p" using s1(1) by (simp add: writing_def)
  then have "core st2 = core (part_done (hs, c) ?s1)" using st2(3) by (simp add: part_done_def)
  then have core: "core st2 = core (part_done (hs, c) (begun io d st))" by (simp add: core_part_done core_begun)
  have "between b d (Suc (length qs)) st" using bt psE by simp
  from between_part_done [OF this] have "between b d (length qs) st2" using between_core [OF core] by simp
  moreover have "?buf = ?pre @ parts_text b qs" using buf by simp
  ultimately obtain st3 where st3: "multipart_loop io ?buf (length ?pre) mark2 st2 = (int (length ?buf), st3)" "mp_status st3 = End"
    "core st3 = core (parts_done io d qs st2)"
    using parts_loop [OF io b, of qs d st2 ?buf ?pre mark2] ok st2(2,4) psE by auto
  have "core (parts_done io d qs st2) = core (parts_done io d ps st)" using core psE by (simp add: core_parts_done)
  then show ?thesis using start st2(1) st3 by auto
qed

end
