(* ===== verification/Http_Multipart_Properties.thy ===== *)
theory Http_Multipart_Properties
  imports Http_Multipart_Body
begin

text \<open>
  The properties of the parser of multipart bodies: what a body that is printed from parts is read as, contents that arrive in
  pieces, and what a caller has to know about errors and about headers that arrive in pieces.
\<close>

section \<open>The state after the parts\<close>

definition part_path :: "multipart_io \<Rightarrow> string \<Rightarrow> nat \<Rightarrow> string" where
  "part_path io d n = c_str (resource_path io n d)"

lemma disposition_fields [simp]:
  "rs_headers (disposition v r) = rs_headers r" "rs_length (disposition v r) = rs_length r" "rs_path (disposition v r) = rs_path r"
  by (simp_all add: disposition_def Let_def split: option.splits)

lemma resource_header_fields:
  "rs_headers (resource_header n v r) = set_header (rs_headers r) (c_str n) v" "rs_length (resource_header n v r) = rs_length r"
  "rs_path (resource_header n v r) = rs_path r"
  by (simp_all add: resource_header_def Let_def)

lemma part_headers_fields:
  "rs_headers (part_headers hs r) = fold (\<lambda>(n, v) h. set_header h (c_str n) v) hs (rs_headers r)"
  "rs_length (part_headers hs r) = rs_length r" "rs_path (part_headers hs r) = rs_path r"
  by (induction hs arbitrary: r) (auto simp: part_headers_def resource_header_fields)

definition part_resource :: "multipart_io \<Rightarrow> string \<Rightarrow> nat \<Rightarrow> body_part \<Rightarrow> resource \<Rightarrow> bool" where
  "part_resource io d n part r \<longleftrightarrow> rs_headers r = fold (\<lambda>(n, v) h. set_header h (c_str n) v) (fst part) []
     \<and> rs_length r = of_nat (length (snd part)) \<and> rs_path r = resource_path io n d"

lemma part_done_fields:
  fixes io d part st
  defines "st' \<equiv> part_done part (begun io d st)"
  shows "part_resource io d (mp_draws st) part (mp_data st')" "mp_draws st' = mp_draws st + 1" "mp_stream st' = None"
    "mp_resources st' = map_option (\<lambda>rs. rs @ [mp_data st']) (mp_resources st)" "mp_callback st' = mp_callback st"
    "mp_called st' = (if mp_callback st then mp_called st @ [mp_data st'] else mp_called st)"
    "mp_files st' = (mp_files st)(part_path io d (mp_draws st) \<mapsto> snd part)"
  by (simp_all add: st'_def part_done_def begun_def begun_resource_def finish_resource_def add_content_def part_path_def part_resource_def
      part_headers_fields Let_def)

lemma parts_done_fields:
  "mp_resources st = Some rs \<Longrightarrow> mp_stream st = None \<Longrightarrow>
   \<exists>new. mp_resources (parts_done io d ps st) = Some (rs @ new) \<and> length new = length ps \<and> mp_stream (parts_done io d ps st) = None
     \<and> mp_called (parts_done io d ps st) = (if mp_callback st then mp_called st @ new else mp_called st)
     \<and> (\<forall>k<length ps. part_resource io d (mp_draws st + k) (ps ! k) (new ! k))"
proof (induction ps arbitrary: st rs)
  case (Cons part ps)
  let ?st = "part_done part (begun io d st)"
  note f = part_done_fields [where io = io and d = d and st = st and part = part]
  from Cons.IH [of ?st "rs @ [mp_data ?st]"] obtain new where
    new: "mp_resources (parts_done io d ps ?st) = Some ((rs @ [mp_data ?st]) @ new)" "length new = length ps" "mp_stream (parts_done io d ps ?st) = None"
    "mp_called (parts_done io d ps ?st) = (if mp_callback ?st then mp_called ?st @ new else mp_called ?st)"
    "\<forall>k<length ps. part_resource io d (mp_draws ?st + k) (ps ! k) (new ! k)"
    using f Cons.prems by auto
  show ?case
  proof (intro exI [of _ "mp_data ?st # new"] conjI allI impI)
    fix k assume "k < length (part # ps)"
    then show "part_resource io d (mp_draws st + k) ((part # ps) ! k) ((mp_data ?st # new) ! k)"
      using f(1,2) new(5) by (cases k) auto
  qed (use new f in auto)
qed simp

lemma parts_done_other_file:
  "(\<And>k. k < length ps \<Longrightarrow> p \<noteq> part_path io d (mp_draws st + k)) \<Longrightarrow> mp_files (parts_done io d ps st) p = mp_files st p"
proof (induction ps arbitrary: st)
  case (Cons part ps)
  note f = part_done_fields [where io = io and d = d and st = st and part = part]
  have "p \<noteq> part_path io d (mp_draws (part_done part (begun io d st)) + k)" if "k < length ps" for k
    using Cons.prems [of "Suc k"] that f(2) by simp
  then show ?case using Cons.IH [of "part_done part (begun io d st)"] Cons.prems [of 0] f(7) by simp
qed simp

lemma parts_done_files:
  "inj_on (\<lambda>k. part_path io d (mp_draws st + k)) {..<length ps} \<Longrightarrow> k < length ps \<Longrightarrow>
   mp_files (parts_done io d ps st) (part_path io d (mp_draws st + k)) = Some (snd (ps ! k))"
proof (induction ps arbitrary: st k)
  case (Cons part ps)
  let ?st = "part_done part (begun io d st)"
  note f = part_done_fields [where io = io and d = d and st = st and part = part]
  have inj: "j = j'" if "part_path io d (mp_draws st + j) = part_path io d (mp_draws st + j')" "j < Suc (length ps)" "j' < Suc (length ps)" for j j'
    using inj_onD [OF Cons.prems(1) that(1)] that(2,3) by simp
  show ?case
  proof (cases k)
    case 0
    have "part_path io d (mp_draws st) \<noteq> part_path io d (mp_draws ?st + j)" if "j < length ps" for j
      using inj [of 0 "Suc j"] that f(2) by auto
    from parts_done_other_file [of ps, OF this] show ?thesis using 0 f(7) by simp
  next
    case (Suc j)
    have "inj_on (\<lambda>k. part_path io d (mp_draws ?st + k)) {..<length ps}"
    proof (rule inj_onI)
      fix x y assume "x \<in> {..<length ps}" "y \<in> {..<length ps}" "part_path io d (mp_draws ?st + x) = part_path io d (mp_draws ?st + y)"
      then show "x = y" using inj [of "Suc x" "Suc y"] f(2) by simp
    qed
    then show ?thesis using Cons.IH [of ?st j] Suc Cons.prems(2) f(2) by simp
  qed
qed simp

section \<open>Whole bodies\<close>

text \<open>
  C10: A body that consists of parts is read as exactly these parts: the parser consumes it to its end,
  and for each part there is one resource, in order, with the headers of the part, its path and the length of its content, and the
  file at that path holds the content byte for byte; every resource is handed to the callback once.  The
  boundary may not contain a carriage return or bytes above 127, and no content may contain the delimiter; the names drawn for the files have
  to differ.
\<close>

theorem multipart_round_trip:
  assumes "writes_all io" "\<And>path. io_open io path" "boundary_ok b" "ps \<noteq> []" "\<And>part. part \<in> set ps \<Longrightarrow> part_ok b part"
    and "length ps \<le> n" "inj_on (\<lambda>k. part_path io d (mp_draws st + k)) {..<length ps}"
  shows "\<exists>st' rs. multipart_parse io b (multipart_body b ps) (prepare_for_multipart_parsing st (Some []) (Some d) n False True)
      = (int (length (multipart_body b ps)), st') \<and> mp_status st' = End \<and> mp_stream st' = None
    \<and> mp_resources st' = Some rs \<and> length rs = length ps \<and> mp_called st' = mp_called st @ rs
    \<and> (\<forall>k<length ps. part_resource io d (mp_draws st + k) (ps ! k) (rs ! k)
         \<and> mp_files st' (part_path io d (mp_draws st + k)) = Some (snd (ps ! k)))"
proof -
  let ?p = "prepare_for_multipart_parsing st (Some []) (Some d) n False True"
  let ?st = "?p\<lparr>mp_boundary := Some b, mp_look_behind := replicate (length b + 8) (CHR 0x00), mp_status := Start, mp_index := 0\<rparr>"
  have "between b d (length ps) ?st" using assms(6) by (simp add: between_def prepare_for_multipart_parsing_def)
  then obtain st' where st': "multipart_loop io (multipart_body b ps) 0 0 ?st = (int (length (multipart_body b ps)), st')" "mp_status st' = End"
    "core st' = core (parts_done io d ps ?st)"
    using body_loop [OF assms(1,2,3) assms(5,4), of d ?st] by auto
  have "multipart_parse io b (multipart_body b ps) ?p = (int (length (multipart_body b ps)), st')"
    using st'(1) by (simp add: multipart_parse_def prepare_for_multipart_parsing_def)
  moreover have "mp_draws ?st = mp_draws st" "mp_resources ?st = Some []" "mp_stream ?st = None" "mp_callback ?st" "mp_called ?st = mp_called st"
    by (simp_all add: prepare_for_multipart_parsing_def)
  ultimately show ?thesis
    using parts_done_fields [of ?st "[]" io d ps] parts_done_files [of io d ?st ps] core_fields [OF st'(3)] st'(2) assms(7) by auto
qed

text \<open>Two parts, the second a file, with a content that has a line break and the beginning of a delimiter.\<close>

definition form_io :: multipart_io where
  "form_io = \<lparr>io_open = (\<lambda>_. True), io_write = (\<lambda>_ data. length data), io_hash = (\<lambda>n. Some (if n = 0 then ''a'' else ''b''))\<rparr>"

definition form_parts :: "body_part list" where
  "form_parts = [([(''Content-Disposition'', ''form-data; '' @ name_key @ [CHR ''k'', CHR 0x22])], ''v''),
     ([(''Content-Type'', ''text/plain'')], ''x'' @ [CR, LF] @ ''--y'')]"

definition form_state :: multipart_state where
  "form_state = \<lparr>mp_data = new_resource, mp_callback = False, mp_directory = None, mp_stream = None, mp_look_behind = [], mp_boundary = None,
     mp_index = 0, mp_max_resources = 0, mp_skip = False, mp_finish = False, mp_status = Uninitialized, mp_header = [], mp_resources = None,
     mp_called = [], mp_draws = 0, mp_files = (\<lambda>_. None)\<rparr>"

lemma form_io_all: "writes_all form_io" "io_open form_io path"
  by (simp_all add: writes_all_def form_io_def)

lemma form_parts_ok: "part \<in> set form_parts \<Longrightarrow> part_ok ''--z'' part"
proof -
  have "list_all (part_ok ''--z'') form_parts" by code_simp
  then show "part \<in> set form_parts \<Longrightarrow> part_ok ''--z'' part" by (simp add: list_all_iff)
qed

lemma form_paths: "inj_on (\<lambda>k. part_path form_io ''t'' (mp_draws form_state + k)) {..<length form_parts}"
proof -
  have "length form_parts = 2" "part_path form_io ''t'' 0 \<noteq> part_path form_io ''t'' 1" "mp_draws form_state = 0" by code_simp+
  moreover have "{..<2} = {0, 1::nat}" by auto
  ultimately show ?thesis by auto
qed

theorem multipart_round_trip_witness:
  "\<exists>st' rs. multipart_parse form_io ''--z'' (multipart_body ''--z'' form_parts)
        (prepare_for_multipart_parsing form_state (Some []) (Some ''t'') 2 False True)
      = (int (length (multipart_body ''--z'' form_parts)), st')
    \<and> mp_status st' = End \<and> mp_resources st' = Some rs \<and> length rs = 2
    \<and> mp_files st' (part_path form_io ''t'' 1) = Some (''x'' @ [CR, LF] @ ''--y'')"
proof -
  have b: "boundary_ok ''--z''" and l: "length form_parts = 2" and ne: "form_parts \<noteq> []" and d: "mp_draws form_state = 0"
    and c: "snd (form_parts ! 1) = ''x'' @ [CR, LF] @ ''--y''" by code_simp+
  from l have n: "length form_parts \<le> 2" by simp
  from multipart_round_trip [OF form_io_all b ne form_parts_ok n form_paths] show ?thesis using l d c by auto
qed

section \<open>Content in pieces\<close>

lemma content_last:
  assumes io: "writes_all io" "writing p st0" "mp_resources st0 \<noteq> None" and b: "boundary_ok b" "mp_boundary st0 = Some b"
    and rep: "scanning st0 p b [] 0 0 m st" "holds_pend b m st" and x: "m @ x = content @ delimiter b" "x \<noteq> []"
    and free: "\<not> sublist (delimiter b) (content @ butlast (delimiter b))"
  obtains st' where "multipart_parse io b x st = (int (length x), st')" "mp_status st' = Resource_waiting"
    "core st' = core (finish_resource (add_content p content st0))"
proof -
  have bl: "delimiter b = butlast (delimiter b) @ [last b]" "last (delimiter b) = last b" using b(1) by (auto simp: delimiter_def boundary_ok_def)
  define t where "t = butlast x"
  have "last x = last b" using arg_cong [OF x(1), of last] x(2) bl(2) by (simp add: delimiter_def)
  then have t: "x = t @ [last b]" using x(2) by (metis append_butlast_last_id t_def)
  have mt: "m @ t = content @ butlast (delimiter b)" using x(1) t bl(1) by (metis append.assoc append1_eq_conv)
  have bd: "mp_boundary st = Some b" using rep(1) b(2) by (auto elim!: scanningE dest!: core_fields(4))
  have "pend b (m @ u) \<noteq> delimiter b" if "prefix u t" for u
    by (rule no_early_delimiter [OF free]) (use that mt [symmetric] in simp)
  then obtain mark' st' where st': "multipart_loop io x 0 0 st = multipart_loop io x (0 + length t) mark' st'"
    "scanning st0 p b x (0 + length t) mark' (m @ t) st'" "holds_pend b (m @ t) st'"
    using scan_text [OF io(1,2) b, of x "[]" t "[last b]" 0 0 m st] t rep scanning_start [of st0 p b m st x] by auto
  have c: "x ! length t = last b" "length t < length x" using t by simp_all
  have full: "(m @ t) @ [x ! length t] = content @ delimiter b" using c(1) mt bl(1) by simp
  have "pend b ((m @ t) @ [x ! length t]) = delimiter b" using full pend_delimiter [of b content] b(1) by (simp add: boundary_ok_def)
  with scan_end [OF io(2,3) b c(2) _ st'(3) _ full, of mark' io] st'(2) obtain st'' where
    st'': "multipart_loop io x (length t) mark' st' = multipart_loop io x (Suc (length t)) mark' st''" "mp_status st'' = Resource_waiting"
    "core st'' = core (finish_resource (add_content p content st0))" by auto
  have "multipart_loop io x (Suc (length t)) mark' st'' = (int (length x), st'')" using t by (simp add: multipart_loop.simps)
  then have "multipart_parse io b x st = (int (length x), st'')" using st'(1) st''(1) bd by (simp add: multipart_parse_def)
  then show ?thesis using that st''(2,3) by blast
qed

text \<open>
  C11: It does not matter how a content is split into buffers: however the content and the delimiter
  after it arrive, even with the delimiter torn into several buffers or with beginnings of it inside the content, the last buffer ends the
  resource, and the file has grown by exactly the content, as has the length of the resource.
\<close>

theorem multipart_content_pieces:
  assumes "writes_all io" "writing p st" "mp_resources st = Some rs" "boundary_ok b" "mp_boundary st = Some b" "mp_status st = Resource"
    and "length b + 2 \<le> length (mp_look_behind st)" "mp_files st p = Some old"
    and "concat bufs @ x = content @ delimiter b" "x \<noteq> []" "\<not> sublist (delimiter b) (content @ butlast (delimiter b))"
  shows "\<exists>st1 st2. feed_all (\<lambda>st buf. Some (snd (multipart_parse io b buf st))) st bufs = Some st1
    \<and> multipart_parse io b x st1 = (int (length x), st2) \<and> mp_status st2 = Resource_waiting \<and> mp_stream st2 = None
    \<and> mp_files st2 = (mp_files st)(p \<mapsto> old @ content)
    \<and> mp_resources st2 = Some (rs @ [(mp_data st)\<lparr>rs_length := rs_length (mp_data st) + of_nat (length content)\<rparr>])"
proof -
  have "stream_consumer st (\<lambda>st buf. Some (snd (multipart_parse io b buf st))) (content_repr st p b) (\<lambda>_. True)"
    by (rule content_stream [OF assms(1,2,4-7)])
  from stream_consumer.fed_repr [OF this, of bufs] obtain st1 where
    st1: "feed_all (\<lambda>st buf. Some (snd (multipart_parse io b buf st))) st bufs = Some st1" "content_repr st p b st1 (concat bufs)" by auto
  have "butlast (concat bufs @ x) = content @ butlast (delimiter b)" using assms(9) by (simp add: butlast_append delimiter_def)
  then have "prefix (concat bufs) (content @ butlast (delimiter b))" using assms(10) by (metis butlast_append prefixI)
  then have "\<not> sublist (delimiter b) (concat bufs)" using assms(11) by (meson prefix_imp_sublist sublist_order.order_trans)
  then have sc: "scanning st p b [] 0 0 (concat bufs) st1" "holds_pend b (concat bufs) st1" using st1(2) by (simp_all add: content_repr_def)
  have "mp_resources st \<noteq> None" using assms(3) by simp
  from content_last [OF assms(1,2) this assms(4,5) sc assms(9-11)] obtain st2 where
    st2: "multipart_parse io b x st1 = (int (length x), st2)" "mp_status st2 = Resource_waiting"
    "core st2 = core (finish_resource (add_content p content st))" by blast
  note f = core_fields [OF st2(3)]
  have "mp_stream st2 = None" "mp_files st2 = (mp_files st)(p \<mapsto> old @ content)"
    "mp_resources st2 = Some (rs @ [(mp_data st)\<lparr>rs_length := rs_length (mp_data st) + of_nat (length content)\<rparr>])"
    using f(1,2,5) assms(3,8) by (simp_all add: finish_resource_def add_content_def)
  then show ?thesis using st1(1) st2(1,2) by blast
qed

definition open_state :: multipart_state where
  "open_state = form_state\<lparr>mp_stream := Some ''f'', mp_look_behind := replicate 11 (CHR 0x00), mp_boundary := Some ''--z'', mp_status := Resource,
     mp_resources := Some [], mp_files := [''f'' \<mapsto> []]\<rparr>"

theorem multipart_content_pieces_witness:
  "\<exists>st1 st2. feed_all (\<lambda>st buf. Some (snd (multipart_parse form_io ''--z'' buf st))) open_state [''ab'' @ [CR], [LF] @ ''--''] = Some st1
    \<and> multipart_parse form_io ''--z'' ''z'' st1 = (1, st2) \<and> mp_status st2 = Resource_waiting
    \<and> mp_files st2 ''f'' = Some ''ab''"
proof -
  have w: "writing ''f'' open_state" and r: "mp_resources open_state = Some []" and b: "boundary_ok ''--z''" "mp_boundary open_state = Some ''--z''"
    and s: "mp_status open_state = Resource" "length ''--z'' + 2 \<le> length (mp_look_behind open_state)" "mp_files open_state ''f'' = Some []"
    and c: "concat [''ab'' @ [CR], [LF] @ ''--''] @ ''z'' = ''ab'' @ delimiter ''--z''"
    and free: "\<not> sublist (delimiter ''--z'') (''ab'' @ butlast (delimiter ''--z''))" by code_simp+
  have x: "''z'' \<noteq> []" by simp
  from multipart_content_pieces [OF form_io_all(1) w r b s c x free] show ?thesis by fastforce
qed

section \<open>Results\<close>

lemma callbacks_status:
  "mp_status (snd (parse_multipart_content_data io st data)) = mp_status st" "mp_boundary (snd (parse_multipart_content_data io st data)) = mp_boundary st"
  "mp_status (snd (parse_multipart_resource_begin io st)) = mp_status st" "mp_boundary (snd (parse_multipart_resource_begin io st)) = mp_boundary st"
  "mp_status (snd (parse_multipart_resource_end st)) = mp_status st" "mp_boundary (snd (parse_multipart_resource_end st)) = mp_boundary st"
  "mp_status (parse_multipart_header_field st data) = mp_status st" "mp_boundary (parse_multipart_header_field st data) = mp_boundary st"
  "mp_status (parse_multipart_header_value st data) = mp_status st" "mp_boundary (parse_multipart_header_value st data) = mp_boundary st"
  by (auto simp: parse_multipart_content_data_def write_file_def parse_multipart_resource_begin_def parse_multipart_resource_end_def
      parse_multipart_header_field_def parse_multipart_header_value_def Let_def split: option.splits)

definition started :: "multipart_state \<Rightarrow> bool" where
  "started st \<longleftrightarrow> mp_status st \<noteq> Uninitialized \<and> mp_boundary st \<noteq> None"

fun next_started :: "nat \<Rightarrow> multipart_next \<Rightarrow> bool" where
  "next_started i (Leave r st) \<longleftrightarrow> r = int i \<and> started st"
| "next_started i (Proceed j mark st) \<longleftrightarrow> started st"

lemma next_started_proceed_if:
  "started (snd r) \<Longrightarrow> (\<And>st. st = snd r \<Longrightarrow> next_started i (k st)) \<Longrightarrow> next_started i (proceed_if r i k)"
  by (cases r) auto

lemma step_started: "started st \<Longrightarrow> next_started i (multipart_step io buf i mark st)"
  by (cases "mp_status st")
    (auto simp: multipart_step_def case_start_boundary_def case_header_field_def case_header_value_def case_resource_def case_boundary_waiting_def
      case_boundary_def Let_def started_def callbacks_status intro!: next_started_proceed_if)

lemma loop_started:
  "started st \<Longrightarrow> i \<le> length buf \<Longrightarrow> 0 \<le> fst (multipart_loop io buf i mark st) \<and> fst (multipart_loop io buf i mark st) \<le> int (length buf)
     \<and> started (snd (multipart_loop io buf i mark st))"
proof (induction io buf i mark st rule: multipart_loop.induct)
  case (1 io buf i mark st)
  show ?case
  proof (cases "i < length buf")
    case True
    have ns: "next_started i (multipart_step io buf i mark st)" using step_started [OF "1.prems"(1)] .
    show ?thesis
    proof (cases "multipart_step io buf i mark st")
      case (Leave r st')
      then show ?thesis using True ns by (simp add: multipart_loop.simps [of io buf i])
    next
      case (Proceed j mark' st')
      have "started st'" "j \<le> length buf" using ns Proceed True multipart_step_progress [OF Proceed] by auto
      with "1.IH" [OF True Proceed] show ?thesis using True Proceed by (simp add: multipart_loop.simps [of io buf i])
    qed
  next
    case False
    then have "multipart_loop io buf i mark st = (int (length buf), st)" by (simp add: multipart_loop.simps [of io buf i])
    then show ?thesis using "1.prems"(1) by simp
  qed
qed

lemma parse_started:
  "mp_boundary st = None \<or> started st \<Longrightarrow> 0 \<le> fst (multipart_parse io b buf st) \<and> fst (multipart_parse io b buf st) \<le> int (length buf)
     \<and> started (snd (multipart_parse io b buf st))"
proof -
  assume st: "mp_boundary st = None \<or> started st"
  let ?st = "if mp_boundary st = None
    then st\<lparr>mp_boundary := Some b, mp_look_behind := replicate (length b + 8) (CHR 0x00), mp_status := Start, mp_index := 0\<rparr> else st"
  have "started ?st" using st by (auto simp: started_def)
  from loop_started [OF this, of 0] show ?thesis by (simp add: multipart_parse_def)
qed

text \<open>The results of the calls for a list of buffers, each with the length of its buffer.\<close>

fun parse_buffers :: "multipart_io \<Rightarrow> string \<Rightarrow> string list \<Rightarrow> multipart_state \<Rightarrow> (int \<times> nat) list" where
  "parse_buffers io b [] st = []"
| "parse_buffers io b (buf # bufs) st = (let (r, st') = multipart_parse io b buf st in (r, length buf) # parse_buffers io b bufs st')"

lemma buffers_started: "mp_boundary st = None \<or> started st \<Longrightarrow> (r, n) \<in> set (parse_buffers io b bufs st) \<Longrightarrow> 0 \<le> r \<and> r \<le> int n"
proof (induction bufs arbitrary: st)
  case (Cons buf bufs)
  note p = parse_started [OF Cons.prems(1), of io b buf]
  obtain q st' where "multipart_parse io b buf st = (q, st')" by fastforce
  with p Cons.IH [of st'] Cons.prems(2) show ?case by auto
qed simp

text \<open>
  C12: The parser always returns a position in its buffer, and never \<open>-1\<close>: whatever the buffers are, on a malformed body the result is the
  place of the error.  The callers in \<^verbatim>\<open>network/http.cpp\<close> take only \<open>-1\<close> for an error.
\<close>

theorem multipart_result_position:
  "\<forall>(r, len)\<in>set (parse_buffers io b bufs (prepare_for_multipart_parsing st content d n skip cb)). 0 \<le> r \<and> r \<le> int len"
  using buffers_started [of "prepare_for_multipart_parsing st content d n skip cb"] by (auto simp: prepare_for_multipart_parsing_def)

theorem multipart_result_position_witness:
  "let rs = parse_buffers form_io ''--z'' [''--y''] (prepare_for_multipart_parsing form_state (Some []) (Some ''t'') 2 False True)
   in rs = [(2, 3)] \<and> (\<forall>(r, len)\<in>set rs. 0 \<le> r \<and> r \<le> int len)"
proof -
  have "parse_buffers form_io ''--z'' [''--y''] (prepare_for_multipart_parsing form_state (Some []) (Some ''t'') 2 False True) = [(2, 3)]" by code_simp
  then show ?thesis using multipart_result_position [of form_io "''--z''" "[''--y'']" form_state "Some []" "Some ''t''" 2 False True] by (simp add: Let_def)
qed

text \<open>
  A header line that is split between two buffers is not read as the line: of a value only the first piece is kept, and of a name only the
  second, so that the part loses its type.  A part that has no name of its own keeps the name of the part before, and a
  file name is taken for the name of the part when it comes first.
\<close>

theorem multipart_header_gaps:
  "let parse = (\<lambda>bufs. fold (\<lambda>buf st. snd (multipart_parse form_io ''--z'' buf st)) bufs
         (prepare_for_multipart_parsing form_state (Some []) (Some ''t'') 9 False True));
       first = ''--z'' @ [CR, LF]; rest = [CR, LF, CR, LF] @ ''v'' @ [CR, LF] @ ''--z--'';
       types = (\<lambda>st. map_option (map rs_type) (mp_resources st)); keys = (\<lambda>st. map_option (map rs_key) (mp_resources st))
   in types (parse [first @ ''Content-Type: text/plain'' @ rest]) = Some [''text/plain'']
    \<and> types (parse [first @ ''Content-Type: text/pl'', ''ain'' @ rest]) = Some [''text/pl'']
    \<and> types (parse [first @ ''Conte'', ''nt-Type: text/plain'' @ rest]) = Some [''application/octet-stream'']
    \<and> keys (parse [multipart_body ''--z'' form_parts]) = Some [''k'', ''k'']
    \<and> keys (parse [first @ ''Content-Disposition: form-data; '' @ filename_key @ ''f'' @ [CHR 0x22] @ ''; '' @ name_key @ ''k'' @ [CHR 0x22] @ rest]) = Some [''f'']"
  by code_simp

end
