(* ===== verification/UInt_Text.thy ===== *)
theory UInt_Text
  imports UInt256 Codec Stringify Decimal_Text
begin

text \<open>
  Texts of the wide integers: the constructors from a text, \<^verbatim>\<open>to_string\<close>, \<^verbatim>\<open>to_decimal\<close> and the stream
  operators (\<^verbatim>\<open>compute.cpp\<close>).  The members of a \<^verbatim>\<open>uint128\<close> have no initial value, and the constructor from a text sets
  them only when the text is empty, so what the object held before is an argument.
\<close>

section \<open>Reading\<close>

text \<open>
  The loops for decimal and octal texts; the test of the character comes before the test of the bound, so the character behind the
  last one is read too, but whatever it is, the loop ends there.
\<close>

fun u128_digits_loop :: "int \<Rightarrow> char \<Rightarrow> nat \<Rightarrow> uint128 \<Rightarrow> string \<Rightarrow> uint128" where
  "u128_digits_loop base maxi n x [] = x"
| "u128_digits_loop base maxi n x (c # data) =
     (if c \<noteq> CHR 0x00 \<and> 48 \<le> schar c \<and> schar c \<le> schar maxi \<and> 0 < n
      then u128_digits_loop base maxi (n - 1) (u128_add_assign_int (u128_mul_assign_int x base) (schar c - 48)) data else x)"

text \<open>The loop for binary texts, on one of the two halves; the text that is left is the second result.\<close>

fun u128_bits_loop :: "nat \<Rightarrow> u64 \<Rightarrow> string \<Rightarrow> u64 \<times> string" where
  "u128_bits_loop n w [] = (w, [])"
| "u128_bits_loop n w (c # data) =
     (if c \<noteq> CHR 0x00 \<and> 48 \<le> schar c \<and> schar c \<le> 49 \<and> 0 < n
      then u128_bits_loop (n - 1) (push_bit 1 w OR word_of_int (schar c - 48)) data else (w, c # data))"

text \<open>
  Extraction of an unsigned integer from a stream with the flag \<^verbatim>\<open>std::hex\<close>: white space is skipped, and if nothing is left, the
  variable keeps its value.
\<close>

definition stream_hex :: "u64 \<Rightarrow> string \<Rightarrow> u64" where
  "stream_hex old s =
     (case dropWhile isspace s of
        [] \<Rightarrow> old
      | c # t \<Rightarrow>
          let v = parse_xdigits (skip_0x (if c = CHR ''-'' \<or> c = CHR ''+'' then t else c # t))
          in if 2 ^ 64 \<le> v then - 1 else if c = CHR ''-'' then - word_of_int v else word_of_int v)"

definition u128_of_text :: "uint128 \<Rightarrow> string \<Rightarrow> u8 \<Rightarrow> uint128" where
  "u128_of_text x txt base =
     (if txt = [] then u128 0 0
      else let data = dropWhile is_whitespace txt; size = length data
           in if base = 16 then
                let max_len = min size 32; starting_index = (if 32 < size then size - 32 else 0);
                    lower_len = (if 16 \<le> max_len then 16 else max_len);
                    upper_len = (if 16 \<le> max_len then max_len - 16 else 0)
                in \<lparr>lower = stream_hex (lower x) (take lower_len (drop (starting_index + upper_len) data)),
                    upper = stream_hex (upper x) (take upper_len (drop starting_index data))\<rparr>
              else if base = 10 then
                u128_digits_loop 10 (CHR ''9'') (min size 39) x (drop (if 39 < size then size - 39 else 0) data)
              else if base = 8 then
                u128_digits_loop 8 (CHR ''7'') (min size 43) x (drop (if 43 < size then size - 43 else 0) data)
              else if base = 2 then
                let max_len = min size 128; data = drop (if 128 < size then size - 128 else 0) data;
                    lower_len = (if 64 \<le> max_len then 64 else max_len);
                    upper_len = (if 64 \<le> max_len then max_len - 64 else 0);
                    (up, data) = u128_bits_loop upper_len (upper x) data;
                    (low, data) = u128_bits_loop lower_len (lower x) data
                in \<lparr>lower = low, upper = up\<rparr>
              else x)"

definition u256_text_digit :: "char \<Rightarrow> int" where
  "u256_text_digit c = (if 48 \<le> schar c \<and> schar c \<le> 57 then schar c - 48
     else if 97 \<le> schar c \<and> schar c \<le> 122 then schar c - 97 + 10 else 0)"

text \<open>The loop runs from the last character to the first.\<close>

fun u256_text_loop :: "u8 \<Rightarrow> uint256 \<Rightarrow> uint256 \<Rightarrow> string \<Rightarrow> uint256" where
  "u256_text_loop base pw x [] = x"
| "u256_text_loop base pw x (c # rest) =
     u256_text_loop base (u256_mul_assign_int pw (uint base)) (u256_add_assign x (int_mul_u256 (u256_text_digit c) pw)) rest"

definition u256_of_text :: "string \<Rightarrow> u8 \<Rightarrow> uint256" where
  "u256_of_text txt base = u256_text_loop base (u256_of_int 1) (u256_of_int 0) (rev txt)"

section \<open>Printing\<close>

definition digit_alphabet :: string where "digit_alphabet = ''0123456789abcdefghijklmnopqrstuvwxyz''"

text \<open>The text of zero.\<close>

definition zero_text :: "nat \<Rightarrow> string" where
  "zero_text n = (if n = 0 then ''0'' else replicate n (CHR ''0''))"

fun strip_zeros :: "string \<Rightarrow> string" where
  "strip_zeros (c # d # rest) = (if c = CHR ''0'' then strip_zeros (d # rest) else c # d # rest)"
| "strip_zeros output = output"

text \<open>
  Base 16: the words of the array that hold the last \<open>size\<close> bytes are set.  Zeros up to the requested length are appended
  at the end, and then zeros are removed from the front.
\<close>

definition hex_text :: "u8 list \<Rightarrow> nat \<Rightarrow> string" where
  "hex_text bytes n =
     (let n = max n (length bytes * 2); output = hex_encode (map byte_char bytes) False;
          output = (if length output < n then output @ replicate (n - length output) (CHR ''0'') else output)
      in strip_zeros output)"

definition u128_hex_bytes :: "uint128 \<Rightarrow> u8 list" where
  "u128_hex_bytes x =
     (let size = unat (u128_bytes x);
          array = (if 8 < size then mem_bytes (to_endianness big (upper x)) else []) @ mem_bytes (to_endianness big (lower x))
      in drop (length array - size) array)"

definition u256_hex_bytes :: "uint256 \<Rightarrow> u8 list" where
  "u256_hex_bytes x =
     (let size = unat (u256_bytes x);
          array = (if 24 < size then mem_bytes (to_endianness big (u128_high (u256_high x))) else [])
            @ (if 16 < size then mem_bytes (to_endianness big (u128_low (u256_high x))) else [])
            @ (if 8 < size then mem_bytes (to_endianness big (u128_high (u256_low x))) else [])
            @ mem_bytes (to_endianness big (u128_low (u256_low x)))
      in drop (length array - size) array)"

text \<open>The other bases: digits are split off from the least one on, in a loop that ends when the quotient is zero.\<close>

definition padded_output :: "string \<Rightarrow> nat \<Rightarrow> string" where
  "padded_output output n = rev (if length output < n then output @ replicate (n - length output) (CHR ''0'') else output)"

partial_function (option) u128_print_loop :: "u8 \<Rightarrow> uint256 \<Rightarrow> string \<Rightarrow> string option" where
  "u128_print_loop base first output =
     (let (q, r) = u128_divide (u256_to_u128 first) (u128_of_int (uint base));
          output = output @ [str_at hex_lower_case (unat (u256_to_u8 (u256_of_u128 r)))]
      in if u256_bool (u256_of_u128 q) then u128_print_loop base (u256_of_u128 q) output else Some output)"

partial_function (option) u256_print_loop :: "u8 \<Rightarrow> uint256 \<Rightarrow> string \<Rightarrow> string option" where
  "u256_print_loop base first output =
     (case u256_divide first (u256_of_int (uint base)) of
        None \<Rightarrow> None
      | Some (q, r) \<Rightarrow>
          let output = output @ [str_at digit_alphabet (unat (u256_to_u8 r))]
          in if u256_bool q then u256_print_loop base q output else Some output)"

declare u128_print_loop.simps [code] u256_print_loop.simps [code]

definition u128_to_string :: "uint128 \<Rightarrow> u8 \<Rightarrow> nat \<Rightarrow> string option" where
  "u128_to_string x base n =
     (if u128_lnot x then Some (zero_text n)
      else if base = 16 then Some (hex_text (u128_hex_bytes x) n)
      else map_option (\<lambda>output. padded_output output n) (u128_print_loop base (u256_of_u128 x) []))"

definition u256_to_string :: "uint256 \<Rightarrow> u8 \<Rightarrow> nat \<Rightarrow> string option" where
  "u256_to_string x base n =
     (if u256_lnot x then Some (zero_text n)
      else if base = 16 then Some (hex_text (u256_hex_bytes x) n)
      else map_option (\<lambda>output. padded_output output n) (u256_print_loop base x []))"

definition u128_to_decimal :: "uint128 \<Rightarrow> decimal option" where
  "u128_to_decimal x = map_option (\<lambda>t. dec_from t 16) (u128_to_string x 16 0)"

definition u256_to_decimal :: "uint256 \<Rightarrow> decimal option" where
  "u256_to_decimal x = map_option (\<lambda>t. dec_from t 16) (u256_to_string x 16 0)"

end
