(* ===== verification/UInt_Text_Laws.thy ===== *)
theory UInt_Text_Laws
  imports UInt_Text Radix Codec_Laws Decimal_Conv
begin

text \<open>
  The texts of wide integers are positional notation: what is printed is \<open>radix\<close> of the value, and what is read is \<open>horner\<close> of
  the digits.  The loops that split off digits share the locale \<open>radix_printer\<close>.
\<close>

section \<open>Positional notation\<close>

lemma radix_unique:
  "2 \<le> b \<Longrightarrow> ds \<noteq> [] \<Longrightarrow> (\<And>d. d \<in> set ds \<Longrightarrow> d < b) \<Longrightarrow> hd ds \<noteq> 0 \<or> length ds = 1 \<Longrightarrow> ds = radix b (horner b ds)"
proof (induction ds rule: rev_induct)
  case (snoc d ds)
  show ?case
  proof (cases "ds = []")
    case True
    then show ?thesis using snoc.prems(3) [of d] horner_append [of b "[]" d] by (simp add: radix_single)
  next
    case False
    then have hd: "hd ds \<noteq> 0" using snoc.prems(4) by simp
    then have IH: "ds = radix b (horner b ds)" using snoc.IH snoc.prems(1,3) False by auto
    have d: "d < b" using snoc.prems(3) by simp
    have "horner b ds \<noteq> 0"
    proof
      assume "horner b ds = 0"
      then have "ds = [0]" using IH snoc.prems(1) by (simp add: radix_single)
      then show False using hd by simp
    qed
    then have "b \<le> horner b ds * b + d" by (simp add: trans_le_add1)
    from radix_step [OF snoc.prems(1) this] show ?thesis using d IH snoc.prems(1) by simp
  qed
qed simp

lemma horner_Cons: "horner b (d # ds) = d * b ^ length ds + horner b ds"
  using horner_append_list [of b "[d]" ds] horner_append [of b "[]" d] by simp

lemma horner_bytes: "horner 256 (rev (map (\<lambda>i. v div 256 ^ i mod 256) [0..<n])) = v mod 256 ^ n"
proof (induction n)
  case (Suc n)
  have "v mod 256 ^ Suc n = 256 ^ n * (v div 256 ^ n mod 256) + v mod 256 ^ n"
    by (simp add: mod_mult2_eq mult.commute [of 256] del: power_Suc add: power_Suc)
  then show ?case using Suc by (simp add: horner_Cons)
qed simp

lemma horner_mem_bytes:
  fixes w :: "'a::len word"
  assumes "LENGTH('a) = 8 * n"
  shows "horner 256 (map unat (rev (mem_bytes w))) = unat w"
proof -
  have "map unat (mem_bytes w) = map (\<lambda>i. unat w div 256 ^ i mod 256) [0..<n]"
    using assms by (simp add: mem_bytes_def unsigned_ucast_eq unat_drop_bit_div take_bit_eq_mod power_mult)
  then have "horner 256 (map unat (rev (mem_bytes w))) = unat w mod 256 ^ n" using horner_bytes [of "unat w" n] by (simp flip: rev_map)
  moreover have "unat w < 256 ^ n" using unsigned_less [of w] assms by (simp add: power_mult)
  ultimately show ?thesis by simp
qed

lemma horner_nibbles: "horner 16 (concat (map (\<lambda>v. [v div 16, v mod 16]) vs)) = horner 256 vs"
proof (induction vs rule: rev_induct)
  case (snoc v vs)
  have "horner 16 (concat (map (\<lambda>v. [v div 16, v mod 16]) (vs @ [v]))) = horner 16 (concat (map (\<lambda>v. [v div 16, v mod 16]) vs)) * 16 ^ 2 + horner 16 [v div 16, v mod 16]"
    by (simp add: horner_append_list)
  also have "horner 16 [v div 16, v mod 16] = v" by (simp add: horner_def)
  finally show ?case using snoc by simp
qed simp

section \<open>Printing\<close>

locale radix_printer =
  fixes val :: "'a \<Rightarrow> nat" and loop :: "u8 \<Rightarrow> 'a \<Rightarrow> string \<Rightarrow> string option" and digits :: string
  assumes step: "2 \<le> unat base \<Longrightarrow> unat base \<le> length digits \<Longrightarrow>
    \<exists>q. val q = val x div unat base \<and> loop base x out =
      (if val q \<noteq> 0 then loop base q (out @ [digits ! (val x mod unat base)]) else Some (out @ [digits ! (val x mod unat base)]))"
begin

lemma prints: "2 \<le> unat base \<Longrightarrow> unat base \<le> length digits \<Longrightarrow>
  loop base x out = Some (out @ rev (map (\<lambda>d. digits ! d) (radix (unat base) (val x))))"
proof (induction "val x" arbitrary: x out rule: less_induct)
  case less
  obtain q where q: "val q = val x div unat base" and loop: "loop base x out =
      (if val q \<noteq> 0 then loop base q (out @ [digits ! (val x mod unat base)]) else Some (out @ [digits ! (val x mod unat base)]))"
    using step [OF less.prems] by blast
  show ?case
  proof (cases "val q = 0")
    case True
    then have "val x < unat base" using q less.prems(1) by (simp add: div_eq_0_iff)
    then show ?thesis using loop True by (simp add: radix_single)
  next
    case False
    then have le: "unat base \<le> val x" using q by (metis div_less not_less)
    then have "val q < val x" using q less.prems(1) by simp
    from less.hyps [OF this less.prems] show ?thesis
      using loop False q radix_step [OF less.prems(1) le] by simp
  qed
qed

end

lemma u8_abs: "u256_abs (u256_of_int (uint (b::u8))) = ucast b" "u128_abs (u128_of_int (uint b)) = ucast b"
proof -
  have "0 \<le> uint b" "uint b < 256" using unsigned_less [of b, where 'a = int] by simp_all
  then have "uint b < 2 ^ 64" by simp
  moreover have "- (2 ^ 64) \<le> uint b" using \<open>0 \<le> uint b\<close> by (rule order_trans [rotated]) simp
  ultimately show "u256_abs (u256_of_int (uint b)) = ucast b" "u128_abs (u128_of_int (uint b)) = ucast b"
    by (simp_all add: u256_abs_of_int u128_abs_of_int)
qed

lemma u8_operand: "unat (u256_abs (u256_of_int (uint (b::u8)))) = unat b" "unat (u128_abs (u128_of_int (uint b))) = unat b"
proof -
  have "unat b < 2 ^ 128" "unat b < 2 ^ 256" using unsigned_less [of b, where 'a = nat] by simp_all
  then show "unat (u256_abs (u256_of_int (uint b))) = unat b" "unat (u128_abs (u128_of_int (uint b))) = unat b"
    by (simp_all only: u8_abs unsigned_ucast_eq take_bit_nat_eq_self len_num0 len_num1 len_bit0 len_bit1) (simp_all add: take_bit_nat_eq_self)
qed

lemma u256_to_u8_abs: "u256_to_u8 x = ucast (u256_abs x)"
  by (rule bit_eqI) (auto simp: u256_to_u8_def u128_to_u8_def u256_abs_def u128_abs_def bit_word_join bit_simps)

lemma unat_u256_to_u8: "unat (u256_abs x) < 256 \<Longrightarrow> unat (u256_to_u8 x) = unat (u256_abs x)"
  by (simp add: u256_to_u8_abs unsigned_ucast_eq take_bit_nat_eq_self)

interpretation u256_printer: radix_printer "\<lambda>x. unat (u256_abs x)" u256_print_loop digit_alphabet
proof
  fix base :: u8 and x out
  assume b: "2 \<le> unat base" "unat base \<le> length digit_alphabet"
  let ?d = "u256_of_int (uint base)"
  have d: "unat (u256_abs ?d) = unat base" by (simp add: u8_operand)
  then have nz: "u256_abs ?d \<noteq> 0" using b(1) by (metis not_numeral_le_zero unsigned_0)
  obtain q r where qr: "u256_divide x ?d = Some (q, r)" "u256_abs q = u256_abs x div u256_abs ?d"
    "u256_abs r = u256_abs x mod u256_abs ?d" using u256_divide_correct [OF nz, of x] by blast
  have q: "unat (u256_abs q) = unat (u256_abs x) div unat base" using qr(2) d by (simp add: unat_div)
  have r: "unat (u256_abs r) = unat (u256_abs x) mod unat base" using qr(3) d by (simp add: unat_mod)
  have lt: "unat (u256_abs x) mod unat base < length digit_alphabet" using b by (metis mod_less_divisor not_less order_less_le_trans pos2)
  then have "unat (u256_to_u8 r) = unat (u256_abs x) mod unat base" using r unat_u256_to_u8 [of r] by (simp add: digit_alphabet_def)
  then have "u256_print_loop base x out =
      (if unat (u256_abs q) \<noteq> 0 then u256_print_loop base q (out @ [digit_alphabet ! (unat (u256_abs x) mod unat base)])
       else Some (out @ [digit_alphabet ! (unat (u256_abs x) mod unat base)]))"
    using qr(1) lt by (subst u256_print_loop.simps) (simp add: Let_def str_at_def u256_bool_iff unat_eq_0)
  then show "\<exists>q. unat (u256_abs q) = unat (u256_abs x) div unat base \<and> u256_print_loop base x out =
      (if unat (u256_abs q) \<noteq> 0 then u256_print_loop base q (out @ [digit_alphabet ! (unat (u256_abs x) mod unat base)])
       else Some (out @ [digit_alphabet ! (unat (u256_abs x) mod unat base)]))" using q by blast
qed

lemma u256_to_u128_of_u128: "u256_to_u128 (u256_of_u128 x) = x"
  by (simp add: u256_to_u128_def u256_of_u128_def)

lemma unat_u256_of_u128: "unat (u256_abs (u256_of_u128 x)) = unat (u128_abs x)"
proof -
  have "unat (u128_abs x) < 2 ^ 256" using unsigned_less [of "u128_abs x"] by (auto intro: less_trans)
  then show ?thesis by (simp add: u256_abs_of_u128 unsigned_ucast_eq take_bit_nat_eq_self)
qed

interpretation u128_printer: radix_printer "\<lambda>x. unat (u128_abs (u256_to_u128 x))" u128_print_loop hex_lower_case
proof
  fix base :: u8 and x out
  assume b: "2 \<le> unat base" "unat base \<le> length hex_lower_case"
  let ?d = "u128_of_int (uint base)" and ?x = "u256_to_u128 x"
  have d: "unat (u128_abs ?d) = unat base" by (simp add: u8_operand)
  then have nz: "u128_abs ?d \<noteq> 0" using b(1) by (metis not_numeral_le_zero unsigned_0)
  obtain q r where qr: "u128_divide ?x ?d = (q, r)" by fastforce
  have q: "unat (u128_abs q) = unat (u128_abs ?x) div unat base" and r: "unat (u128_abs r) = unat (u128_abs ?x) mod unat base"
    using u128_divide_correct [OF nz, of ?x] qr d by (simp_all add: unat_div unat_mod)
  have lt: "unat (u128_abs ?x) mod unat base < length hex_lower_case" using b by (metis mod_less_divisor not_less order_less_le_trans pos2)
  then have "unat (u256_to_u8 (u256_of_u128 r)) = unat (u128_abs ?x) mod unat base"
    using r unat_u256_to_u8 [of "u256_of_u128 r"] by (simp add: hex_lower_case_def unat_u256_of_u128)
  then have "u128_print_loop base x out =
      (if unat (u128_abs q) \<noteq> 0 then u128_print_loop base (u256_of_u128 q) (out @ [hex_lower_case ! (unat (u128_abs ?x) mod unat base)])
       else Some (out @ [hex_lower_case ! (unat (u128_abs ?x) mod unat base)]))"
    using qr lt unat_u256_of_u128 [of q] by (subst u128_print_loop.simps) (simp add: Let_def str_at_def u256_bool_iff flip: unat_eq_0)
  then show "\<exists>q. unat (u128_abs (u256_to_u128 q)) = unat (u128_abs ?x) div unat base \<and> u128_print_loop base x out =
      (if unat (u128_abs (u256_to_u128 q)) \<noteq> 0 then u128_print_loop base q (out @ [hex_lower_case ! (unat (u128_abs ?x) mod unat base)])
       else Some (out @ [hex_lower_case ! (unat (u128_abs ?x) mod unat base)]))"
    using q by (intro exI [of _ "u256_of_u128 q"]) (simp add: u256_to_u128_of_u128)
qed

text \<open>Base 16.\<close>

definition hex_digit_text :: "nat list \<Rightarrow> string" where
  "hex_digit_text ds = map (\<lambda>d. hex_lower_case ! d) ds"

lemma hex_encode_nibbles:
  "hex_encode (map byte_char bytes) False = hex_digit_text (concat (map (\<lambda>v. [v div 16, v mod 16]) (map unat bytes)))"
proof -
  have "hex_pair hex_lower_case = (\<lambda>c. hex_digit_text [unat c div 16, unat c mod 16])"
    by (rule ext) (simp add: hex_pair_def hex_digit_text_def unat_nibbles)
  then show ?thesis by (simp add: hex_encode_def uchar_byte_char hex_digit_text_def map_concat comp_def)
qed

lemma hex_zero: "d < 16 \<Longrightarrow> hex_lower_case ! d = CHR ''0'' \<longleftrightarrow> d = 0"
proof -
  have "list_all (\<lambda>d. (hex_lower_case ! d = CHR ''0'') = (d = 0)) [0..<16]" by code_simp
  then show "d < 16 \<Longrightarrow> hex_lower_case ! d = CHR ''0'' \<longleftrightarrow> d = 0" by (simp add: list_all_iff)
qed

lemma strip_zeros_radix:
  "ds \<noteq> [] \<Longrightarrow> (\<And>d. d \<in> set ds \<Longrightarrow> d < 16) \<Longrightarrow> strip_zeros (hex_digit_text ds) = hex_digit_text (radix 16 (horner 16 ds))"
proof (induction ds)
  case (Cons d ds)
  show ?case
  proof (cases ds)
    case Nil
    then show ?thesis using Cons.prems(2) [of d] by (simp add: hex_digit_text_def horner_Cons radix_single)
  next
    case (Cons e es)
    have strip: "strip_zeros (hex_digit_text (d # ds)) = (if d = 0 then strip_zeros (hex_digit_text ds) else hex_digit_text (d # ds))"
      using Cons Cons.prems(2) [of d] hex_zero [of d] by (simp add: hex_digit_text_def)
    have "d # ds = radix 16 (horner 16 (d # ds))" if "d \<noteq> 0" using radix_unique [of 16 "d # ds"] that Cons.prems(2) by auto
    then show ?thesis using strip Cons Cons.IH Cons.prems(2) by (auto simp: horner_Cons)
  qed
qed simp

lemma nibbles_bound: "d \<in> set (concat (map (\<lambda>v. [v div 16, v mod 16]) (map unat (bytes :: u8 list)))) \<Longrightarrow> d < 16"
proof -
  have "unat v div 16 < 16" for v :: u8 using unsigned_less [of v, where 'a = nat] by (simp add: div_less_iff_less_mult)
  then show "d \<in> set (concat (map (\<lambda>v. [v div 16, v mod 16]) (map unat bytes))) \<Longrightarrow> d < 16" by auto
qed

lemma hex_text_radix:
  assumes "bytes \<noteq> []"
  shows "hex_text bytes 0 = hex_digit_text (radix 16 (horner 256 (map unat bytes)))"
proof -
  let ?ds = "concat (map (\<lambda>v. [v div 16, v mod 16]) (map unat bytes))"
  have "hex_text bytes 0 = strip_zeros (hex_encode (map byte_char bytes) False)" by (simp add: hex_text_def length_hex_encode Let_def)
  also have "\<dots> = strip_zeros (hex_digit_text ?ds)" unfolding hex_encode_nibbles ..
  also have "\<dots> = hex_digit_text (radix 16 (horner 16 ?ds))"
  proof (rule strip_zeros_radix)
    show "?ds \<noteq> []" using assms by (cases bytes) simp_all
  qed (rule nibbles_bound)
  finally show ?thesis by (simp only: horner_nibbles)
qed

lemma drop_zeros_bytes:
  assumes "rev (mem_bytes w) = replicate k 0 @ bytes" "LENGTH('a) = 8 * n"
  shows "horner 256 (map unat bytes) = unat (w::'a::len word)"
proof -
  have "map unat (rev (mem_bytes w)) = replicate k 0 @ map unat bytes" unfolding assms(1) by simp
  then show ?thesis using horner_mem_bytes [OF assms(2), of w] horner_zeros [of 256 k "map unat bytes"] by metis
qed

lemma u128_hex_bytes_eq: "u128_hex_bytes x = u128_encode_compact x"
proof -
  let ?k = "unat (u128_bytes x)"
  have "?k \<le> 16" by (rule u128_bytes_bound)
  then show ?thesis by (auto simp: u128_hex_bytes_def u128_encode_compact_def u128_encode_def Let_def)
qed

lemma u256_hex_bytes_eq: "u256_hex_bytes x = u256_encode_compact x"
proof -
  let ?k = "unat (u256_bytes x)"
  have "?k \<le> 32" by (rule u256_bytes_bound)
  then show ?thesis
    by (auto simp: u256_hex_bytes_def u256_encode_compact_def u256_encode_def Let_def u128_high_def u128_low_def u256_high_def u256_low_def)
qed

lemma u128_text_radix:
  assumes "2 \<le> unat base" "unat base \<le> 16"
  shows "u128_to_string x base 0 = Some (hex_digit_text (radix (unat base) (unat (u128_abs x))))"
proof (cases "u128_abs x = 0")
  case True
  then show ?thesis using assms by (simp add: u128_to_string_def u128_bool_iff zero_text_def radix_single hex_digit_text_def hex_lower_case_def)
next
  case False
  have "unat (u128_bytes x) \<noteq> 0" using False by (simp add: unat_u128_bytes)
  then have ne: "u128_encode_compact x \<noteq> []" using u128_bytes_bound [of x] by (simp add: u128_encode_compact_def Let_def)
  have "horner 256 (map unat (u128_encode_compact x)) = unat (u128_abs x)"
    by (rule drop_zeros_bytes [where n = 16]) (use u128_encode_compact_suffix [of x] in \<open>simp_all add: u128_encode_bytes\<close>)
  then have hex: "hex_text (u128_hex_bytes x) 0 = hex_digit_text (radix 16 (unat (u128_abs x)))"
    using hex_text_radix [OF ne] by (simp add: u128_hex_bytes_eq)
  have "u128_print_loop base (u256_of_u128 x) [] = Some (rev (hex_digit_text (radix (unat base) (unat (u128_abs x)))))"
    using u128_printer.prints [OF assms(1), of "u256_of_u128 x" "[]"] assms(2)
    by (simp add: u256_to_u128_of_u128 hex_digit_text_def hex_lower_case_def)
  moreover have "unat base = 16" if "base = 16" using that by simp
  ultimately show ?thesis using False hex by (auto simp: u128_to_string_def u128_bool_iff padded_output_def)
qed

lemma digit_alphabet_hex: "d < 16 \<Longrightarrow> hex_lower_case ! d = digit_alphabet ! d"
proof -
  have "list_all (\<lambda>d. hex_lower_case ! d = digit_alphabet ! d) [0..<16]" by code_simp
  then show "d < 16 \<Longrightarrow> hex_lower_case ! d = digit_alphabet ! d" by (simp add: list_all_iff)
qed

lemma u256_text_radix:
  assumes "2 \<le> unat base" "unat base \<le> 36"
  shows "u256_to_string x base 0 = Some (map (\<lambda>d. digit_alphabet ! d) (radix (unat base) (unat (u256_abs x))))"
proof (cases "u256_abs x = 0")
  case True
  then show ?thesis using assms by (simp add: u256_to_string_def u256_bool_iff zero_text_def radix_single digit_alphabet_def)
next
  case False
  have "unat (u256_bytes x) \<noteq> 0" using False by (simp add: unat_u256_bytes)
  then have ne: "u256_encode_compact x \<noteq> []" using u256_bytes_bound [of x] by (simp add: u256_encode_compact_def Let_def)
  have "horner 256 (map unat (u256_encode_compact x)) = unat (u256_abs x)"
    by (rule drop_zeros_bytes [where n = 32]) (use u256_encode_compact_suffix [of x] in \<open>simp_all add: u256_encode_bytes\<close>)
  moreover have "hex_digit_text (radix 16 n) = map (\<lambda>d. digit_alphabet ! d) (radix 16 n)" for n
    using radix_bound [of 16 _ n] by (simp add: hex_digit_text_def digit_alphabet_hex)
  ultimately have hex: "hex_text (u256_hex_bytes x) 0 = map (\<lambda>d. digit_alphabet ! d) (radix 16 (unat (u256_abs x)))"
    using hex_text_radix [OF ne] by (simp add: u256_hex_bytes_eq)
  have "u256_print_loop base x [] = Some (rev (map (\<lambda>d. digit_alphabet ! d) (radix (unat base) (unat (u256_abs x)))))"
    using u256_printer.prints [OF assms(1), of x "[]"] assms(2) by (simp add: digit_alphabet_def)
  moreover have "unat base = 16" if "base = 16" using that by simp
  ultimately show ?thesis using False hex by (auto simp: u256_to_string_def u256_bool_iff padded_output_def)
qed

section \<open>Reading\<close>

definition text_digits :: "string \<Rightarrow> nat list" where
  "text_digits t = map (\<lambda>c. nat (u256_text_digit c)) t"

lemma u256_text_digit_range: "0 \<le> u256_text_digit c" "u256_text_digit c < 36"
  by (auto simp: u256_text_digit_def)

lemma alphabet_digit: "d < 36 \<Longrightarrow> u256_text_digit (digit_alphabet ! d) = int d"
proof -
  have "list_all (\<lambda>d. u256_text_digit (digit_alphabet ! d) = int d) [0..<36]" by code_simp
  then show "d < 36 \<Longrightarrow> u256_text_digit (digit_alphabet ! d) = int d" by (simp add: list_all_iff)
qed

lemma u256_abs_digit_mul: "u256_abs (int_mul_u256 (u256_text_digit c) p) = of_nat (nat (u256_text_digit c)) * u256_abs p"
proof -
  have r: "0 \<le> u256_text_digit c" "u256_text_digit c < 2 ^ 64" using u256_text_digit_range [of c] by simp_all
  then have "u256_abs (u256_of_int (u256_text_digit c)) = of_nat (nat (u256_text_digit c))"
    by (metis int_nat_eq of_int_of_nat_eq u256_abs_of_int)
  then show ?thesis by (simp add: int_mul_u256_def u256_mul_int_def refine_simps mult.commute)
qed

lemma u256_text_loop_value:
  "u256_abs (u256_text_loop base p x cs) = u256_abs x + u256_abs p * of_nat (horner (unat base) (text_digits (rev cs)))"
proof (induction cs arbitrary: p x)
  case (Cons c cs)
  show ?case using Cons.IH by (simp add: text_digits_def u256_abs_digit_mul u256_mul_assign_int_def refine_simps u8_abs algebra_simps)
qed (simp add: text_digits_def)

lemma u256_of_text_value: "u256_abs (u256_of_text t base) = of_nat (horner (unat base) (text_digits t))"
  by (simp add: u256_of_text_def u256_text_loop_value u256_abs_of_int)

lemma radix_length: "2 \<le> b \<Longrightarrow> n < b ^ k \<Longrightarrow> 0 < k \<Longrightarrow> length (radix b n) \<le> k"
proof (induction k arbitrary: n)
  case (Suc k)
  show ?case
  proof (cases "n < b")
    case False
    then have "k \<noteq> 0" using Suc.prems(2) by (cases k) auto
    moreover have "n div b < b ^ k" using Suc.prems(1,2) by (simp add: div_less_iff_less_mult mult.commute)
    ultimately show ?thesis using Suc.IH [of "n div b"] Suc.prems(1) False radix_step [of b n] by simp
  qed (simp add: radix_single)
qed simp

lemma hex_chars: "d < 16 \<Longrightarrow> isxdigit (hex_lower_case ! d) \<and> xdigit_value (hex_lower_case ! d) = int d \<and> \<not> isspace (hex_lower_case ! d)
    \<and> tolower (hex_lower_case ! d) \<noteq> CHR ''x'' \<and> hex_lower_case ! d \<noteq> CHR ''-'' \<and> hex_lower_case ! d \<noteq> CHR ''+'' \<and> base_mapping (hex_lower_case ! d) = int d"
proof -
  have "list_all (\<lambda>d. isxdigit (hex_lower_case ! d) \<and> xdigit_value (hex_lower_case ! d) = int d \<and> \<not> isspace (hex_lower_case ! d)
    \<and> tolower (hex_lower_case ! d) \<noteq> CHR ''x'' \<and> hex_lower_case ! d \<noteq> CHR ''-'' \<and> hex_lower_case ! d \<noteq> CHR ''+'' \<and> base_mapping (hex_lower_case ! d) = int d) [0..<16]"
    by code_simp
  then show "d < 16 \<Longrightarrow> ?thesis" by (simp add: list_all_iff)
qed

lemma decimal_chars: "d < 10 \<Longrightarrow> hex_lower_case ! d \<noteq> CHR 0x00 \<and> schar (hex_lower_case ! d) = 48 + int d"
proof -
  have "list_all (\<lambda>d. hex_lower_case ! d \<noteq> CHR 0x00 \<and> schar (hex_lower_case ! d) = 48 + int d) [0..<10]" by code_simp
  then show "d < 10 \<Longrightarrow> ?thesis" by (simp add: list_all_iff)
qed

lemma u128_digits_loop_value:
  assumes b: "b \<le> 10" "schar maxi = 47 + int b"
  shows "(\<And>d. d \<in> set ds \<Longrightarrow> d < b) \<Longrightarrow> length ds \<le> n \<Longrightarrow>
    u128_abs (u128_digits_loop (int b) maxi n x (hex_digit_text ds)) = u128_abs x * of_nat (b ^ length ds) + of_nat (horner b ds)"
proof (induction ds arbitrary: n x)
  case (Cons d ds)
  have d: "d < b" using Cons.prems(1) by simp
  then have c: "hex_lower_case ! d \<noteq> CHR 0x00" "schar (hex_lower_case ! d) = 48 + int d" using decimal_chars [of d] b(1) by simp_all
  have "u128_abs (u128_of_int (int b)) = of_nat b" "u128_abs (u128_of_int (int d)) = of_nat d"
    using d b(1) by (simp_all add: u128_abs_of_int)
  then have "u128_abs (u128_add_assign_int (u128_mul_assign_int x (int b)) (int d)) = u128_abs x * of_nat b + of_nat d"
    by (simp add: u128_add_assign_int_def u128_mul_assign_int_def refine_simps)
  moreover have "48 + int d \<le> 47 + int b" using d by simp
  then have "u128_digits_loop (int b) maxi n x (hex_digit_text (d # ds))
      = u128_digits_loop (int b) maxi (n - 1) (u128_add_assign_int (u128_mul_assign_int x (int b)) (int d)) (hex_digit_text ds)"
    using c b(2) Cons.prems(2) by (simp add: hex_digit_text_def)
  ultimately show ?case using Cons.IH [of "n - 1"] Cons.prems by (simp add: horner_Cons algebra_simps)
qed (simp add: hex_digit_text_def)

lemma u128_bits_loop_value:
  "(\<And>d. d \<in> set ds \<Longrightarrow> d < 2) \<Longrightarrow>
   u128_bits_loop (length ds) w (hex_digit_text ds @ rest) = (w * of_nat (2 ^ length ds) + of_nat (horner 2 ds), rest)"
proof (induction ds arbitrary: w)
  case Nil
  then show ?case by (cases rest) (simp_all add: hex_digit_text_def)
next
  case (Cons d ds)
  have d: "d < 2" using Cons.prems by simp
  then have c: "hex_lower_case ! d \<noteq> CHR 0x00" "schar (hex_lower_case ! d) = 48 + int d" using decimal_chars [of d] by simp_all
  have "push_bit 1 w OR word_of_int (int d) = 2 * w + of_nat d"
    using d by (cases d) (auto simp: or_one_eq push_bit_double mult.commute less_Suc_eq numeral_2_eq_2)
  moreover have "int d \<le> 1" using d by simp
  then have "u128_bits_loop (length (d # ds)) w (hex_digit_text (d # ds) @ rest)
      = u128_bits_loop (length ds) (push_bit 1 w OR word_of_int (int d)) (hex_digit_text ds @ rest)"
    using c by (simp add: hex_digit_text_def)
  ultimately show ?case using Cons.IH Cons.prems by (simp add: horner_Cons algebra_simps)
qed

lemma parse_xdigits_value:
  "(\<And>d. d \<in> set ds \<Longrightarrow> d < 16) \<Longrightarrow> parse_xdigits (hex_digit_text ds) = int (horner 16 ds)"
proof -
  assume ds: "\<And>d. d \<in> set ds \<Longrightarrow> d < 16"
  then have "takeWhile isxdigit (hex_digit_text ds) = hex_digit_text ds" using hex_chars by (auto simp: hex_digit_text_def)
  moreover have "foldl (\<lambda>v c. 16 * v + xdigit_value c) 0 (hex_digit_text ds) = int (horner 16 ds)"
    using ds
  proof (induction ds rule: rev_induct)
    case (snoc d ds)
    then show ?case using hex_chars [of d] by (simp add: hex_digit_text_def)
  qed (simp add: hex_digit_text_def)
  ultimately show ?thesis by (simp only: parse_xdigits_def)
qed

lemma stream_hex_value:
  assumes "ds \<noteq> []" "\<And>d. d \<in> set ds \<Longrightarrow> d < 16" "length ds \<le> 16"
  shows "stream_hex old (hex_digit_text ds) = of_nat (horner 16 ds)"
proof -
  obtain d es where ds: "ds = d # es" using assms(1) by (cases ds) auto
  obtain c t where t: "hex_digit_text ds = c # t" and c: "\<not> isspace c" "c \<noteq> CHR ''-''" "c \<noteq> CHR ''+''"
    using hex_chars [of d] assms(2) [of d] ds by (auto simp: hex_digit_text_def)
  have "skip_0x (hex_digit_text ds) = hex_digit_text ds"
  proof (cases es)
    case (Cons e' fs)
    then have "tolower (hex_lower_case ! e') \<noteq> CHR ''x''" using hex_chars [of e'] assms(2) ds by simp
    then show ?thesis using Cons ds by (cases fs) (simp_all add: skip_0x_def hex_digit_text_def)
  qed (simp add: ds skip_0x_def hex_digit_text_def)
  moreover have "horner 16 ds < 16 ^ 16"
    using horner_bound [of ds 16] assms(2,3) power_increasing [of "length ds" 16 "16::nat"] by simp
  ultimately show ?thesis
    using parse_xdigits_value [of ds] assms(2) c by (simp add: stream_hex_def t)
qed

end
