(* ===== verification/UInt_Text_Properties.thy ===== *)
theory UInt_Text_Properties
  imports UInt_Text_Laws
begin

text \<open>
  Properties of the texts of wide integers: printed numbers are read back, decimals have the same value, and
  what is left of an object that the text constructor of \<^verbatim>\<open>uint128\<close> does not set.
\<close>

section \<open>Reading digits\<close>

lemma halves_value:
  assumes "ds = us @ ls" "horner b us < 2 ^ 64" "horner b ls < 2 ^ 64" "us = [] \<or> b ^ length ls = 2 ^ 64"
  shows "unat (u128_abs \<lparr>lower = of_nat (horner b ls), upper = of_nat (horner b us)\<rparr>) = horner b ds"
  using assms by (auto simp: unat_u128_abs unsigned_of_nat take_bit_nat_eq_self horner_append_list)

lemma horner_short: "(\<And>d. d \<in> set ds \<Longrightarrow> d < b) \<Longrightarrow> 0 < b \<Longrightarrow> length ds \<le> k \<Longrightarrow> horner b ds < b ^ k"
  using horner_bound [of ds b] power_increasing [of "length ds" k b] by simp

lemma no_leading_space:
  assumes "ds \<noteq> []" "\<And>d. d \<in> set ds \<Longrightarrow> d < 16"
  shows "dropWhile is_whitespace (hex_digit_text ds) = hex_digit_text ds" "hex_digit_text ds \<noteq> []"
  using assms hex_chars [of "hd ds"] by (cases ds; simp add: hex_digit_text_def is_whitespace_def)+

lemma length_hex_digit_text [simp]: "length (hex_digit_text ds) = length ds"
  by (simp add: hex_digit_text_def)

lemma hex_digit_text_parts [simp]:
  "take k (hex_digit_text ds) = hex_digit_text (take k ds)" "drop k (hex_digit_text ds) = hex_digit_text (drop k ds)"
  by (simp_all add: hex_digit_text_def take_map drop_map)

lemma read_digits:
  assumes ds: "ds \<noteq> []" "\<And>d. d \<in> set ds \<Longrightarrow> d < unat base" and base: "base = 10 \<and> length ds \<le> 39 \<or> base = 8 \<and> length ds \<le> 43"
  shows "u128_abs (u128_of_text x (hex_digit_text ds) base) = u128_abs x * of_nat (unat base ^ length ds) + of_nat (horner (unat base) ds)"
proof -
  have lt: "d < 16" if "d \<in> set ds" for d using ds(2) [OF that] base by auto
  note skip = no_leading_space [OF ds(1) lt]
  have max: "schar (CHR ''9'') = 47 + int 10" "schar (CHR ''7'') = 47 + int 8" by code_simp+
  show ?thesis
  proof (cases "base = 10")
    case True
    then have "length ds \<le> 39" "\<And>d. d \<in> set ds \<Longrightarrow> d < 10" using base ds(2) by auto
    then show ?thesis using True skip u128_digits_loop_value [OF _ max(1), of ds "length ds" x] by (simp add: u128_of_text_def Let_def)
  next
    case False
    then have "base = 8" "length ds \<le> 43" "\<And>d. d \<in> set ds \<Longrightarrow> d < 8" using base ds(2) by auto
    then show ?thesis using skip u128_digits_loop_value [OF _ max(2), of ds "length ds" x] by (simp add: u128_of_text_def Let_def)
  qed
qed

text \<open>Base 2, where the loops shift the digits into members that are zero.\<close>

lemma read_bits:
  assumes ds: "ds \<noteq> []" "\<And>d. d \<in> set ds \<Longrightarrow> d < 2" "length ds \<le> 128"
  shows "unat (u128_abs (u128_of_text (u128 0 0) (hex_digit_text ds) 2)) = horner 2 ds"
proof -
  define k where "k = length ds - 64"
  define us ls where "us = take k ds" and "ls = drop k ds"
  have "d < 16" if "d \<in> set ds" for d using ds(2) [OF that] by simp
  note skip = no_leading_space [OF ds(1) this]
  have len: "length us = k" "length ls = min (length ds) 64" "length us \<le> 64" "length ls \<le> 64" using ds(3) by (auto simp: us_def ls_def k_def)
  have sub: "\<And>d. d \<in> set us \<Longrightarrow> d < 2" "\<And>d. d \<in> set ls \<Longrightarrow> d < 2"
    using ds(2) by (auto simp: us_def ls_def dest: in_set_takeD in_set_dropD)
  have t: "hex_digit_text ds = hex_digit_text us @ hex_digit_text ls @ []"
    by (simp add: us_def ls_def hex_digit_text_def flip: map_append)
  have "u128_of_text (u128 0 0) (hex_digit_text ds) 2 = (let (up, data) = u128_bits_loop (length us) 0 (hex_digit_text ds); (low, data) = u128_bits_loop (length ls) 0 data
      in \<lparr>lower = low, upper = up\<rparr>)"
    using skip ds(3) len by (auto simp: u128_of_text_def Let_def k_def)
  also have "\<dots> = \<lparr>lower = of_nat (horner 2 ls), upper = of_nat (horner 2 us)\<rparr>"
    unfolding t using u128_bits_loop_value [OF sub(1)] u128_bits_loop_value [OF sub(2), of ls 0 "[]"] by simp
  finally have eq: "u128_of_text (u128 0 0) (hex_digit_text ds) 2 = \<lparr>lower = of_nat (horner 2 ls), upper = of_nat (horner 2 us)\<rparr>" .
  have "us = [] \<or> (2::nat) ^ length ls = 2 ^ 64" using len by (auto simp: us_def k_def)
  moreover have "horner 2 us < 2 ^ 64" "horner 2 ls < 2 ^ 64" using horner_short [of us 2 64] horner_short [of ls 2 64] sub len by simp_all
  ultimately show ?thesis unfolding eq by (intro halves_value) (simp_all add: us_def ls_def)
qed

lemma read_hex:
  assumes ds: "ds \<noteq> []" "\<And>d. d \<in> set ds \<Longrightarrow> d < 16" "length ds \<le> 32" and x: "16 < length ds \<or> upper x = 0"
  shows "unat (u128_abs (u128_of_text x (hex_digit_text ds) 16)) = horner 16 ds"
proof -
  define k where "k = length ds - 16"
  define us ls where "us = take k ds" and "ls = drop k ds"
  note skip = no_leading_space [OF ds(1,2)]
  have len: "length us = k" "length ls = min (length ds) 16" "length us \<le> 16" "length ls \<le> 16" using ds(3) by (auto simp: us_def ls_def k_def)
  have sub: "\<And>d. d \<in> set us \<Longrightarrow> d < 16" "\<And>d. d \<in> set ls \<Longrightarrow> d < 16"
    using ds(2) by (auto simp: us_def ls_def dest: in_set_takeD in_set_dropD)
  have "ls \<noteq> []" using ds(1) by (cases ds) (auto simp: ls_def k_def)
  then have low: "stream_hex (lower x) (hex_digit_text ls) = of_nat (horner 16 ls)" using stream_hex_value [OF _ sub(2)] len(4) by simp
  have up: "stream_hex (upper x) (hex_digit_text us) = of_nat (horner 16 us)"
    using x len(1) stream_hex_value [OF _ sub(1)] len(3) by (cases "us = []") (auto simp: stream_hex_def hex_digit_text_def k_def)
  have "u128_of_text x (hex_digit_text ds) 16 = \<lparr>lower = stream_hex (lower x) (hex_digit_text ls), upper = stream_hex (upper x) (hex_digit_text us)\<rparr>"
    using skip ds(3) by (auto simp: u128_of_text_def Let_def us_def ls_def k_def min_def)
  then have eq: "u128_of_text x (hex_digit_text ds) 16 = \<lparr>lower = of_nat (horner 16 ls), upper = of_nat (horner 16 us)\<rparr>"
    using low up by simp
  have "us = [] \<or> (16::nat) ^ length ls = 2 ^ 64" using len by (auto simp: us_def k_def)
  moreover have "horner 16 us < 2 ^ 64" "horner 16 ls < 2 ^ 64"
    using horner_short [of us 16 16] horner_short [of ls 16 16] sub len by simp_all
  ultimately show ?thesis unfolding eq by (intro halves_value) (simp_all add: us_def ls_def)
qed

section \<open>Round trips\<close>

lemma u128_radix_length:
  assumes "2 \<le> b" "2 ^ 128 \<le> b ^ k" "0 < k"
  shows "length (radix b (unat (u128_abs x))) \<le> k"
  using radix_length [OF assms(1) _ assms(3)] unsigned_less [of "u128_abs x", where 'a = nat] assms(2) by simp

lemma u128_print_read_onto:
  assumes "base = 8 \<or> base = 10"
  shows "\<exists>t. u128_to_string x base 0 = Some t \<and> u128_abs (u128_of_text m t base) = u128_abs m * of_nat (unat base ^ length t) + u128_abs x"
proof -
  let ?ds = "radix (unat base) (unat (u128_abs x))"
  have b: "2 \<le> unat base" "unat base \<le> 16" using assms by auto
  have "2 ^ 128 \<le> (10::nat) ^ 39" "2 ^ 128 \<le> (8::nat) ^ 43" by simp_all
  then have "base = 10 \<and> length ?ds \<le> 39 \<or> base = 8 \<and> length ?ds \<le> 43"
    using assms u128_radix_length [OF b(1), of 39 x] u128_radix_length [OF b(1), of 43 x] by auto
  from read_digits [OF radix_not_Nil radix_bound [OF b(1)] this, where x = m]
  have "u128_abs (u128_of_text m (hex_digit_text ?ds) base) = u128_abs m * of_nat (unat base ^ length ?ds) + u128_abs x"
    by (simp add: horner_radix [OF b(1)])
  then show ?thesis using u128_text_radix [OF b, of x] by auto
qed

lemma u128_print_read_hex:
  assumes "2 ^ 64 \<le> unat (u128_abs x) \<or> upper m = 0"
  shows "\<exists>t. u128_to_string x 16 0 = Some t \<and> u128_of_text m t 16 = x"
proof -
  let ?ds = "radix 16 (unat (u128_abs x))"
  have h: "horner 16 ?ds = unat (u128_abs x)" by (simp add: horner_radix)
  have d: "d < 16" if "d \<in> set ?ds" for d using radix_bound [OF _ that] by simp
  have "16 < length ?ds \<or> upper m = 0" using assms horner_short [of ?ds 16 16] d h by (cases "length ?ds \<le> 16") auto
  from read_hex [OF radix_not_Nil d _ this] u128_radix_length [of 16 32 x]
  have "unat (u128_abs (u128_of_text m (hex_digit_text ?ds) 16)) = unat (u128_abs x)" by (simp add: h)
  then have "u128_of_text m (hex_digit_text ?ds) 16 = x" by (simp only: word_unat_eq_iff [symmetric] u128_abs_inject)
  then show ?thesis using u128_text_radix [of 16 x] by simp
qed

lemma u256_print_read:
  assumes "2 \<le> unat base" "unat base \<le> 36"
  shows "\<exists>t. u256_to_string x base 0 = Some t \<and> u256_of_text t base = x"
proof -
  let ?ds = "radix (unat base) (unat (u256_abs x))"
  have "d < 36" if "d \<in> set ?ds" for d using radix_bound [OF assms(1) that] assms(2) by simp
  then have "text_digits (map (\<lambda>d. digit_alphabet ! d) ?ds) = ?ds" by (simp add: text_digits_def alphabet_digit map_idI)
  then have "u256_abs (u256_of_text (map (\<lambda>d. digit_alphabet ! d) ?ds) base) = u256_abs x"
    by (simp only: u256_of_text_value horner_radix [OF assms(1)]) simp
  then show ?thesis using u256_text_radix [OF assms, of x] by (simp add: u256_abs_inject)
qed

text \<open>
  C32: \<^verbatim>\<open>to_string\<close> of a \<^verbatim>\<open>uint256\<close> ends in every base from 2 to 36, its loop of divisions included, and the constructor reads
  the number back.  The constructor of \<^verbatim>\<open>uint128\<close> does not set its members first: whatever they hold (\<open>m\<close>), reading a number
  that was printed in base 8 or 10 gives \<open>m\<close> times the base to the number of digits, plus the number; in base 16 a number from
  \<open>2 ^ 64\<close> on is read back whatever the members hold, and a smaller one when the upper member is zero.
\<close>

theorem uint_text_round_trip:
  "(2 \<le> unat base \<and> unat base \<le> 36 \<longrightarrow> (\<exists>t. u256_to_string x base 0 = Some t \<and> u256_of_text t base = x))
   \<and> (base \<in> {8, 10} \<longrightarrow> (\<exists>t. u128_to_string y base 0 = Some t
        \<and> u128_abs (u128_of_text m t base) = u128_abs m * of_nat (unat base ^ length t) + u128_abs y))
   \<and> (2 ^ 64 \<le> unat (u128_abs y) \<or> upper m = 0 \<longrightarrow> (\<exists>t. u128_to_string y 16 0 = Some t \<and> u128_of_text m t 16 = y))"
  using u256_print_read [of base x] u128_print_read_onto [of base y m] u128_print_read_hex [of y m] by blast

theorem uint_text_round_trip_witness:
  "(\<exists>t. u256_to_string (u256_of_int 1295) 10 0 = Some t \<and> u256_of_text t 10 = u256_of_int 1295)
   \<and> (\<exists>t. u128_to_string (u128 1 2) 10 0 = Some t \<and>
        u128_abs (u128_of_text (u128 0 7) t 10) = u128_abs (u128 0 7) * of_nat (10 ^ length t) + u128_abs (u128 1 2))
   \<and> (\<exists>t. u128_to_string (u128 1 2) 16 0 = Some t \<and> u128_of_text (u128 0 7) t 16 = u128 1 2)"
  using uint_text_round_trip [of 10 "u256_of_int 1295" "u128 1 2" "u128 0 7"] by (simp add: u128_def)

lemma dec_from_hex:
  assumes "\<And>d. d \<in> set ds \<Longrightarrow> d < 16"
  shows "dec_wf (dec_from (hex_digit_text ds) 16) \<and> dec_val (dec_from (hex_digit_text ds) 16) = of_nat (horner 16 ds)"
proof -
  have "foldl (\<lambda>v c. v * 16 + base_mapping c) 0 (hex_digit_text ds) = int (horner 16 ds)"
    using assms
  proof (induction ds rule: rev_induct)
    case (snoc d ds)
    then show ?case using hex_chars [of d] by (simp add: hex_digit_text_def)
  qed (simp add: hex_digit_text_def)
  then show ?thesis using dec_from_correct [of "hex_digit_text ds" 16] by simp
qed

text \<open>
  C33: \<^verbatim>\<open>to_decimal\<close> is exact: the decimal that is read from the hexadecimal text is well formed and has the value of the number.
\<close>

theorem uint_to_decimal:
  "\<exists>d e. u128_to_decimal x = Some d \<and> dec_wf d \<and> dec_val d = of_nat (unat (u128_abs x))
     \<and> u256_to_decimal y = Some e \<and> dec_wf e \<and> dec_val e = of_nat (unat (u256_abs y))"
proof -
  have digits: "hex_digit_text (radix 16 n) = map (\<lambda>d. digit_alphabet ! d) (radix 16 n)" for n
    using radix_bound [of 16 _ n] by (simp add: hex_digit_text_def digit_alphabet_hex)
  have "dec_wf (dec_from (hex_digit_text (radix 16 n)) 16) \<and> dec_val (dec_from (hex_digit_text (radix 16 n)) 16) = of_nat n" for n
    using dec_from_hex [of "radix 16 n"] radix_bound [of 16 _ n] horner_radix [of 16 n] by simp
  then show ?thesis
    using u128_text_radix [of 16 x] u256_text_radix [of 16 y] digits by (simp add: u128_to_decimal_def u256_to_decimal_def)
qed

text \<open>
  The constructor of a \<^verbatim>\<open>uint128\<close> from a decimal or octal text adds the digits to what the members held before, which
  nothing has set; from a short hexadecimal text it leaves the upper half as it was.
\<close>

theorem u128_text_keeps_members:
  assumes "ds \<noteq> []" "\<And>d. d \<in> set ds \<Longrightarrow> d < 10" "length ds \<le> 39"
  shows "u128_abs (u128_of_text x (hex_digit_text ds) 10) = u128_abs x * of_nat (10 ^ length ds) + of_nat (horner 10 ds)"
  using read_digits [OF assms(1), of 10 x] assms(2,3) by simp

theorem u128_text_keeps_members_witness: "u128_of_text (u128 0 7) ''5'' 10 = u128 0 75 \<and> u128_of_text (u128 9 7) ''5'' 16 = u128 9 5"
proof
  have "hex_digit_text [5] = ''5''" by code_simp
  then have "u128_abs (u128_of_text (u128 0 7) ''5'' 10) = u128_abs (u128 0 7) * 10 + 5"
    using u128_text_keeps_members [of "[5]" "u128 0 7"] by (simp add: horner_def)
  moreover have "u128_abs (u128 0 7) * 10 + 5 = u128_abs (u128 0 75)" by code_simp
  ultimately show "u128_of_text (u128 0 7) ''5'' 10 = u128 0 75" by (simp add: u128_abs_inject)
qed code_simp

text \<open>
  Limits of \<^verbatim>\<open>to_string\<close> and of the text constructors: a length with base 16 appends zeros behind the digits, capital letters
  are read as zero, and the digits are not compared with the base.
\<close>

theorem uint_text_gaps:
  "u256_to_string (u256_of_int 255) 16 6 = Some ''ff0000'' 
   \<and> u256_of_text ''FF'' 16 = u256_of_int 0 \<and> u256_of_text ''z'' 10 = u256_of_int 35"
proof (intro conjI)
  show "u256_to_string (u256_of_int 255) 16 6 = Some ''ff0000''" by code_simp
  show "u256_of_text ''FF'' 16 = u256_of_int 0" by code_simp
  show "u256_of_text ''z'' 10 = u256_of_int 35" by code_simp
qed

end
