(* ===== verification/Spec2Isabelle.thy ===== *)
theory Spec2Isabelle
  imports UInt256 Decimal_Properties Codec_Properties Stringify_Properties Http_Properties
    Http_Chunked_Properties Web_Codec_Properties Allocator_Properties
    Schema_Properties Schema_Heap_Properties Hash_Properties Http_Multipart_Properties UInt_Text_Properties
begin

text \<open>
  \<^bold>\<open>Vitex\<close> is a C++ runtime library (\<^verbatim>\<open>src/src/vitex\<close>): core utilities (\<^verbatim>\<open>core.h\<close>, \<^verbatim>\<open>core.cpp\<close>: memory,
  numbers, text, variants, files, schedule), computation (\<^verbatim>\<open>compute.h\<close>, \<^verbatim>\<open>compute.cpp\<close>: wide integers,
  codecs, cryptography, geometry), networking (\<^verbatim>\<open>network.cpp\<close> and \<^verbatim>\<open>network/\<close>: sockets, HTTP, data
  bases), an application layer and bindings to a script engine.  This development models the parts whose
  behaviour is decided by the library's own code and not by a library or the operating system.

  \<^bold>\<open>Theories and sources.\<close>

  \<^item> \<open>Vitex_Prelude\<close>: machine words and lemmas shared by all components.  \<open>Endian\<close>: byte order
    (\<^verbatim>\<open>core.cpp\<close>, \<^verbatim>\<open>os::hw\<close>).  \<open>Chars\<close>: characters and the pieces of the C and C++ libraries that the
    sources use on texts.
  \<^item> \<open>Wide_Word\<close>, \<open>UInt128\<close>, \<open>UInt256\<close> (\<^verbatim>\<open>compute.h\<close>, \<^verbatim>\<open>compute.cpp\<close>): the wide integers, a record of two
    halves each, with every operator, template and friend.  The operations refine the arithmetic of a
    word of 128 or 256 bits; the contract is a locale that both widths interpret.  \<open>UInt_Text\<close> (model),
    \<open>UInt_Text_Laws\<close>, \<open>UInt_Text_Properties\<close>: their texts, with the locale \<open>radix_printer\<close> of loops that split off digits.
  \<^item> \<open>Decimal\<close>, \<open>Decimal_Text\<close> (model), \<open>Decimal_Value\<close>, \<open>Decimal_Arith\<close>, \<open>Exact_Number\<close>, \<open>Decimal_Conv\<close>,
    \<open>Decimal_Division\<close> (lemmas), \<open>Decimal_Properties\<close> (\<^verbatim>\<open>core.h\<close>, \<^verbatim>\<open>core.cpp\<close>): decimal numbers of any
    length as digit texts; value, arithmetic, order, parsing, printing, rounding, division.
  \<^item> \<open>Codec\<close> (model), \<open>Codec_Laws\<close> (locales of text codecs), \<open>Codec_Base64\<close>, \<open>Codec_Base45\<close>,
    \<open>Codec_Base32\<close>, \<open>Radix\<close>, \<open>Codec_Numbers\<close> (lemmas), \<open>Codec_Properties\<close> (\<^verbatim>\<open>compute.cpp\<close>): base 64, 45 and
    32, hexadecimal and percent encodings, the keyed rotation, UTF-8, number printing.
  \<^item> \<open>Stringify\<close> (model), \<open>Stringify_Laws\<close>, \<open>Stringify_Properties\<close> (\<^verbatim>\<open>core.cpp\<close>, \<^verbatim>\<open>stringify\<close>): searching,
    classification, trimming, escaping, replacing, splitting, pattern matching, decoding of UTF-8.
  \<^item> \<open>Allocators\<close> (model), \<open>Allocator_Laws\<close>, \<open>Allocator_Properties\<close> (\<^verbatim>\<open>core.cpp\<close>): the linear and the stack
    allocator; a program and its allocator are a transition system, and safety is an invariant of it
    (locale \<open>transition_invariant\<close>).
  \<^item> \<open>Http_Frames\<close>, \<open>Http_Parser\<close> (model), \<open>Http_Laws\<close>, \<open>Http_Properties\<close> (\<^verbatim>\<open>network/http.cpp\<close>): header maps,
    cookies, ranges, request and response frames, the printing of a head and the parser that reads it.
    The stringify component is used by the frames and the parser.
  \<^item> \<open>Http_Chunked\<close> (model), \<open>Http_Chunked_Laws\<close>, \<open>Http_Chunked_Properties\<close>: the decoder of chunked
    bodies, which works in place; it refines an automaton that reads byte by byte.
  \<^item> \<open>Web_Codec\<close> (model), \<open>Web_Codec_Properties\<close>: the parser of web socket frames and the frame that is sent.
  \<^item> \<open>Http_Multipart\<close> (model), \<open>Http_Multipart_Laws\<close>, \<open>Http_Multipart_Body\<close>, \<open>Http_Multipart_Properties\<close>:
    the parser of multipart bodies, a state machine that writes the contents to files; the search for
    the boundary refines an automaton that reads byte by byte.
  \<^item> \<open>Hash\<close> (model), \<open>Hash_Laws\<close>, \<open>Hash_Sha1\<close>, \<open>Hash_Crc\<close>, \<open>Hash_Properties\<close> (\<^verbatim>\<open>compute.cpp\<close>): the streaming MD5
    hasher, SHA-1 and the two cyclic checks.  \<open>Stream_Consumer\<close> is the locale of consumers of data that
    arrives in pieces; the hasher is an instance of it, and so is the content scanner of the multipart parser.
  \<^item> \<open>Variant\<close> (model), \<open>Variant_Laws\<close> (\<^verbatim>\<open>core.cpp\<close>, \<^verbatim>\<open>variant\<close>, \<^verbatim>\<open>var\<close>): the tagged union of null, boolean,
    numbers, decimals, texts and binary data, with its text form and its readers.
  \<^item> \<open>Schema\<close>, \<open>Schema_Binary\<close>, \<open>Schema_Json\<close>, \<open>Schema_Readers\<close>, \<open>Schema_Properties\<close> and the theories they
    import (\<^verbatim>\<open>core.cpp\<close>, \<^verbatim>\<open>schema\<close>): trees of named variants, their queries and their binary and JSON forms.
  \<^item> \<open>Schema_Heap\<close> (model), \<open>Schema_Heap_Laws\<close>, \<open>Schema_Heap_Ops\<close>, \<open>Schema_Heap_Properties\<close>: the same class as
    counted nodes on a heap, with every operation that changes links; programs over it are a transition
    system (locale \<open>transition_invariant\<close>).

  \<^bold>\<open>How code is translated.\<close>  A class is a record, an enumeration a datatype, a method a function that
  returns the new state.  Integers of a fixed width are words, or natural numbers with the reduction
  modulo \<open>2 ^ 64\<close> written out (allocators).  A pointer into a buffer is the text from there on, or an
  index where the code writes to the buffer (chunked decoder).  Objects that several owners share are
  nodes of a heap, a map from addresses to records with a count of owners (schemas).  Exceptions, error
  codes, reads past the end and values that are never set are values of an error type (\<open>parse_error\<close>,
  \<^const>\<open>None\<close>).  Loops are recursive functions with termination proofs; loops that the sources do not bound
  are partial functions whose value \<^const>\<open>None\<close> is a run that never ends, and both termination and
  divergence are proved as such.  Fuel is used in two places: the reader of the binary form takes the
  length of its input, and \<open>jsonb_reader_total\<close> shows that it is enough; the release of a
  heap node takes a bound on the number of nodes, and the size of the heap is enough for every heap that
  satisfies the invariant.  The allocators take the list of the blocks that \<^verbatim>\<open>memory::allocate\<close> will return: one
  block is enough for an allocation (\<open>allocation_ends\<close>).  Assertions (\<^verbatim>\<open>VI_ASSERT\<close>) are compiled out in
  release builds and are not branches of the model; where an asserted condition bears on a property, the property has it
  as a hypothesis.  Memory allocation outside the allocators is taken to succeed, also where the sources ask for as
  much as a count in the input says (reader of the binary form).  Views are taken to be followed by a null character where
  the sources hand them to functions of the C library (\<^verbatim>\<open>strstr\<close>, \<^verbatim>\<open>strcspn\<close>) or index them at their end (\<^verbatim>\<open>match\<close>).
  Lengths and indices of type \<^verbatim>\<open>int32_t\<close> in decimals are unbounded, so digit texts are below \<open>2 ^ 31\<close> characters.

  \<^bold>\<open>Parameters.\<close>  The arithmetic and the texts of \<^verbatim>\<open>double\<close>, the value that \<^verbatim>\<open>rapidjson\<close> parses, the order in
  which an unordered map is visited, the file system and the random names of the multipart parser, the
  contents of an array before it is written (SHA-1), the members of an object before its constructor sets them (\<^verbatim>\<open>uint128\<close>) and the blocks of the system allocator are
  arguments of the definitions that use them.

  \<^bold>\<open>What the lemmas show.\<close>  Wide integers: refinement of modular arithmetic, division by the
  restoring loop, shifts, encodings, round trip of texts in every base (\<^verbatim>\<open>uint256\<close>; the constructor of \<^verbatim>\<open>uint128\<close>
  adds to what its members held).  Decimals: exact arithmetic on values, order, round trip of
  texts, truncated quotients, and the inputs on which the division goes wrong.  Codecs: decoding
  undoes encoding, equality of base 64 with the encoding of RFC 4648.  Hashes: the digests equal those of their
  standards, whatever the pieces are; the cyclic checks are those of their standards on bytes below 128 only.  Texts: splitting and replacing equal their
  specifications; matching and decoding, with the inputs on which they do not return.  Allocators:
  blocks in use never overlap.  Schemas: no operation reads a released node and the links stay
  consistent, but for the merging \<^verbatim>\<open>join\<close>, which \<open>schema_join_gaps\<close> shows to break them; a release frees exactly what is no
  longer held; the binary form is read back, and so is the JSON form of trees whose values keep their meaning in it.  HTTP:
  the parser never reads past its buffer, incremental and full scans agree, printed requests (without cookies and with header values that are not empty) are read
  back; the chunked decoder refines its automaton, keeps its invariant and can be resumed after any
  byte; web socket frames are read back, and masked or fragmented messages are not; multipart bodies
  are read back, with contents in any pieces, and headers in pieces are not.

  \<^bold>\<open>Not modelled.\<close>  Floating-point conversions of decimals, geometry (floating point); compression,
  ciphers, keys and digests of OpenSSL, the parsers of JSON and XML (libraries); files, processes, sockets, the
  event loop (operating system); the schedule, promises and coroutines (threads and context switches);
  the script engine and its bindings; data base clients; routing, sessions and the static file server, which are callbacks of the
  event loop; the XML writer, regular expressions and the remaining
  searches of stringify.
\<close>

end
